(* ===== verification/Prelude.thy ===== *)
theory Prelude
  imports Main "HOL-Library.Word" "HOL-Library.Monad_Syntax"
begin

text \<open>
  Shared vocabulary of the development: the widths the firmware uses, array accesses that
  fail instead of reading or writing outside an array, NUL-terminated strings, the lifting of
  a partial step function to a run over a list of inputs, and the word lemmas behind every
  byte-packing routine.

  A definition of the model whose type is \<open>'a option\<close> returns \<open>None\<close> exactly where
  the C code has undefined behaviour (an access outside an array, a NULL or wrongly typed
  pointer); C's own error returns are ordinary values.
\<close>

unbundle bit_operations_syntax

section \<open>Integer types\<close>

type_synonym u8 = "8 word"
type_synonym u16 = "16 word"
type_synonym u32 = "32 word"

text \<open>\<open>INT32S\<close> is kept as its 32 bits; \<^const>\<open>sint\<close> reads it.\<close>

type_synonym i32 = "32 word"

section \<open>Array accesses\<close>

definition rd :: "'a list \<Rightarrow> nat \<Rightarrow> 'a option" where
  "rd xs i = (if i < length xs then Some (xs ! i) else None)"

definition wr :: "'a list \<Rightarrow> nat \<Rightarrow> 'a \<Rightarrow> 'a list option" where
  "wr xs i v = (if i < length xs then Some (xs[i := v]) else None)"

lemma rd_eq_Some [simp]: "rd xs i = Some v \<longleftrightarrow> i < length xs \<and> xs ! i = v"
  by (auto simp: rd_def)

lemma rd_eq_None [simp]: "rd xs i = None \<longleftrightarrow> length xs \<le> i"
  by (auto simp: rd_def)

lemma wr_eq_Some [simp]: "wr xs i v = Some ys \<longleftrightarrow> i < length xs \<and> ys = xs[i := v]"
  by (auto simp: wr_def)

lemma wr_eq_None [simp]: "wr xs i v = None \<longleftrightarrow> length xs \<le> i"
  by (auto simp: wr_def)

lemma rd_in: "i < length xs \<Longrightarrow> rd xs i = Some (xs ! i)"
  by simp

lemma wr_in: "i < length xs \<Longrightarrow> wr xs i v = Some (xs[i := v])"
  by simp

text \<open>Writing a run of elements from an index on, as a \<open>memcpy\<close> or \<open>sprintf\<close> does.\<close>

fun wr_seq :: "'a list \<Rightarrow> nat \<Rightarrow> 'a list \<Rightarrow> 'a list option" where
  "wr_seq xs i [] = Some xs"
| "wr_seq xs i (v # vs) = (case wr xs i v of None \<Rightarrow> None | Some xs' \<Rightarrow> wr_seq xs' (Suc i) vs)"

lemma wr_seq_eq:
  "i + length vs \<le> length xs \<Longrightarrow>
     wr_seq xs i vs = Some (take i xs @ vs @ drop (i + length vs) xs)"
proof (induction vs arbitrary: xs i)
  case Nil
  then show ?case by simp
next
  case (Cons v vs)
  then have i: "i < length xs" by simp
  then have "wr_seq xs i (v # vs) = wr_seq (xs[i := v]) (Suc i) vs"
    by (simp add: wr_in)
  also have "\<dots> = Some (take (Suc i) (xs[i := v]) @ vs @ drop (Suc i + length vs) (xs[i := v]))"
    using Cons.prems by (intro Cons.IH) simp
  finally show ?case
    using i by (simp add: take_Suc_conv_app_nth)
qed

lemma wr_seq_None: "length xs < i + length vs \<Longrightarrow> vs \<noteq> [] \<Longrightarrow> wr_seq xs i vs = None"
proof (induction vs arbitrary: xs i)
  case Nil
  then show ?case by simp
next
  case (Cons v vs)
  then show ?case
    by (cases vs) (auto split: option.splits)
qed

lemma wr_seq_length: "wr_seq xs i vs = Some ys \<Longrightarrow> length ys = length xs"
  by (induction vs arbitrary: xs i) (auto split: option.splits)

section \<open>NUL-terminated strings\<close>

text \<open>The string a char array holds: its bytes before the first NUL.\<close>

definition c_str :: "u8 list \<Rightarrow> u8 list" where
  "c_str buf = takeWhile (\<lambda>c. c \<noteq> 0) buf"

text \<open>
  \<open>strcpy(dest, src)\<close>: the bytes of \<open>src\<close> up to its NUL and the NUL itself. Undefined
  when \<open>src\<close> has no NUL or the copy does not fit; the rest of \<open>dest\<close> is left as it was.
\<close>

definition strcpy :: "u8 list \<Rightarrow> u8 list \<Rightarrow> u8 list option" where
  "strcpy dest src =
     (if 0 \<in> set src then wr_seq dest 0 (c_str src @ [0]) else None)"

lemma c_str_no_nul [simp]: "0 \<notin> set (c_str buf)"
  by (auto simp: c_str_def dest: set_takeWhileD)

lemma c_str_append_nul [simp]: "0 \<notin> set s \<Longrightarrow> c_str (s @ 0 # rest) = s"
  by (induction s) (auto simp: c_str_def)

lemma c_str_length_less: "0 \<in> set buf \<Longrightarrow> length (c_str buf) < length buf"
  by (induction buf) (auto simp: c_str_def)

lemma strcpy_eq_Some:
  assumes "0 \<in> set src" and "length (c_str src) < length dest"
  shows "strcpy dest src = Some (c_str src @ 0 # drop (Suc (length (c_str src))) dest)"
  using assms by (simp add: strcpy_def wr_seq_eq)

lemma strcpy_c_str:
  assumes "strcpy dest src = Some d"
  shows "c_str d = c_str src \<and> length d = length dest \<and> 0 \<in> set d"
proof -
  from assms have z: "0 \<in> set src" and w: "wr_seq dest 0 (c_str src @ [0]) = Some d"
    by (auto simp: strcpy_def split: if_splits)
  have fit: "length (c_str src) < length dest"
  proof (rule ccontr)
    assume "\<not> ?thesis"
    then have "wr_seq dest 0 (c_str src @ [0]) = None"
      by (intro wr_seq_None) auto
    with w show False by simp
  qed
  with assms strcpy_eq_Some [OF z fit] show ?thesis by auto
qed

text \<open>What an array of 30 or 32 characters must satisfy to be copied into one of its size.\<close>

definition fits_string :: "nat \<Rightarrow> u8 list \<Rightarrow> bool" where
  "fits_string n buf \<longleftrightarrow> 0 \<in> set buf \<and> length (c_str buf) < n"

lemma strcpy_fits: "fits_string (length dest) src \<Longrightarrow> \<exists>d. strcpy dest src = Some d"
  by (auto simp: fits_string_def strcpy_eq_Some)

section \<open>Running a partial step function\<close>

text \<open>A run stops with \<open>None\<close> at the first step that is undefined.\<close>

fun run :: "('i \<Rightarrow> 's \<Rightarrow> 's option) \<Rightarrow> 'i list \<Rightarrow> 's \<Rightarrow> 's option" where
  "run f [] s = Some s"
| "run f (i # is) s = (case f i s of None \<Rightarrow> None | Some s' \<Rightarrow> run f is s')"

lemma run_append: "run f (is @ js) s = Option.bind (run f is s) (run f js)"
  by (induction "is" arbitrary: s) (auto split: option.splits)

lemma run_append_Some: "run f is s = Some t \<Longrightarrow> run f (is @ js) s = run f js t"
  by (simp add: run_append)

text \<open>
  The contract every interrupt handler of the model meets: from a state that satisfies the
  handler's invariant a step is defined and keeps the invariant. Then no input sequence can
  drive the handler into undefined behaviour.
\<close>

locale safe_handler =
  fixes step :: "'i \<Rightarrow> 's \<Rightarrow> 's option"
    and ok_input :: "'i \<Rightarrow> bool"
    and inv :: "'s \<Rightarrow> bool"
  assumes step_safe: "inv s \<Longrightarrow> ok_input i \<Longrightarrow> \<exists>t. step i s = Some t \<and> inv t"
begin

lemma run_safe: "inv s \<Longrightarrow> list_all ok_input is \<Longrightarrow> \<exists>t. run step is s = Some t \<and> inv t"
proof (induction "is" arbitrary: s)
  case Nil
  then show ?case by simp
next
  case (Cons i "is")
  then obtain u where "step i s = Some u" and "inv u"
    using step_safe by fastforce
  with Cons show ?case by simp
qed

lemma run_keeps_inv: "inv s \<Longrightarrow> list_all ok_input is \<Longrightarrow> run step is s = Some t \<Longrightarrow> inv t"
  using run_safe by fastforce

end

section \<open>Refinement of an abstract machine\<close>

text \<open>
  Runs with outputs, of a partial step function and of a total one, and the condition that every
  input of a run of the latter is allowed where it occurs.
\<close>

fun trace :: "('i \<Rightarrow> 's \<Rightarrow> ('o \<times> 's) option) \<Rightarrow> 'i list \<Rightarrow> 's \<Rightarrow> ('o list \<times> 's) option" where
  "trace f [] s = Some ([], s)"
| "trace f (i # is) s =
     (case f i s of None \<Rightarrow> None
      | Some (out, s') \<Rightarrow> map_option (\<lambda>(outs, s''). (out # outs, s'')) (trace f is s'))"

fun abs_trace :: "('i \<Rightarrow> 'a \<Rightarrow> 'o \<times> 'a) \<Rightarrow> 'i list \<Rightarrow> 'a \<Rightarrow> 'o list \<times> 'a" where
  "abs_trace f [] a = ([], a)"
| "abs_trace f (i # is) a =
     (let (out, a') = f i a; (outs, a'') = abs_trace f is a' in (out # outs, a''))"

fun allowed_trace :: "('i \<Rightarrow> 'a \<Rightarrow> 'o \<times> 'a) \<Rightarrow> ('i \<Rightarrow> 'a \<Rightarrow> bool) \<Rightarrow> 'i list \<Rightarrow> 'a \<Rightarrow> bool" where
  "allowed_trace f ok [] a \<longleftrightarrow> True"
| "allowed_trace f ok (i # is) a \<longleftrightarrow> ok i a \<and> allowed_trace f ok is (snd (f i a))"

locale simulation =
  fixes cstep :: "'i \<Rightarrow> 's \<Rightarrow> ('o \<times> 's) option"
    and astep :: "'i \<Rightarrow> 'a \<Rightarrow> 'o \<times> 'a"
    and ok :: "'i \<Rightarrow> 'a \<Rightarrow> bool"
    and rel :: "'s \<Rightarrow> 'a \<Rightarrow> bool"
  assumes step_sim: "rel s a \<Longrightarrow> ok i a \<Longrightarrow> \<exists>t. cstep i s = Some (fst (astep i a), t) \<and> rel t (snd (astep i a))"
begin

lemma trace_sim:
  "rel s a \<Longrightarrow> allowed_trace astep ok is a \<Longrightarrow>
     \<exists>t. trace cstep is s = Some (fst (abs_trace astep is a), t) \<and> rel t (snd (abs_trace astep is a))"
proof (induction "is" arbitrary: s a)
  case Nil
  then show ?case by simp
next
  case (Cons i "is")
  then obtain t where "cstep i s = Some (fst (astep i a), t)" "rel t (snd (astep i a))"
    using step_sim by fastforce
  with Cons.IH [of t "snd (astep i a)"] Cons.prems show ?case by (fastforce simp: split_beta)
qed

end

section \<open>Bytes and words\<close>

text \<open>The two ways the firmware puts a 16-bit value together from bytes.\<close>

definition word16 :: "u8 \<Rightarrow> u8 \<Rightarrow> u16" where
  "word16 hi lo = push_bit 8 (ucast hi) OR ucast lo"

definition hi8 :: "u16 \<Rightarrow> u8" where
  "hi8 w = ucast (drop_bit 8 w)"

definition lo8 :: "u16 \<Rightarrow> u8" where
  "lo8 w = ucast w"

lemma bit_word16:
  "bit (word16 hi lo) n \<longleftrightarrow> (if n < 8 then bit lo n else bit hi (n - 8))"
  by (auto simp: word16_def bit_simps dest: bit_imp_le_length)

lemma word16_hi8_lo8 [simp]: "word16 (hi8 w) (lo8 w) = w"
  by (rule bit_word_eqI) (auto simp: bit_word16 hi8_def lo8_def bit_simps)

lemma hi8_word16 [simp]: "hi8 (word16 hi lo) = hi"
  by (rule bit_word_eqI) (auto simp: bit_word16 hi8_def bit_simps)

lemma lo8_word16 [simp]: "lo8 (word16 hi lo) = lo"
  by (rule bit_word_eqI) (auto simp: bit_word16 lo8_def bit_simps)

lemma word16_inject [simp]: "word16 a b = word16 c d \<longleftrightarrow> a = c \<and> b = d"
  by (metis hi8_word16 lo8_word16)

lemma unat_inc: "(x :: 'a :: len word) < y \<Longrightarrow> unat (x + 1) = Suc (unat x)"
proof -
  assume "x < y"
  then have "unat x < unat y" by (simp add: word_less_nat_alt)
  moreover have "unat y < 2 ^ LENGTH('a)" by (rule unsigned_less)
  ultimately have "Suc (unat x) < 2 ^ LENGTH('a)" by linarith
  then show ?thesis by (simp add: unat_word_ariths)
qed

lemma unat_dec: "(x :: 'a :: len word) > 0 \<Longrightarrow> unat (x - 1) = unat x - 1"
  by (simp add: unat_minus_one word_gt_0)

lemma inc_not_zero: "(x :: 'a :: len word) < y \<Longrightarrow> x + 1 \<noteq> 0"
  using unat_inc [of x y] by (metis nat.distinct(1) unat_0)

definition word32 :: "u8 \<Rightarrow> u8 \<Rightarrow> u8 \<Rightarrow> u8 \<Rightarrow> u32" where
  "word32 b3 b2 b1 b0 =
     push_bit 24 (ucast b3) OR push_bit 16 (ucast b2) OR push_bit 8 (ucast b1) OR ucast b0"

definition byte_of :: "nat \<Rightarrow> u32 \<Rightarrow> u8" where
  "byte_of k w = ucast (drop_bit (8 * k) w)"

lemma bit_word32:
  "bit (word32 b3 b2 b1 b0) n \<longleftrightarrow>
     (if n < 8 then bit b0 n else if n < 16 then bit b1 (n - 8)
      else if n < 24 then bit b2 (n - 16) else bit b3 (n - 24))"
  by (auto simp: word32_def bit_simps dest: bit_imp_le_length)

lemma word32_byte_of [simp]:
  "word32 (byte_of 3 w) (byte_of 2 w) (byte_of 1 w) (byte_of 0 w) = w"
  by (rule bit_word_eqI) (auto simp: bit_word32 byte_of_def bit_simps)

end
