(* ===== verification/Sensor_Data.thy ===== *)
theory Sensor_Data
  imports Prelude
begin

text \<open>
  The data of the measuring point table: the configuration structs, the ranges and the upload
  record of \<open>Task/Sensor.h\<close>, the frame structs of \<open>BoardSupport/com_uart.h\<close> and the
  \<open>Testpoint\<close> node of \<open>Task/EquipmentList.h\<close>.

  The four configuration structs of the C code start with the same four members; the records
  below share them by record extension. A \<open>float\<close> is only ever copied and is kept as its
  32 bits. A function pointer of a \<open>Testpoint\<close> is the sensor class whose function it points
  to, a \<open>void *\<close> to a configuration is the datatype of the structs it may point to, and
  \<open>None\<close> is NULL. Links between nodes are addresses (natural numbers) in a store.
\<close>

section \<open>Configuration\<close>

definition VALUE_UNDEF :: i32 where
  "VALUE_UNDEF = - 2147483640"

record Range =
  minval :: i32
  maxval :: i32

record Config_Base =
  testpointNo :: i32
  sensorName :: u16
  location :: "u8 list"
  portType :: u16

record Output_Config = Config_Base +
  outputControl :: "u8 \<times> u8"

record Analogue_Config = Output_Config +
  outage :: Range
  recover :: Range
  alarm :: Range
  liftAlarm :: Range
  measureRange :: Range
  coefficient :: u32

type_synonym Switch_Config = Output_Config

record Accumulate_Config = Config_Base +
  measureMaxVal :: i32
  shift :: i32
  acc_coefficient :: u32

record Tristate_Config = Output_Config +
  current :: "i32 \<times> i32 \<times> i32 \<times> i32"

datatype Config =
    AnalogueC Analogue_Config
  | SwitchC Switch_Config
  | AccumulateC Accumulate_Config
  | TristateC Tristate_Config
  | HeadText "u8 list"

text \<open>Dereferencing a \<open>void *\<close> cast to a struct: undefined at NULL and at another struct.\<close>

fun as_analogue :: "Config option \<Rightarrow> Analogue_Config option" where
  "as_analogue (Some (AnalogueC c)) = Some c"
| "as_analogue _ = None"

fun as_switch :: "Config option \<Rightarrow> Switch_Config option" where
  "as_switch (Some (SwitchC c)) = Some c"
| "as_switch _ = None"

fun as_accumulate :: "Config option \<Rightarrow> Accumulate_Config option" where
  "as_accumulate (Some (AccumulateC c)) = Some c"
| "as_accumulate _ = None"

fun as_tristate :: "Config option \<Rightarrow> Tristate_Config option" where
  "as_tristate (Some (TristateC c)) = Some c"
| "as_tristate _ = None"

lemma as_analogue_Some [simp]: "as_analogue p = Some c \<longleftrightarrow> p = Some (AnalogueC c)"
  by (cases p rule: as_analogue.cases) auto

lemma as_switch_Some [simp]: "as_switch p = Some c \<longleftrightarrow> p = Some (SwitchC c)"
  by (cases p rule: as_switch.cases) auto

lemma as_accumulate_Some [simp]: "as_accumulate p = Some c \<longleftrightarrow> p = Some (AccumulateC c)"
  by (cases p rule: as_accumulate.cases) auto

lemma as_tristate_Some [simp]: "as_tristate p = Some c \<longleftrightarrow> p = Some (TristateC c)"
  by (cases p rule: as_tristate.cases) auto

section \<open>Sensor classes\<close>

datatype Sensor_Class = Analogue | Switch | Accumulate | Tristate

text \<open>The values of \<open>EquipmentType\<close> that \<open>Sensor.h\<close> names.\<close>

definition SENSOR_UNSURE :: u16 where "SENSOR_UNSURE = 0"
definition SENSOR_ANALOGUE :: u16 where "SENSOR_ANALOGUE = 1"
definition SENSOR_SWITCH :: u16 where "SENSOR_SWITCH = 2"
definition SENSOR_ACCUMULATE :: u16 where "SENSOR_ACCUMULATE = 3"
definition SENSOR_TRISTATE :: u16 where "SENSOR_TRISTATE = 4"

lemmas sensor_type_defs =
  SENSOR_UNSURE_def SENSOR_ANALOGUE_def SENSOR_SWITCH_def SENSOR_ACCUMULATE_def SENSOR_TRISTATE_def

text \<open>The class a configuration struct belongs to.\<close>

fun class_of :: "Config \<Rightarrow> Sensor_Class option" where
  "class_of (AnalogueC _) = Some Analogue"
| "class_of (SwitchC _) = Some Switch"
| "class_of (AccumulateC _) = Some Accumulate"
| "class_of (TristateC _) = Some Tristate"
| "class_of (HeadText _) = None"

section \<open>Frames of the acquisition board\<close>

record RcvStruct =
  Fre :: "u16 list"
  AD :: "u16 list"
  count :: "u32 list"
  sel :: u16

definition wf_rcv :: "RcvStruct \<Rightarrow> bool" where
  "wf_rcv r \<longleftrightarrow> length (Fre r) = 16 \<and> length (AD r) = 16 \<and> length (count r) = 16"

record SendStruct =
  clearFreCount :: u16
  SEL :: u16
  outPut :: u8

section \<open>Measuring points\<close>

record Upload_Info =
  up_testpointNo :: i32
  collectTime :: "u8 list"
  collectData :: i32
  sensorState :: u8

type_synonym addr = nat

record Testpoint =
  EquipmentType :: u32
  config :: "Config option"
  upload :: Upload_Info
  EquipmentSem :: "nat option"
  link :: "addr option"
  p_setConfig :: "Sensor_Class option"
  p_getShowInfo :: "Sensor_Class option"
  p_getDataFromUart :: "Sensor_Class option"
  p_ifAlarm :: "Sensor_Class option"
  p_ifLiftAlarm :: "Sensor_Class option"
  p_ifOutput :: "Sensor_Class option"
  p_ifRecover :: "Sensor_Class option"
  p_controlOutput :: "Sensor_Class option"
  p_controlRecover :: "Sensor_Class option"

text \<open>The write every \<open>getDataFromUart\<close> function makes.\<close>

definition set_data :: "i32 \<Rightarrow> Testpoint \<Rightarrow> Testpoint" where
  "set_data v tp = tp\<lparr>upload := (upload tp)\<lparr>collectData := v\<rparr>\<rparr>"

lemma set_data_simps [simp]:
  "config (set_data v tp) = config tp"
  "collectData (upload (set_data v tp)) = v"
  "up_testpointNo (upload (set_data v tp)) = up_testpointNo (upload tp)"
  "collectTime (upload (set_data v tp)) = collectTime (upload tp)"
  "sensorState (upload (set_data v tp)) = sensorState (upload tp)"
  "link (set_data v tp) = link tp"
  "EquipmentType (set_data v tp) = EquipmentType tp"
  "EquipmentSem (set_data v tp) = EquipmentSem tp"
  by (simp_all add: set_data_def)

section \<open>Concrete values\<close>

text \<open>A configured analogue point and a received frame, the inputs of several examples.\<close>

definition ex_analogue :: Analogue_Config where
  "ex_analogue = \<lparr>testpointNo = 7, sensorName = 10001, location = 0x41 # 0x31 # replicate 28 0,
     portType = 18, outputControl = (0x81, 0x85),
     outage = \<lparr>minval = VALUE_UNDEF, maxval = 70\<rparr>, recover = \<lparr>minval = 50, maxval = VALUE_UNDEF\<rparr>,
     alarm = \<lparr>minval = VALUE_UNDEF, maxval = 60\<rparr>, liftAlarm = \<lparr>minval = 60, maxval = VALUE_UNDEF\<rparr>,
     measureRange = \<lparr>minval = 0, maxval = 400\<rparr>, coefficient = 0x3F800000\<rparr>"

definition ex_analogue2 :: Analogue_Config where
  "ex_analogue2 = ex_analogue\<lparr>testpointNo := 9, location := 0x42 # 0 # replicate 28 0x43, portType := 3\<rparr>"

definition ex_point :: Testpoint where
  "ex_point = \<lparr>EquipmentType = 1, config = Some (AnalogueC ex_analogue),
     upload = \<lparr>up_testpointNo = 7, collectTime = replicate 20 0, collectData = 0, sensorState = 0\<rparr>,
     EquipmentSem = None, link = None, p_setConfig = Some Analogue, p_getShowInfo = Some Analogue,
     p_getDataFromUart = Some Analogue, p_ifAlarm = Some Analogue, p_ifLiftAlarm = Some Analogue,
     p_ifOutput = Some Analogue, p_ifRecover = Some Analogue, p_controlOutput = Some Analogue,
     p_controlRecover = Some Analogue\<rparr>"

definition ex_rcv :: RcvStruct where
  "ex_rcv = \<lparr>Fre = replicate 16 200, AD = [1, 2, 305, 4, 5, 6, 7, 8, 9, 10, 11, 12, 13, 14, 15, 16],
     count = replicate 16 100000, sel = 0x8001\<rparr>"

lemma ex_analogue_simps [simp]:
  "length (location ex_analogue) = 30" "length (location ex_analogue2) = 30"
  "fits_string 30 (location ex_analogue2)" "fits_string 30 (location ex_analogue)"
  by (simp_all add: ex_analogue_def ex_analogue2_def fits_string_def c_str_def)

lemmas ex_defs = ex_analogue_def ex_analogue2_def ex_point_def ex_rcv_def

end
