(* ===== verification/Sensor_Operation.thy ===== *)
theory Sensor_Operation
  imports Sensor_Data
begin

text \<open>
  \<open>Task/Sensor_Operation.c\<close>: names of sensors and ports, taking a value from an
  acquisition frame, copying a configuration, and the alarm, cut-off and restore decisions of
  the four sensor classes. The functions of one class are what the function pointers of a
  \<open>Testpoint\<close> point to; the contract the four sets share is the locale \<open>sensor_class\<close>.
\<close>

section \<open>Names\<close>

text \<open>The rows of the tables are the strings of the source file (GB2312), without padding.\<close>

definition SensorTable :: "u8 list list" where
  "SensorTable =
    [[0xCD, 0xDF, 0xCB, 0xB9],
     [0xB8, 0xDF, 0xB5, 0xCD, 0xC5, 0xA8, 0xB6, 0xC8, 0xCD, 0xDF, 0xCB, 0xB9],
     [0xB7, 0xE7, 0xCB, 0xD9],
     [0xCE, 0xC2, 0xB6, 0xC8],
     [0xB7, 0xE7, 0xD1, 0xB9],
     [0xB8, 0xBA, 0xD1, 0xB9],
     [0xCB, 0xAE, 0xCE, 0xBB],
     [0xB7, 0xDB, 0xB3, 0xBE],
     [0xD1, 0xF5, 0xC6, 0xF8],
     [0xD2, 0xBB, 0xD1, 0xF5, 0xBB, 0xAF, 0xCC, 0xBC],
     [0xB6, 0xFE, 0xD1, 0xF5, 0xBB, 0xAF, 0xCC, 0xBC],
     [0xB9, 0xDC, 0xB5, 0xC0, 0xCD, 0xDF, 0xCB, 0xB9],
     [0xB9, 0xDC, 0xB5, 0xC0, 0xCE, 0xC2, 0xB6, 0xC8],
     [0xB9, 0xDC, 0xB5, 0xC0, 0xB8, 0xBA, 0xD1, 0xB9],
     [0xB9, 0xDC, 0xB5, 0xC0, 0xC1, 0xF7, 0xC1, 0xBF],
     [0xBF, 0xAA, 0xCD, 0xA3],
     [0xBF, 0xAA, 0xB9, 0xD8],
     [0xB7, 0xE7, 0xC3, 0xC5],
     [0xB7, 0xE7, 0xBB, 0xFA],
     [0xB7, 0xE7, 0xCD, 0xB2],
     [0xC0, 0xA1, 0xB5, 0xE7],
     [0xD1, 0xCC, 0xCE, 0xED],
     [],
     [],
     [],
     [0xB9, 0xB3, 0xCA, 0xFD],
     [0xB2, 0xFA, 0xC1, 0xBF],
     [0xC0, 0xDB, 0xBC, 0xC6, 0xB7, 0xBD, 0xCA, 0xBD],
     [],
     [],
     [0xBF, 0xAA, 0xCD, 0xA3],
     [0xBF, 0xAA, 0xB9, 0xD8],
     [0xB7, 0xE7, 0xC3, 0xC5],
     [0xB7, 0xE7, 0xBB, 0xFA],
     [0xB7, 0xE7, 0xCD, 0xB2],
     [0xC0, 0xA1, 0xB5, 0xE7],
     [0xD1, 0xCC, 0xCE, 0xED],
     [],
     [],
     []]"

definition PortTable :: "u8 list list" where
  "PortTable =
    [[0x31],
     [0x32],
     [0x33],
     [0x34],
     [0x35],
     [0x36],
     [0x37],
     [0x38],
     [0x39],
     [0x31, 0x30],
     [0x31, 0x31],
     [0x31, 0x32],
     [0x31, 0x33],
     [0x31, 0x34],
     [0x31, 0x35],
     [0x31, 0x36],
     [0x34, 0x38, 0x35, 0x2D, 0x31],
     [0x34, 0x38, 0x35, 0x2D, 0x32],
     [0x34, 0x38, 0x35, 0x2D, 0x33],
     [0x34, 0x38, 0x35, 0x2D, 0x34]]"

text \<open>
  The row \<open>getSensorName\<close> indexes, as the C code computes it in \<open>int\<close>; the index may
  be negative or past the table, and then the read is undefined.
\<close>

definition sensor_row :: "u16 \<Rightarrow> int option" where
  "sensor_row n =
     (let v = uint n in
      if v div 10000 = 1 then Some (v mod 100 - 1)
      else if v div 10000 = 2 then Some (v mod 10 - 1 + 15)
      else if v div 10000 = 3 then Some (v mod 10 - 1 + 25)
      else if v div 10000 = 4 then Some (v mod 10 - 1 + 30)
      else None)"

definition getSensorName :: "u16 \<Rightarrow> u8 list option" where
  "getSensorName n =
     (case sensor_row n of
        None \<Rightarrow> Some []
      | Some i \<Rightarrow> if i < 0 then None else rd SensorTable (nat i))"

definition getPortType :: "u16 \<Rightarrow> u8 list option" where
  "getPortType p = (if unat p < 64 then rd PortTable (unat p mod 16) else rd PortTable 16)"

section \<open>Taking a value from an acquisition frame\<close>

text \<open>
  The four functions differ only in the struct they cast \<open>tp->config\<close> to. The port type
  selects one of the four groups of channels and the channel in it; any other group leaves
  the value as it was.
\<close>

definition read_port :: "RcvStruct \<Rightarrow> u16 \<Rightarrow> i32 \<Rightarrow> i32 option" where
  "read_port rcv port old =
     (let movebit = unat port mod 16 in
      if unat port div 16 = 0 then map_option ucast (rd (Fre rcv) movebit)
      else if unat port div 16 = 1 then map_option ucast (rd (AD rcv) movebit)
      else if unat port div 16 = 2 then rd (count rcv) movebit
      else if unat port div 16 = 3 then Some (ucast (drop_bit movebit (sel rcv) AND 1))
      else Some old)"

definition fetch :: "u16 \<Rightarrow> RcvStruct \<Rightarrow> Testpoint \<Rightarrow> Testpoint option" where
  "fetch port rcv tp =
     map_option (\<lambda>v. set_data v tp) (read_port rcv port (collectData (upload tp)))"

fun getDataFromUart_Analogue :: "RcvStruct option \<Rightarrow> Testpoint option \<Rightarrow> Testpoint option option" where
  "getDataFromUart_Analogue (Some rcv) (Some tp) = do {
     c \<leftarrow> as_analogue (config tp);
     map_option Some (fetch (portType c) rcv tp) }"
| "getDataFromUart_Analogue _ tp = Some tp"

fun getDataFromUart_Switch :: "RcvStruct option \<Rightarrow> Testpoint option \<Rightarrow> Testpoint option option" where
  "getDataFromUart_Switch (Some rcv) (Some tp) = do {
     c \<leftarrow> as_switch (config tp);
     map_option Some (fetch (portType c) rcv tp) }"
| "getDataFromUart_Switch _ tp = Some tp"

fun getDataFromUart_Accumulate :: "RcvStruct option \<Rightarrow> Testpoint option \<Rightarrow> Testpoint option option" where
  "getDataFromUart_Accumulate (Some rcv) (Some tp) = do {
     c \<leftarrow> as_accumulate (config tp);
     map_option Some (fetch (portType c) rcv tp) }"
| "getDataFromUart_Accumulate _ tp = Some tp"

fun getDataFromUart_Tristate :: "RcvStruct option \<Rightarrow> Testpoint option \<Rightarrow> Testpoint option option" where
  "getDataFromUart_Tristate (Some rcv) (Some tp) = do {
     c \<leftarrow> as_tristate (config tp);
     map_option Some (fetch (portType c) rcv tp) }"
| "getDataFromUart_Tristate _ tp = Some tp"

section \<open>Upload record and configuration\<close>

definition setUpload :: "Upload_Info \<Rightarrow> Upload_Info \<Rightarrow> Upload_Info option" where
  "setUpload dest src = do {
     t \<leftarrow> strcpy (collectTime dest) (collectTime src);
     Some (dest\<lparr>collectData := collectData src, sensorState := sensorState src, collectTime := t\<rparr>) }"

definition getUploadInfo :: "Upload_Info \<Rightarrow> Upload_Info" where
  "getUploadInfo src = src"

text \<open>Each \<open>setConfig\<close> returns what \<open>dest\<close> points to afterwards.\<close>

definition setConfig_Analogue :: "Config option \<Rightarrow> Config option \<Rightarrow> Config option option" where
  "setConfig_Analogue dest src =
     (if dest = None \<or> src = None then Some dest
      else do {
        d \<leftarrow> as_analogue dest;
        s \<leftarrow> as_analogue src;
        loc \<leftarrow> strcpy (location d) (location s);
        Some (Some (AnalogueC (d\<lparr>testpointNo := testpointNo s, sensorName := sensorName s,
          portType := portType s,
          outputControl := (fst (outputControl s), snd (outputControl s)),
          outage := outage s, recover := recover s, alarm := alarm s, liftAlarm := liftAlarm s,
          measureRange := measureRange s, coefficient := coefficient s, location := loc\<rparr>))) })"

definition setConfig_Switch :: "Config option \<Rightarrow> Config option \<Rightarrow> Config option option" where
  "setConfig_Switch dest src =
     (if dest = None \<or> src = None then Some dest
      else do {
        d \<leftarrow> as_switch dest;
        s \<leftarrow> as_switch src;
        loc \<leftarrow> strcpy (location d) (location s);
        Some (Some (SwitchC (d\<lparr>testpointNo := testpointNo s, sensorName := sensorName s,
          portType := portType s,
          outputControl := (fst (outputControl s), snd (outputControl s)), location := loc\<rparr>))) })"

definition setConfig_Accumulate :: "Config option \<Rightarrow> Config option \<Rightarrow> Config option option" where
  "setConfig_Accumulate dest src =
     (if dest = None \<or> src = None then Some dest
      else do {
        d \<leftarrow> as_accumulate dest;
        s \<leftarrow> as_accumulate src;
        loc \<leftarrow> strcpy (location d) (location s);
        Some (Some (AccumulateC (d\<lparr>testpointNo := testpointNo s, sensorName := sensorName s,
          portType := portType s, measureMaxVal := measureMaxVal s,
          acc_coefficient := acc_coefficient s, shift := shift s, location := loc\<rparr>))) })"

text \<open>The loop over \<open>current[4]\<close> copies the four elements.\<close>

definition setConfig_Tristate :: "Config option \<Rightarrow> Config option \<Rightarrow> Config option option" where
  "setConfig_Tristate dest src =
     (if dest = None \<or> src = None then Some dest
      else do {
        d \<leftarrow> as_tristate dest;
        s \<leftarrow> as_tristate src;
        loc \<leftarrow> strcpy (location d) (location s);
        Some (Some (TristateC (d\<lparr>testpointNo := testpointNo s, sensorName := sensorName s,
          portType := portType s,
          outputControl := (fst (outputControl s), snd (outputControl s)),
          current := current s, location := loc\<rparr>))) })"

section \<open>Decisions\<close>

text \<open>Each decision dereferences \<open>tp->config\<close> without a NULL check.\<close>

definition ifAlarm_Analogue :: "Testpoint \<Rightarrow> bool option" where
  "ifAlarm_Analogue tp = do {
     c \<leftarrow> as_analogue (config tp);
     Some (if minval (alarm c) \<noteq> VALUE_UNDEF
              \<and> sint (collectData (upload tp)) \<le> sint (minval (alarm c)) then True
           else if maxval (alarm c) \<noteq> VALUE_UNDEF
              \<and> sint (collectData (upload tp)) \<ge> sint (maxval (alarm c)) then True
           else False) }"

definition ifAlarm_Switch :: "Testpoint \<Rightarrow> bool option" where
  "ifAlarm_Switch tp = Some False"

definition ifAlarm_Accumulate :: "Testpoint \<Rightarrow> bool option" where
  "ifAlarm_Accumulate tp = Some False"

definition ifAlarm_Tristate :: "Testpoint \<Rightarrow> bool option" where
  "ifAlarm_Tristate tp = Some False"

definition ifLiftAlarm_Analogue :: "Testpoint \<Rightarrow> bool option" where
  "ifLiftAlarm_Analogue tp = do {
     c \<leftarrow> as_analogue (config tp);
     Some (if minval (liftAlarm c) \<noteq> VALUE_UNDEF
              \<and> sint (collectData (upload tp)) < sint (minval (liftAlarm c)) then True
           else if maxval (liftAlarm c) \<noteq> VALUE_UNDEF
              \<and> sint (collectData (upload tp)) > sint (maxval (liftAlarm c)) then True
           else False) }"

definition ifLiftAlarm_Switch :: "Testpoint \<Rightarrow> bool option" where
  "ifLiftAlarm_Switch tp = Some False"

definition ifLiftAlarm_Accumulate :: "Testpoint \<Rightarrow> bool option" where
  "ifLiftAlarm_Accumulate tp = Some False"

definition ifLiftAlarm_Tristate :: "Testpoint \<Rightarrow> bool option" where
  "ifLiftAlarm_Tristate tp = Some False"

definition ifOutput_Analogue :: "Testpoint \<Rightarrow> bool option" where
  "ifOutput_Analogue tp = do {
     c \<leftarrow> as_analogue (config tp);
     Some (if minval (outage c) \<noteq> VALUE_UNDEF
              \<and> sint (collectData (upload tp)) \<le> sint (minval (outage c)) then True
           else if maxval (outage c) \<noteq> VALUE_UNDEF
              \<and> sint (collectData (upload tp)) \<ge> sint (maxval (outage c)) then True
           else False) }"

definition ifOutput_Switch :: "Testpoint \<Rightarrow> bool option" where
  "ifOutput_Switch tp = Some False"

definition ifOutput_Accumulate :: "Testpoint \<Rightarrow> bool option" where
  "ifOutput_Accumulate tp = Some False"

definition ifOutput_Tristate :: "Testpoint \<Rightarrow> bool option" where
  "ifOutput_Tristate tp = Some False"

definition ifRecover_Analogue :: "Testpoint \<Rightarrow> bool option" where
  "ifRecover_Analogue tp = do {
     c \<leftarrow> as_analogue (config tp);
     Some (if minval (recover c) \<noteq> VALUE_UNDEF
              \<and> sint (collectData (upload tp)) \<le> sint (minval (recover c)) then True
           else if maxval (recover c) \<noteq> VALUE_UNDEF
              \<and> sint (collectData (upload tp)) \<ge> sint (maxval (recover c)) then True
           else False) }"

definition ifRecover_Switch :: "Testpoint \<Rightarrow> bool option" where
  "ifRecover_Switch tp = Some False"

definition ifRecover_Accumulate :: "Testpoint \<Rightarrow> bool option" where
  "ifRecover_Accumulate tp = Some False"

definition ifRecover_Tristate :: "Testpoint \<Rightarrow> bool option" where
  "ifRecover_Tristate tp = Some False"

section \<open>Output channels\<close>

text \<open>One pass of the loops of \<open>controlOutput_Analogue\<close> and \<open>controlRecover_Analogue\<close>.\<close>

definition output_bit :: "u8 \<times> u8 \<Rightarrow> nat \<Rightarrow> u8 \<Rightarrow> u8" where
  "output_bit oc i ret =
     (let bit0 = drop_bit i (fst oc) AND 1; bit1 = drop_bit i (snd oc) AND 1
      in ret OR push_bit i (bit0 AND bit1))"

definition recover_bit :: "u8 \<times> u8 \<Rightarrow> nat \<Rightarrow> u8 \<Rightarrow> u8" where
  "recover_bit oc i ret =
     (let bit0 = drop_bit i (fst oc) AND 1; bit1 = drop_bit i (snd oc) AND 1
      in ret OR push_bit i (if bit0 AND bit1 = 0 then 1 else 0))"

definition controlOutput_Analogue :: "Testpoint \<Rightarrow> u8 option" where
  "controlOutput_Analogue tp = do {
     c \<leftarrow> as_analogue (config tp);
     Some (fold (output_bit (outputControl c)) [0..<8] 0) }"

definition controlOutput_Switch :: "Testpoint \<Rightarrow> u8 option" where
  "controlOutput_Switch tp = Some 0"

definition controlOutput_Accumulate :: "Testpoint \<Rightarrow> u8 option" where
  "controlOutput_Accumulate tp = Some 0"

definition controlOutput_Tristate :: "Testpoint \<Rightarrow> u8 option" where
  "controlOutput_Tristate tp = Some 0"

definition controlRecover_Analogue :: "Testpoint \<Rightarrow> u8 option" where
  "controlRecover_Analogue tp = do {
     c \<leftarrow> as_analogue (config tp);
     Some (fold (recover_bit (outputControl c)) [0..<8] 0) }"

definition controlRecover_Switch :: "Testpoint \<Rightarrow> u8 option" where
  "controlRecover_Switch tp = Some 0"

definition controlRecover_Accumulate :: "Testpoint \<Rightarrow> u8 option" where
  "controlRecover_Accumulate tp = Some 0"

definition controlRecover_Tristate :: "Testpoint \<Rightarrow> u8 option" where
  "controlRecover_Tristate tp = Some 0"

section \<open>Names: which numbers have one\<close>

lemma length_SensorTable [simp]: "length SensorTable = 40"
  by (simp add: SensorTable_def)

lemma length_PortTable [simp]: "length PortTable = 20"
  by (simp add: PortTable_def)

lemma uint_u16_bound: "uint (n :: u16) < 65536"
  using uint_lt2p [of n] by simp

text \<open>
  The row is computed without a bounds check. It leaves the table exactly for the analogue
  numbers whose last two digits are 00 or exceed 40.
\<close>

lemma getSensorName_None_iff:
  "getSensorName n = None \<longleftrightarrow>
     uint n div 10000 = 1 \<and> (uint n mod 100 = 0 \<or> 40 < uint n mod 100)"
proof -
  have "\<And>m. (0::int) \<le> m mod 10" "\<And>m. m mod 10 < (10::int)" "\<And>m. (0::int) \<le> m mod 100"
    by simp_all
  then show ?thesis
    by (auto simp: getSensorName_def sensor_row_def Let_def nat_le_iff not_less
        split: option.splits if_splits)
qed

lemma getPortType_total:
  "getPortType p = Some (if unat p < 64 then PortTable ! (unat p mod 16) else PortTable ! 16)"
proof -
  have "unat p mod 16 < 16" by simp
  then have "unat p mod 16 < 20" by linarith
  then show ?thesis by (simp add: getPortType_def)
qed

section \<open>The output mask loops\<close>

lemma bit_and_one [simp]: "bit (x AND (1 :: 'a :: len word)) n \<longleftrightarrow> n = 0 \<and> bit x 0"
  by (cases n) (auto simp: bit_simps bit_1_iff)

lemma bit_output_bit:
  "bit (output_bit oc i r) n \<longleftrightarrow>
     bit r n \<or> (n < 8 \<and> n = i \<and> bit (fst oc) n \<and> bit (snd oc) n)"
  by (auto simp: output_bit_def Let_def bit_simps dest: bit_imp_le_length)

lemma and_one_zero_iff: "(drop_bit i a AND 1) AND (drop_bit i b AND 1) = (0 :: u8) \<longleftrightarrow> \<not> (bit a i \<and> bit b i)"
proof
  assume "(drop_bit i a AND 1) AND (drop_bit i b AND 1) = (0 :: u8)"
  then have "\<not> bit ((drop_bit i a AND 1) AND (drop_bit i b AND 1)) 0" by simp
  then show "\<not> (bit a i \<and> bit b i)" by (simp add: bit_simps)
next
  assume "\<not> (bit a i \<and> bit b i)"
  then show "(drop_bit i a AND 1) AND (drop_bit i b AND 1) = (0 :: u8)"
    by (intro bit_word_eqI) (auto simp: bit_simps intro!: gr0I)
qed

lemma bit_recover_bit:
  "bit (recover_bit oc i r) n \<longleftrightarrow>
     bit r n \<or> (n < 8 \<and> n = i \<and> \<not> (bit (fst oc) n \<and> bit (snd oc) n))"
  unfolding recover_bit_def Let_def and_one_zero_iff
  by (auto simp: bit_simps dest: bit_imp_le_length)

lemma bit_output_loop:
  "k \<le> 8 \<Longrightarrow> bit (fold (output_bit oc) [0..<k] 0) n \<longleftrightarrow> n < k \<and> bit (fst oc) n \<and> bit (snd oc) n"
  by (induction k) (auto simp: bit_output_bit less_Suc_eq)

lemma bit_recover_loop:
  "k \<le> 8 \<Longrightarrow>
     bit (fold (recover_bit oc) [0..<k] 0) n \<longleftrightarrow> n < k \<and> \<not> (bit (fst oc) n \<and> bit (snd oc) n)"
  by (induction k) (auto simp: bit_recover_bit less_Suc_eq)

text \<open>The mask of a measuring point: the channels both bytes of \<open>outputControl\<close> name.\<close>

definition out_mask :: "u8 \<times> u8 \<Rightarrow> u8" where
  "out_mask oc = fst oc AND snd oc"

lemma output_loop_eq: "fold (output_bit oc) [0..<8] 0 = out_mask oc"
  by (rule bit_word_eqI) (simp add: bit_output_loop out_mask_def bit_simps)

lemma recover_loop_eq: "fold (recover_bit oc) [0..<8] 0 = NOT (out_mask oc)"
  by (rule bit_word_eqI) (simp add: bit_recover_loop out_mask_def bit_simps)

lemma controlOutput_Analogue_eq:
  "config tp = Some (AnalogueC c) \<Longrightarrow> controlOutput_Analogue tp = Some (out_mask (outputControl c))"
  by (simp add: controlOutput_Analogue_def output_loop_eq)

lemma controlRecover_Analogue_eq:
  "config tp = Some (AnalogueC c) \<Longrightarrow>
     controlRecover_Analogue tp = Some (NOT (out_mask (outputControl c)))"
  by (simp add: controlRecover_Analogue_def recover_loop_eq)

section \<open>Decisions as range tests\<close>

text \<open>The test the alarm, cut-off and restore decisions make, each on its own range.\<close>

definition reaches :: "Range \<Rightarrow> i32 \<Rightarrow> bool" where
  "reaches r v \<longleftrightarrow>
     minval r \<noteq> VALUE_UNDEF \<and> sint v \<le> sint (minval r)
     \<or> maxval r \<noteq> VALUE_UNDEF \<and> sint (maxval r) \<le> sint v"

definition passes :: "Range \<Rightarrow> i32 \<Rightarrow> bool" where
  "passes r v \<longleftrightarrow>
     minval r \<noteq> VALUE_UNDEF \<and> sint v < sint (minval r)
     \<or> maxval r \<noteq> VALUE_UNDEF \<and> sint (maxval r) < sint v"

lemma decisions_Analogue:
  assumes "config tp = Some (AnalogueC c)"
  shows "ifAlarm_Analogue tp = Some (reaches (alarm c) (collectData (upload tp)))"
    and "ifLiftAlarm_Analogue tp = Some (passes (liftAlarm c) (collectData (upload tp)))"
    and "ifOutput_Analogue tp = Some (reaches (outage c) (collectData (upload tp)))"
    and "ifRecover_Analogue tp = Some (reaches (recover c) (collectData (upload tp)))"
  using assms
  by (simp_all add: ifAlarm_Analogue_def ifLiftAlarm_Analogue_def ifOutput_Analogue_def
      ifRecover_Analogue_def reaches_def passes_def)

lemmas constant_decisions =
  ifAlarm_Switch_def ifAlarm_Accumulate_def ifAlarm_Tristate_def
  ifLiftAlarm_Switch_def ifLiftAlarm_Accumulate_def ifLiftAlarm_Tristate_def
  ifOutput_Switch_def ifOutput_Accumulate_def ifOutput_Tristate_def
  ifRecover_Switch_def ifRecover_Accumulate_def ifRecover_Tristate_def
  controlOutput_Switch_def controlOutput_Accumulate_def controlOutput_Tristate_def
  controlRecover_Switch_def controlRecover_Accumulate_def controlRecover_Tristate_def

section \<open>Settings of a configuration\<close>

fun cfg_port :: "Config \<Rightarrow> u16" where
  "cfg_port (AnalogueC c) = portType c"
| "cfg_port (SwitchC c) = portType c"
| "cfg_port (AccumulateC c) = portType c"
| "cfg_port (TristateC c) = portType c"
| "cfg_port (HeadText _) = 0"

fun cfg_location :: "Config \<Rightarrow> u8 list" where
  "cfg_location (AnalogueC c) = location c"
| "cfg_location (SwitchC c) = location c"
| "cfg_location (AccumulateC c) = location c"
| "cfg_location (TristateC c) = location c"
| "cfg_location (HeadText t) = t"

fun no_location :: "Config \<Rightarrow> Config" where
  "no_location (AnalogueC c) = AnalogueC (c\<lparr>location := []\<rparr>)"
| "no_location (SwitchC c) = SwitchC (c\<lparr>location := []\<rparr>)"
| "no_location (AccumulateC c) = AccumulateC (c\<lparr>location := []\<rparr>)"
| "no_location (TristateC c) = TristateC (c\<lparr>location := []\<rparr>)"
| "no_location (HeadText t) = HeadText []"

text \<open>
  Two structs hold the same settings: equal members and the same place name. The bytes of the
  name's array behind its NUL may differ, since \<open>strcpy\<close> leaves them.
\<close>

definition same_settings :: "Config \<Rightarrow> Config \<Rightarrow> bool" where
  "same_settings a b \<longleftrightarrow>
     no_location a = no_location b \<and> c_str (cfg_location a) = c_str (cfg_location b)"

lemma same_settings_class: "same_settings a b \<Longrightarrow> class_of a = class_of b"
  by (cases a; cases b) (auto simp: same_settings_def)

lemma portType_cong: "x\<lparr>location := l\<rparr> = y\<lparr>location := l\<rparr> \<Longrightarrow> portType x = portType y"
  by (cases x; cases y) simp

lemma same_settings_port: "same_settings a b \<Longrightarrow> cfg_port a = cfg_port b"
  by (cases a; cases b) (auto simp: same_settings_def dest: portType_cong)

lemma rd_mod: "length xs = 16 \<Longrightarrow> rd xs (n mod 16) = Some (xs ! (n mod 16))"
  by simp

lemma read_port_defined: "wf_rcv r \<Longrightarrow> \<exists>v. read_port r p old = Some v"
  unfolding read_port_def wf_rcv_def Let_def by (simp only: rd_mod option.map) auto

lemma drop_bit_and_one: "ucast (drop_bit n (w :: u16) AND 1) = (if bit w n then 1 else 0 :: u32)"
  by (rule bit_word_eqI) (auto simp: bit_simps bit_1_iff intro!: gr0I)

lemma mod_in_group: "g * 16 \<le> n \<Longrightarrow> n < g * 16 + 16 \<Longrightarrow> n div 16 = g \<and> n mod 16 = n - g * 16" for n :: nat
  by (metis add.commute div_nat_eqI minus_mult_div_eq_mod mult.commute mult_Suc)

lemma read_port_cases:
  assumes "wf_rcv r"
  shows "read_port r p old = Some
      (if unat p < 16 then ucast (Fre r ! unat p)
       else if unat p < 32 then ucast (AD r ! (unat p - 16))
       else if unat p < 48 then count r ! (unat p - 32)
       else if unat p < 64 then (if bit (sel r) (unat p - 48) then 1 else 0)
       else old)"
proof -
  consider "unat p < 16" | "16 \<le> unat p" "unat p < 32" | "32 \<le> unat p" "unat p < 48"
    | "48 \<le> unat p" "unat p < 64" | "64 \<le> unat p" by linarith
  then show ?thesis
  proof cases
    case 1
    then have "unat p div 16 = 0 \<and> unat p mod 16 = unat p" by simp
    then show ?thesis using 1 assms by (simp add: read_port_def wf_rcv_def Let_def)
  next
    case 2
    then have "unat p div 16 = 1 \<and> unat p mod 16 = unat p - 16" using mod_in_group [of 1] by simp
    then show ?thesis using 2 assms by (simp add: read_port_def wf_rcv_def Let_def)
  next
    case 3
    then have "unat p div 16 = 2 \<and> unat p mod 16 = unat p - 32" using mod_in_group [of 2] by simp
    then show ?thesis using 3 assms by (simp add: read_port_def wf_rcv_def Let_def)
  next
    case 4
    then have "unat p div 16 = 3 \<and> unat p mod 16 = unat p - 48" using mod_in_group [of 3] by simp
    then show ?thesis using 4 by (simp add: read_port_def Let_def drop_bit_and_one)
  next
    case 5
    then have "4 \<le> unat p div 16" by linarith
    then show ?thesis using 5 by (simp add: read_port_def Let_def)
  qed
qed

section \<open>The contract of a sensor class\<close>

text \<open>
  What the code that walks the table relies on when it calls through the pointers of a node:
  given a configuration of the right class, taking a value reads the configured port and
  writes \<open>collectData\<close> only, configuring copies the settings, and every decision is
  defined. NULL arguments leave things as they are.
\<close>

locale sensor_class =
  fixes cls :: Sensor_Class
    and getData :: "RcvStruct option \<Rightarrow> Testpoint option \<Rightarrow> Testpoint option option"
    and setCfg :: "Config option \<Rightarrow> Config option \<Rightarrow> Config option option"
    and alarmed :: "Testpoint \<Rightarrow> bool option"
    and lifted :: "Testpoint \<Rightarrow> bool option"
    and cut :: "Testpoint \<Rightarrow> bool option"
    and restored :: "Testpoint \<Rightarrow> bool option"
    and cutMask :: "Testpoint \<Rightarrow> u8 option"
    and restoreMask :: "Testpoint \<Rightarrow> u8 option"
  assumes getData_fetch:
      "config tp = Some cf \<Longrightarrow> class_of cf = Some cls \<Longrightarrow>
         getData (Some r) (Some tp) = map_option Some (fetch (cfg_port cf) r tp)"
    and getData_null: "getData None tpp = Some tpp" "getData rp None = Some None"
    and setCfg_copies:
      "class_of d = Some cls \<Longrightarrow> class_of s = Some cls \<Longrightarrow>
         fits_string (length (cfg_location d)) (cfg_location s) \<Longrightarrow>
         \<exists>e. setCfg (Some d) (Some s) = Some (Some e) \<and> same_settings e s
             \<and> length (cfg_location e) = length (cfg_location d)"
    and setCfg_null: "setCfg None sp = Some None" "setCfg dp None = Some dp"
    and decisions_defined:
      "config tp = Some cf \<Longrightarrow> class_of cf = Some cls \<Longrightarrow>
         alarmed tp \<noteq> None \<and> lifted tp \<noteq> None \<and> cut tp \<noteq> None \<and> restored tp \<noteq> None
         \<and> cutMask tp \<noteq> None \<and> restoreMask tp \<noteq> None"
begin

lemma refresh:
  assumes "config tp = Some cf" and "class_of cf = Some cls" and "wf_rcv r"
  shows "\<exists>v. read_port r (cfg_port cf) (collectData (upload tp)) = Some v
             \<and> getData (Some r) (Some tp) = Some (Some (set_data v tp))"
proof -
  obtain v where "read_port r (cfg_port cf) (collectData (upload tp)) = Some v"
    using read_port_defined [OF assms(3)] by blast
  then show ?thesis
    using getData_fetch [OF assms(1,2)] by (simp add: fetch_def)
qed

lemma refresh_then_decide:
  assumes "config tp = Some cf" and "class_of cf = Some cls" and "wf_rcv r"
    and "getData (Some r) (Some tp) = Some (Some tp')"
  shows "config tp' = Some cf \<and> alarmed tp' \<noteq> None \<and> cut tp' \<noteq> None"
proof -
  obtain v where "getData (Some r) (Some tp) = Some (Some (set_data v tp))"
    using refresh [OF assms(1-3)] by blast
  with assms(4) have "config tp' = Some cf" using assms(1) by auto
  then show ?thesis using decisions_defined assms(2) by blast
qed

lemma configured_class:
  assumes "class_of d = Some cls" and "class_of s = Some cls"
    and "fits_string (length (cfg_location d)) (cfg_location s)"
    and "setCfg (Some d) (Some s) = Some (Some e)"
  shows "class_of e = Some cls \<and> cfg_port e = cfg_port s"
  using setCfg_copies [OF assms(1-3)] assms(2,4)
  by (auto dest: same_settings_class same_settings_port)

end

lemma class_of_iff:
  "class_of cf = Some Analogue \<longleftrightarrow> (\<exists>c. cf = AnalogueC c)"
  "class_of cf = Some Switch \<longleftrightarrow> (\<exists>c. cf = SwitchC c)"
  "class_of cf = Some Accumulate \<longleftrightarrow> (\<exists>c. cf = AccumulateC c)"
  "class_of cf = Some Tristate \<longleftrightarrow> (\<exists>c. cf = TristateC c)"
  by (cases cf; simp)+

lemma strcpy_settings:
  assumes "fits_string (length d) s"
  shows "\<exists>loc. strcpy d s = Some loc \<and> c_str loc = c_str s \<and> length loc = length d"
  using strcpy_fits [OF assms] strcpy_c_str by blast

interpretation analogue: sensor_class Analogue getDataFromUart_Analogue setConfig_Analogue
  ifAlarm_Analogue ifLiftAlarm_Analogue ifOutput_Analogue ifRecover_Analogue
  controlOutput_Analogue controlRecover_Analogue
proof (unfold_locales, goal_cases)
  case (4 d s)
  then obtain a b where ab: "d = AnalogueC a" "s = AnalogueC b" by (auto simp: class_of_iff)
  then obtain loc where "strcpy (location a) (location b) = Some loc"
      and "c_str loc = c_str (location b)" and "length loc = length (location a)"
    using 4 strcpy_settings by fastforce
  then show ?case
    by (cases a; cases b) (auto simp: ab setConfig_Analogue_def same_settings_def)
qed (auto simp: class_of_iff setConfig_Analogue_def decisions_Analogue
      controlOutput_Analogue_eq controlRecover_Analogue_eq intro: option.exhaust)

interpretation switch: sensor_class Switch getDataFromUart_Switch setConfig_Switch
  ifAlarm_Switch ifLiftAlarm_Switch ifOutput_Switch ifRecover_Switch
  controlOutput_Switch controlRecover_Switch
proof (unfold_locales, goal_cases)
  case (4 d s)
  then obtain a b where ab: "d = SwitchC a" "s = SwitchC b" by (auto simp: class_of_iff)
  then obtain loc where "strcpy (location a) (location b) = Some loc"
      and "c_str loc = c_str (location b)" and "length loc = length (location a)"
    using 4 strcpy_settings by fastforce
  then show ?case
    by (cases a; cases b) (auto simp: ab setConfig_Switch_def same_settings_def)
qed (auto simp: class_of_iff setConfig_Switch_def constant_decisions intro: option.exhaust)

interpretation accumulate: sensor_class Accumulate getDataFromUart_Accumulate setConfig_Accumulate
  ifAlarm_Accumulate ifLiftAlarm_Accumulate ifOutput_Accumulate ifRecover_Accumulate
  controlOutput_Accumulate controlRecover_Accumulate
proof (unfold_locales, goal_cases)
  case (4 d s)
  then obtain a b where ab: "d = AccumulateC a" "s = AccumulateC b" by (auto simp: class_of_iff)
  then obtain loc where "strcpy (location a) (location b) = Some loc"
      and "c_str loc = c_str (location b)" and "length loc = length (location a)"
    using 4 strcpy_settings by fastforce
  then show ?case
    by (cases a; cases b) (auto simp: ab setConfig_Accumulate_def same_settings_def)
qed (auto simp: class_of_iff setConfig_Accumulate_def constant_decisions intro: option.exhaust)

interpretation tristate: sensor_class Tristate getDataFromUart_Tristate setConfig_Tristate
  ifAlarm_Tristate ifLiftAlarm_Tristate ifOutput_Tristate ifRecover_Tristate
  controlOutput_Tristate controlRecover_Tristate
proof (unfold_locales, goal_cases)
  case (4 d s)
  then obtain a b where ab: "d = TristateC a" "s = TristateC b" by (auto simp: class_of_iff)
  then obtain loc where "strcpy (location a) (location b) = Some loc"
      and "c_str loc = c_str (location b)" and "length loc = length (location a)"
    using 4 strcpy_settings by fastforce
  then show ?case
    by (cases a; cases b) (auto simp: ab setConfig_Tristate_def same_settings_def)
qed (auto simp: class_of_iff setConfig_Tristate_def constant_decisions intro: option.exhaust)

section \<open>Properties\<close>

text \<open>Configuring a measuring point through any of the four functions copies every setting of the
  source struct, the place name included, and keeps the size of the name's array, whenever the
  name fits.\<close>

theorem setConfig_copies_settings:
  assumes "class_of d = class_of s" and "class_of d \<noteq> None"
    and "fits_string (length (cfg_location d)) (cfg_location s)"
  shows "\<exists>e. (case class_of d of
                Some Analogue \<Rightarrow> setConfig_Analogue (Some d) (Some s)
              | Some Switch \<Rightarrow> setConfig_Switch (Some d) (Some s)
              | Some Accumulate \<Rightarrow> setConfig_Accumulate (Some d) (Some s)
              | Some Tristate \<Rightarrow> setConfig_Tristate (Some d) (Some s)
              | None \<Rightarrow> None) = Some (Some e)
           \<and> same_settings e s \<and> length (cfg_location e) = length (cfg_location d)"
proof -
  obtain k where k: "class_of d = Some k" using assms(2) by auto
  with assms(1) have "class_of s = Some k" by simp
  with k assms(3) show ?thesis
    by (cases k)
      (simp_all add: analogue.setCfg_copies switch.setCfg_copies accumulate.setCfg_copies
        tristate.setCfg_copies)
qed

theorem setConfig_copies_settings_witness:
  "\<exists>e. setConfig_Analogue (Some (AnalogueC ex_analogue)) (Some (AnalogueC ex_analogue2)) = Some (Some e)
       \<and> same_settings e (AnalogueC ex_analogue2) \<and> length (cfg_location e) = 30"
  using setConfig_copies_settings [of "AnalogueC ex_analogue" "AnalogueC ex_analogue2"]
  by simp

text \<open>The value taken from a frame is the channel the port type names: frequency 0 to 15,
  analogue-to-digital 16 to 31, counter 32 to 47, level bit 48 to 63; a port type from 64 on
  (the RS485 ports) leaves the value unchanged. Nothing else of the measuring point changes.\<close>

theorem getDataFromUart_channel:
  assumes "wf_rcv r" and "config tp = Some (AnalogueC c)"
  shows "getDataFromUart_Analogue (Some r) (Some tp) =
    Some (Some (set_data
      (if unat (portType c) < 16 then ucast (Fre r ! unat (portType c))
       else if unat (portType c) < 32 then ucast (AD r ! (unat (portType c) - 16))
       else if unat (portType c) < 48 then count r ! (unat (portType c) - 32)
       else if unat (portType c) < 64 then (if bit (sel r) (unat (portType c) - 48) then 1 else 0)
       else collectData (upload tp)) tp))"
  using assms by (simp add: analogue.getData_fetch fetch_def read_port_cases)

theorem getDataFromUart_channel_witness:
  "getDataFromUart_Analogue (Some ex_rcv) (Some ex_point) = Some (Some (set_data 305 ex_point))"
  using getDataFromUart_channel [of ex_rcv ex_point ex_analogue]
  by (simp add: ex_defs wf_rcv_def)

text \<open>The row index of a sensor's name leaves the name table exactly for the analogue numbers whose
  last two digits are 00 or exceed 40; every other number has a defined name.\<close>

theorem getSensorName_out_of_table:
  "getSensorName n = None \<longleftrightarrow>
     uint n div 10000 = 1 \<and> (uint n mod 100 = 0 \<or> 40 < uint n mod 100)"
  by (rule getSensorName_None_iff)

text \<open>The mask of channels to cut and the mask of channels to restore of an analogue point are
  complements of each other, and the first holds exactly the channels both of its
  output-control bytes name.\<close>

theorem output_masks_complementary:
  assumes "config tp = Some (AnalogueC c)"
  shows "\<exists>m. controlOutput_Analogue tp = Some m \<and> controlRecover_Analogue tp = Some (NOT m)
           \<and> (\<forall>n. bit m n \<longleftrightarrow> bit (fst (outputControl c)) n \<and> bit (snd (outputControl c)) n)"
  using assms
  by (simp add: controlOutput_Analogue_eq controlRecover_Analogue_eq out_mask_def bit_simps)

theorem output_masks_complementary_witness:
  "\<exists>m. controlOutput_Analogue ex_point = Some m \<and> controlRecover_Analogue ex_point = Some (NOT m)
       \<and> (\<forall>n. bit m n \<longleftrightarrow> bit (0x81 :: u8) n \<and> bit (0x85 :: u8) n)"
  using output_masks_complementary [of ex_point ex_analogue] by (simp add: ex_defs)

end
