(* ===== verification/Os_Core.thy ===== *)
theory Os_Core
  imports Prelude
begin

text \<open>
  The part of the uC/OS-II kernel the application runs on, \<open>uCOS-II/Source/os_core.c\<close> in the
  configuration of \<open>Config/os_cfg.h\<close> (priorities 0 to 63, no argument checks): the ready list,
  the wait list of an event, interrupt nesting, the scheduler and the clock tick.

  A task is named by its priority, so \<open>OSTCBPrioTbl\<close> is the map from priorities to task
  control blocks and \<open>OSTCBCur\<close> is the block at \<open>OSPrioCur\<close>. An event is named by its
  index in the event table, a message is an address, \<open>None\<close> being NULL. A context switch
  is pended on the Cortex-M3 and done by the PendSV handler, so the model sets a flag.
\<close>

section \<open>State\<close>

definition OSUnMapTbl :: "u8 list" where
  "OSUnMapTbl =
    [0, 0, 1, 0, 2, 0, 1, 0, 3, 0, 1, 0, 2, 0, 1, 0, 4, 0, 1, 0, 2, 0, 1, 0, 3, 0, 1, 0, 2, 0, 1, 0,
     5, 0, 1, 0, 2, 0, 1, 0, 3, 0, 1, 0, 2, 0, 1, 0, 4, 0, 1, 0, 2, 0, 1, 0, 3, 0, 1, 0, 2, 0, 1, 0,
     6, 0, 1, 0, 2, 0, 1, 0, 3, 0, 1, 0, 2, 0, 1, 0, 4, 0, 1, 0, 2, 0, 1, 0, 3, 0, 1, 0, 2, 0, 1, 0,
     5, 0, 1, 0, 2, 0, 1, 0, 3, 0, 1, 0, 2, 0, 1, 0, 4, 0, 1, 0, 2, 0, 1, 0, 3, 0, 1, 0, 2, 0, 1, 0,
     7, 0, 1, 0, 2, 0, 1, 0, 3, 0, 1, 0, 2, 0, 1, 0, 4, 0, 1, 0, 2, 0, 1, 0, 3, 0, 1, 0, 2, 0, 1, 0,
     5, 0, 1, 0, 2, 0, 1, 0, 3, 0, 1, 0, 2, 0, 1, 0, 4, 0, 1, 0, 2, 0, 1, 0, 3, 0, 1, 0, 2, 0, 1, 0,
     6, 0, 1, 0, 2, 0, 1, 0, 3, 0, 1, 0, 2, 0, 1, 0, 4, 0, 1, 0, 2, 0, 1, 0, 3, 0, 1, 0, 2, 0, 1, 0,
     5, 0, 1, 0, 2, 0, 1, 0, 3, 0, 1, 0, 2, 0, 1, 0, 4, 0, 1, 0, 2, 0, 1, 0, 3, 0, 1, 0, 2, 0, 1, 0]"

type_synonym msg = "nat option"

record OS_TCB =
  OSTCBPrio :: u8
  OSTCBX :: u8
  OSTCBY :: u8
  OSTCBBitX :: u8
  OSTCBBitY :: u8
  OSTCBDly :: u32
  OSTCBStat :: u8
  OSTCBStatPend :: u8
  OSTCBMsg :: msg
  OSTCBEventPtr :: "nat option"
  OSTCBEventMultiPtr :: "nat list option"
  OSTCBCtxSwCtr :: u32

text \<open>
  What \<open>OSEventPtr\<close> points to: nothing, the next free event, a queue, or the message of a
  mailbox.
\<close>

datatype EventPtr = Null | FreeEvent nat | Queue nat | Mail nat

record OS_EVENT =
  OSEventType :: u8
  OSEventPtr :: EventPtr
  OSEventCnt :: u16
  OSEventGrp :: u8
  OSEventTbl :: "u8 list"

text \<open>The message array \<open>OSQStart\<close> points to is kept in the block; the pointers are indices.\<close>

record OS_Q =
  OSQPtr :: "nat option"
  OSQStart :: "msg list"
  OSQEnd :: nat
  OSQIn :: nat
  OSQOut :: nat
  OSQSize :: u16
  OSQEntries :: u16

record OS =
  OSRunning :: bool
  OSIntNesting :: u8
  OSLockNesting :: u8
  OSPrioCur :: u8
  OSPrioHighRdy :: u8
  OSRdyGrp :: u8
  OSRdyTbl :: "u8 list"
  OSTCBPrioTbl :: "u8 \<Rightarrow> OS_TCB option"
  OSTCBList :: "u8 list"
  OSCtxSwCtr :: u32
  switchPending :: bool
  OSEvents :: "OS_EVENT list"
  OSEventFreeList :: "nat option"
  OSQTbl :: "OS_Q list"
  OSQFreeList :: "nat option"
  OSTime :: u32
  OSTickStepState :: u8
  OSTmrCtr :: u16
  OSTmrSemSignal :: nat

definition OS_STAT_RDY :: u8 where "OS_STAT_RDY = 0"
definition OS_STAT_SEM :: u8 where "OS_STAT_SEM = 1"
definition OS_STAT_MBOX :: u8 where "OS_STAT_MBOX = 2"
definition OS_STAT_Q :: u8 where "OS_STAT_Q = 4"
definition OS_STAT_SUSPEND :: u8 where "OS_STAT_SUSPEND = 8"
definition OS_STAT_PEND_ANY :: u8 where "OS_STAT_PEND_ANY = 0x37"
definition OS_STAT_PEND_OK :: u8 where "OS_STAT_PEND_OK = 0"
definition OS_STAT_PEND_TO :: u8 where "OS_STAT_PEND_TO = 1"
definition OS_STAT_PEND_ABORT :: u8 where "OS_STAT_PEND_ABORT = 2"
definition OS_TICK_STEP_DIS :: u8 where "OS_TICK_STEP_DIS = 0"
definition OS_TICK_STEP_ONCE :: u8 where "OS_TICK_STEP_ONCE = 2"
definition OS_TICK_STEP_WAIT :: u8 where "OS_TICK_STEP_WAIT = 1"
definition OS_TASK_IDLE_PRIO :: u8 where "OS_TASK_IDLE_PRIO = 63"

lemmas os_constants =
  OS_STAT_RDY_def OS_STAT_SEM_def OS_STAT_MBOX_def OS_STAT_Q_def OS_STAT_SUSPEND_def OS_STAT_PEND_ANY_def
  OS_STAT_PEND_OK_def OS_STAT_PEND_TO_def OS_STAT_PEND_ABORT_def

section \<open>Bit tables of priorities\<close>

text \<open>
  The ready list and the wait list of an event have the same representation, a group byte and
  eight row bytes; the three operations below are the statements the kernel repeats for them.
\<close>

type_synonym bits = "u8 \<times> u8 list"

definition bits_set :: "OS_TCB \<Rightarrow> bits \<Rightarrow> bits option" where
  "bits_set t b = do {
     row \<leftarrow> rd (snd b) (unat (OSTCBY t));
     Some (fst b OR OSTCBBitY t, (snd b)[unat (OSTCBY t) := row OR OSTCBBitX t]) }"

definition bits_clear :: "OS_TCB \<Rightarrow> bits \<Rightarrow> bits option" where
  "bits_clear t b = do {
     row \<leftarrow> rd (snd b) (unat (OSTCBY t));
     let row' = row AND NOT (OSTCBBitX t);
     Some (if row' = 0 then fst b AND NOT (OSTCBBitY t) else fst b,
           (snd b)[unat (OSTCBY t) := row']) }"

definition bits_first :: "bits \<Rightarrow> u8 option" where
  "bits_first b = do {
     y \<leftarrow> rd OSUnMapTbl (unat (fst b));
     row \<leftarrow> rd (snd b) (unat y);
     x \<leftarrow> rd OSUnMapTbl (unat row);
     Some (push_bit 3 y + x) }"

section \<open>Scheduling\<close>

definition OS_SchedNew :: "OS \<Rightarrow> OS option" where
  "OS_SchedNew s = map_option (\<lambda>p. s\<lparr>OSPrioHighRdy := p\<rparr>) (bits_first (OSRdyGrp s, OSRdyTbl s))"

text \<open>
  The common tail of \<open>OS_Sched\<close> and \<open>OSIntExit\<close>: a switch to the highest ready task, unless it
  is the running one. \<open>OS_TASK_SW\<close> and \<open>OSIntCtxSw\<close> both only pend the PendSV exception.
\<close>

definition request_switch :: "OS \<Rightarrow> OS option" where
  "request_switch s = do {
     s \<leftarrow> OS_SchedNew s;
     if OSPrioHighRdy s \<noteq> OSPrioCur s then do {
       t \<leftarrow> OSTCBPrioTbl s (OSPrioHighRdy s);
       Some (s\<lparr>OSTCBPrioTbl := (OSTCBPrioTbl s)(OSPrioHighRdy s \<mapsto> t\<lparr>OSTCBCtxSwCtr := OSTCBCtxSwCtr t + 1\<rparr>),
               OSCtxSwCtr := OSCtxSwCtr s + 1, switchPending := True\<rparr>) }
     else Some s }"

definition OS_Sched :: "OS \<Rightarrow> OS option" where
  "OS_Sched s =
     (if OSIntNesting s = 0 \<and> OSLockNesting s = 0 then request_switch s else Some s)"

definition OS_CPU_PendSVHandler :: "OS \<Rightarrow> OS" where
  "OS_CPU_PendSVHandler s = s\<lparr>OSPrioCur := OSPrioHighRdy s, switchPending := False\<rparr>"

definition OSIntEnter :: "OS \<Rightarrow> OS" where
  "OSIntEnter s =
     (if OSRunning s \<and> OSIntNesting s < 255 then s\<lparr>OSIntNesting := OSIntNesting s + 1\<rparr> else s)"

definition OSIntExit :: "OS \<Rightarrow> OS option" where
  "OSIntExit s =
     (if OSRunning s then
        let s = (if OSIntNesting s > 0 then s\<lparr>OSIntNesting := OSIntNesting s - 1\<rparr> else s) in
        if OSIntNesting s = 0 then
          if OSLockNesting s = 0 then request_switch s else Some s
        else Some s
      else Some s)"

definition OSSchedLock :: "OS \<Rightarrow> OS" where
  "OSSchedLock s =
     (if OSRunning s \<and> OSIntNesting s = 0 \<and> OSLockNesting s < 255
      then s\<lparr>OSLockNesting := OSLockNesting s + 1\<rparr> else s)"

definition OSSchedUnlock :: "OS \<Rightarrow> OS option" where
  "OSSchedUnlock s =
     (if OSRunning s \<and> OSIntNesting s = 0 \<and> OSLockNesting s > 0 then
        let s = s\<lparr>OSLockNesting := OSLockNesting s - 1\<rparr> in
        if OSLockNesting s = 0 then OS_Sched s else Some s
      else Some s)"

definition OS_InitRdyList :: "OS \<Rightarrow> OS" where
  "OS_InitRdyList s = s\<lparr>OSRdyGrp := 0, OSRdyTbl := replicate 8 0, OSPrioCur := 0, OSPrioHighRdy := 0\<rparr>"

section \<open>Waiting for an event\<close>

definition OS_EventWaitListInit :: "OS_EVENT \<Rightarrow> OS_EVENT" where
  "OS_EventWaitListInit e = e\<lparr>OSEventGrp := 0, OSEventTbl := replicate 8 0\<rparr>"

definition OS_EventTaskRemove :: "OS_TCB \<Rightarrow> OS_EVENT \<Rightarrow> OS_EVENT option" where
  "OS_EventTaskRemove t e =
     map_option (\<lambda>(g, tb). e\<lparr>OSEventGrp := g, OSEventTbl := tb\<rparr>)
       (bits_clear t (OSEventGrp e, OSEventTbl e))"

fun OS_EventTaskRemoveMulti :: "OS_TCB \<Rightarrow> nat list \<Rightarrow> OS_EVENT list \<Rightarrow> OS_EVENT list option" where
  "OS_EventTaskRemoveMulti t [] evs = Some evs"
| "OS_EventTaskRemoveMulti t (e # es) evs = do {
     ev \<leftarrow> rd evs e;
     ev' \<leftarrow> OS_EventTaskRemove t ev;
     OS_EventTaskRemoveMulti t es (evs[e := ev']) }"

definition OS_EventTaskWait :: "nat \<Rightarrow> OS \<Rightarrow> OS option" where
  "OS_EventTaskWait ev s = do {
     t \<leftarrow> OSTCBPrioTbl s (OSPrioCur s);
     e \<leftarrow> rd (OSEvents s) ev;
     (g, tb) \<leftarrow> bits_set t (OSEventGrp e, OSEventTbl e);
     (rg, rt) \<leftarrow> bits_clear t (OSRdyGrp s, OSRdyTbl s);
     Some (s\<lparr>OSTCBPrioTbl := (OSTCBPrioTbl s)(OSPrioCur s \<mapsto> t\<lparr>OSTCBEventPtr := Some ev\<rparr>),
             OSEvents := (OSEvents s)[ev := e\<lparr>OSEventGrp := g, OSEventTbl := tb\<rparr>],
             OSRdyGrp := rg, OSRdyTbl := rt\<rparr>) }"

text \<open>Readying the highest-priority waiting task; the result is its priority.\<close>

definition readied :: "msg \<Rightarrow> u8 \<Rightarrow> u8 \<Rightarrow> OS_TCB \<Rightarrow> OS_TCB" where
  "readied pmsg msk pend_stat t =
     t\<lparr>OSTCBDly := 0, OSTCBMsg := pmsg, OSTCBStat := OSTCBStat t AND NOT msk,
       OSTCBStatPend := pend_stat\<rparr>"

definition OS_EventTaskRdy :: "nat \<Rightarrow> msg \<Rightarrow> u8 \<Rightarrow> u8 \<Rightarrow> OS \<Rightarrow> (u8 \<times> OS) option" where
  "OS_EventTaskRdy ev pmsg msk pend_stat s = do {
     e \<leftarrow> rd (OSEvents s) ev;
     prio \<leftarrow> bits_first (OSEventGrp e, OSEventTbl e);
     t \<leftarrow> OSTCBPrioTbl s prio;
     let t1 = readied pmsg msk pend_stat t;
     (rg, rt) \<leftarrow> (if OSTCBStat t1 AND OS_STAT_SUSPEND = OS_STAT_RDY
                   then bits_set t1 (OSRdyGrp s, OSRdyTbl s)
                   else Some (OSRdyGrp s, OSRdyTbl s));
     e' \<leftarrow> OS_EventTaskRemove t1 e;
     let evs = (OSEvents s)[ev := e'];
     (t2, evs2) \<leftarrow> (case OSTCBEventMultiPtr t1 of
         None \<Rightarrow> Some (t1, evs)
       | Some es \<Rightarrow> map_option (\<lambda>evs2. (t1\<lparr>OSTCBEventPtr := Some ev\<rparr>, evs2))
                      (OS_EventTaskRemoveMulti t1 es evs));
     Some (prio, s\<lparr>OSTCBPrioTbl := (OSTCBPrioTbl s)(prio \<mapsto> t2), OSEvents := evs2,
                   OSRdyGrp := rg, OSRdyTbl := rt\<rparr>) }"

section \<open>The clock tick\<close>

text \<open>One pass of the loop over the task list, for the task at priority \<open>p\<close>.\<close>

definition tick_task :: "u8 \<Rightarrow> OS \<Rightarrow> OS option" where
  "tick_task p s = do {
     t \<leftarrow> OSTCBPrioTbl s p;
     if OSTCBDly t \<noteq> 0 then
       let t1 = t\<lparr>OSTCBDly := OSTCBDly t - 1\<rparr> in
       if OSTCBDly t1 = 0 then
         let t2 = (if OSTCBStat t1 AND OS_STAT_PEND_ANY \<noteq> OS_STAT_RDY
                   then t1\<lparr>OSTCBStat := OSTCBStat t1 AND NOT OS_STAT_PEND_ANY,
                           OSTCBStatPend := OS_STAT_PEND_TO\<rparr>
                   else t1\<lparr>OSTCBStatPend := OS_STAT_PEND_OK\<rparr>) in
         do {
           (rg, rt) \<leftarrow> (if OSTCBStat t2 AND OS_STAT_SUSPEND = OS_STAT_RDY
                         then bits_set t2 (OSRdyGrp s, OSRdyTbl s)
                         else Some (OSRdyGrp s, OSRdyTbl s));
           Some (s\<lparr>OSTCBPrioTbl := (OSTCBPrioTbl s)(p \<mapsto> t2), OSRdyGrp := rg, OSRdyTbl := rt\<rparr>) }
       else Some (s\<lparr>OSTCBPrioTbl := (OSTCBPrioTbl s)(p \<mapsto> t1)\<rparr>)
     else Some s }"

fun tick_list :: "u8 list \<Rightarrow> OS \<Rightarrow> OS option" where
  "tick_list [] s = None"
| "tick_list (p # ps) s =
     (if p = OS_TASK_IDLE_PRIO then Some s
      else do { s' \<leftarrow> tick_task p s; tick_list ps s' })"

section \<open>Bit tables as sets of priorities\<close>

definition prios :: "bits \<Rightarrow> nat set" where
  "prios b = {p. p < 64 \<and> bit (snd b ! (p div 8)) (p mod 8)}"

definition bits_ok :: "bits \<Rightarrow> bool" where
  "bits_ok b \<longleftrightarrow> length (snd b) = 8 \<and> (\<forall>y < 8. bit (fst b) y \<longleftrightarrow> snd b ! y \<noteq> 0)"

text \<open>The masks a task control block caches for its priority.\<close>

definition tcb_at :: "nat \<Rightarrow> OS_TCB \<Rightarrow> bool" where
  "tcb_at p t \<longleftrightarrow> p < 64 \<and> unat (OSTCBY t) = p div 8
     \<and> OSTCBBitX t = push_bit (p mod 8) 1 \<and> OSTCBBitY t = push_bit (p div 8) 1"

text \<open>
  The table is built by doubling: its second half repeats the first, except that the entry of a
  single bit is the position of that bit.
\<close>

fun unmap_rec :: "nat \<Rightarrow> u8 list" where
  "unmap_rec 0 = [0]"
| "unmap_rec (Suc k) = unmap_rec k @ of_nat k # tl (unmap_rec k)"

lemma OSUnMapTbl_rec: "OSUnMapTbl = unmap_rec 8"
  by code_simp

lemma length_unmap_rec [simp]: "length (unmap_rec k) = 2 ^ k"
  by (induction k) auto

definition first_bit :: "nat \<Rightarrow> nat \<Rightarrow> bool" where
  "first_bit n j \<longleftrightarrow> odd (n div 2 ^ j) \<and> (\<forall>i < j. even (n div 2 ^ i))"

lemma first_bit_less: "first_bit n j \<Longrightarrow> n < 2 ^ k \<Longrightarrow> j < k"
proof (rule ccontr)
  assume f: "first_bit n j" and n: "n < 2 ^ k" and "\<not> j < k"
  then have "(2::nat) ^ k \<le> 2 ^ j" by simp
  with n have "n < 2 ^ j" by linarith
  then have "n div 2 ^ j = 0" by simp
  with f show False by (simp add: first_bit_def)
qed

lemma first_bit_add:
  assumes "first_bit m j" and "m < 2 ^ k"
  shows "first_bit (2 ^ k + m) j"
proof -
  have jk: "j < k" using first_bit_less assms by blast
  have "(2 ^ k + m) div 2 ^ i = 2 ^ (k - i) + m div 2 ^ i" if "i \<le> j" for i
  proof -
    have "(2::nat) ^ k = 2 ^ (k - i) * 2 ^ i" using jk that by (simp flip: power_add)
    then show ?thesis by (metis add.commute div_mult_self1 power_not_zero zero_neq_numeral)
  qed
  moreover have "even ((2::nat) ^ (k - i))" if "i \<le> j" for i using jk that by simp
  ultimately show ?thesis using assms(1) by (auto simp: first_bit_def)
qed

lemma unmap_rec_first:
  "0 < n \<Longrightarrow> n < 2 ^ k \<Longrightarrow> k \<le> 8 \<Longrightarrow> first_bit n (unat (unmap_rec k ! n))"
proof (induction k arbitrary: n)
  case 0
  then show ?case by simp
next
  case (Suc k)
  consider "n < 2 ^ k" | "n = 2 ^ k" | m where "n = 2 ^ k + m" "0 < m" "m < 2 ^ k"
    using Suc.prems(2) by (metis add.right_neutral le_add_diff_inverse linorder_not_less
        nat_add_left_cancel_less not_gr_zero power_Suc mult_2)
  then show ?case
  proof cases
    case 1
    then show ?thesis using Suc by (simp add: nth_append)
  next
    case 2
    have "unat (of_nat k :: u8) = k" using Suc.prems(3) by (simp add: unat_of_nat)
    moreover have "even ((2::nat) ^ k div 2 ^ i)" if "i < k" for i
      using that by (simp add: power_diff_power_eq)
    ultimately show ?thesis using 2 by (simp add: nth_append first_bit_def)
  next
    case 3
    have "unmap_rec (Suc k) ! n = unmap_rec k ! m"
      using 3 by (cases m) (simp_all add: nth_append nth_tl)
    then show ?thesis using Suc 3 first_bit_add by simp
  qed
qed

lemma length_OSUnMapTbl [simp]: "length OSUnMapTbl = 256"
  by (simp add: OSUnMapTbl_def)

lemma unat_u8_less [simp]: "unat (w :: u8) < 256"
  using unsigned_less [of w] by simp

lemma bit_u8_iff: "bit (w :: u8) n \<longleftrightarrow> odd (unat w div 2 ^ n)"
  by (simp add: bit_unsigned_iff flip: bit_iff_odd)

lemma OSUnMapTbl_first:
  fixes w :: u8
  assumes "w \<noteq> 0"
  defines "k \<equiv> unat (OSUnMapTbl ! unat w)"
  shows "k < 8" and "bit w k" and "j < k \<Longrightarrow> \<not> bit w j"
proof -
  have "unat w \<noteq> 0" using assms(1) by (simp add: unat_eq_0)
  then have f: "first_bit (unat w) k"
    using unmap_rec_first [of "unat w" 8] by (simp add: k_def OSUnMapTbl_rec)
  then show "k < 8" using first_bit_less [of _ _ 8] by simp
  show "bit w k" and "j < k \<Longrightarrow> \<not> bit w j"
    using f by (simp_all add: first_bit_def bit_u8_iff)
qed

lemma u8_zero_iff: "(w :: u8) = 0 \<longleftrightarrow> (\<forall>n < 8. \<not> bit w n)"
  by (auto simp: bit_eq_iff bit_imp_le_length)

lemma prios_finite [simp]: "finite (prios b)"
  by (rule finite_subset [of _ "{..<64}"]) (auto simp: prios_def)

lemma prios_mem_iff: "y < 8 \<Longrightarrow> x < 8 \<Longrightarrow> 8 * y + x \<in> prios b \<longleftrightarrow> bit (snd b ! y) x"
  by (simp add: prios_def)

lemma div_mod_8_eq: "p div 8 = x div 8 \<Longrightarrow> x mod 8 = p mod 8 \<Longrightarrow> x = p" for p x :: nat
  by (metis div_mult_mod_eq)

lemma bits_set_prios:
  assumes "tcb_at p t" and "bits_ok b"
  shows "\<exists>b'. bits_set t b = Some b' \<and> bits_ok b' \<and> prios b' = insert p (prios b)"
proof -
  have p: "p < 64" and y: "unat (OSTCBY t) = p div 8" and X: "OSTCBBitX t = push_bit (p mod 8) 1"
    and Y: "OSTCBBitY t = push_bit (p div 8) 1" using assms(1) by (auto simp: tcb_at_def)
  have l: "length (snd b) = 8" and g: "\<And>y. y < 8 \<Longrightarrow> bit (fst b) y \<longleftrightarrow> snd b ! y \<noteq> 0"
    using assms(2) by (auto simp: bits_ok_def)
  let ?row = "snd b ! (p div 8) OR push_bit (p mod 8) 1"
  let ?b = "(fst b OR push_bit (p div 8) 1, (snd b)[p div 8 := ?row])"
  have d: "p div 8 < 8" using p by linarith
  have "bits_set t b = Some ?b"
    using d l by (simp add: bits_set_def y X Y rd_in del: rd_eq_Some)
  moreover have "?row \<noteq> 0"
    by (auto simp: u8_zero_iff bit_simps bit_1_iff intro!: exI [of _ "p mod 8"])
  then have "bits_ok ?b"
    using l g d by (auto simp: bits_ok_def nth_list_update bit_simps bit_1_iff)
  moreover have "prios ?b = insert p (prios b)"
    using p l d by (auto simp: prios_def nth_list_update bit_simps bit_1_iff split: if_splits
        dest: div_mod_8_eq)
  ultimately show ?thesis by blast
qed

lemma bits_clear_prios:
  assumes "tcb_at p t" and "bits_ok b"
  shows "\<exists>b'. bits_clear t b = Some b' \<and> bits_ok b' \<and> prios b' = prios b - {p}"
proof -
  have p: "p < 64" and y: "unat (OSTCBY t) = p div 8" and X: "OSTCBBitX t = push_bit (p mod 8) 1"
    and Y: "OSTCBBitY t = push_bit (p div 8) 1" using assms(1) by (auto simp: tcb_at_def)
  have l: "length (snd b) = 8" and g: "\<And>y. y < 8 \<Longrightarrow> bit (fst b) y \<longleftrightarrow> snd b ! y \<noteq> 0"
    using assms(2) by (auto simp: bits_ok_def)
  let ?row = "snd b ! (p div 8) AND NOT (push_bit (p mod 8) 1)"
  let ?b = "(if ?row = 0 then fst b AND NOT (push_bit (p div 8) 1) else fst b, (snd b)[p div 8 := ?row])"
  have d: "p div 8 < 8" using p by linarith
  have "bits_clear t b = Some ?b"
    using d l by (simp add: bits_clear_def y X Y rd_in Let_def del: rd_eq_Some)
  moreover have "?row \<noteq> 0 \<Longrightarrow> snd b ! (p div 8) \<noteq> 0" by auto
  then have "bits_ok ?b"
    using l g d by (auto simp: bits_ok_def nth_list_update bit_simps bit_1_iff)
  moreover have "prios ?b = prios b - {p}"
    using p l d by (auto simp: prios_def nth_list_update bit_simps bit_1_iff split: if_splits
        dest: div_mod_8_eq)
  ultimately show ?thesis by blast
qed

lemma prios_bound: "prios b \<subseteq> {..<64}"
  by (auto simp: prios_def)

lemma lex_le:
  fixes q x y :: nat
  assumes "y \<le> q div 8" and "q div 8 = y \<Longrightarrow> x \<le> q mod 8" and "x < 8"
  shows "8 * y + x \<le> q"
proof (cases "q div 8 = y")
  case True
  then have "8 * y + x \<le> 8 * (q div 8) + q mod 8" using assms(2) by simp
  also have "\<dots> = q" by simp
  finally show ?thesis .
next
  case False
  then have "8 * y + x \<le> 8 * (y + 1)" and "y + 1 \<le> q div 8" using assms by simp_all
  then have "8 * y + x \<le> 8 * (q div 8)" using mult_le_mono2 le_trans by blast
  then show ?thesis by (rule le_trans) simp
qed

lemma bits_first_prios:
  assumes "bits_ok b" and "prios b \<noteq> {}"
  shows "bits_first b = Some (of_nat (Min (prios b)))"
proof -
  have l: "length (snd b) = 8" and g: "\<And>y. y < 8 \<Longrightarrow> bit (fst b) y \<longleftrightarrow> snd b ! y \<noteq> 0"
    using assms(1) by (auto simp: bits_ok_def)
  obtain q where "q \<in> prios b" using assms(2) by auto
  then have "q div 8 < 8" "bit (snd b ! (q div 8)) (q mod 8)" by (auto simp: prios_def)
  then have "fst b \<noteq> 0" using g [of "q div 8"] by auto
  define wy where "wy = OSUnMapTbl ! unat (fst b)"
  have y: "unat wy < 8" "bit (fst b) (unat wy)" "\<And>j. j < unat wy \<Longrightarrow> \<not> bit (fst b) j"
    using OSUnMapTbl_first [OF \<open>fst b \<noteq> 0\<close>] by (simp_all add: wy_def)
  have row: "snd b ! unat wy \<noteq> 0" using g y by simp
  define wx where "wx = OSUnMapTbl ! unat (snd b ! unat wy)"
  have x: "unat wx < 8" "bit (snd b ! unat wy) (unat wx)"
      "\<And>j. j < unat wx \<Longrightarrow> \<not> bit (snd b ! unat wy) j"
    using OSUnMapTbl_first [OF row] by (simp_all add: wx_def)
  let ?m = "8 * unat wy + unat wx"
  have "?m \<in> prios b" using x y by (simp add: prios_mem_iff)
  moreover have "?m \<le> q" if "q \<in> prios b" for q
  proof -
    have q: "q div 8 < 8" "bit (snd b ! (q div 8)) (q mod 8)" using that by (auto simp: prios_def)
    then have "bit (fst b) (q div 8)" using g [of "q div 8"] by auto
    then have "unat wy \<le> q div 8" using y(3) leI by blast
    moreover have "unat wx \<le> q mod 8" if "q div 8 = unat wy" using x(3) q(2) that leI by metis
    ultimately show ?thesis using x(1) by (intro lex_le)
  qed
  ultimately have "Min (prios b) = ?m" by (intro Min_eqI) auto
  moreover have "bits_first b = Some (push_bit 3 wy + wx)"
    using y(1) l by (simp add: bits_first_def rd_in wy_def wx_def del: rd_eq_Some)
  moreover have "push_bit 3 wy + wx = of_nat ?m" by (simp add: push_bit_eq_mult)
  ultimately show ?thesis by simp
qed

section \<open>The interface of a set of tasks\<close>

text \<open>
  What the kernel relies on in the ready list and in every wait list: a set of priorities one
  can extend by a task, shrink by a task, and ask for its highest-priority member.
\<close>

locale prio_set =
  fixes ins :: "'t \<Rightarrow> 'b \<Rightarrow> 'b option"
    and rem :: "'t \<Rightarrow> 'b \<Rightarrow> 'b option"
    and first :: "'b \<Rightarrow> u8 option"
    and elems :: "'b \<Rightarrow> nat set"
    and ok :: "'b \<Rightarrow> bool"
    and at :: "nat \<Rightarrow> 't \<Rightarrow> bool"
  assumes ins: "at p t \<Longrightarrow> ok b \<Longrightarrow> \<exists>b'. ins t b = Some b' \<and> ok b' \<and> elems b' = insert p (elems b)"
    and rem: "at p t \<Longrightarrow> ok b \<Longrightarrow> \<exists>b'. rem t b = Some b' \<and> ok b' \<and> elems b' = elems b - {p}"
    and first: "ok b \<Longrightarrow> elems b \<noteq> {} \<Longrightarrow> first b = Some (of_nat (Min (elems b)))"
    and bound: "elems b \<subseteq> {..<64}"
begin

lemma elems_finite [simp]: "finite (elems b)"
  using bound finite_subset by blast

lemma first_in:
  assumes "ok b" and "first b = Some p" and "elems b \<noteq> {}"
  shows "unat p \<in> elems b \<and> (\<forall>q \<in> elems b. unat p \<le> q)"
proof -
  have p: "p = of_nat (Min (elems b))" using first [OF assms(1,3)] assms(2) by simp
  have m: "Min (elems b) \<in> elems b" using assms(3) by simp
  then have "Min (elems b) < 64" using bound by blast
  then have "unat p = Min (elems b)" using p by (simp add: unat_of_nat)
  then show ?thesis using m by simp
qed

lemma preempts:
  assumes "at p t" and "ok b" and "ins t b = Some b'" and "\<forall>q \<in> elems b. p < q" and "p < 64"
  shows "first b' = Some (of_nat p)"
proof -
  have b': "ok b'" "elems b' = insert p (elems b)" using ins [OF assms(1,2)] assms(3) by auto
  moreover have "Min (insert p (elems b)) = p"
    using assms(4) by (intro Min_eqI) (auto intro: less_imp_le)
  ultimately show ?thesis using first [of b'] by simp
qed

lemma ins_rem:
  assumes "at p t" and "ok b" and "p \<notin> elems b" and "ins t b = Some b'" and "rem t b' = Some b''"
  shows "ok b'' \<and> elems b'' = elems b"
  using ins [OF assms(1,2)] rem [OF assms(1), of b'] assms(3-5) by auto

end

interpretation prio: prio_set bits_set bits_clear bits_first prios bits_ok tcb_at
  by unfold_locales
    (rule bits_set_prios bits_clear_prios bits_first_prios prios_bound; assumption)+

section \<open>The kernel invariant\<close>

abbreviation ready :: "OS \<Rightarrow> nat set" where
  "ready s \<equiv> prios (OSRdyGrp s, OSRdyTbl s)"

abbreviation waiting :: "OS_EVENT \<Rightarrow> nat set" where
  "waiting e \<equiv> prios (OSEventGrp e, OSEventTbl e)"

definition event_ok :: "(u8 \<Rightarrow> OS_TCB option) \<Rightarrow> OS_EVENT \<Rightarrow> bool" where
  "event_ok tcbs e \<longleftrightarrow> bits_ok (OSEventGrp e, OSEventTbl e) \<and> (\<forall>p \<in> waiting e. tcbs (of_nat p) \<noteq> None)"

text \<open>
  The lists are consistent, every listed task exists, the cached masks of every block fit its
  priority, no task waits for several events at once (the application never does), and the
  idle task is ready, so there is always a task to run.
\<close>

definition os_ok :: "OS \<Rightarrow> bool" where
  "os_ok s \<longleftrightarrow> bits_ok (OSRdyGrp s, OSRdyTbl s) \<and> 63 \<in> ready s
     \<and> (\<forall>p t. OSTCBPrioTbl s p = Some t \<longrightarrow> tcb_at (unat p) t \<and> OSTCBEventMultiPtr t = None)
     \<and> (\<forall>p \<in> ready s. OSTCBPrioTbl s (of_nat p) \<noteq> None)
     \<and> (\<forall>e \<in> set (OSEvents s). event_ok (OSTCBPrioTbl s) e)"

lemma os_okD:
  assumes "os_ok s"
  shows "bits_ok (OSRdyGrp s, OSRdyTbl s)" and "63 \<in> ready s" and "ready s \<noteq> {}"
    and "OSTCBPrioTbl s p = Some t \<Longrightarrow> tcb_at (unat p) t"
    and "OSTCBPrioTbl s p = Some t \<Longrightarrow> OSTCBEventMultiPtr t = None"
    and "q \<in> ready s \<Longrightarrow> OSTCBPrioTbl s (of_nat q) \<noteq> None"
    and "e \<in> set (OSEvents s) \<Longrightarrow> event_ok (OSTCBPrioTbl s) e"
    and "i < length (OSEvents s) \<Longrightarrow> event_ok (OSTCBPrioTbl s) (OSEvents s ! i)"
  using assms unfolding os_ok_def by (auto simp: nth_mem)

lemma event_ok_mono: "event_ok f e \<Longrightarrow> (\<And>p. f p \<noteq> None \<Longrightarrow> g p \<noteq> None) \<Longrightarrow> event_ok g e"
  by (auto simp: event_ok_def)

lemma event_ok_upd: "event_ok f e \<Longrightarrow> event_ok (f(p \<mapsto> t)) e"
  by (erule event_ok_mono) simp

definition highest :: "OS \<Rightarrow> u8" where
  "highest s = of_nat (Min (ready s))"

lemma highest_ready: "os_ok s \<Longrightarrow> unat (highest s) = Min (ready s) \<and> Min (ready s) \<in> ready s"
proof -
  assume "os_ok s"
  then have m: "Min (ready s) \<in> ready s" using os_okD(3) by simp
  then have "Min (ready s) < 64" using prios_bound by blast
  then show ?thesis using m by (simp add: highest_def unat_of_nat)
qed

lemma highest_tcb: "os_ok s \<Longrightarrow> \<exists>t. OSTCBPrioTbl s (highest s) = Some t"
  using highest_ready os_okD(6) by (fastforce simp: highest_def)

lemma OS_SchedNew_highest: "os_ok s \<Longrightarrow> OS_SchedNew s = Some (s\<lparr>OSPrioHighRdy := highest s\<rparr>)"
  using prio.first [OF os_okD(1), OF _ os_okD(3)] by (simp add: OS_SchedNew_def highest_def)

text \<open>The state after the scheduler ran: what \<open>request_switch\<close> must do.\<close>

definition scheduled :: "OS \<Rightarrow> OS" where
  "scheduled s =
     (if highest s = OSPrioCur s then s\<lparr>OSPrioHighRdy := highest s\<rparr>
      else s\<lparr>OSPrioHighRdy := highest s,
             OSTCBPrioTbl := (OSTCBPrioTbl s)(highest s := map_option
                (\<lambda>t. t\<lparr>OSTCBCtxSwCtr := OSTCBCtxSwCtr t + 1\<rparr>) (OSTCBPrioTbl s (highest s))),
             OSCtxSwCtr := OSCtxSwCtr s + 1, switchPending := True\<rparr>)"

lemma request_switch_scheduled: "os_ok s \<Longrightarrow> request_switch s = Some (scheduled s)"
  using highest_tcb [of s]
  by (auto simp: request_switch_def OS_SchedNew_highest scheduled_def)

lemma scheduled_simps [simp]:
  "OSRdyGrp (scheduled s) = OSRdyGrp s" "OSRdyTbl (scheduled s) = OSRdyTbl s"
  "OSEvents (scheduled s) = OSEvents s" "OSPrioCur (scheduled s) = OSPrioCur s"
  "OSPrioHighRdy (scheduled s) = highest s" "OSQTbl (scheduled s) = OSQTbl s"
  "OSIntNesting (scheduled s) = OSIntNesting s" "OSLockNesting (scheduled s) = OSLockNesting s"
  "switchPending (scheduled s) \<longleftrightarrow> switchPending s \<or> highest s \<noteq> OSPrioCur s"
  by (auto simp: scheduled_def)

lemma OS_Sched_scheduled:
  "os_ok s \<Longrightarrow> OS_Sched s = Some (if OSIntNesting s = 0 \<and> OSLockNesting s = 0 then scheduled s else s)"
  by (simp add: OS_Sched_def request_switch_scheduled)

lemma scheduled_ok: "os_ok s \<Longrightarrow> os_ok (scheduled s)"
proof -
  assume ok: "os_ok s"
  obtain t where t: "OSTCBPrioTbl s (highest s) = Some t" using highest_tcb [OF ok] by blast
  then have "tcb_at (unat (highest s)) (t\<lparr>OSTCBCtxSwCtr := c\<rparr>)" for c
    using os_okD(4) [OF ok t] by (simp add: tcb_at_def)
  then show ?thesis
    using ok t os_okD(5) [OF ok t] by (auto simp: scheduled_def os_ok_def event_ok_upd)
qed

lemma OS_Sched_ok: "os_ok s \<Longrightarrow> \<exists>s'. OS_Sched s = Some s' \<and> os_ok s'"
  by (simp add: OS_Sched_def request_switch_scheduled scheduled_ok)

lemma OSIntEnter_ok: "os_ok s \<Longrightarrow> os_ok (OSIntEnter s)"
  by (simp add: OSIntEnter_def os_ok_def)

lemma os_ok_nesting [simp]:
  "os_ok (s\<lparr>OSIntNesting := n\<rparr>) = os_ok s" "os_ok (s\<lparr>OSLockNesting := n\<rparr>) = os_ok s"
  by (simp_all add: os_ok_def)

lemma OSIntExit_ok: "os_ok s \<Longrightarrow> \<exists>s'. OSIntExit s = Some s' \<and> os_ok s'"
  by (simp add: OSIntExit_def Let_def request_switch_scheduled scheduled_ok)

lemma OSSchedUnlock_ok: "os_ok s \<Longrightarrow> \<exists>s'. OSSchedUnlock s = Some s' \<and> os_ok s'"
  by (simp add: OSSchedUnlock_def Let_def OS_Sched_ok)

lemma tcb_at_cong:
  "OSTCBY u = OSTCBY t \<Longrightarrow> OSTCBBitX u = OSTCBBitX t \<Longrightarrow> OSTCBBitY u = OSTCBBitY t \<Longrightarrow>
     tcb_at p u = tcb_at p t"
  by (simp add: tcb_at_def)

text \<open>Replacing a block by one with the same masks and any new ready list and event.\<close>

lemma os_ok_update:
  assumes ok: "os_ok s" and t: "OSTCBPrioTbl s p = Some t"
    and u: "tcb_at (unat p) u" "OSTCBEventMultiPtr u = None"
    and r: "bits_ok r" "63 \<in> prios r" "prios r \<subseteq> insert (unat p) (ready s)"
    and evs: "\<forall>e \<in> set evs. event_ok (OSTCBPrioTbl s) e"
  shows "os_ok (s\<lparr>OSTCBPrioTbl := (OSTCBPrioTbl s)(p \<mapsto> u), OSEvents := evs,
                  OSRdyGrp := fst r, OSRdyTbl := snd r\<rparr>)"
proof -
  have "OSTCBPrioTbl s (of_nat q) \<noteq> None \<or> of_nat q = p" if "q \<in> prios r" for q
    using r(3) that os_okD(6) [OF ok] by auto
  then show ?thesis
    using ok u r(1,2) evs by (auto simp: os_ok_def event_ok_upd)
qed

lemma event_ok_replace:
  "\<forall>e \<in> set evs. event_ok f e \<Longrightarrow> event_ok f e' \<Longrightarrow> \<forall>e \<in> set (evs[i := e']). event_ok f e"
  by (metis in_set_conv_nth length_list_update nth_list_update_eq nth_list_update_neq)

lemma OS_EventTaskWait_ok:
  assumes ok: "os_ok s" and ev: "ev < length (OSEvents s)"
    and t: "OSTCBPrioTbl s (OSPrioCur s) = Some t" and idle: "OSPrioCur s \<noteq> 63"
  shows "\<exists>s'. OS_EventTaskWait ev s = Some s' \<and> os_ok s'
           \<and> ready s' = ready s - {unat (OSPrioCur s)}
           \<and> waiting (OSEvents s' ! ev) = insert (unat (OSPrioCur s)) (waiting (OSEvents s ! ev))"
proof -
  let ?p = "OSPrioCur s" and ?e = "OSEvents s ! ev"
  have at: "tcb_at (unat ?p) t" using os_okD(4) [OF ok t] .
  have e: "event_ok (OSTCBPrioTbl s) ?e" using os_okD(8) [OF ok ev] .
  obtain w where w: "bits_set t (OSEventGrp ?e, OSEventTbl ?e) = Some w" "bits_ok w"
      "prios w = insert (unat ?p) (waiting ?e)"
    using prio.ins [OF at, of "(OSEventGrp ?e, OSEventTbl ?e)"] e unfolding event_ok_def by blast
  obtain r where r: "bits_clear t (OSRdyGrp s, OSRdyTbl s) = Some r" "bits_ok r"
      "prios r = ready s - {unat ?p}"
    using prio.rem [OF at os_okD(1) [OF ok]] by blast
  have p63: "unat ?p \<noteq> 63" using idle by (simp add: word_unat_eq_iff)
  let ?evs = "(OSEvents s)[ev := ?e\<lparr>OSEventGrp := fst w, OSEventTbl := snd w\<rparr>]"
  let ?s = "s\<lparr>OSTCBPrioTbl := (OSTCBPrioTbl s)(?p \<mapsto> t\<lparr>OSTCBEventPtr := Some ev\<rparr>),
      OSEvents := ?evs, OSRdyGrp := fst r, OSRdyTbl := snd r\<rparr>"
  have "event_ok (OSTCBPrioTbl s) (?e\<lparr>OSEventGrp := fst w, OSEventTbl := snd w\<rparr>)"
    using e w t by (auto simp: event_ok_def)
  then have evs: "\<forall>e \<in> set ?evs. event_ok (OSTCBPrioTbl s) e"
    using os_okD(7) [OF ok] by (intro event_ok_replace) auto
  have "tcb_at (unat ?p) (t\<lparr>OSTCBEventPtr := Some ev\<rparr>)" using at by (simp add: tcb_at_def)
  then have "os_ok ?s"
    using os_okD(2,5) [OF ok] t r p63 evs by (intro os_ok_update [OF ok t]) auto
  moreover have "OS_EventTaskWait ev s = Some ?s"
    using ev t w(1) r(1) by (simp add: OS_EventTaskWait_def rd_in case_prod_beta del: rd_eq_Some)
  ultimately show ?thesis using ev w(3) r(3) by auto
qed

lemma OS_EventTaskWait_frame:
  "OS_EventTaskWait ev s = Some s' \<Longrightarrow> OSPrioCur s' = OSPrioCur s \<and> OSIntNesting s' = OSIntNesting s
     \<and> OSLockNesting s' = OSLockNesting s \<and> OSQTbl s' = OSQTbl s
     \<and> length (OSEvents s') = length (OSEvents s)"
  by (auto simp: OS_EventTaskWait_def bind_eq_Some_conv)

lemma OS_EventTaskRdy_ok:
  assumes ok: "os_ok s" and ev: "ev < length (OSEvents s)"
    and w: "waiting (OSEvents s ! ev) \<noteq> {}"
  defines "p \<equiv> of_nat (Min (waiting (OSEvents s ! ev))) :: u8"
  shows "\<exists>s' t u. OS_EventTaskRdy ev m msk st s = Some (p, s') \<and> os_ok s'
           \<and> OSTCBPrioTbl s p = Some t \<and> OSTCBPrioTbl s' p = Some u
           \<and> unat p = Min (waiting (OSEvents s ! ev))
           \<and> OSTCBMsg u = m \<and> OSTCBStatPend u = st \<and> OSTCBDly u = 0
           \<and> OSTCBStat u = OSTCBStat t AND NOT msk
           \<and> waiting (OSEvents s' ! ev) = waiting (OSEvents s ! ev) - {unat p}
           \<and> ready s' = (if OSTCBStat u AND OS_STAT_SUSPEND = 0
                          then insert (unat p) (ready s) else ready s)
           \<and> length (OSEvents s') = length (OSEvents s)
           \<and> (\<forall>q. q \<noteq> p \<longrightarrow> OSTCBPrioTbl s' q = OSTCBPrioTbl s q)
           \<and> OSPrioCur s' = OSPrioCur s \<and> OSIntNesting s' = OSIntNesting s
           \<and> OSLockNesting s' = OSLockNesting s \<and> OSQTbl s' = OSQTbl s
           \<and> (\<forall>i. i \<noteq> ev \<longrightarrow> OSEvents s' ! i = OSEvents s ! i)
           \<and> OSEventType (OSEvents s' ! ev) = OSEventType (OSEvents s ! ev)
           \<and> OSEventPtr (OSEvents s' ! ev) = OSEventPtr (OSEvents s ! ev)"
proof -
  let ?e = "OSEvents s ! ev"
  have e: "event_ok (OSTCBPrioTbl s) ?e" using os_okD(8) [OF ok ev] .
  then have eb: "bits_ok (OSEventGrp ?e, OSEventTbl ?e)" by (simp add: event_ok_def)
  have m: "Min (waiting ?e) \<in> waiting ?e" using w by simp
  then have "Min (waiting ?e) < 64" using prios_bound by blast
  then have p: "unat p = Min (waiting ?e)" by (simp add: p_def unat_of_nat)
  obtain t where t: "OSTCBPrioTbl s p = Some t"
    using e m by (auto simp: event_ok_def p_def)
  have f: "bits_first (OSEventGrp ?e, OSEventTbl ?e) = Some p"
    using prio.first [OF eb w] by (simp add: p_def)
  define u where "u = readied m msk st t"
  have at: "tcb_at (unat p) u" using os_okD(4) [OF ok t] by (simp add: u_def readied_def tcb_at_def)
  have mu: "OSTCBEventMultiPtr u = None" using os_okD(5) [OF ok t] by (simp add: u_def readied_def)
  obtain r where r: "(if OSTCBStat u AND OS_STAT_SUSPEND = OS_STAT_RDY
        then bits_set u (OSRdyGrp s, OSRdyTbl s) else Some (OSRdyGrp s, OSRdyTbl s)) = Some r"
      "bits_ok r" "prios r = (if OSTCBStat u AND OS_STAT_SUSPEND = 0
                          then insert (unat p) (ready s) else ready s)"
    using prio.ins [OF at os_okD(1) [OF ok]] os_okD(1) [OF ok]
    by (cases "OSTCBStat u AND OS_STAT_SUSPEND = 0") (auto simp: OS_STAT_RDY_def)
  obtain c where c: "bits_clear u (OSEventGrp ?e, OSEventTbl ?e) = Some c" "bits_ok c"
      "prios c = waiting ?e - {unat p}"
    using prio.rem [OF at eb] by blast
  let ?e' = "?e\<lparr>OSEventGrp := fst c, OSEventTbl := snd c\<rparr>"
  let ?s = "s\<lparr>OSTCBPrioTbl := (OSTCBPrioTbl s)(p \<mapsto> u), OSEvents := (OSEvents s)[ev := ?e'],
      OSRdyGrp := fst r, OSRdyTbl := snd r\<rparr>"
  have "event_ok (OSTCBPrioTbl s) ?e'" using e c by (auto simp: event_ok_def)
  then have evs: "\<forall>x \<in> set ((OSEvents s)[ev := ?e']). event_ok (OSTCBPrioTbl s) x"
    using os_okD(7) [OF ok] by (intro event_ok_replace) auto
  have "63 \<in> prios r" "prios r \<subseteq> insert (unat p) (ready s)"
    using r(3) os_okD(2) [OF ok] by (auto split: if_splits)
  then have "os_ok ?s" using r(2) evs at mu by (intro os_ok_update [OF ok t])
  moreover have "OS_EventTaskRdy ev m msk st s = Some (p, ?s)"
    using ev f t r(1) c(1) mu
    by (cases "OSTCBStat u AND OS_STAT_SUSPEND = OS_STAT_RDY")
      (simp_all add: OS_EventTaskRdy_def OS_EventTaskRemove_def rd_in case_prod_beta Let_def
        del: rd_eq_Some flip: u_def)
  moreover have "OSTCBMsg u = m" "OSTCBStatPend u = st" "OSTCBDly u = 0"
      "OSTCBStat u = OSTCBStat t AND NOT msk" by (simp_all add: u_def readied_def)
  ultimately show ?thesis using ev t p c(3) r(3)
    by (intro exI [of _ ?s] exI [of _ t] exI [of _ u] conjI) simp_all
qed

section \<open>A concrete state\<close>

text \<open>
  Tasks 5, 10 and the idle task; task 10 runs, task 5 waits for the queue of event 0, event 1 is
  a queue nobody waits for.
\<close>

definition ex_tcb :: "u8 \<Rightarrow> OS_TCB" where
  "ex_tcb p = \<lparr>OSTCBPrio = p, OSTCBX = p AND 7, OSTCBY = drop_bit 3 p,
     OSTCBBitX = push_bit (unat p mod 8) 1, OSTCBBitY = push_bit (unat p div 8) 1, OSTCBDly = 0,
     OSTCBStat = (if p = 5 then 4 else 0), OSTCBStatPend = 0, OSTCBMsg = None,
     OSTCBEventPtr = None, OSTCBEventMultiPtr = None, OSTCBCtxSwCtr = 0\<rparr>"

definition ex_queue_event :: "nat \<Rightarrow> bits \<Rightarrow> OS_EVENT" where
  "ex_queue_event i w = \<lparr>OSEventType = 2, OSEventPtr = Queue i, OSEventCnt = 0,
     OSEventGrp = fst w, OSEventTbl = snd w\<rparr>"

definition ex_ring :: OS_Q where
  "ex_ring = \<lparr>OSQPtr = None, OSQStart = [None, Some 21, Some 22], OSQEnd = 3, OSQIn = 0, OSQOut = 1,
     OSQSize = 3, OSQEntries = 2\<rparr>"

definition ex_os :: OS where
  "ex_os = \<lparr>OSRunning = True, OSIntNesting = 0, OSLockNesting = 0, OSPrioCur = 10,
     OSPrioHighRdy = 10, OSRdyGrp = 0x82, OSRdyTbl = [0, 4, 0, 0, 0, 0, 0, 0x80],
     OSTCBPrioTbl = [5 \<mapsto> ex_tcb 5, 10 \<mapsto> ex_tcb 10, 63 \<mapsto> ex_tcb 63],
     OSTCBList = [5, 10, 63], OSCtxSwCtr = 0, switchPending = False,
     OSEvents = [ex_queue_event 0 (1, [0x20, 0, 0, 0, 0, 0, 0, 0]), ex_queue_event 1 (0, replicate 8 0)],
     OSEventFreeList = None, OSQTbl = [ex_ring, ex_ring], OSQFreeList = None, OSTime = 0,
     OSTickStepState = 0, OSTmrCtr = 0, OSTmrSemSignal = 0\<rparr>"

lemma bits_empty: "bits_ok (0, replicate 8 0)" "prios (0, replicate 8 0) = {}"
  by (auto simp: bits_ok_def prios_def)

lemma ex_tcb_at: "unat p < 64 \<Longrightarrow> tcb_at (unat p) (ex_tcb p)"
  by (simp add: tcb_at_def ex_tcb_def drop_bit_eq_div unat_div)

lemma ex_bits_one: "tcb_at p t \<Longrightarrow> bits_set t (0, replicate 8 0) = Some b \<Longrightarrow> bits_ok b \<and> prios b = {p}"
  using prio.ins [OF _ bits_empty(1)] bits_empty(2) by fastforce

lemma ex_set:
  "bits_set (ex_tcb 5) (0, replicate 8 0) = Some (1, [0x20, 0, 0, 0, 0, 0, 0, 0])"
  "bits_set (ex_tcb 63) (0, replicate 8 0) = Some (0x80, [0, 0, 0, 0, 0, 0, 0, 0x80])"
  "bits_set (ex_tcb 10) (0x80, [0, 0, 0, 0, 0, 0, 0, 0x80]) = Some (0x82, [0, 4, 0, 0, 0, 0, 0, 0x80])"
  by code_simp+

lemma ex_waiter: "bits_ok (1, [0x20, 0, 0, 0, 0, 0, 0, 0])" "prios (1, [0x20, 0, 0, 0, 0, 0, 0, 0]) = {5}"
  using ex_bits_one [OF _ ex_set(1), of 5] ex_tcb_at [of 5] by simp_all

lemma ex_ready: "bits_ok (0x82, [0, 4, 0, 0, 0, 0, 0, 0x80])"
    "prios (0x82, [0, 4, 0, 0, 0, 0, 0, 0x80]) = {10, 63}"
proof -
  have b: "bits_ok (0x80, [0, 0, 0, 0, 0, 0, 0, 0x80])" "prios (0x80, [0, 0, 0, 0, 0, 0, 0, 0x80]) = {63}"
    using ex_bits_one [OF _ ex_set(2), of 63] ex_tcb_at [of 63] by simp_all
  show "bits_ok (0x82, [0, 4, 0, 0, 0, 0, 0, 0x80])"
    "prios (0x82, [0, 4, 0, 0, 0, 0, 0, 0x80]) = {10, 63}"
    using prio.ins [OF ex_tcb_at [of 10] b(1)] b(2) ex_set(3) by auto
qed

lemma ex_os_ok: "os_ok ex_os"
  using ex_tcb_at [of 5] ex_tcb_at [of 10] ex_tcb_at [of 63]
  by (auto simp: os_ok_def ex_os_def ex_ready ex_queue_event_def event_ok_def ex_waiter bits_empty
      ex_tcb_def split: if_splits)

lemma ex_os_simps [simp]:
  "OSIntNesting ex_os = 0" "OSLockNesting ex_os = 0" "\<not> switchPending ex_os" "OSRunning ex_os"
  "OSPrioCur ex_os = 10" "ready ex_os = {10, 63}" "length (OSEvents ex_os) = 2"
  "waiting (OSEvents ex_os ! 0) = {5}" "waiting (OSEvents ex_os ! 1) = {}"
  "OSEventType (OSEvents ex_os ! 0) = 2" "OSEventType (OSEvents ex_os ! 1) = 2"
  by (simp_all add: ex_os_def ex_ready ex_queue_event_def ex_waiter bits_empty)

section \<open>Properties\<close>

text \<open>When no interrupt is nested and the scheduler is not locked, the scheduler selects the
  highest-priority ready task, requests a context switch exactly if that is not the running
  task, and keeps the kernel invariant.\<close>

theorem OS_Sched_selects_highest:
  assumes "os_ok s" and "OSIntNesting s = 0" and "OSLockNesting s = 0" and "\<not> switchPending s"
  shows "\<exists>s'. OS_Sched s = Some s' \<and> os_ok s' \<and> ready s' = ready s
           \<and> unat (OSPrioHighRdy s') \<in> ready s \<and> (\<forall>p \<in> ready s. unat (OSPrioHighRdy s') \<le> p)
           \<and> (switchPending s' \<longleftrightarrow> OSPrioHighRdy s' \<noteq> OSPrioCur s)"
  using assms highest_ready [OF assms(1)]
  by (simp add: OS_Sched_scheduled scheduled_ok)

theorem OS_Sched_selects_highest_witness:
  "\<exists>s'. OS_Sched ex_os = Some s' \<and> os_ok s' \<and> unat (OSPrioHighRdy s') \<in> {10, 63}
       \<and> unat (OSPrioHighRdy s') \<le> 10"
  using OS_Sched_selects_highest [OF ex_os_ok] by fastforce

text \<open>An interrupt handler bracketed by \<open>OSIntEnter\<close> and \<open>OSIntExit\<close> leaves the nesting
  level as it found it, and reschedules only when it was the outermost one and the scheduler is
  not locked.\<close>

theorem OSInt_bracket:
  assumes "os_ok s" and "OSRunning s" and "OSIntNesting s < 255"
  shows "\<exists>s'. OSIntExit (OSIntEnter s) = Some s' \<and> os_ok s' \<and> OSIntNesting s' = OSIntNesting s
           \<and> s' = (if OSIntNesting s = 0 \<and> OSLockNesting s = 0 then scheduled s else s)"
proof -
  have "OSIntNesting s + 1 \<noteq> 0" using assms(3) by (rule inc_not_zero)
  then show ?thesis
    using assms by (simp add: OSIntEnter_def OSIntExit_def Let_def word_gt_0 request_switch_scheduled scheduled_ok)
qed

theorem OSInt_bracket_witness:
  "\<exists>s'. OSIntExit (OSIntEnter ex_os) = Some s' \<and> OSIntNesting s' = 0 \<and> s' = scheduled ex_os"
  using OSInt_bracket [OF ex_os_ok] by simp

end
