(* ===== verification/Os_Ipc.thy ===== *)
theory Os_Ipc
  imports Os_Core
begin

text \<open>
  Message queues and semaphores of the kernel, \<open>uCOS-II/Source/os_q.c\<close> and \<open>os_sem.c\<close>, as far
  as the application calls them, and the clock tick. A blocking call is two definitions: the
  part up to the scheduler call, which says whether the caller blocks, and the part that runs
  when the task is switched in again.
\<close>

datatype os_err =
    OS_ERR_NONE | OS_ERR_EVENT_TYPE | OS_ERR_PEND_ISR | OS_ERR_TIMEOUT | OS_ERR_PEND_LOCKED
  | OS_ERR_PEND_ABORT | OS_ERR_Q_FULL | OS_ERR_Q_EMPTY | OS_ERR_MBOX_FULL | OS_ERR_SEM_OVF | OS_ERR_INVALID_OPT
  | OS_ERR_DEL_ISR | OS_ERR_CREATE_ISR | OS_ERR_TASK_WAITING | OS_ERR_FLAG_WAIT_TYPE
  | OS_ERR_FLAG_NOT_RDY | OS_ERR_FLAG_INVALID_OPT | OS_ERR_FLAG_GRP_DEPLETED

definition OS_EVENT_TYPE_UNUSED :: u8 where "OS_EVENT_TYPE_UNUSED = 0"
definition OS_EVENT_TYPE_MBOX :: u8 where "OS_EVENT_TYPE_MBOX = 1"
definition OS_EVENT_TYPE_Q :: u8 where "OS_EVENT_TYPE_Q = 2"
definition OS_EVENT_TYPE_SEM :: u8 where "OS_EVENT_TYPE_SEM = 3"
definition OS_DEL_NO_PEND :: u8 where "OS_DEL_NO_PEND = 0"
definition OS_DEL_ALWAYS :: u8 where "OS_DEL_ALWAYS = 1"

text \<open>How a blocking call ends: at once with a result, or with the caller waiting.\<close>

datatype 'a pend = Done 'a os_err | Blocked

section \<open>The ring of a queue\<close>

definition q_take :: "OS_Q \<Rightarrow> (msg \<times> OS_Q) option" where
  "q_take q = do {
     m \<leftarrow> rd (OSQStart q) (OSQOut q);
     let q = q\<lparr>OSQOut := OSQOut q + 1, OSQEntries := OSQEntries q - 1\<rparr>;
     Some (m, if OSQOut q = OSQEnd q then q\<lparr>OSQOut := 0\<rparr> else q) }"

definition q_put :: "msg \<Rightarrow> OS_Q \<Rightarrow> OS_Q option" where
  "q_put m q = do {
     st \<leftarrow> wr (OSQStart q) (OSQIn q) m;
     let q = q\<lparr>OSQStart := st, OSQIn := OSQIn q + 1, OSQEntries := OSQEntries q + 1\<rparr>;
     Some (if OSQIn q = OSQEnd q then q\<lparr>OSQIn := 0\<rparr> else q) }"

definition q_put_front :: "msg \<Rightarrow> OS_Q \<Rightarrow> OS_Q option" where
  "q_put_front m q =
     (let q1 = (if OSQOut q = 0 then q\<lparr>OSQOut := OSQEnd q\<rparr> else q);
          q2 = q1\<lparr>OSQOut := OSQOut q1 - 1\<rparr>
      in do {
        st \<leftarrow> wr (OSQStart q2) (OSQOut q2) m;
        Some (q2\<lparr>OSQStart := st, OSQEntries := OSQEntries q2 + 1\<rparr>) })"

definition q_full :: "OS_Q \<Rightarrow> bool" where
  "q_full q \<longleftrightarrow> OSQEntries q \<ge> OSQSize q"

fun event_queue :: "EventPtr \<Rightarrow> nat option" where
  "event_queue (Queue i) = Some i"
| "event_queue _ = None"

definition the_q :: "nat \<Rightarrow> OS \<Rightarrow> (nat \<times> OS_Q) option" where
  "the_q ev s = do {
     e \<leftarrow> rd (OSEvents s) ev;
     i \<leftarrow> event_queue (OSEventPtr e);
     q \<leftarrow> rd (OSQTbl s) i;
     Some (i, q) }"

section \<open>Queue services\<close>

definition OSQCreate :: "msg list \<Rightarrow> u16 \<Rightarrow> OS \<Rightarrow> (nat option \<times> OS) option" where
  "OSQCreate start sz s =
     (if OSIntNesting s > 0 then Some (None, s)
      else case OSEventFreeList s of
        None \<Rightarrow> Some (None, s)
      | Some ev \<Rightarrow> do {
          e \<leftarrow> rd (OSEvents s) ev;
          let s1 = s\<lparr>OSEventFreeList :=
            (case OSEventPtr e of FreeEvent n \<Rightarrow> Some n | _ \<Rightarrow> None)\<rparr>;
          (case OSQFreeList s1 of
             None \<Rightarrow>
               Some (None, s1\<lparr>OSEvents := (OSEvents s1)[ev := e\<lparr>OSEventPtr :=
                   (case OSEventFreeList s1 of None \<Rightarrow> Null | Some n \<Rightarrow> FreeEvent n)\<rparr>],
                 OSEventFreeList := Some ev\<rparr>)
           | Some qi \<Rightarrow> do {
               q \<leftarrow> rd (OSQTbl s1) qi;
               Some (Some ev, s1\<lparr>OSQFreeList := OSQPtr q,
                 OSQTbl := (OSQTbl s1)[qi := q\<lparr>OSQStart := start, OSQEnd := unat sz, OSQIn := 0,
                   OSQOut := 0, OSQSize := sz, OSQEntries := 0\<rparr>],
                 OSEvents := (OSEvents s1)[ev := OS_EventWaitListInit
                   (e\<lparr>OSEventType := OS_EVENT_TYPE_Q, OSEventCnt := 0, OSEventPtr := Queue qi\<rparr>)]\<rparr>) }) })"

definition OSQAccept :: "nat \<Rightarrow> OS \<Rightarrow> (msg \<times> os_err \<times> OS) option" where
  "OSQAccept ev s = do {
     e \<leftarrow> rd (OSEvents s) ev;
     if OSEventType e \<noteq> OS_EVENT_TYPE_Q then Some (None, OS_ERR_EVENT_TYPE, s)
     else do {
       (i, q) \<leftarrow> the_q ev s;
       if OSQEntries q > 0 then do {
         (m, q') \<leftarrow> q_take q;
         Some (m, OS_ERR_NONE, s\<lparr>OSQTbl := (OSQTbl s)[i := q']\<rparr>) }
       else Some (None, OS_ERR_Q_EMPTY, s) } }"

definition OSQFlush :: "nat \<Rightarrow> OS \<Rightarrow> OS option" where
  "OSQFlush ev s = do {
     (i, q) \<leftarrow> the_q ev s;
     Some (s\<lparr>OSQTbl := (OSQTbl s)[i := q\<lparr>OSQIn := 0, OSQOut := 0, OSQEntries := 0\<rparr>]\<rparr>) }"

definition OSQPost :: "nat \<Rightarrow> msg \<Rightarrow> OS \<Rightarrow> (os_err \<times> OS) option" where
  "OSQPost ev m s = do {
     e \<leftarrow> rd (OSEvents s) ev;
     if OSEventType e \<noteq> OS_EVENT_TYPE_Q then Some (OS_ERR_EVENT_TYPE, s)
     else if OSEventGrp e \<noteq> 0 then do {
       (_, s) \<leftarrow> OS_EventTaskRdy ev m OS_STAT_Q OS_STAT_PEND_OK s;
       s \<leftarrow> OS_Sched s;
       Some (OS_ERR_NONE, s) }
     else do {
       (i, q) \<leftarrow> the_q ev s;
       if q_full q then Some (OS_ERR_Q_FULL, s)
       else do {
         q' \<leftarrow> q_put m q;
         Some (OS_ERR_NONE, s\<lparr>OSQTbl := (OSQTbl s)[i := q']\<rparr>) } } }"

definition OSQPostFront :: "nat \<Rightarrow> msg \<Rightarrow> OS \<Rightarrow> (os_err \<times> OS) option" where
  "OSQPostFront ev m s = do {
     e \<leftarrow> rd (OSEvents s) ev;
     if OSEventType e \<noteq> OS_EVENT_TYPE_Q then Some (OS_ERR_EVENT_TYPE, s)
     else if OSEventGrp e \<noteq> 0 then do {
       (_, s) \<leftarrow> OS_EventTaskRdy ev m OS_STAT_Q OS_STAT_PEND_OK s;
       s \<leftarrow> OS_Sched s;
       Some (OS_ERR_NONE, s) }
     else do {
       (i, q) \<leftarrow> the_q ev s;
       if q_full q then Some (OS_ERR_Q_FULL, s)
       else do {
         q' \<leftarrow> q_put_front m q;
         Some (OS_ERR_NONE, s\<lparr>OSQTbl := (OSQTbl s)[i := q']\<rparr>) } } }"

text \<open>Marking the running task as waiting with a time limit, as every pend does.\<close>

definition pend_wait :: "u8 \<Rightarrow> u32 \<Rightarrow> nat \<Rightarrow> OS \<Rightarrow> OS option" where
  "pend_wait stat timeout ev s = do {
     t \<leftarrow> OSTCBPrioTbl s (OSPrioCur s);
     let s = s\<lparr>OSTCBPrioTbl := (OSTCBPrioTbl s)(OSPrioCur s \<mapsto>
       t\<lparr>OSTCBStat := OSTCBStat t OR stat, OSTCBStatPend := OS_STAT_PEND_OK, OSTCBDly := timeout\<rparr>)\<rparr>;
     s \<leftarrow> OS_EventTaskWait ev s;
     OS_Sched s }"

definition OSQPend :: "nat \<Rightarrow> u32 \<Rightarrow> OS \<Rightarrow> (msg pend \<times> OS) option" where
  "OSQPend ev timeout s = do {
     e \<leftarrow> rd (OSEvents s) ev;
     if OSEventType e \<noteq> OS_EVENT_TYPE_Q then Some (Done None OS_ERR_EVENT_TYPE, s)
     else if OSIntNesting s > 0 then Some (Done None OS_ERR_PEND_ISR, s)
     else if OSLockNesting s > 0 then Some (Done None OS_ERR_PEND_LOCKED, s)
     else do {
       (i, q) \<leftarrow> the_q ev s;
       if OSQEntries q > 0 then do {
         (m, q') \<leftarrow> q_take q;
         Some (Done m OS_ERR_NONE, s\<lparr>OSQTbl := (OSQTbl s)[i := q']\<rparr>) }
       else do {
         s \<leftarrow> pend_wait OS_STAT_Q timeout ev s;
         Some (Blocked, s) } } }"

text \<open>The rest of a pend, run by the task when it is switched in again.\<close>

definition pend_resume :: "nat \<Rightarrow> OS \<Rightarrow> (msg \<times> os_err \<times> OS) option" where
  "pend_resume ev s = do {
     t \<leftarrow> OSTCBPrioTbl s (OSPrioCur s);
     (m, err, s) \<leftarrow>
       (if OSTCBStatPend t = OS_STAT_PEND_OK then Some (OSTCBMsg t, OS_ERR_NONE, s)
        else if OSTCBStatPend t = OS_STAT_PEND_ABORT then Some (None, OS_ERR_PEND_ABORT, s)
        else do {
          e \<leftarrow> rd (OSEvents s) ev;
          e' \<leftarrow> OS_EventTaskRemove t e;
          Some (None, OS_ERR_TIMEOUT, s\<lparr>OSEvents := (OSEvents s)[ev := e']\<rparr>) });
     Some (m, err, s\<lparr>OSTCBPrioTbl := (OSTCBPrioTbl s)(OSPrioCur s \<mapsto>
       t\<lparr>OSTCBStat := OS_STAT_RDY, OSTCBStatPend := OS_STAT_PEND_OK, OSTCBEventPtr := None,
         OSTCBEventMultiPtr := None\<rparr>)\<rparr>) }"

definition OSQPend_resume :: "nat \<Rightarrow> OS \<Rightarrow> (msg \<times> os_err \<times> OS) option" where
  "OSQPend_resume ev s = do {
     (m, err, s) \<leftarrow> pend_resume ev s;
     t \<leftarrow> OSTCBPrioTbl s (OSPrioCur s);
     Some (m, err, s\<lparr>OSTCBPrioTbl := (OSTCBPrioTbl s)(OSPrioCur s \<mapsto> t\<lparr>OSTCBMsg := None\<rparr>)\<rparr>) }"

section \<open>Semaphore services\<close>

definition OSSemCreate :: "u16 \<Rightarrow> OS \<Rightarrow> (nat option \<times> OS) option" where
  "OSSemCreate cnt s =
     (if OSIntNesting s > 0 then Some (None, s)
      else case OSEventFreeList s of
        None \<Rightarrow> Some (None, s)
      | Some ev \<Rightarrow> do {
          e \<leftarrow> rd (OSEvents s) ev;
          Some (Some ev, s\<lparr>OSEventFreeList :=
              (case OSEventPtr e of FreeEvent n \<Rightarrow> Some n | _ \<Rightarrow> None),
            OSEvents := (OSEvents s)[ev := OS_EventWaitListInit
              (e\<lparr>OSEventType := OS_EVENT_TYPE_SEM, OSEventCnt := cnt, OSEventPtr := Null\<rparr>)]\<rparr>) })"

definition OSSemAccept :: "nat \<Rightarrow> OS \<Rightarrow> (u16 \<times> OS) option" where
  "OSSemAccept ev s = do {
     e \<leftarrow> rd (OSEvents s) ev;
     if OSEventType e \<noteq> OS_EVENT_TYPE_SEM then Some (0, s)
     else let cnt = OSEventCnt e in
       Some (cnt, if cnt > 0 then s\<lparr>OSEvents := (OSEvents s)[ev := e\<lparr>OSEventCnt := cnt - 1\<rparr>]\<rparr> else s) }"

definition OSSemPend :: "nat \<Rightarrow> u32 \<Rightarrow> OS \<Rightarrow> (unit pend \<times> OS) option" where
  "OSSemPend ev timeout s = do {
     e \<leftarrow> rd (OSEvents s) ev;
     if OSEventType e \<noteq> OS_EVENT_TYPE_SEM then Some (Done () OS_ERR_EVENT_TYPE, s)
     else if OSIntNesting s > 0 then Some (Done () OS_ERR_PEND_ISR, s)
     else if OSLockNesting s > 0 then Some (Done () OS_ERR_PEND_LOCKED, s)
     else if OSEventCnt e > 0 then
       Some (Done () OS_ERR_NONE, s\<lparr>OSEvents := (OSEvents s)[ev := e\<lparr>OSEventCnt := OSEventCnt e - 1\<rparr>]\<rparr>)
     else do {
       s \<leftarrow> pend_wait OS_STAT_SEM timeout ev s;
       Some (Blocked, s) } }"

definition OSSemPend_resume :: "nat \<Rightarrow> OS \<Rightarrow> (os_err \<times> OS) option" where
  "OSSemPend_resume ev s = map_option (\<lambda>(_, err, s). (err, s)) (pend_resume ev s)"

definition OSSemPost :: "nat \<Rightarrow> OS \<Rightarrow> (os_err \<times> OS) option" where
  "OSSemPost ev s = do {
     e \<leftarrow> rd (OSEvents s) ev;
     if OSEventType e \<noteq> OS_EVENT_TYPE_SEM then Some (OS_ERR_EVENT_TYPE, s)
     else if OSEventGrp e \<noteq> 0 then do {
       (_, s) \<leftarrow> OS_EventTaskRdy ev None OS_STAT_SEM OS_STAT_PEND_OK s;
       s \<leftarrow> OS_Sched s;
       Some (OS_ERR_NONE, s) }
     else if OSEventCnt e < 65535 then
       Some (OS_ERR_NONE, s\<lparr>OSEvents := (OSEvents s)[ev := e\<lparr>OSEventCnt := OSEventCnt e + 1\<rparr>]\<rparr>)
     else Some (OS_ERR_SEM_OVF, s) }"

section \<open>The clock tick\<close>

text \<open>The tick hook signals the timer task every hundredth tick; the application's hook is empty.\<close>

definition OSTimeTickHook :: "OS \<Rightarrow> OS option" where
  "OSTimeTickHook s =
     (let s = s\<lparr>OSTmrCtr := OSTmrCtr s + 1\<rparr> in
      if OSTmrCtr s \<ge> 100
      then map_option snd (OSSemPost (OSTmrSemSignal s) (s\<lparr>OSTmrCtr := 0\<rparr>))
      else Some s)"

definition OSTimeTick :: "OS \<Rightarrow> OS option" where
  "OSTimeTick s0 = do {
     s1 \<leftarrow> OSTimeTickHook s0;
     let s = s1\<lparr>OSTime := OSTime s1 + 1\<rparr>;
     if \<not> OSRunning s then Some s
     else if OSTickStepState s = OS_TICK_STEP_WAIT then Some s
     else let s = (if OSTickStepState s = OS_TICK_STEP_DIS then s
                   else if OSTickStepState s = OS_TICK_STEP_ONCE
                   then s\<lparr>OSTickStepState := OS_TICK_STEP_WAIT\<rparr>
                   else s\<lparr>OSTickStepState := OS_TICK_STEP_DIS\<rparr>) in
          tick_list (OSTCBList s) s }"

section \<open>The interface of a bounded queue\<close>

fun drain :: "('q \<Rightarrow> ('m \<times> 'q) option) \<Rightarrow> nat \<Rightarrow> 'q \<Rightarrow> ('m list \<times> 'q) option" where
  "drain get 0 q = Some ([], q)"
| "drain get (Suc n) q = do {
     (m, q') \<leftarrow> get q;
     (ms, q'') \<leftarrow> drain get n q';
     Some (m # ms, q'') }"

text \<open>
  What the users of a message queue rely on: it holds a list of at most \<open>cap\<close> messages,
  \<open>put\<close> appends, \<open>take\<close> removes the first. A queue that can also be extended at the front
  extends the interface.
\<close>

locale bounded_queue =
  fixes put :: "'m \<Rightarrow> 'q \<Rightarrow> 'q option"
    and take_first :: "'q \<Rightarrow> ('m \<times> 'q) option"
    and full :: "'q \<Rightarrow> bool"
    and cont :: "'q \<Rightarrow> 'm list"
    and cap :: "'q \<Rightarrow> nat"
    and ok :: "'q \<Rightarrow> bool"
  assumes full_iff: "ok q \<Longrightarrow> full q \<longleftrightarrow> length (cont q) = cap q"
    and fits: "ok q \<Longrightarrow> length (cont q) \<le> cap q"
    and put: "ok q \<Longrightarrow> \<not> full q \<Longrightarrow>
      \<exists>q'. put m q = Some q' \<and> ok q' \<and> cont q' = cont q @ [m] \<and> cap q' = cap q"
    and take_first: "ok q \<Longrightarrow> cont q = m # ms \<Longrightarrow>
      \<exists>q'. take_first q = Some (m, q') \<and> ok q' \<and> cont q' = ms \<and> cap q' = cap q"
begin

lemma put_all:
  "ok q \<Longrightarrow> length (cont q) + length ms \<le> cap q \<Longrightarrow>
     \<exists>q'. run put ms q = Some q' \<and> ok q' \<and> cont q' = cont q @ ms \<and> cap q' = cap q"
proof (induction ms arbitrary: q)
  case Nil
  then show ?case by simp
next
  case (Cons m ms)
  then have "\<not> full q" using full_iff by simp
  then obtain q1 where "put m q = Some q1" "ok q1" "cont q1 = cont q @ [m]" "cap q1 = cap q"
    using put Cons.prems(1) by blast
  with Cons.IH [of q1] Cons.prems show ?case by auto
qed

lemma drain_all:
  "ok q \<Longrightarrow> cont q = ms \<Longrightarrow> \<exists>q'. drain take_first (length ms) q = Some (ms, q') \<and> ok q' \<and> cont q' = []"
proof (induction ms arbitrary: q)
  case Nil
  then show ?case by simp
next
  case (Cons m ms)
  then obtain q1 where "take_first q = Some (m, q1)" "ok q1" "cont q1 = ms"
    using take_first by blast
  with Cons.IH [of q1] show ?case by auto
qed

end

locale bounded_deque = bounded_queue put take_first full cont cap ok
  for put :: "'m \<Rightarrow> 'q \<Rightarrow> 'q option" and take_first full cont cap ok +
  fixes put_front :: "'m \<Rightarrow> 'q \<Rightarrow> 'q option"
  assumes put_front: "ok q \<Longrightarrow> \<not> full q \<Longrightarrow>
      \<exists>q'. put_front m q = Some q' \<and> ok q' \<and> cont q' = m # cont q \<and> cap q' = cap q"
begin

lemma front_overtakes:
  assumes "ok q" and "\<not> full q"
  shows "\<exists>q' q''. put_front m q = Some q' \<and> take_first q' = Some (m, q'') \<and> ok q'' \<and> cont q'' = cont q"
  using put_front [OF assms] take_first by fastforce

end

section \<open>The ring implements the queue\<close>

definition q_ok :: "OS_Q \<Rightarrow> bool" where
  "q_ok q \<longleftrightarrow> OSQEnd q = unat (OSQSize q) \<and> length (OSQStart q) = OSQEnd q
     \<and> OSQIn q < OSQEnd q \<and> OSQOut q < OSQEnd q \<and> unat (OSQEntries q) \<le> OSQEnd q
     \<and> OSQIn q = (OSQOut q + unat (OSQEntries q)) mod OSQEnd q"

definition q_list :: "OS_Q \<Rightarrow> msg list" where
  "q_list q = map (\<lambda>i. OSQStart q ! ((OSQOut q + i) mod OSQEnd q)) [0..<unat (OSQEntries q)]"

definition q_cap :: "OS_Q \<Rightarrow> nat" where
  "q_cap q = unat (OSQSize q)"

lemma length_q_list [simp]: "length (q_list q) = unat (OSQEntries q)"
  by (simp add: q_list_def)

lemma nth_q_list: "i < unat (OSQEntries q) \<Longrightarrow> q_list q ! i = OSQStart q ! ((OSQOut q + i) mod OSQEnd q)"
  by (simp add: q_list_def)

lemma mod_distinct:
  fixes a i j n :: nat
  assumes "i < j" and "j < i + n" and "0 < n"
  shows "(a + i) mod n \<noteq> (a + j) mod n"
proof
  assume "(a + i) mod n = (a + j) mod n"
  then have "n dvd (a + j) - (a + i)" using assms(1)
    by (intro iffD1 [OF mod_eq_dvd_iff_nat]) simp_all
  then have "n dvd j - i" by simp
  then have "n \<le> j - i" using assms(1) by (intro dvd_imp_le) simp_all
  then show False using assms(1,2) by linarith
qed

lemma q_put_list:
  assumes ok: "q_ok q" and nf: "\<not> q_full q"
  shows "\<exists>q'. q_put m q = Some q' \<and> q_ok q' \<and> q_list q' = q_list q @ [m] \<and> q_cap q' = q_cap q"
proof -
  let ?n = "OSQEnd q" and ?k = "unat (OSQEntries q)"
  have k: "unat (OSQEntries q + 1) = Suc ?k" using nf by (intro unat_inc [of _ "OSQSize q"]) (simp add: q_full_def)
  have kn: "?k < ?n" using nf ok by (simp add: q_full_def q_ok_def word_le_nat_alt)
  let ?i = "if OSQIn q + 1 = ?n then 0 else OSQIn q + 1"
  let ?q = "q\<lparr>OSQStart := (OSQStart q)[OSQIn q := m], OSQIn := ?i, OSQEntries := OSQEntries q + 1\<rparr>"
  have "q_put m q = Some ?q"
    using ok by (simp add: q_put_def q_ok_def wr_in Let_def del: wr_eq_Some)
  moreover have "?i = Suc (OSQIn q) mod ?n" using ok by (simp add: q_ok_def mod_Suc)
  then have "?i = (OSQOut q + Suc ?k) mod ?n" using ok by (simp add: q_ok_def mod_Suc_eq)
  then have "q_ok ?q" using ok k kn by (simp add: q_ok_def)
  moreover have "q_list ?q = q_list q @ [m]"
  proof (rule nth_equalityI)
    show "length (q_list ?q) = length (q_list q @ [m])" by (simp add: k)
    fix i assume "i < length (q_list ?q)"
    then have i: "i < Suc ?k" by (simp add: k)
    show "q_list ?q ! i = (q_list q @ [m]) ! i"
    proof (cases "i = ?k")
      case True
      then show ?thesis using ok k by (simp add: nth_q_list nth_append q_ok_def)
    next
      case False
      then have "i < ?k" using i by simp
      then have "(OSQOut q + i) mod ?n \<noteq> OSQIn q"
        using mod_distinct [of i ?k ?n "OSQOut q"] kn ok by (simp add: q_ok_def)
      then show ?thesis using i k \<open>i < ?k\<close> by (simp add: nth_q_list nth_append)
    qed
  qed
  ultimately show ?thesis by (simp add: q_cap_def)
qed

lemma q_take_list:
  assumes ok: "q_ok q" and l: "q_list q = m # ms"
  shows "\<exists>q'. q_take q = Some (m, q') \<and> q_ok q' \<and> q_list q' = ms \<and> q_cap q' = q_cap q"
proof -
  let ?n = "OSQEnd q" and ?k = "unat (OSQEntries q)"
  have k: "?k = Suc (length ms)" using arg_cong [OF l, of length] by simp
  then have k1: "unat (OSQEntries q - 1) = length ms"
    by (subst unat_dec) (simp_all add: word_gt_0 flip: unat_gt_0)
  have m: "OSQStart q ! OSQOut q = m"
    using nth_q_list [of 0 q] l ok k by (simp add: q_ok_def)
  let ?o = "if OSQOut q + 1 = ?n then 0 else OSQOut q + 1"
  let ?q = "q\<lparr>OSQOut := ?o, OSQEntries := OSQEntries q - 1\<rparr>"
  have o: "?o = Suc (OSQOut q) mod ?n" using ok by (simp add: q_ok_def mod_Suc)
  have "q_take q = Some (m, ?q)"
    using ok m by (simp add: q_take_def q_ok_def rd_in Let_def del: rd_eq_Some)
  moreover have "q_ok ?q"
    using ok k k1 o by (simp add: q_ok_def mod_add_left_eq)
  moreover have "q_list ?q = ms"
  proof (rule nth_equalityI)
    show "length (q_list ?q) = length ms" by (simp add: k1)
    fix i assume "i < length (q_list ?q)"
    then have i: "i < length ms" by (simp add: k1)
    have "q_list ?q ! i = OSQStart q ! ((OSQOut q + Suc i) mod ?n)"
      using i k1 o by (simp add: nth_q_list mod_add_left_eq)
    also have "\<dots> = q_list q ! Suc i" using i k by (simp add: nth_q_list)
    finally show "q_list ?q ! i = ms ! i" using l by simp
  qed
  ultimately show ?thesis by (simp add: q_cap_def)
qed

lemma q_put_front_list:
  assumes ok: "q_ok q" and nf: "\<not> q_full q"
  shows "\<exists>q'. q_put_front m q = Some q' \<and> q_ok q' \<and> q_list q' = m # q_list q \<and> q_cap q' = q_cap q"
proof -
  let ?n = "OSQEnd q" and ?k = "unat (OSQEntries q)"
  have k: "unat (OSQEntries q + 1) = Suc ?k"
    using nf by (intro unat_inc [of _ "OSQSize q"]) (simp add: q_full_def)
  have kn: "?k < ?n" using nf ok by (simp add: q_full_def q_ok_def word_le_nat_alt)
  define o1 where "o1 = (if OSQOut q = 0 then ?n - 1 else OSQOut q - 1)"
  have o: "o1 < ?n" "Suc o1 mod ?n = OSQOut q" using ok by (auto simp: o1_def q_ok_def)
  have shift: "(o1 + Suc i) mod ?n = (OSQOut q + i) mod ?n" for i
    using o(2) by (metis add_Suc_shift mod_add_left_eq)
  let ?q = "q\<lparr>OSQStart := (OSQStart q)[o1 := m], OSQOut := o1, OSQEntries := OSQEntries q + 1\<rparr>"
  have "q_put_front m q = Some ?q"
    using ok by (auto simp: q_put_front_def q_ok_def wr_def o1_def Let_def simp del: wr_eq_Some)
  moreover have "q_ok ?q" using ok k kn o shift by (simp add: q_ok_def)
  moreover have "q_list ?q = m # q_list q"
  proof (rule nth_equalityI)
    show "length (q_list ?q) = length (m # q_list q)" by (simp add: k)
    fix i assume "i < length (q_list ?q)"
    then have i: "i < Suc ?k" by (simp add: k)
    show "q_list ?q ! i = (m # q_list q) ! i"
    proof (cases i)
      case 0
      then show ?thesis using o ok k by (simp add: nth_q_list q_ok_def)
    next
      case (Suc j)
      then have j: "j < ?k" using i by simp
      have "(o1 + Suc j) mod ?n \<noteq> (o1 + 0) mod ?n"
        using mod_distinct [of 0 "Suc j" ?n o1] j kn by simp
      then have "(OSQOut q + j) mod ?n \<noteq> o1" using shift o(1) by simp
      then show ?thesis using Suc j k shift [of j] by (simp add: nth_q_list)
    qed
  qed
  ultimately show ?thesis by (simp add: q_cap_def)
qed

interpretation osq: bounded_deque q_put q_take q_full q_list q_cap q_ok q_put_front
proof (unfold_locales, goal_cases)
  case (1 q)
  then show ?case by (auto simp: q_full_def q_ok_def q_cap_def word_le_nat_alt)
next
  case (2 q)
  then show ?case by (simp add: q_ok_def q_cap_def)
qed (rule q_put_list q_take_list q_put_front_list; assumption)+

section \<open>The services keep the kernel invariant\<close>

lemma os_ok_qtbl [simp]: "os_ok (s\<lparr>OSQTbl := x\<rparr>) = os_ok s"
  by (simp add: os_ok_def)

lemma the_q_Some:
  "the_q ev s = Some (i, q) \<longleftrightarrow>
     ev < length (OSEvents s) \<and> event_queue (OSEventPtr (OSEvents s ! ev)) = Some i
     \<and> i < length (OSQTbl s) \<and> OSQTbl s ! i = q"
  by (auto simp: the_q_def bind_eq_Some_conv)

text \<open>An event that is a queue, with the ring behind it.\<close>

definition queue_at :: "nat \<Rightarrow> OS_Q \<Rightarrow> OS \<Rightarrow> bool" where
  "queue_at ev q s \<longleftrightarrow> ev < length (OSEvents s) \<and> OSEventType (OSEvents s ! ev) = OS_EVENT_TYPE_Q
     \<and> (\<exists>i. the_q ev s = Some (i, q)) \<and> q_ok q"

lemma grp_zero_iff: "bits_ok (g, tb) \<Longrightarrow> g = 0 \<longleftrightarrow> prios (g, tb) = {}"
proof -
  assume ok: "bits_ok (g, tb)"
  show ?thesis
  proof
    assume "g = 0"
    then have "\<forall>y < 8. tb ! y = 0" using ok by (auto simp: bits_ok_def)
    then show "prios (g, tb) = {}" by (auto simp: prios_def)
  next
    assume e: "prios (g, tb) = {}"
    have "\<not> bit g y" if y: "y < 8" for y
    proof
      assume "bit g y"
      then have "tb ! y \<noteq> 0" using ok y by (auto simp: bits_ok_def)
      then obtain x where "x < 8" "bit (tb ! y) x" using u8_zero_iff by blast
      then have "8 * y + x \<in> prios (g, tb)" using y by (simp add: prios_mem_iff)
      then show False using e by simp
    qed
    then show "g = 0" using u8_zero_iff by blast
  qed
qed

lemma waiting_empty_iff:
  "os_ok s \<Longrightarrow> ev < length (OSEvents s) \<Longrightarrow>
     OSEventGrp (OSEvents s ! ev) = 0 \<longleftrightarrow> waiting (OSEvents s ! ev) = {}"
  using os_okD(8) grp_zero_iff by (auto simp: event_ok_def)

lemma OSQPost_stored:
  assumes ok: "os_ok s" and q: "queue_at ev q s" and em: "waiting (OSEvents s ! ev) = {}" and nf: "\<not> q_full q"
  shows "\<exists>i q'. OSQPost ev m s = Some (OS_ERR_NONE, s\<lparr>OSQTbl := (OSQTbl s)[i := q']\<rparr>)
     \<and> queue_at ev q' (s\<lparr>OSQTbl := (OSQTbl s)[i := q']\<rparr>) \<and> q_list q' = q_list q @ [m] \<and> q_cap q' = q_cap q"
proof -
  have ev: "ev < length (OSEvents s)" and ty: "OSEventType (OSEvents s ! ev) = OS_EVENT_TYPE_Q"
    and qo: "q_ok q" using q by (auto simp: queue_at_def)
  obtain i where i: "the_q ev s = Some (i, q)" using q by (auto simp: queue_at_def)
  obtain q' where q': "q_put m q = Some q'" "q_ok q'" "q_list q' = q_list q @ [m]" "q_cap q' = q_cap q"
    using osq.put [OF qo nf] by blast
  let ?s = "s\<lparr>OSQTbl := (OSQTbl s)[i := q']\<rparr>"
  have "OSQPost ev m s = Some (OS_ERR_NONE, ?s)"
    using em nf ev ty i waiting_empty_iff [OF ok ev] q'(1) by (simp add: OSQPost_def rd_in del: rd_eq_Some)
  moreover have "the_q ev ?s = Some (i, q')" using i by (simp add: the_q_Some)
  ultimately show ?thesis using ev ty q' by (auto simp: queue_at_def)
qed

lemma OSQPost_cases:
  assumes ok: "os_ok s" and q: "queue_at ev q s"
  shows "waiting (OSEvents s ! ev) = {} \<Longrightarrow> q_full q \<Longrightarrow> OSQPost ev m s = Some (OS_ERR_Q_FULL, s)"
    and "waiting (OSEvents s ! ev) = {} \<Longrightarrow> \<not> q_full q \<Longrightarrow>
      \<exists>s' q'. OSQPost ev m s = Some (OS_ERR_NONE, s') \<and> os_ok s' \<and> queue_at ev q' s'
        \<and> q_list q' = q_list q @ [m] \<and> ready s' = ready s"
    and "waiting (OSEvents s ! ev) \<noteq> {} \<Longrightarrow>
      \<exists>s1 s'. OS_EventTaskRdy ev m OS_STAT_Q OS_STAT_PEND_OK s
                = Some (of_nat (Min (waiting (OSEvents s ! ev))), s1)
        \<and> os_ok s1 \<and> OS_Sched s1 = Some s' \<and> OSQPost ev m s = Some (OS_ERR_NONE, s') \<and> os_ok s'"
proof -
  have ev: "ev < length (OSEvents s)" and ty: "OSEventType (OSEvents s ! ev) = OS_EVENT_TYPE_Q"
    and qo: "q_ok q" using q by (auto simp: queue_at_def)
  obtain i where i: "the_q ev s = Some (i, q)" using q by (auto simp: queue_at_def)
  note g = waiting_empty_iff [OF ok ev]
  show "OSQPost ev m s = Some (OS_ERR_Q_FULL, s)"
    if "waiting (OSEvents s ! ev) = {}" "q_full q"
    using that ev ty i g by (simp add: OSQPost_def rd_in del: rd_eq_Some)
  show "\<exists>s' q'. OSQPost ev m s = Some (OS_ERR_NONE, s') \<and> os_ok s' \<and> queue_at ev q' s'
        \<and> q_list q' = q_list q @ [m] \<and> ready s' = ready s"
    if em: "waiting (OSEvents s ! ev) = {}" and nf: "\<not> q_full q"
    using OSQPost_stored [OF ok q em nf, of m] ok by auto
  show "\<exists>s1 s'. OS_EventTaskRdy ev m OS_STAT_Q OS_STAT_PEND_OK s
                = Some (of_nat (Min (waiting (OSEvents s ! ev))), s1)
        \<and> os_ok s1 \<and> OS_Sched s1 = Some s' \<and> OSQPost ev m s = Some (OS_ERR_NONE, s') \<and> os_ok s'"
    if w: "waiting (OSEvents s ! ev) \<noteq> {}"
  proof -
    obtain s1 where s1: "OS_EventTaskRdy ev m OS_STAT_Q OS_STAT_PEND_OK s
        = Some (of_nat (Min (waiting (OSEvents s ! ev))), s1)" "os_ok s1"
      using OS_EventTaskRdy_ok [OF ok ev w] by blast
    obtain s' where s': "OS_Sched s1 = Some s'" "os_ok s'" using OS_Sched_ok [OF s1(2)] by blast
    have "OSQPost ev m s = Some (OS_ERR_NONE, s')"
      using w ev ty g s1(1) s'(1) by (simp add: OSQPost_def rd_in del: rd_eq_Some)
    then show ?thesis using s1 s' by blast
  qed
qed

text \<open>Posting is always defined and touches no other event.\<close>

lemma OSQPost_frame:
  assumes ok: "os_ok s" and q: "queue_at ev q s"
  shows "\<exists>err s' q'. OSQPost ev m s = Some (err, s') \<and> os_ok s' \<and> queue_at ev q' s'
           \<and> (\<forall>i. i \<noteq> ev \<longrightarrow> OSEvents s' ! i = OSEvents s ! i) \<and> length (OSEvents s') = length (OSEvents s)
           \<and> OSIntNesting s' = OSIntNesting s \<and> OSLockNesting s' = OSLockNesting s
           \<and> OSPrioCur s' = OSPrioCur s"
proof -
  have ev: "ev < length (OSEvents s)" and ty: "OSEventType (OSEvents s ! ev) = OS_EVENT_TYPE_Q"
    and qo: "q_ok q" using q by (auto simp: queue_at_def)
  obtain i where i: "the_q ev s = Some (i, q)" using q by (auto simp: queue_at_def)
  consider "waiting (OSEvents s ! ev) = {}" "q_full q" | "waiting (OSEvents s ! ev) = {}" "\<not> q_full q"
    | "waiting (OSEvents s ! ev) \<noteq> {}" by blast
  then show ?thesis
  proof cases
    case 1
    then show ?thesis using OSQPost_cases(1) [OF ok q, of m] ok q by blast
  next
    case 2
    show ?thesis using OSQPost_stored [OF ok q 2, of m] ok by auto
  next
    case 3
    obtain s1 where s1: "OS_EventTaskRdy ev m OS_STAT_Q OS_STAT_PEND_OK s
        = Some (of_nat (Min (waiting (OSEvents s ! ev))), s1)" "os_ok s1"
        "length (OSEvents s1) = length (OSEvents s)" "OSPrioCur s1 = OSPrioCur s"
        "OSIntNesting s1 = OSIntNesting s" "OSLockNesting s1 = OSLockNesting s" "OSQTbl s1 = OSQTbl s"
        "\<forall>i. i \<noteq> ev \<longrightarrow> OSEvents s1 ! i = OSEvents s ! i"
        "OSEventType (OSEvents s1 ! ev) = OSEventType (OSEvents s ! ev)"
        "OSEventPtr (OSEvents s1 ! ev) = OSEventPtr (OSEvents s ! ev)"
      using OS_EventTaskRdy_ok [OF ok ev 3, of m OS_STAT_Q OS_STAT_PEND_OK] by blast
    obtain s' where s': "OS_Sched s1 = Some s'" "OSQPost ev m s = Some (OS_ERR_NONE, s')" "os_ok s'"
      using OSQPost_cases(3) [OF ok q 3, of m] s1(1) by auto
    have e: "s' = (if OSIntNesting s1 = 0 \<and> OSLockNesting s1 = 0 then scheduled s1 else s1)"
      using OS_Sched_scheduled [OF s1(2)] s'(1) by simp
    then have f: "OSEvents s' = OSEvents s1" "OSQTbl s' = OSQTbl s1" "OSPrioCur s' = OSPrioCur s1"
        "OSIntNesting s' = OSIntNesting s1" "OSLockNesting s' = OSLockNesting s1" by simp_all
    have "the_q ev s' = Some (i, q)" using i s1(3,7,10) f by (simp add: the_q_Some)
    then have "queue_at ev q s'" using q s1(3,9) f by (simp add: queue_at_def)
    then show ?thesis using s' s1 f by auto
  qed
qed

text \<open>Taking a free semaphore and giving it back.\<close>

definition sem_free :: "nat \<Rightarrow> OS \<Rightarrow> bool" where
  "sem_free ev s \<longleftrightarrow> ev < length (OSEvents s) \<and> OSEventType (OSEvents s ! ev) = OS_EVENT_TYPE_SEM
     \<and> OSEventCnt (OSEvents s ! ev) > 0 \<and> waiting (OSEvents s ! ev) = {}"

definition sem_taken :: "nat \<Rightarrow> OS \<Rightarrow> OS" where
  "sem_taken ev s = s\<lparr>OSEvents := (OSEvents s)[ev := (OSEvents s ! ev)\<lparr>OSEventCnt := OSEventCnt (OSEvents s ! ev) - 1\<rparr>]\<rparr>"

lemma sem_taken_simps [simp]:
  "length (OSEvents (sem_taken ev s)) = length (OSEvents s)" "OSIntNesting (sem_taken ev s) = OSIntNesting s"
  "OSLockNesting (sem_taken ev s) = OSLockNesting s" "OSPrioCur (sem_taken ev s) = OSPrioCur s"
  "i \<noteq> ev \<Longrightarrow> OSEvents (sem_taken ev s) ! i = OSEvents s ! i"
  by (simp_all add: sem_taken_def)

lemma os_ok_replace_event:
  assumes "os_ok s" and "event_ok (OSTCBPrioTbl s) e"
  shows "os_ok (s\<lparr>OSEvents := (OSEvents s)[ev := e]\<rparr>)"
  using assms event_ok_replace [of "OSEvents s" "OSTCBPrioTbl s" e ev] by (simp add: os_ok_def)

lemma event_ok_cnt [simp]: "event_ok f (e\<lparr>OSEventCnt := n\<rparr>) = event_ok f e"
  by (simp add: event_ok_def)

lemma OSSemPend_free:
  assumes "os_ok s" and "sem_free ev s" and "OSIntNesting s = 0" and "OSLockNesting s = 0"
  shows "OSSemPend ev timeout s = Some (Done () OS_ERR_NONE, sem_taken ev s) \<and> os_ok (sem_taken ev s)"
  using assms os_okD(8) [OF assms(1)]
  by (simp add: sem_free_def OSSemPend_def sem_taken_def rd_in os_ok_replace_event del: rd_eq_Some)

text \<open>Giving back a semaphore whose count was lowered from \<open>e\<close>, whatever happened to other events.\<close>

lemma OSSemPost_back:
  assumes ok: "os_ok s" and ev: "ev < length (OSEvents s)"
    and e: "OSEvents s ! ev = e\<lparr>OSEventCnt := OSEventCnt e - 1\<rparr>"
    and f: "OSEventType e = OS_EVENT_TYPE_SEM" "OSEventCnt e > 0" "waiting e = {}"
  shows "OSSemPost ev s = Some (OS_ERR_NONE, s\<lparr>OSEvents := (OSEvents s)[ev := e]\<rparr>)
    \<and> os_ok (s\<lparr>OSEvents := (OSEvents s)[ev := e]\<rparr>)"
proof -
  have ek: "event_ok (OSTCBPrioTbl s) e" using os_okD(8) [OF ok ev] e by simp
  then have g: "OSEventGrp e = 0" using f(3) grp_zero_iff by (auto simp: event_ok_def)
  have "unat (OSEventCnt e) < 65536" using unsigned_less [of "OSEventCnt e"] by simp
  then have "unat (OSEventCnt e - 1) < unat (65535 :: u16)" using unat_dec [OF f(2)] f(2) by simp
  then have "OSEventCnt e - 1 < 65535" by (simp only: word_less_nat_alt)
  then show ?thesis
    using ev e g f(1) os_ok_replace_event [OF ok ek]
    by (simp add: OSSemPost_def rd_in del: rd_eq_Some)
qed

text \<open>A pend that finds nothing: the caller leaves the ready list, waits, and is switched out.\<close>

lemma os_ok_pending:
  assumes "os_ok s" and "OSTCBPrioTbl s p = Some t"
  shows "os_ok (s\<lparr>OSTCBPrioTbl := (OSTCBPrioTbl s)(p \<mapsto>
           t\<lparr>OSTCBStat := a, OSTCBStatPend := b, OSTCBDly := c\<rparr>)\<rparr>)"
  using assms os_okD(4,5) [OF assms]
  by (auto simp: os_ok_def event_ok_upd tcb_at_def)

lemma pend_wait_ok:
  assumes ok: "os_ok s" and ev: "ev < length (OSEvents s)"
    and t: "OSTCBPrioTbl s (OSPrioCur s) = Some t" and idle: "OSPrioCur s \<noteq> 63"
    and n: "OSIntNesting s = 0" "OSLockNesting s = 0"
  shows "\<exists>s'. pend_wait stat timeout ev s = Some s' \<and> os_ok s' \<and> switchPending s'
           \<and> OSPrioHighRdy s' \<noteq> OSPrioCur s \<and> unat (OSPrioHighRdy s') \<in> ready s
           \<and> ready s' = ready s - {unat (OSPrioCur s)}
           \<and> waiting (OSEvents s' ! ev) = insert (unat (OSPrioCur s)) (waiting (OSEvents s ! ev))"
proof -
  let ?t = "t\<lparr>OSTCBStat := OSTCBStat t OR stat, OSTCBStatPend := OS_STAT_PEND_OK, OSTCBDly := timeout\<rparr>"
  let ?s = "s\<lparr>OSTCBPrioTbl := (OSTCBPrioTbl s)(OSPrioCur s \<mapsto> ?t)\<rparr>"
  have ok1: "os_ok ?s" using os_ok_pending [OF ok t] .
  obtain s1 where s1: "OS_EventTaskWait ev ?s = Some s1" "os_ok s1"
      "ready s1 = ready s - {unat (OSPrioCur s)}"
      "waiting (OSEvents s1 ! ev) = insert (unat (OSPrioCur s)) (waiting (OSEvents s ! ev))"
    using OS_EventTaskWait_ok [OF ok1, of ev ?t] ev idle by auto
  have f: "OSPrioCur s1 = OSPrioCur s" "OSIntNesting s1 = 0" "OSLockNesting s1 = 0"
    using OS_EventTaskWait_frame [OF s1(1)] n by auto
  have sch: "OS_Sched s1 = Some (scheduled s1)" using OS_Sched_scheduled [OF s1(2)] f by simp
  have "unat (highest s1) \<in> ready s1" using highest_ready [OF s1(2)] by metis
  then have "unat (highest s1) \<in> ready s - {unat (OSPrioCur s)}" unfolding s1(3) .
  then have "highest s1 \<noteq> OSPrioCur s" "unat (highest s1) \<in> ready s"
    by (metis DiffE insertI1, metis DiffE)
  moreover have "pend_wait stat timeout ev s = Some (scheduled s1)"
    using s1(1) t sch by (simp add: pend_wait_def Let_def)
  ultimately show ?thesis
    using s1(3,4) f(1) scheduled_ok [OF s1(2)]
    by (intro exI [of _ "scheduled s1"] conjI) simp_all
qed

lemma OSQPend_cases:
  assumes ok: "os_ok s" and q: "queue_at ev q s"
    and t: "OSTCBPrioTbl s (OSPrioCur s) = Some t" and idle: "OSPrioCur s \<noteq> 63"
  shows "OSIntNesting s > 0 \<Longrightarrow> OSQPend ev timeout s = Some (Done None OS_ERR_PEND_ISR, s)"
    and "OSIntNesting s = 0 \<Longrightarrow> OSLockNesting s > 0 \<Longrightarrow>
      OSQPend ev timeout s = Some (Done None OS_ERR_PEND_LOCKED, s)"
    and "OSIntNesting s = 0 \<Longrightarrow> OSLockNesting s = 0 \<Longrightarrow> q_list q = m # ms \<Longrightarrow>
      \<exists>s' q'. OSQPend ev timeout s = Some (Done m OS_ERR_NONE, s') \<and> os_ok s'
        \<and> queue_at ev q' s' \<and> q_list q' = ms \<and> ready s' = ready s"
    and "OSIntNesting s = 0 \<Longrightarrow> OSLockNesting s = 0 \<Longrightarrow> q_list q = [] \<Longrightarrow>
      \<exists>s'. OSQPend ev timeout s = Some (Blocked, s') \<and> os_ok s' \<and> switchPending s'
        \<and> OSPrioHighRdy s' \<noteq> OSPrioCur s \<and> ready s' = ready s - {unat (OSPrioCur s)}
        \<and> waiting (OSEvents s' ! ev) = insert (unat (OSPrioCur s)) (waiting (OSEvents s ! ev))"
proof -
  have ev: "ev < length (OSEvents s)" and ty: "OSEventType (OSEvents s ! ev) = OS_EVENT_TYPE_Q"
    and qo: "q_ok q" using q by (auto simp: queue_at_def)
  obtain i where i: "the_q ev s = Some (i, q)" using q by (auto simp: queue_at_def)
  show "OSIntNesting s > 0 \<Longrightarrow> OSQPend ev timeout s = Some (Done None OS_ERR_PEND_ISR, s)"
    and "OSIntNesting s = 0 \<Longrightarrow> OSLockNesting s > 0 \<Longrightarrow>
      OSQPend ev timeout s = Some (Done None OS_ERR_PEND_LOCKED, s)"
    using ev ty by (simp_all add: OSQPend_def rd_in del: rd_eq_Some)
  show "\<exists>s' q'. OSQPend ev timeout s = Some (Done m OS_ERR_NONE, s') \<and> os_ok s'
        \<and> queue_at ev q' s' \<and> q_list q' = ms \<and> ready s' = ready s"
    if n: "OSIntNesting s = 0" "OSLockNesting s = 0" and l: "q_list q = m # ms"
  proof -
    obtain q' where q': "q_take q = Some (m, q')" "q_ok q'" "q_list q' = ms"
      using osq.take_first [OF qo l] by blast
    have "0 < unat (OSQEntries q)" using arg_cong [OF l, of length] by simp
    then have e: "0 < OSQEntries q" by (simp add: word_gt_0 unat_gt_0)
    let ?s = "s\<lparr>OSQTbl := (OSQTbl s)[i := q']\<rparr>"
    have "OSQPend ev timeout s = Some (Done m OS_ERR_NONE, ?s)"
      using n ev ty i e q'(1) by (simp add: OSQPend_def rd_in del: rd_eq_Some)
    moreover have "the_q ev ?s = Some (i, q')" using i by (simp add: the_q_Some)
    ultimately show ?thesis using ok ev ty q' by (auto simp: queue_at_def)
  qed
  show "\<exists>s'. OSQPend ev timeout s = Some (Blocked, s') \<and> os_ok s' \<and> switchPending s'
        \<and> OSPrioHighRdy s' \<noteq> OSPrioCur s \<and> ready s' = ready s - {unat (OSPrioCur s)}
        \<and> waiting (OSEvents s' ! ev) = insert (unat (OSPrioCur s)) (waiting (OSEvents s ! ev))"
    if n: "OSIntNesting s = 0" "OSLockNesting s = 0" and l: "q_list q = []"
  proof -
    have "unat (OSQEntries q) = 0" using arg_cong [OF l, of length] by simp
    then have "OSQEntries q = 0" by (simp add: unat_eq_0)
    then have "OSQPend ev timeout s = map_option (Pair Blocked) (pend_wait OS_STAT_Q timeout ev s)"
      using n ev ty i
      by (cases "pend_wait OS_STAT_Q timeout ev s") (simp_all add: OSQPend_def rd_in del: rd_eq_Some)
    then show ?thesis using pend_wait_ok [OF ok ev t idle n, of OS_STAT_Q timeout] by auto
  qed
qed

section \<open>A queue as a bounded list\<close>

text \<open>The calls that never block, with their results, and what they do to the list of messages.\<close>

datatype queue_op = QPut msg | QPutFront msg | QGet | QClear

fun queue_step :: "nat \<Rightarrow> queue_op \<Rightarrow> OS \<Rightarrow> ((msg \<times> os_err) \<times> OS) option" where
  "queue_step ev (QPut m) s = map_option (apfst (Pair None)) (OSQPost ev m s)"
| "queue_step ev (QPutFront m) s = map_option (apfst (Pair None)) (OSQPostFront ev m s)"
| "queue_step ev QGet s = map_option (\<lambda>(m, e, s). ((m, e), s)) (OSQAccept ev s)"
| "queue_step ev QClear s = map_option (Pair (None, OS_ERR_NONE)) (OSQFlush ev s)"

fun fifo_step :: "nat \<Rightarrow> queue_op \<Rightarrow> msg list \<Rightarrow> (msg \<times> os_err) \<times> msg list" where
  "fifo_step c (QPut m) ms = (if length ms < c then ((None, OS_ERR_NONE), ms @ [m]) else ((None, OS_ERR_Q_FULL), ms))"
| "fifo_step c (QPutFront m) ms = (if length ms < c then ((None, OS_ERR_NONE), m # ms) else ((None, OS_ERR_Q_FULL), ms))"
| "fifo_step c QGet [] = ((None, OS_ERR_Q_EMPTY), [])"
| "fifo_step c QGet (m # ms) = ((m, OS_ERR_NONE), ms)"
| "fifo_step c QClear ms = ((None, OS_ERR_NONE), [])"

text \<open>Only the ring \<open>i\<close> of the queue differs from the kernel at the start, nobody waits, and it holds the list.\<close>

definition ring_rel :: "OS \<Rightarrow> nat \<Rightarrow> nat \<Rightarrow> nat \<Rightarrow> OS \<Rightarrow> msg list \<Rightarrow> bool" where
  "ring_rel s0 ev i c s ms \<longleftrightarrow> os_ok s0 \<and> waiting (OSEvents s0 ! ev) = {}
     \<and> (\<exists>q. s = s0\<lparr>OSQTbl := (OSQTbl s0)[i := q]\<rparr> \<and> queue_at ev q s \<and> the_q ev s = Some (i, q) \<and> q_cap q = c \<and> q_list q = ms)"

lemma ring_rel_start:
  assumes "os_ok s" and "queue_at ev q s" and "the_q ev s = Some (i, q)" and "waiting (OSEvents s ! ev) = {}"
  shows "ring_rel s ev i (q_cap q) s (q_list q)"
proof -
  have "(OSQTbl s)[i := q] = OSQTbl s" using assms(3) by (auto simp: the_q_Some)
  then show ?thesis using assms by (auto simp: ring_rel_def intro!: exI [of _ q])
qed

lemma ring_relD:
  assumes "ring_rel s0 ev i c s ms"
  obtains q where "os_ok s" "waiting (OSEvents s ! ev) = {}" "OSEventGrp (OSEvents s ! ev) = 0" "ev < length (OSEvents s)"
    "OSEventType (OSEvents s ! ev) = OS_EVENT_TYPE_Q" "the_q ev s = Some (i, q)" "q_ok q" "q_cap q = c" "q_list q = ms"
    "q_full q \<longleftrightarrow> \<not> length ms < c" "OSQEntries q > 0 \<longleftrightarrow> ms \<noteq> []"
proof -
  obtain q where q: "s = s0\<lparr>OSQTbl := (OSQTbl s0)[i := q]\<rparr>" "queue_at ev q s" "the_q ev s = Some (i, q)" "q_cap q = c" "q_list q = ms"
    using assms by (auto simp: ring_rel_def)
  have qo: "q_ok q" "ev < length (OSEvents s)" "OSEventType (OSEvents s ! ev) = OS_EVENT_TYPE_Q" using q(2) by (auto simp: queue_at_def)
  have ok: "os_ok s" "waiting (OSEvents s ! ev) = {}" using assms q(1) by (simp_all add: ring_rel_def)
  have "q_full q \<longleftrightarrow> \<not> length ms < c" using osq.full_iff [OF qo(1)] osq.fits [OF qo(1)] q(4,5) by auto
  moreover have "OSQEntries q > 0 \<longleftrightarrow> ms \<noteq> []" using q(5) by (auto simp: q_list_def word_gt_0 unat_eq_0)
  ultimately show thesis using that qo ok q waiting_empty_iff [OF ok(1) qo(2)] by blast
qed

lemma ring_rel_update:
  assumes "ring_rel s0 ev i c s ms" and "q_ok q'" and "q_cap q' = c"
  shows "ring_rel s0 ev i c (s\<lparr>OSQTbl := (OSQTbl s)[i := q']\<rparr>) (q_list q')"
proof -
  obtain q where q: "s = s0\<lparr>OSQTbl := (OSQTbl s0)[i := q]\<rparr>" "queue_at ev q s" "the_q ev s = Some (i, q)"
    using assms(1) by (auto simp: ring_rel_def)
  have e: "s\<lparr>OSQTbl := (OSQTbl s)[i := q']\<rparr> = s0\<lparr>OSQTbl := (OSQTbl s0)[i := q']\<rparr>" by (simp add: q(1))
  have "the_q ev (s\<lparr>OSQTbl := (OSQTbl s)[i := q']\<rparr>) = Some (i, q')" using q(3) by (simp add: the_q_Some)
  moreover from this have "queue_at ev q' (s\<lparr>OSQTbl := (OSQTbl s)[i := q']\<rparr>)" using q(2) assms(2) by (simp add: queue_at_def)
  ultimately show ?thesis using assms(1,3) e unfolding ring_rel_def by blast
qed

lemma allowed_trace_all: "allowed_trace f (\<lambda>_ _. True) ops a"
  by (induction ops arbitrary: a) simp_all

interpretation queue: simulation "queue_step ev" "fifo_step c" "\<lambda>_ _. True" "ring_rel s0 ev i c" for ev c s0 i
proof (unfold_locales, goal_cases)
  case (1 s ms op)
  obtain q where q: "os_ok s" "waiting (OSEvents s ! ev) = {}" "OSEventGrp (OSEvents s ! ev) = 0" "ev < length (OSEvents s)"
    "OSEventType (OSEvents s ! ev) = OS_EVENT_TYPE_Q" "the_q ev s = Some (i, q)" "q_ok q" "q_cap q = c" "q_list q = ms"
    "q_full q \<longleftrightarrow> \<not> length ms < c" "OSQEntries q > 0 \<longleftrightarrow> ms \<noteq> []" by (rule ring_relD [OF 1(1)])
  note upd = ring_rel_update [OF 1(1)]
  show ?case
  proof (cases op)
    case (QPut m)
    show ?thesis
    proof (cases "length ms < c")
      case True
      then obtain q' where "q_put m q = Some q'" "q_ok q'" "q_list q' = ms @ [m]" "q_cap q' = c"
        using osq.put [OF q(7)] q(8-10) by blast
      then show ?thesis using True QPut q upd [of q'] by (simp add: OSQPost_def rd_in del: rd_eq_Some)
    next
      case False
      then show ?thesis using QPut q 1(1) by (simp add: OSQPost_def rd_in del: rd_eq_Some)
    qed
  next
    case (QPutFront m)
    show ?thesis
    proof (cases "length ms < c")
      case True
      then obtain q' where "q_put_front m q = Some q'" "q_ok q'" "q_list q' = m # ms" "q_cap q' = c"
        using osq.put_front [OF q(7)] q(8-10) by blast
      then show ?thesis using True QPutFront q upd [of q'] by (simp add: OSQPostFront_def rd_in del: rd_eq_Some)
    next
      case False
      then show ?thesis using QPutFront q 1(1) by (simp add: OSQPostFront_def rd_in del: rd_eq_Some)
    qed
  next
    case QGet
    show ?thesis
    proof (cases ms)
      case Nil
      then show ?thesis using QGet q 1(1) by (simp add: OSQAccept_def rd_in del: rd_eq_Some)
    next
      case (Cons m xs)
      then obtain q' where "q_take q = Some (m, q')" "q_ok q'" "q_list q' = xs" "q_cap q' = c"
        using osq.take_first [OF q(7), of m xs] q(8,9) by blast
      then show ?thesis using Cons QGet q upd [of q'] by (simp add: OSQAccept_def rd_in del: rd_eq_Some)
    qed
  next
    case QClear
    let ?q = "q\<lparr>OSQIn := 0, OSQOut := 0, OSQEntries := 0\<rparr>"
    have "q_ok ?q" "q_cap ?q = c" "q_list ?q = []" using q(7,8) by (auto simp: q_ok_def q_cap_def q_list_def)
    then show ?thesis using QClear q upd [of ?q] by (simp add: OSQFlush_def)
  qed
qed

section \<open>Properties\<close>

lemma ex_ring_list: "q_ok ex_ring" "q_list ex_ring = [Some 21, Some 22]"
  by code_simp+

lemma ex_ring_size: "OSQSize ex_ring = 3"
  by (simp add: ex_ring_def)

lemma ex_queue_at: "ev < 2 \<Longrightarrow> queue_at ev ex_ring ex_os"
  by (auto simp: queue_at_def the_q_Some ex_os_def ex_queue_event_def OS_EVENT_TYPE_Q_def ex_ring_def
      q_ok_def less_2_cases_iff)

text \<open>C25: A message queue nobody waits at is a bounded first-in first-out queue. For every sequence of posts,
  posts to the front, accepts and flushes, the results are those of a list with as many places as the ring: a
  message is appended (or put before the others) while there is room, a post to a full queue is refused with
  OS_ERR_Q_FULL, and messages are accepted from the front, with OS_ERR_Q_EMPTY when there is none. Nothing but the
  ring changes, and a refused post leaves the whole kernel as it was.\<close>

theorem osq_fifo:
  assumes ok: "os_ok s" and q: "queue_at ev q s" and i: "the_q ev s = Some (i, q)" and w: "waiting (OSEvents s ! ev) = {}"
  shows "\<exists>t q'. trace (queue_step ev) ops s = Some (fst (abs_trace (fifo_step (unat (OSQSize q))) ops (q_list q)), t)
     \<and> t = s\<lparr>OSQTbl := (OSQTbl s)[i := q']\<rparr> \<and> queue_at ev q' t \<and> OSQSize q' = OSQSize q
     \<and> q_list q' = snd (abs_trace (fifo_step (unat (OSQSize q))) ops (q_list q))
     \<and> (length (q_list q') = unat (OSQSize q) \<longrightarrow> OSQPost ev m t = Some (OS_ERR_Q_FULL, t))"
proof -
  have "ring_rel s ev i (q_cap q) s (q_list q)"
    using ring_rel_start [OF ok q i w] .
  from queue.trace_sim [OF this allowed_trace_all [of _ ops]]
  obtain t where t: "trace (queue_step ev) ops s = Some (fst (abs_trace (fifo_step (q_cap q)) ops (q_list q)), t)"
      "ring_rel s ev i (q_cap q) t (snd (abs_trace (fifo_step (q_cap q)) ops (q_list q)))" by blast
  then obtain q' where q': "t = s\<lparr>OSQTbl := (OSQTbl s)[i := q']\<rparr>" "queue_at ev q' t" "q_cap q' = q_cap q"
      "q_list q' = snd (abs_trace (fifo_step (q_cap q)) ops (q_list q))" by (auto simp: ring_rel_def)
  have "OSQPost ev m t = Some (OS_ERR_Q_FULL, t)" if l: "length (q_list q') = q_cap q"
  proof -
    have "q_full q'" using osq.full_iff [of q'] q'(2,3) l by (simp add: queue_at_def)
    then show ?thesis using OSQPost_cases(1) [of t ev q' m] ok w q'(1,2) by simp
  qed
  then show ?thesis
    using t(1) q' unfolding q_cap_def
    by (intro exI [of _ t] exI [of _ q']) (simp add: word_unat_eq_iff del: length_q_list)
qed

theorem osq_fifo_witness:
  "\<exists>t q'. trace (queue_step 1) [QPut (Some 23), QPut (Some 24), QGet, QPutFront (Some 25), QGet, QGet, QGet, QGet] ex_os
       = Some ([(None, OS_ERR_NONE), (None, OS_ERR_Q_FULL), (Some 21, OS_ERR_NONE), (None, OS_ERR_NONE), (Some 25, OS_ERR_NONE),
           (Some 22, OS_ERR_NONE), (Some 23, OS_ERR_NONE), (None, OS_ERR_Q_EMPTY)], t)
     \<and> queue_at 1 q' t \<and> q_list q' = []"
proof -
  have i: "the_q 1 ex_os = Some (1, ex_ring)" by (simp add: the_q_Some ex_os_def ex_queue_event_def)
  have w: "waiting (OSEvents ex_os ! 1) = {}" by (simp add: ex_os_def ex_queue_event_def bits_empty)
  show ?thesis
    using osq_fifo [OF ex_os_ok ex_queue_at i w, of "[QPut (Some 23), QPut (Some 24), QGet, QPutFront (Some 25), QGet, QGet, QGet, QGet]" None]
    by (auto simp: ex_ring_list ex_ring_size)
qed

text \<open>Posting to a queue tasks wait for never touches the ring: the message goes to the
  highest-priority waiting task, which becomes ready unless it is suspended, leaves the wait
  list, and is switched to at once if it is the most urgent one.\<close>

theorem OSQPost_hands_over:
  assumes ok: "os_ok s" and q: "queue_at ev q s" and w: "waiting (OSEvents s ! ev) \<noteq> {}"
    and n: "OSIntNesting s = 0" "OSLockNesting s = 0"
    and sus: "\<forall>t. OSTCBPrioTbl s (of_nat (Min (waiting (OSEvents s ! ev)))) = Some t \<longrightarrow>
                 (OSTCBStat t AND NOT OS_STAT_Q) AND OS_STAT_SUSPEND = 0"
  shows "\<exists>s' u. OSQPost ev m s = Some (OS_ERR_NONE, s') \<and> os_ok s'
           \<and> OSQTbl s' = OSQTbl s
           \<and> OSTCBPrioTbl s' (of_nat (Min (waiting (OSEvents s ! ev)))) = Some u \<and> OSTCBMsg u = m
           \<and> waiting (OSEvents s' ! ev) = waiting (OSEvents s ! ev) - {Min (waiting (OSEvents s ! ev))}
           \<and> ready s' = insert (Min (waiting (OSEvents s ! ev))) (ready s)
           \<and> unat (OSPrioHighRdy s') = Min (ready s')"
proof -
  let ?m = "Min (waiting (OSEvents s ! ev))"
  have ev: "ev < length (OSEvents s)" using q by (simp add: queue_at_def)
  obtain s1 t u where s1: "OS_EventTaskRdy ev m OS_STAT_Q OS_STAT_PEND_OK s = Some (of_nat ?m, s1)"
      "os_ok s1" "OSTCBPrioTbl s (of_nat ?m) = Some t" "OSTCBPrioTbl s1 (of_nat ?m) = Some u"
      "unat (of_nat ?m :: u8) = ?m" "OSTCBMsg u = m" "OSTCBStat u = OSTCBStat t AND NOT OS_STAT_Q"
      "waiting (OSEvents s1 ! ev) = waiting (OSEvents s ! ev) - {unat (of_nat ?m :: u8)}"
      "ready s1 = (if OSTCBStat u AND OS_STAT_SUSPEND = 0
                          then insert (unat (of_nat ?m :: u8)) (ready s) else ready s)"
      "OSIntNesting s1 = OSIntNesting s" "OSLockNesting s1 = OSLockNesting s" "OSQTbl s1 = OSQTbl s"
    using OS_EventTaskRdy_ok [OF ok ev w, of m OS_STAT_Q OS_STAT_PEND_OK] by blast
  have r: "ready s1 = insert ?m (ready s)" using s1(3,5,7,9) sus by simp
  obtain s' where s': "OS_Sched s1 = Some s'" "OSQPost ev m s = Some (OS_ERR_NONE, s')" "os_ok s'"
    using OSQPost_cases(3) [OF ok q w, of m] s1(1) by auto
  have e: "s' = scheduled s1" using OS_Sched_scheduled [OF s1(2)] s'(1) s1(10,11) n by simp
  have "\<exists>v. OSTCBPrioTbl s' (of_nat ?m) = Some v \<and> OSTCBMsg v = m"
    using s1(4,6) by (auto simp: e scheduled_def)
  then show ?thesis using s' r s1 highest_ready [OF s1(2)] by (auto simp: e)
qed

theorem OSQPost_hands_over_witness:
  "\<exists>s' u. OSQPost 0 (Some 77) ex_os = Some (OS_ERR_NONE, s') \<and> OSQTbl s' = OSQTbl ex_os
     \<and> OSTCBPrioTbl s' 5 = Some u \<and> OSTCBMsg u = Some 77 \<and> ready s' = {5, 10, 63}
     \<and> waiting (OSEvents s' ! 0) = {} \<and> unat (OSPrioHighRdy s') = 5"
proof -
  have "OSTCBPrioTbl ex_os 5 = Some (ex_tcb 5)" by (simp add: ex_os_def)
  then show ?thesis
    using OSQPost_hands_over [OF ex_os_ok ex_queue_at [of 0], of "Some 77"]
    by (simp add: ex_tcb_def os_constants) fastforce
qed

text \<open>Waiting on a queue takes the oldest message when there is one and touches nothing else;
  on an empty queue the caller leaves the ready list, joins the wait list, and another ready
  task is switched to. From an interrupt or with the scheduler locked the call fails without a
  change.\<close>

theorem OSQPend_behaviour:
  assumes ok: "os_ok s" and q: "queue_at ev q s"
    and t: "OSTCBPrioTbl s (OSPrioCur s) = Some t" and idle: "OSPrioCur s \<noteq> 63"
  shows "if OSIntNesting s > 0 then OSQPend ev timeout s = Some (Done None OS_ERR_PEND_ISR, s)
         else if OSLockNesting s > 0 then OSQPend ev timeout s = Some (Done None OS_ERR_PEND_LOCKED, s)
         else case q_list q of
           m # ms \<Rightarrow> (\<exists>s' q'. OSQPend ev timeout s = Some (Done m OS_ERR_NONE, s') \<and> os_ok s'
                      \<and> queue_at ev q' s' \<and> q_list q' = ms \<and> ready s' = ready s)
         | [] \<Rightarrow> (\<exists>s'. OSQPend ev timeout s = Some (Blocked, s') \<and> os_ok s' \<and> switchPending s'
                  \<and> OSPrioHighRdy s' \<noteq> OSPrioCur s \<and> ready s' = ready s - {unat (OSPrioCur s)}
                  \<and> waiting (OSEvents s' ! ev)
                      = insert (unat (OSPrioCur s)) (waiting (OSEvents s ! ev)))"
proof -
  have z: "\<not> x > 0 \<Longrightarrow> x = 0" for x :: u8 by (simp add: word_gt_0)
  show ?thesis
    using OSQPend_cases [OF ok q t idle, where timeout = timeout] z
    by (auto split: list.split simp: word_gt_0)
qed

theorem OSQPend_behaviour_witness:
  "\<exists>s' q'. OSQPend 1 0 ex_os = Some (Done (Some 21) OS_ERR_NONE, s') \<and> os_ok s'
     \<and> queue_at 1 q' s' \<and> q_list q' = [Some 22] \<and> ready s' = {10, 63}"
proof -
  have "OSTCBPrioTbl ex_os 10 = Some (ex_tcb 10)" by (simp add: ex_os_def)
  then show ?thesis
    using OSQPend_behaviour [OF ex_os_ok ex_queue_at [of 1], of "ex_tcb 10" 0]
    by (simp add: ex_ring_list)
qed

end
