(* ===== verification/Equipment_List.thy ===== *)
theory Equipment_List
  imports Sensor_Operation Os_Ipc
begin

text \<open>
  \<open>Task/EquipmentList.c\<close>: the linked list of measuring points. Nodes live in a store from
  addresses to \<open>Testpoint\<close> records; \<open>malloc\<close> is a parameter, a function of the store, and so
  are the contents of fresh memory. A call through a function pointer of a node selects the
  function of the sensor class the pointer was set to and is undefined at NULL.
\<close>

section \<open>Calls through the pointers of a node\<close>

fun call_getDataFromUart ::
    "Sensor_Class option \<Rightarrow> RcvStruct option \<Rightarrow> Testpoint option \<Rightarrow> Testpoint option option" where
  "call_getDataFromUart None rp tp = None"
| "call_getDataFromUart (Some Analogue) rp tp = getDataFromUart_Analogue rp tp"
| "call_getDataFromUart (Some Switch) rp tp = getDataFromUart_Switch rp tp"
| "call_getDataFromUart (Some Accumulate) rp tp = getDataFromUart_Accumulate rp tp"
| "call_getDataFromUart (Some Tristate) rp tp = getDataFromUart_Tristate rp tp"

fun call_setConfig :: "Sensor_Class option \<Rightarrow> Config option \<Rightarrow> Config option \<Rightarrow> Config option option" where
  "call_setConfig None d s = None"
| "call_setConfig (Some Analogue) d s = setConfig_Analogue d s"
| "call_setConfig (Some Switch) d s = setConfig_Switch d s"
| "call_setConfig (Some Accumulate) d s = setConfig_Accumulate d s"
| "call_setConfig (Some Tristate) d s = setConfig_Tristate d s"

fun call_ifAlarm :: "Sensor_Class option \<Rightarrow> Testpoint \<Rightarrow> bool option" where
  "call_ifAlarm None tp = None"
| "call_ifAlarm (Some Analogue) tp = ifAlarm_Analogue tp"
| "call_ifAlarm (Some Switch) tp = ifAlarm_Switch tp"
| "call_ifAlarm (Some Accumulate) tp = ifAlarm_Accumulate tp"
| "call_ifAlarm (Some Tristate) tp = ifAlarm_Tristate tp"

fun call_ifLiftAlarm :: "Sensor_Class option \<Rightarrow> Testpoint \<Rightarrow> bool option" where
  "call_ifLiftAlarm None tp = None"
| "call_ifLiftAlarm (Some Analogue) tp = ifLiftAlarm_Analogue tp"
| "call_ifLiftAlarm (Some Switch) tp = ifLiftAlarm_Switch tp"
| "call_ifLiftAlarm (Some Accumulate) tp = ifLiftAlarm_Accumulate tp"
| "call_ifLiftAlarm (Some Tristate) tp = ifLiftAlarm_Tristate tp"

fun call_ifOutput :: "Sensor_Class option \<Rightarrow> Testpoint \<Rightarrow> bool option" where
  "call_ifOutput None tp = None"
| "call_ifOutput (Some Analogue) tp = ifOutput_Analogue tp"
| "call_ifOutput (Some Switch) tp = ifOutput_Switch tp"
| "call_ifOutput (Some Accumulate) tp = ifOutput_Accumulate tp"
| "call_ifOutput (Some Tristate) tp = ifOutput_Tristate tp"

fun call_ifRecover :: "Sensor_Class option \<Rightarrow> Testpoint \<Rightarrow> bool option" where
  "call_ifRecover None tp = None"
| "call_ifRecover (Some Analogue) tp = ifRecover_Analogue tp"
| "call_ifRecover (Some Switch) tp = ifRecover_Switch tp"
| "call_ifRecover (Some Accumulate) tp = ifRecover_Accumulate tp"
| "call_ifRecover (Some Tristate) tp = ifRecover_Tristate tp"

fun call_controlOutput :: "Sensor_Class option \<Rightarrow> Testpoint \<Rightarrow> u8 option" where
  "call_controlOutput None tp = None"
| "call_controlOutput (Some Analogue) tp = controlOutput_Analogue tp"
| "call_controlOutput (Some Switch) tp = controlOutput_Switch tp"
| "call_controlOutput (Some Accumulate) tp = controlOutput_Accumulate tp"
| "call_controlOutput (Some Tristate) tp = controlOutput_Tristate tp"

fun call_controlRecover :: "Sensor_Class option \<Rightarrow> Testpoint \<Rightarrow> u8 option" where
  "call_controlRecover None tp = None"
| "call_controlRecover (Some Analogue) tp = controlRecover_Analogue tp"
| "call_controlRecover (Some Switch) tp = controlRecover_Switch tp"
| "call_controlRecover (Some Accumulate) tp = controlRecover_Accumulate tp"
| "call_controlRecover (Some Tristate) tp = controlRecover_Tristate tp"

lemma call_eqs:
  "call_getDataFromUart (Some Analogue) = getDataFromUart_Analogue"
  "call_getDataFromUart (Some Switch) = getDataFromUart_Switch"
  "call_getDataFromUart (Some Accumulate) = getDataFromUart_Accumulate"
  "call_getDataFromUart (Some Tristate) = getDataFromUart_Tristate"
  "call_setConfig (Some Analogue) = setConfig_Analogue"
  "call_setConfig (Some Switch) = setConfig_Switch"
  "call_setConfig (Some Accumulate) = setConfig_Accumulate"
  "call_setConfig (Some Tristate) = setConfig_Tristate"
  "call_ifAlarm (Some Analogue) = ifAlarm_Analogue"
  "call_ifAlarm (Some Switch) = ifAlarm_Switch"
  "call_ifAlarm (Some Accumulate) = ifAlarm_Accumulate"
  "call_ifAlarm (Some Tristate) = ifAlarm_Tristate"
  "call_ifLiftAlarm (Some Analogue) = ifLiftAlarm_Analogue"
  "call_ifLiftAlarm (Some Switch) = ifLiftAlarm_Switch"
  "call_ifLiftAlarm (Some Accumulate) = ifLiftAlarm_Accumulate"
  "call_ifLiftAlarm (Some Tristate) = ifLiftAlarm_Tristate"
  "call_ifOutput (Some Analogue) = ifOutput_Analogue"
  "call_ifOutput (Some Switch) = ifOutput_Switch"
  "call_ifOutput (Some Accumulate) = ifOutput_Accumulate"
  "call_ifOutput (Some Tristate) = ifOutput_Tristate"
  "call_ifRecover (Some Analogue) = ifRecover_Analogue"
  "call_ifRecover (Some Switch) = ifRecover_Switch"
  "call_ifRecover (Some Accumulate) = ifRecover_Accumulate"
  "call_ifRecover (Some Tristate) = ifRecover_Tristate"
  "call_controlOutput (Some Analogue) = controlOutput_Analogue"
  "call_controlOutput (Some Switch) = controlOutput_Switch"
  "call_controlOutput (Some Accumulate) = controlOutput_Accumulate"
  "call_controlOutput (Some Tristate) = controlOutput_Tristate"
  "call_controlRecover (Some Analogue) = controlRecover_Analogue"
  "call_controlRecover (Some Switch) = controlRecover_Switch"
  "call_controlRecover (Some Accumulate) = controlRecover_Accumulate"
  "call_controlRecover (Some Tristate) = controlRecover_Tristate"
  by (intro ext; simp)+

text \<open>Whatever class the pointers are set to, the calls meet the contract of that class.\<close>

lemma node_contract:
  "sensor_class cls (call_getDataFromUart (Some cls)) (call_setConfig (Some cls))
    (call_ifAlarm (Some cls)) (call_ifLiftAlarm (Some cls)) (call_ifOutput (Some cls))
    (call_ifRecover (Some cls)) (call_controlOutput (Some cls)) (call_controlRecover (Some cls))"
  by (cases cls; simp only: call_eqs)
    (rule analogue.sensor_class_axioms switch.sensor_class_axioms accumulate.sensor_class_axioms
      tristate.sensor_class_axioms)+

interpretation node: sensor_class cls "call_getDataFromUart (Some cls)" "call_setConfig (Some cls)"
    "call_ifAlarm (Some cls)" "call_ifLiftAlarm (Some cls)" "call_ifOutput (Some cls)"
    "call_ifRecover (Some cls)" "call_controlOutput (Some cls)" "call_controlRecover (Some cls)"
  for cls
  by (rule node_contract)

section \<open>Building a measuring point\<close>

definition Upload_NULL :: Upload_Info where
  "Upload_NULL = \<lparr>up_testpointNo = 0, collectTime = replicate 20 0, collectData = 0, sensorState = 0\<rparr>"

text \<open>The assignments of a branch of \<open>initTestpoint\<close>, which set every pointer to one class.\<close>

definition set_class :: "Sensor_Class \<Rightarrow> Config option \<Rightarrow> i32 \<Rightarrow> Testpoint \<Rightarrow> Testpoint" where
  "set_class cls mem no tp =
     tp\<lparr>config := mem, p_setConfig := Some cls, p_getShowInfo := Some cls,
        upload := (upload tp)\<lparr>up_testpointNo := no\<rparr>,
        p_getDataFromUart := Some cls, p_ifAlarm := Some cls, p_ifLiftAlarm := Some cls,
        p_ifOutput := Some cls, p_controlOutput := Some cls, p_ifRecover := Some cls,
        p_controlRecover := Some cls\<rparr>"

text \<open>
  \<open>mem cls\<close> is what \<open>malloc\<close> returns for the configuration struct of a class: NULL, or a struct
  with arbitrary contents. The default branch leaves \<open>ifLiftAlarm\<close> as it was in the fresh
  memory. \<open>setUpload\<close>, \<open>showAllInfo\<close> and \<open>getUploadInfo\<close> always point to the same functions and
  have no field in the model.
\<close>

definition initTestpoint ::
    "(Sensor_Class \<Rightarrow> Config option) \<Rightarrow> Testpoint \<Rightarrow> u16 \<Rightarrow> Config option \<Rightarrow> OS \<Rightarrow> (Testpoint \<times> OS) option" where
  "initTestpoint mem tp0 sensor src os = do {
     (sem, os) \<leftarrow> OSSemCreate 1 os;
     let tp = tp0\<lparr>link := None, EquipmentType := ucast sensor, EquipmentSem := sem\<rparr>;
     tp \<leftarrow>
       (if EquipmentType tp = ucast SENSOR_ANALOGUE then
          map_option (\<lambda>c. set_class Analogue (mem Analogue) (testpointNo c) tp) (as_analogue src)
        else if EquipmentType tp = ucast SENSOR_SWITCH then
          map_option (\<lambda>c. set_class Switch (mem Switch) (testpointNo c) tp) (as_switch src)
        else if EquipmentType tp = ucast SENSOR_ACCUMULATE then
          map_option (\<lambda>c. set_class Accumulate (mem Accumulate) (testpointNo c) tp) (as_accumulate src)
        else if EquipmentType tp = ucast SENSOR_TRISTATE then
          map_option (\<lambda>c. set_class Tristate (mem Tristate) (testpointNo c) tp) (as_tristate src)
        else Some (tp\<lparr>config := None, p_setConfig := None, p_getShowInfo := None,
          p_getDataFromUart := None, p_ifAlarm := None, p_ifOutput := None,
          p_controlOutput := None, p_ifRecover := None, p_controlRecover := None\<rparr>));
     up \<leftarrow> setUpload ((upload tp)\<lparr>up_testpointNo := 0\<rparr>) Upload_NULL;
     let tp = tp\<lparr>upload := up\<rparr>;
     (if p_setConfig tp = None then Some (tp, os)
      else do {
        c \<leftarrow> call_setConfig (p_setConfig tp) (config tp) src;
        Some (tp\<lparr>config := c\<rparr>, os) }) }"

text \<open>The value of \<open>EquipmentType\<close> of a class, and a point whose pointers are all set to a class.\<close>

fun class_code :: "Sensor_Class \<Rightarrow> u16" where
  "class_code Analogue = SENSOR_ANALOGUE"
| "class_code Switch = SENSOR_SWITCH"
| "class_code Accumulate = SENSOR_ACCUMULATE"
| "class_code Tristate = SENSOR_TRISTATE"

definition points_to :: "Sensor_Class \<Rightarrow> Testpoint \<Rightarrow> bool" where
  "points_to cls tp \<longleftrightarrow> EquipmentType tp = ucast (class_code cls) \<and> p_setConfig tp = Some cls
     \<and> p_getShowInfo tp = Some cls \<and> p_getDataFromUart tp = Some cls \<and> p_ifAlarm tp = Some cls
     \<and> p_ifLiftAlarm tp = Some cls \<and> p_ifOutput tp = Some cls \<and> p_controlOutput tp = Some cls
     \<and> p_ifRecover tp = Some cls \<and> p_controlRecover tp = Some cls"

lemma strcpy_NULL: "strcpy (x # xs) (collectTime Upload_NULL) = Some (0 # xs)"
  by (subst strcpy_eq_Some) (simp_all add: Upload_NULL_def c_str_def)

section \<open>The list\<close>

type_synonym heap = "addr \<Rightarrow> Testpoint option"

definition AddEquipment :: "addr \<Rightarrow> addr \<Rightarrow> heap \<Rightarrow> heap option" where
  "AddEquipment head equipment h = do {
     tp0 \<leftarrow> h head;
     tp \<leftarrow> h equipment;
     let h1 = h(equipment \<mapsto> tp\<lparr>link := link tp0\<rparr>);
     tph \<leftarrow> h1 head;
     Some (h1(head \<mapsto> tph\<lparr>link := Some equipment\<rparr>)) }"

text \<open>
  The search loop of \<open>DeleteEquipment\<close>: the predecessor of \<open>equipment\<close>, NULL when the end of
  the list is reached. On a cyclic list without \<open>equipment\<close> it does not return.
\<close>

partial_function (option) find_prev :: "heap \<Rightarrow> addr \<Rightarrow> addr option \<Rightarrow> addr option option" where
  "find_prev h equipment p =
     (case p of
        None \<Rightarrow> Some None
      | Some a \<Rightarrow> do {
          tp \<leftarrow> h a;
          if link tp \<noteq> Some equipment then find_prev h equipment (link tp)
          else Some (Some a) })"

definition DeleteEquipment :: "addr \<Rightarrow> addr \<Rightarrow> heap \<Rightarrow> heap option" where
  "DeleteEquipment head equipment h = do {
     _ \<leftarrow> h equipment;
     p \<leftarrow> find_prev h equipment (Some head);
     (case p of
        None \<Rightarrow> Some h
      | Some a \<Rightarrow> do {
          tp \<leftarrow> h equipment;
          tpa \<leftarrow> h a;
          Some ((h(a \<mapsto> tpa\<lparr>link := link tp\<rparr>))(equipment := None)) }) }"

text \<open>The text of the head node, with its NUL.\<close>

definition head_text :: "u8 list" where
  "head_text = [0x49, 0x20, 0x61, 0x6D, 0x20, 0x61, 0x20, 0x68, 0x65, 0x61, 0x64, 0x20, 0x6F,
     0x66, 0x20, 0x4C, 0x69, 0x73, 0x74, 0x2E, 0]"

text \<open>
  The result is the new list pointer with whether it was made; a NULL from the second
  \<open>malloc\<close>, for the text, makes the copy undefined.
\<close>

definition InitEquipmentList ::
    "(heap \<Rightarrow> addr option) \<Rightarrow> Testpoint \<Rightarrow> u8 list option \<Rightarrow> heap \<Rightarrow> (bool \<times> addr option \<times> heap) option" where
  "InitEquipmentList malloc raw text h =
     (case malloc h of
        None \<Rightarrow> Some (False, None, h)
      | Some a \<Rightarrow> do {
          buf \<leftarrow> text;
          str \<leftarrow> strcpy buf head_text;
          Some (True, Some a,
                h(a \<mapsto> raw\<lparr>link := None, EquipmentType := 0, config := Some (HeadText str)\<rparr>)) })"

section \<open>Lists in the store\<close>

fun chain :: "heap \<Rightarrow> addr option \<Rightarrow> addr list \<Rightarrow> bool" where
  "chain h p [] \<longleftrightarrow> p = None"
| "chain h p (a # as) \<longleftrightarrow> p = Some a \<and> (\<exists>tp. h a = Some tp \<and> chain h (link tp) as)"

text \<open>The measuring points behind a head node, in list order.\<close>

definition list_at :: "heap \<Rightarrow> addr \<Rightarrow> addr list \<Rightarrow> bool" where
  "list_at h head as \<longleftrightarrow> chain h (Some head) (head # as) \<and> distinct (head # as)"

text \<open>Two stores that differ in links only, on the nodes of the first.\<close>

definition same_data :: "heap \<Rightarrow> heap \<Rightarrow> addr set \<Rightarrow> bool" where
  "same_data h h' A \<longleftrightarrow>
     (\<forall>a \<in> A. map_option (\<lambda>tp. tp\<lparr>link := None\<rparr>) (h a) = map_option (\<lambda>tp. tp\<lparr>link := None\<rparr>) (h' a))"

lemma chain_cong:
  "(\<And>a. a \<in> set as \<Longrightarrow> map_option link (h a) = map_option link (h' a)) \<Longrightarrow> chain h p as = chain h' p as"
proof (induction as arbitrary: p)
  case Nil
  then show ?case by simp
next
  case (Cons a as)
  have "map_option link (h a) = map_option link (h' a)" using Cons.prems by simp
  moreover have "chain h q as = chain h' q as" for q using Cons by simp
  ultimately show ?case by (cases "h a"; cases "h' a") auto
qed

lemma chain_upd [simp]: "a \<notin> set as \<Longrightarrow> chain (h(a := x)) p as = chain h p as"
  by (rule chain_cong) auto

lemma chain_mem: "chain h p as \<Longrightarrow> a \<in> set as \<Longrightarrow> \<exists>tp. h a = Some tp"
  by (induction as arbitrary: p) auto

lemma find_prev_found:
  "chain h (Some x) (x # pre @ e # post) \<Longrightarrow> distinct (x # pre @ e # post) \<Longrightarrow>
     find_prev h e (Some x) = Some (Some (last (x # pre)))"
proof (induction pre arbitrary: x)
  case Nil
  then show ?case by (subst find_prev.simps) auto
next
  case (Cons y pre)
  then obtain tp where "h x = Some tp" "link tp = Some y" "chain h (Some y) (y # pre @ e # post)"
    by auto
  then show ?case using Cons.IH [of y] Cons.prems(2) by (subst find_prev.simps) auto
qed

lemma find_prev_absent:
  "chain h (Some x) (x # as) \<Longrightarrow> e \<notin> set as \<Longrightarrow> find_prev h e (Some x) = Some None"
proof (induction as arbitrary: x)
  case Nil
  then show ?case by (subst find_prev.simps) (auto simp: find_prev.simps [of h e None])
next
  case (Cons y as)
  then obtain tp where "h x = Some tp" "link tp = Some y" "chain h (Some y) (y # as)" by auto
  then show ?case using Cons.IH [of y] Cons.prems(2) by (subst find_prev.simps) auto
qed

lemma chain_relink:
  "chain h p (as @ x # e # post) \<Longrightarrow> distinct (as @ x # e # post) \<Longrightarrow> h e = Some te \<Longrightarrow> h x = Some tx \<Longrightarrow>
     chain (h(x \<mapsto> tx\<lparr>link := link te\<rparr>, e := None)) p (as @ x # post)"
proof (induction as arbitrary: p)
  case Nil
  then show ?case by (auto simp del: fun_upd_apply simp: fun_upd_same fun_upd_other)
next
  case (Cons a as)
  then show ?case by (auto simp del: fun_upd_apply simp: fun_upd_same fun_upd_other)
qed

text \<open>A store with a head at 100 and a list of two points behind it, and a third point.\<close>

definition ex_heap :: heap where
  "ex_heap = [100 \<mapsto> ex_point\<lparr>link := Some 200\<rparr>, 200 \<mapsto> ex_point\<lparr>link := Some 300\<rparr>, 300 \<mapsto> ex_point, 400 \<mapsto> ex_point]"

lemma ex_heap_simps:
  "list_at ex_heap 100 [200, 300]"
  "ex_heap 200 = Some (ex_point\<lparr>link := Some 300\<rparr>)" "ex_heap 400 = Some ex_point"
  by (simp_all add: list_at_def ex_heap_def ex_point_def)

lemma AddEquipment_ok:
  assumes l: "list_at h head as" and e: "e \<notin> set (head # as)" "h e = Some te"
  shows "\<exists>h'. AddEquipment head e h = Some h' \<and> list_at h' head (e # as) \<and> same_data h h' UNIV"
proof -
  obtain th where th: "h head = Some th" "chain h (link th) as" and d: "distinct (head # as)"
    using l by (auto simp: list_at_def)
  let ?h = "h(e \<mapsto> te\<lparr>link := link th\<rparr>, head \<mapsto> th\<lparr>link := Some e\<rparr>)"
  have "AddEquipment head e h = Some ?h"
    using th(1) e by (simp add: AddEquipment_def Let_def)
  moreover have "list_at ?h head (e # as)"
    using th(2) d e by (simp add: list_at_def fun_upd_twist)
  moreover have "same_data h ?h UNIV" using th(1) e by (auto simp: same_data_def)
  ultimately show ?thesis by blast
qed

lemma initTestpoint_ok:
  assumes sem: "OSSemCreate 1 os = Some (sem, os')"
    and src: "class_of src = Some cls" and sensor: "sensor = class_code cls"
    and mem: "mem cls = Some d" "class_of d = Some cls" "fits_string (length (cfg_location d)) (cfg_location src)"
    and time: "collectTime (upload tp0) \<noteq> []"
  shows "\<exists>tp e. initTestpoint mem tp0 sensor (Some src) os = Some (tp, os') \<and> points_to cls tp
           \<and> config tp = Some e \<and> same_settings e src \<and> EquipmentSem tp = sem \<and> link tp = None
           \<and> up_testpointNo (upload tp) = 0"
proof -
  obtain e where e: "call_setConfig (Some cls) (Some d) (Some src) = Some (Some e)" "same_settings e src"
    using node.setCfg_copies [OF mem(2) src mem(3)] by blast
  obtain x xs where "collectTime (upload tp0) = x # xs" using time by (meson list.exhaust)
  then have u: "\<exists>u. setUpload ((upload tp0)\<lparr>up_testpointNo := 0\<rparr>) Upload_NULL = Some u \<and> up_testpointNo u = 0"
    by (simp add: setUpload_def strcpy_NULL)
  show ?thesis
    using sem src sensor mem(1) e u
    by (cases cls; cases src) (auto simp: initTestpoint_def sensor_type_defs set_class_def points_to_def)
qed

section \<open>Properties\<close>

text \<open>Adding a point puts it first in the list and changes nothing but the two links.\<close>

theorem AddEquipment_inserts:
  assumes l: "list_at h head as" and e: "e \<notin> set (head # as)" "h e = Some te"
  shows "\<exists>h'. AddEquipment head e h = Some h' \<and> list_at h' head (e # as) \<and> same_data h h' UNIV"
  using AddEquipment_ok [OF assms] .

theorem AddEquipment_inserts_witness:
  "\<exists>h'. AddEquipment 100 400 ex_heap = Some h' \<and> list_at h' 100 [400, 200, 300] \<and> same_data ex_heap h' UNIV"
  using AddEquipment_inserts [OF ex_heap_simps(1) _ ex_heap_simps(3)] by simp

text \<open>C27: Deleting a point of the list terminates, takes exactly this point out of the list, frees it,
  keeps the order and contents of the others; asking to delete a node that is not in the list
  changes nothing.\<close>

theorem DeleteEquipment_removes:
  assumes l: "list_at h head as" and e: "h e = Some te" "e \<noteq> head"
  shows "\<exists>h'. DeleteEquipment head e h = Some h' \<and> list_at h' head (remove1 e as)
           \<and> (e \<in> set as \<longrightarrow> h' e = None) \<and> (e \<notin> set as \<longrightarrow> h' = h) \<and> same_data h h' (- {e})"
proof (cases "e \<in> set as")
  case False
  then have "find_prev h e (Some head) = Some None"
    using l find_prev_absent [of h head as e] by (simp add: list_at_def)
  then show ?thesis using e False l by (simp add: DeleteEquipment_def remove1_idem same_data_def)
next
  case True
  then obtain pre post where as: "as = pre @ e # post" by (meson split_list)
  have c: "chain h (Some head) (head # pre @ e # post)" and d: "distinct (head # pre @ e # post)"
    using l by (auto simp: list_at_def as)
  let ?x = "last (head # pre)"
  have f: "find_prev h e (Some head) = Some (Some ?x)" using find_prev_found [OF c d] .
  have sp: "head # pre = butlast (head # pre) @ [?x]" by simp
  have c': "chain h (Some head) (butlast (head # pre) @ ?x # e # post)"
      and d': "distinct (butlast (head # pre) @ ?x # e # post)"
    using c d sp by (metis append.assoc append_Cons append_Nil)+
  have "\<exists>tx. h ?x = Some tx"
    by (rule chain_mem [OF c']) simp
  then obtain tx where tx: "h ?x = Some tx" by blast
  let ?h = "h(?x \<mapsto> tx\<lparr>link := link te\<rparr>, e := None)"
  have "DeleteEquipment head e h = Some ?h" using e f tx by (simp add: DeleteEquipment_def)
  moreover have "chain ?h (Some head) (butlast (head # pre) @ ?x # post)"
    using chain_relink [OF c' d' e(1) tx] .
  then have "chain ?h (Some head) (head # pre @ post)"
    using sp by (metis append.assoc append_Cons append_Nil)
  then have "list_at ?h head (remove1 e as)"
    using d by (simp add: list_at_def as remove1_append)
  moreover have "same_data h ?h (- {e})" using tx by (auto simp: same_data_def)
  ultimately show ?thesis using True by auto
qed

theorem DeleteEquipment_removes_witness:
  "\<exists>h'. DeleteEquipment 100 200 ex_heap = Some h' \<and> list_at h' 100 [300] \<and> h' 200 = None
      \<and> same_data ex_heap h' (- {200})"
  using DeleteEquipment_removes [OF ex_heap_simps(1,2)] by auto

text \<open>C28: Initialising a measuring point of one of the four classes sets every function pointer to the
  functions of its class and gives it a private copy of the settings. The upload record is
  cleared last, so its point number is 0 and not the configured one.\<close>

theorem initTestpoint_sets_class:
  assumes sem: "OSSemCreate 1 os = Some (sem, os')"
    and src: "class_of src = Some cls" and sensor: "sensor = class_code cls"
    and mem: "mem cls = Some d" "class_of d = Some cls" "fits_string (length (cfg_location d)) (cfg_location src)"
    and time: "collectTime (upload tp0) \<noteq> []"
  shows "\<exists>tp e. initTestpoint mem tp0 sensor (Some src) os = Some (tp, os') \<and> points_to cls tp
           \<and> config tp = Some e \<and> same_settings e src \<and> EquipmentSem tp = sem \<and> link tp = None
           \<and> up_testpointNo (upload tp) = 0"
  by (rule initTestpoint_ok) (fact assms)+

theorem initTestpoint_sets_class_witness:
  "\<exists>tp e. initTestpoint (\<lambda>_. Some (AnalogueC ex_analogue)) ex_point 1 (Some (AnalogueC ex_analogue2)) ex_os
         = Some (tp, ex_os) \<and> points_to Analogue tp
       \<and> config tp = Some e \<and> same_settings e (AnalogueC ex_analogue2) \<and> up_testpointNo (upload tp) = 0"
proof -
  have "OSSemCreate 1 ex_os = Some (None, ex_os)" by (simp add: OSSemCreate_def ex_os_def)
  moreover have "collectTime (upload ex_point) \<noteq> []" by (simp add: ex_point_def)
  ultimately show ?thesis
    using initTestpoint_sets_class [of ex_os None ex_os "AnalogueC ex_analogue2" Analogue 1
        "\<lambda>_. Some (AnalogueC ex_analogue)" "AnalogueC ex_analogue" ex_point]
    by (fastforce simp: sensor_type_defs)
qed

end
