(* ===== verification/Com_Uart1.thy ===== *)
theory Com_Uart1
  imports Sensor_Data Os_Core
begin

text \<open>
  The link to the acquisition board, UART 1 of \<open>BoardSupport/com_uart.c\<close>: the interrupt
  handler, decoding a received frame, encoding and sending a control frame.

  The registers are the handler's input and output: an interrupt is the value of the
  interrupt-identification register with the byte in the receive buffer, every
  \<open>UART_SendByte\<close> appends to \<open>txLog\<close>, and \<open>threOn\<close> says whether the transmit interrupt is
  enabled. The handler runs between \<open>OSIntEnter\<close> and \<open>OSIntExit\<close> of the kernel model.
\<close>

section \<open>State\<close>

record Uart1 =
  dataToSend :: "u8 list"
  dataToRcv :: "u8 list"
  uart1RcvOK :: u8
  uart1RcvStart :: u8
  readyToRcv :: u8
  uart1SendIndex :: u16
  uart1RcvIndex :: u16
  uart1SendOK :: u8
  txLog :: "u8 list"
  threOn :: bool

definition UART_IIR_INTID_RLS :: u32 where "UART_IIR_INTID_RLS = 6"
definition UART_IIR_INTID_RDA :: u32 where "UART_IIR_INTID_RDA = 4"
definition UART_IIR_INTID_CTI :: u32 where "UART_IIR_INTID_CTI = 12"
definition UART_IIR_INTID_THRE :: u32 where "UART_IIR_INTID_THRE = 2"

lemmas uart_sources =
  UART_IIR_INTID_RLS_def UART_IIR_INTID_RDA_def UART_IIR_INTID_CTI_def UART_IIR_INTID_THRE_def

text \<open>The assignments of \<open>LPC_Uart_Init\<close> to this state; the rest of it programs registers.\<close>

definition LPC_Uart_Init_1 :: "Uart1 \<Rightarrow> Uart1" where
  "LPC_Uart_Init_1 u = u\<lparr>uart1RcvOK := 0, uart1RcvStart := 0, readyToRcv := 0,
     uart1RcvIndex := 0, uart1SendIndex := 0, uart1SendOK := 1\<rparr>"

section \<open>Interrupt handler\<close>

definition uart1_receive :: "u8 \<Rightarrow> Uart1 \<Rightarrow> Uart1 option" where
  "uart1_receive byte u =
     (if readyToRcv u = 1 then do {
        buf \<leftarrow> wr (dataToRcv u) (unat (uart1RcvIndex u)) byte;
        let u = u\<lparr>dataToRcv := buf, uart1RcvIndex := uart1RcvIndex u + 1\<rparr>;
        if uart1RcvIndex u < 134 then Some u
        else do {
          e0 \<leftarrow> rd (dataToRcv u) 132;
          e1 \<leftarrow> rd (dataToRcv u) 133;
          Some (u\<lparr>uart1RcvOK := (if e0 = 0xE5 \<and> e1 = 0x5E then 1 else 0),
                  readyToRcv := 0, uart1RcvIndex := 0\<rparr>) } }
      else if byte = 0x5A \<and> uart1RcvStart u = 0 then Some (u\<lparr>uart1RcvStart := 1\<rparr>)
      else if uart1RcvStart u = 1 then
        if byte = 0xA5 then Some (u\<lparr>readyToRcv := 1, uart1RcvStart := 0, uart1RcvIndex := 0\<rparr>)
        else Some u
      else Some u)"

definition uart1_transmit :: "Uart1 \<Rightarrow> Uart1 option" where
  "uart1_transmit u = do {
     let u = u\<lparr>uart1SendIndex := uart1SendIndex u + 1\<rparr>;
     b \<leftarrow> rd (dataToSend u) (unat (uart1SendIndex u));
     let u = u\<lparr>txLog := txLog u @ [b]\<rparr>;
     Some (if uart1SendIndex u \<ge> 7
           then u\<lparr>threOn := False, uart1SendOK := 1, uart1SendIndex := 0\<rparr> else u) }"

text \<open>The handler's dispatch on the low four bits of the identification register.\<close>

definition uart1_body :: "u32 \<times> u8 \<Rightarrow> Uart1 \<Rightarrow> Uart1 option" where
  "uart1_body i u =
     (let intsrc = fst i AND 0x0F in
      if intsrc = UART_IIR_INTID_RLS then Some u
      else if intsrc = UART_IIR_INTID_RDA \<or> intsrc = UART_IIR_INTID_CTI then uart1_receive (snd i) u
      else if intsrc = UART_IIR_INTID_THRE then uart1_transmit u
      else Some u)"

definition UART1_IRQHandler :: "u32 \<times> u8 \<Rightarrow> Uart1 \<times> OS \<Rightarrow> (Uart1 \<times> OS) option" where
  "UART1_IRQHandler i s = do {
     let os = OSIntEnter (snd s);
     u \<leftarrow> uart1_body i (fst s);
     os \<leftarrow> OSIntExit os;
     Some (u, os) }"

section \<open>Sending a control frame\<close>

text \<open>The seven payload bits of each byte are shifted up by one, so every payload byte is even.\<close>

definition control_frame :: "SendStruct \<Rightarrow> u8 list" where
  "control_frame p =
     [0x5B,
      ucast (drop_bit 8 (clearFreCount p AND 0xFE00)),
      ucast (drop_bit 1 (clearFreCount p AND 0x01FC)),
      ucast (push_bit 6 (clearFreCount p AND 0x3) OR drop_bit 10 (SEL p AND 0xF800)),
      ucast (drop_bit 3 (SEL p AND 0x07F0)),
      ucast (push_bit 4 (SEL p AND 0x0F)) OR drop_bit 4 (outPut p AND 0xE0),
      push_bit 3 (outPut p AND 0x1F),
      0xB5]"

definition Uart1_Send_Struct :: "SendStruct \<Rightarrow> Uart1 \<Rightarrow> Uart1 option" where
  "Uart1_Send_Struct p u =
     (if uart1SendOK u = 0 then Some u
      else do {
        buf \<leftarrow> wr_seq (dataToSend u) 0 (control_frame p);
        b \<leftarrow> rd buf 0;
        Some (u\<lparr>dataToSend := buf, txLog := txLog u @ [b], threOn := True, uart1SendOK := 0\<rparr>) })"

section \<open>Decoding a received frame\<close>

text \<open>
  The three loops of \<open>Uart1_Get_Struct\<close>, each with its counter \<open>num\<close>: 16-bit values come low
  byte first, 32-bit values with their halves swapped.
\<close>

fun read16s :: "nat \<Rightarrow> nat \<Rightarrow> u8 list \<Rightarrow> (u16 list \<times> nat) option" where
  "read16s 0 num d = Some ([], num)"
| "read16s (Suc n) num d = do {
     hi \<leftarrow> rd d (num + 1);
     lo \<leftarrow> rd d num;
     (ws, num') \<leftarrow> read16s n (num + 2) d;
     Some (word16 hi lo # ws, num') }"

fun read32s :: "nat \<Rightarrow> nat \<Rightarrow> u8 list \<Rightarrow> (u32 list \<times> nat) option" where
  "read32s 0 num d = Some ([], num)"
| "read32s (Suc n) num d = do {
     b3 \<leftarrow> rd d (num + 2);
     b2 \<leftarrow> rd d (num + 3);
     b1 \<leftarrow> rd d num;
     b0 \<leftarrow> rd d (num + 1);
     (ws, num') \<leftarrow> read32s n (num + 4) d;
     Some (word32 b3 b2 b1 b0 # ws, num') }"

text \<open>Without a frame the function returns its uninitialised local, the parameter \<open>junk\<close>.\<close>

definition Uart1_Get_Struct :: "RcvStruct \<Rightarrow> Uart1 \<Rightarrow> (RcvStruct \<times> Uart1) option" where
  "Uart1_Get_Struct junk u =
     (if uart1RcvOK u = 0 then Some (junk, u)
      else do {
        (fre, num) \<leftarrow> read16s 16 0 (dataToRcv u);
        (ad, num) \<leftarrow> read16s 16 num (dataToRcv u);
        (cnt, num) \<leftarrow> read32s 16 (num + 2) (dataToRcv u);
        hi \<leftarrow> rd (dataToRcv u) 131;
        lo \<leftarrow> rd (dataToRcv u) 130;
        Some (\<lparr>Fre = fre, AD = ad, count = cnt, sel = word16 hi lo\<rparr>, u\<lparr>uart1RcvOK := 0\<rparr>) })"

section \<open>The handler never leaves its arrays\<close>

definition uart1_ok :: "Uart1 \<Rightarrow> bool" where
  "uart1_ok u \<longleftrightarrow> length (dataToSend u) = 8 \<and> length (dataToRcv u) = 134
     \<and> uart1SendIndex u < 7 \<and> uart1RcvIndex u < 134"

lemma uart1_receive_ok: "uart1_ok u \<Longrightarrow> \<exists>v. uart1_receive b u = Some v \<and> uart1_ok v"
  by (auto simp: uart1_receive_def uart1_ok_def word_less_nat_alt wr_in rd_in Let_def
      simp del: wr_eq_Some rd_eq_Some)

lemma uart1_transmit_ok: "uart1_ok u \<Longrightarrow> \<exists>v. uart1_transmit u = Some v \<and> uart1_ok v"
proof -
  assume u: "uart1_ok u"
  then have "unat (uart1SendIndex u + 1) = Suc (unat (uart1SendIndex u))"
    by (auto simp: uart1_ok_def intro: unat_inc)
  then show ?thesis
    using u by (auto simp: uart1_transmit_def uart1_ok_def word_less_nat_alt word_le_nat_alt rd_in Let_def
        simp del: rd_eq_Some)
qed

lemma uart1_body_ok: "uart1_ok u \<Longrightarrow> \<exists>v. uart1_body i u = Some v \<and> uart1_ok v"
  by (simp add: uart1_body_def Let_def uart1_receive_ok uart1_transmit_ok)

definition uart1_inv :: "Uart1 \<times> OS \<Rightarrow> bool" where
  "uart1_inv s \<longleftrightarrow> uart1_ok (fst s) \<and> os_ok (snd s)"

interpretation uart1: safe_handler UART1_IRQHandler "\<lambda>_. True" uart1_inv
proof (unfold_locales, goal_cases)
  case (1 s i)
  then obtain u os where "uart1_body i (fst s) = Some u" "uart1_ok u"
      "OSIntExit (OSIntEnter (snd s)) = Some os" "os_ok os"
    using uart1_body_ok OSIntExit_ok OSIntEnter_ok unfolding uart1_inv_def by blast
  then show ?case by (simp add: UART1_IRQHandler_def uart1_inv_def Let_def)
qed

section \<open>Receiving a frame\<close>

text \<open>The layout of a frame of the acquisition board: what a decoder of it must invert.\<close>

definition le16 :: "u16 \<Rightarrow> u8 list" where
  "le16 w = [lo8 w, hi8 w]"

definition mid32 :: "u32 \<Rightarrow> u8 list" where
  "mid32 w = [byte_of 1 w, byte_of 0 w, byte_of 3 w, byte_of 2 w]"

definition board_frame :: "u8 list \<Rightarrow> RcvStruct \<Rightarrow> u8 list" where
  "board_frame gap r =
     concat (map le16 (Fre r)) @ concat (map le16 (AD r)) @ gap @ concat (map mid32 (count r))
     @ le16 (sel r) @ [0xE5, 0x5E]"

lemma le16_append [simp]: "le16 w @ xs = lo8 w # hi8 w # xs" "length (le16 w) = 2"
  by (simp_all add: le16_def)

lemma mid32_append [simp]: "mid32 w @ xs = byte_of 1 w # byte_of 0 w # byte_of 3 w # byte_of 2 w # xs"
    "length (mid32 w) = 4"
  by (simp_all add: mid32_def)

lemma length_concat_le16 [simp]: "length (concat (map le16 ws)) = 2 * length ws"
  by (induction ws) auto

lemma length_concat_mid32 [simp]: "length (concat (map mid32 ws)) = 4 * length ws"
  by (induction ws) auto

lemma length_board_frame: "wf_rcv r \<Longrightarrow> length gap = 2 \<Longrightarrow> length (board_frame gap r) = 134"
  by (simp add: board_frame_def wf_rcv_def)

lemma read16s_encoded:
  "length pre = num \<Longrightarrow> n = length ws \<Longrightarrow>
     read16s n num (pre @ concat (map le16 ws) @ post) = Some (ws, num + 2 * n)"
proof (induction ws arbitrary: pre num n)
  case Nil
  then show ?case by simp
next
  case (Cons w ws)
  have "read16s (length ws) (num + 2) ((pre @ le16 w) @ concat (map le16 ws) @ post)
      = Some (ws, num + 2 + 2 * length ws)"
    using Cons.prems by (intro Cons.IH) auto
  then show ?case using Cons.prems
    by (simp add: nth_append rd_def)
qed

lemma word32_bytes [simp]: "word32 (byte_of 3 w) (byte_of 2 w) (byte_of (Suc 0) w) (byte_of 0 w) = w"
  using word32_byte_of [of w] by simp

lemma read32s_encoded:
  "length pre = num \<Longrightarrow> n = length ws \<Longrightarrow>
     read32s n num (pre @ concat (map mid32 ws) @ post) = Some (ws, num + 4 * n)"
proof (induction ws arbitrary: pre num n)
  case Nil
  then show ?case by simp
next
  case (Cons w ws)
  have "read32s (length ws) (num + 4) ((pre @ mid32 w) @ concat (map mid32 ws) @ post)
      = Some (ws, num + 4 + 4 * length ws)"
    using Cons.prems by (intro Cons.IH) auto
  then show ?case using Cons.prems
    by (simp add: nth_append rd_def)
qed

lemma Uart1_Get_Struct_frame:
  assumes r: "wf_rcv r" and g: "length gap = 2" and u: "uart1RcvOK u \<noteq> 0"
    and d: "dataToRcv u = board_frame gap r"
  shows "Uart1_Get_Struct junk u = Some (r, u\<lparr>uart1RcvOK := 0\<rparr>)"
proof -
  have l: "length (Fre r) = 16" "length (AD r) = 16" "length (count r) = 16"
    using r by (simp_all add: wf_rcv_def)
  let ?F = "concat (map le16 (Fre r))" and ?A = "concat (map le16 (AD r))"
  let ?C = "concat (map mid32 (count r))"
  let ?T = "le16 (sel r) @ [0xE5, 0x5E]"
  have "read16s 16 0 ([] @ ?F @ ?A @ gap @ ?C @ ?T) = Some (Fre r, 0 + 2 * 16)"
    using l by (intro read16s_encoded) simp_all
  moreover have "read16s 16 32 (?F @ ?A @ gap @ ?C @ ?T) = Some (AD r, 32 + 2 * 16)"
    using l by (intro read16s_encoded) simp_all
  moreover have "read32s 16 66 ((?F @ ?A @ gap) @ ?C @ ?T) = Some (count r, 66 + 4 * 16)"
    using l g by (intro read32s_encoded) simp_all
  moreover have "rd (?F @ ?A @ gap @ ?C @ ?T) 131 = Some (hi8 (sel r))"
      "rd (?F @ ?A @ gap @ ?C @ ?T) 130 = Some (lo8 (sel r))"
    using l g by (simp_all add: nth_append)
  ultimately show ?thesis
    using u d by (simp add: Uart1_Get_Struct_def board_frame_def del: rd_eq_Some)
qed

text \<open>A byte received inside a frame goes to the next place of the buffer.\<close>

lemma receive_bytes:
  "readyToRcv u = 1 \<Longrightarrow> uart1RcvIndex u = of_nat i \<Longrightarrow> length (dataToRcv u) = 134 \<Longrightarrow>
   i + length bs < 134 \<Longrightarrow>
     run uart1_receive bs u = Some (u\<lparr>dataToRcv := take i (dataToRcv u) @ bs @ drop (i + length bs) (dataToRcv u),
       uart1RcvIndex := of_nat (i + length bs)\<rparr>)"
proof (induction bs arbitrary: i u)
  case Nil
  then show ?case by simp
next
  case (Cons b bs)
  let ?v = "u\<lparr>dataToRcv := (dataToRcv u)[i := b], uart1RcvIndex := of_nat (Suc i)\<rparr>"
  have i: "unat (of_nat i :: u16) = i" "unat (of_nat (Suc i) :: u16) = Suc i"
    using Cons.prems by (simp_all only: unat_of_nat) (simp_all add: take_bit_nat_eq_self)
  have inc: "(of_nat i + 1 :: u16) = of_nat (Suc i)" by (simp add: add.commute)
  have "unat (of_nat (Suc i) :: u16) < unat (134 :: u16)" unfolding i(2) using Cons.prems by simp
  then have lt: "(of_nat (Suc i) :: u16) < 134" by (simp only: word_less_nat_alt)
  have "uart1_receive b u = Some ?v"
    using Cons.prems i(1) lt
    by (simp add: uart1_receive_def wr_in Let_def inc del: wr_eq_Some of_nat_Suc)
  moreover have "run uart1_receive bs ?v = Some (?v\<lparr>dataToRcv := take (Suc i) (dataToRcv ?v) @ bs
      @ drop (Suc i + length bs) (dataToRcv ?v), uart1RcvIndex := of_nat (Suc i + length bs)\<rparr>)"
    using Cons.prems by (intro Cons.IH) simp_all
  ultimately show ?case
    using Cons.prems by (simp add: take_Suc_conv_app_nth ac_simps)
qed

definition idle :: "Uart1 \<Rightarrow> bool" where
  "idle u \<longleftrightarrow> readyToRcv u = 0 \<and> uart1RcvStart u = 0"

text \<open>The two header bytes and the 134 bytes after them, whatever they are.\<close>

lemma receive_frame:
  assumes u: "idle u" "length (dataToRcv u) = 134" and f: "length f = 134"
  shows "run uart1_receive (0x5A # 0xA5 # f) u =
    Some (u\<lparr>dataToRcv := f, uart1RcvOK := (if f ! 132 = 0xE5 \<and> f ! 133 = 0x5E then 1 else 0),
            readyToRcv := 0, uart1RcvStart := 0, uart1RcvIndex := 0\<rparr>)"
proof -
  let ?v = "u\<lparr>uart1RcvStart := 0, readyToRcv := 1, uart1RcvIndex := 0\<rparr>"
  have "run uart1_receive [0x5A, 0xA5] u = Some ?v"
    using u by (simp add: uart1_receive_def idle_def)
  moreover obtain bs b where bs: "f = bs @ [b]" "length bs = 133"
    using f by (cases f rule: rev_cases) auto
  moreover have "run uart1_receive bs ?v = Some (?v\<lparr>dataToRcv := bs @ drop 133 (dataToRcv u),
      uart1RcvIndex := 133\<rparr>)"
    using receive_bytes [of ?v 0 bs] u bs(2) by simp
  moreover have "uart1_receive b (?v\<lparr>dataToRcv := bs @ drop 133 (dataToRcv u), uart1RcvIndex := 133\<rparr>)
      = Some (?v\<lparr>dataToRcv := bs @ [b], uart1RcvOK := (if f ! 132 = 0xE5 \<and> f ! 133 = 0x5E then 1 else 0),
          readyToRcv := 0, uart1RcvIndex := 0\<rparr>)"
  proof -
    have "length (drop 133 (dataToRcv u)) = Suc 0" using u(2) by simp
    then obtain x where "drop 133 (dataToRcv u) = [x]" by (auto simp only: length_Suc_conv length_0_conv)
    then have "(bs @ drop 133 (dataToRcv u))[133 := b] = bs @ [b]"
      using bs(2) by (simp add: list_update_append)
    then show ?thesis
      using bs u(2) by (simp add: uart1_receive_def wr_in rd_in Let_def del: wr_eq_Some rd_eq_Some)
  qed
  ultimately have "run uart1_receive ([0x5A, 0xA5] @ bs @ [b]) u =
    Some (?v\<lparr>dataToRcv := bs @ [b], uart1RcvOK := (if f ! 132 = 0xE5 \<and> f ! 133 = 0x5E then 1 else 0),
          readyToRcv := 0, uart1RcvIndex := 0\<rparr>)"
    by (simp only: run_append_Some) simp
  then show ?thesis using bs(1) by simp
qed

text \<open>What the body does, the handler does between the two kernel calls.\<close>

lemma handler_runs_body:
  "run uart1_body is u = Some v \<Longrightarrow> os_ok os \<Longrightarrow>
     \<exists>os'. run UART1_IRQHandler is (u, os) = Some (v, os') \<and> os_ok os'"
proof (induction "is" arbitrary: u os)
  case Nil
  then show ?case by simp
next
  case (Cons i "is")
  then obtain w where w: "uart1_body i u = Some w" "run uart1_body is w = Some v"
    by (auto split: option.splits)
  obtain os1 where "OSIntExit (OSIntEnter os) = Some os1" "os_ok os1"
    using OSIntExit_ok OSIntEnter_ok Cons.prems(2) by blast
  then show ?case using Cons.IH [OF w(2)] w(1) by (simp add: UART1_IRQHandler_def Let_def)
qed

definition rx :: "u8 \<Rightarrow> u32 \<times> u8" where "rx b = (UART_IIR_INTID_RDA, b)"

definition tx :: "u32 \<times> u8" where "tx = (UART_IIR_INTID_THRE, 0)"

lemma body_rx [simp]: "uart1_body (rx b) u = uart1_receive b u"
  by (simp add: uart1_body_def rx_def uart_sources)

lemma body_tx [simp]: "uart1_body tx u = uart1_transmit u"
  by (simp add: uart1_body_def tx_def uart_sources)

lemma run_body_rx: "run uart1_body (map rx bs) u = run uart1_receive bs u"
  by (induction bs arbitrary: u) (simp_all split: option.split)

section \<open>Sending\<close>

lemma length_control_frame [simp]: "length (control_frame p) = 8"
  by (simp add: control_frame_def)

lemma send_seven:
  assumes "length f = 8" and "dataToSend u = f" and "uart1SendIndex u = 0" and "txLog u = l @ [f ! 0]"
  shows "run uart1_body (replicate 7 tx) u =
    Some (u\<lparr>txLog := l @ f, uart1SendIndex := 0, uart1SendOK := 1, threOn := False\<rparr>)"
proof -
  have "f = map ((!) f) [0..<8]" using map_nth [of f] assms(1) by simp
  moreover have "[0..<8] = [0, 1, 2, 3, 4, 5, 6, 7]" by (simp add: upt_rec)
  ultimately obtain a b c d e g h i where f: "f = [a, b, c, d, e, g, h, i]" by force
  have r: "replicate 7 tx = [tx, tx, tx, tx, tx, tx, tx]" by (simp add: numeral_eq_Suc)
  show ?thesis using assms(2-) by (simp add: f r uart1_transmit_def Let_def rd_def word_le_nat_alt)
qed

section \<open>The control frame as a code\<close>

text \<open>What the board must do with the six payload bytes.\<close>

fun decode_control :: "u8 list \<Rightarrow> SendStruct option" where
  "decode_control [h, a, b, c, d, e, f, t] =
     (if h = 0x5B \<and> t = 0xB5 then Some
        \<lparr>clearFreCount = push_bit 8 (ucast a) OR push_bit 1 (ucast b) OR ucast (drop_bit 6 c),
         SEL = push_bit 10 (ucast (c AND 0x3F)) OR push_bit 3 (ucast d) OR ucast (drop_bit 4 e),
         outPut = push_bit 4 (e AND 0x0F) OR drop_bit 3 f\<rparr>
      else None)"
| "decode_control _ = None"

lemma masks:
  "(0xFE00 :: u16) = push_bit 9 (mask 7)" "(0x01FC :: u16) = push_bit 2 (mask 7)"
  "(0x3 :: u16) = mask 2" "(0xF800 :: u16) = push_bit 11 (mask 5)"
  "(0x07F0 :: u16) = push_bit 4 (mask 7)" "(0x0F :: u16) = mask 4"
  "(0xE0 :: u8) = push_bit 5 (mask 3)" "(0x1F :: u8) = mask 5"
  "(0x3F :: u8) = mask 6" "(0x0F :: u8) = mask 4"
  by code_simp+

lemma bit_shift_back: "bit w (k + (n - k)) \<longleftrightarrow> (if k \<le> n then bit w n else bit w k)"
  by simp

lemma decode_clear:
  "push_bit 8 (ucast (ucast (drop_bit 8 (w AND 0xFE00)) :: u8))
     OR push_bit 1 (ucast (ucast (drop_bit 1 (w AND 0x01FC)) :: u8))
     OR ucast (drop_bit 6 (ucast (push_bit 6 (w AND 0x3) OR drop_bit 10 (v AND 0xF800)) :: u8)) = (w :: u16)"
  by (rule bit_word_eqI, simp only: masks bit_simps, auto simp: bit_simps bit_shift_back split: if_splits)

lemma decode_sel:
  "push_bit 10 (ucast ((ucast (push_bit 6 (v AND 0x3) OR drop_bit 10 (w AND 0xF800)) :: u8) AND 0x3F))
     OR push_bit 3 (ucast (ucast (drop_bit 3 (w AND 0x07F0)) :: u8))
     OR ucast (drop_bit 4 (ucast (push_bit 4 (w AND 0x0F)) OR drop_bit 4 (x AND 0xE0) :: u8)) = (w :: u16)"
  by (rule bit_word_eqI, simp only: masks bit_simps, auto simp: bit_simps bit_shift_back split: if_splits)

lemma decode_out:
  "push_bit 4 ((ucast (push_bit 4 (v AND 0x0F :: u16)) OR drop_bit 4 (w AND 0xE0)) AND 0x0F)
     OR drop_bit 3 (push_bit 3 (w AND 0x1F)) = (w :: u8)"
  by (rule bit_word_eqI, simp only: masks bit_simps, auto simp: bit_simps bit_shift_back split: if_splits)

lemma decode_control_frame: "decode_control (control_frame p) = Some p"
  unfolding control_frame_def decode_control.simps decode_clear decode_sel decode_out by simp

lemma control_payload_even: "1 \<le> k \<Longrightarrow> k \<le> 6 \<Longrightarrow> \<not> bit (control_frame p ! k) 0"
proof -
  assume "1 \<le> k" "k \<le> 6"
  then consider "k = 1" | "k = 2" | "k = 3" | "k = 4" | "k = 5" | "k = 6" by linarith
  then show ?thesis
    by cases (simp_all only: control_frame_def nth_Cons_0 nth_Cons_numeral nth_Cons_Suc One_nat_def masks,
      auto simp: bit_simps)
qed

lemma board_frame_trailer:
  assumes "wf_rcv r" and "length gap = 2"
  shows "board_frame gap r ! 132 = 0xE5 \<and> board_frame gap r ! 133 = 0x5E"
  using assms by (simp add: board_frame_def wf_rcv_def nth_append)

lemma receive_gap:
  "idle u \<Longrightarrow> 0xA5 \<notin> set gap \<Longrightarrow>
     run uart1_receive (0x5A # gap) u = Some (u\<lparr>uart1RcvStart := 1\<rparr>)"
proof (induction gap rule: rev_induct)
  case Nil
  then show ?case by (simp add: uart1_receive_def idle_def)
next
  case (snoc b gap)
  then have "run uart1_receive (0x5A # gap) u = Some (u\<lparr>uart1RcvStart := 1\<rparr>)" by simp
  then have "run uart1_receive ((0x5A # gap) @ [b]) u = run uart1_receive [b] (u\<lparr>uart1RcvStart := 1\<rparr>)"
    by (rule run_append_Some)
  moreover have "uart1_receive b (u\<lparr>uart1RcvStart := 1\<rparr>) = Some (u\<lparr>uart1RcvStart := 1\<rparr>)"
    using snoc.prems by (simp add: uart1_receive_def idle_def)
  ultimately show ?case by simp
qed

section \<open>Concrete state\<close>

definition ex_uart :: Uart1 where
  "ex_uart = \<lparr>dataToSend = replicate 8 0, dataToRcv = replicate 134 0, uart1RcvOK = 0,
     uart1RcvStart = 0, readyToRcv = 0, uart1SendIndex = 0, uart1RcvIndex = 0, uart1SendOK = 1,
     txLog = [], threOn = False\<rparr>"

lemma ex_uart_ok: "uart1_ok ex_uart" "idle ex_uart"
  by (simp_all add: ex_uart_def uart1_ok_def idle_def)

lemma ex_rcv_wf: "wf_rcv ex_rcv"
  by (simp add: ex_rcv_def wf_rcv_def)

section \<open>Properties\<close>

text \<open>C26: From a state in which the indices are inside the two buffers, no sequence of UART 1
  interrupts, with any identification values and any received bytes, reads or writes outside a
  buffer or breaks the kernel's lists.\<close>

theorem uart1_handler_safe:
  assumes "uart1_ok u" and "os_ok os"
  shows "\<exists>v os'. run UART1_IRQHandler is (u, os) = Some (v, os') \<and> uart1_ok v \<and> os_ok os'"
  using uart1.run_safe [of "(u, os)" "is"] assms by (auto simp: uart1_inv_def list_all_iff)

theorem uart1_handler_safe_witness:
  "\<exists>v os'. run UART1_IRQHandler [(4, 0x5A), (2, 0), (6, 1), (12, 0xA5)] (ex_uart, ex_os) = Some (v, os')
     \<and> uart1_ok v \<and> os_ok os'"
  by (rule uart1_handler_safe [OF ex_uart_ok(1) ex_os_ok])

text \<open>C20: A frame the acquisition board sends, header, the sixteen frequencies, sixteen conversions,
  two unused bytes, sixteen counters, the level bits and the trailer, is received byte by byte
  through the interrupt handler and decoded to exactly the values that were sent.\<close>

theorem uart1_receive_roundtrip:
  assumes "idle u" and "length (dataToRcv u) = 134" and "os_ok os"
    and "wf_rcv r" and "length gap = 2"
  shows "\<exists>v os'. run UART1_IRQHandler (map rx (0x5A # 0xA5 # board_frame gap r)) (u, os) = Some (v, os')
           \<and> os_ok os' \<and> idle v \<and> uart1RcvOK v = 1
           \<and> Uart1_Get_Struct junk v = Some (r, v\<lparr>uart1RcvOK := 0\<rparr>)"
proof -
  let ?f = "board_frame gap r"
  let ?v = "u\<lparr>dataToRcv := ?f, uart1RcvOK := 1, readyToRcv := 0, uart1RcvStart := 0, uart1RcvIndex := 0\<rparr>"
  have "run uart1_receive (0x5A # 0xA5 # ?f) u = Some ?v"
    using receive_frame [OF assms(1,2), of ?f] length_board_frame [OF assms(4,5)]
      board_frame_trailer [OF assms(4,5)] by simp
  then have "run uart1_body (map rx (0x5A # 0xA5 # ?f)) u = Some ?v" by (simp only: run_body_rx)
  moreover have "Uart1_Get_Struct junk ?v = Some (r, ?v\<lparr>uart1RcvOK := 0\<rparr>)"
    by (rule Uart1_Get_Struct_frame [OF assms(4,5)]) simp_all
  ultimately show ?thesis
    using handler_runs_body [OF _ assms(3)] by (fastforce simp: idle_def)
qed

theorem uart1_receive_roundtrip_witness:
  "\<exists>v os'. run UART1_IRQHandler (map rx (0x5A # 0xA5 # board_frame [1, 2] ex_rcv)) (ex_uart, ex_os)
       = Some (v, os') \<and> os_ok os' \<and> idle v \<and> uart1RcvOK v = 1
     \<and> Uart1_Get_Struct ex_rcv v = Some (ex_rcv, v\<lparr>uart1RcvOK := 0\<rparr>)"
  by (rule uart1_receive_roundtrip [OF ex_uart_ok(2) _ ex_os_ok ex_rcv_wf]) (simp_all add: ex_uart_def)

text \<open>Framing is not strict: between the two header bytes any bytes but the second header byte are
  skipped, and a block with a wrong trailer is dropped with the receiver ready for the next
  frame.\<close>

theorem uart1_framing:
  assumes "idle u" and "length (dataToRcv u) = 134" and "0xA5 \<notin> set gap" and "length f = 134"
  shows "\<exists>v. run uart1_body (map rx (0x5A # gap @ 0xA5 # f)) u = Some v \<and> idle v \<and> uart1RcvIndex v = 0
           \<and> dataToRcv v = f
           \<and> uart1RcvOK v = (if f ! 132 = 0xE5 \<and> f ! 133 = 0x5E then 1 else 0)"
proof -
  let ?u = "u\<lparr>uart1RcvStart := 1\<rparr>"
  have "run uart1_receive (0x5A # gap) u = Some ?u" "run uart1_receive [0x5A] u = Some ?u"
    using receive_gap [OF assms(1)] assms(3) receive_gap [OF assms(1), of "[]"] by auto
  then have "run uart1_receive ((0x5A # gap) @ (0xA5 # f)) u = run uart1_receive ([0x5A] @ (0xA5 # f)) u"
    by (simp only: run_append_Some)
  then have "run uart1_receive (0x5A # gap @ 0xA5 # f) u = run uart1_receive (0x5A # 0xA5 # f) u"
    by simp
  then show ?thesis
    using receive_frame [OF assms(1,2,4)] by (simp only: run_body_rx) (simp add: idle_def)
qed

theorem uart1_framing_witness:
  "\<exists>v. run uart1_body (map rx (0x5A # [1, 2] @ 0xA5 # replicate 134 7)) ex_uart = Some v \<and> idle v
     \<and> uart1RcvOK v = 0"
  using uart1_framing [OF ex_uart_ok(2), of "[1, 2]" "replicate 134 7"] by (auto simp: ex_uart_def)

text \<open>A control frame handed over while the transmitter is free goes out as one start call and
  seven transmit interrupts, in order and once, after which the transmitter is free again and
  its interrupt off; the board can decode it uniquely, and no payload byte equals a framing byte.\<close>

theorem uart1_send_frame:
  assumes "uart1SendOK u \<noteq> 0" and "uart1SendIndex u = 0" and "length (dataToSend u) = 8" and "os_ok os"
  shows "\<exists>v w os'. Uart1_Send_Struct p u = Some v \<and> uart1SendOK v = 0 \<and> threOn v
           \<and> run UART1_IRQHandler (replicate 7 tx) (v, os) = Some (w, os') \<and> os_ok os'
           \<and> txLog w = txLog u @ control_frame p \<and> uart1SendOK w = 1 \<and> uart1SendIndex w = 0 \<and> \<not> threOn w
           \<and> decode_control (control_frame p) = Some p
           \<and> {0x5B, 0xB5} \<inter> set (take 6 (drop 1 (control_frame p))) = {}"
proof -
  let ?f = "control_frame p"
  let ?v = "u\<lparr>dataToSend := ?f, txLog := txLog u @ [?f ! 0], threOn := True, uart1SendOK := 0\<rparr>"
  have "Uart1_Send_Struct p u = Some ?v"
    using assms(1,3) by (simp add: Uart1_Send_Struct_def wr_seq_eq rd_in del: rd_eq_Some)
  moreover have "run uart1_body (replicate 7 tx) ?v =
      Some (?v\<lparr>txLog := txLog u @ ?f, uart1SendIndex := 0, uart1SendOK := 1, threOn := False\<rparr>)"
    using assms(2) by (intro send_seven [of ?f]) simp_all
  moreover have "x \<notin> {0x5B, 0xB5}" if x: "x \<in> set (take 6 (drop 1 ?f))" for x
  proof -
    obtain k where "k < 6" "x = ?f ! (1 + k)"
      using x by (auto simp: in_set_conv_nth)
    then have "\<not> bit x 0" using control_payload_even [of "1 + k" p] by simp
    moreover have "bit (0x5B :: u8) 0" "bit (0xB5 :: u8) 0" by simp_all
    ultimately show ?thesis by auto
  qed
  ultimately show ?thesis
    using handler_runs_body [OF _ assms(4)] decode_control_frame [of p] by fastforce
qed

theorem uart1_send_frame_witness:
  "\<exists>v w os'. Uart1_Send_Struct \<lparr>clearFreCount = 0xABCD, SEL = 0x1234, outPut = 0x81\<rparr> ex_uart = Some v
     \<and> run UART1_IRQHandler (replicate 7 tx) (v, ex_os) = Some (w, os')
     \<and> txLog w = control_frame \<lparr>clearFreCount = 0xABCD, SEL = 0x1234, outPut = 0x81\<rparr> \<and> uart1SendOK w = 1"
  using uart1_send_frame [of ex_uart ex_os, OF _ _ _ ex_os_ok] by (fastforce simp: ex_uart_def)

end
