(* ===== verification/Acquisition.thy ===== *)
theory Acquisition
  imports Equipment_List Com_Uart1
begin

text \<open>
  The two tasks that move acquired values: \<open>UartRcv_Task\<close> of \<open>Task/task_UartRcv.c\<close> sends the
  control frame and takes a received frame out of the UART driver into \<open>uart1RcvInfo\<close>;
  \<open>UpdateEquipmentList\<close> of \<open>Task/EquipmentList.c\<close> distributes \<open>uart1RcvInfo\<close> to the measuring
  points and posts each of them for upload. They share the globals of the record below.

  A task runs until it returns or until a semaphore makes it wait; \<open>Waits\<close> names the event and
  the state at that point.
\<close>

section \<open>Shared state\<close>

record App =
  heap :: heap
  EquipmentList :: "addr option"
  uart1RcvInfo :: RcvStruct
  uart1SendInfo :: SendStruct
  Uart1LostCnt :: u32
  uart :: Uart1
  os :: OS
  UartRcvTaskSem :: "nat option"
  UartSendTaskSem :: "nat option"
  UploadQueueHead :: "nat option"

datatype outcome = Ran App | Waits nat App

text \<open>The callers ignore the error code of a semaphore call and go on.\<close>

definition take_sem :: "nat option \<Rightarrow> u32 \<Rightarrow> App \<Rightarrow> outcome option" where
  "take_sem sem timeout s = do {
     ev \<leftarrow> sem;
     (r, os') \<leftarrow> OSSemPend ev timeout (os s);
     Some (case r of Blocked \<Rightarrow> Waits ev (s\<lparr>os := os'\<rparr>) | Done _ _ \<Rightarrow> Ran (s\<lparr>os := os'\<rparr>)) }"

definition give_sem :: "nat option \<Rightarrow> App \<Rightarrow> App option" where
  "give_sem sem s = do {
     ev \<leftarrow> sem;
     (_, os') \<leftarrow> OSSemPost ev (os s);
     Some (s\<lparr>os := os'\<rparr>) }"

fun and_then :: "outcome \<Rightarrow> (App \<Rightarrow> outcome option) \<Rightarrow> outcome option" where
  "and_then (Ran s) f = f s"
| "and_then (Waits ev s) f = Some (Waits ev s)"

section \<open>The UART task\<close>

definition UartRcv_Task_init :: "App \<Rightarrow> App" where
  "UartRcv_Task_init s = s\<lparr>uart1SendInfo := \<lparr>clearFreCount = 0, SEL = 0, outPut = 0\<rparr>\<rparr>"

text \<open>The body of the endless loop up to the delay, and after it.\<close>

definition UartRcv_Task_send :: "App \<Rightarrow> outcome option" where
  "UartRcv_Task_send s = do {
     r \<leftarrow> take_sem (UartSendTaskSem s) 1000 s;
     and_then r (\<lambda>s. do {
       u \<leftarrow> Uart1_Send_Struct (uart1SendInfo s) (uart s);
       s \<leftarrow> give_sem (UartSendTaskSem s) (s\<lparr>uart := u\<rparr>);
       Some (Ran s) }) }"

definition UartRcv_Task_receive :: "RcvStruct \<Rightarrow> App \<Rightarrow> outcome option" where
  "UartRcv_Task_receive junk s =
     (if uart1RcvOK (uart s) = 1 then do {
        r \<leftarrow> take_sem (UartRcvTaskSem s) 1000 s;
        and_then r (\<lambda>s. do {
          (info, u) \<leftarrow> Uart1_Get_Struct junk (uart s);
          s \<leftarrow> give_sem (UartRcvTaskSem s) (s\<lparr>uart1RcvInfo := info, uart := u\<rparr>);
          Some (Ran (s\<lparr>Uart1LostCnt := 0\<rparr>)) }) }
      else Some (Ran (s\<lparr>Uart1LostCnt := Uart1LostCnt s + 1\<rparr>)))"

section \<open>Distributing a frame\<close>

definition update_node :: "RcvStruct \<Rightarrow> addr \<Rightarrow> App \<Rightarrow> outcome option" where
  "update_node rcvTemp a s = do {
     tp \<leftarrow> heap s a;
     r \<leftarrow> take_sem (EquipmentSem tp) 0 s;
     and_then r (\<lambda>s. do {
       tp \<leftarrow> heap s a;
       tp' \<leftarrow> call_getDataFromUart (p_getDataFromUart tp) (Some rcvTemp) (Some tp);
       let s = s\<lparr>heap := (heap s)(a := tp')\<rparr>;
       q \<leftarrow> UploadQueueHead s;
       (_, os') \<leftarrow> OSQPost q (Some a) (os s);
       s \<leftarrow> give_sem (EquipmentSem tp) (s\<lparr>os := os'\<rparr>);
       Some (Ran s) }) }"

partial_function (option) update_loop :: "RcvStruct \<Rightarrow> addr option \<Rightarrow> App \<Rightarrow> outcome option" where
  "update_loop rcvTemp p s =
     (case p of
        None \<Rightarrow> Some (Ran s)
      | Some a \<Rightarrow> do {
          r \<leftarrow> update_node rcvTemp a s;
          (case r of
             Waits ev s \<Rightarrow> Some (Waits ev s)
           | Ran s \<Rightarrow> do {
               tp \<leftarrow> heap s a;
               update_loop rcvTemp (link tp) s }) })"

text \<open>The flag is read first; the frame is copied under the lock; the walk follows.\<close>

definition UpdateEquipmentList :: "App \<Rightarrow> outcome option" where
  "UpdateEquipmentList s = (let rcvOK = uart1RcvOK (uart s) in do {
     r \<leftarrow> take_sem (UartRcvTaskSem s) 0 s;
     and_then r (\<lambda>s. do {
       let rcvTemp = uart1RcvInfo s;
       s \<leftarrow> give_sem (UartRcvTaskSem s) s;
       p \<leftarrow> (case EquipmentList s of None \<Rightarrow> Some None | Some h \<Rightarrow> map_option link (heap s h));
       if rcvOK = 1 then update_loop rcvTemp p s else Some (Ran s) }) })"

section \<open>Measuring points in working order\<close>

definition point_ok :: "Sensor_Class \<Rightarrow> Config \<Rightarrow> Testpoint \<Rightarrow> bool" where
  "point_ok cls cf tp \<longleftrightarrow> config tp = Some cf \<and> class_of cf = Some cls
     \<and> p_setConfig tp = Some cls \<and> p_getShowInfo tp = Some cls \<and> p_getDataFromUart tp = Some cls
     \<and> p_ifAlarm tp = Some cls \<and> p_ifLiftAlarm tp = Some cls \<and> p_ifOutput tp = Some cls
     \<and> p_ifRecover tp = Some cls \<and> p_controlOutput tp = Some cls \<and> p_controlRecover tp = Some cls"

text \<open>The value a point must take from a frame.\<close>

definition measured :: "RcvStruct \<Rightarrow> Testpoint \<Rightarrow> i32" where
  "measured r tp = (case config tp of
     Some cf \<Rightarrow> (case read_port r (cfg_port cf) (collectData (upload tp)) of Some v \<Rightarrow> v | None \<Rightarrow> 0)
   | None \<Rightarrow> 0)"

definition refreshed :: "RcvStruct \<Rightarrow> Testpoint \<Rightarrow> Testpoint" where
  "refreshed r tp = set_data (measured r tp) tp"

lemma refreshed_simps [simp]:
  "link (refreshed r tp) = link tp" "EquipmentSem (refreshed r tp) = EquipmentSem tp"
  "config (refreshed r tp) = config tp" "collectData (upload (refreshed r tp)) = measured r tp"
  by (simp_all add: refreshed_def)

lemma call_refreshes:
  assumes "point_ok cls cf tp" and "wf_rcv r"
  shows "call_getDataFromUart (p_getDataFromUart tp) (Some r) (Some tp) = Some (Some (refreshed r tp))"
proof -
  have "config tp = Some cf" "class_of cf = Some cls" "p_getDataFromUart tp = Some cls"
    using assms(1) by (simp_all add: point_ok_def)
  then show ?thesis
    using node.refresh [of tp cf cls r] assms(2) by (auto simp: refreshed_def measured_def)
qed

text \<open>
  What the walk needs of the kernel: the upload queue works, and every semaphore it takes is
  free, so nobody else is inside.
\<close>

definition os_quiet :: "nat \<Rightarrow> nat set \<Rightarrow> OS \<Rightarrow> bool" where
  "os_quiet uq sems k \<longleftrightarrow> os_ok k \<and> OSIntNesting k = 0 \<and> OSLockNesting k = 0
     \<and> (\<exists>q. queue_at uq q k) \<and> uq \<notin> sems \<and> (\<forall>ev \<in> sems. sem_free ev k)"

lemma sem_pass:
  assumes k: "os_quiet uq sems k" and ev: "ev \<in> sems"
  shows "\<exists>k1. OSSemPend ev timeout k = Some (Done () OS_ERR_NONE, k1)
     \<and> (\<exists>err k2. OSQPost uq m k1 = Some (err, k2)
          \<and> (\<exists>err k3. OSSemPost ev k2 = Some (err, k3) \<and> os_quiet uq sems k3))
     \<and> (\<exists>err k3. OSSemPost ev k1 = Some (err, k3) \<and> os_quiet uq sems k3)"
proof -
  have ok: "os_ok k" and n: "OSIntNesting k = 0" "OSLockNesting k = 0" and nq: "uq \<notin> sems"
    and free: "\<And>e. e \<in> sems \<Longrightarrow> sem_free e k" using k by (auto simp: os_quiet_def)
  obtain q where q: "queue_at uq q k" using k by (auto simp: os_quiet_def)
  have ne: "uq \<noteq> ev" using nq ev by auto
  let ?k1 = "sem_taken ev k"
  have p: "OSSemPend ev timeout k = Some (Done () OS_ERR_NONE, ?k1)" and ok1: "os_ok ?k1"
    using OSSemPend_free [OF ok free [OF ev] n] by auto
  have "the_q uq ?k1 = the_q uq k" using ne q
    by (auto simp: queue_at_def the_q_def rd_def sem_taken_def)
  then have q1: "queue_at uq q ?k1" using q ne by (simp add: queue_at_def)
  have evl: "ev < length (OSEvents k)" using free [OF ev] by (simp add: sem_free_def)
  have gives: "\<exists>err k3. OSSemPost ev k2 = Some (err, k3) \<and> os_quiet uq sems k3"
    if k2: "os_ok k2" "queue_at uq q' k2" "\<forall>i. i \<noteq> uq \<longrightarrow> OSEvents k2 ! i = OSEvents ?k1 ! i"
      "length (OSEvents k2) = length (OSEvents k)" "OSIntNesting k2 = 0" "OSLockNesting k2 = 0" for k2 q'
  proof -
    let ?e = "OSEvents k ! ev" and ?k3 = "k2\<lparr>OSEvents := (OSEvents k2)[ev := OSEvents k ! ev]\<rparr>"
    have "OSEvents k2 ! ev = ?e\<lparr>OSEventCnt := OSEventCnt ?e - 1\<rparr>"
      using k2(3) ne evl by (simp add: sem_taken_def)
    then have post: "OSSemPost ev k2 = Some (OS_ERR_NONE, ?k3)" "os_ok ?k3"
      using OSSemPost_back [OF k2(1), of ev ?e] evl k2(4) free [OF ev] by (auto simp: sem_free_def)
    have "the_q uq ?k3 = the_q uq k2" using ne by (auto simp: the_q_def rd_def)
    then have "queue_at uq q' ?k3" using k2(2) ne by (simp add: queue_at_def)
    moreover have "sem_free e ?k3" if "e \<in> sems" for e
    proof (cases "e = ev")
      case True
      then show ?thesis using free [OF ev] evl k2(4) by (simp add: sem_free_def)
    next
      case False
      moreover have "e \<noteq> uq" using that nq by auto
      ultimately show ?thesis using free [OF that] k2(3,4) by (simp add: sem_free_def)
    qed
    ultimately have "os_quiet uq sems ?k3"
      using post(2) k2(5,6) nq by (auto simp: os_quiet_def)
    then show ?thesis using post(1) by blast
  qed
  obtain err k2 q' where post: "OSQPost uq m ?k1 = Some (err, k2)" "os_ok k2" "queue_at uq q' k2"
      "\<forall>i. i \<noteq> uq \<longrightarrow> OSEvents k2 ! i = OSEvents ?k1 ! i" "length (OSEvents k2) = length (OSEvents ?k1)"
      "OSIntNesting k2 = OSIntNesting ?k1" "OSLockNesting k2 = OSLockNesting ?k1"
    using OSQPost_frame [OF ok1 q1] by blast
  have "\<exists>err k3. OSSemPost ev k2 = Some (err, k3) \<and> os_quiet uq sems k3"
    by (rule gives [OF post(2,3,4)]) (use post n in simp_all)
  moreover have "\<exists>err k3. OSSemPost ev ?k1 = Some (err, k3) \<and> os_quiet uq sems k3"
    by (rule gives [OF ok1 q1]) (use n in simp_all)
  ultimately show ?thesis using p post(1) by blast
qed

section \<open>The walk\<close>

definition node_sem :: "heap \<Rightarrow> addr \<Rightarrow> nat option" where
  "node_sem h a = (case h a of Some tp \<Rightarrow> EquipmentSem tp | None \<Rightarrow> None)"

text \<open>Every node of a list is a configured point whose semaphore is among \<open>sems\<close>.\<close>

definition points_ok :: "heap \<Rightarrow> nat set \<Rightarrow> addr list \<Rightarrow> bool" where
  "points_ok h sems as \<longleftrightarrow>
     (\<forall>a \<in> set as. \<exists>tp cls cf ev. h a = Some tp \<and> point_ok cls cf tp \<and> EquipmentSem tp = Some ev \<and> ev \<in> sems)"

definition refresh_all :: "RcvStruct \<Rightarrow> addr list \<Rightarrow> heap \<Rightarrow> heap" where
  "refresh_all r as h = (\<lambda>a. if a \<in> set as then map_option (refreshed r) (h a) else h a)"

lemma update_node_ok:
  assumes k: "os_quiet uq sems (os s)" and uq: "UploadQueueHead s = Some uq"
    and tp: "heap s a = Some tp" "point_ok cls cf tp" "EquipmentSem tp = Some ev" "ev \<in> sems"
    and r: "wf_rcv r"
  shows "\<exists>k'. update_node r a s = Some (Ran (s\<lparr>heap := (heap s)(a \<mapsto> refreshed r tp), os := k'\<rparr>))
           \<and> os_quiet uq sems k'"
proof -
  obtain k1 err k2 err' k3 where "OSSemPend ev 0 (os s) = Some (Done () OS_ERR_NONE, k1)"
      "OSQPost uq (Some a) k1 = Some (err, k2)" "OSSemPost ev k2 = Some (err', k3)" "os_quiet uq sems k3"
    using sem_pass [OF k tp(4), of 0 "Some a"] by blast
  then show ?thesis
    using tp uq call_refreshes [OF tp(2) r]
    by (intro exI [of _ k3]) (simp add: update_node_def take_sem_def give_sem_def Let_def)
qed

lemma update_loop_ok:
  "chain (heap s) p as \<Longrightarrow> distinct as \<Longrightarrow> points_ok (heap s) sems as \<Longrightarrow> wf_rcv r \<Longrightarrow>
   os_quiet uq sems (os s) \<Longrightarrow> UploadQueueHead s = Some uq \<Longrightarrow>
     \<exists>k'. update_loop r p s = Some (Ran (s\<lparr>heap := refresh_all r as (heap s), os := k'\<rparr>))
        \<and> os_quiet uq sems k'"
proof (induction as arbitrary: p s)
  case Nil
  then show ?case
    by (subst update_loop.simps) (auto simp: refresh_all_def intro!: exI [of _ "os s"])
next
  case (Cons a as)
  from Cons.prems(1,3) obtain tp cls cf ev where tp: "p = Some a" "heap s a = Some tp"
      "point_ok cls cf tp" "EquipmentSem tp = Some ev" "ev \<in> sems" "chain (heap s) (link tp) as"
    by (auto simp: points_ok_def)
  define h1 where "h1 = (heap s)(a \<mapsto> refreshed r tp)"
  obtain k1 where k1: "update_node r a s = Some (Ran (s\<lparr>heap := h1, os := k1\<rparr>))"
      "os_quiet uq sems k1"
    using update_node_ok [OF Cons.prems(5,6) tp(2-5) Cons.prems(4)] unfolding h1_def by blast
  have na: "a \<notin> set as" and d: "distinct as" using Cons.prems(2) by auto
  have h: "h1 a = Some (refreshed r tp)" by (simp add: h1_def)
  have "chain h1 (link tp) as" using tp(6) na unfolding h1_def by simp
  moreover have "points_ok h1 sems as"
    using Cons.prems(3) na unfolding points_ok_def h1_def by (metis fun_upd_other list.set_intros(2))
  ultimately obtain k' where k': "update_loop r (link tp) (s\<lparr>heap := h1, os := k1\<rparr>)
      = Some (Ran (s\<lparr>heap := refresh_all r as h1, os := k'\<rparr>))" "os_quiet uq sems k'"
    using Cons.IH [of "s\<lparr>heap := h1, os := k1\<rparr>" "link tp"] d Cons.prems(4,6) k1(2) by auto
  have "refresh_all r as h1 = refresh_all r (a # as) (heap s)"
    using na tp(2) by (auto simp: refresh_all_def h1_def)
  then show ?case
    using tp(1) k1(1) h k' by (subst update_loop.simps) (auto intro!: exI [of _ k'])
qed

lemma UpdateEquipmentList_runs:
  assumes l: "EquipmentList s = Some head" "list_at (heap s) head as" "points_ok (heap s) sems as"
    and k: "os_quiet uq sems (os s)" "UploadQueueHead s = Some uq"
    and rs: "UartRcvTaskSem s = Some rsem" "rsem \<in> sems" and w: "wf_rcv (uart1RcvInfo s)"
  shows "\<exists>k'. UpdateEquipmentList s = Some (Ran (s\<lparr>os := k',
             heap := (if uart1RcvOK (uart s) = 1 then refresh_all (uart1RcvInfo s) as (heap s) else heap s)\<rparr>))
           \<and> os_quiet uq sems k'"
proof -
  obtain th where th: "heap s head = Some th" "chain (heap s) (link th) as" "distinct as"
    using l(2) by (auto simp: list_at_def)
  obtain k1 err k3 where p: "OSSemPend rsem 0 (os s) = Some (Done () OS_ERR_NONE, k1)"
      "OSSemPost rsem k1 = Some (err, k3)" "os_quiet uq sems k3"
    using sem_pass [OF k(1) rs(2)] by blast
  show ?thesis
  proof (cases "uart1RcvOK (uart s) = 1")
    case True
    obtain k' where "update_loop (uart1RcvInfo s) (link th) (s\<lparr>os := k3\<rparr>)
        = Some (Ran (s\<lparr>os := k3, heap := refresh_all (uart1RcvInfo s) as (heap s), os := k'\<rparr>))"
        "os_quiet uq sems k'"
      using update_loop_ok [of "s\<lparr>os := k3\<rparr>" "link th" as sems "uart1RcvInfo s" uq] th l(3) w p(3) k(2)
      by auto
    then show ?thesis
      using True p(1,2) rs(1) l(1) th(1)
      by (intro exI [of _ k']) (simp add: UpdateEquipmentList_def take_sem_def give_sem_def Let_def)
  next
    case False
    then show ?thesis
      using p rs(1) l(1) th(1)
      by (intro exI [of _ k3]) (simp add: UpdateEquipmentList_def take_sem_def give_sem_def Let_def)
  qed
qed

lemma UartRcv_Task_receive_runs:
  assumes ok: "uart1RcvOK (uart s) = 1" and k: "os_quiet uq sems (os s)"
    and rs: "UartRcvTaskSem s = Some rsem" "rsem \<in> sems"
    and g: "Uart1_Get_Struct junk (uart s) = Some (r, u)"
  shows "\<exists>k'. UartRcv_Task_receive junk s
           = Some (Ran (s\<lparr>os := k', uart1RcvInfo := r, uart := u, Uart1LostCnt := 0\<rparr>)) \<and> os_quiet uq sems k'"
proof -
  obtain k1 err k3 where "OSSemPend rsem 1000 (os s) = Some (Done () OS_ERR_NONE, k1)"
      "OSSemPost rsem k1 = Some (err, k3)" "os_quiet uq sems k3"
    using sem_pass [OF k rs(2)] by blast
  then show ?thesis using ok rs(1) g
    by (intro exI [of _ k3]) (simp add: UartRcv_Task_receive_def take_sem_def give_sem_def)
qed

section \<open>A concrete application state\<close>

definition ex_sem :: OS_EVENT where
  "ex_sem = \<lparr>OSEventType = 3, OSEventPtr = Null, OSEventCnt = 1, OSEventGrp = 0, OSEventTbl = replicate 8 0\<rparr>"

definition ex_os_sems :: OS where
  "ex_os_sems = ex_os\<lparr>OSEvents := OSEvents ex_os @ [ex_sem, ex_sem]\<rparr>"

text \<open>A head at 100 and one analogue point at 200 behind it.\<close>

definition ex_app :: App where
  "ex_app = \<lparr>heap = [100 \<mapsto> ex_point\<lparr>link := Some 200\<rparr>, 200 \<mapsto> ex_point\<lparr>EquipmentSem := Some 2\<rparr>],
     EquipmentList = Some 100, uart1RcvInfo = ex_rcv,
     uart1SendInfo = \<lparr>clearFreCount = 0, SEL = 0, outPut = 0\<rparr>, Uart1LostCnt = 0, uart = ex_uart,
     os = ex_os_sems, UartRcvTaskSem = Some 3, UartSendTaskSem = Some 2, UploadQueueHead = Some 1\<rparr>"

lemma ex_app_quiet: "os_quiet 1 {2, 3} (os ex_app)"
proof -
  have "event_ok f ex_sem" for f by (simp add: event_ok_def ex_sem_def bits_empty)
  then have "os_ok ex_os_sems" using ex_os_ok by (auto simp: os_ok_def ex_os_sems_def)
  moreover have "the_q 1 ex_os_sems = the_q 1 ex_os"
    by (simp add: the_q_def ex_os_sems_def rd_def nth_append)
  then have "queue_at 1 ex_ring ex_os_sems"
    using ex_queue_at [of 1] by (simp add: queue_at_def ex_os_sems_def nth_append)
  moreover have "sem_free 2 ex_os_sems" "sem_free 3 ex_os_sems"
    by (simp_all add: sem_free_def ex_os_sems_def nth_append ex_sem_def bits_empty OS_EVENT_TYPE_SEM_def)
  ultimately show ?thesis by (auto simp: os_quiet_def ex_app_def) (simp_all add: ex_os_sems_def)
qed

lemma ex_app_list:
  "EquipmentList ex_app = Some 100" "list_at (heap ex_app) 100 [200]" "points_ok (heap ex_app) {2, 3} [200]"
  by (auto simp: ex_app_def list_at_def points_ok_def point_ok_def ex_point_def)

lemma ex_app_simps [simp]:
  "UartRcvTaskSem ex_app = Some 3" "UploadQueueHead ex_app = Some 1" "uart1RcvInfo ex_app = ex_rcv"
  "uart ex_app = ex_uart"
  by (simp_all add: ex_app_def)

section \<open>Properties\<close>

text \<open>C19: When the received-frame flag is set, updating the list sets the value of every measuring point to
  the channel its port type names in \<open>uart1RcvInfo\<close> and changes nothing else in the store;
  otherwise it changes no point. Every semaphore taken is given back, and the upload queue and
  the kernel's lists stay consistent.\<close>

theorem UpdateEquipmentList_refreshes:
  assumes "EquipmentList s = Some head" and "list_at (heap s) head as" and "points_ok (heap s) sems as"
    and "os_quiet uq sems (os s)" and "UploadQueueHead s = Some uq"
    and "UartRcvTaskSem s = Some rsem" and "rsem \<in> sems" and "wf_rcv (uart1RcvInfo s)"
  shows "\<exists>k'. UpdateEquipmentList s = Some (Ran (s\<lparr>os := k',
             heap := (if uart1RcvOK (uart s) = 1 then refresh_all (uart1RcvInfo s) as (heap s) else heap s)\<rparr>))
           \<and> os_quiet uq sems k'"
  by (rule UpdateEquipmentList_runs [OF assms])

theorem UpdateEquipmentList_refreshes_witness:
  "\<exists>k'. UpdateEquipmentList (ex_app\<lparr>uart := ex_uart\<lparr>uart1RcvOK := 1\<rparr>\<rparr>)
     = Some (Ran (ex_app\<lparr>uart := ex_uart\<lparr>uart1RcvOK := 1\<rparr>, os := k', heap := refresh_all ex_rcv [200] (heap ex_app)\<rparr>))
     \<and> os_quiet 1 {2, 3} k'"
  using UpdateEquipmentList_refreshes [of "ex_app\<lparr>uart := ex_uart\<lparr>uart1RcvOK := 1\<rparr>\<rparr>" 100 "[200]" "{2, 3}" 1 3]
    ex_app_list ex_app_quiet ex_rcv_wf by simp

text \<open>C29: The flag that tells \<open>UpdateEquipmentList\<close> about a frame is the one \<open>UartRcv_Task\<close> clears when it
  takes the frame. So a frame \<open>r\<close> that arrives is never distributed as long as no further frame
  arrives: before the UART task took it, an update distributes the previous contents of
  \<open>uart1RcvInfo\<close>; after that, an update changes no measuring point.\<close>

theorem frame_not_distributed:
  assumes l: "EquipmentList s = Some head" "list_at (heap s) head as" "points_ok (heap s) sems as"
    and k: "os_quiet uq sems (os s)" "UploadQueueHead s = Some uq"
    and rs: "UartRcvTaskSem s = Some rsem" "rsem \<in> sems"
    and u: "idle (uart s)" "length (dataToRcv (uart s)) = 134"
    and r: "wf_rcv r" "length gap = 2" and old: "wf_rcv (uart1RcvInfo s)"
  shows "\<exists>u1 k1 s2 k2. run uart1_body (map rx (0x5A # 0xA5 # board_frame gap r)) (uart s) = Some u1
     \<and> UpdateEquipmentList (s\<lparr>uart := u1\<rparr>)
         = Some (Ran (s\<lparr>uart := u1, os := k1, heap := refresh_all (uart1RcvInfo s) as (heap s)\<rparr>))
     \<and> UartRcv_Task_receive junk (s\<lparr>uart := u1\<rparr>) = Some (Ran s2) \<and> uart1RcvInfo s2 = r \<and> heap s2 = heap s
     \<and> UpdateEquipmentList s2 = Some (Ran (s2\<lparr>os := k2\<rparr>))"
proof -
  let ?f = "board_frame gap r"
  let ?u1 = "(uart s)\<lparr>dataToRcv := ?f, uart1RcvOK := 1, readyToRcv := 0, uart1RcvStart := 0, uart1RcvIndex := 0\<rparr>"
  have run: "run uart1_body (map rx (0x5A # 0xA5 # ?f)) (uart s) = Some ?u1"
    using receive_frame [OF u, of ?f] length_board_frame [OF r] board_frame_trailer [OF r]
    by (simp only: run_body_rx) simp
  obtain k1 where 1: "UpdateEquipmentList (s\<lparr>uart := ?u1\<rparr>)
      = Some (Ran (s\<lparr>uart := ?u1, os := k1, heap := refresh_all (uart1RcvInfo s) as (heap s)\<rparr>))"
    using UpdateEquipmentList_runs [of "s\<lparr>uart := ?u1\<rparr>" head as sems uq rsem] l k rs old by auto
  have g: "Uart1_Get_Struct junk ?u1 = Some (r, ?u1\<lparr>uart1RcvOK := 0\<rparr>)"
    by (rule Uart1_Get_Struct_frame [OF r]) simp_all
  obtain k' where 2: "UartRcv_Task_receive junk (s\<lparr>uart := ?u1\<rparr>) = Some (Ran (s\<lparr>os := k', uart1RcvInfo := r,
      uart := ?u1\<lparr>uart1RcvOK := 0\<rparr>, Uart1LostCnt := 0\<rparr>))" "os_quiet uq sems k'"
    using UartRcv_Task_receive_runs [of "s\<lparr>uart := ?u1\<rparr>" uq sems rsem junk] k(1) rs g by auto
  let ?s2 = "s\<lparr>os := k', uart1RcvInfo := r, uart := ?u1\<lparr>uart1RcvOK := 0\<rparr>, Uart1LostCnt := 0\<rparr>"
  obtain k2 where 3: "UpdateEquipmentList ?s2 = Some (Ran (?s2\<lparr>os := k2\<rparr>))"
    using UpdateEquipmentList_runs [of ?s2 head as sems uq rsem] l 2(2) k(2) rs r(1) by auto
  show ?thesis
    by (intro exI conjI, rule run, rule 1, rule 2(1), simp, simp, rule 3)
qed

theorem frame_not_distributed_witness:
  "\<exists>u1 k1 s2 k2. run uart1_body (map rx (0x5A # 0xA5 # board_frame [0, 0] ex_rcv)) ex_uart = Some u1
     \<and> UpdateEquipmentList (ex_app\<lparr>uart := u1\<rparr>)
         = Some (Ran (ex_app\<lparr>uart := u1, os := k1, heap := refresh_all ex_rcv [200] (heap ex_app)\<rparr>))
     \<and> UartRcv_Task_receive ex_rcv (ex_app\<lparr>uart := u1\<rparr>) = Some (Ran s2) \<and> uart1RcvInfo s2 = ex_rcv
     \<and> heap s2 = heap ex_app \<and> UpdateEquipmentList s2 = Some (Ran (s2\<lparr>os := k2\<rparr>))"
proof -
  have "length (dataToRcv ex_uart) = 134" by (simp add: ex_uart_def)
  then show ?thesis
    using frame_not_distributed [of ex_app 100 "[200]" "{2, 3}" 1 3 ex_rcv "[0, 0]" ex_rcv]
      ex_app_list ex_app_quiet ex_rcv_wf ex_uart_ok(2) by (simp only: ex_app_simps) simp
qed

end
