(* ===== verification/Com_Rs485.thy ===== *)
theory Com_Rs485
  imports Os_Core
begin

text \<open>
  The four RS485 ports of \<open>BoardSupport/com_uart.c\<close>: the interrupt handlers of UART 0, 2, 3
  and 4, sending a request frame and reading a reply frame. The four handlers, and the four
  branches of the two services, are copies of each other up to the port they name, so each is
  the generic definition at that port.

  A frame is \<open>S\<close>, a header, data, a constant check byte and \<open>E\<close>. Bytes written with
  \<open>UART_SendByte\<close> are appended to \<open>sent\<close>; \<open>rcvOK\<close> is the flag the C code keeps in
  \<open>uart0RcvOK\<close> to \<open>uart4RcvOK\<close>.
\<close>

section \<open>State\<close>

datatype RS485_UART_NUM = RS485_UART0 | RS485_UART2 | RS485_UART3 | RS485_UART4

instantiation RS485_UART_NUM :: linorder
begin

fun uart_index :: "RS485_UART_NUM \<Rightarrow> nat" where
  "uart_index RS485_UART0 = 0"
| "uart_index RS485_UART2 = 1"
| "uart_index RS485_UART3 = 2"
| "uart_index RS485_UART4 = 3"

definition less_eq_RS485_UART_NUM :: "RS485_UART_NUM \<Rightarrow> RS485_UART_NUM \<Rightarrow> bool" where
  "less_eq_RS485_UART_NUM a b \<longleftrightarrow> uart_index a \<le> uart_index b"

definition less_RS485_UART_NUM :: "RS485_UART_NUM \<Rightarrow> RS485_UART_NUM \<Rightarrow> bool" where
  "less_RS485_UART_NUM a b \<longleftrightarrow> uart_index a < uart_index b"

instance
proof
  fix a b c :: RS485_UART_NUM
  show "a < b \<longleftrightarrow> a \<le> b \<and> \<not> b \<le> a"
    by (auto simp: less_eq_RS485_UART_NUM_def less_RS485_UART_NUM_def)
  show "a \<le> a" by (simp add: less_eq_RS485_UART_NUM_def)
  show "a \<le> b \<Longrightarrow> b \<le> c \<Longrightarrow> a \<le> c" by (simp add: less_eq_RS485_UART_NUM_def)
  show "a \<le> b \<Longrightarrow> b \<le> a \<Longrightarrow> a = b"
    by (cases a; cases b) (simp_all add: less_eq_RS485_UART_NUM_def)
  show "a \<le> b \<or> b \<le> a" by (auto simp: less_eq_RS485_UART_NUM_def)
qed

end

record RS485TMP =
  Send :: "u8 list"
  Rcv :: "u8 list"
  sendIndex :: u8
  rcvIndex :: u8
  sendOK :: u8
  readyToRcv :: u8
  sendLen :: u8
  rcvOK :: u8
  sent :: "u8 list"
  threOn :: bool

record UserRS485Send =
  s_address :: u8
  s_ctrl :: u8
  s_len :: u8
  s_data :: "u8 list"

record UserRS485Rcv =
  r_ctrl :: u8
  r_len :: u8
  r_data :: "u8 list"

text \<open>The ports, each with its own state.\<close>

type_synonym ports = "RS485_UART_NUM \<Rightarrow> RS485TMP"

definition S_byte :: u8 where "S_byte = 0x53"
definition E_byte :: u8 where "E_byte = 0x45"
definition check_byte :: u8 where "check_byte = (S_byte + E_byte) AND 0xFF"

lemmas rs485_bytes = S_byte_def E_byte_def check_byte_def

definition LPC_Uart_Init_rs485 :: "ports \<Rightarrow> ports" where
  "LPC_Uart_Init_rs485 s =
     (\<lambda>n. (s n)\<lparr>rcvIndex := 0, sendIndex := 0, sendOK := 1, readyToRcv := 0\<rparr>)"

section \<open>Interrupt handler\<close>

definition rs485_receive :: "u8 \<Rightarrow> RS485TMP \<Rightarrow> RS485TMP option" where
  "rs485_receive byte p =
     (if readyToRcv p = 1 then do {
        buf \<leftarrow> wr (Rcv p) (unat (rcvIndex p)) byte;
        let p = p\<lparr>Rcv := buf, rcvIndex := rcvIndex p + 1\<rparr>;
        if byte \<noteq> E_byte then Some p
        else if rcvIndex p \<ge> 5 then do {
          c \<leftarrow> rd (Rcv p) (unat (rcvIndex p) - 2);
          Some (p\<lparr>rcvOK := (if c = check_byte then 1 else 0), readyToRcv := 0, rcvIndex := 0\<rparr>) }
        else Some p }
      else if byte = S_byte \<and> readyToRcv p = 0 then Some (p\<lparr>readyToRcv := 1\<rparr>)
      else Some p)"

text \<open>The comparison \<open>sendIndex >= sendLen-1\<close> is made in \<open>int\<close>, so it does not wrap around.\<close>

definition rs485_transmit :: "RS485TMP \<Rightarrow> RS485TMP option" where
  "rs485_transmit p = do {
     let p = p\<lparr>sendIndex := sendIndex p + 1\<rparr>;
     b \<leftarrow> rd (Send p) (unat (sendIndex p));
     let p = p\<lparr>sent := sent p @ [b]\<rparr>;
     Some (if unat (sendIndex p) + 1 \<ge> unat (sendLen p) \<and> b = E_byte
           then p\<lparr>threOn := False, sendOK := 1, sendIndex := 0\<rparr> else p) }"

definition rs485_body :: "u32 \<times> u8 \<Rightarrow> RS485TMP \<Rightarrow> RS485TMP option" where
  "rs485_body i p =
     (let intsrc = fst i AND 0x0F in
      if intsrc = 6 then Some p
      else if intsrc = 4 \<or> intsrc = 12 then rs485_receive (snd i) p
      else if intsrc = 2 then rs485_transmit p
      else Some p)"

definition rs485_handler :: "RS485_UART_NUM \<Rightarrow> u32 \<times> u8 \<Rightarrow> ports \<times> OS \<Rightarrow> (ports \<times> OS) option" where
  "rs485_handler n i s = do {
     let os = OSIntEnter (snd s);
     p \<leftarrow> rs485_body i (fst s n);
     os \<leftarrow> OSIntExit os;
     Some ((fst s)(n := p), os) }"

definition UART0_IRQHandler :: "u32 \<times> u8 \<Rightarrow> ports \<times> OS \<Rightarrow> (ports \<times> OS) option" where
  "UART0_IRQHandler = rs485_handler RS485_UART0"

definition UART2_IRQHandler :: "u32 \<times> u8 \<Rightarrow> ports \<times> OS \<Rightarrow> (ports \<times> OS) option" where
  "UART2_IRQHandler = rs485_handler RS485_UART2"

definition UART3_IRQHandler :: "u32 \<times> u8 \<Rightarrow> ports \<times> OS \<Rightarrow> (ports \<times> OS) option" where
  "UART3_IRQHandler = rs485_handler RS485_UART3"

definition UART4_IRQHandler :: "u32 \<times> u8 \<Rightarrow> ports \<times> OS \<Rightarrow> (ports \<times> OS) option" where
  "UART4_IRQHandler = rs485_handler RS485_UART4"

section \<open>Sending a request\<close>

text \<open>
  The loop copies \<open>data[i-1]\<close> to \<open>Send[3+i]\<close> for \<open>i\<close> from 1 to \<open>len\<close>; both accesses are
  checked by the model only. The loop counter is a byte; before it could wrap around, the
  first access outside \<open>data\<close> has ended the run.
\<close>

fun copy_data :: "u8 list \<Rightarrow> nat list \<Rightarrow> u8 list \<Rightarrow> u8 list option" where
  "copy_data data [] buf = Some buf"
| "copy_data data (i # is) buf = do {
     b \<leftarrow> rd data (i - 1);
     buf \<leftarrow> wr buf (3 + i) b;
     copy_data data is buf }"

definition RS485Send_Struct :: "RS485_UART_NUM \<Rightarrow> UserRS485Send \<Rightarrow> ports \<Rightarrow> ports option" where
  "RS485Send_Struct n req s =
     (if sendOK (s n) = 0 then Some s
      else do {
        let len = unat (s_len req);
        b1 \<leftarrow> wr_seq (Send (s n)) 0 [S_byte, s_address req, s_ctrl req, s_len req];
        b2 \<leftarrow> copy_data (s_data req) [1..<Suc len] b1;
        b3 \<leftarrow> wr b2 (3 + len + 1) check_byte;
        b4 \<leftarrow> wr b3 (3 + len + 2) E_byte;
        c \<leftarrow> rd b4 0;
        Some (s(n := (s n)\<lparr>Send := b4, sendLen := s_len req + 6, sent := sent (s n) @ [c],
                           threOn := True, sendOK := 0\<rparr>)) })"

section \<open>Reading a reply\<close>

text \<open>
  The loop copies as many bytes as the received length byte says. Without a frame the function
  returns its uninitialised local, the parameter \<open>junk\<close>; \<open>data\<close> has room for ten bytes.
\<close>

fun read_data :: "nat list \<Rightarrow> u8 list \<Rightarrow> u8 list \<Rightarrow> u8 list option" where
  "read_data [] rcv data = Some data"
| "read_data (i # is) rcv data = do {
     b \<leftarrow> rd rcv (1 + i + 1);
     data \<leftarrow> wr data i b;
     read_data is rcv data }"

definition RS485_Get_Struct :: "UserRS485Rcv \<Rightarrow> RS485_UART_NUM \<Rightarrow> ports \<Rightarrow> (UserRS485Rcv \<times> ports) option" where
  "RS485_Get_Struct junk n s =
     (if rcvOK (s n) = 0 then Some (junk, s)
      else do {
        c \<leftarrow> rd (Rcv (s n)) 0;
        l \<leftarrow> rd (Rcv (s n)) 1;
        d \<leftarrow> read_data [0..<unat l] (Rcv (s n)) (r_data junk);
        Some (\<lparr>r_ctrl = c, r_len = l, r_data = d\<rparr>, s(n := (s n)\<lparr>rcvOK := 0\<rparr>)) })"

section \<open>Baud rate\<close>

text \<open>
  \<open>RS485_Baudrate_Config\<close> passes a configuration to the UART driver of the port; \<open>uart_init\<close> is
  that driver call. The remaining settings are 8 data bits, 1 stop bit, odd parity.
\<close>

record UART_CFG_Type =
  Baud_rate :: u32
  Databits :: nat
  Stopbits :: nat
  OddParity :: bool

definition RS485_Baudrate_Config ::
    "(RS485_UART_NUM \<Rightarrow> UART_CFG_Type \<Rightarrow> 'h \<Rightarrow> 'h) \<Rightarrow> RS485_UART_NUM \<Rightarrow> u16 \<Rightarrow> 'h \<Rightarrow> 'h" where
  "RS485_Baudrate_Config uart_init n baud =
     uart_init n \<lparr>Baud_rate = ucast baud, Databits = 8, Stopbits = 1, OddParity = True\<rparr>"

section \<open>Transmission\<close>

lemma copy_data_eq:
  "length pre = 4 + k \<Longrightarrow> k + n \<le> length data \<Longrightarrow> 4 + k + n \<le> length (pre @ post) \<Longrightarrow>
     copy_data data [Suc k..<Suc (k + n)] (pre @ post)
       = Some (pre @ take n (drop k data) @ drop n post)"
proof (induction n arbitrary: k pre post)
  case 0
  then show ?case by simp
next
  case (Suc n)
  obtain x xs where post: "post = x # xs" using Suc.prems by (cases post) auto
  have d: "drop k data = data ! k # drop (Suc k) data" using Suc.prems(2) by (simp add: Cons_nth_drop_Suc)
  have "copy_data data [Suc (Suc k)..<Suc (Suc k + n)] ((pre @ [data ! k]) @ xs)
      = Some ((pre @ [data ! k]) @ take n (drop (Suc k) data) @ drop n xs)"
    using Suc.prems post by (intro Suc.IH) auto
  moreover have "[Suc k..<Suc (k + Suc n)] = Suc k # [Suc (Suc k)..<Suc (Suc k + n)]"
    by (simp add: upt_conv_Cons)
  moreover have "wr (pre @ x # xs) (3 + Suc k) (data ! k) = Some ((pre @ [data ! k]) @ xs)"
    using Suc.prems(1) by (simp add: list_update_append)
  moreover have "rd data (Suc k - 1) = Some (data ! k)" using Suc.prems(2) by simp
  ultimately show ?case using d post by (simp del: rd_eq_Some wr_eq_Some upt_Suc)
qed

text \<open>The bytes of a request on the wire.\<close>

definition request_frame :: "UserRS485Send \<Rightarrow> u8 list" where
  "request_frame req = [S_byte, s_address req, s_ctrl req, s_len req]
     @ take (unat (s_len req)) (s_data req) @ [check_byte, E_byte]"

lemma two_elems: "2 \<le> length xs \<Longrightarrow> \<exists>x y zs. xs = x # y # zs"
  by (cases xs; cases "tl xs") auto

lemma RS485Send_Struct_frame:
  assumes "sendOK (s n) \<noteq> 0" and "length (Send (s n)) = 10"
    and len: "unat (s_len req) \<le> length (s_data req)" "unat (s_len req) \<le> 4"
  shows "RS485Send_Struct n req s = Some (s(n := (s n)\<lparr>
           Send := request_frame req @ drop (unat (s_len req) + 6) (Send (s n)),
           sendLen := s_len req + 6, sent := sent (s n) @ [S_byte], threOn := True, sendOK := 0\<rparr>))"
proof -
  let ?l = "unat (s_len req)" and ?h = "[S_byte, s_address req, s_ctrl req, s_len req]"
  let ?b = "drop 4 (Send (s n))"
  have h: "wr_seq (Send (s n)) 0 ?h = Some (?h @ ?b)" using assms(2) by (subst wr_seq_eq) (simp_all add: eval_nat_numeral)
  have c: "copy_data (s_data req) [1..<Suc ?l] (?h @ ?b) = Some (?h @ take ?l (s_data req) @ drop ?l ?b)"
    using copy_data_eq [of ?h 0 ?l "s_data req" ?b] len assms(2) by simp
  have "2 \<le> length (drop ?l ?b)" using len(2) assms(2) by (simp add: le_diff_conv2)
  then obtain x y zs where d: "drop ?l ?b = x # y # zs" using two_elems by blast
  have zs: "zs = drop (?l + 6) (Send (s n))"
    using arg_cong [OF d, of "drop 2"] by (simp add: ac_simps)
  let ?t = "?h @ take ?l (s_data req)"
  have t: "length ?t = 4 + ?l" using len(1) by simp
  have "wr (?t @ x # y # zs) (3 + ?l + 1) check_byte = Some (?t @ check_byte # y # zs)"
    using t by (simp add: list_update_append)
  moreover have "wr (?t @ check_byte # y # zs) (3 + ?l + 2) E_byte = Some (?t @ check_byte # E_byte # zs)"
    using t by (simp add: list_update_append numeral_2_eq_2)
  ultimately show ?thesis
    using assms(1) h c d zs
    by (simp add: RS485Send_Struct_def request_frame_def Let_def rd_def del: wr_eq_Some upt_Suc)
qed

lemma transmit_steps:
  assumes f: "length f = unat l + 6" "f ! (unat l + 5) = E_byte" "unat l \<le> 4"
    and p: "Send p = f @ rest" "sendIndex p = of_nat i" "sendLen p = l + 6" "i + k < unat l + 5"
      "sent p = t @ take (Suc i) f"
  shows "run rs485_body (replicate k (2, 0)) p
     = Some (p\<lparr>sendIndex := of_nat (i + k), sent := t @ take (Suc (i + k)) f\<rparr>)"
  using p
proof (induction k arbitrary: i p)
  case 0
  then show ?case by simp
next
  case (Suc k)
  have inc: "of_nat i + 1 = (of_nat (Suc i) :: u8)" by (simp add: add.commute)
  have uS: "unat (of_nat (Suc i) :: u8) = Suc i"
    using Suc.prems(4) f(3) by (simp add: unat_of_nat del: of_nat_Suc)
  have s_last: "unat (l + 6) = unat l + 6"
    using f(3) by (simp add: unat_word_ariths)
  let ?q = "p\<lparr>sendIndex := of_nat (Suc i), sent := t @ take (Suc (Suc i)) f\<rparr>"
  have i: "Suc i < length f" "Suc i < length (f @ rest)" using Suc.prems(4) f(1) by auto
  then have "rs485_body (2, 0) p = Some ?q"
    using Suc.prems f(1)
    by (simp add: rs485_body_def rs485_transmit_def Let_def rd_def inc uS s_last nth_append
        take_Suc_conv_app_nth del: of_nat_Suc)
  moreover have "run rs485_body (replicate k (2, 0)) ?q
      = Some (?q\<lparr>sendIndex := of_nat (Suc i + k), sent := t @ take (Suc (Suc i + k)) f\<rparr>)"
    using Suc.prems by (intro Suc.IH) simp_all
  ultimately show ?case by simp
qed

lemma transmit_all:
  assumes f: "length f = unat l + 6" "f ! (unat l + 5) = E_byte" "unat l \<le> 4"
    and p: "Send p = f @ rest" "sendIndex p = 0" "sendLen p = l + 6" "sent p = t @ [f ! 0]"
  shows "run rs485_body (replicate (unat l + 5) (2, 0)) p
     = Some (p\<lparr>sendIndex := 0, sent := t @ f, threOn := False, sendOK := 1\<rparr>)"
proof -
  let ?k = "unat l + 4"
  have "take (Suc 0) f = [f ! 0]" using f(1) by (simp add: take_Suc_conv_app_nth)
  then have "run rs485_body (replicate ?k (2, 0)) p
      = Some (p\<lparr>sendIndex := of_nat ?k, sent := t @ take (Suc ?k) f\<rparr>)"
    using transmit_steps [OF f, of p rest 0 ?k t] p by simp
  moreover have "replicate (unat l + 5) (2, 0) = replicate ?k (2, 0) @ [(2 :: u32, 0 :: u8)]"
    using replicate_append_same [of ?k "(2 :: u32, 0 :: u8)"] by (simp add: eval_nat_numeral)
  moreover have "rs485_body (2, 0) (p\<lparr>sendIndex := of_nat ?k, sent := t @ take (Suc ?k) f\<rparr>)
      = Some (p\<lparr>sendIndex := 0, sent := t @ f, threOn := False, sendOK := 1\<rparr>)"
  proof -
    have inc: "of_nat ?k + 1 = (of_nat (unat l + 5) :: u8)" by (simp add: add.commute)
    have u: "unat (of_nat (unat l + 5) :: u8) = unat l + 5"
      using f(3) by (simp only: unat_of_nat) simp
    have ul: "unat (l + 6) = unat l + 6" using f(3) by (simp add: unat_word_ariths)
    have "t @ take (Suc ?k) f @ [f ! (unat l + 5)] = t @ f"
      using f(1) take_Suc_conv_app_nth [of "unat l + 5" f] by (simp add: eval_nat_numeral)
    then show ?thesis
      using p f by (simp add: rs485_body_def rs485_transmit_def Let_def rd_def inc u ul nth_append del: of_nat_add)
  qed
  ultimately show ?thesis by (simp only: run_append_Some) simp
qed

section \<open>Reception\<close>

lemma receive_body:
  assumes "readyToRcv p = 1" and "rcvIndex p = of_nat i" and "length (Rcv p) = 15"
    and "i + length bs \<le> 15" and "\<forall>j < length bs. 4 \<le> i + j \<longrightarrow> bs ! j \<noteq> E_byte"
  shows "run rs485_receive bs p = Some (p\<lparr>
    Rcv := take i (Rcv p) @ bs @ drop (i + length bs) (Rcv p), rcvIndex := of_nat (i + length bs)\<rparr>)"
  using assms
proof (induction bs arbitrary: i p)
  case Nil
  then show ?case by simp
next
  case (Cons b bs)
  let ?q = "p\<lparr>Rcv := (Rcv p)[i := b], rcvIndex := of_nat (Suc i)\<rparr>"
  have u: "unat (of_nat i :: u8) = i" "unat (of_nat (Suc i) :: u8) = Suc i"
    using Cons.prems(4) by (simp_all add: unat_of_nat del: of_nat_Suc)
  have inc: "of_nat i + 1 = (of_nat (Suc i) :: u8)" by (simp add: add.commute)
  have five: "(5 :: u8) \<le> of_nat (Suc i) \<longleftrightarrow> 4 \<le> i" by (simp only: word_le_nat_alt u) simp
  have "b \<noteq> E_byte \<or> i < 4" using Cons.prems(5) [rule_format, of 0] by (cases "4 \<le> i") auto
  then have "rs485_receive b p = Some ?q"
    using Cons.prems u(1) five
    by (auto simp: rs485_receive_def wr_in Let_def inc simp del: wr_eq_Some of_nat_Suc)
  moreover have "run rs485_receive bs ?q = Some (?q\<lparr>Rcv := take (Suc i) (Rcv ?q) @ bs
      @ drop (Suc i + length bs) (Rcv ?q), rcvIndex := of_nat (Suc i + length bs)\<rparr>)"
  proof (intro Cons.IH)
    show "\<forall>j<length bs. 4 \<le> Suc i + j \<longrightarrow> bs ! j \<noteq> E_byte"
      using Cons.prems(5) by (auto dest: spec [where x = "Suc _"])
  qed (use Cons.prems in simp_all)
  ultimately show ?case using Cons.prems by (simp add: take_Suc_conv_app_nth)
qed

text \<open>A reply: the header bytes, the data, the check byte and the end byte, after \<open>S\<close>.\<close>

definition reply_frame :: "UserRS485Rcv \<Rightarrow> u8 list" where
  "reply_frame r = [r_ctrl r, r_len r] @ r_data r @ [check_byte, E_byte]"

text \<open>A byte equal to the end marker ends the frame early from the third data byte on.\<close>

definition no_early_end :: "UserRS485Rcv \<Rightarrow> bool" where
  "no_early_end r \<longleftrightarrow> E_byte \<notin> set (drop 2 (r_data r))"

lemma receive_reply:
  assumes p: "readyToRcv p = 0" "rcvIndex p = 0" "length (Rcv p) = 15"
    and r: "length (r_data r) \<le> 10" "r_data r \<noteq> []" "no_early_end r"
  shows "run rs485_receive (S_byte # reply_frame r) p = Some (p\<lparr>
    Rcv := reply_frame r @ drop (length (reply_frame r)) (Rcv p), rcvOK := 1, readyToRcv := 0, rcvIndex := 0\<rparr>)"
proof -
  define h where "h = [r_ctrl r, r_len r] @ r_data r @ [check_byte]"
  define n where "n = length (r_data r) + 3"
  let ?p = "p\<lparr>readyToRcv := 1\<rparr>"
  have s: "rs485_receive S_byte p = Some ?p" using p by (simp add: rs485_receive_def)
  have len: "length h = n" by (simp add: h_def n_def)
  have ne: "\<forall>j < length h. 4 \<le> 0 + j \<longrightarrow> h ! j \<noteq> E_byte"
  proof (intro allI impI)
    fix j assume j: "j < length h" "4 \<le> 0 + j"
    show "h ! j \<noteq> E_byte"
    proof (cases "j = n - 1")
      case True
      then show ?thesis by (simp add: h_def n_def nth_append rs485_bytes)
    next
      case False
      obtain m where "j = 4 + m" using j(2) by (auto simp: le_iff_add)
      then have m: "j = Suc (Suc (Suc (Suc m)))" by simp
      then have "Suc (Suc m) < length (r_data r)" using j(1) False len by (simp add: n_def)
      then have "h ! j = drop 2 (r_data r) ! m" "m < length (drop 2 (r_data r))"
        by (simp_all add: m h_def nth_append)
      then show ?thesis using r(3) by (metis no_early_end_def nth_mem)
    qed
  qed
  have n15: "n < 15" and np: "0 < n" using r(1) by (simp_all add: n_def)
  have b: "run rs485_receive h ?p = Some (?p\<lparr>Rcv := h @ drop n (Rcv p), rcvIndex := of_nat n\<rparr>)"
    using receive_body [of ?p 0 h] p n15 ne len by simp
  have u: "unat (of_nat n :: u8) = n" "unat (of_nat (Suc n) :: u8) = Suc n"
    using r(1) by (simp_all add: n_def unat_of_nat del: of_nat_Suc of_nat_add)
  have inc: "of_nat n + 1 = (of_nat (Suc n) :: u8)" by (simp add: add.commute)
  have five: "(5 :: u8) \<le> of_nat (Suc n)"
    using r(2) by (simp only: word_le_nat_alt u) (cases "r_data r"; simp add: n_def)
  have "h ! (Suc n - 2) = check_byte" by (simp add: h_def n_def nth_append)
  moreover have "drop n (Rcv p) \<noteq> []" using p(3) n15 by simp
  ultimately obtain x xs where d: "drop n (Rcv p) = x # xs" and c: "h ! (Suc n - 2) = check_byte" by (cases "drop n (Rcv p)") auto
  then have xs: "xs = drop (Suc n) (Rcv p)" by (metis drop_Suc list.sel(3) tl_drop)
  have "rs485_receive E_byte (?p\<lparr>Rcv := h @ drop n (Rcv p), rcvIndex := of_nat n\<rparr>)
      = Some (?p\<lparr>Rcv := h @ E_byte # xs, rcvOK := 1, readyToRcv := 0, rcvIndex := 0\<rparr>)"
    using u five c len np by (simp add: rs485_receive_def wr_def rd_def Let_def inc d list_update_append nth_append
        del: of_nat_Suc of_nat_add)
  then have "run rs485_receive ([S_byte] @ h @ [E_byte]) p
      = Some (?p\<lparr>Rcv := h @ E_byte # xs, rcvOK := 1, readyToRcv := 0, rcvIndex := 0\<rparr>)"
    using s b by (simp add: run_append)
  moreover have fr: "reply_frame r = h @ [E_byte]" by (simp add: reply_frame_def h_def)
  moreover have "length (reply_frame r) = Suc n" using fr len by simp
  ultimately show ?thesis using xs by simp
qed

lemma read_data_eq:
  "length pre = k \<Longrightarrow> rcv = a # b # pre0 @ data @ rest \<Longrightarrow> length pre0 = k \<Longrightarrow> n = length data \<Longrightarrow>
   n \<le> length post \<Longrightarrow>
     read_data [k..<k + n] rcv (pre @ post) = Some (pre @ data @ drop n post)"
proof (induction data arbitrary: k pre pre0 post n)
  case Nil
  then show ?case by simp
next
  case (Cons d data)
  obtain x xs where post: "post = x # xs" using Cons.prems by (cases post) auto
  have "read_data [Suc k..<Suc k + length data] rcv ((pre @ [d]) @ xs)
      = Some ((pre @ [d]) @ data @ drop (length data) xs)"
    using Cons.prems post by (intro Cons.IH [of _ _ "pre0 @ [d]"]) auto
  moreover have "[k..<k + n] = k # [Suc k..<Suc k + length data]"
    using Cons.prems(4) upt_conv_Cons [of k "k + n"] by (simp del: upt_Suc)
  moreover have "rd rcv (1 + k + 1) = Some d" using Cons.prems(2,3) by (simp add: nth_append)
  moreover have "wr (pre @ post) k d = Some ((pre @ [d]) @ xs)"
    using Cons.prems(1) post by (simp add: list_update_append)
  ultimately show ?case using Cons.prems(4) post by (simp del: rd_eq_Some wr_eq_Some upt_Suc)
qed

lemma RS485_Get_Struct_reply:
  assumes "rcvOK (s n) = 1" and "Rcv (s n) = reply_frame r @ rest"
    and "unat (r_len r) = length (r_data r)" and "length (r_data r) \<le> length (r_data junk)"
  shows "RS485_Get_Struct junk n s = Some
    (r\<lparr>r_data := r_data r @ drop (length (r_data r)) (r_data junk)\<rparr>, s(n := (s n)\<lparr>rcvOK := 0\<rparr>))"
proof -
  have "read_data [0..<0 + length (r_data r)] (Rcv (s n)) ([] @ r_data junk)
      = Some ([] @ r_data r @ drop (length (r_data r)) (r_data junk))"
    using assms by (intro read_data_eq [where ?pre0.0 = "[]"]) (auto simp: reply_frame_def)
  then show ?thesis
    using assms by (simp add: RS485_Get_Struct_def reply_frame_def rd_def)
qed

section \<open>The handlers\<close>

text \<open>The handler the vector table installs for each port.\<close>

fun port_handler :: "RS485_UART_NUM \<Rightarrow> u32 \<times> u8 \<Rightarrow> ports \<times> OS \<Rightarrow> (ports \<times> OS) option" where
  "port_handler RS485_UART0 = UART0_IRQHandler"
| "port_handler RS485_UART2 = UART2_IRQHandler"
| "port_handler RS485_UART3 = UART3_IRQHandler"
| "port_handler RS485_UART4 = UART4_IRQHandler"

lemma port_handler_eq: "port_handler n = rs485_handler n"
  by (cases n) (simp_all add: UART0_IRQHandler_def UART2_IRQHandler_def UART3_IRQHandler_def
      UART4_IRQHandler_def)

lemma port_handler_step:
  "rs485_body i (s n) = Some q \<Longrightarrow> OSIntExit (OSIntEnter os) = Some os1 \<Longrightarrow>
     port_handler n i (s, os) = Some (s(n := q), os1)"
  "rs485_body i (s n) = None \<Longrightarrow> port_handler n i (s, os) = None"
  "OSIntExit (OSIntEnter os) = None \<Longrightarrow> port_handler n i (s, os) = None"
  by (simp_all add: port_handler_eq rs485_handler_def Let_def bind_rzero)

lemma rs485_handler_runs_body:
  "run rs485_body is (s n) = Some p \<Longrightarrow> os_ok os \<Longrightarrow>
     \<exists>os'. run (port_handler n) is (s, os) = Some (s(n := p), os') \<and> os_ok os'"
proof (induction "is" arbitrary: s os)
  case Nil
  then show ?case by (auto simp: fun_eq_iff)
next
  case (Cons i "is")
  then obtain q where q: "rs485_body i (s n) = Some q" "run rs485_body is q = Some p"
    by (auto split: option.splits)
  obtain os1 where os1: "OSIntExit (OSIntEnter os) = Some os1" "os_ok os1"
    using OSIntExit_ok OSIntEnter_ok Cons.prems(2) by blast
  have "\<exists>os'. run (port_handler n) is (s(n := q), os1) = Some (s(n := p), os') \<and> os_ok os'"
    using Cons.IH [of "s(n := q)" os1] q(2) os1(2) by (metis fun_upd_same fun_upd_upd)
  then show ?case using port_handler_step(1) [of i s n q, OF q(1) os1(1)] by (simp del: fun_upd_apply)
qed

lemma handler_fails: "run rs485_body is (s n) = None \<Longrightarrow> run (port_handler n) is (s, os) = None"
proof (induction "is" arbitrary: s os)
  case Nil
  then show ?case by simp
next
  case (Cons i "is")
  show ?case
  proof (cases "rs485_body i (s n)")
    case None
    then show ?thesis by (simp add: port_handler_step(2) [of i s n])
  next
    case (Some q)
    then have "run rs485_body is ((s(n := q)) n) = None" using Cons.prems by simp
    then have "run (port_handler n) is (s(n := q), os1) = None" for os1 by (rule Cons.IH)
    then show ?thesis
      using port_handler_step(1) [of i s n q os, OF Some] port_handler_step(3) [of os n i s]
      by (cases "OSIntExit (OSIntEnter os)") (simp_all del: fun_upd_apply)
  qed
qed

definition rs485_rx :: "u8 \<Rightarrow> u32 \<times> u8" where "rs485_rx b = (4, b)"

definition rs485_tx :: "u32 \<times> u8" where "rs485_tx = (2, 0)"

lemma rs485_run_body_rx: "run rs485_body (map rs485_rx bs) p = run rs485_receive bs p"
  by (induction bs arbitrary: p) (simp_all add: rs485_rx_def rs485_body_def split: option.split)

definition ex_port :: RS485TMP where
  "ex_port = \<lparr>Send = replicate 10 0, Rcv = replicate 15 0, sendIndex = 0, rcvIndex = 0, sendOK = 1,
     readyToRcv = 0, sendLen = 0, rcvOK = 0, sent = [], threOn = False\<rparr>"

lemma length_request_frame:
  "unat (s_len req) \<le> length (s_data req) \<Longrightarrow> length (request_frame req) = unat (s_len req) + 6"
  by (simp add: request_frame_def)

section \<open>Properties\<close>

text \<open>A request whose length byte fits its three data bytes goes out completely and in order, as one
  start call and one transmit interrupt per further byte, and the port is free again afterwards;
  the other ports are untouched.\<close>

theorem rs485_send_request:
  assumes "sendOK (s n) \<noteq> 0" and "sendIndex (s n) = 0" and "length (Send (s n)) = 10"
    and "length (s_data req) = 3" and "unat (s_len req) \<le> 3" and "os_ok os"
  shows "\<exists>s1 s2 os'. RS485Send_Struct n req s = Some s1
           \<and> run (port_handler n) (replicate (unat (s_len req) + 5) rs485_tx) (s1, os) = Some (s2, os')
           \<and> os_ok os' \<and> sent (s2 n) = sent (s n) @ request_frame req
           \<and> sendOK (s2 n) = 1 \<and> sendIndex (s2 n) = 0 \<and> \<not> threOn (s2 n)
           \<and> (\<forall>m. m \<noteq> n \<longrightarrow> s2 m = s m)"
proof -
  let ?l = "unat (s_len req)" and ?f = "request_frame req"
  define p where "p = (s n)\<lparr>Send := ?f @ drop (?l + 6) (Send (s n)), sendLen := s_len req + 6,
      sent := sent (s n) @ [S_byte], threOn := True, sendOK := 0\<rparr>"
  define q where "q = p\<lparr>sendIndex := 0, sent := sent (s n) @ ?f, threOn := False, sendOK := 1\<rparr>"
  have 1: "RS485Send_Struct n req s = Some (s(n := p))"
    unfolding p_def using assms by (intro RS485Send_Struct_frame) simp_all
  have len: "length ?f = ?l + 6" using assms(4,5) length_request_frame by simp
  have "?f ! (?l + 5) = E_byte" and f0: "?f ! 0 = S_byte"
    using assms(4,5) by (simp_all add: request_frame_def nth_append)
  then have "run rs485_body (replicate (?l + 5) (2, 0)) p = Some q"
    unfolding q_def using assms len by (intro transmit_all) (simp_all add: p_def)
  then have "run rs485_body (replicate (?l + 5) rs485_tx) ((s(n := p)) n) = Some q" by (simp add: rs485_tx_def)
  from rs485_handler_runs_body [where s = "s(n := p)" and n = n, OF this assms(6)] obtain os' where
    2: "run (port_handler n) (replicate (?l + 5) rs485_tx) (s(n := p), os) = Some ((s(n := p))(n := q), os')"
      "os_ok os'" by blast
  show ?thesis
    by (intro exI conjI, rule 1, rule 2, rule 2) (simp_all add: q_def)
qed

theorem rs485_send_request_witness:
  "\<exists>s1 s2 os'. RS485Send_Struct RS485_UART3 \<lparr>s_address = 1, s_ctrl = 2, s_len = 2, s_data = [7, 8, 9]\<rparr> (\<lambda>_. ex_port) = Some s1
     \<and> run (port_handler RS485_UART3) (replicate 7 rs485_tx) (s1, ex_os) = Some (s2, os')
     \<and> sent (s2 RS485_UART3) = [0x53, 1, 2, 2, 7, 8, 0x98, 0x45]"
  using rs485_send_request [of "\<lambda>_. ex_port" RS485_UART3 "\<lparr>s_address = 1, s_ctrl = 2, s_len = 2, s_data = [7, 8, 9]\<rparr>" ex_os]
    ex_os_ok by (fastforce simp: ex_port_def request_frame_def rs485_bytes)

text \<open>C24: A reply with one to ten data bytes, a matching length byte and no end marker among the data
  from the third byte on, received through the interrupt handler of any port, is read back
  exactly; the other ports are untouched.\<close>

theorem rs485_receive_roundtrip:
  assumes "readyToRcv (s n) = 0" and "rcvIndex (s n) = 0" and "length (Rcv (s n)) = 15" and "os_ok os"
    and "length (r_data r) \<le> 10" and "r_data r \<noteq> []" and "no_early_end r"
    and "unat (r_len r) = length (r_data r)" and "length (r_data junk) = 10"
  shows "\<exists>s1 s2 os' d. run (port_handler n) (map rs485_rx (S_byte # reply_frame r)) (s, os) = Some (s1, os')
           \<and> os_ok os' \<and> rcvOK (s1 n) = 1 \<and> (\<forall>m. m \<noteq> n \<longrightarrow> s1 m = s m)
           \<and> RS485_Get_Struct junk n s1 = Some (r\<lparr>r_data := d\<rparr>, s2)
           \<and> take (length (r_data r)) d = r_data r \<and> rcvOK (s2 n) = 0"
proof -
  let ?p = "(s n)\<lparr>Rcv := reply_frame r @ drop (length (reply_frame r)) (Rcv (s n)), rcvOK := 1,
      readyToRcv := 0, rcvIndex := 0\<rparr>"
  have "run rs485_receive (S_byte # reply_frame r) (s n) = Some ?p"
    using assms by (intro receive_reply) simp_all
  then have "run rs485_body (map rs485_rx (S_byte # reply_frame r)) (s n) = Some ?p"
    by (simp only: rs485_run_body_rx)
  then obtain os' where h: "run (port_handler n) (map rs485_rx (S_byte # reply_frame r)) (s, os) = Some (s(n := ?p), os')"
      "os_ok os'" using rs485_handler_runs_body [where s = s and n = n] assms(4) by blast
  have "RS485_Get_Struct junk n (s(n := ?p)) = Some
    (r\<lparr>r_data := r_data r @ drop (length (r_data r)) (r_data junk)\<rparr>,
     (s(n := ?p))(n := ((s(n := ?p)) n)\<lparr>rcvOK := 0\<rparr>))"
    using assms by (intro RS485_Get_Struct_reply) simp_all
  with h show ?thesis by (intro exI conjI) (assumption | simp)+
qed

definition ex_reply :: UserRS485Rcv where
  "ex_reply = \<lparr>r_ctrl = 3, r_len = 2, r_data = [0x45, 9]\<rparr>"

theorem rs485_receive_roundtrip_witness:
  "\<exists>s1 s2 os' d. run (port_handler RS485_UART4) (map rs485_rx (S_byte # reply_frame ex_reply)) (\<lambda>_. ex_port, ex_os)
       = Some (s1, os') \<and> os_ok os' \<and> rcvOK (s1 RS485_UART4) = 1
     \<and> (\<forall>m. m \<noteq> RS485_UART4 \<longrightarrow> s1 m = (\<lambda>_. ex_port) m)
     \<and> RS485_Get_Struct \<lparr>r_ctrl = 0, r_len = 0, r_data = replicate 10 0\<rparr> RS485_UART4 s1
       = Some (ex_reply\<lparr>r_data := d\<rparr>, s2)
     \<and> take (length (r_data ex_reply)) d = r_data ex_reply \<and> rcvOK (s2 RS485_UART4) = 0"
  by (rule rs485_receive_roundtrip)
    (simp_all add: ex_os_ok, simp_all add: ex_port_def ex_reply_def no_early_end_def)

text \<open>C30: The receive index is not checked against the buffer: once a port has seen the start marker,
  fifteen bytes without an end marker from the fifth on fill the buffer, and the next received
  byte, whatever it is, is written outside it.\<close>

theorem rs485_receive_overflow:
  assumes "readyToRcv (s n) = 0" and "rcvIndex (s n) = 0" and "length (Rcv (s n)) = 15"
    and "length bs = 15" and "E_byte \<notin> set (drop 4 bs)"
  shows "run (port_handler n) (map rs485_rx (S_byte # bs @ [b])) (s, os) = None"
proof -
  let ?p = "(s n)\<lparr>readyToRcv := 1\<rparr>"
  let ?q = "?p\<lparr>Rcv := bs, rcvIndex := 15\<rparr>"
  have "\<forall>j < length bs. 4 \<le> 0 + j \<longrightarrow> bs ! j \<noteq> E_byte"
  proof (intro allI impI)
    fix j assume "j < length bs" "4 \<le> 0 + j"
    then have "bs ! j = drop 4 bs ! (j - 4)" "j - 4 < length (drop 4 bs)" by simp_all
    then show "bs ! j \<noteq> E_byte" using assms(5) nth_mem by metis
  qed
  then have "run rs485_receive bs ?p = Some ?q"
    using receive_body [of ?p 0 bs] assms by simp
  moreover have "rs485_receive S_byte (s n) = Some ?p" using assms(1) by (simp add: rs485_receive_def)
  moreover have "rs485_receive b ?q = None" using assms(4) by (simp add: rs485_receive_def wr_def)
  ultimately have "run rs485_receive (S_byte # bs @ [b]) (s n) = None" by (simp add: run_append)
  then have "run rs485_body (map rs485_rx (S_byte # bs @ [b])) (s n) = None" by (simp only: rs485_run_body_rx)
  then show ?thesis by (rule handler_fails [where s = s and n = n])
qed

theorem rs485_receive_overflow_witness:
  "run (port_handler RS485_UART2) (map rs485_rx (S_byte # replicate 15 0x20 @ [0x20])) (\<lambda>_. ex_port, ex_os) = None"
  by (rule rs485_receive_overflow) (simp_all add: ex_port_def E_byte_def)

lemma read_data_bound: "read_data [j..<k] rcv e \<noteq> None \<Longrightarrow> j \<le> length e \<Longrightarrow> k \<le> max j (length e)"
proof (induction "k - j" arbitrary: j e)
  case 0
  then show ?case by simp
next
  case (Suc x)
  then have u: "[j..<k] = j # [Suc j..<k]" by (simp add: upt_conv_Cons)
  have x: "x = k - Suc j" using Suc.hyps(2) by simp
  obtain b where "j < length e" "read_data [Suc j..<k] rcv (e[j := b]) \<noteq> None"
    using Suc.prems(1) by (auto simp: u wr_def bind_eq_Some_conv split: if_splits)
  then show ?case using Suc.hyps(1) [of "Suc j" "e[j := b]", OF x] by simp
qed

text \<open>Reading a reply trusts the received length byte: a reply the handler accepted whose length
  byte exceeds ten makes the copy leave the ten-byte data array.\<close>

theorem rs485_length_unchecked:
  assumes "rcvOK (s n) = 1" and "length (Rcv (s n)) = 15" and "length (r_data junk) = 10"
    and "10 < unat (Rcv (s n) ! 1)"
  shows "RS485_Get_Struct junk n s = None"
proof -
  have "read_data [0..<unat (Rcv (s n) ! 1)] (Rcv (s n)) (r_data junk) = None"
    using read_data_bound [of 0 "unat (Rcv (s n) ! 1)" "Rcv (s n)" "r_data junk"] assms(3,4) by fastforce
  then show ?thesis using assms(1,2) by (simp add: RS485_Get_Struct_def rd_def)
qed

theorem rs485_length_unchecked_witness:
  "RS485_Get_Struct \<lparr>r_ctrl = 0, r_len = 0, r_data = replicate 10 0\<rparr> RS485_UART0
     (\<lambda>_. ex_port\<lparr>rcvOK := 1, Rcv := [1, 11, 0, 0x98, 0x45] @ replicate 10 0\<rparr>) = None"
  by (rule rs485_length_unchecked) (simp_all add: ex_port_def)

end
