(* ===== verification/Eeprom_Store.thy ===== *)
theory Eeprom_Store
  imports Prelude
begin

text \<open>
  \<open>User/user_SaveOption.c\<close> and \<open>BoardSupport/eeprom_st24c02.c\<close>: saving the network
  settings and the calibration in the serial EEPROM. The chip and the bus are parameters: what
  a transfer does (\<open>I2C_MasterTransferData\<close>: bytes sent, number of bytes to receive) and what
  becomes of the chip while \<open>OSTimeDly\<close> suspends the task. The documented behaviour of the
  chip is the hypothesis \<open>st24c02\<close>. Contents of uninitialised buffers are arguments.
\<close>

section \<open>The bus\<close>

record 'd i2c =
  xfer :: "u8 list \<Rightarrow> nat \<Rightarrow> 'd \<Rightarrow> bool \<times> u8 list \<times> 'd"
  delay :: "nat \<Rightarrow> 'd \<Rightarrow> 'd"

text \<open>Reading a run of elements of an array by a loop; undefined outside the array.\<close>

definition rd_run :: "'a list \<Rightarrow> nat \<Rightarrow> nat \<Rightarrow> 'a list option" where
  "rd_run xs i n = (if i + n \<le> length xs then Some (take n (drop i xs)) else None)"

definition EEPROM_ReadData :: "'d i2c \<Rightarrow> u8 list \<Rightarrow> u8 \<Rightarrow> u8 \<Rightarrow> 'd \<Rightarrow> (bool \<times> u8 list \<times> 'd) option" where
  "EEPROM_ReadData c data sz address d =
     (case xfer c [address] (unat sz) d of
        (ok, rx, d') \<Rightarrow> map_option (\<lambda>data'. (ok, data', d')) (wr_seq data 0 rx))"

text \<open>The page buffer is filled with eight bytes of \<open>data\<close>, whatever \<open>sz\<close> is.\<close>

definition EEPROM_WriteDataOnePage :: "'d i2c \<Rightarrow> u8 list \<Rightarrow> u8 \<Rightarrow> u8 \<Rightarrow> 'd \<Rightarrow> (bool \<times> 'd) option" where
  "EEPROM_WriteDataOnePage c data sz address d = do {
     page \<leftarrow> rd_run data 0 8;
     tx \<leftarrow> rd_run (address # page) 0 (unat sz + 1);
     Some (case xfer c tx 0 d of (ok, _, d') \<Rightarrow> (ok, d')) }"

definition EEPROM_ReadDataOnePage :: "'d i2c \<Rightarrow> u8 list \<Rightarrow> u8 \<Rightarrow> u8 \<Rightarrow> 'd \<Rightarrow> (bool \<times> u8 list \<times> 'd) option" where
  "EEPROM_ReadDataOnePage c data sz address d =
     (case xfer c (take 1 [address]) (unat sz) d of
        (ok, rx, d') \<Rightarrow> map_option (\<lambda>data'. (ok, data', d')) (wr_seq data 0 rx))"

section \<open>Network settings\<close>

record IPConfigStruct =
  ip :: "u8 list"
  sub :: "u8 list"
  gw :: "u8 list"
  mac :: "u8 list"

record EEPROMDataStruct =
  ipConfig :: IPConfigStruct
  uartConfig :: "u8 list"
  password :: "u8 list"

definition DATA_SIZE :: u8 where "DATA_SIZE = 30"
definition PAGE_SIZE :: u8 where "PAGE_SIZE = 8"
definition DATA_ADRESS :: u8 where "DATA_ADRESS = 0x20"
definition RATI_ADRESS :: u8 where "RATI_ADRESS = 0x40"
definition RATI_SIZE :: u8 where "RATI_SIZE = 0x80"

text \<open>The copying loops that fill the write buffer: \<open>n\<close> elements of \<open>src\<close> from \<open>i\<close> on go to \<open>num\<close>.\<close>

definition fill :: "u8 list \<Rightarrow> nat \<Rightarrow> u8 list \<Rightarrow> nat \<Rightarrow> nat \<Rightarrow> u8 list option" where
  "fill buf num src i n = do { vs \<leftarrow> rd_run src i n; wr_seq buf num vs }"

definition EEPROM_WriteStruct :: "'d i2c \<Rightarrow> u8 list \<Rightarrow> EEPROMDataStruct \<Rightarrow> 'd \<Rightarrow> (bool \<times> 'd) option" where
  "EEPROM_WriteStruct c buf s d = do {
     buf \<leftarrow> fill buf 0 (ip (ipConfig s)) 0 4;
     buf \<leftarrow> fill buf 4 (gw (ipConfig s)) 0 4;
     (ok, d) \<leftarrow> EEPROM_WriteDataOnePage c buf PAGE_SIZE DATA_ADRESS d;
     if \<not> ok then Some (False, d) else do {
     let d = delay c 6 d;
     buf \<leftarrow> fill buf 0 (sub (ipConfig s)) 0 4;
     buf \<leftarrow> fill buf 4 (mac (ipConfig s)) 0 4;
     (ok, d) \<leftarrow> EEPROM_WriteDataOnePage c buf PAGE_SIZE (DATA_ADRESS + PAGE_SIZE * 1) d;
     if \<not> ok then Some (False, d) else do {
     let d = delay c 6 d;
     buf \<leftarrow> fill buf 0 (mac (ipConfig s)) 4 2;
     buf \<leftarrow> fill buf 2 (uartConfig s) 0 6;
     (ok, d) \<leftarrow> EEPROM_WriteDataOnePage c buf PAGE_SIZE (DATA_ADRESS + PAGE_SIZE * 2) d;
     if \<not> ok then Some (False, d) else do {
     let d = delay c 6 d;
     buf \<leftarrow> fill buf 0 (password s) 0 6;
     (ok, d) \<leftarrow> EEPROM_WriteDataOnePage c buf 6 (DATA_ADRESS + PAGE_SIZE * 3) d;
     if \<not> ok then Some (False, d) else Some (True, delay c 6 d) } } } }"

text \<open>The result of the transfer is not looked at.\<close>

definition EEPROM_ReadStruct :: "'d i2c \<Rightarrow> u8 list \<Rightarrow> 'd \<Rightarrow> (EEPROMDataStruct \<times> 'd) option" where
  "EEPROM_ReadStruct c buf d = do {
     (_, buf, d) \<leftarrow> EEPROM_ReadData c buf DATA_SIZE DATA_ADRESS d;
     a \<leftarrow> rd_run buf 0 4;
     g \<leftarrow> rd_run buf 4 4;
     u \<leftarrow> rd_run buf 8 4;
     m \<leftarrow> rd_run buf 12 6;
     ua \<leftarrow> rd_run buf 18 6;
     p \<leftarrow> rd_run buf 24 6;
     Some (\<lparr>ipConfig = \<lparr>ip = a, sub = u, gw = g, mac = m\<rparr>, uartConfig = ua, password = p\<rparr>, d) }"

section \<open>Calibration\<close>

record Correct_Input =
  slope :: "i32 list"
  intercept :: "i32 list"

definition nibble :: "i32 \<Rightarrow> nat \<Rightarrow> u8" where
  "nibble fp i = ucast (drop_bit ((3 - i) * 4) (fp AND drop_bit i 0xF000))"

definition INT32TOUINT8 :: "i32 \<Rightarrow> i32 \<Rightarrow> u8 list" where
  "INT32TOUINT8 fp1 fp2 = map (\<lambda>i. if i < 4 then nibble fp1 i else nibble fp2 (i - 4)) [0..<8]"

definition join :: "u8 \<Rightarrow> u8 \<Rightarrow> u8 \<Rightarrow> u8 \<Rightarrow> i32" where
  "join a b c d = push_bit 12 (ucast a) OR push_bit 8 (ucast b) OR push_bit 4 (ucast c) OR ucast d"

text \<open>Sixteen values from consecutive groups of four bytes from \<open>base\<close> on.\<close>

fun joins :: "u8 list \<Rightarrow> nat \<Rightarrow> nat list \<Rightarrow> i32 list option" where
  "joins data base [] = Some []"
| "joins data base (i # is) = do {
     a \<leftarrow> rd data (4 * i + base);
     b \<leftarrow> rd data (4 * i + 1 + base);
     c \<leftarrow> rd data (4 * i + 2 + base);
     d \<leftarrow> rd data (4 * i + 3 + base);
     vs \<leftarrow> joins data base is;
     Some (join a b c d # vs) }"

definition UINT8TOINT32 :: "u8 list \<Rightarrow> (i32 list \<times> i32 list) option" where
  "UINT8TOINT32 data = do {
     fp1 \<leftarrow> joins data 0 [0..<16];
     fp2 \<leftarrow> joins data 0x40 [0..<16];
     Some (fp1, fp2) }"

text \<open>One of the two loops over eight pages; both loops of the code write \<open>intercept\<close>.\<close>

fun write_pages :: "'d i2c \<Rightarrow> i32 list \<Rightarrow> u8 \<Rightarrow> nat list \<Rightarrow> 'd \<Rightarrow> (bool \<times> 'd) option" where
  "write_pages c vals base [] d = Some (True, d)"
| "write_pages c vals base (i # is) d = do {
     v1 \<leftarrow> rd vals (2 * i);
     v2 \<leftarrow> rd vals (2 * i + 1);
     (ok, d) \<leftarrow> EEPROM_WriteDataOnePage c (INT32TOUINT8 v1 v2) PAGE_SIZE (base + PAGE_SIZE * of_nat i) d;
     if \<not> ok then Some (False, d) else write_pages c vals base is (delay c 6 d) }"

definition EEPROM_WriteRati :: "'d i2c \<Rightarrow> Correct_Input \<Rightarrow> 'd \<Rightarrow> (bool \<times> 'd) option" where
  "EEPROM_WriteRati c s d = do {
     (ok, d) \<leftarrow> write_pages c (intercept s) RATI_ADRESS [0..<8] d;
     if \<not> ok then Some (False, d)
     else write_pages c (intercept s) (RATI_ADRESS + 0x40) [0..<8] d }"

definition EEPROM_ReadRati :: "'d i2c \<Rightarrow> u8 list \<Rightarrow> 'd \<Rightarrow> (Correct_Input \<times> 'd) option" where
  "EEPROM_ReadRati c buf d = do {
     (_, buf, d) \<leftarrow> EEPROM_ReadData c buf RATI_SIZE RATI_ADRESS d;
     (fp1, fp2) \<leftarrow> UINT8TOINT32 buf;
     Some (\<lparr>slope = fp2, intercept = fp1\<rparr>, d) }"

section \<open>What is relied on of the chip\<close>

text \<open>
  A 256-byte memory \<open>mem\<close>. When it is \<open>ready\<close>, a transfer of an address and one to eight bytes
  that stay inside one 8-byte page stores them; the chip is then busy programming and ready
  again after a delay of six ticks. A transfer of an address that asks for bytes returns them.
\<close>

definition overlay :: "'a list \<Rightarrow> nat \<Rightarrow> 'a list \<Rightarrow> 'a list" where
  "overlay xs i vs = take i xs @ vs @ drop (i + length vs) xs"

definition st24c02 :: "'d i2c \<Rightarrow> ('d \<Rightarrow> u8 list) \<Rightarrow> ('d \<Rightarrow> bool) \<Rightarrow> bool" where
  "st24c02 c mem ready \<longleftrightarrow>
     (\<forall>d. length (mem d) = 256)
   \<and> (\<forall>d a vs. ready d \<and> vs \<noteq> [] \<and> unat a mod 8 + length vs \<le> 8 \<longrightarrow>
        (\<exists>d'. xfer c (a # vs) 0 d = (True, [], d') \<and> ready (delay c 6 d')
            \<and> mem (delay c 6 d') = overlay (mem d) (unat a) vs))
   \<and> (\<forall>d a n. ready d \<and> unat a + n \<le> 256 \<longrightarrow>
        (\<exists>d'. xfer c [a] n d = (True, take n (drop (unat a) (mem d)), d') \<and> ready d' \<and> mem d' = mem d))"

section \<open>Writing pages\<close>

lemma length_overlay: "i + length vs \<le> length xs \<Longrightarrow> length (overlay xs i vs) = length xs"
  by (simp add: overlay_def)

lemma overlay_append:
  "i + length vs + length ws \<le> length xs \<Longrightarrow>
     overlay (overlay xs i vs) (i + length vs) ws = overlay xs i (vs @ ws)"
  by (simp add: overlay_def ac_simps)

lemma read_overlay: "i \<le> length xs \<Longrightarrow> take (length vs) (drop i (overlay xs i vs)) = vs"
  by (simp add: overlay_def)

lemma fill_eq:
  "i + n \<le> length src \<Longrightarrow> num + n \<le> length buf \<Longrightarrow>
     fill buf num src i n = Some (overlay buf num (take n (drop i src)))"
  by (simp add: fill_def rd_run_def wr_seq_eq overlay_def)

lemma write_page:
  assumes chip: "st24c02 c mem ready" and d: "ready d" and data: "8 \<le> length data"
    and sz: "0 < unat sz" "unat a mod 8 + unat sz \<le> 8"
  shows "\<exists>d'. EEPROM_WriteDataOnePage c data sz a d = Some (True, d') \<and> ready (delay c 6 d')
            \<and> mem (delay c 6 d') = overlay (mem d) (unat a) (take (unat sz) data)"
proof -
  let ?vs = "take (unat sz) data"
  have "?vs \<noteq> []" and "unat a mod 8 + length ?vs \<le> 8" using sz data by auto
  then obtain d' where d': "xfer c (a # ?vs) 0 d = (True, [], d')" "ready (delay c 6 d')"
      "mem (delay c 6 d') = overlay (mem d) (unat a) ?vs"
    using chip d unfolding st24c02_def by blast
  have "rd_run data 0 8 = Some (take 8 data)" using data by (simp add: rd_run_def)
  moreover have "rd_run (a # take 8 data) 0 (unat sz + 1) = Some (a # ?vs)"
    using sz data by (simp add: rd_run_def min_def)
  ultimately show ?thesis using d' by (simp add: EEPROM_WriteDataOnePage_def)
qed

lemma write_full_page:
  assumes "st24c02 c mem ready" and "ready d" and "length data = 8" and "unat a = n" and "n mod 8 = 0"
  shows "\<exists>d'. EEPROM_WriteDataOnePage c data PAGE_SIZE a d = Some (True, d') \<and> ready (delay c 6 d')
            \<and> mem (delay c 6 d') = overlay (mem d) n data"
  using write_page [OF assms(1,2), of data PAGE_SIZE a] assms(3-) by (simp add: PAGE_SIZE_def)

lemma length_mem: "st24c02 c mem ready \<Longrightarrow> length (mem d) = 256"
  by (simp add: st24c02_def)

lemma chip_read:
  assumes "st24c02 c mem ready" and "ready d" and "unat a + unat sz \<le> 256" and "unat sz = length buf"
  shows "\<exists>d'. EEPROM_ReadData c buf sz a d = Some (True, take (unat sz) (drop (unat a) (mem d)), d')
            \<and> ready d' \<and> mem d' = mem d"
proof -
  obtain d' where "xfer c [a] (unat sz) d = (True, take (unat sz) (drop (unat a) (mem d)), d')"
      "ready d'" "mem d' = mem d"
    using assms(1-3) unfolding st24c02_def by blast
  then show ?thesis using assms(3,4) length_mem [OF assms(1)]
    by (simp add: EEPROM_ReadData_def wr_seq_eq)
qed

section \<open>Bytes of a calibration value\<close>

definition nibs :: "i32 \<Rightarrow> u8 list" where
  "nibs v = map (nibble v) [0..<4]"

lemma INT32TOUINT8_nibs: "INT32TOUINT8 a b = nibs a @ nibs b"
  by (simp add: INT32TOUINT8_def nibs_def upt_rec numeral_eq_Suc)

lemma length_nibs [simp]: "length (nibs v) = 4"
  by (simp add: nibs_def)

lemma masks_nibble:
  "(0xF000 :: i32) = push_bit 12 (mask 4)" "(0xFC00 :: i32) = push_bit 10 (mask 6)"
  by (simp_all add: mask_numeral push_bit_eq_mult)

lemma bit_nibble:
  "bit (nibble v 0) k \<longleftrightarrow> k < 4 \<and> bit v (12 + k)"
  "bit (nibble v 1) k \<longleftrightarrow> 3 \<le> k \<and> k < 7 \<and> bit v (8 + k)"
  "bit (nibble v 2) k \<longleftrightarrow> 6 \<le> k \<and> k < 8 \<and> bit v (4 + k)"
  "\<not> bit (nibble v 3) k"
  unfolding nibble_def masks_nibble by (auto simp: bit_simps)

lemma bit_join:
  "bit (join a b c d) n \<longleftrightarrow> 12 \<le> n \<and> bit a (n - 12) \<or> 8 \<le> n \<and> bit b (n - 8) \<or> 4 \<le> n \<and> bit c (n - 4) \<or> bit d n"
  if "n < 32"
  using that by (auto simp: join_def bit_simps dest: bit_imp_le_length)

lemma bit_kept: "bit (v AND 0xFC00 :: i32) n \<longleftrightarrow> 10 \<le> n \<and> n < 16 \<and> bit v n"
  unfolding masks_nibble by (auto simp: bit_simps)

text \<open>Of the 32 bits only bits 10 to 15 come back.\<close>

lemma join_nibbles:
  "join (nibble v 0) (nibble v 1) (nibble v 2) (nibble v 3) = v AND 0xFC00"
proof (rule bit_word_eqI)
  fix n assume "n < LENGTH(32)"
  then have n: "n < 32" by simp
  have "bit (join (nibble v 0) (nibble v 1) (nibble v 2) (nibble v 3)) n \<longleftrightarrow>
      12 \<le> n \<and> n - 12 < 4 \<and> bit v (12 + (n - 12)) \<or> 8 \<le> n \<and> 3 \<le> n - 8 \<and> n - 8 < 7 \<and> bit v (8 + (n - 8))
      \<or> 4 \<le> n \<and> 6 \<le> n - 4 \<and> n - 4 < 8 \<and> bit v (4 + (n - 4))"
    by (simp only: bit_join [OF n] bit_nibble simp_thms)
  also have "\<dots> \<longleftrightarrow> 10 \<le> n \<and> n < 16 \<and> bit v n" by auto
  finally show "bit (join (nibble v 0) (nibble v 1) (nibble v 2) (nibble v 3)) n \<longleftrightarrow> bit (v AND 0xFC00) n"
    by (simp only: bit_kept)
qed

lemma nth_nibs: "j < 4 \<Longrightarrow> nibs v ! j = nibble v j"
  by (simp add: nibs_def)

lemma nth_concat_nibs:
  "i < length vs \<Longrightarrow> j < 4 \<Longrightarrow> concat (map nibs vs) ! (4 * i + j) = nibble (vs ! i) j"
proof (induction vs arbitrary: i)
  case Nil
  then show ?case by simp
next
  case (Cons v vs)
  then show ?case by (cases i) (auto simp: nth_append nth_nibs)
qed

lemma length_concat_nibs [simp]: "length (concat (map nibs vs)) = 4 * length vs"
  by (induction vs) simp_all

lemma joins_map:
  "(\<And>i. i \<in> set is \<Longrightarrow> 4 * i + 3 + base < length data) \<Longrightarrow>
     joins data base is = Some (map (\<lambda>i. join (data ! (4 * i + base)) (data ! (4 * i + 1 + base))
       (data ! (4 * i + 2 + base)) (data ! (4 * i + 3 + base))) is)"
proof (induction "is")
  case Nil
  then show ?case by simp
next
  case (Cons i "is")
  then have i: "4 * i + 3 + base < length data" by simp
  have r: "rd data (4 * i + j + base) = Some (data ! (4 * i + j + base))" if "j < 4" for j
    using i that by (intro rd_in) linarith
  show ?case using r [of 0] r [of 1] r [of 2] r [of 3] Cons by (simp del: rd_eq_Some)
qed

lemma joins_nibs:
  assumes v: "length vs = 16" and d: "length pre = base"
  shows "joins (pre @ concat (map nibs vs) @ post) base [0..<16] = Some (map (\<lambda>v. v AND 0xFC00) vs)"
proof -
  let ?d = "pre @ concat (map nibs vs) @ post"
  have at: "?d ! (4 * i + j + base) = nibble (vs ! i) j" if "i < 16" "j < 4" for i j
  proof -
    have "4 * i + j < length (concat (map nibs vs))" using that v by simp
    then show ?thesis using that v d nth_concat_nibs [of i vs j]
      by (simp add: nth_append)
  qed
  have "joins ?d base [0..<16] = Some (map (\<lambda>i. join (?d ! (4 * i + base)) (?d ! (4 * i + 1 + base))
       (?d ! (4 * i + 2 + base)) (?d ! (4 * i + 3 + base))) [0..<16])"
    using v d by (intro joins_map) auto
  also have "\<dots> = Some (map (\<lambda>i. vs ! i AND 0xFC00) [0..<16])"
    using at [of _ 0] at [of _ 1] at [of _ 2] at [of _ 3] by (auto simp: join_nibbles [unfolded One_nat_def])
  also have "\<dots> = Some (map (\<lambda>v. v AND 0xFC00) vs)"
    using v by (auto intro: nth_equalityI)
  finally show ?thesis .
qed

lemma UINT8TOINT32_nibs:
  assumes "length vs = 16" and "length ws = 16"
  shows "UINT8TOINT32 (concat (map nibs vs) @ concat (map nibs ws))
    = Some (map (\<lambda>v. v AND 0xFC00) vs, map (\<lambda>v. v AND 0xFC00) ws)"
  using joins_nibs [OF assms(1), where pre = "[]" and base = 0 and post = "concat (map nibs ws)"]
    joins_nibs [OF assms(2), where pre = "concat (map nibs vs)" and base = 64 and post = "[]"] assms
  by (simp add: UINT8TOINT32_def)

section \<open>Writing all pages\<close>

lemma page_address: "b \<in> {0x40, 0x80} \<Longrightarrow> i < 8 \<Longrightarrow> unat (b + PAGE_SIZE * of_nat i) = unat b + 8 * i"
  by (auto simp: PAGE_SIZE_def unat_word_ariths unat_of_nat)

lemma write_pages_ok:
  assumes chip: "st24c02 c mem ready" and b: "b \<in> {0x40, 0x80}" and vs: "length vs = 16"
  shows "ready d \<Longrightarrow> k + n \<le> 8 \<Longrightarrow>
    \<exists>d'. write_pages c vs b [k..<k + n] d = Some (True, d') \<and> ready d'
       \<and> mem d' = overlay (mem d) (unat b + 8 * k) (concat (map nibs (take (2 * n) (drop (2 * k) vs))))"
proof (induction n arbitrary: k d)
  case 0
  then show ?case by (simp add: overlay_def)
next
  case (Suc n)
  let ?p = "INT32TOUINT8 (vs ! (2 * k)) (vs ! (2 * k + 1))"
  have k: "k < 8" using Suc.prems by simp
  have a: "unat (b + PAGE_SIZE * of_nat k) = unat b + 8 * k" by (rule page_address [OF b k])
  have p8: "unat PAGE_SIZE = 8" by (simp add: PAGE_SIZE_def)
  have lp: "length ?p = 8" by (simp add: INT32TOUINT8_nibs)
  have "unat (b + PAGE_SIZE * of_nat k) mod 8 = 0" using b by (auto simp only: a) (simp_all add: mod_mult_self2)
  then obtain d1 where d1: "EEPROM_WriteDataOnePage c ?p PAGE_SIZE (b + PAGE_SIZE * of_nat k) d = Some (True, d1)"
      "ready (delay c 6 d1)" "mem (delay c 6 d1) = overlay (mem d) (unat b + 8 * k) ?p"
    using write_page [OF chip Suc.prems(1), of ?p PAGE_SIZE "b + PAGE_SIZE * of_nat k"] lp a p8 by auto
  obtain d2 where d2: "write_pages c vs b [Suc k..<Suc k + n] (delay c 6 d1) = Some (True, d2)" "ready d2"
      "mem d2 = overlay (mem (delay c 6 d1)) (unat b + 8 * Suc k) (concat (map nibs (take (2 * n) (drop (2 * Suc k) vs))))"
    using Suc.IH [OF d1(2), of "Suc k"] Suc.prems(2) by auto
  define js where "js = [Suc k..<Suc k + n]"
  have u: "[k..<k + Suc n] = k # js" unfolding js_def by (subst upt_conv_Cons) simp_all
  have r: "rd vs (2 * k) = Some (vs ! (2 * k))" "rd vs (2 * k + 1) = Some (vs ! (2 * k + 1))"
    using k vs by (auto intro!: rd_in simp del: rd_eq_Some)
  have "write_pages c vs b [k..<k + Suc n] d = Some (True, d2)"
    unfolding u using r d1(1) d2(1) [folded js_def] by (simp del: rd_eq_Some)
  moreover have "drop (2 * k) vs = vs ! (2 * k) # vs ! (2 * k + 1) # drop (2 * Suc k) vs"
    using k vs by (simp add: Cons_nth_drop_Suc)
  then have "concat (map nibs (take (2 * Suc n) (drop (2 * k) vs)))
      = ?p @ concat (map nibs (take (2 * n) (drop (2 * Suc k) vs)))"
    by (simp add: INT32TOUINT8_nibs)
  moreover have "mem d2 = overlay (mem d) (unat b + 8 * k) (?p @ concat (map nibs (take (2 * n) (drop (2 * Suc k) vs))))"
  proof -
    let ?q = "concat (map nibs (take (2 * n) (drop (2 * Suc k) vs)))"
    have ub: "unat b \<le> 128" using b by auto
    have "length ?q \<le> 8 * n" by simp
    then have "unat b + 8 * k + length ?p + length ?q \<le> 256"
      using ub Suc.prems(2) lp by linarith
    then have "overlay (overlay (mem d) (unat b + 8 * k) ?p) (unat b + 8 * k + length ?p) ?q
        = overlay (mem d) (unat b + 8 * k) (?p @ ?q)"
      by (intro overlay_append) (simp only: length_mem [OF chip])
    moreover have "unat b + 8 * k + length ?p = unat b + 8 * Suc k" by (simp only: lp) simp
    ultimately show ?thesis using d2(3) d1(3) by (simp only:)
  qed
  ultimately show ?case using d2(2) by (intro exI [of _ d2] conjI) simp_all
qed

section \<open>The stored settings\<close>

definition wf_settings :: "EEPROMDataStruct \<Rightarrow> bool" where
  "wf_settings s \<longleftrightarrow> length (ip (ipConfig s)) = 4 \<and> length (gw (ipConfig s)) = 4
     \<and> length (sub (ipConfig s)) = 4 \<and> length (mac (ipConfig s)) = 6
     \<and> length (uartConfig s) = 6 \<and> length (password s) = 6"

text \<open>The 30 bytes from address 0x20 on that stand for a settings struct.\<close>

definition settings_bytes :: "EEPROMDataStruct \<Rightarrow> u8 list" where
  "settings_bytes s = ip (ipConfig s) @ gw (ipConfig s) @ sub (ipConfig s) @ mac (ipConfig s)
     @ uartConfig s @ password s"

lemma fill_two:
  assumes "length buf = 8" and "i + m \<le> length xs" and "j + n \<le> length ys" and "m + n = 8"
  shows "\<exists>b1. fill buf 0 xs i m = Some b1 \<and> fill b1 m ys j n = Some (take m (drop i xs) @ take n (drop j ys))"
  using assms by (intro exI [of _ "overlay buf 0 (take m (drop i xs))"])
    (auto simp: fill_eq length_overlay overlay_def)

lemma EEPROM_WriteStruct_ok:
  assumes chip: "st24c02 c mem ready" and d: "ready d" and s: "wf_settings s" and buf: "length buf = 8"
  shows "\<exists>d'. EEPROM_WriteStruct c buf s d = Some (True, d') \<and> ready d'
            \<and> mem d' = overlay (mem d) 0x20 (settings_bytes s)"
proof -
  let ?p1 = "ip (ipConfig s) @ gw (ipConfig s)" and ?p2 = "sub (ipConfig s) @ take 4 (mac (ipConfig s))"
  let ?p3 = "drop 4 (mac (ipConfig s)) @ uartConfig s" and ?p4 = "password s"
  have len: "length ?p1 = 8" "length ?p2 = 8" "length ?p3 = 8" "length ?p4 = 6"
    using s by (simp_all add: wf_settings_def)
  have c: "unat DATA_ADRESS = 32" "unat (DATA_ADRESS + PAGE_SIZE * 1) = 40" "unat (DATA_ADRESS + PAGE_SIZE * 2) = 48"
      "unat (DATA_ADRESS + PAGE_SIZE * 3) = 56" "unat PAGE_SIZE = 8"
    by (simp_all add: DATA_ADRESS_def PAGE_SIZE_def)
  obtain b1 where f1: "fill buf 0 (ip (ipConfig s)) 0 4 = Some b1" "fill b1 4 (gw (ipConfig s)) 0 4 = Some ?p1"
    using fill_two [OF buf, of 0 4 "ip (ipConfig s)" 0 4 "gw (ipConfig s)"] s by (auto simp: wf_settings_def)
  obtain b2 where f2: "fill ?p1 0 (sub (ipConfig s)) 0 4 = Some b2" "fill b2 4 (mac (ipConfig s)) 0 4 = Some ?p2"
    using fill_two [OF len(1), of 0 4 "sub (ipConfig s)" 0 4 "mac (ipConfig s)"] s by (auto simp: wf_settings_def)
  obtain b3 where f3: "fill ?p2 0 (mac (ipConfig s)) 4 2 = Some b3" "fill b3 2 (uartConfig s) 0 6 = Some ?p3"
    using fill_two [OF len(2), of 4 2 "mac (ipConfig s)" 0 6 "uartConfig s"] s by (auto simp: wf_settings_def)
  obtain t where f4: "fill ?p3 0 (password s) 0 6 = Some (?p4 @ t)" "length (?p4 @ t) = 8"
    using fill_eq [of 0 6 "password s" 0 ?p3] len s by (simp add: overlay_def wf_settings_def)
  obtain d1 where d1: "EEPROM_WriteDataOnePage c ?p1 PAGE_SIZE DATA_ADRESS d = Some (True, d1)" "ready (delay c 6 d1)"
      "mem (delay c 6 d1) = overlay (mem d) 32 ?p1"
    using write_full_page [OF chip d len(1) c(1)] by auto
  obtain d2 where d2: "EEPROM_WriteDataOnePage c ?p2 PAGE_SIZE (DATA_ADRESS + PAGE_SIZE * 1) (delay c 6 d1) = Some (True, d2)"
      "ready (delay c 6 d2)" "mem (delay c 6 d2) = overlay (mem (delay c 6 d1)) 40 ?p2"
    using write_full_page [OF chip d1(2) len(2) c(2)] by auto
  obtain d3 where d3: "EEPROM_WriteDataOnePage c ?p3 PAGE_SIZE (DATA_ADRESS + PAGE_SIZE * 2) (delay c 6 d2) = Some (True, d3)"
      "ready (delay c 6 d3)" "mem (delay c 6 d3) = overlay (mem (delay c 6 d2)) 48 ?p3"
    using write_full_page [OF chip d2(2) len(3) c(3)] by auto
  obtain d4 where d4: "EEPROM_WriteDataOnePage c (?p4 @ t) 6 (DATA_ADRESS + PAGE_SIZE * 3) (delay c 6 d3) = Some (True, d4)"
      "ready (delay c 6 d4)" "mem (delay c 6 d4) = overlay (mem (delay c 6 d3)) 56 ?p4"
    using write_page [OF chip d3(2), of "?p4 @ t" 6 "DATA_ADRESS + PAGE_SIZE * 3"] len(4) c(4) f4(2) by auto
  have "EEPROM_WriteStruct c buf s d = Some (True, delay c 6 d4)"
    using d1(1) d2(1) d3(1) d4(1) by (simp add: EEPROM_WriteStruct_def f1 f2 f3 f4 del: mult_1_right)
  moreover have "mem (delay c 6 d4) = overlay (mem d) 32 (?p1 @ ?p2 @ ?p3 @ ?p4)"
  proof -
    have m: "length (mem d) = 256" using length_mem [OF chip] .
    have "mem (delay c 6 d2) = overlay (mem d) 32 (?p1 @ ?p2)"
      using overlay_append [of 32 ?p1 ?p2 "mem d"] d1(3) d2(3) len(1,2) m by simp
    then have "mem (delay c 6 d3) = overlay (mem d) 32 ((?p1 @ ?p2) @ ?p3)"
      using overlay_append [of 32 "?p1 @ ?p2" ?p3 "mem d"] d3(3) len(1,2,3) m by simp
    then show ?thesis
      using overlay_append [of 32 "(?p1 @ ?p2) @ ?p3" ?p4 "mem d"] d4(3) len m by simp
  qed
  moreover have "?p1 @ ?p2 @ ?p3 @ ?p4 = settings_bytes s"
    by (simp add: settings_bytes_def)
  ultimately show ?thesis using d4(2) by auto
qed

lemma EEPROM_ReadStruct_ok:
  assumes chip: "st24c02 c mem ready" and d: "ready d" and buf: "length buf = 30"
    and s: "wf_settings s" and m: "take 30 (drop 0x20 (mem d)) = settings_bytes s"
  shows "\<exists>d'. EEPROM_ReadStruct c buf d = Some (s, d') \<and> ready d' \<and> mem d' = mem d"
proof -
  have u: "unat DATA_ADRESS = 32" "unat DATA_SIZE = 30" by (simp_all add: DATA_ADRESS_def DATA_SIZE_def)
  obtain d' where d': "EEPROM_ReadData c buf DATA_SIZE DATA_ADRESS d = Some (True, settings_bytes s, d')"
      "ready d'" "mem d' = mem d"
    using chip_read [OF chip d, of DATA_ADRESS DATA_SIZE buf] u buf m by auto
  moreover have "EEPROM_ReadStruct c buf d = Some (s, d')"
    using s d'(1)
    by (cases s; cases "ipConfig s")
      (simp add: EEPROM_ReadStruct_def settings_bytes_def wf_settings_def rd_run_def)
  ultimately show ?thesis by blast
qed

lemma EEPROM_WriteRati_ok:
  assumes chip: "st24c02 c mem ready" and d: "ready d" and s: "length (intercept s) = 16"
  shows "\<exists>d'. EEPROM_WriteRati c s d = Some (True, d') \<and> ready d'
    \<and> mem d' = overlay (mem d) 0x40 (concat (map nibs (intercept s)) @ concat (map nibs (intercept s)))"
proof -
  let ?q = "concat (map nibs (intercept s))"
  have p: "[0..<0 + 8] = [0..<8]" "RATI_ADRESS = 0x40" "RATI_ADRESS + 0x40 = 0x80"
    by (simp_all add: RATI_ADRESS_def)
  have q: "concat (map nibs (take (2 * 8) (drop (2 * 0) (intercept s)))) = ?q" using s by simp
  obtain d1 where d1: "write_pages c (intercept s) 0x40 [0..<8] d = Some (True, d1)" "ready d1"
      "mem d1 = overlay (mem d) 64 ?q"
    using write_pages_ok [OF chip _ s d, of "0x40" 0 8] by (simp only: p q) auto
  obtain d2 where d2: "write_pages c (intercept s) 0x80 [0..<8] d1 = Some (True, d2)" "ready d2"
      "mem d2 = overlay (mem d1) 128 ?q"
    using write_pages_ok [OF chip _ s d1(2), of "0x80" 0 8] by (simp only: p q) auto
  have "EEPROM_WriteRati c s d = Some (True, d2)"
    using d1(1) d2(1) by (simp add: EEPROM_WriteRati_def p(2,3))
  moreover have "mem d2 = overlay (mem d) 64 (?q @ ?q)"
    using overlay_append [of 64 ?q ?q "mem d"] d1(3) d2(3) length_mem [OF chip] s by simp
  ultimately show ?thesis using d2(2) by auto
qed

section \<open>A concrete chip\<close>

text \<open>A memory of 256 bytes with a busy flag; a transfer to a busy chip is not acknowledged.\<close>

definition ex_chip :: "((nat \<Rightarrow> u8) \<times> bool) i2c" where
  "ex_chip = \<lparr>xfer = (\<lambda>tx n d. if snd d then (False, [], d) else
      (case tx of
         [] \<Rightarrow> (True, [], d)
       | a # vs \<Rightarrow>
           if vs = [] then (True, map (fst d) [unat a..<unat a + n], d)
           else (True, [], (\<lambda>i. if unat a \<le> i \<and> i < unat a + length vs then vs ! (i - unat a) else fst d i, True)))),
     delay = (\<lambda>t d. (fst d, False))\<rparr>"

definition ex_memory :: "(nat \<Rightarrow> u8) \<times> bool \<Rightarrow> u8 list" where
  "ex_memory d = map (fst d) [0..<256]"

definition ex_ready :: "(nat \<Rightarrow> u8) \<times> bool \<Rightarrow> bool" where
  "ex_ready d \<longleftrightarrow> \<not> snd d"

lemma page_inside:
  assumes "unat (a :: u8) mod 8 + n \<le> 8"
  shows "unat a + n \<le> 256"
proof -
  have "unat a < 256" using unsigned_less [of a] by simp
  then have "unat a div 8 < 32" by (simp add: less_mult_imp_div_less)
  moreover have "unat a = 8 * (unat a div 8) + unat a mod 8" by simp
  ultimately show ?thesis using assms by linarith
qed

lemma overlay_map:
  "a + length vs \<le> n \<Longrightarrow>
     overlay (map f [0..<n]) a vs = map (\<lambda>i. if a \<le> i \<and> i < a + length vs then vs ! (i - a) else f i) [0..<n]"
  by (rule nth_equalityI) (auto simp: overlay_def nth_append)

lemma ex_chip_ok: "st24c02 ex_chip ex_memory ex_ready"
  unfolding st24c02_def
proof (intro conjI allI impI, goal_cases)
  case (1 d)
  then show ?case by (simp add: ex_memory_def)
next
  case (2 d a vs)
  then have "unat a + length vs \<le> 256" using page_inside by blast
  with 2 show ?case by (auto simp: ex_chip_def ex_memory_def ex_ready_def overlay_map)
next
  case (3 d a n)
  then show ?case by (auto simp: ex_chip_def ex_memory_def ex_ready_def drop_map take_map)
qed

definition ex_settings :: EEPROMDataStruct where
  "ex_settings = \<lparr>ipConfig = \<lparr>ip = [192, 168, 1, 9], sub = [255, 255, 255, 0], gw = [192, 168, 1, 1],
      mac = [0x1E, 0x30, 0x6C, 0xA2, 0x45, 0x5E]\<rparr>, uartConfig = [1, 1, 1, 1, 1, 1], password = [1, 2, 3, 4, 5, 6]\<rparr>"

lemma ex_settings_wf: "wf_settings ex_settings"
  by (simp add: ex_settings_def wf_settings_def)

lemma save_and_read_frame:
  assumes "st24c02 c mem ready" and "ready d" and "wf_settings s" and "length wbuf = 8" and "length rbuf = 30"
  shows "\<exists>d1 d2. EEPROM_WriteStruct c wbuf s d = Some (True, d1) \<and> EEPROM_ReadStruct c rbuf d1 = Some (s, d2)
            \<and> ready d2 \<and> take 0x20 (mem d2) = take 0x20 (mem d) \<and> drop 0x3E (mem d2) = drop 0x3E (mem d)"
proof -
  have n: "length (settings_bytes s) = 30" "length (mem d) = 256"
    using assms(3) length_mem [OF assms(1)] by (simp_all add: settings_bytes_def wf_settings_def)
  obtain d1 where d1: "EEPROM_WriteStruct c wbuf s d = Some (True, d1)" "ready d1"
      "mem d1 = overlay (mem d) 0x20 (settings_bytes s)"
    using EEPROM_WriteStruct_ok [OF assms(1-4)] by blast
  have "take 30 (drop 0x20 (mem d1)) = settings_bytes s"
    using read_overlay [of 32 "mem d" "settings_bytes s"] n d1(3) by simp
  then obtain d2 where "EEPROM_ReadStruct c rbuf d1 = Some (s, d2)" "ready d2" "mem d2 = mem d1"
    using EEPROM_ReadStruct_ok [OF assms(1) d1(2) assms(5,3)] by blast
  then show ?thesis using d1 n by (auto simp: overlay_def)
qed

lemma save_and_read:
  assumes "st24c02 c mem ready" and "ready d" and "wf_settings s" and "length wbuf = 8" and "length rbuf = 30"
  shows "\<exists>d1 d2. EEPROM_WriteStruct c wbuf s d = Some (True, d1) \<and> EEPROM_ReadStruct c rbuf d1 = Some (s, d2)"
  using save_and_read_frame [OF assms] by blast

section \<open>Properties\<close>

text \<open>C22: Saving the settings to a chip that keeps its contract succeeds, reading them gives back exactly
  what was saved, and no byte of the chip outside the thirty of the settings changes.\<close>

theorem settings_roundtrip:
  assumes "st24c02 c mem ready" and "ready d" and "wf_settings s" and "length wbuf = 8" and "length rbuf = 30"
  shows "\<exists>d1 d2. EEPROM_WriteStruct c wbuf s d = Some (True, d1) \<and> EEPROM_ReadStruct c rbuf d1 = Some (s, d2)
            \<and> ready d2 \<and> take 0x20 (mem d2) = take 0x20 (mem d) \<and> drop 0x3E (mem d2) = drop 0x3E (mem d)"
  by (rule save_and_read_frame) (fact assms)+

theorem settings_roundtrip_witness:
  "\<exists>d1 d2. EEPROM_WriteStruct ex_chip (replicate 8 0) ex_settings (\<lambda>_. 0xFF, False) = Some (True, d1)
     \<and> EEPROM_ReadStruct ex_chip (replicate 30 0) d1 = Some (ex_settings, d2)"
  using settings_roundtrip [OF ex_chip_ok _ ex_settings_wf, of "(\<lambda>_. 0xFF, False)" "replicate 8 0" "replicate 30 0"]
  by (auto simp: ex_ready_def)

text \<open>C31: Saving the calibration and reading it back loses data: of each intercept only bits 10 to 15
  survive, and the slopes read back are those intercepts, since the second half of the save
  writes the intercepts again.\<close>

theorem calibration_lost:
  assumes "st24c02 c mem ready" and "ready d" and "length (intercept s) = 16" and "length rbuf = 128"
  shows "\<exists>d1 d2. EEPROM_WriteRati c s d = Some (True, d1)
     \<and> EEPROM_ReadRati c rbuf d1 = Some (\<lparr>slope = map (\<lambda>v. v AND 0xFC00) (intercept s),
                                          intercept = map (\<lambda>v. v AND 0xFC00) (intercept s)\<rparr>, d2)"
proof -
  let ?q = "concat (map nibs (intercept s))"
  have u: "unat RATI_ADRESS = 64" "unat RATI_SIZE = 128" by (simp_all add: RATI_ADRESS_def RATI_SIZE_def)
  obtain d1 where d1: "EEPROM_WriteRati c s d = Some (True, d1)" "ready d1" "mem d1 = overlay (mem d) 64 (?q @ ?q)"
    using EEPROM_WriteRati_ok [OF assms(1-3)] by blast
  have "take 128 (drop 64 (mem d1)) = ?q @ ?q"
    using read_overlay [of 64 "mem d" "?q @ ?q"] d1(3) length_mem [OF assms(1)] assms(3) by simp
  then obtain d2 where "EEPROM_ReadData c rbuf RATI_SIZE RATI_ADRESS d1 = Some (True, ?q @ ?q, d2)"
    using chip_read [OF assms(1) d1(2), of RATI_ADRESS RATI_SIZE rbuf] u assms(4) by auto
  then show ?thesis
    using d1(1) UINT8TOINT32_nibs [OF assms(3,3)] by (simp add: EEPROM_ReadRati_def)
qed

theorem calibration_lost_witness:
  "\<exists>d1 d2. EEPROM_WriteRati ex_chip \<lparr>slope = replicate 16 1000, intercept = replicate 16 1500\<rparr> (\<lambda>_. 0xFF, False) = Some (True, d1)
     \<and> EEPROM_ReadRati ex_chip (replicate 128 0) d1 = Some (\<lparr>slope = replicate 16 1024, intercept = replicate 16 1024\<rparr>, d2)"
  using calibration_lost [OF ex_chip_ok, of "(\<lambda>_. 0xFF, False)" "\<lparr>slope = replicate 16 1000, intercept = replicate 16 1500\<rparr>" "replicate 128 0"]
  by (simp add: ex_ready_def)

end
