(* ===== verification/C_Text.thy ===== *)
theory C_Text
  imports Prelude
begin

text \<open>
  The conversions of \<open>sprintf\<close> and \<open>sscanf\<close> the firmware uses: decimal integers and
  strings, into and from char arrays. Writing outside the array is undefined.
\<close>

section \<open>Printing\<close>

fun digits :: "nat \<Rightarrow> u8 list" where
  "digits n = (if n < 10 then [48 + of_nat n] else digits (n div 10) @ [48 + of_nat (n mod 10)])"

declare digits.simps [simp del]

text \<open>The text of \<open>%d\<close> for an \<open>int\<close>.\<close>

definition dec :: "int \<Rightarrow> u8 list" where
  "dec v = (if v < 0 then 45 # digits (nat (- v)) else digits (nat v))"

text \<open>\<open>sprintf(dest, ...)\<close> with the text \<open>s\<close> as its output.\<close>

definition sprintf :: "u8 list \<Rightarrow> u8 list \<Rightarrow> u8 list option" where
  "sprintf dest s = wr_seq dest 0 (s @ [0])"

section \<open>Scanning\<close>

definition is_digit :: "u8 \<Rightarrow> bool" where
  "is_digit c \<longleftrightarrow> 48 \<le> c \<and> c \<le> 57"

definition is_space :: "u8 \<Rightarrow> bool" where
  "is_space c \<longleftrightarrow> c = 32 \<or> 9 \<le> c \<and> c \<le> 13"

text \<open>The value of a run of digits, and the rest of the input.\<close>

fun scan_digits :: "nat \<Rightarrow> u8 list \<Rightarrow> nat \<times> u8 list" where
  "scan_digits acc [] = (acc, [])"
| "scan_digits acc (c # cs) =
     (if is_digit c then scan_digits (10 * acc + (unat c - 48)) cs else (acc, c # cs))"

text \<open>\<open>%d\<close>: white space, a sign, at least one digit; a matching failure otherwise.\<close>

definition scan_int :: "u8 list \<Rightarrow> (int \<times> u8 list) option" where
  "scan_int cs =
     (let cs = dropWhile is_space cs;
          (neg, cs) = (case cs of c # r \<Rightarrow> if c = 45 then (True, r) else if c = 43 then (False, r) else (False, cs) | [] \<Rightarrow> (False, [])) in
      case cs of
        c # r \<Rightarrow> if is_digit c then
          (let (n, rest) = scan_digits 0 cs in Some (if neg then - int n else int n, rest))
        else None
      | [] \<Rightarrow> None)"

section \<open>Printed numbers\<close>

lemma digits_nonempty: "digits n \<noteq> []"
  by (subst digits.simps) simp

lemma length_digits: "0 < k \<Longrightarrow> length (digits n) \<le> k \<longleftrightarrow> n < 10 ^ k"
proof (induction k arbitrary: n)
  case 0
  then show ?case by simp
next
  case (Suc k)
  show ?case
  proof (cases "n < 10")
    case True
    moreover have "(10 :: nat) \<le> 10 ^ Suc k" by simp
    ultimately show ?thesis by (subst digits.simps) (simp del: power_Suc)
  next
    case False
    then have l: "length (digits n) = Suc (length (digits (n div 10)))" by (subst digits.simps) simp
    show ?thesis
    proof (cases "k = 0")
      case True
      have "length (digits (n div 10)) \<noteq> 0" using digits_nonempty by simp
      then show ?thesis using l True False by simp
    next
      case nz: False
      have "n div 10 < 10 ^ k \<longleftrightarrow> n < 10 ^ Suc k" by (simp add: less_mult_imp_div_less div_less_iff_less_mult mult.commute)
      then show ?thesis using l nz Suc.IH [of "n div 10"] by simp
    qed
  qed
qed

lemma digit_code:
  assumes "n < 10"
  shows "is_digit (48 + of_nat n)" and "unat (48 + of_nat n :: u8) - 48 = n" and "48 + of_nat n \<noteq> (0 :: u8)"
proof -
  have u: "unat (48 + of_nat n :: u8) = 48 + n"
    using assms by (simp add: unat_word_ariths unat_of_nat)
  then show "is_digit (48 + of_nat n)" using assms by (simp add: is_digit_def word_le_nat_alt)
  show "unat (48 + of_nat n :: u8) - 48 = n" using u by simp
  show "48 + of_nat n \<noteq> (0 :: u8)" using u by (metis add_is_0 unat_0 zero_neq_numeral)
qed

lemma digits_ind [case_names small large]:
  assumes "\<And>n. n < 10 \<Longrightarrow> P n" and "\<And>n. 10 \<le> n \<Longrightarrow> P (n div 10) \<Longrightarrow> P n"
  shows "P (n :: nat)"
proof (induction n rule: less_induct)
  case (less n)
  then show ?case using assms by (cases "n < 10") auto
qed

lemma digits_all: "list_all is_digit (digits n)"
proof (induction n rule: digits_ind)
  case (small n)
  then show ?case by (subst digits.simps) (simp add: digit_code)
next
  case (large n)
  then show ?case by (subst digits.simps) (simp add: digit_code)
qed

lemma digits_no_nul: "0 \<notin> set (digits n)"
  using digits_all [of n] by (auto simp: list_all_iff is_digit_def)

lemma dec_no_nul: "0 \<notin> set (dec v)"
  by (simp add: dec_def digits_no_nul)

lemma scan_digits_append:
  "list_all is_digit ds \<Longrightarrow> scan_digits acc (ds @ cs) = scan_digits (fst (scan_digits acc ds)) cs"
  by (induction ds arbitrary: acc) auto

lemma scan_digits_digits: "scan_digits 0 (digits n) = (n, [])"
proof (induction n rule: digits_ind)
  case (small n)
  then show ?case by (subst digits.simps) (simp add: digit_code)
next
  case (large n)
  then show ?case
    by (subst digits.simps) (simp add: scan_digits_append digits_all digit_code)
qed

text \<open>Scanning what was printed gives the number back.\<close>

lemma scan_int_dec:
  assumes "rest = [] \<or> \<not> is_digit (hd rest)"
  shows "scan_int (dec v @ rest) = Some (v, rest)"
proof -
  have s: "scan_digits 0 (digits n @ rest) = (n, rest)" for n
    using assms by (cases rest) (auto simp: scan_digits_append digits_all scan_digits_digits)
  obtain c r where d: "digits (nat \<bar>v\<bar>) = c # r" using digits_nonempty by (meson list.exhaust)
  have c: "is_digit c" using digits_all [of "nat \<bar>v\<bar>"] d by simp
  then have "\<not> is_space c" "c \<noteq> 45" "c \<noteq> 43"
    by (auto simp: is_digit_def is_space_def word_le_nat_alt)
  then show ?thesis
    using s [of "nat \<bar>v\<bar>"] c d by (auto simp: dec_def scan_int_def is_space_def split: if_splits)
qed

lemma sprintf_ok:
  "length s < length dest \<Longrightarrow> sprintf dest s = Some (s @ 0 # drop (Suc (length s)) dest)"
  by (simp add: sprintf_def wr_seq_eq)

lemma sprintf_overflow: "length dest \<le> length s \<Longrightarrow> sprintf dest s = None"
  by (simp add: sprintf_def wr_seq_None)

end
