(* ===== verification/Show_Info.thy ===== *)
theory Show_Info
  imports Sensor_Operation C_Text
begin

text \<open>
  The \<open>getShowInfo\<close> functions of \<open>Task/Sensor_Operation.c\<close>: the texts of a measuring point
  for the display. The five char arrays of \<open>TestpointShowInfo\<close> are separate lists; text that
  does not fit its array is undefined.
\<close>

section \<open>The functions\<close>

record TestpointShowInfo =
  si_testpointNo :: "u8 list"
  si_location :: "u8 list"
  si_sensorType :: "u8 list"
  si_collectData :: "u8 list"
  si_portType :: "u8 list"

text \<open>The initialiser: empty strings, the rest of each array filled with zeros.\<close>

definition no_info :: TestpointShowInfo where
  "no_info = \<lparr>si_testpointNo = replicate 34 0, si_location = replicate 32 0, si_sensorType = replicate 16 0,
     si_collectData = replicate 8 0, si_portType = replicate 8 0\<rparr>"

text \<open>The word for sensor (GB2312) after the name, and the marks of the two kinds of port.\<close>

definition sensor_word :: "u8 list" where
  "sensor_word = [0xB4, 0xAB, 0xB8, 0xD0, 0xC6, 0xF7]"

definition mark_F :: "u8 list" where "mark_F = [0x28, 0x46, 0x29]"
definition mark_D :: "u8 list" where "mark_D = [0x28, 0x44, 0x29]"

definition show_port :: "u16 \<Rightarrow> TestpointShowInfo \<Rightarrow> TestpointShowInfo option" where
  "show_port port si = do {
     row \<leftarrow> getPortType port;
     p \<leftarrow> strcpy (si_portType si) (row @ [0]);
     Some (si\<lparr>si_portType := p\<rparr>) }"

definition show_name :: "u16 \<Rightarrow> u8 list \<Rightarrow> TestpointShowInfo \<Rightarrow> TestpointShowInfo option" where
  "show_name name suffix si = do {
     row \<leftarrow> getSensorName name;
     t \<leftarrow> sprintf (si_sensorType si) (row @ suffix);
     Some (si\<lparr>si_sensorType := t\<rparr>) }"

definition show_location :: "u8 list \<Rightarrow> TestpointShowInfo \<Rightarrow> TestpointShowInfo option" where
  "show_location loc si = do {
     l \<leftarrow> strcpy (si_location si) loc;
     Some (si\<lparr>si_location := l\<rparr>) }"

definition show_values :: "Upload_Info \<Rightarrow> TestpointShowInfo \<Rightarrow> TestpointShowInfo option" where
  "show_values up si = do {
     n \<leftarrow> sprintf (si_testpointNo si) (dec (sint (up_testpointNo up)));
     v \<leftarrow> sprintf (si_collectData si) (dec (sint (collectData up)));
     Some (si\<lparr>si_testpointNo := n, si_collectData := v\<rparr>) }"

fun getShowInfo_Analogue :: "Testpoint option \<Rightarrow> TestpointShowInfo option" where
  "getShowInfo_Analogue None = Some no_info"
| "getShowInfo_Analogue (Some tp) =
     (if config tp = None then Some no_info
      else do {
        c \<leftarrow> as_analogue (config tp);
        si \<leftarrow> show_location (location c) no_info;
        let aaa = unat (portType c) div 16;
        si \<leftarrow> (if aaa = 0 then show_name (sensorName c) (sensor_word @ mark_F) si
               else if aaa = 1 then show_name (sensorName c) (sensor_word @ mark_D) si
               else Some si);
        si \<leftarrow> show_port (portType c) si;
        show_values (upload tp) si })"

fun getShowInfo_Switch :: "Testpoint option \<Rightarrow> TestpointShowInfo option" where
  "getShowInfo_Switch None = Some no_info"
| "getShowInfo_Switch (Some tp) =
     (if config tp = None then Some no_info
      else do {
        c \<leftarrow> as_switch (config tp);
        si \<leftarrow> show_location (location c) no_info;
        si \<leftarrow> show_name (sensorName c) sensor_word si;
        si \<leftarrow> show_port (portType c) si;
        show_values (upload tp) si })"

fun getShowInfo_Accumulate :: "Testpoint option \<Rightarrow> TestpointShowInfo option" where
  "getShowInfo_Accumulate None = Some no_info"
| "getShowInfo_Accumulate (Some tp) =
     (if config tp = None then Some no_info
      else do {
        c \<leftarrow> as_accumulate (config tp);
        si \<leftarrow> show_location (location c) no_info;
        si \<leftarrow> show_name (sensorName c) sensor_word si;
        si \<leftarrow> show_port (portType c) si;
        show_values (upload tp) si })"

fun getShowInfo_Tristate :: "Testpoint option \<Rightarrow> TestpointShowInfo option" where
  "getShowInfo_Tristate None = Some no_info"
| "getShowInfo_Tristate (Some tp) =
     (if config tp = None then Some no_info
      else do {
        c \<leftarrow> as_tristate (config tp);
        si \<leftarrow> show_location (location c) no_info;
        si \<leftarrow> show_name (sensorName c) sensor_word si;
        si \<leftarrow> show_port (portType c) si;
        show_values (upload tp) si })"

section \<open>When the texts fit\<close>

lemma no_info_lengths:
  "length (si_testpointNo no_info) = 34" "length (si_location no_info) = 32" "length (si_sensorType no_info) = 16"
  "length (si_collectData no_info) = 8" "length (si_portType no_info) = 8"
  by (simp_all add: no_info_def)

lemma rows_no_nul:
  "list_all (\<lambda>r. length r \<le> 5 \<and> 0 \<notin> set r) PortTable" "list_all (\<lambda>r. 0 \<notin> set r) SensorTable"
  by (simp_all add: PortTable_def SensorTable_def)

lemma getPortType_row: "\<exists>row. getPortType p = Some row \<and> length row \<le> 5 \<and> 0 \<notin> set row"
proof -
  have "\<exists>i < length PortTable. getPortType p = Some (PortTable ! i)"
    by (cases "unat p < 64") (auto simp: getPortType_def length_PortTable intro: exI [of _ "unat p mod 16"] exI [of _ 16])
  then show ?thesis using rows_no_nul(1) by (auto simp: list_all_length)
qed

lemma getSensorName_no_nul: "getSensorName n = Some row \<Longrightarrow> 0 \<notin> set row"
  using rows_no_nul(2) by (auto simp: getSensorName_def list_all_length split: option.splits if_splits)

lemma c_str_sprintf: "0 \<notin> set s \<Longrightarrow> sprintf dest s = Some t \<Longrightarrow> c_str t = s \<and> length t = length dest"
  by (cases "length s < length dest") (auto simp: sprintf_ok sprintf_overflow not_less)

lemma sprintf_fits: "(\<exists>t. sprintf dest s = Some t) \<longleftrightarrow> length s < length dest"
  by (cases "length s < length dest") (auto simp: sprintf_ok sprintf_overflow not_less)

lemma strcpy_fits_iff: "(\<exists>t. strcpy dest src = Some t) \<longleftrightarrow> fits_string (length dest) src"
proof (cases "0 \<in> set src")
  case True
  then show ?thesis
    using sprintf_fits [of dest "c_str src"] by (simp add: strcpy_def sprintf_def fits_string_def)
qed (simp add: strcpy_def fits_string_def)

lemma show_port_ok:
  "length (si_portType si) = 8 \<Longrightarrow>
     \<exists>t row. show_port p si = Some (si\<lparr>si_portType := t\<rparr>) \<and> getPortType p = Some row \<and> c_str t = row"
proof -
  assume l: "length (si_portType si) = 8"
  obtain row where r: "getPortType p = Some row" "length row \<le> 5" "0 \<notin> set row" using getPortType_row by blast
  then have "fits_string (length (si_portType si)) (row @ [0])" using l by (simp add: fits_string_def)
  then obtain t where t: "strcpy (si_portType si) (row @ [0]) = Some t" using strcpy_fits by blast
  then have "c_str t = row" using strcpy_c_str [OF t] r(3) by simp
  with r(1) t show ?thesis by (auto simp: show_port_def)
qed

lemma length_dec:
  "length (dec v) < 8 \<longleftrightarrow> - 999999 \<le> v \<and> v \<le> 9999999"
proof (cases "v < 0")
  case True
  then have "length (dec v) < 8 \<longleftrightarrow> length (digits (nat (- v))) \<le> 6" by (auto simp: dec_def)
  with True show ?thesis by (auto simp: length_digits)
next
  case False
  then have "length (dec v) < 8 \<longleftrightarrow> length (digits (nat v)) \<le> 7" by (auto simp: dec_def)
  with False show ?thesis by (auto simp: length_digits)
qed

lemma length_dec_int: "length (dec (sint (w :: i32))) \<le> 11"
proof -
  have b: "\<bar>sint w\<bar> \<le> 2147483648" using sint_range_size [of w] by (simp add: word_size abs_le_iff)
  have "length (digits n) \<le> 10" if "n \<le> 2147483648" for n using that by (simp add: length_digits)
  then have "length (digits (nat (sint w))) \<le> 10" "length (digits (nat (- sint w))) \<le> 10" using b by simp_all
  then show ?thesis by (simp add: dec_def)
qed

lemma show_values_iff:
  assumes "length (si_testpointNo si) = 34" and "length (si_collectData si) = 8"
  shows "(\<exists>t. show_values up si = Some t) \<longleftrightarrow> length (dec (sint (collectData up))) < 8"
proof -
  obtain n where "sprintf (si_testpointNo si) (dec (sint (up_testpointNo up))) = Some n"
    using sprintf_fits [of "si_testpointNo si" "dec (sint (up_testpointNo up))"] assms(1)
      length_dec_int [of "up_testpointNo up"] by auto
  then show ?thesis
    using sprintf_fits [of "si_collectData si" "dec (sint (collectData up))"] assms(2)
    by (auto simp: show_values_def bind_eq_Some_conv)
qed

text \<open>The part of the four functions after the place name: name of the sensor, port, values.\<close>

lemma show_rest_iff:
  assumes "length (si_testpointNo si) = 34" and "length (si_collectData si) = 8" and "length (si_portType si) = 8"
  shows "(\<exists>t. show_port p si \<bind> show_values up = Some t) \<longleftrightarrow> length (dec (sint (collectData up))) < 8"
proof -
  obtain t where "show_port p si = Some (si\<lparr>si_portType := t\<rparr>)" using show_port_ok [OF assms(3)] by blast
  then show ?thesis using show_values_iff [of "si\<lparr>si_portType := t\<rparr>" up] assms by simp
qed

lemma show_name_iff:
  "length (si_sensorType si) = 16 \<Longrightarrow>
     (\<exists>t. show_name n suffix si = Some t) \<longleftrightarrow> (\<exists>row. getSensorName n = Some row \<and> length row + length suffix < 16)"
  using sprintf_fits [of "si_sensorType si" "the (getSensorName n) @ suffix"]
  by (cases "getSensorName n") (auto simp: show_name_def bind_eq_Some_conv)

lemma show_name_frame:
  "show_name n suffix si = Some t \<Longrightarrow> \<exists>x. t = si\<lparr>si_sensorType := x\<rparr>"
  by (auto simp: show_name_def bind_eq_Some_conv)

lemma show_all_iff:
  assumes "show_location loc no_info = Some si"
  shows "(\<exists>t. show_name n suffix si \<bind> (\<lambda>si. show_port p si \<bind> show_values up) = Some t) \<longleftrightarrow>
     (\<exists>row. getSensorName n = Some row \<and> length row + length suffix < 16) \<and> length (dec (sint (collectData up))) < 8"
proof -
  obtain l where si: "si = no_info\<lparr>si_location := l\<rparr>" using assms by (auto simp: show_location_def bind_eq_Some_conv)
  have n: "(\<exists>t. show_name n suffix si = Some t) \<longleftrightarrow> (\<exists>row. getSensorName n = Some row \<and> length row + length suffix < 16)"
    by (rule show_name_iff) (simp add: si no_info_lengths)
  show ?thesis
  proof (cases "show_name n suffix si")
    case None
    then show ?thesis using n by auto
  next
    case (Some t)
    then obtain x where "t = si\<lparr>si_sensorType := x\<rparr>" using show_name_frame by blast
    then show ?thesis using n Some show_rest_iff [of t p up] by (simp add: si no_info_lengths)
  qed
qed

lemma show_location_iff: "(\<exists>si. show_location loc no_info = Some si) \<longleftrightarrow> fits_string 32 loc"
  using strcpy_fits_iff [of "si_location no_info" loc] by (auto simp: show_location_def bind_eq_Some_conv no_info_lengths)

lemma show_all_texts:
  assumes "show_location loc no_info = Some si1" and "si2 = si1 \<or> show_name n suffix si1 = Some si2"
    and "show_port p si2 = Some si3" and "show_values up si3 = Some si"
  shows "c_str (si_location si) = c_str loc \<and> getPortType p = Some (c_str (si_portType si))
     \<and> c_str (si_testpointNo si) = dec (sint (up_testpointNo up)) \<and> c_str (si_collectData si) = dec (sint (collectData up))"
proof -
  obtain l where l: "strcpy (replicate 32 0) loc = Some l" "si1 = no_info\<lparr>si_location := l\<rparr>"
    using assms(1) by (auto simp: show_location_def bind_eq_Some_conv no_info_def)
  have "\<exists>x. si2 = si1\<lparr>si_sensorType := x\<rparr>"
    using assms(2) show_name_frame by (auto intro: exI [of _ "si_sensorType si1"])
  then obtain x where x: "si2 = si1\<lparr>si_sensorType := x\<rparr>" ..
  obtain t row where t: "si3 = si2\<lparr>si_portType := t\<rparr>" "getPortType p = Some row" "c_str t = row"
    using show_port_ok [of si2 p] assms(3) x l(2) by (auto simp: no_info_lengths)
  obtain a v where "sprintf (si_testpointNo si3) (dec (sint (up_testpointNo up))) = Some a"
      "sprintf (si_collectData si3) (dec (sint (collectData up))) = Some v" "si = si3\<lparr>si_testpointNo := a, si_collectData := v\<rparr>"
    using assms(4) by (auto simp: show_values_def bind_eq_Some_conv)
  then show ?thesis
    using strcpy_c_str [OF l(1)] c_str_sprintf dec_no_nul l(2) x t by auto
qed

lemmas show_named = show_all_texts [OF _ disjI2]
lemmas show_unnamed = show_all_texts [OF _ disjI1 [OF refl]]

text \<open>The chain of calls the functions of all four classes make.\<close>

lemma show_chain:
  assumes "(show_location loc no_info \<bind> (\<lambda>si. show_name n suffix si \<bind> (\<lambda>si. show_port p si \<bind> show_values up))) = Some si"
  shows "c_str (si_location si) = c_str loc \<and> getPortType p = Some (c_str (si_portType si))
     \<and> c_str (si_testpointNo si) = dec (sint (up_testpointNo up)) \<and> c_str (si_collectData si) = dec (sint (collectData up))"
  using assms by (auto simp only: bind_eq_Some_conv dest: show_named)

lemma show_chain_unnamed:
  assumes "(show_location loc no_info \<bind> (\<lambda>si. show_port p si \<bind> show_values up)) = Some si"
  shows "c_str (si_location si) = c_str loc \<and> getPortType p = Some (c_str (si_portType si))
     \<and> c_str (si_testpointNo si) = dec (sint (up_testpointNo up)) \<and> c_str (si_collectData si) = dec (sint (collectData up))"
  using assms by (auto simp only: bind_eq_Some_conv dest: show_unnamed)

lemma getShowInfo_Analogue_fits_iff:
  assumes "config tp = Some (AnalogueC c)"
  shows "getShowInfo_Analogue (Some tp) \<noteq> None \<longleftrightarrow>
     fits_string 32 (location c)
     \<and> (unat (portType c) < 32 \<longrightarrow> (\<exists>row. getSensorName (sensorName c) = Some row \<and> length row \<le> 6))
     \<and> - 999999 \<le> sint (collectData (upload tp)) \<and> sint (collectData (upload tp)) \<le> 9999999"
proof (cases "show_location (location c) no_info")
  case None
  then show ?thesis using assms show_location_iff [of "location c"] by simp
next
  case (Some si)
  have f: "length (si_testpointNo si) = 34" "length (si_collectData si) = 8" "length (si_portType si) = 8"
    using Some by (auto simp: show_location_def bind_eq_Some_conv no_info_lengths)
  have p: "unat (portType c) div 16 = 0 \<longleftrightarrow> unat (portType c) < 16"
      "unat (portType c) div 16 = 1 \<longleftrightarrow> 16 \<le> unat (portType c) \<and> unat (portType c) < 32"
    by linarith+
  have w: "length (sensor_word @ mark_F) = 9" "length (sensor_word @ mark_D) = 9"
    by (simp_all add: sensor_word_def mark_F_def mark_D_def)
  have l: "fits_string 32 (location c)" using Some show_location_iff [of "location c"] by blast
  let ?name = "\<exists>row. getSensorName (sensorName c) = Some row \<and> length row \<le> 6"
  let ?val = "length (dec (sint (collectData (upload tp)))) < 8"
  have six: "length row + 9 < 16 \<longleftrightarrow> length row \<le> 6" for row :: "u8 list" by linarith
  consider "unat (portType c) < 16" | "16 \<le> unat (portType c) \<and> unat (portType c) < 32" | "32 \<le> unat (portType c)"
    by linarith
  then have "(\<exists>t. getShowInfo_Analogue (Some tp) = Some t) \<longleftrightarrow> (unat (portType c) < 32 \<longrightarrow> ?name) \<and> ?val"
  proof cases
    case 1
    with show_all_iff [OF Some, of "sensorName c" "sensor_word @ mark_F" "portType c" "upload tp"]
    show ?thesis using assms Some p by (simp add: Let_def w six del: length_append)
  next
    case 2
    with show_all_iff [OF Some, of "sensorName c" "sensor_word @ mark_D" "portType c" "upload tp"]
    show ?thesis using assms Some p by (simp add: Let_def w six del: length_append)
  next
    case 3
    with show_rest_iff [OF f, of "portType c" "upload tp"]
    show ?thesis using assms Some p by (simp add: Let_def)
  qed
  then show ?thesis using l length_dec by auto
qed

section \<open>A concrete switch\<close>

definition ex_switch :: Switch_Config where
  "ex_switch = \<lparr>testpointNo = 8, sensorName = 20003, location = 0x41 # 0x31 # replicate 28 0, portType = 50,
     outputControl = (0x20, 0xFF)\<rparr>"

lemma ex_switch_shown: "\<exists>si. getShowInfo_Switch (Some (ex_point\<lparr>config := Some (SwitchC ex_switch)\<rparr>)) = Some si"
proof -
  have "fits_string 32 (location ex_switch)" by (simp add: ex_switch_def fits_string_def c_str_def)
  then obtain si1 where l: "show_location (location ex_switch) no_info = Some si1" using show_location_iff by blast
  have "getSensorName (sensorName ex_switch) = Some [0xB7, 0xE7, 0xC3, 0xC5]"
    by (simp add: ex_switch_def getSensorName_def sensor_row_def SensorTable_def)
  then have "\<exists>t. show_name (sensorName ex_switch) sensor_word si1
      \<bind> (\<lambda>si. show_port (portType ex_switch) si \<bind> show_values (upload ex_point)) = Some t"
    by (subst show_all_iff [OF l]) (simp add: sensor_word_def ex_point_def length_dec)
  then show ?thesis using l by (simp add: ex_point_def)
qed

section \<open>Properties\<close>

text \<open>The texts of an analogue point are defined exactly when they fit: the place name needs fewer
  than 32 bytes, on a frequency or current port the sensor number must have a name of at most
  six bytes (the longer names, such as that of the carbon monoxide sensor, overflow the 16-byte
  array), and the value at most seven characters.\<close>

theorem getShowInfo_Analogue_fits:
  assumes "config tp = Some (AnalogueC c)"
  shows "getShowInfo_Analogue (Some tp) \<noteq> None \<longleftrightarrow>
     fits_string 32 (location c)
     \<and> (unat (portType c) < 32 \<longrightarrow> (\<exists>row. getSensorName (sensorName c) = Some row \<and> length row \<le> 6))
     \<and> - 999999 \<le> sint (collectData (upload tp)) \<and> sint (collectData (upload tp)) \<le> 9999999"
  by (rule getShowInfo_Analogue_fits_iff [OF assms])

theorem getShowInfo_Analogue_fits_witness:
  "getShowInfo_Analogue (Some ex_point) \<noteq> None
   \<and> getShowInfo_Analogue (Some (ex_point\<lparr>config := Some (AnalogueC (ex_analogue\<lparr>sensorName := 10002\<rparr>))\<rparr>)) = None"
proof -
  have n: "getSensorName 10001 = Some [0xCD, 0xDF, 0xCB, 0xB9]"
      "getSensorName 10002 = Some [0xB8, 0xDF, 0xB5, 0xCD, 0xC5, 0xA8, 0xB6, 0xC8, 0xCD, 0xDF, 0xCB, 0xB9]"
    by (simp_all add: getSensorName_def sensor_row_def SensorTable_def)
  have "getShowInfo_Analogue (Some ex_point) \<noteq> None"
    by (subst getShowInfo_Analogue_fits [of _ ex_analogue]) (simp_all add: ex_defs n fits_string_def c_str_def)
  moreover have "\<not> getShowInfo_Analogue (Some (ex_point\<lparr>config := Some (AnalogueC (ex_analogue\<lparr>sensorName := 10002\<rparr>))\<rparr>)) \<noteq> None"
    by (subst getShowInfo_Analogue_fits [of _ "ex_analogue\<lparr>sensorName := 10002\<rparr>"]) (simp_all add: ex_defs n)
  ultimately show ?thesis by blast
qed

text \<open>Whenever the texts of a point of any class are defined, they show the configured place name and
  port and the decimal numbers of the point and of its value, and scanning the value's text gives
  the value back.\<close>

theorem getShowInfo_texts:
  assumes "config tp = Some cf" and "class_of cf = Some k"
    and "(case k of Analogue \<Rightarrow> getShowInfo_Analogue | Switch \<Rightarrow> getShowInfo_Switch
          | Accumulate \<Rightarrow> getShowInfo_Accumulate | Tristate \<Rightarrow> getShowInfo_Tristate) (Some tp) = Some si"
  shows "c_str (si_location si) = c_str (cfg_location cf) \<and> getPortType (cfg_port cf) = Some (c_str (si_portType si))
     \<and> c_str (si_testpointNo si) = dec (sint (up_testpointNo (upload tp)))
     \<and> scan_int (c_str (si_collectData si)) = Some (sint (collectData (upload tp)), [])"
proof -
  have s: "scan_int (dec v) = Some (v, [])" for v using scan_int_dec [of "[]" v] by simp
  have "c_str (si_location si) = c_str (cfg_location cf) \<and> getPortType (cfg_port cf) = Some (c_str (si_portType si))
     \<and> c_str (si_testpointNo si) = dec (sint (up_testpointNo (upload tp)))
     \<and> c_str (si_collectData si) = dec (sint (collectData (upload tp)))"
  proof (cases cf)
    case (AnalogueC c)
    consider "unat (portType c) div 16 = 0" | "unat (portType c) div 16 = 1"
      | "unat (portType c) div 16 \<noteq> 0" "unat (portType c) div 16 \<noteq> 1" by blast
    then show ?thesis
      using assms AnalogueC
      by cases (auto simp: Let_def dest!: show_chain show_chain_unnamed simp del: Option.bind_eq_Some_conv)
  qed (use assms in \<open>auto dest!: show_chain simp del: Option.bind_eq_Some_conv\<close>)
  then show ?thesis using s by metis
qed

theorem getShowInfo_texts_witness:
  "\<exists>si. getShowInfo_Switch (Some (ex_point\<lparr>config := Some (SwitchC ex_switch)\<rparr>)) = Some si
     \<and> c_str (si_location si) = [0x41, 0x31] \<and> scan_int (c_str (si_collectData si)) = Some (0, [])"
proof -
  let ?tp = "ex_point\<lparr>config := Some (SwitchC ex_switch)\<rparr>"
  obtain si where si: "getShowInfo_Switch (Some ?tp) = Some si"
    using ex_switch_shown by blast
  show ?thesis
    using getShowInfo_texts [of ?tp "SwitchC ex_switch" Switch si] si
    by (simp add: ex_point_def ex_switch_def c_str_def)
qed

end
