(* ===== verification/Display.thy ===== *)
theory Display
  imports Acquisition Show_Info
begin

text \<open>
  The paint handler of \<open>User/user_menu.c\<close>: besides redrawing the table it computes the output
  channels. For each measuring point it asks for its texts, its alarm state and whether its
  channels are to be cut or restored; the complement of the collected mask becomes the output
  byte of the next control frame. Calls of the GUI library are recorded in order; the texts of
  the clock and of the network address are left out.
\<close>

section \<open>The handler\<close>

datatype colour = Red | White

datatype gui_call =
    FrameText bool
  | IncSel
  | DecSel
  | ItemTextColor nat u32 colour
  | ItemText nat u32 "u8 list"
  | Led nat bool

record Ui =
  ui_k :: u32
  ui_testNo :: u32
  ui_currentWin :: int
  ui_substType :: u8

fun call_getShowInfo :: "Sensor_Class option \<Rightarrow> Testpoint option \<Rightarrow> TestpointShowInfo option" where
  "call_getShowInfo None tp = None"
| "call_getShowInfo (Some Analogue) tp = getShowInfo_Analogue tp"
| "call_getShowInfo (Some Switch) tp = getShowInfo_Switch tp"
| "call_getShowInfo (Some Accumulate) tp = getShowInfo_Accumulate tp"
| "call_getShowInfo (Some Tristate) tp = getShowInfo_Tristate tp"

definition row_colour :: "colour \<Rightarrow> u32 \<Rightarrow> gui_call list" where
  "row_colour c i = map (\<lambda>col. ItemTextColor col i c) [0..<5]"

definition row_texts :: "u32 \<Rightarrow> u8 list \<Rightarrow> TestpointShowInfo \<Rightarrow> gui_call list" where
  "row_texts i str si = [ItemText 0 i (c_str str), ItemText 1 i (c_str (si_sensorType si)),
     ItemText 2 i (c_str (si_location si)), ItemText 3 i (c_str (si_collectData si)),
     ItemText 4 i (c_str (si_portType si))]"

text \<open>The bits a point adds to the mask: its channels to cut, and its channels to restore.\<close>

definition point_bits :: "Testpoint \<Rightarrow> u8 \<Rightarrow> u8 option" where
  "point_bits tp ret = do {
     cut \<leftarrow> call_ifOutput (p_ifOutput tp) tp;
     ret \<leftarrow> (if cut then map_option (\<lambda>m. ret OR m) (call_controlOutput (p_controlOutput tp) tp) else Some ret);
     restore \<leftarrow> call_ifRecover (p_ifRecover tp) tp;
     (if restore then map_option (\<lambda>m. ret OR m) (call_controlRecover (p_controlRecover tp) tp) else Some ret) }"

definition paint_node :: "addr \<Rightarrow> u32 \<Rightarrow> u8 \<Rightarrow> App \<Rightarrow> (outcome \<times> u8 \<times> gui_call list) option" where
  "paint_node a i ret s = do {
     str \<leftarrow> sprintf (replicate 16 0) (dec (sint (i + 1)));
     tp \<leftarrow> heap s a;
     r \<leftarrow> take_sem (EquipmentSem tp) 0 s;
     (case r of
        Waits ev s \<Rightarrow> Some (Waits ev s, ret, [])
      | Ran s \<Rightarrow> do {
          tp \<leftarrow> heap s a;
          tpShow \<leftarrow> call_getShowInfo (p_getShowInfo tp) (Some tp);
          al \<leftarrow> call_ifAlarm (p_ifAlarm tp) tp;
          li \<leftarrow> call_ifLiftAlarm (p_ifLiftAlarm tp) tp;
          ret \<leftarrow> point_bits tp ret;
          s \<leftarrow> give_sem (EquipmentSem tp) s;
          Some (Ran s, ret,
            (if al then row_colour Red i else []) @ (if li then row_colour White i else [])
              @ row_texts i str tpShow) }) }"

text \<open>The row counter starts again at the fifteenth row.\<close>

definition next_row :: "u32 \<Rightarrow> u32" where
  "next_row i = (if i + 1 \<ge> 15 then 0 else i + 1)"

partial_function (option) paint_loop ::
    "addr option \<Rightarrow> u32 \<Rightarrow> u8 \<Rightarrow> gui_call list \<Rightarrow> App \<Rightarrow> (outcome \<times> u8 \<times> gui_call list) option" where
  "paint_loop p i ret log s =
     (case p of
        None \<Rightarrow> Some (Ran s, ret, log)
      | Some a \<Rightarrow> do {
          (r, ret, calls) \<leftarrow> paint_node a i ret s;
          (case r of
             Waits ev s \<Rightarrow> Some (Waits ev s, ret, log @ calls)
           | Ran s \<Rightarrow> do {
               tp \<leftarrow> heap s a;
               paint_loop (link tp) (next_row i) ret (log @ calls) s }) })"

text \<open>Moving the selection: one row down every thirtieth paint, back to the top after fifteen.\<close>

definition scroll :: "Ui \<Rightarrow> Ui \<times> gui_call list" where
  "scroll u =
     (if ui_k u mod 30 = 0 then
        let down = (if ui_currentWin u = 0 then [IncSel] else []);
            u = u\<lparr>ui_testNo := ui_testNo u + 1\<rparr> in
        if ui_currentWin u = 0 \<and> ui_testNo u \<ge> 15
        then (u\<lparr>ui_testNo := 0\<rparr>, down @ replicate 15 DecSel)
        else (u, down)
      else (u, []))"

definition leds :: "u8 \<Rightarrow> gui_call list" where
  "leds out = map (\<lambda>i. Led i (drop_bit i out AND 1 \<noteq> 0)) [0..<8]"

definition OnPaint :: "Ui \<Rightarrow> App \<Rightarrow> (outcome \<times> Ui \<times> gui_call list) option" where
  "OnPaint u s = do {
     p \<leftarrow> (case EquipmentList s of None \<Rightarrow> Some None | Some h \<Rightarrow> map_option link (heap s h));
     let log = [FrameText (ui_substType u = 0)];
     let (u, calls) = scroll u;
     (r, ret, log) \<leftarrow> paint_loop p 0 0 (log @ calls) s;
     (case r of
        Waits ev s \<Rightarrow> Some (Waits ev s, u, log)
      | Ran s \<Rightarrow> do {
          r \<leftarrow> take_sem (UartSendTaskSem s) 1000 s;
          (case r of
             Waits ev s \<Rightarrow> Some (Waits ev s, u, log)
           | Ran s \<Rightarrow> do {
               let s = s\<lparr>uart1SendInfo := (uart1SendInfo s)\<lparr>outPut := NOT ret\<rparr>\<rparr>;
               s \<leftarrow> give_sem (UartSendTaskSem s) s;
               Some (Ran s, u, log @ leds (outPut (uart1SendInfo s))) }) }) }"

section \<open>What a point contributes\<close>

text \<open>Whether the point asks for channel \<open>j\<close> to be set in the mask.\<close>

definition asks :: "Testpoint \<Rightarrow> nat \<Rightarrow> bool" where
  "asks tp j = (case config tp of
     Some (AnalogueC c) \<Rightarrow>
       reaches (outage c) (collectData (upload tp)) \<and> bit (out_mask (outputControl c)) j
       \<or> reaches (recover c) (collectData (upload tp)) \<and> \<not> bit (out_mask (outputControl c)) j
   | _ \<Rightarrow> False)"

lemma point_bits_ok:
  assumes "point_ok cls cf tp"
  shows "\<exists>m. point_bits tp ret = Some m \<and> (\<forall>j < 8. bit m j \<longleftrightarrow> bit ret j \<or> asks tp j)"
proof (cases cf)
  case (AnalogueC c)
  then have k: "cls = Analogue" "config tp = Some (AnalogueC c)" using assms by (auto simp: point_ok_def)
  have p: "p_ifOutput tp = Some Analogue" "p_ifRecover tp = Some Analogue"
      "p_controlOutput tp = Some Analogue" "p_controlRecover tp = Some Analogue"
    using assms k by (auto simp: point_ok_def)
  show ?thesis
    using k p decisions_Analogue [OF k(2)] controlOutput_Analogue_eq [OF k(2)] controlRecover_Analogue_eq [OF k(2)]
    by (auto simp: point_bits_def asks_def bit_or_iff bit_not_iff)
qed (use assms in \<open>auto simp: point_ok_def point_bits_def asks_def constant_decisions\<close>)

lemma point_decisions:
  assumes "point_ok cls cf tp"
  shows "\<exists>al li. call_ifAlarm (p_ifAlarm tp) tp = Some al \<and> call_ifLiftAlarm (p_ifLiftAlarm tp) tp = Some li"
  using assms node.decisions_defined [of tp cf cls] by (auto simp: point_ok_def)

definition shown_ok :: "Testpoint \<Rightarrow> bool" where
  "shown_ok tp \<longleftrightarrow> (\<exists>si. call_getShowInfo (p_getShowInfo tp) (Some tp) = Some si)"

lemma row_number: "\<exists>str. sprintf (replicate 16 0) (dec (sint (i :: u32))) = Some str"
  using sprintf_fits [of "replicate 16 0" "dec (sint i)"] length_dec_int [of i] by auto

lemma paint_node_ok:
  assumes k: "os_quiet uq sems (os s)"
    and tp: "heap s a = Some tp" "point_ok cls cf tp" "EquipmentSem tp = Some ev" "ev \<in> sems" "shown_ok tp"
  shows "\<exists>k' ret' calls. paint_node a i ret s = Some (Ran (s\<lparr>os := k'\<rparr>), ret', calls)
     \<and> os_quiet uq sems k' \<and> (\<forall>j < 8. bit ret' j \<longleftrightarrow> bit ret j \<or> asks tp j)"
proof -
  obtain str where str: "sprintf (replicate 16 0) (dec (sint (i + 1))) = Some str" using row_number by blast
  obtain k1 err k3 where o: "OSSemPend ev 0 (os s) = Some (Done () OS_ERR_NONE, k1)"
      "OSSemPost ev k1 = Some (err, k3)" "os_quiet uq sems k3"
    using sem_pass [OF k tp(4)] by blast
  obtain m where m: "point_bits tp ret = Some m" "\<forall>j < 8. bit m j \<longleftrightarrow> bit ret j \<or> asks tp j"
    using point_bits_ok [OF tp(2)] by blast
  obtain al li where d: "call_ifAlarm (p_ifAlarm tp) tp = Some al" "call_ifLiftAlarm (p_ifLiftAlarm tp) tp = Some li"
    using point_decisions [OF tp(2)] by blast
  obtain si where si: "call_getShowInfo (p_getShowInfo tp) (Some tp) = Some si" using tp(5) by (auto simp: shown_ok_def)
  have "\<exists>calls. paint_node a i ret s = Some (Ran (s\<lparr>os := k3\<rparr>), m, calls)"
    using tp(1,3) str o(1,2) m(1) d si by (simp add: paint_node_def take_sem_def give_sem_def)
  then show ?thesis using o(3) m(2) by blast
qed

lemma paint_loop_ok:
  "chain (heap s) p as \<Longrightarrow> points_ok (heap s) sems as \<Longrightarrow> \<forall>a \<in> set as. \<forall>tp. heap s a = Some tp \<longrightarrow> shown_ok tp \<Longrightarrow>
   os_quiet uq sems (os s) \<Longrightarrow>
     \<exists>k' ret' log'. paint_loop p i ret log s = Some (Ran (s\<lparr>os := k'\<rparr>), ret', log') \<and> os_quiet uq sems k'
       \<and> (\<forall>j < 8. bit ret' j \<longleftrightarrow> bit ret j \<or> (\<exists>a \<in> set as. \<exists>tp. heap s a = Some tp \<and> asks tp j))"
proof (induction as arbitrary: p i ret log s)
  case Nil
  then show ?case
    by (subst paint_loop.simps) (auto intro!: exI [of _ "os s"])
next
  case (Cons a as)
  from Cons.prems(1,2) obtain tp cls cf ev where tp: "p = Some a" "heap s a = Some tp"
      "point_ok cls cf tp" "EquipmentSem tp = Some ev" "ev \<in> sems" "chain (heap s) (link tp) as"
    by (auto simp: points_ok_def)
  have "shown_ok tp" using Cons.prems(3) tp(2) by simp
  then obtain k1 ret1 calls where n: "paint_node a i ret s = Some (Ran (s\<lparr>os := k1\<rparr>), ret1, calls)"
      "os_quiet uq sems k1" "\<forall>j < 8. bit ret1 j \<longleftrightarrow> bit ret j \<or> asks tp j"
    using paint_node_ok [OF Cons.prems(4) tp(2-5)] by blast
  have po: "points_ok (heap s) sems as" using Cons.prems(2) by (simp add: points_ok_def)
  have sh: "\<forall>a \<in> set as. \<forall>tp. heap s a = Some tp \<longrightarrow> shown_ok tp" using Cons.prems(3) by simp
  obtain k' ret' log' where l: "paint_loop (link tp) (next_row i) ret1 (log @ calls) (s\<lparr>os := k1\<rparr>)
        = Some (Ran (s\<lparr>os := k1, os := k'\<rparr>), ret', log')" "os_quiet uq sems k'"
      "\<forall>j < 8. bit ret' j \<longleftrightarrow> bit ret1 j \<or> (\<exists>a \<in> set as. \<exists>tp. heap s a = Some tp \<and> asks tp j)"
    using Cons.IH [of "s\<lparr>os := k1\<rparr>" "link tp" "next_row i" ret1 "log @ calls"] tp(6) po sh n(2) by auto
  have "paint_loop p i ret log s = Some (Ran (s\<lparr>os := k'\<rparr>), ret', log')"
    using tp(1,2) n(1) l(1) by (subst paint_loop.simps) simp
  then show ?case using l(2,3) n(3) tp(2) by (intro exI conjI) auto
qed

lemma OnPaint_runs:
  assumes "EquipmentList s = Some head" and "list_at (heap s) head as" and "points_ok (heap s) sems as"
    and "\<forall>a \<in> set as. \<forall>tp. heap s a = Some tp \<longrightarrow> shown_ok tp"
    and "os_quiet uq sems (os s)" and "UartSendTaskSem s = Some ssem" and "ssem \<in> sems"
  shows "\<exists>k' out u' log. OnPaint u s = Some (Ran (s\<lparr>os := k', uart1SendInfo := (uart1SendInfo s)\<lparr>outPut := out\<rparr>\<rparr>), u', log)
     \<and> os_quiet uq sems k'
     \<and> (\<forall>j < 8. bit out j \<longleftrightarrow> \<not> (\<exists>a \<in> set as. \<exists>tp. heap s a = Some tp \<and> asks tp j))"
proof -
  obtain th where th: "heap s head = Some th" "chain (heap s) (link th) as"
    using assms(2) by (auto simp: list_at_def)
  obtain u' calls where u: "scroll u = (u', calls)" by fastforce
  obtain k1 ret log where l: "paint_loop (link th) 0 0 ([FrameText (ui_substType u = 0)] @ calls) s
        = Some (Ran (s\<lparr>os := k1\<rparr>), ret, log)" "os_quiet uq sems k1"
      "\<forall>j < 8. bit ret j \<longleftrightarrow> (\<exists>a \<in> set as. \<exists>tp. heap s a = Some tp \<and> asks tp j)"
    using paint_loop_ok [OF th(2) assms(3,4,5), of 0 0 "[FrameText (ui_substType u = 0)] @ calls"] by auto
  obtain k2 err k3 where o: "OSSemPend ssem 1000 k1 = Some (Done () OS_ERR_NONE, k2)"
      "OSSemPost ssem k2 = Some (err, k3)" "os_quiet uq sems k3"
    using sem_pass [OF l(2) assms(7)] by blast
  let ?s' = "s\<lparr>os := k3, uart1SendInfo := (uart1SendInfo s)\<lparr>outPut := NOT ret\<rparr>\<rparr>"
  have "OnPaint u s = Some (Ran ?s', u', log @ leds (NOT ret))"
    using assms(1,6) th(1) u l(1) o(1,2)
    by (simp add: OnPaint_def take_sem_def give_sem_def Let_def)
  then show ?thesis using o(3) l(3) by (intro exI conjI) (auto simp: bit_not_iff)
qed

section \<open>A concrete display\<close>

definition ex_ui :: Ui where
  "ex_ui = \<lparr>ui_k = 30, ui_testNo = 14, ui_currentWin = 0, ui_substType = 0\<rparr>"

lemma ex_app_shown: "\<forall>a \<in> set [200]. \<forall>tp. heap ex_app a = Some tp \<longrightarrow> shown_ok tp"
proof -
  have "getShowInfo_Analogue (Some (ex_point\<lparr>EquipmentSem := Some 2\<rparr>)) \<noteq> None"
    by (subst getShowInfo_Analogue_fits_iff [of _ ex_analogue])
      (simp_all add: ex_defs getSensorName_def sensor_row_def SensorTable_def fits_string_def c_str_def)
  then show ?thesis by (auto simp: shown_ok_def ex_app_def ex_point_def)
qed

text \<open>A point with the default ranges of \<open>initConf\<close> at 75, above both limits.\<close>

definition ex_default :: Analogue_Config where
  "ex_default = ex_analogue\<lparr>portType := 17, outputControl := (0x80, 0xFF),
     outage := \<lparr>minval = VALUE_UNDEF, maxval = 70\<rparr>, recover := \<lparr>minval = VALUE_UNDEF, maxval = 70\<rparr>\<rparr>"

definition ex_hot :: App where
  "ex_hot = ex_app\<lparr>heap := (heap ex_app)(200 \<mapsto> ex_point\<lparr>EquipmentSem := Some 2, config := Some (AnalogueC ex_default),
     upload := (upload ex_point)\<lparr>collectData := 75\<rparr>\<rparr>)\<rparr>"

lemma ex_hot_ok:
  "list_at (heap ex_hot) 100 [200]" "points_ok (heap ex_hot) {2, 3} [200]"
  "\<forall>a \<in> set [200]. \<forall>tp. heap ex_hot a = Some tp \<longrightarrow> shown_ok tp"
proof -
  show "list_at (heap ex_hot) 100 [200]" "points_ok (heap ex_hot) {2, 3} [200]"
    by (simp_all add: ex_hot_def ex_app_def list_at_def points_ok_def point_ok_def ex_point_def)
  let ?tp = "ex_point\<lparr>EquipmentSem := Some 2, config := Some (AnalogueC ex_default), upload := (upload ex_point)\<lparr>collectData := 75\<rparr>\<rparr>"
  have "getShowInfo_Analogue (Some ?tp) \<noteq> None"
    by (subst getShowInfo_Analogue_fits_iff [of _ ex_default])
      (simp_all add: ex_defs ex_default_def getSensorName_def sensor_row_def SensorTable_def fits_string_def c_str_def)
  then show "\<forall>a \<in> set [200]. \<forall>tp. heap ex_hot a = Some tp \<longrightarrow> shown_ok tp"
    by (auto simp: shown_ok_def ex_hot_def ex_point_def)
qed

lemma ex_app_simps2:
  "EquipmentList ex_app = Some 100" "UartSendTaskSem ex_app = Some 2"
  by (simp_all add: ex_app_def)

section \<open>Properties\<close>

text \<open>C21: Painting the display leaves every measuring point as it was, gives every semaphore back and sets
  the output byte so that channel \<open>j\<close> is on exactly if no point asks for it: no point in its
  cut-off range whose mask holds \<open>j\<close>, and no point in its restore range whose mask does not.\<close>

theorem OnPaint_output:
  assumes "EquipmentList s = Some head" and "list_at (heap s) head as" and "points_ok (heap s) sems as"
    and "\<forall>a \<in> set as. \<forall>tp. heap s a = Some tp \<longrightarrow> shown_ok tp"
    and "os_quiet uq sems (os s)" and "UartSendTaskSem s = Some ssem" and "ssem \<in> sems"
  shows "\<exists>k' out u' log. OnPaint u s = Some (Ran (s\<lparr>os := k', uart1SendInfo := (uart1SendInfo s)\<lparr>outPut := out\<rparr>\<rparr>), u', log)
     \<and> os_quiet uq sems k'
     \<and> (\<forall>j < 8. bit out j \<longleftrightarrow> \<not> (\<exists>a \<in> set as. \<exists>tp. heap s a = Some tp \<and> asks tp j))"
  by (rule OnPaint_runs [OF assms])

theorem OnPaint_output_witness:
  "\<exists>k' out u' log. OnPaint ex_ui ex_app
       = Some (Ran (ex_app\<lparr>os := k', uart1SendInfo := (uart1SendInfo ex_app)\<lparr>outPut := out\<rparr>\<rparr>), u', log)
     \<and> os_quiet 1 {2, 3} k' \<and> (\<forall>j < 8. bit out j \<longleftrightarrow> bit (0x81 :: u8) j)"
proof -
  have "asks (ex_point\<lparr>EquipmentSem := Some 2\<rparr>) j \<longleftrightarrow> \<not> bit (0x81 AND 0x85 :: u8) j" for j
    by (simp add: asks_def ex_defs reaches_def out_mask_def VALUE_UNDEF_def)
  then have "(\<exists>a \<in> set [200]. \<exists>tp. heap ex_app a = Some tp \<and> asks tp j) \<longleftrightarrow> \<not> bit (0x81 :: u8) j" for j
    by (simp add: ex_app_def)
  then show ?thesis
    using OnPaint_output [of ex_app 100 "[200]" "{2, 3}" 1 2 ex_ui] ex_app_list ex_app_shown ex_app_quiet
    by (simp add: ex_app_def)
qed

text \<open>Cut-off and restore work against each other: while the value of one point is in both its cut-off
  and its restore range, every output channel is switched off, those outside its mask too.\<close>

theorem OnPaint_conflict:
  assumes "EquipmentList s = Some head" and "list_at (heap s) head as" and "points_ok (heap s) sems as"
    and "\<forall>a \<in> set as. \<forall>tp. heap s a = Some tp \<longrightarrow> shown_ok tp"
    and "os_quiet uq sems (os s)" and "UartSendTaskSem s = Some ssem" and "ssem \<in> sems"
    and "a \<in> set as" and "heap s a = Some tp" and "config tp = Some (AnalogueC c)"
    and "reaches (outage c) (collectData (upload tp))" and "reaches (recover c) (collectData (upload tp))"
  shows "\<exists>s' u' log. OnPaint u s = Some (Ran s', u', log) \<and> outPut (uart1SendInfo s') = 0"
proof -
  have a: "asks tp j" for j using assms(10-12) by (auto simp: asks_def)
  obtain k' out u' log where o: "OnPaint u s = Some (Ran (s\<lparr>os := k', uart1SendInfo := (uart1SendInfo s)\<lparr>outPut := out\<rparr>\<rparr>), u', log)"
      "\<forall>j < 8. bit out j \<longleftrightarrow> \<not> (\<exists>a \<in> set as. \<exists>tp. heap s a = Some tp \<and> asks tp j)"
    using OnPaint_runs [OF assms(1-7)] by blast
  have "\<not> bit out j" if "j < 8" for j using o(2) that a assms(8,9) by blast
  then have "out = 0" by (intro bit_word_eqI) simp
  then show ?thesis using o(1) by auto
qed

theorem OnPaint_conflict_witness:
  "\<exists>s' u' log. OnPaint ex_ui ex_hot = Some (Ran s', u', log) \<and> outPut (uart1SendInfo s') = 0"
  by (rule OnPaint_conflict [of _ 100 "[200]" "{2, 3}" 1 2 200 "ex_point\<lparr>EquipmentSem := Some 2, config := Some (AnalogueC ex_default),
        upload := (upload ex_point)\<lparr>collectData := 75\<rparr>\<rparr>" ex_default])
    (use ex_hot_ok ex_app_quiet in \<open>simp_all add: ex_hot_def ex_app_simps2 ex_default_def reaches_def VALUE_UNDEF_def\<close>)

end
