(* ===== verification/Ir_Key.thy ===== *)
theory Ir_Key
  imports Os_Ipc
begin

text \<open>
  \<open>User/user_key.c\<close>: the infrared remote control. A timer interrupt counts hundredths of
  milliseconds; a falling edge of the receiver classifies the time since the previous one as a
  bit, a repeat or the start of a key, shifts the bit in and, when a key code is complete, posts
  the address of one static variable to the key queue. The key task turns codes into key
  messages of the GUI.
\<close>

section \<open>State and codes\<close>

record Keys =
  times :: u32
  validtime :: u32
  keyvalue :: u32
  oldkeyvalue :: u32
  KeyValueSaved :: u32
  OldVal :: u32
  keyKeep :: u8
  keyTmp :: u8
  KeyQueueHead :: "nat option"

definition KEY_ADD :: u32 where "KEY_ADD = 0x0000E280"
definition KEY_SUB :: u32 where "KEY_SUB = 0x0000E240"
definition KEY_FUNC :: u32 where "KEY_FUNC = 0x0000E2C0"
definition KEY_EXEC :: u32 where "KEY_EXEC = 0x0000E200"
definition KEY_OK :: u32 where "KEY_OK = 0x807D40BF"
definition KEY_UP :: u32 where "KEY_UP = 0x807D00FF"
definition KEY_DOWN :: u32 where "KEY_DOWN = 0x807D807F"
definition KEY_LEFT :: u32 where "KEY_LEFT = 0x807D40DF"
definition KEY_RIGHT :: u32 where "KEY_RIGHT = 0x807DA05F"

lemmas key_defs = KEY_ADD_def KEY_SUB_def KEY_FUNC_def KEY_EXEC_def KEY_OK_def KEY_UP_def
  KEY_DOWN_def KEY_LEFT_def KEY_RIGHT_def

text \<open>Codes that are ignored while they equal the previous one, and codes that are not.\<close>

definition short_keys :: "u32 list" where
  "short_keys = [KEY_ADD, KEY_SUB, KEY_FUNC, KEY_EXEC]"

definition long_keys :: "u32 list" where
  "long_keys = [KEY_OK, KEY_UP, KEY_DOWN, KEY_LEFT, KEY_RIGHT]"

text \<open>The address of \<open>KeyValueSaved\<close>, the only message ever posted to the key queue.\<close>

definition addr_KeyValueSaved :: nat where
  "addr_KeyValueSaved = 0"

section \<open>The interrupt handlers\<close>

definition decode_edge :: "Keys \<Rightarrow> Keys" where
  "decode_edge k =
     (let t = times k in
      (if t > 300 then k\<lparr>keyvalue := 0\<rparr>
       else if t \<ge> 6 \<and> t \<le> 15 then k\<lparr>keyvalue := push_bit 1 (keyvalue k)\<rparr>
       else if t > 18 \<and> t \<le> 26 then k\<lparr>keyvalue := push_bit 1 (keyvalue k) OR 1\<rparr>
       else if t > 105 \<and> t \<le> 115 then
         (let k = (if keyKeep k = 0 then k\<lparr>keyKeep := 1\<rparr>
                   else if keyKeep k = 1 then
                     (if keyTmp k + 1 \<ge> 2 then k\<lparr>keyvalue := oldkeyvalue k, keyTmp := 0\<rparr>
                      else k\<lparr>keyTmp := keyTmp k + 1, keyvalue := 0\<rparr>)
                   else k) in k\<lparr>validtime := 0\<rparr>)
       else if t \<ge> 125 \<and> t \<le> 145 then k\<lparr>keyKeep := 0, keyTmp := 0, validtime := 0\<rparr>
       else k\<lparr>keyvalue := 0\<rparr>)\<lparr>times := 0\<rparr>)"

text \<open>The branches of the switch on the code; the second component tells whether to post.\<close>

definition dispatch_key :: "Keys \<Rightarrow> Keys \<times> bool" where
  "dispatch_key k =
     (if keyvalue k \<in> set short_keys then
        if keyvalue k = oldkeyvalue k then (k\<lparr>keyvalue := 0\<rparr>, False)
        else (k\<lparr>KeyValueSaved := keyvalue k, oldkeyvalue := keyvalue k, validtime := 0, keyvalue := 0\<rparr>, True)
      else if keyvalue k \<in> set long_keys then
        (k\<lparr>KeyValueSaved := keyvalue k, oldkeyvalue := keyvalue k, validtime := 0, keyvalue := 0\<rparr>, True)
      else (k, False))"

definition EINT0_IRQHandler :: "Keys \<times> OS \<Rightarrow> (Keys \<times> OS) option" where
  "EINT0_IRQHandler s = do {
     let os = (snd s)\<lparr>OSIntNesting := OSIntNesting (snd s) + 1\<rparr>;
     let (k, post) = dispatch_key (decode_edge (fst s));
     os \<leftarrow> (if post then do {
              q \<leftarrow> KeyQueueHead k;
              (_, os) \<leftarrow> OSQPost q (Some addr_KeyValueSaved) os;
              Some os }
            else Some os);
     os \<leftarrow> OSIntExit os;
     Some (k\<lparr>OldVal := oldkeyvalue k\<rparr>, os) }"

text \<open>The counting part of the timer handler.\<close>

definition count_tick :: "Keys \<Rightarrow> Keys" where
  "count_tick k =
     (let k = (if times k \<le> 1000 then k\<lparr>times := times k + 1\<rparr> else k\<lparr>keyvalue := 0\<rparr>);
          k = k\<lparr>validtime := validtime k + 1\<rparr> in
      if validtime k \<ge> 2100 then k\<lparr>keyvalue := 0, validtime := 0, oldkeyvalue := 0\<rparr> else k)"

definition TIMER2_IRQHandler :: "bool \<Rightarrow> Keys \<times> OS \<Rightarrow> (Keys \<times> OS) option" where
  "TIMER2_IRQHandler matched s = do {
     let os = (snd s)\<lparr>OSIntNesting := OSIntNesting (snd s) + 1\<rparr>;
     let k = (if matched then count_tick (fst s) else fst s);
     os \<leftarrow> OSIntExit os;
     Some (k, os) }"

datatype key_event = Edge | Tick bool

fun key_step :: "key_event \<Rightarrow> Keys \<times> OS \<Rightarrow> (Keys \<times> OS) option" where
  "key_step Edge s = EINT0_IRQHandler s"
| "key_step (Tick m) s = TIMER2_IRQHandler m s"

section \<open>The key task\<close>

datatype gui_key = GUI_KEY_UP | GUI_KEY_DOWN | GUI_KEY_TAB | GUI_KEY_ENTER | GUI_KEY_LEFT

definition gui_key_of :: "u32 \<Rightarrow> gui_key option" where
  "gui_key_of v =
     (if v = KEY_ADD then Some GUI_KEY_UP
      else if v = KEY_SUB then Some GUI_KEY_DOWN
      else if v = KEY_FUNC then Some GUI_KEY_TAB
      else if v = KEY_EXEC then Some GUI_KEY_ENTER
      else if v = KEY_OK then Some GUI_KEY_ENTER
      else if v = KEY_UP then Some GUI_KEY_UP
      else if v = KEY_DOWN then Some GUI_KEY_DOWN
      else if v = KEY_LEFT then Some GUI_KEY_LEFT
      else if v = KEY_RIGHT then Some GUI_KEY_TAB
      else None)"

text \<open>
  A message is read when the task handles it, not when it was posted. The result is the key
  messages given to the GUI: the key and whether it is pressed.
\<close>

definition task_Key_press :: "msg \<Rightarrow> os_err \<Rightarrow> Keys \<Rightarrow> (gui_key \<times> bool) list option" where
  "task_Key_press m err k =
     (if err \<noteq> OS_ERR_NONE then Some []
      else if m = Some addr_KeyValueSaved then
        Some (case gui_key_of (KeyValueSaved k) of Some g \<Rightarrow> [(g, True)] | None \<Rightarrow> [])
      else None)"

text \<open>After the delay: the release, taken from \<open>OldVal\<close>, which only the short codes clear.\<close>

definition task_Key_release :: "Keys \<Rightarrow> (gui_key \<times> bool) list \<times> Keys" where
  "task_Key_release k =
     ((case gui_key_of (OldVal k) of Some g \<Rightarrow> [(g, False)] | None \<Rightarrow> []),
      if OldVal k \<in> set short_keys then k\<lparr>OldVal := 0\<rparr> else k)"

section \<open>The handlers keep the kernel consistent\<close>

lemma scheduled_running [simp]: "OSRunning (scheduled s) = OSRunning s"
  by (simp add: scheduled_def)

lemma OS_EventTaskRdy_running: "OS_EventTaskRdy ev m msk st s = Some (p, s') \<Longrightarrow> OSRunning s' = OSRunning s"
  by (auto simp only: OS_EventTaskRdy_def bind_eq_Some_conv Let_def split_beta option.inject prod.inject; simp)

lemma OSQPost_running:
  assumes ok: "os_ok s" and q: "queue_at ev q s" and p: "OSQPost ev m s = Some (err, s')"
  shows "OSRunning s' = OSRunning s"
proof (cases "waiting (OSEvents s ! ev) = {}")
  case False
  obtain s1 s2 where "OS_EventTaskRdy ev m OS_STAT_Q OS_STAT_PEND_OK s
        = Some (of_nat (Min (waiting (OSEvents s ! ev))), s1)" "os_ok s1" "OS_Sched s1 = Some s2"
      "OSQPost ev m s = Some (OS_ERR_NONE, s2)"
    using OSQPost_cases(3) [OF ok q False] by blast
  then show ?thesis using p OS_EventTaskRdy_running OS_Sched_scheduled [of s1] by (auto split: if_splits)
next
  case True
  then have "OSEventGrp (OSEvents s ! ev) = 0" using waiting_empty_iff [OF ok] q by (simp add: queue_at_def)
  then show ?thesis
    using p by (auto simp: OSQPost_def bind_eq_Some_conv split: if_splits)
qed

lemma OSIntExit_outer:
  assumes "os_ok s" and "OSRunning s" and "OSIntNesting s = 1"
  shows "\<exists>s'. OSIntExit s = Some s' \<and> os_ok s' \<and> OSRunning s' \<and> OSIntNesting s' = 0
     \<and> OSEvents s' = OSEvents s \<and> OSQTbl s' = OSQTbl s"
  using assms by (auto simp: OSIntExit_def Let_def request_switch_scheduled scheduled_ok)

definition key_inv :: "nat \<Rightarrow> Keys \<times> OS \<Rightarrow> bool" where
  "key_inv ev s \<longleftrightarrow> KeyQueueHead (fst s) = Some ev \<and> os_ok (snd s) \<and> OSRunning (snd s)
     \<and> OSIntNesting (snd s) = 0 \<and> (\<exists>q. queue_at ev q (snd s))"

lemma queue_at_cong:
  "OSEvents s' = OSEvents s \<Longrightarrow> OSQTbl s' = OSQTbl s \<Longrightarrow> queue_at ev q s' = queue_at ev q s"
  by (simp add: queue_at_def the_q_def)

lemma keys_frame:
  "KeyQueueHead (decode_edge k) = KeyQueueHead k" "KeyQueueHead (fst (dispatch_key k)) = KeyQueueHead k"
  "KeyQueueHead (count_tick k) = KeyQueueHead k"
  by (simp_all add: decode_edge_def dispatch_key_def count_tick_def Let_def)

interpretation keys: safe_handler key_step "\<lambda>_. True" "key_inv ev" for ev
proof (unfold_locales, goal_cases)
  case (1 s i)
  obtain k os where s: "s = (k, os)" by fastforce
  let ?os = "os\<lparr>OSIntNesting := OSIntNesting os + 1\<rparr>"
  from 1 obtain q where i: "KeyQueueHead k = Some ev" "os_ok ?os" "OSRunning ?os" "OSIntNesting ?os = 1"
      "queue_at ev q ?os"
    by (auto simp: key_inv_def s queue_at_def the_q_def)
  have leave: "\<exists>os'. OSIntExit os1 = Some os' \<and> key_inv ev (k', os')"
    if ok: "os_ok os1" "OSRunning os1" "OSIntNesting os1 = 1" "queue_at ev q' os1" "KeyQueueHead k' = Some ev" for os1 k' q'
  proof -
    obtain os' where o: "OSIntExit os1 = Some os'" "os_ok os'" "OSRunning os'" "OSIntNesting os' = 0"
        "OSEvents os' = OSEvents os1" "OSQTbl os' = OSQTbl os1"
      using OSIntExit_outer [OF ok(1-3)] by blast
    then have "queue_at ev q' os'" using queue_at_cong [OF o(5,6)] ok(4) by simp
    then show ?thesis using o(1-4) ok(5) by (auto simp: key_inv_def)
  qed
  show ?case
  proof (cases i)
    case (Tick m)
    then show ?thesis
      using leave [OF i(2-5), of "if m then count_tick k else k"] i(1) by (auto simp: s TIMER2_IRQHandler_def keys_frame)
  next
    case Edge
    obtain k' post where d: "dispatch_key (decode_edge k) = (k', post)" by fastforce
    have h: "KeyQueueHead k' = Some ev" using keys_frame(2) [of "decode_edge k"] keys_frame(1) [of k] d i(1) by simp
    obtain err os1 q1 where p: "OSQPost ev (Some addr_KeyValueSaved) ?os = Some (err, os1)" "os_ok os1"
        "queue_at ev q1 os1" "OSIntNesting os1 = OSIntNesting ?os"
      using OSQPost_frame [OF i(2,5)] by blast
    have "OSRunning os1" using OSQPost_running [OF i(2,5) p(1)] i(3) by simp
    then show ?thesis
      using Edge leave [OF p(2) _ _ p(3), of "k'\<lparr>OldVal := oldkeyvalue k'\<rparr>"]
        leave [OF i(2-5), of "k'\<lparr>OldVal := oldkeyvalue k'\<rparr>"] d h p(1,4) i(4)
      by (cases post) (auto simp: s EINT0_IRQHandler_def Let_def)
  qed
qed

section \<open>Receiving a code\<close>

definition shift_in :: "u32 \<Rightarrow> bool \<Rightarrow> u32" where
  "shift_in v b = (if b then push_bit 1 v OR 1 else push_bit 1 v)"

text \<open>The bits of a code, most significant first.\<close>

definition key_bits :: "nat \<Rightarrow> u32 \<Rightarrow> bool list" where
  "key_bits n code = map (\<lambda>i. bit code (n - 1 - i)) [0..<n]"

text \<open>No proper prefix of the bits is itself a code, and all of them give \<open>code\<close>.\<close>

fun clean :: "u32 \<Rightarrow> u32 \<Rightarrow> bool list \<Rightarrow> bool" where
  "clean code v [] \<longleftrightarrow> v = code"
| "clean code v (b # bs) \<longleftrightarrow>
     (bs = [] \<or> shift_in v b \<notin> set short_keys \<and> shift_in v b \<notin> set long_keys) \<and> clean code (shift_in v b) bs"

lemma clean_codes:
  "list_all (\<lambda>c. clean c 0 (key_bits 32 c)) long_keys" "list_all (\<lambda>c. clean c 0 (key_bits 16 c)) short_keys"
  by code_simp+

text \<open>The pulse lengths the decoder takes for a bit.\<close>

definition pulse_of :: "bool \<Rightarrow> nat \<Rightarrow> bool" where
  "pulse_of b w \<longleftrightarrow> (if b then 18 < w \<and> w \<le> 26 else 6 \<le> w \<and> w \<le> 15)"

definition pulses :: "nat list \<Rightarrow> key_event list" where
  "pulses ws = concat (map (\<lambda>w. replicate w (Tick True) @ [Edge]) ws)"

text \<open>A kernel in which an interrupt that posts nothing changes nothing: the running task stays.\<close>

definition os_still :: "OS \<Rightarrow> bool" where
  "os_still os \<longleftrightarrow> os_ok os \<and> OSRunning os \<and> OSIntNesting os = 0
     \<and> highest os = OSPrioCur os \<and> OSPrioHighRdy os = OSPrioCur os"

lemma scheduled_still: "highest os = OSPrioCur os \<Longrightarrow> OSPrioHighRdy os = OSPrioCur os \<Longrightarrow> scheduled os = os"
  by (simp add: scheduled_def)

lemma still_exit: "os_still os \<Longrightarrow> OSIntExit (os\<lparr>OSIntNesting := OSIntNesting os + 1\<rparr>) = Some os"
proof -
  assume a: "os_still os"
  then have e: "os\<lparr>OSIntNesting := 0\<rparr> = os" by (simp add: os_still_def)
  show ?thesis
    using a scheduled_still [of os] by (simp add: OSIntExit_def Let_def os_still_def request_switch_scheduled e)
qed

lemma count_tick_plain:
  "unat (times k) \<le> 1000 \<Longrightarrow> unat (validtime k) < 2099 \<Longrightarrow>
     count_tick k = k\<lparr>times := times k + 1, validtime := validtime k + 1\<rparr>"
proof -
  assume a: "unat (times k) \<le> 1000" "unat (validtime k) < 2099"
  have "unat (validtime k + 1) = Suc (unat (validtime k))"
    using a(2) by (intro unat_inc [of _ 2099]) (simp add: word_less_nat_alt)
  then show ?thesis using a by (simp add: count_tick_def Let_def word_le_nat_alt)
qed

lemma ticks_run:
  "os_still os \<Longrightarrow> unat (times k) + w \<le> 1000 \<Longrightarrow> unat (validtime k) + w < 2100 \<Longrightarrow>
     run key_step (replicate w (Tick True)) (k, os)
       = Some (k\<lparr>times := times k + of_nat w, validtime := validtime k + of_nat w\<rparr>, os)"
proof (induction w arbitrary: k)
  case 0
  then show ?case by simp
next
  case (Suc w)
  have u: "unat (times k + 1) = Suc (unat (times k))" "unat (validtime k + 1) = Suc (unat (validtime k))"
    using Suc.prems by (intro unat_inc [of _ 3000]; simp add: word_less_nat_alt)+
  have "TIMER2_IRQHandler True (k, os) = Some (k\<lparr>times := times k + 1, validtime := validtime k + 1\<rparr>, os)"
    using Suc.prems still_exit [of os] count_tick_plain [of k] by (simp add: TIMER2_IRQHandler_def)
  then show ?case
    using Suc.IH [of "k\<lparr>times := times k + 1, validtime := validtime k + 1\<rparr>"] Suc.prems u
    by (simp add: ac_simps)
qed

lemma decode_pulse:
  assumes "pulse_of b w" and "times k = of_nat w"
  shows "decode_edge k = k\<lparr>keyvalue := shift_in (keyvalue k) b, times := 0\<rparr>"
proof -
  have "w \<le> 26" using assms(1) by (auto simp: pulse_of_def split: if_splits)
  then have "unat (times k) = w" using assms(2) by (simp add: unat_of_nat)
  then show ?thesis
    using assms(1) by (cases b) (auto simp: decode_edge_def Let_def pulse_of_def shift_in_def word_less_nat_alt word_le_nat_alt)
qed

lemma pulse_still:
  assumes st: "os_still os" and k: "times k = 0" "unat (validtime k) + w < 2100" and b: "pulse_of b w"
    and nk: "shift_in (keyvalue k) b \<notin> set short_keys" "shift_in (keyvalue k) b \<notin> set long_keys"
  shows "run key_step (replicate w (Tick True) @ [Edge]) (k, os)
    = Some (k\<lparr>times := 0, validtime := validtime k + of_nat w, keyvalue := shift_in (keyvalue k) b,
               OldVal := oldkeyvalue k\<rparr>, os)"
proof -
  let ?k = "k\<lparr>times := of_nat w, validtime := validtime k + of_nat w\<rparr>"
  have w: "w \<le> 26" using b by (auto simp: pulse_of_def split: if_splits)
  have t: "run key_step (replicate w (Tick True)) (k, os) = Some (?k, os)"
    using ticks_run [OF st _ k(2)] k(1) w by simp
  have "decode_edge ?k = ?k\<lparr>keyvalue := shift_in (keyvalue k) b, times := 0\<rparr>"
    using decode_pulse [OF b, of ?k] by simp
  then have "EINT0_IRQHandler (?k, os) = Some (k\<lparr>times := 0, validtime := validtime k + of_nat w,
      keyvalue := shift_in (keyvalue k) b, OldVal := oldkeyvalue k\<rparr>, os)"
    using still_exit [OF st] nk by (simp add: EINT0_IRQHandler_def dispatch_key_def)
  then show ?thesis by (simp add: run_append_Some [OF t])
qed

lemma pulse_last:
  assumes st: "os_still os" and k: "times k = 0" "unat (validtime k) + w < 2100" and b: "pulse_of b w"
    and code: "code = shift_in (keyvalue k) b" "code \<in> set short_keys \<and> code \<noteq> oldkeyvalue k \<or> code \<in> set long_keys"
    and ev: "KeyQueueHead k = Some ev"
    and post: "OSQPost ev (Some addr_KeyValueSaved) (os\<lparr>OSIntNesting := OSIntNesting os + 1\<rparr>) = Some (err, os1)"
      "OSIntExit os1 = Some os2"
  shows "run key_step (replicate w (Tick True) @ [Edge]) (k, os)
    = Some (k\<lparr>times := 0, validtime := 0, keyvalue := 0, KeyValueSaved := code, oldkeyvalue := code, OldVal := code\<rparr>, os2)"
proof -
  let ?k = "k\<lparr>times := of_nat w, validtime := validtime k + of_nat w\<rparr>"
  have w: "w \<le> 26" using b by (auto simp: pulse_of_def split: if_splits)
  have t: "run key_step (replicate w (Tick True)) (k, os) = Some (?k, os)"
    using ticks_run [OF st _ k(2)] k(1) w by simp
  have d: "decode_edge ?k = ?k\<lparr>keyvalue := code, times := 0\<rparr>"
    using decode_pulse [OF b, of ?k] code(1) by simp
  have disj: "set short_keys \<inter> set long_keys = {}" by code_simp
  have "dispatch_key (decode_edge ?k) = (k\<lparr>times := 0, validtime := 0, keyvalue := 0, KeyValueSaved := code, oldkeyvalue := code\<rparr>, True)"
    using code(2) disj by (auto simp: dispatch_key_def d)
  then have "EINT0_IRQHandler (?k, os) = Some (k\<lparr>times := 0, validtime := 0, keyvalue := 0, KeyValueSaved := code,
      oldkeyvalue := code, OldVal := code\<rparr>, os2)"
    using ev post by (simp add: EINT0_IRQHandler_def)
  then show ?thesis by (simp add: run_append_Some [OF t])
qed

lemma receive_bits:
  assumes st: "os_still os"
    and post: "OSQPost ev (Some addr_KeyValueSaved) (os\<lparr>OSIntNesting := OSIntNesting os + 1\<rparr>) = Some (err, os1)"
      "OSIntExit os1 = Some os2"
  shows "KeyQueueHead k = Some ev \<Longrightarrow>
    code \<in> set short_keys \<and> code \<noteq> oldkeyvalue k \<or> code \<in> set long_keys \<Longrightarrow> list_all2 pulse_of bs ws \<Longrightarrow> bs \<noteq> [] \<Longrightarrow> clean code (keyvalue k) bs \<Longrightarrow> times k = 0 \<Longrightarrow>
    unat (validtime k) + sum_list ws < 2100 \<Longrightarrow>
    run key_step (pulses ws) (k, os)
      = Some (k\<lparr>times := 0, validtime := 0, keyvalue := 0, KeyValueSaved := code, oldkeyvalue := code, OldVal := code\<rparr>, os2)"
proof (induction bs arbitrary: k ws)
  case Nil
  then show ?case by simp
next
  case (Cons b bs k wws)
  then obtain w ws where ws: "wws = w # ws" "pulse_of b w" "list_all2 pulse_of bs ws"
    by (auto simp: list_all2_Cons1)
  show ?case
  proof (cases "bs = []")
    case True
    then have "ws = []" using ws(3) by simp
    then show ?thesis
      using pulse_last [OF st Cons.prems(6) _ ws(2) _ Cons.prems(2,1) post] Cons.prems(5,7) True
      by (simp add: pulses_def ws(1))
  next
    case False
    let ?k = "k\<lparr>times := 0, validtime := validtime k + of_nat w, keyvalue := shift_in (keyvalue k) b, OldVal := oldkeyvalue k\<rparr>"
    have r: "run key_step (replicate w (Tick True) @ [Edge]) (k, os) = Some (?k, os)"
      using Cons.prems(5,7) False by (intro pulse_still [OF st Cons.prems(6) _ ws(2)]) (auto simp: ws(1))
    have "unat (validtime k + of_nat w) \<le> unat (validtime k) + w"
      by (simp add: unat_word_ariths unat_of_nat order_trans [OF mod_less_eq_dividend] mod_add_right_eq)
    then have "run key_step (pulses ws) (?k, os) = Some (?k\<lparr>times := 0, validtime := 0, keyvalue := 0,
        KeyValueSaved := code, oldkeyvalue := code, OldVal := code\<rparr>, os2)"
      using Cons.prems False ws(3) by (intro Cons.IH) (simp_all add: ws(1))
    moreover have "pulses (w # ws) = (replicate w (Tick True) @ [Edge]) @ pulses ws" by (simp add: pulses_def)
    ultimately show ?thesis using run_append_Some [OF r] by (simp add: ws(1))
  qed
qed

lemma still_qtbl [simp]: "os_still (os\<lparr>OSQTbl := x\<rparr>) = os_still os"
  by (simp add: os_still_def highest_def)

lemma post_still:
  assumes st: "os_still os" and q: "queue_at ev q os" "waiting (OSEvents os ! ev) = {}" "\<not> q_full q"
  shows "\<exists>os1 os2 q'. OSQPost ev m (os\<lparr>OSIntNesting := OSIntNesting os + 1\<rparr>) = Some (OS_ERR_NONE, os1)
     \<and> OSIntExit os1 = Some os2 \<and> os_still os2 \<and> queue_at ev q' os2 \<and> waiting (OSEvents os2 ! ev) = {}
     \<and> q_list q' = q_list q @ [m] \<and> q_cap q' = q_cap q"
proof -
  let ?os = "os\<lparr>OSIntNesting := OSIntNesting os + 1\<rparr>"
  have "queue_at ev q ?os" using q(1) queue_at_cong [of ?os os] by simp
  moreover have "os_ok ?os" using st by (simp add: os_still_def)
  ultimately obtain i q' where s: "OSQPost ev m ?os = Some (OS_ERR_NONE, ?os\<lparr>OSQTbl := (OSQTbl os)[i := q']\<rparr>)"
      "queue_at ev q' (?os\<lparr>OSQTbl := (OSQTbl os)[i := q']\<rparr>)" "q_list q' = q_list q @ [m]" "q_cap q' = q_cap q"
    using OSQPost_stored [of ?os ev q m] q(2,3) by auto
  let ?os2 = "os\<lparr>OSQTbl := (OSQTbl os)[i := q']\<rparr>"
  have e: "OSIntExit (?os2\<lparr>OSIntNesting := OSIntNesting ?os2 + 1\<rparr>) = Some ?os2"
    by (rule still_exit) (simp add: st)
  have "queue_at ev q' ?os2" using s(2) queue_at_cong [of "?os\<lparr>OSQTbl := (OSQTbl os)[i := q']\<rparr>" ?os2] by simp
  moreover have "?os\<lparr>OSQTbl := (OSQTbl os)[i := q']\<rparr> = ?os2\<lparr>OSIntNesting := OSIntNesting ?os2 + 1\<rparr>"
    by (rule OS.equality) simp_all
  then have "OSIntExit (?os\<lparr>OSQTbl := (OSQTbl os)[i := q']\<rparr>) = Some ?os2" using e by (simp only:)
  moreover have "os_still ?os2" "waiting (OSEvents ?os2 ! ev) = {}" using st q(2) by simp_all
  ultimately show ?thesis using s(1,3,4) by blast
qed

lemma start_pulse:
  assumes st: "os_still os" and k: "times k = 0" "keyvalue k = 0" "unat (validtime k) + w < 2100" and w: "125 \<le> w" "w \<le> 145"
  shows "run key_step (replicate w (Tick True) @ [Edge]) (k, os)
    = Some (k\<lparr>times := 0, validtime := 0, keyKeep := 0, keyTmp := 0, OldVal := oldkeyvalue k\<rparr>, os)"
proof -
  let ?k = "k\<lparr>times := of_nat w, validtime := validtime k + of_nat w\<rparr>"
  have t: "run key_step (replicate w (Tick True)) (k, os) = Some (?k, os)"
    using ticks_run [OF st _ k(3)] k(1) w by simp
  have "unat (of_nat w :: u32) = w" using w by (simp add: unat_of_nat)
  then have d: "decode_edge ?k = k\<lparr>times := 0, validtime := 0, keyKeep := 0, keyTmp := 0\<rparr>"
    using w by (simp add: decode_edge_def Let_def word_less_nat_alt word_le_nat_alt)
  have "0 \<notin> set short_keys" "0 \<notin> set long_keys" by (simp_all add: short_keys_def long_keys_def key_defs)
  then have "EINT0_IRQHandler (?k, os) = Some (k\<lparr>times := 0, validtime := 0, keyKeep := 0, keyTmp := 0, OldVal := oldkeyvalue k\<rparr>, os)"
    using still_exit [OF st] k(2) by (simp add: EINT0_IRQHandler_def dispatch_key_def d)
  then show ?thesis by (simp add: run_append_Some [OF t])
qed

lemma pulses_bound: "list_all2 pulse_of bs ws \<Longrightarrow> sum_list ws \<le> 26 * length bs"
  by (induction rule: list_all2_induct) (auto simp: pulse_of_def split: if_splits)

text \<open>The state of the decoder after a complete key.\<close>

definition pressed :: "u32 \<Rightarrow> Keys \<Rightarrow> Keys" where
  "pressed code k = k\<lparr>times := 0, validtime := 0, keyvalue := 0, keyKeep := 0, keyTmp := 0,
     KeyValueSaved := code, oldkeyvalue := code, OldVal := code\<rparr>"

text \<open>A code, with its number of bits, that leads to a message: a short one must differ from the previous one.\<close>

definition key_of :: "nat \<Rightarrow> u32 \<Rightarrow> u32 \<Rightarrow> bool" where
  "key_of n code old \<longleftrightarrow> n = 32 \<and> code \<in> set long_keys \<or> n = 16 \<and> code \<in> set short_keys \<and> code \<noteq> old"

text \<open>A short code that equals the previous one: the handler drops it.\<close>

definition dropped :: "nat \<Rightarrow> Keys \<Rightarrow> Keys" where
  "dropped w k = k\<lparr>times := 0, validtime := validtime k + of_nat w, keyvalue := 0, OldVal := oldkeyvalue k\<rparr>"

lemma pulse_repeated:
  assumes st: "os_still os" and k: "times k = 0" "unat (validtime k) + w < 2100" and b: "pulse_of b w"
    and code: "oldkeyvalue k = shift_in (keyvalue k) b" "oldkeyvalue k \<in> set short_keys"
  shows "run key_step (replicate w (Tick True) @ [Edge]) (k, os) = Some (dropped w k, os)"
proof -
  let ?k = "k\<lparr>times := of_nat w, validtime := validtime k + of_nat w\<rparr>"
  have w: "w \<le> 26" using b by (auto simp: pulse_of_def split: if_splits)
  have t: "run key_step (replicate w (Tick True)) (k, os) = Some (?k, os)"
    using ticks_run [OF st _ k(2)] k(1) w by simp
  have "decode_edge ?k = ?k\<lparr>keyvalue := oldkeyvalue k, times := 0\<rparr>"
    using decode_pulse [OF b, of ?k] code(1) by simp
  then have "EINT0_IRQHandler (?k, os) = Some (dropped w k, os)"
    using still_exit [OF st] code(2) by (simp add: EINT0_IRQHandler_def dispatch_key_def dropped_def)
  then show ?thesis by (simp add: run_append_Some [OF t])
qed

lemma receive_repeated:
  assumes st: "os_still os"
  shows "oldkeyvalue k \<in> set short_keys \<Longrightarrow> list_all2 pulse_of bs ws \<Longrightarrow> bs \<noteq> [] \<Longrightarrow> clean (oldkeyvalue k) (keyvalue k) bs \<Longrightarrow>
    times k = 0 \<Longrightarrow> unat (validtime k) + sum_list ws < 2100 \<Longrightarrow>
    run key_step (pulses ws) (k, os) = Some (dropped (sum_list ws) k, os)"
proof (induction bs arbitrary: k ws)
  case Nil
  then show ?case by simp
next
  case (Cons b bs k wws)
  then obtain w ws where ws: "wws = w # ws" "pulse_of b w" "list_all2 pulse_of bs ws"
    by (auto simp: list_all2_Cons1)
  show ?case
  proof (cases "bs = []")
    case True
    then have "ws = []" using ws(3) by simp
    then show ?thesis
      using pulse_repeated [OF st Cons.prems(5) _ ws(2)] Cons.prems(1,4,6) True by (simp add: pulses_def ws(1))
  next
    case False
    let ?k = "k\<lparr>times := 0, validtime := validtime k + of_nat w, keyvalue := shift_in (keyvalue k) b, OldVal := oldkeyvalue k\<rparr>"
    have r: "run key_step (replicate w (Tick True) @ [Edge]) (k, os) = Some (?k, os)"
      using Cons.prems(4,6) False by (intro pulse_still [OF st Cons.prems(5) _ ws(2)]) (auto simp: ws(1))
    have "unat (validtime k + of_nat w) \<le> unat (validtime k) + w"
      by (simp add: unat_word_ariths unat_of_nat order_trans [OF mod_less_eq_dividend] mod_add_right_eq)
    then have "run key_step (pulses ws) (?k, os) = Some (dropped (sum_list ws) ?k, os)"
      using Cons.prems False ws(3) by (intro Cons.IH) (simp_all add: ws(1))
    moreover have "pulses (w # ws) = (replicate w (Tick True) @ [Edge]) @ pulses ws" by (simp add: pulses_def)
    moreover have "dropped (sum_list ws) ?k = dropped (sum_list wws) k" by (simp add: dropped_def ws(1) ac_simps)
    ultimately show ?thesis using run_append_Some [OF r] by (simp add: ws(1))
  qed
qed

text \<open>The message went to the highest-priority task that waited: the ring is as it was, the task has the message, no
  longer waits and is ready unless it is suspended.\<close>

definition handed :: "nat \<Rightarrow> msg \<Rightarrow> OS \<Rightarrow> OS \<Rightarrow> bool" where
  "handed ev m s s' \<longleftrightarrow> (let p = Min (waiting (OSEvents s ! ev)) in
     OSQTbl s' = OSQTbl s \<and> waiting (OSEvents s' ! ev) = waiting (OSEvents s ! ev) - {p}
     \<and> (\<exists>t u. OSTCBPrioTbl s (of_nat p) = Some t \<and> OSTCBPrioTbl s' (of_nat p) = Some u \<and> OSTCBMsg u = m
          \<and> OSTCBStatPend u = OS_STAT_PEND_OK \<and> OSTCBStat u = OSTCBStat t AND NOT OS_STAT_Q
          \<and> ready s' = (if OSTCBStat u AND OS_STAT_SUSPEND = 0 then insert p (ready s) else ready s)))"

lemma OSIntExit_outer_tcb:
  assumes "os_ok s" and "OSRunning s" and "OSIntNesting s = 1" and "OSTCBPrioTbl s p = Some u"
  shows "\<exists>s' c. OSIntExit s = Some s' \<and> OSEvents s' = OSEvents s \<and> OSQTbl s' = OSQTbl s \<and> ready s' = ready s
     \<and> OSTCBPrioTbl s' p = Some (u\<lparr>OSTCBCtxSwCtr := c\<rparr>)"
proof (cases "OSLockNesting s = 0")
  case True
  have c: "\<exists>c. OSTCBPrioTbl (scheduled (s\<lparr>OSIntNesting := 0\<rparr>)) p = Some (u\<lparr>OSTCBCtxSwCtr := c\<rparr>)"
    using assms(4) by (auto simp: scheduled_def intro: exI [of _ "OSTCBCtxSwCtr u"])
  have "os_ok (s\<lparr>OSIntNesting := 0\<rparr>)" using assms(1) by simp
  then have "OSIntExit s = Some (scheduled (s\<lparr>OSIntNesting := 0\<rparr>))"
    using assms True by (simp add: OSIntExit_def Let_def request_switch_scheduled)
  then show ?thesis using c by auto
next
  case False
  then have "OSIntExit s = Some (s\<lparr>OSIntNesting := 0\<rparr>)" using assms by (simp add: OSIntExit_def Let_def)
  then show ?thesis using assms(4) by (intro exI [of _ "s\<lparr>OSIntNesting := 0\<rparr>"] exI [of _ "OSTCBCtxSwCtr u"]) simp
qed

lemma post_hands_over:
  assumes st: "os_still os" and q: "queue_at ev q os" and w: "waiting (OSEvents os ! ev) \<noteq> {}"
  shows "\<exists>os1 os2. OSQPost ev m (os\<lparr>OSIntNesting := OSIntNesting os + 1\<rparr>) = Some (OS_ERR_NONE, os1)
     \<and> OSIntExit os1 = Some os2 \<and> handed ev m os os2"
proof -
  let ?os = "os\<lparr>OSIntNesting := OSIntNesting os + 1\<rparr>" and ?p = "of_nat (Min (waiting (OSEvents os ! ev))) :: u8"
  have ok: "os_ok ?os" "ev < length (OSEvents ?os)" "waiting (OSEvents ?os ! ev) \<noteq> {}" "queue_at ev q ?os" "OSIntNesting ?os = 1" "OSRunning ?os"
    using st q w queue_at_cong [of ?os os] by (simp_all add: os_still_def) (simp add: queue_at_def)
  obtain s1 t u where s1: "OS_EventTaskRdy ev m OS_STAT_Q OS_STAT_PEND_OK ?os = Some (?p, s1)" "os_ok s1"
      "OSTCBPrioTbl os ?p = Some t" "OSTCBPrioTbl s1 ?p = Some u" "unat ?p = Min (waiting (OSEvents os ! ev))"
      "OSTCBMsg u = m" "OSTCBStatPend u = OS_STAT_PEND_OK" "OSTCBStat u = OSTCBStat t AND NOT OS_STAT_Q"
      "waiting (OSEvents s1 ! ev) = waiting (OSEvents os ! ev) - {unat ?p}"
      "ready s1 = (if OSTCBStat u AND OS_STAT_SUSPEND = 0 then insert (unat ?p) (ready os) else ready os)"
      "OSIntNesting s1 = 1" "OSQTbl s1 = OSQTbl os"
    using OS_EventTaskRdy_ok [OF ok(1-3), of m OS_STAT_Q OS_STAT_PEND_OK] ok(5) by auto
  have "OS_Sched s1 = Some s1" using OS_Sched_scheduled [OF s1(2)] s1(11) by simp
  then have p: "OSQPost ev m ?os = Some (OS_ERR_NONE, s1)" using OSQPost_cases(3) [OF ok(1,4,3), of m] s1(1) by auto
  have "OSRunning s1" using OS_EventTaskRdy_running [OF s1(1)] ok(6) by simp
  then obtain os2 c where o: "OSIntExit s1 = Some os2" "OSEvents os2 = OSEvents s1" "OSQTbl os2 = OSQTbl s1" "ready os2 = ready s1"
      "OSTCBPrioTbl os2 ?p = Some (u\<lparr>OSTCBCtxSwCtr := c\<rparr>)"
    using OSIntExit_outer_tcb [OF s1(2) _ s1(11,4)] by blast
  have "handed ev m os os2"
    unfolding handed_def Let_def using o(2-5) s1(3,5-10,12) by (auto intro!: exI [of _ t] exI [of _ "u\<lparr>OSTCBCtxSwCtr := c\<rparr>"])
  then show ?thesis using p o(1) by blast
qed

lemma post_refused:
  assumes st: "os_still os" and q: "queue_at ev q os" "waiting (OSEvents os ! ev) = {}" "q_full q"
  shows "\<exists>os1. OSQPost ev m (os\<lparr>OSIntNesting := OSIntNesting os + 1\<rparr>) = Some (OS_ERR_Q_FULL, os1) \<and> OSIntExit os1 = Some os"
proof -
  let ?os = "os\<lparr>OSIntNesting := OSIntNesting os + 1\<rparr>"
  have "os_ok ?os" "queue_at ev q ?os" using st q(1) queue_at_cong [of ?os os] by (simp_all add: os_still_def)
  then have "OSQPost ev m ?os = Some (OS_ERR_Q_FULL, ?os)" using OSQPost_cases(1) [of ?os ev q m] q(2,3) by simp
  then show ?thesis using still_exit [OF st] by blast
qed

lemma disjoint_codes: "set short_keys \<inter> set long_keys = {}"
  by code_simp

text \<open>A code of the remote control with its number of bits.\<close>

definition code_of :: "nat \<Rightarrow> u32 \<Rightarrow> bool" where
  "code_of n code \<longleftrightarrow> n = 32 \<and> code \<in> set long_keys \<or> n = 16 \<and> code \<in> set short_keys"

lemma receive_code:
  assumes st: "os_still os" and q: "queue_at ev q os"
    and k: "KeyQueueHead k = Some ev" "times k = 0" "keyvalue k = 0" "unat (validtime k) \<le> 1900"
    and code: "code_of n code" and w: "125 \<le> w" "w \<le> 145" "list_all2 pulse_of (key_bits n code) ws"
  shows "code \<in> set short_keys \<and> code = oldkeyvalue k \<Longrightarrow>
      run key_step (pulses (w # ws)) (k, os) = Some (dropped (sum_list ws) (k\<lparr>validtime := 0, keyKeep := 0, keyTmp := 0\<rparr>), os)"
    and "\<not> (code \<in> set short_keys \<and> code = oldkeyvalue k) \<Longrightarrow>
      OSQPost ev (Some addr_KeyValueSaved) (os\<lparr>OSIntNesting := OSIntNesting os + 1\<rparr>) = Some (err, os1) \<Longrightarrow> OSIntExit os1 = Some os2 \<Longrightarrow>
      run key_step (pulses (w # ws)) (k, os) = Some (pressed code k, os2)"
proof -
  let ?k = "k\<lparr>times := 0, validtime := 0, keyKeep := 0, keyTmp := 0, OldVal := oldkeyvalue k\<rparr>"
  have r: "run key_step (replicate w (Tick True) @ [Edge]) (k, os) = Some (?k, os)"
    using start_pulse [OF st k(2,3) _ w(1,2)] k(4) w(2) by simp
  have p: "pulses (w # ws) = (replicate w (Tick True) @ [Edge]) @ pulses ws" by (simp add: pulses_def)
  have n: "n \<le> 32" "key_bits n code \<noteq> []" "clean code 0 (key_bits n code)"
    using code clean_codes by (auto simp: code_of_def key_bits_def list_all_iff)
  have l: "sum_list ws \<le> 26 * n" using pulses_bound [OF w(3)] by (simp add: key_bits_def)
  show "run key_step (pulses (w # ws)) (k, os) = Some (dropped (sum_list ws) (k\<lparr>validtime := 0, keyKeep := 0, keyTmp := 0\<rparr>), os)"
    if c: "code \<in> set short_keys \<and> code = oldkeyvalue k"
  proof -
    have "run key_step (pulses ws) (?k, os) = Some (dropped (sum_list ws) ?k, os)"
      using c k n l by (intro receive_repeated [OF st _ w(3)]) auto
    moreover have "dropped (sum_list ws) ?k = dropped (sum_list ws) (k\<lparr>validtime := 0, keyKeep := 0, keyTmp := 0\<rparr>)"
      by (simp add: dropped_def)
    ultimately show ?thesis by (simp only: p run_append_Some [OF r])
  qed
  show "run key_step (pulses (w # ws)) (k, os) = Some (pressed code k, os2)"
    if c: "\<not> (code \<in> set short_keys \<and> code = oldkeyvalue k)"
      and o: "OSQPost ev (Some addr_KeyValueSaved) (os\<lparr>OSIntNesting := OSIntNesting os + 1\<rparr>) = Some (err, os1)" "OSIntExit os1 = Some os2"
  proof -
    have "run key_step (pulses ws) (?k, os) = Some (?k\<lparr>times := 0, validtime := 0, keyvalue := 0,
        KeyValueSaved := code, oldkeyvalue := code, OldVal := code\<rparr>, os2)"
      using c k code n l by (intro receive_bits [OF st o _ _ w(3)]) (auto simp: code_of_def)
    moreover have "?k\<lparr>times := 0, validtime := 0, keyvalue := 0, KeyValueSaved := code, oldkeyvalue := code, OldVal := code\<rparr>
        = pressed code k" by (simp add: pressed_def)
    ultimately show ?thesis by (simp only: p run_append_Some [OF r])
  qed
qed

lemma receive_key:
  assumes st: "os_still os" and q: "queue_at ev q os" "waiting (OSEvents os ! ev) = {}" "\<not> q_full q"
    and k: "KeyQueueHead k = Some ev" "times k = 0" "keyvalue k = 0" "unat (validtime k) \<le> 1900"
    and code: "key_of n code (oldkeyvalue k)"
    and w: "125 \<le> w" "w \<le> 145" "list_all2 pulse_of (key_bits n code) ws"
  shows "\<exists>os' q'. run key_step (pulses (w # ws)) (k, os) = Some (pressed code k, os') \<and> os_still os'
     \<and> queue_at ev q' os' \<and> waiting (OSEvents os' ! ev) = {} \<and> q_list q' = q_list q @ [Some addr_KeyValueSaved]
     \<and> q_cap q' = q_cap q"
proof -
  obtain os1 os2 q' where p: "OSQPost ev (Some addr_KeyValueSaved) (os\<lparr>OSIntNesting := OSIntNesting os + 1\<rparr>) = Some (OS_ERR_NONE, os1)"
      "OSIntExit os1 = Some os2" "os_still os2" "queue_at ev q' os2" "waiting (OSEvents os2 ! ev) = {}"
      "q_list q' = q_list q @ [Some addr_KeyValueSaved]" "q_cap q' = q_cap q"
    using post_still [OF st q, of "Some addr_KeyValueSaved"] by blast
  have "code_of n code" "\<not> (code \<in> set short_keys \<and> code = oldkeyvalue k)" using code disjoint_codes by (auto simp: key_of_def code_of_def)
  then show ?thesis using receive_code(2) [OF st q(1) k _ w _ p(1,2)] p(3-) by blast
qed

section \<open>A concrete key press\<close>

definition ex_keys :: Keys where
  "ex_keys = \<lparr>times = 0, validtime = 0, keyvalue = 0, oldkeyvalue = 0, KeyValueSaved = 0, OldVal = 0,
     keyKeep = 0, keyTmp = 0, KeyQueueHead = Some 1\<rparr>"

definition ex_widths :: "bool list \<Rightarrow> nat list" where
  "ex_widths bs = map (\<lambda>b. if b then 22 else 11) bs"

lemma ex_widths_ok: "list_all2 pulse_of bs (ex_widths bs)"
  by (induction bs) (auto simp: ex_widths_def pulse_of_def)

text \<open>A kernel whose queue at event 1 is empty with room for three messages and nobody waiting.\<close>

definition ex_os_still :: OS where
  "ex_os_still = ex_os\<lparr>OSQTbl := [ex_ring, ex_ring\<lparr>OSQEntries := 0, OSQIn := OSQOut ex_ring\<rparr>]\<rparr>"

lemma ex_os_still_ok:
  "os_still ex_os_still" "waiting (OSEvents ex_os_still ! 1) = {}"
  "queue_at 1 (ex_ring\<lparr>OSQEntries := 0, OSQIn := OSQOut ex_ring\<rparr>) ex_os_still"
proof -
  have r: "ready ex_os_still = {10, 63}" by (simp add: ex_os_still_def)
  then have h: "highest ex_os_still = 10" by (simp add: highest_def)
  have c: "OSPrioHighRdy ex_os = 10" by (simp add: ex_os_def)
  show "os_still ex_os_still" using ex_os_ok h c by (simp add: os_still_def ex_os_still_def)
  show "waiting (OSEvents ex_os_still ! 1) = {}" by (simp add: ex_os_still_def del: One_nat_def)
  show "queue_at 1 (ex_ring\<lparr>OSQEntries := 0, OSQIn := OSQOut ex_ring\<rparr>) ex_os_still"
    by (simp add: queue_at_def the_q_Some ex_os_still_def ex_os_def ex_queue_event_def OS_EVENT_TYPE_Q_def ex_ring_def q_ok_def)
qed

lemma ex_os_still_waited:
  "queue_at 0 ex_ring ex_os_still" "waiting (OSEvents ex_os_still ! 0) = {5}"
  by (simp add: queue_at_def the_q_Some ex_os_still_def ex_os_def ex_queue_event_def OS_EVENT_TYPE_Q_def ex_ring_def q_ok_def)
    (simp add: ex_os_still_def ex_os_def ex_queue_event_def ex_waiter)

lemma ex_keys_simps:
  "times ex_keys = 0" "validtime ex_keys = 0" "keyvalue ex_keys = 0" "KeyQueueHead ex_keys = Some 1"
  by (simp_all add: ex_keys_def)

lemma ex_empty_ring:
  "q_list (ex_ring\<lparr>OSQEntries := 0, OSQIn := OSQOut ex_ring\<rparr>) = []"
  "q_cap (ex_ring\<lparr>OSQEntries := 0, OSQIn := OSQOut ex_ring\<rparr>) = 3"
  "\<not> q_full (ex_ring\<lparr>OSQEntries := 0, OSQIn := OSQOut ex_ring\<rparr>)"
  by (simp_all add: q_list_def q_cap_def q_full_def ex_ring_size)

section \<open>Properties\<close>

text \<open>No sequence of edges and timer interrupts drives the handlers into undefined behaviour; the
  interrupt nesting level and the kernel's lists stay consistent.\<close>

theorem key_handlers_safe:
  assumes "key_inv ev s"
  shows "\<exists>t. run key_step is s = Some t \<and> key_inv ev t"
  using keys.run_safe [OF assms, of "is"] by (simp add: list_all_iff)

theorem key_handlers_safe_witness:
  "\<exists>t. run key_step [Tick True, Edge, Tick False] (ex_keys, ex_os_still) = Some t \<and> key_inv 1 t"
proof -
  have "OSRunning ex_os_still" "OSIntNesting ex_os_still = 0" "os_ok ex_os_still"
    using ex_os_still_ok(1) by (simp_all add: os_still_def)
  then have "key_inv 1 (ex_keys, ex_os_still)" using ex_os_still_ok(3) by (auto simp: key_inv_def ex_keys_def)
  then show ?thesis by (rule key_handlers_safe)
qed

text \<open>C23: what the reception of a code does: a start pulse followed by its bits with any lengths in the two windows,
  from a decoder that has just seen an edge and holds no bits, in a kernel where an interrupt that posts
  nothing would not switch tasks. A short code that equals the previous one
  is dropped without a message, and the kernel is unchanged. Any other code is stored, and exactly one message is posted: the
  highest-priority task waiting at the key queue gets it; if none waits it is appended to the queue; and if the
  queue is full it is lost, though the code is stored.\<close>

theorem key_received:
  assumes "os_still os" and "queue_at ev q os"
    and "KeyQueueHead k = Some ev" and "times k = 0" and "keyvalue k = 0" and "unat (validtime k) \<le> 1900"
    and "code_of n code"
    and "125 \<le> w" and "w \<le> 145" and "list_all2 pulse_of (key_bits n code) ws"
  shows "if code \<in> set short_keys \<and> code = oldkeyvalue k
    then run key_step (pulses (w # ws)) (k, os) = Some (dropped (sum_list ws) (k\<lparr>validtime := 0, keyKeep := 0, keyTmp := 0\<rparr>), os)
    else \<exists>os'. run key_step (pulses (w # ws)) (k, os) = Some (pressed code k, os')
       \<and> (if waiting (OSEvents os ! ev) \<noteq> {} then handed ev (Some addr_KeyValueSaved) os os'
          else if q_full q then os' = os
          else \<exists>q'. queue_at ev q' os' \<and> q_list q' = q_list q @ [Some addr_KeyValueSaved])"
proof (cases "code \<in> set short_keys \<and> code = oldkeyvalue k")
  case True
  show ?thesis unfolding if_P [OF True] by (rule receive_code(1) [OF assms True])
next
  case False
  note received = receive_code(2) [OF assms False]
  consider "waiting (OSEvents os ! ev) \<noteq> {}" | "waiting (OSEvents os ! ev) = {}" "q_full q" | "waiting (OSEvents os ! ev) = {}" "\<not> q_full q"
    by blast
  then show ?thesis
  proof cases
    case 1
    then obtain os1 os2 where "OSQPost ev (Some addr_KeyValueSaved) (os\<lparr>OSIntNesting := OSIntNesting os + 1\<rparr>) = Some (OS_ERR_NONE, os1)"
        "OSIntExit os1 = Some os2" "handed ev (Some addr_KeyValueSaved) os os2"
      using post_hands_over [OF assms(1,2)] by blast
    then show ?thesis unfolding if_not_P [OF False] using 1 received by auto
  next
    case 2
    then obtain os1 where "OSQPost ev (Some addr_KeyValueSaved) (os\<lparr>OSIntNesting := OSIntNesting os + 1\<rparr>) = Some (OS_ERR_Q_FULL, os1)"
        "OSIntExit os1 = Some os"
      using post_refused [OF assms(1,2)] by blast
    then show ?thesis unfolding if_not_P [OF False] using 2 received by auto
  next
    case 3
    then obtain os1 os2 q' where "OSQPost ev (Some addr_KeyValueSaved) (os\<lparr>OSIntNesting := OSIntNesting os + 1\<rparr>) = Some (OS_ERR_NONE, os1)"
        "OSIntExit os1 = Some os2" "queue_at ev q' os2" "q_list q' = q_list q @ [Some addr_KeyValueSaved]"
      using post_still [OF assms(1,2), of "Some addr_KeyValueSaved"] by blast
    then show ?thesis unfolding if_not_P [OF False] using 3 received by auto
  qed
qed

theorem key_received_witness:
  "(\<exists>os'. run key_step (pulses (130 # ex_widths (key_bits 32 KEY_UP))) (ex_keys, ex_os_still) = Some (pressed KEY_UP ex_keys, os')
      \<and> (\<exists>q'. queue_at 1 q' os' \<and> q_list q' = [Some addr_KeyValueSaved]))
   \<and> (\<exists>os'. run key_step (pulses (130 # ex_widths (key_bits 16 KEY_ADD))) (ex_keys\<lparr>KeyQueueHead := Some 0\<rparr>, ex_os_still)
         = Some (pressed KEY_ADD (ex_keys\<lparr>KeyQueueHead := Some 0\<rparr>), os') \<and> handed 0 (Some addr_KeyValueSaved) ex_os_still os')
   \<and> (\<exists>k'. run key_step (pulses (130 # ex_widths (key_bits 16 KEY_ADD))) (ex_keys\<lparr>oldkeyvalue := KEY_ADD\<rparr>, ex_os_still) = Some (k', ex_os_still))"
proof -
  have c: "code_of 32 KEY_UP" "code_of 16 KEY_ADD" "KEY_UP \<notin> set short_keys" "KEY_ADD \<in> set short_keys" "KEY_ADD \<noteq> 0"
    by (simp_all add: code_of_def long_keys_def short_keys_def key_defs)
  have o: "oldkeyvalue ex_keys = 0" by (simp add: ex_keys_def)
  have "\<exists>os'. run key_step (pulses (130 # ex_widths (key_bits 32 KEY_UP))) (ex_keys, ex_os_still) = Some (pressed KEY_UP ex_keys, os')
      \<and> (\<exists>q'. queue_at 1 q' os' \<and> q_list q' = [Some addr_KeyValueSaved])"
    using key_received [OF ex_os_still_ok(1,3), where k = ex_keys and n = 32 and code = KEY_UP and w = 130, OF _ _ _ _ _ _ _ ex_widths_ok] c
    by (simp add: ex_keys_simps ex_os_still_ok(2) ex_empty_ring del: One_nat_def)
  moreover have "\<exists>os'. run key_step (pulses (130 # ex_widths (key_bits 16 KEY_ADD))) (ex_keys\<lparr>KeyQueueHead := Some 0\<rparr>, ex_os_still)
         = Some (pressed KEY_ADD (ex_keys\<lparr>KeyQueueHead := Some 0\<rparr>), os') \<and> handed 0 (Some addr_KeyValueSaved) ex_os_still os'"
    using key_received [OF ex_os_still_ok(1) ex_os_still_waited(1), where k = "ex_keys\<lparr>KeyQueueHead := Some 0\<rparr>" and n = 16 and code = KEY_ADD and w = 130,
        OF _ _ _ _ _ _ _ ex_widths_ok] c o
    by (simp add: ex_keys_simps ex_os_still_waited(2))
  moreover have "\<exists>k'. run key_step (pulses (130 # ex_widths (key_bits 16 KEY_ADD))) (ex_keys\<lparr>oldkeyvalue := KEY_ADD\<rparr>, ex_os_still) = Some (k', ex_os_still)"
    using key_received [OF ex_os_still_ok(1,3), where k = "ex_keys\<lparr>oldkeyvalue := KEY_ADD\<rparr>" and n = 16 and code = KEY_ADD and w = 130,
        OF _ _ _ _ _ _ _ ex_widths_ok] c
    by (simp add: ex_keys_simps)
  ultimately show ?thesis by blast
qed

text \<open>C32: All messages of the key queue are the address of one variable. Two keys received before the key
  task runs give two messages, and the task takes both for the second key.\<close>

theorem first_key_lost:
  assumes "os_still os" and "queue_at ev q os" and "waiting (OSEvents os ! ev) = {}"
    and "length (q_list q) + 2 \<le> q_cap q"
    and "KeyQueueHead k = Some ev" and "times k = 0" and "keyvalue k = 0" and "unat (validtime k) \<le> 1900"
    and "key_of n1 code1 (oldkeyvalue k)" and "key_of n2 code2 code1"
    and "125 \<le> w1" and "w1 \<le> 145" and "list_all2 pulse_of (key_bits n1 code1) ws1"
    and "125 \<le> w2" and "w2 \<le> 145" and "list_all2 pulse_of (key_bits n2 code2) ws2"
  shows "\<exists>k' os' q' g. run key_step (pulses (w1 # ws1) @ pulses (w2 # ws2)) (k, os) = Some (k', os')
     \<and> queue_at ev q' os' \<and> q_list q' = q_list q @ [Some addr_KeyValueSaved, Some addr_KeyValueSaved]
     \<and> gui_key_of code2 = Some g \<and> task_Key_press (Some addr_KeyValueSaved) OS_ERR_NONE k' = Some [(g, True)]"
proof -
  have f: "\<not> q_full x" if "q_ok x" "length (q_list x) < q_cap x" for x
    using osq.full_iff [of x] that by simp
  have qo: "q_ok q" using assms(2) by (simp add: queue_at_def)
  obtain os1 q1 where r1: "run key_step (pulses (w1 # ws1)) (k, os) = Some (pressed code1 k, os1)" "os_still os1"
      "queue_at ev q1 os1" "waiting (OSEvents os1 ! ev) = {}" "q_list q1 = q_list q @ [Some addr_KeyValueSaved]"
      "q_cap q1 = q_cap q"
    using receive_key [OF assms(1-3) f [OF qo] assms(5-9,11-13)] assms(4) by auto
  have "q_ok q1" using r1(3) by (simp add: queue_at_def)
  moreover have "length (q_list q1) < q_cap q1" unfolding r1(5,6) using assms(4) by simp
  ultimately have nf: "\<not> q_full q1" by (rule f)
  obtain os2 q2 where r2: "run key_step (pulses (w2 # ws2)) (pressed code1 k, os1) = Some (pressed code2 (pressed code1 k), os2)"
      "queue_at ev q2 os2" "q_list q2 = q_list q1 @ [Some addr_KeyValueSaved]"
    using receive_key [OF r1(2,3,4) nf, of "pressed code1 k" n2 code2 w2 ws2] assms(5,10,14-16)
    by (auto simp: pressed_def)
  have "\<exists>g. gui_key_of code2 = Some g"
    using assms(10) by (auto simp: key_of_def long_keys_def short_keys_def gui_key_of_def)
  then show ?thesis
    using run_append_Some [OF r1(1)] r2 r1(5) by (auto simp: task_Key_press_def pressed_def)
qed

theorem first_key_lost_witness:
  "\<exists>k' os' q' g. run key_step (pulses (130 # ex_widths (key_bits 32 KEY_UP)) @ pulses (140 # ex_widths (key_bits 32 KEY_DOWN)))
       (ex_keys, ex_os_still) = Some (k', os') \<and> queue_at 1 q' os'
     \<and> q_list q' = [Some addr_KeyValueSaved, Some addr_KeyValueSaved]
     \<and> gui_key_of KEY_DOWN = Some g \<and> task_Key_press (Some addr_KeyValueSaved) OS_ERR_NONE k' = Some [(g, True)]"
proof -
  have c: "key_of 32 KEY_UP (oldkeyvalue ex_keys)" "key_of 32 KEY_DOWN KEY_UP" by (simp_all add: key_of_def long_keys_def)
  show ?thesis
    by (rule first_key_lost [OF ex_os_still_ok(1,3,2), unfolded ex_empty_ring(1,2) append_Nil, where ?n1.0 = 32 and ?n2.0 = 32 and ?code1.0 = KEY_UP])
      (simp_all add: c ex_keys_simps ex_widths_ok)
qed

end
