(* ===== verification/Mb_Crc.thy ===== *)
theory Mb_Crc
  imports Prelude
begin

text \<open>
  \<open>FreeModbus/modbus/rtu/mbcrc.c\<close>: the checksum of Modbus RTU frames, computed byte by
  byte with two tables of 256 entries. The reference is the bitwise division by the generator
  polynomial of the Modbus specification, in its reflected form \<open>0xA001\<close>.
\<close>

section \<open>The tables and the loop\<close>

definition aucCRCHi :: "u8 list" where
  "aucCRCHi = [
    0x00, 0xC1, 0x81, 0x40, 0x01, 0xC0, 0x80, 0x41, 0x01, 0xC0, 0x80, 0x41, 0x00, 0xC1, 0x81, 0x40,
    0x01, 0xC0, 0x80, 0x41, 0x00, 0xC1, 0x81, 0x40, 0x00, 0xC1, 0x81, 0x40, 0x01, 0xC0, 0x80, 0x41,
    0x01, 0xC0, 0x80, 0x41, 0x00, 0xC1, 0x81, 0x40, 0x00, 0xC1, 0x81, 0x40, 0x01, 0xC0, 0x80, 0x41,
    0x00, 0xC1, 0x81, 0x40, 0x01, 0xC0, 0x80, 0x41, 0x01, 0xC0, 0x80, 0x41, 0x00, 0xC1, 0x81, 0x40,
    0x01, 0xC0, 0x80, 0x41, 0x00, 0xC1, 0x81, 0x40, 0x00, 0xC1, 0x81, 0x40, 0x01, 0xC0, 0x80, 0x41,
    0x00, 0xC1, 0x81, 0x40, 0x01, 0xC0, 0x80, 0x41, 0x01, 0xC0, 0x80, 0x41, 0x00, 0xC1, 0x81, 0x40,
    0x00, 0xC1, 0x81, 0x40, 0x01, 0xC0, 0x80, 0x41, 0x01, 0xC0, 0x80, 0x41, 0x00, 0xC1, 0x81, 0x40,
    0x01, 0xC0, 0x80, 0x41, 0x00, 0xC1, 0x81, 0x40, 0x00, 0xC1, 0x81, 0x40, 0x01, 0xC0, 0x80, 0x41,
    0x01, 0xC0, 0x80, 0x41, 0x00, 0xC1, 0x81, 0x40, 0x00, 0xC1, 0x81, 0x40, 0x01, 0xC0, 0x80, 0x41,
    0x00, 0xC1, 0x81, 0x40, 0x01, 0xC0, 0x80, 0x41, 0x01, 0xC0, 0x80, 0x41, 0x00, 0xC1, 0x81, 0x40,
    0x00, 0xC1, 0x81, 0x40, 0x01, 0xC0, 0x80, 0x41, 0x01, 0xC0, 0x80, 0x41, 0x00, 0xC1, 0x81, 0x40,
    0x01, 0xC0, 0x80, 0x41, 0x00, 0xC1, 0x81, 0x40, 0x00, 0xC1, 0x81, 0x40, 0x01, 0xC0, 0x80, 0x41,
    0x00, 0xC1, 0x81, 0x40, 0x01, 0xC0, 0x80, 0x41, 0x01, 0xC0, 0x80, 0x41, 0x00, 0xC1, 0x81, 0x40,
    0x01, 0xC0, 0x80, 0x41, 0x00, 0xC1, 0x81, 0x40, 0x00, 0xC1, 0x81, 0x40, 0x01, 0xC0, 0x80, 0x41,
    0x01, 0xC0, 0x80, 0x41, 0x00, 0xC1, 0x81, 0x40, 0x00, 0xC1, 0x81, 0x40, 0x01, 0xC0, 0x80, 0x41,
    0x00, 0xC1, 0x81, 0x40, 0x01, 0xC0, 0x80, 0x41, 0x01, 0xC0, 0x80, 0x41, 0x00, 0xC1, 0x81, 0x40]"

definition aucCRCLo :: "u8 list" where
  "aucCRCLo = [
    0x00, 0xC0, 0xC1, 0x01, 0xC3, 0x03, 0x02, 0xC2, 0xC6, 0x06, 0x07, 0xC7, 0x05, 0xC5, 0xC4, 0x04,
    0xCC, 0x0C, 0x0D, 0xCD, 0x0F, 0xCF, 0xCE, 0x0E, 0x0A, 0xCA, 0xCB, 0x0B, 0xC9, 0x09, 0x08, 0xC8,
    0xD8, 0x18, 0x19, 0xD9, 0x1B, 0xDB, 0xDA, 0x1A, 0x1E, 0xDE, 0xDF, 0x1F, 0xDD, 0x1D, 0x1C, 0xDC,
    0x14, 0xD4, 0xD5, 0x15, 0xD7, 0x17, 0x16, 0xD6, 0xD2, 0x12, 0x13, 0xD3, 0x11, 0xD1, 0xD0, 0x10,
    0xF0, 0x30, 0x31, 0xF1, 0x33, 0xF3, 0xF2, 0x32, 0x36, 0xF6, 0xF7, 0x37, 0xF5, 0x35, 0x34, 0xF4,
    0x3C, 0xFC, 0xFD, 0x3D, 0xFF, 0x3F, 0x3E, 0xFE, 0xFA, 0x3A, 0x3B, 0xFB, 0x39, 0xF9, 0xF8, 0x38,
    0x28, 0xE8, 0xE9, 0x29, 0xEB, 0x2B, 0x2A, 0xEA, 0xEE, 0x2E, 0x2F, 0xEF, 0x2D, 0xED, 0xEC, 0x2C,
    0xE4, 0x24, 0x25, 0xE5, 0x27, 0xE7, 0xE6, 0x26, 0x22, 0xE2, 0xE3, 0x23, 0xE1, 0x21, 0x20, 0xE0,
    0xA0, 0x60, 0x61, 0xA1, 0x63, 0xA3, 0xA2, 0x62, 0x66, 0xA6, 0xA7, 0x67, 0xA5, 0x65, 0x64, 0xA4,
    0x6C, 0xAC, 0xAD, 0x6D, 0xAF, 0x6F, 0x6E, 0xAE, 0xAA, 0x6A, 0x6B, 0xAB, 0x69, 0xA9, 0xA8, 0x68,
    0x78, 0xB8, 0xB9, 0x79, 0xBB, 0x7B, 0x7A, 0xBA, 0xBE, 0x7E, 0x7F, 0xBF, 0x7D, 0xBD, 0xBC, 0x7C,
    0xB4, 0x74, 0x75, 0xB5, 0x77, 0xB7, 0xB6, 0x76, 0x72, 0xB2, 0xB3, 0x73, 0xB1, 0x71, 0x70, 0xB0,
    0x50, 0x90, 0x91, 0x51, 0x93, 0x53, 0x52, 0x92, 0x96, 0x56, 0x57, 0x97, 0x55, 0x95, 0x94, 0x54,
    0x9C, 0x5C, 0x5D, 0x9D, 0x5F, 0x9F, 0x9E, 0x5E, 0x5A, 0x9A, 0x9B, 0x5B, 0x99, 0x59, 0x58, 0x98,
    0x88, 0x48, 0x49, 0x89, 0x4B, 0x8B, 0x8A, 0x4A, 0x4E, 0x8E, 0x8F, 0x4F, 0x8D, 0x4D, 0x4C, 0x8C,
    0x44, 0x84, 0x85, 0x45, 0x87, 0x47, 0x46, 0x86, 0x82, 0x42, 0x43, 0x83, 0x41, 0x81, 0x80, 0x40]"

text \<open>One turn of the loop on the pair of \<open>ucCRCHi\<close> and \<open>ucCRCLo\<close>.\<close>

definition crc_turn :: "u8 \<Rightarrow> u8 \<times> u8 \<Rightarrow> u8 \<times> u8" where
  "crc_turn b c =
     (let iIndex = unat (snd c XOR b) in
      (aucCRCLo ! iIndex, fst c XOR aucCRCHi ! iIndex))"

text \<open>The length is counted down in a 16-bit integer; \<open>None\<close> is a read after the frame's buffer.\<close>

fun crc_loop :: "u8 list \<Rightarrow> nat \<Rightarrow> u8 \<times> u8 \<Rightarrow> (u8 \<times> u8) option" where
  "crc_loop bs 0 c = Some c"
| "crc_loop [] (Suc n) c = None"
| "crc_loop (b # bs) (Suc n) c = crc_loop bs n (crc_turn b c)"

definition usMBCRC16 :: "u8 list \<Rightarrow> u16 \<Rightarrow> u16 option" where
  "usMBCRC16 pucFrame usLen =
     map_option (\<lambda>(hi, lo). push_bit 8 (ucast hi) OR ucast lo) (crc_loop pucFrame (unat usLen) (0xFF, 0xFF))"

section \<open>The reference\<close>

definition div_step :: "u16 \<Rightarrow> u16" where
  "div_step c = (if bit c 0 then drop_bit 1 c XOR 0xA001 else drop_bit 1 c)"

definition div_byte :: "u8 \<Rightarrow> u16 \<Rightarrow> u16" where
  "div_byte b c = (div_step ^^ 8) (c XOR ucast b)"

definition crc16 :: "u8 list \<Rightarrow> u16" where
  "crc16 bs = fold div_byte bs 0xFFFF"

lemma div_step_xor: "div_step (a XOR b) = div_step a XOR div_step b"
  by (rule bit_word_eqI) (auto simp: div_step_def bit_simps)

lemma div_steps_xor: "(div_step ^^ n) (a XOR b) = (div_step ^^ n) a XOR (div_step ^^ n) b"
  by (induction n) (simp_all add: div_step_xor)

lemma lengths_tables: "length aucCRCHi = 256" "length aucCRCLo = 256"
  by (simp_all add: aucCRCHi_def aucCRCLo_def)

lemma div8: "(div_step ^^ 8) c = div_step (div_step (div_step (div_step (div_step (div_step (div_step (div_step c)))))))"
  by (simp add: numeral_eq_Suc)

definition tab_ok :: "nat \<Rightarrow> u16 list \<Rightarrow> bool" where
  "tab_ok n xs \<longleftrightarrow> length xs = 2 ^ n \<and> (\<forall>i < 2 ^ n. xs ! i = (div_step ^^ 8) (of_nat i))"

lemma of_nat_add_xor:
  assumes "i < 2 ^ n" shows "(of_nat (2 ^ n + i) :: u16) = of_nat (2 ^ n) XOR of_nat i"
proof -
  have "\<not> bit i n" using assms by (simp add: bit_iff_odd)
  then have "2 ^ n AND i = 0" by (intro bit_eqI) (auto simp: bit_simps)
  then have "2 ^ n + i = 2 ^ n XOR i" by (simp add: disjunctive_add_eq_xor)
  then show ?thesis by (simp add: bit_eq_iff [where 'a = u16] bit_simps)
qed

lemma tab_double:
  assumes "tab_ok n xs" and "t = (div_step ^^ 8) (of_nat (2 ^ n))"
  shows "tab_ok (Suc n) (xs @ map ((XOR) t) xs)"
proof -
  have "(xs @ map ((XOR) t) xs) ! i = (div_step ^^ 8) (of_nat i)" if i: "i < 2 ^ Suc n" for i
  proof (cases "i < 2 ^ n")
    case True
    then show ?thesis using assms(1) by (simp add: tab_ok_def nth_append)
  next
    case False
    then obtain j where j: "i = 2 ^ n + j" "j < 2 ^ n" using i by (metis le_Suc_ex less_diff_conv2 linorder_not_less mult_2 nat_add_left_cancel_less power_Suc)
    then show ?thesis using assms of_nat_add_xor [OF j(2)] by (simp add: tab_ok_def nth_append div_steps_xor)
  qed
  then show ?thesis using assms(1) by (simp add: tab_ok_def)
qed
lemma tab_zero: "tab_ok 0 [0]"
  by (simp add: tab_ok_def div8 div_step_def)

lemma tab_fold: "tab_ok n (fold (\<lambda>t xs. xs @ map ((XOR) t) xs) (map (\<lambda>k. (div_step ^^ 8) (of_nat (2 ^ k))) [0..<n]) [0])"
proof (induction n)
  case (Suc n)
  then show ?case using tab_double [OF Suc] by simp
qed (simp add: tab_zero)

lemma tab_values: "map (\<lambda>k. (div_step ^^ 8) (of_nat (2 ^ k))) [0..<8]
    = [0xC0C1, 0xC181, 0xC301, 0xC601, 0xCC01, 0xD801, 0xF001, 0xA001]"
  by (simp add: div8 div_step_def upt_rec)

lemma table_ok: "tab_ok 8 (map2 word16 aucCRCLo aucCRCHi)"
  using tab_fold [of 8] unfolding tab_values by (simp add: word16_def aucCRCHi_def aucCRCLo_def)


section \<open>The loop divides\<close>

lemma div_step_push: "div_step (push_bit (Suc m) x) = push_bit m x" if "\<And>n. bit x n \<Longrightarrow> n < 8" "m < 8"
  using that(2) by (intro bit_word_eqI) (auto simp: div_step_def bit_simps Suc_diff_le dest: that(1) simp del: push_bit_Suc)

lemma div_steps_push: "(\<And>n. bit x n \<Longrightarrow> n < 8) \<Longrightarrow> m \<le> 8 \<Longrightarrow> (div_step ^^ m) (push_bit m x) = x"
proof (induction m)
  case (Suc m)
  then show ?case by (simp add: funpow_Suc_right div_step_push del: funpow.simps push_bit_Suc)
qed simp

lemma div_steps_high: "(div_step ^^ 8) (word16 hi 0) = ucast hi"
  using div_steps_push [of "ucast hi" 8] bit_imp_le_length [of hi] by (fastforce simp: word16_def bit_simps)

lemma word16_split: "word16 hi lo XOR ucast b = word16 hi 0 XOR ucast (lo XOR b)"
  by (rule bit_word_eqI) (auto simp: bit_word16 bit_simps dest: bit_imp_le_length)

lemma div_byte_split: "div_byte b (word16 hi lo) = ucast hi XOR (div_step ^^ 8) (ucast (lo XOR b))"
  by (subst div_byte_def, subst word16_split) (simp add: div_steps_xor div_steps_high)

lemma table_entry: "word16 (aucCRCLo ! unat i) (aucCRCHi ! unat i) = (div_step ^^ 8) (ucast (i :: u8))"
proof -
  have "unat i < 256" using unsigned_less [of i] by simp
  then have "map2 word16 aucCRCLo aucCRCHi ! unat i = (div_step ^^ 8) (of_nat (unat i))"
    using table_ok unfolding tab_ok_def by (elim conjE allE [of _ "unat i"]) simp
  moreover have "map2 word16 aucCRCLo aucCRCHi ! unat i = word16 (aucCRCLo ! unat i) (aucCRCHi ! unat i)"
    using \<open>unat i < 256\<close> by (simp add: lengths_tables)
  ultimately show ?thesis by simp
qed

lemma crc_turn_divides: "(case crc_turn b (hi, lo) of (h, l) \<Rightarrow> word16 h l) = div_byte b (word16 hi lo)"
proof -
  have "word16 x (hi XOR y) = ucast hi XOR word16 x y" for x y
    by (rule bit_word_eqI) (auto simp: bit_word16 bit_simps dest: bit_imp_le_length)
  then show ?thesis by (simp add: crc_turn_def Let_def div_byte_split table_entry)
qed

lemma crc_loop_divides:
  "n \<le> length bs \<Longrightarrow> \<exists>h l. crc_loop bs n c = Some (h, l) \<and> word16 h l = fold div_byte (take n bs) (word16 (fst c) (snd c))"
proof (induction bs n c rule: crc_loop.induct)
  case (3 b bs n c)
  then show ?case using crc_turn_divides [of b "fst c" "snd c"] by (simp add: split_beta)
qed simp_all

lemma crc_loop_outside: "length bs < n \<Longrightarrow> crc_loop bs n c = None"
  by (induction bs n c rule: crc_loop.induct) simp_all

section \<open>What the checksum detects\<close>

lemma div_byte_low: "div_byte (lo8 c) c = ucast (hi8 c)"
  using div_byte_split [of "lo8 c" "hi8 c" "lo8 c"] by (simp add: div8 div_step_def)

lemma crc16_closed: "crc16 (bs @ [lo8 (crc16 bs), hi8 (crc16 bs)]) = 0"
proof -
  have "div_byte (hi8 c) (ucast (hi8 c)) = 0" for c by (simp add: div_byte_def div8 div_step_def)
  then show ?thesis by (simp add: crc16_def div_byte_low)
qed

lemma div_step_inj: "div_step a = div_step b \<Longrightarrow> a = b"
proof (rule bit_word_eqI)
  fix n assume e: "div_step a = div_step b" and n: "n < LENGTH(16)"
  have "bit (div_step a) 15 = bit (div_step b) 15" using e by simp
  moreover have "\<not> bit x 16" for x :: u16 using bit_imp_le_length [of x 16] by auto
  ultimately have z: "bit a 0 = bit b 0" by (auto simp: div_step_def bit_simps split: if_splits)
  have "bit (div_step a) (n - 1) = bit (div_step b) (n - 1)" using e by simp
  then show "bit a n = bit b n"
    using z n by (cases n) (auto simp: div_step_def bit_simps dest: bit_imp_le_length split: if_splits)
qed

lemma div_steps_inj: "(div_step ^^ n) a = (div_step ^^ n) b \<Longrightarrow> a = b"
  by (induction n) (auto dest: div_step_inj)

lemma div_two_bytes: "div_byte b2 (div_byte b1 c) = (div_step ^^ 16) (c XOR word16 b2 b1)"
proof -
  have w: "word16 b2 b1 = ucast b1 XOR word16 b2 0"
    by (rule bit_word_eqI) (auto simp: bit_word16 bit_simps dest: bit_imp_le_length)
  have "(div_step ^^ 16) x = (div_step ^^ 8) ((div_step ^^ 8) x)" for x
    using funpow_add [of 8 8 div_step] by simp
  then show ?thesis by (simp add: w div_byte_def div_steps_xor div_steps_high flip: xor.assoc)
qed

lemma xor_cancel: "c XOR x = d XOR x \<Longrightarrow> c = d" for c d x :: u16
  by (drule arg_cong [where f = "\<lambda>y. y XOR x"]) (simp add: xor.assoc)

lemma fold_div_byte_inj: "fold div_byte bs c = fold div_byte bs d \<Longrightarrow> c = d"
proof (induction bs arbitrary: c d)
  case (Cons b bs)
  then have "div_byte b c = div_byte b d" by simp
  then have "c XOR ucast b = d XOR ucast b" by (simp only: div_byte_def div_steps_inj)
  then show ?case by (rule xor_cancel)
qed simp

lemma crc16_two_bytes:
  assumes "crc16 (xs @ [a, b] @ ys) = crc16 (xs @ [c, d] @ ys)"
  shows "a = c \<and> b = d"
proof -
  let ?x = "fold div_byte xs 0xFFFF"
  have "div_byte b (div_byte a ?x) = div_byte d (div_byte c ?x)"
    using assms fold_div_byte_inj by (simp add: crc16_def)
  then have "?x XOR word16 b a = ?x XOR word16 d c" by (simp add: div_two_bytes div_steps_inj)
  then have "word16 b a = word16 d c" by (simp only: xor.commute [of ?x]) (rule xor_cancel)
  then show ?thesis by simp
qed

lemma usMBCRC16_spec:
  "usMBCRC16 pucFrame usLen =
     (if unat usLen \<le> length pucFrame then Some (crc16 (take (unat usLen) pucFrame)) else None)"
proof (cases "unat usLen \<le> length pucFrame")
  case True
  have "word16 0xFF 0xFF = 0xFFFF" by (simp add: word16_def)
  then show ?thesis
    using True crc_loop_divides [OF True, of "(0xFF, 0xFF)"] by (auto simp: usMBCRC16_def crc16_def word16_def)
qed (simp add: usMBCRC16_def crc_loop_outside)

section \<open>Properties\<close>

text \<open>C5: The table-driven checksum is the bitwise division of the Modbus specification, for every frame and
  every length; it reads outside the frame's buffer exactly if the length is larger than the buffer.\<close>

theorem usMBCRC16_divides:
  "usMBCRC16 pucFrame usLen =
     (if unat usLen \<le> length pucFrame then Some (crc16 (take (unat usLen) pucFrame)) else None)"
  by (rule usMBCRC16_spec)

end
