(* ===== verification/Mb_Master.thy ===== *)
theory Mb_Master
  imports Mb_Crc
begin

text \<open>
  \<open>FreeModbus/modbus/rtu/mbrtu_m.c\<close> and the timer of \<open>FreeModbus/port/porttimer_m.c\<close>:
  the state machine of the Modbus RTU master. One request frame goes out byte by byte on the
  transmit interrupts; a reply comes in byte by byte and ends with the expiry of the 3.5-character
  timer; its length and checksum are tested when the poll task asks for it. The flags the state
  machine posts are bits of the master's flag group; a flag is a set bit until somebody consumes it.
\<close>

section \<open>State\<close>

datatype eMBErrorCode = MB_ENOERR | MB_ENOREG | MB_EINVAL | MB_EPORTERR | MB_ENORES | MB_EIO
  | MB_EILLSTATE | MB_ETIMEDOUT

datatype eMBMasterRcvState = STATE_M_RX_INIT | STATE_M_RX_IDLE | STATE_M_RX_RCV | STATE_M_RX_ERROR

datatype eMBMasterSndState = STATE_M_TX_IDLE | STATE_M_TX_XMIT | STATE_M_TX_XFWR

datatype eMBMasterTimerMode = MB_TMODE_T35 | MB_TMODE_RESPOND_TIMEOUT | MB_TMODE_CONVERT_DELAY

datatype eMBMasterErrorEventType = EV_ERROR_RESPOND_TIMEOUT | EV_ERROR_RECEIVE_DATA | EV_ERROR_EXECUTE_FUNCTION

definition EV_MASTER_READY :: u16 where "EV_MASTER_READY = 1"
definition EV_MASTER_FRAME_RECEIVED :: u16 where "EV_MASTER_FRAME_RECEIVED = 2"
definition EV_MASTER_EXECUTE :: u16 where "EV_MASTER_EXECUTE = 4"
definition EV_MASTER_FRAME_SENT :: u16 where "EV_MASTER_FRAME_SENT = 8"
definition EV_MASTER_ERROR_PROCESS :: u16 where "EV_MASTER_ERROR_PROCESS = 16"
definition EV_MASTER_PROCESS_SUCESS :: u16 where "EV_MASTER_PROCESS_SUCESS = 32"
definition EV_MASTER_ERROR_RESPOND_TIMEOUT :: u16 where "EV_MASTER_ERROR_RESPOND_TIMEOUT = 64"
definition EV_MASTER_ERROR_RECEIVE_DATA :: u16 where "EV_MASTER_ERROR_RECEIVE_DATA = 128"
definition EV_MASTER_ERROR_EXECUTE_FUNCTION :: u16 where "EV_MASTER_ERROR_EXECUTE_FUNCTION = 256"

lemmas ev_defs = EV_MASTER_READY_def EV_MASTER_FRAME_RECEIVED_def EV_MASTER_EXECUTE_def
  EV_MASTER_FRAME_SENT_def EV_MASTER_ERROR_PROCESS_def EV_MASTER_PROCESS_SUCESS_def
  EV_MASTER_ERROR_RESPOND_TIMEOUT_def EV_MASTER_ERROR_RECEIVE_DATA_def EV_MASTER_ERROR_EXECUTE_FUNCTION_def

datatype eMBState = STATE_ENABLED | STATE_DISABLED | STATE_NOT_INITIALIZED

text \<open>The two buffers a Modbus frame pointer of the stack can point to; both at offset 1.\<close>

datatype mb_frame = SndPdu | RcvPdu

text \<open>
  The static variables of the stack, the flags of its event group, the count of its running
  resource, the registers of the slaves, the timer (its match value in units of 50 microseconds
  while it runs) and the bytes given to the serial port. The pointer into the send buffer is an
  index of it; the two-dimensional register arrays are the memory of their rows, one after the other.
\<close>

record Mb =
  eSndState :: eMBMasterSndState
  eRcvState :: eMBMasterRcvState
  ucMasterRTUSndBuf :: "u8 list"
  ucMasterRTURcvBuf :: "u8 list"
  usMasterSendPDULength :: u16
  pucMasterSndBufferCur :: nat
  usMasterSndBufferCount :: u16
  usMasterRcvBufferPos :: u16
  xFrameIsBroadcast :: bool
  eMasterCurTimerMode :: eMBMasterTimerMode
  usT35TimeOut50us :: u16
  eMBMasterCurErrorType :: eMBMasterErrorEventType
  ucMBMasterDestAddress :: u8
  ucMBFrame :: "mb_frame option"
  ucRcvAddress :: u8
  usLength :: u16
  xMasterOsEvent :: u16
  xMasterRunRes :: u16
  eMBState :: eMBState
  xMBRunInMasterMode :: bool
  ucMDiscInBuf :: "u8 list"
  ucMCoilBuf :: "u8 list"
  usMRegInBuf :: "u16 list"
  usMRegHoldBuf :: "u16 list"
  ucMBSlaveID :: "u8 list"
  usMBSlaveIDLen :: u16
  CommxTimeOut1 :: u8
  CommxTimeOut2 :: u8
  timer :: "u16 option"
  wire :: "u8 list"

definition MB_MASTER_TOTAL_SLAVE_NUM :: u8 where "MB_MASTER_TOTAL_SLAVE_NUM = 16"
definition MB_PDU_SIZE_MAX :: nat where "MB_PDU_SIZE_MAX = 253"
definition MB_SER_PDU_SIZE_MAX :: u16 where "MB_SER_PDU_SIZE_MAX = 256"
definition MB_SER_PDU_SIZE_MIN :: u16 where "MB_SER_PDU_SIZE_MIN = 4"

lemmas mb_sizes = MB_MASTER_TOTAL_SLAVE_NUM_def MB_PDU_SIZE_MAX_def MB_SER_PDU_SIZE_MAX_def MB_SER_PDU_SIZE_MIN_def

section \<open>Timers and events\<close>

definition xMBMasterPortEventPost :: "u16 \<Rightarrow> Mb \<Rightarrow> Mb" where
  "xMBMasterPortEventPost eEvent m = m\<lparr>xMasterOsEvent := xMasterOsEvent m OR eEvent\<rparr>"

text \<open>The mode stays as it was: the line that sets it is commented out.\<close>

definition vMBMasterPortTimersT35Enable :: "Mb \<Rightarrow> Mb" where
  "vMBMasterPortTimersT35Enable m = m\<lparr>timer := Some (usT35TimeOut50us m)\<rparr>"

definition vMBMasterPortTimersConvertDelayEnable :: "Mb \<Rightarrow> Mb" where
  "vMBMasterPortTimersConvertDelayEnable m =
     m\<lparr>eMasterCurTimerMode := MB_TMODE_CONVERT_DELAY, timer := Some (of_nat (200 * 1000 div 50))\<rparr>"

text \<open>The match value is computed from the number of the timer mode, which is 1.\<close>

definition vMBMasterPortTimersRespondTimeoutEnable :: "Mb \<Rightarrow> Mb" where
  "vMBMasterPortTimersRespondTimeoutEnable m =
     m\<lparr>eMasterCurTimerMode := MB_TMODE_RESPOND_TIMEOUT, timer := Some (of_nat (1 * 1000 div 50))\<rparr>"

definition vMBMasterPortTimersDisable :: "Mb \<Rightarrow> Mb" where
  "vMBMasterPortTimersDisable m = m\<lparr>timer := None\<rparr>"

section \<open>Start, receive and send\<close>

definition t35_ticks :: "u32 \<Rightarrow> u16 option" where
  "t35_ticks ulBaudRate =
     (if ulBaudRate > 19200 then Some 35
      else if 2 * ulBaudRate = 0 then None
      else Some (ucast ((7 * 220000) div (2 * ulBaudRate))))"

text \<open>\<open>serial_ok\<close> is the result of the set-up of the port. A rate of 0 divides by 0.\<close>

definition eMBMasterRTUInit :: "bool \<Rightarrow> u32 \<Rightarrow> Mb \<Rightarrow> (eMBErrorCode \<times> Mb) option" where
  "eMBMasterRTUInit serial_ok ulBaudRate m =
     (if \<not> serial_ok then Some (MB_EPORTERR, m)
      else do {
        t \<leftarrow> t35_ticks ulBaudRate;
        Some (MB_ENOERR, m\<lparr>usT35TimeOut50us := t, timer := None\<rparr>) })"

definition eMBMasterRTUStart :: "Mb \<Rightarrow> Mb" where
  "eMBMasterRTUStart m = vMBMasterPortTimersT35Enable (m\<lparr>eRcvState := STATE_M_RX_INIT\<rparr>)"

definition eMBMasterRTUStop :: "Mb \<Rightarrow> Mb" where
  "eMBMasterRTUStop m = vMBMasterPortTimersDisable m"

text \<open>
  The three results are written to the static variables of the poll function, its only caller. The assertion that
  fewer than 256 bytes were received is compiled out, since \<open>USE_FULL_ASSERT\<close> is not defined.
\<close>

definition eMBMasterRTUReceive :: "Mb \<Rightarrow> (eMBErrorCode \<times> Mb) option" where
  "eMBMasterRTUReceive m =
     (if usMasterRcvBufferPos m \<ge> MB_SER_PDU_SIZE_MIN then do {
        crc \<leftarrow> usMBCRC16 (ucMasterRTURcvBuf m) (usMasterRcvBufferPos m);
        if crc = 0 then do {
          adr \<leftarrow> rd (ucMasterRTURcvBuf m) 0;
          Some (MB_ENOERR, m\<lparr>ucRcvAddress := adr, usLength := usMasterRcvBufferPos m - 1 - 2, ucMBFrame := Some RcvPdu\<rparr>) }
        else Some (MB_EIO, m) }
      else Some (MB_EIO, m))"

text \<open>\<open>pdu\<close> is the index of the frame in the send buffer; the byte before it takes the address.\<close>

definition eMBMasterRTUSend :: "u8 \<Rightarrow> nat \<Rightarrow> u16 \<Rightarrow> Mb \<Rightarrow> (eMBErrorCode \<times> Mb) option" where
  "eMBMasterRTUSend ucSlaveAddress pdu len m =
     (if ucSlaveAddress > MB_MASTER_TOTAL_SLAVE_NUM then Some (MB_EINVAL, m)
      else if eRcvState m = STATE_M_RX_IDLE then do {
        cur \<leftarrow> (if pdu = 0 then None else Some (pdu - 1));
        buf \<leftarrow> wr (ucMasterRTUSndBuf m) cur ucSlaveAddress;
        let cnt = 1 + len;
        crc \<leftarrow> usMBCRC16 (drop cur buf) cnt;
        buf \<leftarrow> wr buf (unat cnt) (lo8 crc);
        let cnt = cnt + 1;
        buf \<leftarrow> wr buf (unat cnt) (hi8 crc);
        let cnt = cnt + 1;
        Some (MB_ENOERR, m\<lparr>ucMasterRTUSndBuf := buf, pucMasterSndBufferCur := cur, usMasterSndBufferCount := cnt,
                            eSndState := STATE_M_TX_XMIT\<rparr>) }
      else Some (MB_EIO, m))"

section \<open>The interrupt routines\<close>

definition xMBMasterRTUReceiveFSM :: "u8 \<Rightarrow> Mb \<Rightarrow> Mb option" where
  "xMBMasterRTUReceiveFSM ucByte m =
     (case eRcvState m of
        STATE_M_RX_INIT \<Rightarrow> Some (vMBMasterPortTimersT35Enable m)
      | STATE_M_RX_ERROR \<Rightarrow> Some (vMBMasterPortTimersT35Enable m)
      | STATE_M_RX_IDLE \<Rightarrow> do {
          let m = vMBMasterPortTimersDisable m;
          buf \<leftarrow> wr (ucMasterRTURcvBuf m) 0 ucByte;
          Some (vMBMasterPortTimersT35Enable (m\<lparr>eSndState := STATE_M_TX_IDLE, ucMasterRTURcvBuf := buf,
                  usMasterRcvBufferPos := 1, eRcvState := STATE_M_RX_RCV\<rparr>)) }
      | STATE_M_RX_RCV \<Rightarrow> do {
          m \<leftarrow> (if usMasterRcvBufferPos m < MB_SER_PDU_SIZE_MAX then do {
                  buf \<leftarrow> wr (ucMasterRTURcvBuf m) (unat (usMasterRcvBufferPos m)) ucByte;
                  Some (m\<lparr>ucMasterRTURcvBuf := buf, usMasterRcvBufferPos := usMasterRcvBufferPos m + 1\<rparr>) }
                else Some (m\<lparr>eRcvState := STATE_M_RX_ERROR\<rparr>));
          Some (vMBMasterPortTimersT35Enable m) })"

definition xMBMasterRTUTransmitFSM :: "Mb \<Rightarrow> Mb option" where
  "xMBMasterRTUTransmitFSM m =
     (case eSndState m of
        STATE_M_TX_XMIT \<Rightarrow>
          (if usMasterSndBufferCount m \<noteq> 0 then do {
             b \<leftarrow> rd (ucMasterRTUSndBuf m) (pucMasterSndBufferCur m);
             Some (m\<lparr>wire := wire m @ [b], pucMasterSndBufferCur := pucMasterSndBufferCur m + 1,
                     usMasterSndBufferCount := usMasterSndBufferCount m - 1\<rparr>) }
           else do {
             adr \<leftarrow> rd (ucMasterRTUSndBuf m) 0;
             let m = m\<lparr>xFrameIsBroadcast := (adr = 0), eSndState := STATE_M_TX_XFWR\<rparr>;
             Some (if xFrameIsBroadcast m then vMBMasterPortTimersConvertDelayEnable m
                   else vMBMasterPortTimersRespondTimeoutEnable m) })
      | _ \<Rightarrow> Some m)"

definition xMBMasterRTUTimerExpired :: "Mb \<Rightarrow> Mb" where
  "xMBMasterRTUTimerExpired m =
     (let m = (case eRcvState m of
                 STATE_M_RX_INIT \<Rightarrow> xMBMasterPortEventPost EV_MASTER_READY m
               | STATE_M_RX_RCV \<Rightarrow> xMBMasterPortEventPost EV_MASTER_FRAME_RECEIVED m
               | _ \<Rightarrow> m);
          m = m\<lparr>eRcvState := STATE_M_RX_IDLE\<rparr>;
          m = (if eSndState m = STATE_M_TX_XFWR \<and> \<not> xFrameIsBroadcast m
               then xMBMasterPortEventPost EV_MASTER_ERROR_PROCESS (m\<lparr>eMBMasterCurErrorType := EV_ERROR_RESPOND_TIMEOUT\<rparr>)
               else m);
          m = vMBMasterPortTimersDisable (m\<lparr>eSndState := STATE_M_TX_IDLE\<rparr>) in
      if eMasterCurTimerMode m = MB_TMODE_CONVERT_DELAY then xMBMasterPortEventPost EV_MASTER_EXECUTE m else m)"

datatype mb_irq = RxByte u8 | TxEmpty | TimerExpired

fun mb_irq_step :: "mb_irq \<Rightarrow> Mb \<Rightarrow> Mb option" where
  "mb_irq_step (RxByte b) m = xMBMasterRTUReceiveFSM b m"
| "mb_irq_step TxEmpty m = xMBMasterRTUTransmitFSM m"
| "mb_irq_step TimerExpired m = Some (xMBMasterRTUTimerExpired m)"

section \<open>Sending\<close>

definition mb_ok :: "Mb \<Rightarrow> bool" where
  "mb_ok m \<longleftrightarrow> length (ucMasterRTUSndBuf m) = MB_PDU_SIZE_MAX \<and> length (ucMasterRTURcvBuf m) = 256"

text \<open>The frame on the line: address, protocol data unit, checksum with the low byte first.\<close>

definition rtu_frame :: "u8 \<Rightarrow> u8 list \<Rightarrow> u8 list" where
  "rtu_frame adr pdu = (adr # pdu) @ [lo8 (crc16 (adr # pdu)), hi8 (crc16 (adr # pdu))]"

lemma length_rtu_frame [simp]: "length (rtu_frame adr pdu) = length pdu + 3"
  by (simp add: rtu_frame_def)

lemma crc16_rtu_frame: "crc16 (rtu_frame adr pdu) = 0"
  unfolding rtu_frame_def by (rule crc16_closed)

definition pdu_in :: "u8 list \<Rightarrow> u16 \<Rightarrow> u8 list" where
  "pdu_in buf len = take (unat len) (drop 1 buf)"

lemma take_two_written: "Suc n < length b \<Longrightarrow> take (Suc (Suc n)) (b[n := x, Suc n := y]) = take n b @ [x, y]"
  by (simp add: take_Suc_conv_app_nth)

lemma pdu_in_Cons: "length p = unat len \<Longrightarrow> pdu_in (a # p @ xs) len = p"
  by (simp add: pdu_in_def)

lemma eMBMasterRTUSend_frame:
  assumes "mb_ok m" and "eRcvState m = STATE_M_RX_IDLE" and "adr \<le> MB_MASTER_TOTAL_SLAVE_NUM" and "unat len \<le> 250"
  shows "\<exists>buf. eMBMasterRTUSend adr 1 len m = Some (MB_ENOERR, m\<lparr>ucMasterRTUSndBuf := buf, pucMasterSndBufferCur := 0,
      usMasterSndBufferCount := len + 3, eSndState := STATE_M_TX_XMIT\<rparr>)
    \<and> take (unat len + 3) buf = rtu_frame adr (pdu_in (ucMasterRTUSndBuf m) len) \<and> length buf = MB_PDU_SIZE_MAX"
proof -
  let ?n = "unat len" and ?b = "(ucMasterRTUSndBuf m)[0 := adr]"
  have n: "unat (1 + len) = Suc ?n" "unat (1 + len + 1) = Suc (Suc ?n)"
    using assms(4) by (simp_all add: unat_word_ariths)
  have l: "length ?b = 253" using assms(1) by (simp add: mb_ok_def mb_sizes)
  have t: "take (Suc ?n) ?b = adr # pdu_in (ucMasterRTUSndBuf m) len"
    using l assms(4) by (cases "ucMasterRTUSndBuf m") (auto simp: pdu_in_def)
  have c: "usMBCRC16 ?b (1 + len) = Some (crc16 (adr # pdu_in (ucMasterRTUSndBuf m) len))"
    using l assms(4) n(1) t by (simp add: usMBCRC16_spec)
  have w: "take (unat len + 3) (?b[Suc ?n := x, Suc (Suc ?n) := y]) = take (Suc ?n) ?b @ [x, y]" for x y
    using take_two_written [of "Suc ?n" ?b x y] l assms(4) by (simp add: numeral_3_eq_3)
  have "\<not> MB_MASTER_TOTAL_SLAVE_NUM < adr" using assms(3) by simp
  let ?crc = "crc16 (adr # pdu_in (ucMasterRTUSndBuf m) len)"
  let ?buf = "?b[Suc ?n := lo8 ?crc, Suc (Suc ?n) := hi8 ?crc]"
  have "eMBMasterRTUSend adr 1 len m = Some (MB_ENOERR, m\<lparr>ucMasterRTUSndBuf := ?buf, pucMasterSndBufferCur := 0,
      usMasterSndBufferCount := len + 3, eSndState := STATE_M_TX_XMIT\<rparr>)"
    using assms l n c by (simp add: eMBMasterRTUSend_def wr_in mb_sizes add.commute [of len])
  moreover have "take (unat len + 3) ?buf = rtu_frame adr (pdu_in (ucMasterRTUSndBuf m) len)"
    unfolding w t rtu_frame_def ..
  moreover have "length ?buf = MB_PDU_SIZE_MAX" using l by (simp add: mb_sizes)
  ultimately show ?thesis by blast
qed

lemma transmit_some:
  "eSndState m = STATE_M_TX_XMIT \<Longrightarrow> pucMasterSndBufferCur m + unat (usMasterSndBufferCount m) \<le> length (ucMasterRTUSndBuf m) \<Longrightarrow>
     unat (usMasterSndBufferCount m) = n \<Longrightarrow>
     run mb_irq_step (replicate n TxEmpty) m = Some (m\<lparr>wire := wire m @ take n (drop (pucMasterSndBufferCur m) (ucMasterRTUSndBuf m)),
       pucMasterSndBufferCur := pucMasterSndBufferCur m + n, usMasterSndBufferCount := 0\<rparr>)"
proof (induction n arbitrary: m)
  case 0
  then show ?case by (simp add: unat_eq_0)
next
  case (Suc n)
  let ?m = "m\<lparr>wire := wire m @ [ucMasterRTUSndBuf m ! pucMasterSndBufferCur m], pucMasterSndBufferCur := pucMasterSndBufferCur m + 1,
    usMasterSndBufferCount := usMasterSndBufferCount m - 1\<rparr>"
  have nz: "usMasterSndBufferCount m \<noteq> 0" using Suc.prems(3) by auto
  then have "unat (usMasterSndBufferCount m - 1) = n" using Suc.prems(3) unat_dec [of "usMasterSndBufferCount m"] by (simp add: word_greater_zero_iff)
  then have "run mb_irq_step (replicate n TxEmpty) ?m = Some (?m\<lparr>wire := wire ?m @ take n (drop (pucMasterSndBufferCur ?m) (ucMasterRTUSndBuf m)),
       pucMasterSndBufferCur := pucMasterSndBufferCur ?m + n, usMasterSndBufferCount := 0\<rparr>)"
    using Suc.IH [of ?m] Suc.prems by simp
  moreover have "mb_irq_step TxEmpty m = Some ?m"
    using Suc.prems nz by (simp add: xMBMasterRTUTransmitFSM_def rd_in)
  moreover have "take (Suc n) (drop (pucMasterSndBufferCur m) (ucMasterRTUSndBuf m))
      = ucMasterRTUSndBuf m ! pucMasterSndBufferCur m # take n (drop (Suc (pucMasterSndBufferCur m)) (ucMasterRTUSndBuf m))"
    using Suc.prems by (simp add: Cons_nth_drop_Suc flip: take_Suc_Cons)
  ultimately show ?case by simp
qed

text \<open>The frame on the line and the timer armed, from a state in which sending has just started.\<close>

lemma transmit_frame:
  assumes "eSndState m = STATE_M_TX_XMIT" and "pucMasterSndBufferCur m = 0" and "unat (usMasterSndBufferCount m) = length fr"
    and "take (length fr) (ucMasterRTUSndBuf m) = fr" and "fr \<noteq> []"
  shows "run mb_irq_step (replicate (Suc (length fr)) TxEmpty) m =
    Some ((if hd fr = 0 then vMBMasterPortTimersConvertDelayEnable else vMBMasterPortTimersRespondTimeoutEnable)
      (m\<lparr>wire := wire m @ fr, pucMasterSndBufferCur := length fr, usMasterSndBufferCount := 0,
         xFrameIsBroadcast := (hd fr = 0), eSndState := STATE_M_TX_XFWR\<rparr>))"
proof -
  let ?m = "m\<lparr>wire := wire m @ fr, pucMasterSndBufferCur := length fr, usMasterSndBufferCount := 0\<rparr>"
  have l: "length fr \<le> length (ucMasterRTUSndBuf m)" using arg_cong [OF assms(4), of length] by simp
  have t: "run mb_irq_step (replicate (length fr) TxEmpty) m = Some ?m"
    using transmit_some [of m "length fr"] assms l by simp
  have "ucMasterRTUSndBuf m ! 0 = hd fr"
    using assms(4,5) by (metis hd_conv_nth length_greater_0_conv nth_take)
  moreover have "0 < length (ucMasterRTUSndBuf m)" using l assms(5) by (cases fr) auto
  ultimately have r: "rd (ucMasterRTUSndBuf m) 0 = Some (hd fr)" by simp
  have "xMBMasterRTUTransmitFSM ?m = Some ((if hd fr = 0 then vMBMasterPortTimersConvertDelayEnable else vMBMasterPortTimersRespondTimeoutEnable)
      (?m\<lparr>xFrameIsBroadcast := (hd fr = 0), eSndState := STATE_M_TX_XFWR\<rparr>))"
    using assms(1) by (simp add: xMBMasterRTUTransmitFSM_def r)
  moreover have "replicate (Suc (length fr)) TxEmpty = replicate (length fr) TxEmpty @ [TxEmpty]"
    by (simp add: replicate_append_same)
  ultimately show ?thesis by (simp only: run_append_Some [OF t] run.simps mb_irq_step.simps) simp
qed

section \<open>Receiving\<close>

lemma unat_size_max: "unat MB_SER_PDU_SIZE_MAX = 256"
  by (simp add: mb_sizes)

definition received :: "u8 list \<Rightarrow> Mb \<Rightarrow> Mb" where
  "received bs m = m\<lparr>eSndState := STATE_M_TX_IDLE, eRcvState := STATE_M_RX_RCV,
     ucMasterRTURcvBuf := bs @ drop (length bs) (ucMasterRTURcvBuf m), usMasterRcvBufferPos := of_nat (length bs),
     timer := Some (usT35TimeOut50us m)\<rparr>"

lemma mb_receive_bytes:
  assumes "mb_ok m" and "eRcvState m = STATE_M_RX_IDLE"
  shows "bs \<noteq> [] \<Longrightarrow> length bs \<le> 256 \<Longrightarrow> run mb_irq_step (map RxByte bs) m = Some (received bs m)"
proof (induction bs rule: rev_induct)
  case (snoc b bs)
  have l: "length (ucMasterRTURcvBuf m) = 256" using assms(1) by (simp add: mb_ok_def)
  show ?case
  proof (cases "bs = []")
    case True
    then show ?thesis
      using assms(2) l by (cases "ucMasterRTURcvBuf m")
        (auto simp: xMBMasterRTUReceiveFSM_def wr_in received_def vMBMasterPortTimersT35Enable_def vMBMasterPortTimersDisable_def)
  next
    case False
    then have r: "run mb_irq_step (map RxByte bs) m = Some (received bs m)" using snoc by simp
    have p: "unat (of_nat (length bs) :: u16) = length bs" using snoc.prems by (simp add: unat_of_nat)
    have "(bs @ drop (length bs) (ucMasterRTURcvBuf m))[length bs := b] = (bs @ [b]) @ drop (length (bs @ [b])) (ucMasterRTURcvBuf m)"
      using l snoc.prems by (simp add: list_update_append Cons_nth_drop_Suc [symmetric])
    then have "xMBMasterRTUReceiveFSM b (received bs m) = Some (received (bs @ [b]) m)"
      using l p snoc.prems
      by (simp add: xMBMasterRTUReceiveFSM_def received_def wr_in word_less_nat_alt unat_size_max vMBMasterPortTimersT35Enable_def)
    then show ?thesis by (simp add: run_append_Some [OF r])
  qed
qed simp

lemma receive_overlong:
  assumes "mb_ok m" and "eRcvState m = STATE_M_RX_IDLE" and "256 < length bs"
  shows "run mb_irq_step (map RxByte bs) m = Some ((received (take 256 bs) m)\<lparr>eRcvState := STATE_M_RX_ERROR\<rparr>)"
proof -
  have e: "run mb_irq_step (map RxByte cs) m = Some m" if "eRcvState m = STATE_M_RX_ERROR" "timer m = Some (usT35TimeOut50us m)" for cs m
  proof -
    have "m\<lparr>timer := Some (usT35TimeOut50us m)\<rparr> = m" using that(2) by (intro Mb.equality) simp_all
    then show ?thesis using that(1) by (induction cs) (simp_all add: xMBMasterRTUReceiveFSM_def vMBMasterPortTimersT35Enable_def)
  qed
  obtain c cs where c: "drop 256 bs = c # cs" using assms(3) by (metis drop_eq_Nil linorder_not_less neq_Nil_conv)
  have r: "run mb_irq_step (map RxByte (take 256 bs)) m = Some (received (take 256 bs) m)"
    using assms(3) by (intro mb_receive_bytes [OF assms(1,2)]) auto
  have "xMBMasterRTUReceiveFSM c (received (take 256 bs) m) = Some ((received (take 256 bs) m)\<lparr>eRcvState := STATE_M_RX_ERROR\<rparr>)"
    using assms(3) by (simp add: xMBMasterRTUReceiveFSM_def received_def word_less_nat_alt unat_size_max vMBMasterPortTimersT35Enable_def)
  moreover have "map RxByte bs = map RxByte (take 256 bs) @ RxByte c # map RxByte cs"
    using c append_take_drop_id [of 256 bs] by (metis list.simps(9) map_append)
  ultimately show ?thesis by (simp add: run_append_Some [OF r] e received_def)
qed

lemma eMBMasterRTUReceive_spec:
  assumes "length (ucMasterRTURcvBuf m) = 256" and "unat (usMasterRcvBufferPos m) \<le> 256"
  shows "eMBMasterRTUReceive m =
    (if 4 \<le> unat (usMasterRcvBufferPos m) \<and> crc16 (take (unat (usMasterRcvBufferPos m)) (ucMasterRTURcvBuf m)) = 0
     then Some (MB_ENOERR, m\<lparr>ucRcvAddress := ucMasterRTURcvBuf m ! 0, usLength := usMasterRcvBufferPos m - 3, ucMBFrame := Some RcvPdu\<rparr>)
     else Some (MB_EIO, m))"
proof -
  have r: "rd (ucMasterRTURcvBuf m) 0 = Some (ucMasterRTURcvBuf m ! 0)" using assms(1) by (intro rd_in) simp
  show ?thesis
    using assms by (simp add: eMBMasterRTUReceive_def usMBCRC16_spec mb_sizes word_le_nat_alt r)
qed

text \<open>What the poll task gets for a line of bytes ended by the timer.\<close>

definition heard :: "u8 list \<Rightarrow> Mb \<Rightarrow> Mb" where
  "heard bs m = xMBMasterRTUTimerExpired (received bs m)"

lemma heard_simps:
  "ucMasterRTURcvBuf (heard bs m) = bs @ drop (length bs) (ucMasterRTURcvBuf m)"
  "usMasterRcvBufferPos (heard bs m) = of_nat (length bs)"
  "eRcvState (heard bs m) = STATE_M_RX_IDLE" "eSndState (heard bs m) = STATE_M_TX_IDLE"
  "timer (heard bs m) = None" "wire (heard bs m) = wire m" "ucMasterRTUSndBuf (heard bs m) = ucMasterRTUSndBuf m"
  "xMasterOsEvent (heard bs m) = xMasterOsEvent m OR EV_MASTER_FRAME_RECEIVED
     OR (if eMasterCurTimerMode m = MB_TMODE_CONVERT_DELAY then EV_MASTER_EXECUTE else 0)"
  by (simp_all add: heard_def received_def xMBMasterRTUTimerExpired_def Let_def xMBMasterPortEventPost_def
      vMBMasterPortTimersDisable_def or.assoc)

lemma heard_flag: "xMasterOsEvent (heard bs m) AND EV_MASTER_FRAME_RECEIVED \<noteq> 0"
proof -
  have "xMasterOsEvent (heard bs m) AND EV_MASTER_FRAME_RECEIVED = EV_MASTER_FRAME_RECEIVED"
    by (rule bit_word_eqI) (auto simp: heard_simps bit_simps)
  then show ?thesis by (simp add: EV_MASTER_FRAME_RECEIVED_def)
qed

lemma run_heard:
  assumes "mb_ok m" and "eRcvState m = STATE_M_RX_IDLE" and "bs \<noteq> []" and "length bs \<le> 256"
  shows "run mb_irq_step (map RxByte bs @ [TimerExpired]) m = Some (heard bs m)"
  using run_append_Some [OF mb_receive_bytes [OF assms]] by (simp add: heard_def)

lemma eMBMasterRTUReceive_heard:
  assumes "mb_ok m" and "bs \<noteq> []" and "length bs \<le> 256"
  shows "eMBMasterRTUReceive (heard bs m) =
    (if 4 \<le> length bs \<and> crc16 bs = 0
     then Some (MB_ENOERR, (heard bs m)\<lparr>ucRcvAddress := hd bs, usLength := of_nat (length bs) - 3, ucMBFrame := Some RcvPdu\<rparr>)
     else Some (MB_EIO, heard bs m))"
proof -
  have p: "unat (of_nat (length bs) :: u16) = length bs" using assms(3) by (simp add: unat_of_nat)
  have "length (ucMasterRTURcvBuf (heard bs m)) = 256" using assms(1,3) by (simp add: heard_simps mb_ok_def)
  then show ?thesis
    using assms p by (subst eMBMasterRTUReceive_spec) (simp_all add: heard_simps nth_append hd_conv_nth)
qed

lemma overlong_dropped:
  assumes "mb_ok m" and "eRcvState m = STATE_M_RX_IDLE" and "256 < length bs"
  shows "\<exists>m1. run mb_irq_step (map RxByte bs @ [TimerExpired]) m = Some m1 \<and> eRcvState m1 = STATE_M_RX_IDLE
    \<and> xMasterOsEvent m1 = xMasterOsEvent m OR (if eMasterCurTimerMode m = MB_TMODE_CONVERT_DELAY then EV_MASTER_EXECUTE else 0)"
  using run_append_Some [OF receive_overlong [OF assms]]
  by (simp add: xMBMasterRTUTimerExpired_def Let_def received_def xMBMasterPortEventPost_def vMBMasterPortTimersDisable_def)

section \<open>A concrete master\<close>

definition ex_mb :: Mb where
  "ex_mb = \<lparr>eSndState = STATE_M_TX_IDLE, eRcvState = STATE_M_RX_IDLE,
     ucMasterRTUSndBuf = [0, 3, 0, 0, 0, 2] @ replicate 247 0, ucMasterRTURcvBuf = replicate 256 0,
     usMasterSendPDULength = 5, pucMasterSndBufferCur = 0, usMasterSndBufferCount = 0, usMasterRcvBufferPos = 0,
     xFrameIsBroadcast = False, eMasterCurTimerMode = MB_TMODE_RESPOND_TIMEOUT, usT35TimeOut50us = 80,
     eMBMasterCurErrorType = EV_ERROR_RESPOND_TIMEOUT, ucMBMasterDestAddress = 1, ucMBFrame = None, ucRcvAddress = 0,
     usLength = 0, xMasterOsEvent = 0, xMasterRunRes = 1, eMBState = STATE_ENABLED, xMBRunInMasterMode = False, ucMDiscInBuf = replicate 32 0,
     ucMCoilBuf = replicate 128 0, usMRegInBuf = replicate 1600 0, usMRegHoldBuf = replicate 1600 0,
     ucMBSlaveID = replicate 32 0, usMBSlaveIDLen = 0, CommxTimeOut1 = 0, CommxTimeOut2 = 0, timer = None, wire = []\<rparr>"

lemma ex_mb_ok: "mb_ok ex_mb" "eRcvState ex_mb = STATE_M_RX_IDLE" "wire ex_mb = []"
  by (simp_all add: ex_mb_def mb_ok_def mb_sizes)

section \<open>Properties\<close>

text \<open>C6: The frame of a request, built from the protocol data unit in the send buffer, leaves the master
  completely and in order and arms the timer of the reply or of the broadcast. Another station with the same
  receiver that gets these bytes reports a frame, and finds in it the address and the data unit that were sent.\<close>

theorem mb_frame_roundtrip:
  assumes "mb_ok m" and "eRcvState m = STATE_M_RX_IDLE" and "adr \<le> MB_MASTER_TOTAL_SLAVE_NUM"
    and "1 \<le> unat len" and "unat len \<le> 250" and "mb_ok r" and "eRcvState r = STATE_M_RX_IDLE"
  shows "\<exists>m1 m2 r1 r2. eMBMasterRTUSend adr 1 len m = Some (MB_ENOERR, m1)
    \<and> run mb_irq_step (replicate (unat len + 4) TxEmpty) m1 = Some m2
    \<and> wire m2 = wire m @ rtu_frame adr (pdu_in (ucMasterRTUSndBuf m) len)
    \<and> timer m2 = Some (if adr = 0 then 4000 else 20) \<and> eSndState m2 = STATE_M_TX_XFWR
    \<and> run mb_irq_step (map RxByte (rtu_frame adr (pdu_in (ucMasterRTUSndBuf m) len)) @ [TimerExpired]) r = Some r1
    \<and> xMasterOsEvent r1 AND EV_MASTER_FRAME_RECEIVED \<noteq> 0
    \<and> eMBMasterRTUReceive r1 = Some (MB_ENOERR, r2) \<and> ucRcvAddress r2 = adr \<and> usLength r2 = len
    \<and> pdu_in (ucMasterRTURcvBuf r2) (usLength r2) = pdu_in (ucMasterRTUSndBuf m) len"
proof -
  let ?pdu = "pdu_in (ucMasterRTUSndBuf m) len" and ?n = "unat len"
  obtain buf where s: "eMBMasterRTUSend adr 1 len m = Some (MB_ENOERR, m\<lparr>ucMasterRTUSndBuf := buf, pucMasterSndBufferCur := 0,
      usMasterSndBufferCount := len + 3, eSndState := STATE_M_TX_XMIT\<rparr>)"
      "take (?n + 3) buf = rtu_frame adr ?pdu" "length buf = MB_PDU_SIZE_MAX"
    using eMBMasterRTUSend_frame [OF assms(1-3,5)] by blast
  let ?m1 = "m\<lparr>ucMasterRTUSndBuf := buf, pucMasterSndBufferCur := 0, usMasterSndBufferCount := len + 3, eSndState := STATE_M_TX_XMIT\<rparr>"
  have n: "unat (len + 3) = ?n + 3" using assms(5) by (simp add: unat_word_ariths)
  let ?m2 = "?m1\<lparr>wire := wire m @ rtu_frame adr ?pdu, pucMasterSndBufferCur := ?n + 3, usMasterSndBufferCount := 0\<rparr>"
  have l: "length ?pdu = ?n" using assms(1,5) by (simp add: pdu_in_def mb_ok_def mb_sizes)
  have f: "length (rtu_frame adr ?pdu) = ?n + 3" "hd (rtu_frame adr ?pdu) = adr" using l by (simp_all add: rtu_frame_def)
  have x: "run mb_irq_step (replicate (?n + 4) TxEmpty) ?m1 = Some ((if adr = 0 then vMBMasterPortTimersConvertDelayEnable else vMBMasterPortTimersRespondTimeoutEnable)
      (?m2\<lparr>xFrameIsBroadcast := (adr = 0), eSndState := STATE_M_TX_XFWR\<rparr>))"
    using transmit_frame [of ?m1 "rtu_frame adr ?pdu"] s(2) n f by (simp add: add.commute [of 4] flip: replicate_Suc) (simp add: rtu_frame_def)
  have b: "rtu_frame adr ?pdu \<noteq> []" "length (rtu_frame adr ?pdu) \<le> 256" using l assms(5) by (simp_all add: rtu_frame_def)
  have v: "eMBMasterRTUReceive (heard (rtu_frame adr ?pdu) r) = Some (MB_ENOERR, (heard (rtu_frame adr ?pdu) r)
      \<lparr>ucRcvAddress := adr, usLength := len, ucMBFrame := Some RcvPdu\<rparr>)"
    using eMBMasterRTUReceive_heard [OF assms(6) b] l assms(4) by (simp add: crc16_rtu_frame) (simp add: rtu_frame_def)
  have p: "pdu_in (rtu_frame adr ?pdu @ xs) len = ?pdu" for xs using l by (simp add: rtu_frame_def pdu_in_Cons)
  show ?thesis
    using s(1) x v run_heard [OF assms(6,7) b] heard_flag [of "rtu_frame adr ?pdu" r]
    by (auto simp: heard_simps(1-7) p vMBMasterPortTimersConvertDelayEnable_def vMBMasterPortTimersRespondTimeoutEnable_def)
qed

theorem mb_frame_roundtrip_witness:
  "\<exists>m1 m2 r1 r2. eMBMasterRTUSend 1 1 5 ex_mb = Some (MB_ENOERR, m1)
    \<and> run mb_irq_step (replicate 9 TxEmpty) m1 = Some m2
    \<and> wire m2 = rtu_frame 1 (pdu_in (ucMasterRTUSndBuf ex_mb) 5)
    \<and> timer m2 = Some 20 \<and> eSndState m2 = STATE_M_TX_XFWR
    \<and> run mb_irq_step (map RxByte (rtu_frame 1 (pdu_in (ucMasterRTUSndBuf ex_mb) 5)) @ [TimerExpired]) ex_mb = Some r1
    \<and> xMasterOsEvent r1 AND EV_MASTER_FRAME_RECEIVED \<noteq> 0
    \<and> eMBMasterRTUReceive r1 = Some (MB_ENOERR, r2) \<and> ucRcvAddress r2 = 1 \<and> usLength r2 = 5
    \<and> pdu_in (ucMasterRTURcvBuf r2) (usLength r2) = pdu_in (ucMasterRTUSndBuf ex_mb) 5"
  using mb_frame_roundtrip [where m = ex_mb and r = ex_mb and adr = 1 and len = 5] by (simp add: ex_mb_ok mb_sizes)

text \<open>C33: A frame in which any two neighbouring bytes are damaged, in any way, is received and refused: the
  poll task gets an error and no address, length or data.\<close>

theorem mb_corruption_detected:
  assumes "mb_ok r" and "eRcvState r = STATE_M_RX_IDLE" and "length pdu \<le> 253"
    and "rtu_frame adr pdu = xs @ [a, b] @ ys" and "(c, d) \<noteq> (a, b)"
  shows "\<exists>r1. run mb_irq_step (map RxByte (xs @ [c, d] @ ys) @ [TimerExpired]) r = Some r1
    \<and> eMBMasterRTUReceive r1 = Some (MB_EIO, r1)"
proof -
  have "length (xs @ [c, d] @ ys) = length pdu + 3"
    using arg_cong [OF assms(4), of length] by simp
  then have l: "xs @ [c, d] @ ys \<noteq> []" "length (xs @ [c, d] @ ys) \<le> 256" using assms(3) by auto
  have "crc16 (xs @ [a, b] @ ys) = 0" using crc16_rtu_frame [of adr pdu] assms(4) by simp
  then have "crc16 (xs @ [c, d] @ ys) \<noteq> 0" using crc16_two_bytes [of xs a b ys c d] assms(5) by auto
  then show ?thesis
    using run_heard [OF assms(1,2) l] eMBMasterRTUReceive_heard [OF assms(1) l] by auto
qed

theorem mb_corruption_detected_witness:
  "\<exists>r1. run mb_irq_step (map RxByte ([0x42, 0x43] @ drop 2 (rtu_frame 1 [3])) @ [TimerExpired]) ex_mb = Some r1
    \<and> eMBMasterRTUReceive r1 = Some (MB_EIO, r1)"
  using mb_corruption_detected [where r = ex_mb and pdu = "[3]" and adr = 1 and xs = "[]" and a = 1 and b = 3
      and ys = "[lo8 (crc16 [1, 3]), hi8 (crc16 [1, 3])]" and c = 66 and d = 67]
  by (simp add: ex_mb_ok rtu_frame_def)

end
