(* ===== verification/Mb_Func.thy ===== *)
theory Mb_Func
  imports Mb_Master
begin

text \<open>
  What the Modbus master does with a reply: the function handlers of
  \<open>FreeModbus/modbus/functions/*_m.c\<close>, the bit fields of \<open>mbutils.c\<close>, and the callbacks of
  \<open>FreeModbus/port/user_mb_app_m.c\<close>, which keep the image of the slaves' coils and registers.
\<close>

section \<open>Bit fields\<close>

text \<open>The pointer to a byte buffer is the buffer and an index. Shifting 1 by 31 or more is undefined.\<close>

definition bit_field :: "u8 list \<Rightarrow> nat \<Rightarrow> u16 option" where
  "bit_field buf i = do {
     lo \<leftarrow> rd buf i;
     hi \<leftarrow> rd buf (i + 1);
     Some (ucast lo OR push_bit 8 (ucast hi)) }"

definition bit_mask :: "u8 \<Rightarrow> u16 option" where
  "bit_mask ucNBits = (if unat ucNBits < 31 then Some (push_bit (unat ucNBits) 1 - 1) else None)"

definition xMBUtilSetBits :: "u8 list \<Rightarrow> nat \<Rightarrow> u16 \<Rightarrow> u8 \<Rightarrow> u8 \<Rightarrow> u8 list option" where
  "xMBUtilSetBits buf p usBitOffset ucNBits ucValue = do {
     let usByteOffset = usBitOffset div 8;
     let usNPreBits = unat (usBitOffset - usByteOffset * 8);
     let usValue = push_bit usNPreBits (ucast ucValue);
     usMask \<leftarrow> bit_mask ucNBits;
     let usMask = push_bit usNPreBits usMask;
     usWordBuf \<leftarrow> bit_field buf (p + unat usByteOffset);
     let usWordBuf = (usWordBuf AND NOT usMask) OR usValue;
     buf \<leftarrow> wr buf (p + unat usByteOffset) (lo8 usWordBuf);
     wr buf (p + unat usByteOffset + 1) (hi8 usWordBuf) }"

definition xMBUtilGetBits :: "u8 list \<Rightarrow> nat \<Rightarrow> u16 \<Rightarrow> u8 \<Rightarrow> u8 option" where
  "xMBUtilGetBits buf p usBitOffset ucNBits = do {
     let usByteOffset = usBitOffset div 8;
     let usNPreBits = unat (usBitOffset - usByteOffset * 8);
     usMask \<leftarrow> bit_mask ucNBits;
     usWordBuf \<leftarrow> bit_field buf (p + unat usByteOffset);
     Some (ucast (drop_bit usNPreBits usWordBuf AND usMask)) }"

lemma bit_field_word16: "bit_field buf i = (if Suc i < length buf then Some (word16 (buf ! Suc i) (buf ! i)) else None)"
  by (auto simp: bit_field_def word16_def rd_def or.commute)

lemma bit_mask_eq: "unat n \<le> 8 \<Longrightarrow> bit_mask n = Some (mask (unat n))"
  by (simp add: bit_mask_def mask_eq_exp_minus_1)

text \<open>
  A field of at most eight bits whose value has no bits beyond it: it is read back as written, and
  the bits of the two bytes outside the field keep their values.
\<close>

lemma set_get_bits:
  assumes "unat n \<le> 8" and "\<And>i. bit v i \<Longrightarrow> i < unat n" and "p + unat (off div 8) + 1 < length buf"
  shows "\<exists>buf'. xMBUtilSetBits buf p off n v = Some buf' \<and> xMBUtilGetBits buf' p off n = Some v \<and> length buf' = length buf
    \<and> (\<forall>i < 16. \<not> (unat (off - off div 8 * 8) \<le> i \<and> i < unat (off - off div 8 * 8) + unat n) \<longrightarrow>
         bit (word16 (buf' ! (p + unat (off div 8) + 1)) (buf' ! (p + unat (off div 8)))) i
         = bit (word16 (buf ! (p + unat (off div 8) + 1)) (buf ! (p + unat (off div 8)))) i)"
proof -
  let ?i = "p + unat (off div 8)" and ?k = "unat (off - off div 8 * 8)"
  let ?w = "word16 (buf ! Suc ?i) (buf ! ?i)" and ?m = "push_bit ?k (mask (unat n)) :: u16"
  let ?w' = "(?w AND NOT ?m) OR push_bit ?k (ucast v)"
  let ?buf = "buf[?i := lo8 ?w', Suc ?i := hi8 ?w']"
  have "off - off div 8 * 8 = off mod 8" by (simp add: minus_div_mult_eq_mod)
  then have "?k = unat off mod 8" by (simp add: unat_mod)
  then have k: "?k < 8" by simp
  have s: "xMBUtilSetBits buf p off n v = Some ?buf"
    using assms(3) by (simp add: xMBUtilSetBits_def bit_mask_eq [OF assms(1)] bit_field_word16 Let_def wr_in)
  have w: "word16 (?buf ! Suc ?i) (?buf ! ?i) = ?w'" using assms(3) by simp
  have g: "xMBUtilGetBits ?buf p off n = Some (ucast (drop_bit ?k ?w' AND mask (unat n)))"
    using assms(3) w by (simp add: xMBUtilGetBits_def bit_mask_eq [OF assms(1)] bit_field_word16 Let_def del: word16_hi8_lo8)
  have "ucast (drop_bit ?k ?w' AND mask (unat n)) = v"
    using assms(1,2) k by (intro bit_word_eqI) (auto simp: bit_simps)
  moreover have "bit ?w' i = bit ?w i" if "i < 16" "\<not> (?k \<le> i \<and> i < ?k + unat n)" for i
    using that assms(2) [of "i - ?k"] by (auto simp: bit_simps)
  ultimately show ?thesis using s g w by (intro exI [of _ ?buf]) simp
qed

section \<open>Exceptions\<close>

type_synonym eMBException = u8

definition MB_EX_NONE :: eMBException where "MB_EX_NONE = 0"
definition MB_EX_ILLEGAL_FUNCTION :: eMBException where "MB_EX_ILLEGAL_FUNCTION = 1"
definition MB_EX_ILLEGAL_DATA_ADDRESS :: eMBException where "MB_EX_ILLEGAL_DATA_ADDRESS = 2"
definition MB_EX_ILLEGAL_DATA_VALUE :: eMBException where "MB_EX_ILLEGAL_DATA_VALUE = 3"
definition MB_EX_SLAVE_DEVICE_FAILURE :: eMBException where "MB_EX_SLAVE_DEVICE_FAILURE = 4"
definition MB_EX_SLAVE_BUSY :: eMBException where "MB_EX_SLAVE_BUSY = 6"

lemmas ex_defs = MB_EX_NONE_def MB_EX_ILLEGAL_FUNCTION_def MB_EX_ILLEGAL_DATA_ADDRESS_def
  MB_EX_ILLEGAL_DATA_VALUE_def MB_EX_SLAVE_DEVICE_FAILURE_def MB_EX_SLAVE_BUSY_def

fun prveMBError2Exception :: "eMBErrorCode \<Rightarrow> eMBException" where
  "prveMBError2Exception MB_ENOERR = MB_EX_NONE"
| "prveMBError2Exception MB_ENOREG = MB_EX_ILLEGAL_DATA_ADDRESS"
| "prveMBError2Exception MB_ETIMEDOUT = MB_EX_SLAVE_BUSY"
| "prveMBError2Exception _ = MB_EX_SLAVE_DEVICE_FAILURE"

section \<open>Register callbacks\<close>

text \<open>The first element of a slave's row of an array; address 0 has no row.\<close>

definition slave_row :: "nat \<Rightarrow> Mb \<Rightarrow> nat option" where
  "slave_row w m = (if ucMBMasterDestAddress m = 0 then None else Some (w * (unat (ucMBMasterDestAddress m) - 1)))"

fun store_regs :: "u16 list \<Rightarrow> nat \<Rightarrow> nat \<Rightarrow> u8 list \<Rightarrow> u16 list option" where
  "store_regs regs i 0 bs = Some regs"
| "store_regs regs i (Suc n) (h # l # bs) =
     (case wr regs i (word16 h l) of None \<Rightarrow> None | Some regs \<Rightarrow> store_regs regs (i + 1) n bs)"
| "store_regs regs i (Suc n) _ = None"

definition eMBMasterRegInputCB :: "u8 list \<Rightarrow> u16 \<Rightarrow> u16 \<Rightarrow> Mb \<Rightarrow> (eMBErrorCode \<times> Mb) option" where
  "eMBMasterRegInputCB pucRegBuffer usAddress usNRegs m = do {
     row \<leftarrow> slave_row 100 m;
     let a = unat (usAddress - 1);
     if a + unat usNRegs \<le> 100 then do {
       regs \<leftarrow> store_regs (usMRegInBuf m) (row + a) (unat usNRegs) pucRegBuffer;
       Some (MB_ENOERR, m\<lparr>usMRegInBuf := regs\<rparr>) }
     else Some (MB_ENOREG, m) }"

text \<open>The mode of the call is overwritten: the master always stores what it received.\<close>

definition eMBMasterRegHoldingCB :: "u8 list \<Rightarrow> u16 \<Rightarrow> u16 \<Rightarrow> Mb \<Rightarrow> (eMBErrorCode \<times> Mb) option" where
  "eMBMasterRegHoldingCB pucRegBuffer usAddress usNRegs m = do {
     row \<leftarrow> slave_row 100 m;
     let a = unat (usAddress - 1);
     if a + unat usNRegs \<le> 100 then do {
       regs \<leftarrow> store_regs (usMRegHoldBuf m) (row + a) (unat usNRegs) pucRegBuffer;
       Some (MB_ENOERR, m\<lparr>usMRegHoldBuf := regs\<rparr>) }
     else Some (MB_ENOREG, m) }"

text \<open>Whole bytes first, then the bits that are left, if any.\<close>

fun store_bits :: "u8 list \<Rightarrow> nat \<Rightarrow> u16 \<Rightarrow> nat \<Rightarrow> u8 \<Rightarrow> u8 list \<Rightarrow> u8 list option" where
  "store_bits buf i off 0 r bs =
     (if r = 0 then Some buf else (case bs of [] \<Rightarrow> None | b # _ \<Rightarrow> xMBUtilSetBits buf i off r b))"
| "store_bits buf i off (Suc n) r [] = None"
| "store_bits buf i off (Suc n) r (b # bs) =
     (case xMBUtilSetBits buf i off 8 b of None \<Rightarrow> None | Some buf \<Rightarrow> store_bits buf (i + 1) off n r bs)"

definition eMBMasterRegCoilsCB :: "u8 list \<Rightarrow> u16 \<Rightarrow> u16 \<Rightarrow> Mb \<Rightarrow> (eMBErrorCode \<times> Mb) option" where
  "eMBMasterRegCoilsCB pucRegBuffer usAddress usNCoils m = do {
     row \<leftarrow> slave_row 8 m;
     let a = usAddress - 1;
     if unat a + unat usNCoils \<le> 64 then do {
       buf \<leftarrow> store_bits (ucMCoilBuf m) (row + unat a div 8) (a mod 8) (unat usNCoils div 8) (ucast (usNCoils mod 8)) pucRegBuffer;
       Some (MB_ENOERR, m\<lparr>ucMCoilBuf := buf\<rparr>) }
     else Some (MB_ENOREG, m) }"

definition eMBMasterRegDiscreteCB :: "u8 list \<Rightarrow> u16 \<Rightarrow> u16 \<Rightarrow> Mb \<Rightarrow> (eMBErrorCode \<times> Mb) option" where
  "eMBMasterRegDiscreteCB pucRegBuffer usAddress usNDiscrete m = do {
     row \<leftarrow> slave_row 2 m;
     let a = usAddress - 1;
     if unat a + unat usNDiscrete \<le> 16 then do {
       buf \<leftarrow> store_bits (ucMDiscInBuf m) (row + unat a div 8) (a mod 8) (unat usNDiscrete div 8) (ucast (usNDiscrete mod 8)) pucRegBuffer;
       Some (MB_ENOERR, m\<lparr>ucMDiscInBuf := buf\<rparr>) }
     else Some (MB_ENOREG, m) }"

section \<open>Function handlers\<close>

definition pdu_buffer :: "mb_frame \<Rightarrow> Mb \<Rightarrow> u8 list" where
  "pdu_buffer f m = (case f of SndPdu \<Rightarrow> drop 1 (ucMasterRTUSndBuf m) | RcvPdu \<Rightarrow> drop 1 (ucMasterRTURcvBuf m))"

definition pdu_byte :: "mb_frame \<Rightarrow> nat \<Rightarrow> Mb \<Rightarrow> u8 option" where
  "pdu_byte f i m = rd (pdu_buffer f m) i"

definition pdu_word :: "mb_frame \<Rightarrow> nat \<Rightarrow> Mb \<Rightarrow> u16 option" where
  "pdu_word f i m = do {
     h \<leftarrow> pdu_byte f i m;
     l \<leftarrow> pdu_byte f (i + 1) m;
     Some (word16 h l) }"

definition pdu_from :: "mb_frame \<Rightarrow> nat \<Rightarrow> Mb \<Rightarrow> u8 list" where
  "pdu_from f i m = drop i (pdu_buffer f m)"

definition to_exception :: "eMBErrorCode \<times> Mb \<Rightarrow> eMBException \<times> Mb" where
  "to_exception r = (prveMBError2Exception (fst r), snd r)"

definition coil_bytes :: "u16 \<Rightarrow> u8" where
  "coil_bytes n = (if n AND 7 \<noteq> 0 then ucast (n div 8 + 1) else ucast (n div 8))"

type_synonym handler = "mb_frame \<Rightarrow> Mb \<Rightarrow> (eMBException \<times> Mb) option"

definition eMBMasterFuncWriteHoldingRegister :: handler where
  "eMBMasterFuncWriteHoldingRegister f m =
     (if usLength m = 5 then do {
        a \<leftarrow> pdu_word f 1 m;
        r \<leftarrow> eMBMasterRegHoldingCB (pdu_from f 3 m) (a + 1) 1 m;
        Some (to_exception r) }
      else Some (MB_EX_ILLEGAL_DATA_VALUE, m))"

definition eMBMasterFuncWriteMultipleHoldingRegister :: handler where
  "eMBMasterFuncWriteMultipleHoldingRegister f m =
     (if usLength m = 5 \<or> xFrameIsBroadcast m then do {
        a \<leftarrow> pdu_word SndPdu 1 m;
        n \<leftarrow> pdu_word SndPdu 3 m;
        b \<leftarrow> pdu_byte SndPdu 5 m;
        if unat b = 2 * unat n then do {
          r \<leftarrow> eMBMasterRegHoldingCB (pdu_from SndPdu 6 m) (a + 1) n m;
          Some (to_exception r) }
        else Some (MB_EX_ILLEGAL_DATA_VALUE, m) }
      else Some (MB_EX_ILLEGAL_DATA_VALUE, m))"

text \<open>The high byte of the count is read and overwritten.\<close>

definition read_registers :: "(u8 list \<Rightarrow> u16 \<Rightarrow> u16 \<Rightarrow> Mb \<Rightarrow> (eMBErrorCode \<times> Mb) option) \<Rightarrow> handler" where
  "read_registers cb f m =
     (if xFrameIsBroadcast m then Some (MB_EX_NONE, m)
      else if usLength m \<ge> 2 then do {
        a \<leftarrow> pdu_word SndPdu 1 m;
        _ \<leftarrow> pdu_byte SndPdu 3 m;
        n \<leftarrow> pdu_byte SndPdu 4 m;
        b \<leftarrow> pdu_byte f 1 m;
        if n \<ge> 1 \<and> 2 * unat n = unat b then do {
          r \<leftarrow> cb (pdu_from f 2 m) (a + 1) (ucast n) m;
          Some (to_exception r) }
        else Some (MB_EX_ILLEGAL_DATA_VALUE, m) }
      else Some (MB_EX_ILLEGAL_DATA_VALUE, m))"

definition eMBMasterFuncReadHoldingRegister :: handler where
  "eMBMasterFuncReadHoldingRegister = read_registers eMBMasterRegHoldingCB"

definition eMBMasterFuncReadInputRegister :: handler where
  "eMBMasterFuncReadInputRegister = read_registers eMBMasterRegInputCB"

definition eMBMasterFuncReadWriteMultipleHoldingRegister :: handler where
  "eMBMasterFuncReadWriteMultipleHoldingRegister f m =
     (if xFrameIsBroadcast m then Some (MB_EX_NONE, m)
      else if usLength m \<ge> 2 then do {
        ra \<leftarrow> pdu_word SndPdu 1 m;
        rn \<leftarrow> pdu_word SndPdu 3 m;
        wa \<leftarrow> pdu_word SndPdu 5 m;
        wn \<leftarrow> pdu_word SndPdu 7 m;
        b \<leftarrow> pdu_byte f 1 m;
        if 2 * unat rn = unat b then do {
          (e, m) \<leftarrow> eMBMasterRegHoldingCB (pdu_from SndPdu 10 m) (wa + 1) wn m;
          r \<leftarrow> (if e = MB_ENOERR then eMBMasterRegHoldingCB (pdu_from f 2 m) (ra + 1) rn m else Some (e, m));
          Some (to_exception r) }
        else Some (MB_EX_ILLEGAL_DATA_VALUE, m) }
      else Some (MB_EX_ILLEGAL_DATA_VALUE, m))"

definition read_bits :: "(u8 list \<Rightarrow> u16 \<Rightarrow> u16 \<Rightarrow> Mb \<Rightarrow> (eMBErrorCode \<times> Mb) option) \<Rightarrow> handler" where
  "read_bits cb f m =
     (if xFrameIsBroadcast m then Some (MB_EX_NONE, m)
      else if usLength m \<ge> 2 then do {
        a \<leftarrow> pdu_word SndPdu 1 m;
        n \<leftarrow> pdu_word SndPdu 3 m;
        b \<leftarrow> pdu_byte f 1 m;
        if n \<ge> 1 \<and> coil_bytes n = b then do {
          r \<leftarrow> cb (pdu_from f 2 m) (a + 1) n m;
          Some (to_exception r) }
        else Some (MB_EX_ILLEGAL_DATA_VALUE, m) }
      else Some (MB_EX_ILLEGAL_DATA_VALUE, m))"

definition eMBMasterFuncReadCoils :: handler where
  "eMBMasterFuncReadCoils = read_bits eMBMasterRegCoilsCB"

definition eMBMasterFuncReadDiscreteInputs :: handler where
  "eMBMasterFuncReadDiscreteInputs = read_bits eMBMasterRegDiscreteCB"

definition eMBMasterFuncWriteCoil :: handler where
  "eMBMasterFuncWriteCoil f m =
     (if usLength m = 5 then do {
        a \<leftarrow> pdu_word f 1 m;
        hi \<leftarrow> pdu_byte f 3 m;
        lo \<leftarrow> pdu_byte f 4 m;
        if lo = 0 \<and> (hi = 0xFF \<or> hi = 0) then do {
          r \<leftarrow> eMBMasterRegCoilsCB [if hi = 0xFF then 1 else 0, 0] (a + 1) 1 m;
          Some (to_exception r) }
        else Some (MB_EX_ILLEGAL_DATA_VALUE, m) }
      else Some (MB_EX_ILLEGAL_DATA_VALUE, m))"

definition eMBMasterFuncWriteMultipleCoils :: handler where
  "eMBMasterFuncWriteMultipleCoils f m =
     (if usLength m = 5 \<or> xFrameIsBroadcast m then do {
        a \<leftarrow> pdu_word f 1 m;
        n \<leftarrow> pdu_word f 3 m;
        b \<leftarrow> pdu_byte SndPdu 5 m;
        if n \<ge> 1 \<and> coil_bytes n = b then do {
          r \<leftarrow> eMBMasterRegCoilsCB (pdu_from SndPdu 6 m) (a + 1) n m;
          Some (to_exception r) }
        else Some (MB_EX_ILLEGAL_DATA_VALUE, m) }
      else Some (MB_EX_ILLEGAL_DATA_VALUE, m))"

definition eMBSetSlaveID :: "u8 \<Rightarrow> bool \<Rightarrow> u8 list \<Rightarrow> Mb \<Rightarrow> (eMBErrorCode \<times> Mb) option" where
  "eMBSetSlaveID ucSlaveID xIsRunning pucAdditional m =
     (if length pucAdditional + 2 < 32 then do {
        buf \<leftarrow> wr_seq (ucMBSlaveID m) 0 ([ucSlaveID, if xIsRunning then 0xFF else 0] @ pucAdditional);
        Some (MB_ENOERR, m\<lparr>ucMBSlaveID := buf, usMBSlaveIDLen := 2 + of_nat (length pucAdditional)\<rparr>) }
      else Some (MB_ENORES, m))"

definition eMBFuncReportSlaveID :: handler where
  "eMBFuncReportSlaveID f m = do {
     let n = unat (usMBSlaveIDLen m);
     bytes \<leftarrow> (if n \<le> length (ucMBSlaveID m) then Some (take n (ucMBSlaveID m)) else None);
     m \<leftarrow> (case f of
             SndPdu \<Rightarrow> map_option (\<lambda>buf. m\<lparr>ucMasterRTUSndBuf := buf\<rparr>) (wr_seq (ucMasterRTUSndBuf m) 2 bytes)
           | RcvPdu \<Rightarrow> map_option (\<lambda>buf. m\<lparr>ucMasterRTURcvBuf := buf\<rparr>) (wr_seq (ucMasterRTURcvBuf m) 2 bytes));
     Some (MB_EX_NONE, m\<lparr>usLength := 1 + usMBSlaveIDLen m\<rparr>) }"

text \<open>The table of the handlers, up to its first empty entry.\<close>

definition xMasterFuncHandlers :: "(u8 \<times> handler) list" where
  "xMasterFuncHandlers =
     [(17, eMBFuncReportSlaveID),
      (4, eMBMasterFuncReadInputRegister),
      (3, eMBMasterFuncReadHoldingRegister),
      (16, eMBMasterFuncWriteMultipleHoldingRegister),
      (6, eMBMasterFuncWriteHoldingRegister),
      (23, eMBMasterFuncReadWriteMultipleHoldingRegister),
      (1, eMBMasterFuncReadCoils),
      (5, eMBMasterFuncWriteCoil),
      (15, eMBMasterFuncWriteMultipleCoils),
      (2, eMBMasterFuncReadDiscreteInputs)]"

end
