(* ===== verification/Mb_Poll.thy ===== *)
theory Mb_Poll
  imports Mb_Func
begin

text \<open>
  \<open>FreeModbus/modbus/mb_m.c\<close>, the requests of \<open>functions/*_m.c\<close> and the callbacks of
  \<open>FreeModbus/port/portevent_m.c\<close>: a task asks for a request and waits for its outcome, the poll
  task sends the frame, reads the reply, runs the handler of its function code and reports the
  outcome in a flag. One count, the running resource, admits one request at a time.
\<close>

section \<open>Life cycle\<close>

definition eMBMasterInit :: "bool \<Rightarrow> bool \<Rightarrow> u32 \<Rightarrow> Mb \<Rightarrow> (eMBErrorCode \<times> Mb) option" where
  "eMBMasterInit rtu serial_ok ulBaudRate m =
     (if \<not> rtu then Some (MB_EINVAL, m)
      else do {
        (st, m) \<leftarrow> eMBMasterRTUInit serial_ok ulBaudRate m;
        Some (st, if st = MB_ENOERR then m\<lparr>xMasterOsEvent := 0, eMBState := STATE_DISABLED, xMasterRunRes := 1\<rparr> else m) })"

definition eMBMasterEnable :: "Mb \<Rightarrow> eMBErrorCode \<times> Mb" where
  "eMBMasterEnable m =
     (if eMBState m = STATE_DISABLED then (MB_ENOERR, (eMBMasterRTUStart m)\<lparr>eMBState := STATE_ENABLED\<rparr>)
      else (MB_EILLSTATE, m))"

definition eMBMasterDisable :: "Mb \<Rightarrow> eMBErrorCode \<times> Mb" where
  "eMBMasterDisable m =
     (if eMBState m = STATE_ENABLED then (MB_ENOERR, (eMBMasterRTUStop m)\<lparr>eMBState := STATE_DISABLED\<rparr>)
      else if eMBState m = STATE_DISABLED then (MB_ENOERR, m)
      else (MB_EILLSTATE, m))"

text \<open>No close function is registered in this configuration.\<close>

definition eMBMasterClose :: "Mb \<Rightarrow> eMBErrorCode" where
  "eMBMasterClose m = (if eMBState m = STATE_DISABLED then MB_ENOERR else MB_EILLSTATE)"

section \<open>Flags and the running resource\<close>

text \<open>
  Consuming the flags of a mask; a caller that finds none of them waits. The poll task waits for
  five flags, the requesting task for the other four.
\<close>

definition poll_flags :: u16 where
  "poll_flags = EV_MASTER_READY OR EV_MASTER_FRAME_RECEIVED OR EV_MASTER_EXECUTE OR EV_MASTER_FRAME_SENT OR EV_MASTER_ERROR_PROCESS"

definition result_flags :: u16 where
  "result_flags = EV_MASTER_PROCESS_SUCESS OR EV_MASTER_ERROR_RESPOND_TIMEOUT OR EV_MASTER_ERROR_RECEIVE_DATA
     OR EV_MASTER_ERROR_EXECUTE_FUNCTION"

definition take_flags :: "u16 \<Rightarrow> Mb \<Rightarrow> u16 \<times> Mb" where
  "take_flags fs m = (xMasterOsEvent m AND fs, m\<lparr>xMasterOsEvent := xMasterOsEvent m AND NOT fs\<rparr>)"

text \<open>
  The call of a task that has waited \<open>waited\<close> clock ticks in it, none at first. It takes the resource as soon as it
  is free (\<open>Some True\<close>); it fails when its time limit is over (\<open>Some False\<close>); otherwise the task waits in
  \<open>OSSemPend\<close> (\<open>None\<close>). A limit of 0 never ends there; the limit -1, of which the comment says that it waits
  forever, is one of \<open>0xFFFFFFFF\<close> ticks.
\<close>

definition xMBMasterRunResTake :: "u32 \<Rightarrow> nat \<Rightarrow> Mb \<Rightarrow> bool option \<times> Mb" where
  "xMBMasterRunResTake lTimeOut waited m =
     (if xMasterRunRes m > 0 then (Some True, m\<lparr>xMasterRunRes := xMasterRunRes m - 1\<rparr>)
      else if lTimeOut \<noteq> 0 \<and> unat lTimeOut \<le> waited then (Some False, m)
      else (None, m))"

definition vMBMasterRunResRelease :: "Mb \<Rightarrow> Mb" where
  "vMBMasterRunResRelease m =
     (if xMasterRunRes m < 65535 then m\<lparr>xMasterRunRes := xMasterRunRes m + 1\<rparr> else m)"

section \<open>Callbacks\<close>

definition comm_timeout :: "u8 \<Rightarrow> u8 \<Rightarrow> Mb \<Rightarrow> Mb" where
  "comm_timeout ucDestAddress v m =
     (if ucDestAddress = 1 then m\<lparr>CommxTimeOut1 := v\<rparr>
      else if ucDestAddress = 2 then m\<lparr>CommxTimeOut2 := v\<rparr> else m)"

definition vMBMasterErrorCBRespondTimeout :: "Mb \<Rightarrow> Mb" where
  "vMBMasterErrorCBRespondTimeout m =
     comm_timeout (ucMBMasterDestAddress m) 1 (xMBMasterPortEventPost EV_MASTER_ERROR_RESPOND_TIMEOUT m)"

definition vMBMasterErrorCBReceiveData :: "Mb \<Rightarrow> Mb" where
  "vMBMasterErrorCBReceiveData m = xMBMasterPortEventPost EV_MASTER_ERROR_RECEIVE_DATA m"

definition vMBMasterErrorCBExecuteFunction :: "Mb \<Rightarrow> Mb" where
  "vMBMasterErrorCBExecuteFunction m = xMBMasterPortEventPost EV_MASTER_ERROR_EXECUTE_FUNCTION m"

definition vMBMasterCBRequestScuuess :: "Mb \<Rightarrow> Mb" where
  "vMBMasterCBRequestScuuess m =
     comm_timeout (ucMBMasterDestAddress m) 0 (xMBMasterPortEventPost EV_MASTER_PROCESS_SUCESS m)"

section \<open>The poll task\<close>

definition poll_received :: "Mb \<Rightarrow> Mb option" where
  "poll_received m = do {
     (st, m) \<leftarrow> eMBMasterRTUReceive m;
     Some (if st = MB_ENOERR \<and> ucRcvAddress m = ucMBMasterDestAddress m then xMBMasterPortEventPost EV_MASTER_EXECUTE m
           else xMBMasterPortEventPost EV_MASTER_ERROR_PROCESS (m\<lparr>eMBMasterCurErrorType := EV_ERROR_RECEIVE_DATA\<rparr>)) }"

text \<open>The handler once for every slave address \<open>1 \<dots> 16\<close>; the last exception stays.\<close>

fun for_slaves :: "handler \<Rightarrow> mb_frame \<Rightarrow> u8 list \<Rightarrow> eMBException \<Rightarrow> Mb \<Rightarrow> (eMBException \<times> Mb) option" where
  "for_slaves h f [] e m = Some (e, m)"
| "for_slaves h f (j # js) e m =
     (case h f (m\<lparr>ucMBMasterDestAddress := j\<rparr>) of None \<Rightarrow> None | Some (e, m) \<Rightarrow> for_slaves h f js e m)"

definition run_handler :: "handler \<Rightarrow> mb_frame \<Rightarrow> Mb \<Rightarrow> (eMBException \<times> Mb) option" where
  "run_handler h f m = do {
     let m = m\<lparr>xMBRunInMasterMode := True\<rparr>;
     (e, m) \<leftarrow> (if xFrameIsBroadcast m
                then for_slaves h f (map of_nat [1..<17]) MB_EX_ILLEGAL_FUNCTION (m\<lparr>usLength := usMasterSendPDULength m\<rparr>)
                else h f m);
     Some (e, m\<lparr>xMBRunInMasterMode := False\<rparr>) }"

definition finish_execute :: "eMBException \<times> Mb \<Rightarrow> Mb" where
  "finish_execute r =
     (if fst r \<noteq> MB_EX_NONE
      then xMBMasterPortEventPost EV_MASTER_ERROR_PROCESS ((snd r)\<lparr>eMBMasterCurErrorType := EV_ERROR_EXECUTE_FUNCTION\<rparr>)
      else vMBMasterRunResRelease (vMBMasterCBRequestScuuess (snd r)))"

definition poll_execute :: "Mb \<Rightarrow> Mb option" where
  "poll_execute m = do {
     f \<leftarrow> ucMBFrame m;
     fc \<leftarrow> pdu_byte f 0 m;
     r \<leftarrow> (if bit fc 7 then do {
             e \<leftarrow> pdu_byte f 1 m;
             Some (e, m) }
           else (case map_of xMasterFuncHandlers fc of
                   None \<Rightarrow> Some (MB_EX_ILLEGAL_FUNCTION, m)
                 | Some h \<Rightarrow> run_handler h f m));
     Some (finish_execute r) }"

text \<open>The result of sending is not looked at.\<close>

definition poll_send :: "Mb \<Rightarrow> Mb option" where
  "poll_send m = do {
     let m = m\<lparr>ucMBFrame := Some SndPdu\<rparr>;
     (_, m) \<leftarrow> eMBMasterRTUSend (ucMBMasterDestAddress m) 1 (usMasterSendPDULength m) m;
     Some m }"

definition poll_error :: "Mb \<Rightarrow> Mb" where
  "poll_error m =
     vMBMasterRunResRelease
       ((case eMBMasterCurErrorType m of
           EV_ERROR_RESPOND_TIMEOUT \<Rightarrow> vMBMasterErrorCBRespondTimeout
         | EV_ERROR_RECEIVE_DATA \<Rightarrow> vMBMasterErrorCBReceiveData
         | EV_ERROR_EXECUTE_FUNCTION \<Rightarrow> vMBMasterErrorCBExecuteFunction) (m\<lparr>ucMBFrame := Some SndPdu\<rparr>))"

text \<open>
  Called with a flag of the poll task set. With more than one of them set no case of the port's
  switch applies and the event variable is read without having been written.
\<close>

definition eMBMasterPoll :: "Mb \<Rightarrow> (eMBErrorCode \<times> Mb) option" where
  "eMBMasterPoll m =
     (if eMBState m \<noteq> STATE_ENABLED then Some (MB_EILLSTATE, m)
      else do {
        let (ev, m) = take_flags poll_flags m;
        m \<leftarrow> (if ev = EV_MASTER_READY then Some m
             else if ev = EV_MASTER_FRAME_RECEIVED then poll_received m
             else if ev = EV_MASTER_EXECUTE then poll_execute m
             else if ev = EV_MASTER_FRAME_SENT then poll_send m
             else if ev = EV_MASTER_ERROR_PROCESS then Some (poll_error m)
             else None);
        Some (MB_ENOERR, m) })"

section \<open>Requests\<close>

datatype eMBMasterReqErrCode = MB_MRE_NO_ERR | MB_MRE_NO_REG | MB_MRE_ILL_ARG | MB_MRE_REV_DATA
  | MB_MRE_TIMEDOUT | MB_MRE_MASTER_BUSY | MB_MRE_EXE_FUN

text \<open>
  A request up to the point where it waits for its outcome: it has returned early, still waits for the resource
  or is on its way. \<open>bytes\<close> is what the request writes into the send buffer, from the function code on;
  \<open>len\<close> is the length it sets. \<open>lTimeOut\<close> is the caller's time limit, \<open>waited\<close> how long it has waited so far.
\<close>

datatype request = Req_Returned eMBMasterReqErrCode | Req_Waits_Resource | Req_Waits_Outcome

definition start_request :: "u8 \<Rightarrow> u8 list option \<Rightarrow> u16 \<Rightarrow> u32 \<Rightarrow> nat \<Rightarrow> Mb \<Rightarrow> (request \<times> Mb) option" where
  "start_request ucSndAddr bytes len lTimeOut waited m =
     (case xMBMasterRunResTake lTimeOut waited m of
        (None, m) \<Rightarrow> Some (Req_Waits_Resource, m)
      | (Some False, m) \<Rightarrow> Some (Req_Returned MB_MRE_MASTER_BUSY, m)
      | (Some True, m) \<Rightarrow> do {
          bytes \<leftarrow> bytes;
          buf \<leftarrow> wr_seq (ucMasterRTUSndBuf m) 1 bytes;
          Some (Req_Waits_Outcome, xMBMasterPortEventPost EV_MASTER_FRAME_SENT
            (m\<lparr>ucMBMasterDestAddress := ucSndAddr, ucMasterRTUSndBuf := buf, usMasterSendPDULength := len\<rparr>)) })"

text \<open>The bytes of \<open>n\<close> registers of the caller's array.\<close>

fun reg_bytes :: "u16 list \<Rightarrow> nat \<Rightarrow> u8 list option" where
  "reg_bytes rs 0 = Some []"
| "reg_bytes [] (Suc n) = None"
| "reg_bytes (r # rs) (Suc n) = map_option (\<lambda>bs. hi8 r # lo8 r # bs) (reg_bytes rs n)"

definition eMBMasterReqWriteHoldingRegister where
  "eMBMasterReqWriteHoldingRegister ucSndAddr usRegAddr usRegData lTimeOut waited m =
     (if ucSndAddr > MB_MASTER_TOTAL_SLAVE_NUM then Some (Req_Returned MB_MRE_ILL_ARG, m)
      else start_request ucSndAddr (Some [6, hi8 usRegAddr, lo8 usRegAddr, hi8 usRegData, lo8 usRegData]) 5 lTimeOut waited m)"

definition eMBMasterReqWriteMultipleHoldingRegister where
  "eMBMasterReqWriteMultipleHoldingRegister ucSndAddr usRegAddr usNRegs pusDataBuffer lTimeOut waited m =
     (if ucSndAddr > MB_MASTER_TOTAL_SLAVE_NUM then Some (Req_Returned MB_MRE_ILL_ARG, m)
      else start_request ucSndAddr
             (map_option (\<lambda>bs. [16, hi8 usRegAddr, lo8 usRegAddr, hi8 usNRegs, lo8 usNRegs, lo8 (usNRegs * 2)] @ bs)
                (reg_bytes pusDataBuffer (unat usNRegs))) (1 + 5 + 2 * usNRegs) lTimeOut waited m)"

definition eMBMasterReqReadHoldingRegister where
  "eMBMasterReqReadHoldingRegister ucSndAddr usRegAddr usNRegs lTimeOut waited m =
     (if ucSndAddr > MB_MASTER_TOTAL_SLAVE_NUM then Some (Req_Returned MB_MRE_ILL_ARG, m)
      else start_request ucSndAddr (Some [3, hi8 usRegAddr, lo8 usRegAddr, hi8 usNRegs, lo8 usNRegs]) 5 lTimeOut waited m)"

definition eMBMasterReqReadInputRegister where
  "eMBMasterReqReadInputRegister ucSndAddr usRegAddr usNRegs lTimeOut waited m =
     (if ucSndAddr > MB_MASTER_TOTAL_SLAVE_NUM then Some (Req_Returned MB_MRE_ILL_ARG, m)
      else start_request ucSndAddr (Some [4, hi8 usRegAddr, lo8 usRegAddr, hi8 usNRegs, lo8 usNRegs]) 5 lTimeOut waited m)"

definition eMBMasterReqReadWriteMultipleHoldingRegister where
  "eMBMasterReqReadWriteMultipleHoldingRegister ucSndAddr usReadRegAddr usNReadRegs pusDataBuffer usWriteRegAddr usNWriteRegs lTimeOut waited m =
     (if ucSndAddr > MB_MASTER_TOTAL_SLAVE_NUM then Some (Req_Returned MB_MRE_ILL_ARG, m)
      else start_request ucSndAddr
             (map_option (\<lambda>bs. [23, hi8 usReadRegAddr, lo8 usReadRegAddr, hi8 usNReadRegs, lo8 usNReadRegs,
                 hi8 usWriteRegAddr, lo8 usWriteRegAddr, hi8 usNWriteRegs, lo8 usNWriteRegs, lo8 (usNWriteRegs * 2)] @ bs)
                (reg_bytes pusDataBuffer (unat usNWriteRegs))) (1 + 9 + 2 * usNWriteRegs) lTimeOut waited m)"

definition eMBMasterReqReadCoils where
  "eMBMasterReqReadCoils ucSndAddr usCoilAddr usNCoils lTimeOut waited m =
     (if ucSndAddr > MB_MASTER_TOTAL_SLAVE_NUM then Some (Req_Returned MB_MRE_ILL_ARG, m)
      else start_request ucSndAddr (Some [1, hi8 usCoilAddr, lo8 usCoilAddr, hi8 usNCoils, lo8 usNCoils]) 5 lTimeOut waited m)"

definition eMBMasterReqReadDiscreteInputs where
  "eMBMasterReqReadDiscreteInputs ucSndAddr usDiscreteAddr usNDiscreteIn lTimeOut waited m =
     (if ucSndAddr > MB_MASTER_TOTAL_SLAVE_NUM then Some (Req_Returned MB_MRE_ILL_ARG, m)
      else start_request ucSndAddr (Some [2, hi8 usDiscreteAddr, lo8 usDiscreteAddr, hi8 usNDiscreteIn, lo8 usNDiscreteIn]) 5 lTimeOut waited m)"

text \<open>It is the coil's address that is compared with the number of slaves.\<close>

definition eMBMasterReqWriteCoil where
  "eMBMasterReqWriteCoil ucSndAddr usCoilAddr usCoilData lTimeOut waited m =
     (if usCoilAddr > ucast MB_MASTER_TOTAL_SLAVE_NUM then Some (Req_Returned MB_MRE_ILL_ARG, m)
      else if usCoilData \<noteq> 0xFF00 \<and> usCoilData \<noteq> 0 then Some (Req_Returned MB_MRE_ILL_ARG, m)
      else start_request ucSndAddr (Some [5, hi8 usCoilAddr, lo8 usCoilAddr, hi8 usCoilData, lo8 usCoilData]) 5 lTimeOut waited m)"

definition eMBMasterReqWriteMultipleCoils where
  "eMBMasterReqWriteMultipleCoils ucSndAddr usCoilAddr usNCoils pucDataBuffer lTimeOut waited m =
     (if ucSndAddr > MB_MASTER_TOTAL_SLAVE_NUM then Some (Req_Returned MB_MRE_ILL_ARG, m)
      else if usNCoils > 0x07B0 then Some (Req_Returned MB_MRE_ILL_ARG, m)
      else let n = coil_bytes usNCoils in
        start_request ucSndAddr
          (if unat n \<le> length pucDataBuffer
           then Some ([15, hi8 usCoilAddr, lo8 usCoilAddr, hi8 usNCoils, lo8 usNCoils, n] @ take (unat n) pucDataBuffer)
           else None) (1 + 5 + ucast n) lTimeOut waited m)"

text \<open>Called with one of the result flags set. With more than one the request counts as done.\<close>

definition eMBMasterWaitRequestFinish :: "Mb \<Rightarrow> eMBMasterReqErrCode \<times> Mb" where
  "eMBMasterWaitRequestFinish m =
     (let (ev, m) = take_flags result_flags m in
      (if ev = EV_MASTER_ERROR_RESPOND_TIMEOUT then MB_MRE_TIMEDOUT
       else if ev = EV_MASTER_ERROR_RECEIVE_DATA then MB_MRE_REV_DATA
       else if ev = EV_MASTER_ERROR_EXECUTE_FUNCTION then MB_MRE_EXE_FUN
       else MB_MRE_NO_ERR, m))"

text \<open>The poll task and the interrupts. A poll without a flag waits, and nothing changes.\<close>

datatype mb_event = Irq mb_irq | Poll

fun mb_step :: "mb_event \<Rightarrow> Mb \<Rightarrow> Mb option" where
  "mb_step (Irq i) m = mb_irq_step i m"
| "mb_step Poll m = (if xMasterOsEvent m AND poll_flags = 0 then Some m else map_option snd (eMBMasterPoll m))"

section \<open>A request on its way\<close>

lemma run_irqs: "run mb_step (map Irq is) m = run mb_irq_step is m"
  by (induction "is" arbitrary: m) (auto split: option.splits)

text \<open>Nothing going on, no flag set: the state between two requests.\<close>

definition quiet :: "Mb \<Rightarrow> bool" where
  "quiet m \<longleftrightarrow> mb_ok m \<and> eMBState m = STATE_ENABLED \<and> eRcvState m = STATE_M_RX_IDLE \<and> xMasterOsEvent m = 0
     \<and> eSndState m = STATE_M_TX_IDLE \<and> timer m = None"

text \<open>The images of the slaves' data.\<close>

definition images :: "Mb \<Rightarrow> u8 list \<times> u8 list \<times> u16 list \<times> u16 list" where
  "images m = (ucMDiscInBuf m, ucMCoilBuf m, usMRegInBuf m, usMRegHoldBuf m)"

lemma images_upd [simp]:
  "images (m\<lparr>eSndState := x0\<rparr>) = images m" "images (m\<lparr>eRcvState := x1\<rparr>) = images m"
  "images (m\<lparr>ucMasterRTUSndBuf := x2\<rparr>) = images m" "images (m\<lparr>ucMasterRTURcvBuf := x3\<rparr>) = images m"
  "images (m\<lparr>usMasterSendPDULength := x4\<rparr>) = images m" "images (m\<lparr>pucMasterSndBufferCur := x5\<rparr>) = images m"
  "images (m\<lparr>usMasterSndBufferCount := x6\<rparr>) = images m" "images (m\<lparr>usMasterRcvBufferPos := x7\<rparr>) = images m"
  "images (m\<lparr>xFrameIsBroadcast := x8\<rparr>) = images m" "images (m\<lparr>eMasterCurTimerMode := x9\<rparr>) = images m"
  "images (m\<lparr>eMBMasterCurErrorType := x10\<rparr>) = images m" "images (m\<lparr>ucMBMasterDestAddress := x11\<rparr>) = images m"
  "images (m\<lparr>ucMBFrame := x12\<rparr>) = images m" "images (m\<lparr>ucRcvAddress := x13\<rparr>) = images m"
  "images (m\<lparr>usLength := x14\<rparr>) = images m" "images (m\<lparr>xMasterOsEvent := x15\<rparr>) = images m"
  "images (m\<lparr>xMasterRunRes := x16\<rparr>) = images m" "images (m\<lparr>xMBRunInMasterMode := x17\<rparr>) = images m"
  "images (m\<lparr>CommxTimeOut1 := x18\<rparr>) = images m" "images (m\<lparr>CommxTimeOut2 := x19\<rparr>) = images m"
  "images (m\<lparr>timer := x20\<rparr>) = images m" "images (m\<lparr>wire := x21\<rparr>) = images m"
  by (simp_all add: images_def)

text \<open>The request \<open>bs\<close> to \<open>adr\<close> is on the line and the master, which was in state \<open>m0\<close>, waits for the reply.\<close>

definition awaiting :: "u8 \<Rightarrow> u8 list \<Rightarrow> Mb \<Rightarrow> Mb \<Rightarrow> bool" where
  "awaiting adr bs m0 m \<longleftrightarrow> mb_ok m \<and> eMBState m = STATE_ENABLED \<and> eRcvState m = STATE_M_RX_IDLE \<and> xMasterOsEvent m = 0
     \<and> eSndState m = STATE_M_TX_XFWR \<and> \<not> xFrameIsBroadcast m \<and> eMasterCurTimerMode m = MB_TMODE_RESPOND_TIMEOUT
     \<and> timer m = Some 20 \<and> wire m = wire m0 @ rtu_frame adr bs \<and> ucMBMasterDestAddress m = adr
     \<and> take (length bs) (drop 1 (ucMasterRTUSndBuf m)) = bs \<and> xMasterRunRes m = xMasterRunRes m0 - 1 \<and> images m = images m0"

text \<open>A request was sent and no line of bytes has been heard since: what the handling of one relies on.\<close>

definition pending :: "u8 \<Rightarrow> Mb \<Rightarrow> Mb \<Rightarrow> bool" where
  "pending adr m0 m \<longleftrightarrow> mb_ok m \<and> eMBState m = STATE_ENABLED \<and> eRcvState m = STATE_M_RX_IDLE \<and> xMasterOsEvent m = 0
     \<and> \<not> xFrameIsBroadcast m \<and> eMasterCurTimerMode m = MB_TMODE_RESPOND_TIMEOUT \<and> ucMBMasterDestAddress m = adr
     \<and> xMasterRunRes m = xMasterRunRes m0 - 1 \<and> images m = images m0"

lemma awaiting_pending: "awaiting adr bs m0 m \<Longrightarrow> pending adr m0 m"
  by (simp add: awaiting_def pending_def)

lemma started:
  assumes "quiet m" and "xMasterRunRes m > 0" and "length bs \<le> 250" and "unat len = length bs"
  shows "\<exists>buf. start_request adr (Some bs) len lTimeOut waited m = Some (Req_Waits_Outcome, m\<lparr>xMasterRunRes := xMasterRunRes m - 1,
      ucMBMasterDestAddress := adr, ucMasterRTUSndBuf := buf, usMasterSendPDULength := len, xMasterOsEvent := EV_MASTER_FRAME_SENT\<rparr>)
    \<and> length buf = MB_PDU_SIZE_MAX \<and> pdu_in buf len = bs"
proof -
  have l: "length (ucMasterRTUSndBuf m) = 253" using assms(1) by (simp add: quiet_def mb_ok_def mb_sizes)
  let ?buf = "take 1 (ucMasterRTUSndBuf m) @ bs @ drop (1 + length bs) (ucMasterRTUSndBuf m)"
  have w: "wr_seq (ucMasterRTUSndBuf m) 1 bs = Some ?buf" using l assms(3) by (simp add: wr_seq_eq)
  have "start_request adr (Some bs) len lTimeOut waited m = Some (Req_Waits_Outcome, m\<lparr>xMasterRunRes := xMasterRunRes m - 1,
      ucMBMasterDestAddress := adr, ucMasterRTUSndBuf := ?buf, usMasterSendPDULength := len, xMasterOsEvent := EV_MASTER_FRAME_SENT\<rparr>)"
    using assms(1,2) w by (simp add: start_request_def xMBMasterRunResTake_def xMBMasterPortEventPost_def quiet_def)
  moreover have "length ?buf = MB_PDU_SIZE_MAX" using l assms(3) by (simp add: mb_sizes)
  moreover have "pdu_in ?buf len = bs" using l assms(4) by (simp add: pdu_in_def)
  ultimately show ?thesis by blast
qed

lemma flags_single:
  "EV_MASTER_FRAME_SENT AND poll_flags = EV_MASTER_FRAME_SENT" "EV_MASTER_FRAME_SENT AND NOT poll_flags = 0"
  "EV_MASTER_FRAME_RECEIVED AND poll_flags = EV_MASTER_FRAME_RECEIVED" "EV_MASTER_FRAME_RECEIVED AND NOT poll_flags = 0"
  "EV_MASTER_EXECUTE AND poll_flags = EV_MASTER_EXECUTE" "EV_MASTER_EXECUTE AND NOT poll_flags = 0"
  "EV_MASTER_ERROR_PROCESS AND poll_flags = EV_MASTER_ERROR_PROCESS" "EV_MASTER_ERROR_PROCESS AND NOT poll_flags = 0"
  by (simp_all add: poll_flags_def ev_defs)

lemma flags_distinct:
  "EV_MASTER_FRAME_SENT \<noteq> 0" "EV_MASTER_FRAME_RECEIVED \<noteq> 0" "EV_MASTER_EXECUTE \<noteq> 0" "EV_MASTER_ERROR_PROCESS \<noteq> 0"
  "EV_MASTER_FRAME_SENT \<noteq> EV_MASTER_READY" "EV_MASTER_FRAME_RECEIVED \<noteq> EV_MASTER_READY" "EV_MASTER_EXECUTE \<noteq> EV_MASTER_READY"
  "EV_MASTER_ERROR_PROCESS \<noteq> EV_MASTER_READY" "EV_MASTER_FRAME_SENT \<noteq> EV_MASTER_FRAME_RECEIVED" "EV_MASTER_EXECUTE \<noteq> EV_MASTER_FRAME_RECEIVED"
  "EV_MASTER_ERROR_PROCESS \<noteq> EV_MASTER_FRAME_RECEIVED" "EV_MASTER_FRAME_SENT \<noteq> EV_MASTER_EXECUTE"
  "EV_MASTER_ERROR_PROCESS \<noteq> EV_MASTER_EXECUTE" "EV_MASTER_ERROR_PROCESS \<noteq> EV_MASTER_FRAME_SENT"
  by (simp_all add: ev_defs)

text \<open>A poll that finds exactly one flag.\<close>

lemma poll_one:
  assumes "eMBState m = STATE_ENABLED"
  shows "xMasterOsEvent m = EV_MASTER_FRAME_SENT \<Longrightarrow> mb_step Poll m = poll_send (m\<lparr>xMasterOsEvent := 0\<rparr>)"
    and "xMasterOsEvent m = EV_MASTER_FRAME_RECEIVED \<Longrightarrow> mb_step Poll m = poll_received (m\<lparr>xMasterOsEvent := 0\<rparr>)"
    and "xMasterOsEvent m = EV_MASTER_EXECUTE \<Longrightarrow> mb_step Poll m = poll_execute (m\<lparr>xMasterOsEvent := 0\<rparr>)"
    and "xMasterOsEvent m = EV_MASTER_ERROR_PROCESS \<Longrightarrow> mb_step Poll m = Some (poll_error (m\<lparr>xMasterOsEvent := 0\<rparr>))"
proof -
  have o: "map_option snd (Option.bind x (\<lambda>m. Some (MB_ENOERR, m))) = x" for x :: "Mb option" by (cases x) simp_all
  show "mb_step Poll m = poll_send (m\<lparr>xMasterOsEvent := 0\<rparr>)" if "xMasterOsEvent m = EV_MASTER_FRAME_SENT"
    using assms that by (simp add: eMBMasterPoll_def take_flags_def flags_single flags_distinct o)
  show "mb_step Poll m = poll_received (m\<lparr>xMasterOsEvent := 0\<rparr>)" if "xMasterOsEvent m = EV_MASTER_FRAME_RECEIVED"
    using assms that by (simp add: eMBMasterPoll_def take_flags_def flags_single flags_distinct o)
  show "mb_step Poll m = poll_execute (m\<lparr>xMasterOsEvent := 0\<rparr>)" if "xMasterOsEvent m = EV_MASTER_EXECUTE"
    using assms that by (simp add: eMBMasterPoll_def take_flags_def flags_single flags_distinct o)
  show "mb_step Poll m = Some (poll_error (m\<lparr>xMasterOsEvent := 0\<rparr>))" if "xMasterOsEvent m = EV_MASTER_ERROR_PROCESS"
    using assms that by (simp add: eMBMasterPoll_def take_flags_def flags_single flags_distinct o)
qed

lemma request_sent:
  assumes "quiet m" and "xMasterRunRes m > 0" and "1 \<le> length bs" and "length bs \<le> 250" and "unat len = length bs"
    and "1 \<le> adr" and "adr \<le> MB_MASTER_TOTAL_SLAVE_NUM"
  shows "\<exists>m1 m2. start_request adr (Some bs) len lTimeOut waited m = Some (Req_Waits_Outcome, m1)
    \<and> run mb_step (Poll # replicate (length bs + 4) (Irq TxEmpty)) m1 = Some m2 \<and> awaiting adr bs m m2"
proof -
  obtain buf where s: "start_request adr (Some bs) len lTimeOut waited m = Some (Req_Waits_Outcome, m\<lparr>xMasterRunRes := xMasterRunRes m - 1,
      ucMBMasterDestAddress := adr, ucMasterRTUSndBuf := buf, usMasterSendPDULength := len, xMasterOsEvent := EV_MASTER_FRAME_SENT\<rparr>)"
      "length buf = MB_PDU_SIZE_MAX" "pdu_in buf len = bs"
    using started [OF assms(1,2,4,5), of adr lTimeOut waited] by blast
  let ?m1 = "m\<lparr>xMasterRunRes := xMasterRunRes m - 1,
      ucMBMasterDestAddress := adr, ucMasterRTUSndBuf := buf, usMasterSendPDULength := len, xMasterOsEvent := EV_MASTER_FRAME_SENT\<rparr>"
  let ?m = "?m1\<lparr>xMasterOsEvent := 0, ucMBFrame := Some SndPdu\<rparr>"
  have q: "eMBState ?m1 = STATE_ENABLED" "mb_ok ?m" "eRcvState ?m = STATE_M_RX_IDLE"
    using assms(1) s(2) by (simp_all add: quiet_def mb_ok_def)
  have u: "unat len \<le> 250" and pb: "pdu_in (ucMasterRTUSndBuf ?m) len = bs" using assms(4,5) s(3) by simp_all
  obtain buf2 where t: "eMBMasterRTUSend adr 1 len ?m = Some (MB_ENOERR, ?m\<lparr>ucMasterRTUSndBuf := buf2, pucMasterSndBufferCur := 0,
      usMasterSndBufferCount := len + 3, eSndState := STATE_M_TX_XMIT\<rparr>)"
      "take (length bs + 3) buf2 = rtu_frame adr bs" "length buf2 = MB_PDU_SIZE_MAX"
    using eMBMasterRTUSend_frame [OF q(2,3) assms(7) u, unfolded pb assms(5)] by blast
  let ?m2 = "?m\<lparr>ucMasterRTUSndBuf := buf2, pucMasterSndBufferCur := 0, usMasterSndBufferCount := len + 3, eSndState := STATE_M_TX_XMIT\<rparr>"
  have p: "mb_step Poll ?m1 = Some ?m2"
    using poll_one(1) [OF q(1)] t(1) by (simp add: poll_send_def)
  have h: "hd (rtu_frame adr bs) \<noteq> 0" "rtu_frame adr bs \<noteq> []" using assms(6) by (auto simp: rtu_frame_def)
  have "unat (len + 3) = length bs + 3" using assms(4,5) by (simp add: unat_word_ariths)
  then have x: "run mb_irq_step (replicate (Suc (length bs + 3)) TxEmpty) ?m2 = Some (vMBMasterPortTimersRespondTimeoutEnable
      (?m2\<lparr>wire := wire m @ rtu_frame adr bs, pucMasterSndBufferCur := length bs + 3, usMasterSndBufferCount := 0,
         xFrameIsBroadcast := False, eSndState := STATE_M_TX_XFWR\<rparr>))"
    using transmit_frame [of ?m2 "rtu_frame adr bs"] t(2,3) h by simp
  have r: "replicate (length bs + 4) (Irq TxEmpty) = map Irq (replicate (Suc (length bs + 3)) TxEmpty)"
    by (simp add: add.commute [of 4] flip: replicate_Suc)
  have b: "take (length bs) (drop 1 buf2) = bs"
    using arg_cong [OF t(2), of "\<lambda>xs. take (length bs) (drop 1 xs)"] by (simp add: drop_take rtu_frame_def min_def)
  let ?m3 = "vMBMasterPortTimersRespondTimeoutEnable (?m2\<lparr>wire := wire m @ rtu_frame adr bs, pucMasterSndBufferCur := length bs + 3,
      usMasterSndBufferCount := 0, xFrameIsBroadcast := False, eSndState := STATE_M_TX_XFWR\<rparr>)"
  have "run mb_step (Poll # replicate (length bs + 4) (Irq TxEmpty)) ?m1 = Some ?m3"
    unfolding run.simps p option.case r run_irqs x ..
  moreover have "awaiting adr bs m ?m3"
    using q(2) b assms(1) t(3) by (simp add: awaiting_def vMBMasterPortTimersRespondTimeoutEnable_def quiet_def mb_ok_def)
  ultimately show ?thesis using s(1) by blast
qed

text \<open>The flag the poll task finds after a line of bytes, and what the two failures come to.\<close>

lemma pending_heard:
  assumes "pending adr m0 m" and "fr \<noteq> []" and "length fr \<le> 256"
  shows "run mb_step (map Irq (map RxByte fr @ [TimerExpired])) m = Some (heard fr m)"
    and "xMasterOsEvent (heard fr m) = EV_MASTER_FRAME_RECEIVED" and "eMBState (heard fr m) = STATE_ENABLED"
    and "mb_ok (heard fr m)"
proof -
  have "mb_ok m" "eRcvState m = STATE_M_RX_IDLE" using assms(1) by (simp_all add: pending_def)
  then show "run mb_step (map Irq (map RxByte fr @ [TimerExpired])) m = Some (heard fr m)"
    unfolding run_irqs using assms(2,3) by (intro run_heard)
  show "xMasterOsEvent (heard fr m) = EV_MASTER_FRAME_RECEIVED" "eMBState (heard fr m) = STATE_ENABLED"
    using assms(1) by (simp_all add: heard_simps pending_def heard_def xMBMasterRTUTimerExpired_def Let_def received_def
        xMBMasterPortEventPost_def vMBMasterPortTimersDisable_def)
  show "mb_ok (heard fr m)" using \<open>mb_ok m\<close> assms(3) by (simp add: mb_ok_def heard_simps)
qed

lemma wait_result:
  "xMasterOsEvent m = EV_MASTER_PROCESS_SUCESS \<Longrightarrow> eMBMasterWaitRequestFinish m = (MB_MRE_NO_ERR, m\<lparr>xMasterOsEvent := 0\<rparr>)"
  "xMasterOsEvent m = EV_MASTER_ERROR_RESPOND_TIMEOUT \<Longrightarrow> eMBMasterWaitRequestFinish m = (MB_MRE_TIMEDOUT, m\<lparr>xMasterOsEvent := 0\<rparr>)"
  "xMasterOsEvent m = EV_MASTER_ERROR_RECEIVE_DATA \<Longrightarrow> eMBMasterWaitRequestFinish m = (MB_MRE_REV_DATA, m\<lparr>xMasterOsEvent := 0\<rparr>)"
  "xMasterOsEvent m = EV_MASTER_ERROR_EXECUTE_FUNCTION \<Longrightarrow> eMBMasterWaitRequestFinish m = (MB_MRE_EXE_FUN, m\<lparr>xMasterOsEvent := 0\<rparr>)"
  by (simp_all add: eMBMasterWaitRequestFinish_def take_flags_def result_flags_def ev_defs)

lemma heard_frame:
  "images (heard fr m) = images m"
  "xMasterRunRes (heard fr m) = xMasterRunRes m" "ucMBMasterDestAddress (heard fr m) = ucMBMasterDestAddress m"
  "xFrameIsBroadcast (heard fr m) = xFrameIsBroadcast m" "eMBState (heard fr m) = eMBState m"
  "usMasterRcvBufferPos (heard fr m) = of_nat (length fr)"
  by (simp_all add: heard_def received_def xMBMasterRTUTimerExpired_def Let_def xMBMasterPortEventPost_def
      vMBMasterPortTimersDisable_def)

lemma release_back: "r > 0 \<Longrightarrow> xMasterRunRes m = r - 1 \<Longrightarrow> xMasterRunRes (vMBMasterRunResRelease m) = r"
proof -
  assume a: "r > 0" "xMasterRunRes m = r - 1"
  have "unat (r - 1) = unat r - 1" "unat r < 65536" "0 < unat r"
    using unat_dec [OF a(1)] unsigned_less [of r, where ?'a = nat] a(1) by (simp_all add: unat_gt_0 word_greater_zero_iff)
  then have "r - 1 < 65535" by (simp add: word_less_nat_alt)
  then show ?thesis using a by (simp add: vMBMasterRunResRelease_def)
qed

lemma comm_timeout_frame [simp]:
  "images (comm_timeout d v m) = images m" "quiet (comm_timeout d v m) = quiet m" "xMasterOsEvent (comm_timeout d v m) = xMasterOsEvent m"
  "xMasterRunRes (comm_timeout d v m) = xMasterRunRes m" "wire (comm_timeout d v m) = wire m"
  by (simp_all add: comm_timeout_def images_def quiet_def mb_ok_def)

lemma release_frame [simp]:
  "images (vMBMasterRunResRelease m) = images m" "quiet (vMBMasterRunResRelease m) = quiet m"
  "xMasterOsEvent (vMBMasterRunResRelease m) = xMasterOsEvent m" "wire (vMBMasterRunResRelease m) = wire m"
  by (simp_all add: vMBMasterRunResRelease_def images_def quiet_def mb_ok_def)

lemma no_reply:
  assumes "awaiting adr bs m0 m" and "xMasterRunRes m0 > 0"
  shows "\<exists>m2. run mb_step [Irq TimerExpired, Poll] m = Some m2 \<and> eMBMasterWaitRequestFinish m2 = (MB_MRE_TIMEDOUT, m2\<lparr>xMasterOsEvent := 0\<rparr>)
    \<and> quiet (m2\<lparr>xMasterOsEvent := 0\<rparr>) \<and> xMasterRunRes m2 = xMasterRunRes m0 \<and> images m2 = images m0"
proof -
  let ?m1 = "xMBMasterRTUTimerExpired m"
  have e: "?m1 = m\<lparr>eRcvState := STATE_M_RX_IDLE, eMBMasterCurErrorType := EV_ERROR_RESPOND_TIMEOUT,
      xMasterOsEvent := EV_MASTER_ERROR_PROCESS, eSndState := STATE_M_TX_IDLE, timer := None\<rparr>"
    using assms(1) by (simp add: xMBMasterRTUTimerExpired_def Let_def awaiting_def xMBMasterPortEventPost_def vMBMasterPortTimersDisable_def)
  have "eMBState ?m1 = STATE_ENABLED" "xMasterOsEvent ?m1 = EV_MASTER_ERROR_PROCESS" using assms(1) by (simp_all add: e awaiting_def)
  then have p: "run mb_step [Irq TimerExpired, Poll] m = Some (poll_error (?m1\<lparr>xMasterOsEvent := 0\<rparr>))"
    using poll_one(4) [of ?m1] by (simp del: mb_step.simps(2))
  let ?m2 = "poll_error (?m1\<lparr>xMasterOsEvent := 0\<rparr>)"
  have "xMasterOsEvent ?m2 = EV_MASTER_ERROR_RESPOND_TIMEOUT" "xMasterRunRes ?m2 = xMasterRunRes m0" "images ?m2 = images m0"
    using assms by (simp_all add: poll_error_def e vMBMasterErrorCBRespondTimeout_def xMBMasterPortEventPost_def awaiting_def release_back)
  moreover have "quiet (?m2\<lparr>xMasterOsEvent := 0\<rparr>)"
    using assms by (simp add: poll_error_def e vMBMasterErrorCBRespondTimeout_def xMBMasterPortEventPost_def awaiting_def
      vMBMasterRunResRelease_def comm_timeout_def quiet_def mb_ok_def)
  ultimately show ?thesis using p wait_result(2) by blast
qed

lemma flags0_mb_ok: "mb_ok (m\<lparr>xMasterOsEvent := x\<rparr>) = mb_ok m"
  by (simp add: mb_ok_def)

text \<open>The first poll after a line of bytes tests length, checksum and address.\<close>

lemma heard_polled:
  assumes "pending adr m0 m" and "fr \<noteq> []" and "length fr \<le> 256"
  shows "mb_step Poll (heard fr m) =
    Some (if 4 \<le> length fr \<and> crc16 fr = 0
          then (heard fr m)\<lparr>ucRcvAddress := hd fr, usLength := of_nat (length fr) - 3, ucMBFrame := Some RcvPdu,
                 xMasterOsEvent := if hd fr = adr then EV_MASTER_EXECUTE else EV_MASTER_ERROR_PROCESS,
                 eMBMasterCurErrorType := if hd fr = adr then eMBMasterCurErrorType (heard fr m) else EV_ERROR_RECEIVE_DATA\<rparr>
          else (heard fr m)\<lparr>xMasterOsEvent := EV_MASTER_ERROR_PROCESS, eMBMasterCurErrorType := EV_ERROR_RECEIVE_DATA\<rparr>)"
proof -
  let ?h = "heard fr m"
  note h = pending_heard [OF assms]
  have ok: "mb_ok m" and d: "ucMBMasterDestAddress ?h = adr" using assms(1) by (simp_all add: pending_def heard_frame)
  have u: "unat (of_nat (length fr) :: u16) = length fr" using assms(3) by (simp add: unat_of_nat)
  have "length (ucMasterRTURcvBuf ?h) = 256" using h(4) by (simp add: mb_ok_def)
  then have r: "eMBMasterRTUReceive (?h\<lparr>xMasterOsEvent := 0\<rparr>) =
      (if 4 \<le> length fr \<and> crc16 fr = 0
       then Some (MB_ENOERR, ?h\<lparr>xMasterOsEvent := 0, ucRcvAddress := hd fr, usLength := of_nat (length fr) - 3, ucMBFrame := Some RcvPdu\<rparr>)
       else Some (MB_EIO, ?h\<lparr>xMasterOsEvent := 0\<rparr>))"
    using assms(2,3) u by (subst eMBMasterRTUReceive_spec) (simp_all add: heard_simps nth_append hd_conv_nth)
  show ?thesis
    using poll_one(2) [OF h(3,2)] r d by (simp add: poll_received_def xMBMasterPortEventPost_def del: mb_step.simps(2))
qed

lemma reply_refused:
  assumes "pending adr m0 m" and "xMasterRunRes m0 > 0" and "fr \<noteq> []" and "length fr \<le> 256"
    and "\<not> (4 \<le> length fr \<and> crc16 fr = 0 \<and> hd fr = adr)"
  shows "\<exists>m2. run mb_step (map Irq (map RxByte fr @ [TimerExpired]) @ [Poll, Poll]) m = Some m2
    \<and> eMBMasterWaitRequestFinish m2 = (MB_MRE_REV_DATA, m2\<lparr>xMasterOsEvent := 0\<rparr>)
    \<and> quiet (m2\<lparr>xMasterOsEvent := 0\<rparr>) \<and> xMasterRunRes m2 = xMasterRunRes m0 \<and> images m2 = images m0"
proof -
  let ?h = "heard fr m"
  note h = pending_heard [OF assms(1,3,4)]
  obtain m1 where p1: "mb_step Poll ?h = Some m1" and e: "xMasterOsEvent m1 = EV_MASTER_ERROR_PROCESS"
      "eMBMasterCurErrorType m1 = EV_ERROR_RECEIVE_DATA" "images m1 = images ?h" "xMasterRunRes m1 = xMasterRunRes ?h"
      "eMBState m1 = STATE_ENABLED" "quiet (m1\<lparr>xMasterOsEvent := 0\<rparr>)"
    using heard_polled [OF assms(1,3,4)] assms(5) h(3,4)
    by (auto simp: quiet_def mb_ok_def heard_simps simp del: mb_step.simps(2))
  let ?m2 = "poll_error (m1\<lparr>xMasterOsEvent := 0\<rparr>)"
  have p2: "mb_step Poll m1 = Some ?m2" using poll_one(4) [OF e(5,1)] .
  have "xMasterOsEvent ?m2 = EV_MASTER_ERROR_RECEIVE_DATA" "xMasterRunRes ?m2 = xMasterRunRes m0" "images ?m2 = images m0"
    using assms(1,2) e by (simp_all add: poll_error_def vMBMasterErrorCBReceiveData_def xMBMasterPortEventPost_def release_back
      pending_def heard_frame)
  moreover have "quiet (?m2\<lparr>xMasterOsEvent := 0\<rparr>)"
    using e(6) by (simp add: poll_error_def e(2) vMBMasterErrorCBReceiveData_def xMBMasterPortEventPost_def
      vMBMasterRunResRelease_def quiet_def mb_ok_def)
  moreover have "run mb_step (map Irq (map RxByte fr @ [TimerExpired]) @ [Poll, Poll]) m = Some ?m2"
    unfolding run_append_Some [OF h(1)] by (simp add: p1 p2 del: mb_step.simps(2))
  ultimately show ?thesis using wait_result(3) by blast
qed

text \<open>The registers of a reply, high byte first.\<close>

definition be_bytes :: "u16 list \<Rightarrow> u8 list" where
  "be_bytes vs = concat (map (\<lambda>v. [hi8 v, lo8 v]) vs)"

lemma length_be_bytes [simp]: "length (be_bytes vs) = 2 * length vs"
  by (induction vs) (simp_all add: be_bytes_def)

lemma store_regs_be:
  "store_regs regs i (length vs) (be_bytes vs @ bs) = wr_seq regs i vs"
  by (induction vs arbitrary: regs i) (auto simp: be_bytes_def split: option.splits)

text \<open>The last poll after the reply to a request to read holding registers.\<close>

lemma read_executed:
  assumes "awaiting adr [3, hi8 a, lo8 a, hi8 n, lo8 n] m0 m" and "1 \<le> adr" and "adr \<le> MB_MASTER_TOTAL_SLAVE_NUM"
    and "length vs = unat n" and "1 \<le> unat n" and "unat a + unat n \<le> 100" and "length (usMRegHoldBuf m0) = 1600"
    and "xMasterRunRes m0 > 0"
  defines "fr \<equiv> rtu_frame adr ([3, of_nat (2 * length vs)] @ be_bytes vs)"
  shows "\<exists>m2. run mb_step (map Irq (map RxByte fr @ [TimerExpired]) @ [Poll, Poll]) m = Some m2
    \<and> eMBMasterWaitRequestFinish m2 = (MB_MRE_NO_ERR, m2\<lparr>xMasterOsEvent := 0\<rparr>)
    \<and> quiet (m2\<lparr>xMasterOsEvent := 0\<rparr>) \<and> xMasterRunRes m2 = xMasterRunRes m0
    \<and> wr_seq (usMRegHoldBuf m0) (100 * (unat adr - 1) + unat a) vs = Some (usMRegHoldBuf m2)
    \<and> wire m2 = wire m"
proof -
  let ?h = "heard fr m"
  have l: "length fr = 2 * length vs + 5" "fr \<noteq> []" "length fr \<le> 256" "hd fr = adr"
    using assms(4,6) by (simp_all add: fr_def rtu_frame_def)
  have c: "crc16 fr = 0" by (simp add: fr_def crc16_rtu_frame)
  note p = awaiting_pending [OF assms(1)]
  note h = pending_heard [OF p l(2,3)]
  let ?m1 = "?h\<lparr>ucRcvAddress := adr, usLength := of_nat (length fr) - 3, ucMBFrame := Some RcvPdu, xMasterOsEvent := EV_MASTER_EXECUTE\<rparr>"
  let ?m = "?m1\<lparr>xMasterOsEvent := 0\<rparr>"
  have p1: "mb_step Poll ?h = Some ?m1"
    using heard_polled [OF p l(2,3)] l c by (simp del: mb_step.simps(2))
  have f: "xFrameIsBroadcast ?m = False" "ucMBMasterDestAddress ?m = adr" "images ?m = images m0" "xMasterRunRes ?m = xMasterRunRes m0 - 1"
    using assms(1) by (simp_all add: awaiting_def heard_frame)
  obtain rest where rcv: "pdu_buffer RcvPdu ?m = 3 # of_nat (2 * length vs) # be_bytes vs @ rest"
    by (simp add: pdu_buffer_def heard_simps fr_def rtu_frame_def)
  have sb: "pdu_buffer SndPdu ?m = drop 1 (ucMasterRTUSndBuf m)" by (simp add: pdu_buffer_def heard_simps)
  have "take (length [3, hi8 a, lo8 a, hi8 n, lo8 n]) (pdu_buffer SndPdu ?m) = [3, hi8 a, lo8 a, hi8 n, lo8 n]"
    using assms(1) by (simp only: awaiting_def sb)
  then obtain rest2 where snd: "pdu_buffer SndPdu ?m = [3, hi8 a, lo8 a, hi8 n, lo8 n] @ rest2"
    using append_take_drop_id [of "length [3, hi8 a, lo8 a, hi8 n, lo8 n]" "pdu_buffer SndPdu ?m"] by metis
  have nn: "unat n < 256" using assms(6) by simp
  then have "take_bit 8 (unat n) = unat n" by (simp add: take_bit_nat_eq_self)
  then have n1: "unat (lo8 n) = unat n" by (simp add: lo8_def unsigned_ucast_eq)
  have "ucast (lo8 n) = n" using arg_cong [OF n1, of "of_nat :: nat \<Rightarrow> u16"] by simp
  moreover have "unat (of_nat (2 * length vs) :: u8) = 2 * unat n"
    using assms(4,6) by (simp add: unat_of_nat del: of_nat_mult)
  moreover have "1 \<le> lo8 n" using n1 assms(5) by (simp add: word_le_nat_alt)
  ultimately have n: "ucast (lo8 n) = n" "unat (of_nat (2 * length vs) :: u8) = 2 * unat (lo8 n)" "1 \<le> lo8 n" using n1 by simp_all
  have u: "2 \<le> usLength ?m"
  proof -
    have e: "usLength ?m = of_nat (2 * unat n + 2)" by (simp add: l(1) assms(4))
    have "unat (usLength ?m) = 2 * unat n + 2" unfolding e unat_of_nat using assms(6) by simp
    then show ?thesis by (simp only: word_le_nat_alt) simp
  qed
  let ?w = "?m\<lparr>xMBRunInMasterMode := True\<rparr>" and ?row = "100 * (unat adr - 1)"
  have adr: "adr \<noteq> 0" "unat adr \<le> 16" using assms(2,3) by (auto simp: word_le_nat_alt mb_sizes)
  then have fits: "?row + unat a + length vs \<le> length (usMRegHoldBuf m0)" using assms(4,6,7) by simp
  then obtain regs where regs: "wr_seq (usMRegHoldBuf m0) (?row + unat a) vs = Some regs" by (simp add: wr_seq_eq)
  have hold: "usMRegHoldBuf ?w = usMRegHoldBuf m0" using f(3) by (simp add: images_def)
  have cb: "eMBMasterRegHoldingCB (be_bytes vs @ rest) (a + 1) n ?w = Some (MB_ENOERR, ?w\<lparr>usMRegHoldBuf := regs\<rparr>)"
    using adr assms(6) f(2) regs hold store_regs_be [of _ _ vs rest, unfolded assms(4)]
    by (simp add: eMBMasterRegHoldingCB_def slave_row_def)
  have bw: "pdu_buffer g ?w = pdu_buffer g ?m" for g by (cases g) (simp_all add: pdu_buffer_def)
  have pw: "pdu_word SndPdu 1 ?w = Some a" "pdu_byte SndPdu 3 ?w = Some (hi8 n)" "pdu_byte SndPdu 4 ?w = Some (lo8 n)"
      "pdu_byte RcvPdu 1 ?w = Some (of_nat (2 * length vs))" "pdu_from RcvPdu 2 ?w = be_bytes vs @ rest"
    unfolding pdu_word_def pdu_byte_def pdu_from_def bw snd rcv by (simp_all add: rd_def)
  have "\<not> xFrameIsBroadcast ?w" "2 \<le> usLength ?w" using f(1) u by simp_all
  then have "eMBMasterFuncReadHoldingRegister RcvPdu ?w = Some (to_exception (MB_ENOERR, ?w\<lparr>usMRegHoldBuf := regs\<rparr>))"
    unfolding eMBMasterFuncReadHoldingRegister_def read_registers_def pw by (simp only: if_False if_True bind.bind_lunit n cb simp_thms)
  then have h3: "run_handler eMBMasterFuncReadHoldingRegister RcvPdu ?m = Some (MB_EX_NONE, ?m\<lparr>usMRegHoldBuf := regs, xMBRunInMasterMode := False\<rparr>)"
    using f(1) by (simp add: run_handler_def to_exception_def)
  let ?m2 = "finish_execute (MB_EX_NONE, ?m\<lparr>usMRegHoldBuf := regs, xMBRunInMasterMode := False\<rparr>)"
  have "pdu_byte RcvPdu 0 ?m = Some 3" unfolding pdu_byte_def rcv by (simp add: rd_def)
  then have "poll_execute ?m = Some ?m2"
    using h3 by (simp add: poll_execute_def xMasterFuncHandlers_def)
  then have p2: "mb_step Poll ?m1 = Some ?m2" using poll_one(3) [of ?m1] h(3) by simp
  have e2: "?m2 = vMBMasterRunResRelease (comm_timeout adr 0 (?m\<lparr>usMRegHoldBuf := regs, xMBRunInMasterMode := False,
      xMasterOsEvent := EV_MASTER_PROCESS_SUCESS\<rparr>))"
    using f(2) by (simp add: finish_execute_def vMBMasterCBRequestScuuess_def xMBMasterPortEventPost_def)
  have "xMasterOsEvent ?m2 = EV_MASTER_PROCESS_SUCESS" "xMasterRunRes ?m2 = xMasterRunRes m0"
    unfolding e2 using f(4) assms(8) by (simp_all add: release_back)
  moreover have "quiet (?m2\<lparr>xMasterOsEvent := 0\<rparr>)"
    using h(3,4) unfolding e2 by (simp add: vMBMasterRunResRelease_def comm_timeout_def quiet_def mb_ok_def heard_simps)
  moreover have "usMRegHoldBuf ?m2 = regs" "wire ?m2 = wire m"
    unfolding e2 by (simp_all add: vMBMasterRunResRelease_def comm_timeout_def heard_simps)
  moreover have "run mb_step (map Irq (map RxByte fr @ [TimerExpired]) @ [Poll, Poll]) m = Some ?m2"
    unfolding run_append_Some [OF h(1)] by (simp add: p1 p2 del: mb_step.simps(2))
  moreover note wait_result(1) [of ?m2] regs
  ultimately show ?thesis by (intro exI [of _ ?m2] conjI) (simp_all only:)
qed

text \<open>A line of more than 256 bytes leaves the request where it was, but for the timer.\<close>

lemma overlong_pending:
  assumes "pending adr m0 m" and "256 < length fr"
  shows "pending adr m0 (xMBMasterRTUTimerExpired ((received (take 256 fr) m)\<lparr>eRcvState := STATE_M_RX_ERROR\<rparr>))"
  using assms by (simp add: pending_def mb_ok_def xMBMasterRTUTimerExpired_def Let_def received_def vMBMasterPortTimersDisable_def)

section \<open>Properties\<close>

text \<open>C2: A request to read holding registers that is answered by its slave is carried through: the frame of the
  request goes out, the reply is accepted, the image of the slave's registers holds the values of the reply and
  no other register of any slave changes, the requesting task is told success, and the master is ready for the
  next request.\<close>

theorem mb_read_exchange:
  assumes "quiet m" and "xMasterRunRes m > 0" and "1 \<le> adr" and "adr \<le> MB_MASTER_TOTAL_SLAVE_NUM"
    and "length vs = unat n" and "1 \<le> unat n" and "unat a + unat n \<le> 100" and "length (usMRegHoldBuf m) = 1600"
  shows "\<exists>m1 m2 m3. eMBMasterReqReadHoldingRegister adr a n lTimeOut waited m = Some (Req_Waits_Outcome, m1)
    \<and> run mb_step (Poll # replicate 9 (Irq TxEmpty)) m1 = Some m2
    \<and> run mb_step (map Irq (map RxByte (rtu_frame adr ([3, of_nat (2 * length vs)] @ be_bytes vs)) @ [TimerExpired]) @ [Poll, Poll]) m2 = Some m3
    \<and> wire m3 = wire m @ rtu_frame adr [3, hi8 a, lo8 a, hi8 n, lo8 n]
    \<and> eMBMasterWaitRequestFinish m3 = (MB_MRE_NO_ERR, m3\<lparr>xMasterOsEvent := 0\<rparr>)
    \<and> quiet (m3\<lparr>xMasterOsEvent := 0\<rparr>) \<and> xMasterRunRes m3 = xMasterRunRes m
    \<and> wr_seq (usMRegHoldBuf m) (100 * (unat adr - 1) + unat a) vs = Some (usMRegHoldBuf m3)"
proof -
  obtain m1 m2 where s: "start_request adr (Some [3, hi8 a, lo8 a, hi8 n, lo8 n]) 5 lTimeOut waited m = Some (Req_Waits_Outcome, m1)"
      "run mb_step (Poll # replicate 9 (Irq TxEmpty)) m1 = Some m2" "awaiting adr [3, hi8 a, lo8 a, hi8 n, lo8 n] m m2"
    using request_sent [OF assms(1,2), of "[3, hi8 a, lo8 a, hi8 n, lo8 n]" 5 adr lTimeOut waited] assms(3,4) by auto
  have "eMBMasterReqReadHoldingRegister adr a n lTimeOut waited m = Some (Req_Waits_Outcome, m1)"
    using s(1) assms(4) by (simp add: eMBMasterReqReadHoldingRegister_def)
  moreover have "wire m2 = wire m @ rtu_frame adr [3, hi8 a, lo8 a, hi8 n, lo8 n]" using s(3) by (simp add: awaiting_def)
  ultimately show ?thesis using s(2) read_executed [OF s(3) assms(3-8,2)] by metis
qed

lemma ex_mb_quiet: "quiet ex_mb" "xMasterRunRes ex_mb = 1" "length (usMRegHoldBuf ex_mb) = 1600" "wire ex_mb = []"
  using ex_mb_ok by (simp_all add: quiet_def ex_mb_def)

theorem mb_read_exchange_witness:
  "\<exists>m1 m2 m3. eMBMasterReqReadHoldingRegister 1 0 2 100 0 ex_mb = Some (Req_Waits_Outcome, m1)
    \<and> run mb_step (Poll # replicate 9 (Irq TxEmpty)) m1 = Some m2
    \<and> run mb_step (map Irq (map RxByte (rtu_frame 1 ([3, of_nat (2 * length [7, 8 :: u16])] @ be_bytes [7, 8])) @ [TimerExpired]) @ [Poll, Poll]) m2 = Some m3
    \<and> wire m3 = wire ex_mb @ rtu_frame 1 [3, hi8 0, lo8 0, hi8 2, lo8 2]
    \<and> eMBMasterWaitRequestFinish m3 = (MB_MRE_NO_ERR, m3\<lparr>xMasterOsEvent := 0\<rparr>)
    \<and> quiet (m3\<lparr>xMasterOsEvent := 0\<rparr>) \<and> xMasterRunRes m3 = xMasterRunRes ex_mb
    \<and> wr_seq (usMRegHoldBuf ex_mb) (100 * (unat (1 :: u8) - 1) + unat (0 :: u16)) [7, 8] = Some (usMRegHoldBuf m3)"
  by (rule mb_read_exchange [OF ex_mb_quiet(1)]) (simp_all add: ex_mb_quiet mb_sizes)

text \<open>C3: A request whose reply does not come, or comes with a wrong checksum, too short or from another address,
  ends as well: the requesting task is told the kind of failure, the images of the slaves' data are as they were,
  and the master is ready for the next request.\<close>

theorem mb_exchange_failures:
  assumes "quiet m" and "xMasterRunRes m > 0" and "1 \<le> adr" and "adr \<le> MB_MASTER_TOTAL_SLAVE_NUM"
    and "eMBMasterReqReadHoldingRegister adr a n lTimeOut waited m = Some (Req_Waits_Outcome, m1)"
    and "run mb_step (Poll # replicate 9 (Irq TxEmpty)) m1 = Some m2"
    and "input = [Irq TimerExpired, Poll] \<and> err = MB_MRE_TIMEDOUT
       \<or> fr \<noteq> [] \<and> length fr \<le> 256 \<and> \<not> (4 \<le> length fr \<and> crc16 fr = 0 \<and> hd fr = adr)
         \<and> input = map Irq (map RxByte fr @ [TimerExpired]) @ [Poll, Poll] \<and> err = MB_MRE_REV_DATA"
  shows "\<exists>m3. run mb_step input m2 = Some m3 \<and> eMBMasterWaitRequestFinish m3 = (err, m3\<lparr>xMasterOsEvent := 0\<rparr>)
    \<and> quiet (m3\<lparr>xMasterOsEvent := 0\<rparr>) \<and> xMasterRunRes m3 = xMasterRunRes m \<and> images m3 = images m"
proof -
  have "start_request adr (Some [3, hi8 a, lo8 a, hi8 n, lo8 n]) 5 lTimeOut waited m = Some (Req_Waits_Outcome, m1)"
    using assms(4,5) by (simp add: eMBMasterReqReadHoldingRegister_def split: if_splits)
  then have "awaiting adr [3, hi8 a, lo8 a, hi8 n, lo8 n] m m2"
    using request_sent [OF assms(1,2), of "[3, hi8 a, lo8 a, hi8 n, lo8 n]" 5 adr lTimeOut waited] assms(3,4,6) by auto
  from no_reply [OF this assms(2)] reply_refused [OF awaiting_pending [OF this] assms(2), of fr] assms(7) show ?thesis by (elim disjE) simp_all
qed

theorem mb_exchange_failures_witness:
  "\<exists>m1 m2 m3. eMBMasterReqReadHoldingRegister 1 0 2 100 0 ex_mb = Some (Req_Waits_Outcome, m1)
    \<and> run mb_step (Poll # replicate 9 (Irq TxEmpty)) m1 = Some m2 \<and> run mb_step [Irq TimerExpired, Poll] m2 = Some m3
    \<and> eMBMasterWaitRequestFinish m3 = (MB_MRE_TIMEDOUT, m3\<lparr>xMasterOsEvent := 0\<rparr>) \<and> xMasterRunRes m3 = 1 \<and> images m3 = images ex_mb"
proof -
  have r: "xMasterRunRes ex_mb > 0" "(1 :: u8) \<le> 1" "1 \<le> MB_MASTER_TOTAL_SLAVE_NUM" "unat (5 :: u16) = length [3, hi8 0, lo8 0, hi8 2, lo8 2]"
    by (simp_all add: ex_mb_quiet mb_sizes)
  obtain m1 m2 where s: "start_request 1 (Some [3, hi8 0, lo8 0, hi8 2, lo8 2]) 5 100 0 ex_mb = Some (Req_Waits_Outcome, m1)"
      "run mb_step (Poll # replicate 9 (Irq TxEmpty)) m1 = Some m2"
    using request_sent [OF ex_mb_quiet(1) r(1) _ _ r(4) r(2,3), of 100 0] by auto
  have q: "eMBMasterReqReadHoldingRegister 1 0 2 100 0 ex_mb = Some (Req_Waits_Outcome, m1)"
    using s(1) by (simp add: eMBMasterReqReadHoldingRegister_def mb_sizes)
  have "[Irq TimerExpired, Poll] = [Irq TimerExpired, Poll] \<and> MB_MRE_TIMEDOUT = MB_MRE_TIMEDOUT \<or> [] \<noteq> ([] :: u8 list) \<and> length ([] :: u8 list) \<le> 256
      \<and> \<not> (4 \<le> length ([] :: u8 list) \<and> crc16 [] = 0 \<and> hd [] = (1 :: u8)) \<and> [Irq TimerExpired, Poll] = map Irq (map RxByte [] @ [TimerExpired]) @ [Poll, Poll]
      \<and> MB_MRE_TIMEDOUT = MB_MRE_REV_DATA" by simp
  from mb_exchange_failures [OF ex_mb_quiet(1) r(1-3) q s(2) this] show ?thesis
    using q s(2) ex_mb_quiet(2) by auto
qed

text \<open>C34: A reply of more than 256 bytes does not end the request: the receiver has switched the reply timer off and
  drops the line when it falls silent without setting a flag. As long as no further byte is received, no timer
  runs, every poll waits, interrupts of the transmitter change nothing, and every further request waits for the
  resource, without end if its time limit is 0, and is refused as busy when its time limit is over. Another
  line of bytes that is no valid reply ends the request as one with a bad reply.\<close>

theorem mb_overlong_hangs:
  assumes "quiet m" and "xMasterRunRes m = 1" and "1 \<le> adr" and "adr \<le> MB_MASTER_TOTAL_SLAVE_NUM"
    and "eMBMasterReqReadHoldingRegister adr a n lTimeOut waited m = Some (Req_Waits_Outcome, m1)"
    and "run mb_step (Poll # replicate 9 (Irq TxEmpty)) m1 = Some m2"
    and "256 < length fr" and "adr' \<le> MB_MASTER_TOTAL_SLAVE_NUM"
    and "noise \<noteq> []" and "length noise \<le> 256" and "\<not> (4 \<le> length noise \<and> crc16 noise = 0 \<and> hd noise = adr)"
    and "set es \<subseteq> {Poll, Irq TxEmpty}"
  shows "\<exists>m3 m4. run mb_step (map Irq (map RxByte fr @ [TimerExpired])) m2 = Some m3 \<and> timer m3 = None \<and> xMasterOsEvent m3 = 0
    \<and> run mb_step es m3 = Some m3
    \<and> eMBMasterReqReadHoldingRegister adr' a' n' limit w m3
        = Some (if limit \<noteq> 0 \<and> unat limit \<le> w then Req_Returned MB_MRE_MASTER_BUSY else Req_Waits_Resource, m3)
    \<and> run mb_step (map Irq (map RxByte noise @ [TimerExpired]) @ [Poll, Poll]) m3 = Some m4
    \<and> eMBMasterWaitRequestFinish m4 = (MB_MRE_REV_DATA, m4\<lparr>xMasterOsEvent := 0\<rparr>) \<and> quiet (m4\<lparr>xMasterOsEvent := 0\<rparr>)
    \<and> xMasterRunRes m4 = 1 \<and> images m4 = images m"
proof -
  have "start_request adr (Some [3, hi8 a, lo8 a, hi8 n, lo8 n]) 5 lTimeOut waited m = Some (Req_Waits_Outcome, m1)"
    using assms(4,5) by (simp add: eMBMasterReqReadHoldingRegister_def split: if_splits)
  then have w: "awaiting adr [3, hi8 a, lo8 a, hi8 n, lo8 n] m m2"
    using request_sent [OF assms(1), of "[3, hi8 a, lo8 a, hi8 n, lo8 n]" 5 adr lTimeOut waited] assms(2-4,6) by auto
  then have ok: "mb_ok m2" "eRcvState m2 = STATE_M_RX_IDLE" by (simp_all add: awaiting_def)
  let ?m3 = "xMBMasterRTUTimerExpired ((received (take 256 fr) m2)\<lparr>eRcvState := STATE_M_RX_ERROR\<rparr>)"
  have r: "run mb_step (map Irq (map RxByte fr @ [TimerExpired])) m2 = Some ?m3"
    unfolding run_irqs run_append_Some [OF receive_overlong [OF ok assms(7)]] by simp
  have e: "xMasterOsEvent ?m3 = 0" "timer ?m3 = None" "xMasterRunRes ?m3 = 0" "eSndState ?m3 = STATE_M_TX_IDLE"
    using w assms(2) by (simp_all add: xMBMasterRTUTimerExpired_def Let_def received_def vMBMasterPortTimersDisable_def awaiting_def)
  have "mb_step x ?m3 = Some ?m3" if "x \<in> {Poll, Irq TxEmpty}" for x
    using that e(1,4) by (auto simp: xMBMasterRTUTransmitFSM_def)
  then have p: "run mb_step es ?m3 = Some ?m3" using assms(12) by (induction es) auto
  have q: "eMBMasterReqReadHoldingRegister adr' a' n' limit w ?m3
      = Some (if limit \<noteq> 0 \<and> unat limit \<le> w then Req_Returned MB_MRE_MASTER_BUSY else Req_Waits_Resource, ?m3)" for w
    using leD [OF assms(8)] e(3) by (simp add: eMBMasterReqReadHoldingRegister_def start_request_def xMBMasterRunResTake_def)
  have "pending adr m ?m3" by (rule overlong_pending [OF awaiting_pending [OF w] assms(7)])
  from reply_refused [OF this _ assms(9-11)] assms(2) obtain m4
    where "run mb_step (map Irq (map RxByte noise @ [TimerExpired]) @ [Poll, Poll]) ?m3 = Some m4"
      "eMBMasterWaitRequestFinish m4 = (MB_MRE_REV_DATA, m4\<lparr>xMasterOsEvent := 0\<rparr>)" "quiet (m4\<lparr>xMasterOsEvent := 0\<rparr>)"
      "xMasterRunRes m4 = 1" "images m4 = images m" by auto
  then show ?thesis using r e(1,2) p q by blast
qed

theorem mb_overlong_hangs_witness:
  "\<exists>m1 m2 m3 m4. eMBMasterReqReadHoldingRegister 1 0 2 100 0 ex_mb = Some (Req_Waits_Outcome, m1)
    \<and> run mb_step (Poll # replicate 9 (Irq TxEmpty)) m1 = Some m2
    \<and> run mb_step (map Irq (map RxByte (replicate 300 0) @ [TimerExpired])) m2 = Some m3
    \<and> run mb_step [Poll, Irq TxEmpty, Poll] m3 = Some m3
    \<and> eMBMasterReqReadHoldingRegister 2 0 1 0 1000 m3 = Some (Req_Waits_Resource, m3)
    \<and> run mb_step (map Irq (map RxByte [7] @ [TimerExpired]) @ [Poll, Poll]) m3 = Some m4 \<and> xMasterRunRes m4 = 1"
proof -
  have r: "xMasterRunRes ex_mb > 0" "(1 :: u8) \<le> 1" "1 \<le> MB_MASTER_TOTAL_SLAVE_NUM" "unat (5 :: u16) = length [3, hi8 0, lo8 0, hi8 2, lo8 2]"
    by (simp_all add: ex_mb_quiet mb_sizes)
  obtain m1 m2 where s: "start_request 1 (Some [3, hi8 0, lo8 0, hi8 2, lo8 2]) 5 100 0 ex_mb = Some (Req_Waits_Outcome, m1)"
      "run mb_step (Poll # replicate 9 (Irq TxEmpty)) m1 = Some m2"
    using request_sent [OF ex_mb_quiet(1) r(1) _ _ r(4) r(2,3), of 100 0] by auto
  have q: "eMBMasterReqReadHoldingRegister 1 0 2 100 0 ex_mb = Some (Req_Waits_Outcome, m1)"
    using s(1) by (simp add: eMBMasterReqReadHoldingRegister_def mb_sizes)
  have "256 < length (replicate 300 (0 :: u8))" "2 \<le> MB_MASTER_TOTAL_SLAVE_NUM" "[7 :: u8] \<noteq> []" "length [7 :: u8] \<le> 256"
      "\<not> (4 \<le> length [7 :: u8] \<and> crc16 [7] = 0 \<and> hd [7] = (1 :: u8))"
      "set [Poll, Irq TxEmpty, Poll] \<subseteq> {Poll, Irq TxEmpty}" by (simp_all add: mb_sizes)
  from mb_overlong_hangs [OF ex_mb_quiet(1,2) r(2,3) q s(2) this, of 0 1 0 1000] show ?thesis
    using q s(2) by (auto simp del: list.map replicate.simps)
qed

end
