(* ===== verification/Os_Mem.thy ===== *)
theory Os_Mem
  imports Prelude
begin

text \<open>
  \<open>uCOS-II/Source/os_mem.c\<close>: partitions of fixed-size memory blocks. The free blocks of a
  partition form a list whose links are kept in the blocks themselves, so the model has the
  memory, a byte at every address. A partition is a stack of free blocks as long as its users
  write only to blocks they hold and return only those.
\<close>

section \<open>Memory\<close>

type_synonym mem = "u32 \<Rightarrow> u8"

text \<open>A pointer in memory, least significant byte first.\<close>

definition load_ptr :: "mem \<Rightarrow> u32 \<Rightarrow> u32" where
  "load_ptr m a = word32 (m (a + 3)) (m (a + 2)) (m (a + 1)) (m a)"

definition store_ptr :: "mem \<Rightarrow> u32 \<Rightarrow> u32 \<Rightarrow> mem" where
  "store_ptr m a v = m(a := byte_of 0 v, a + 1 := byte_of 1 v, a + 2 := byte_of 2 v, a + 3 := byte_of 3 v)"

section \<open>Partitions\<close>

text \<open>
  \<open>OSMemFreeList\<close> of a control block is a void pointer: the next control block while the block
  itself is free, the first free memory block afterwards.
\<close>

datatype free_ptr = NextPart "nat option" | FirstBlock u32

record OS_MEM =
  OSMemAddr :: u32
  OSMemFreeList :: free_ptr
  OSMemBlkSize :: u32
  OSMemNBlks :: u32
  OSMemNFree :: u32

record Mem =
  OSMemTbl :: "OS_MEM list"
  OSMemFreePart :: "nat option"
  memory :: mem

datatype mem_err = OS_ERR_MEM_NONE | OS_ERR_MEM_INVALID_PART | OS_ERR_MEM_NO_FREE_BLKS | OS_ERR_MEM_FULL

definition OS_MAX_MEM_PART :: nat where "OS_MAX_MEM_PART = 5"

definition OS_MemInit :: "Mem \<Rightarrow> Mem" where
  "OS_MemInit s = s\<lparr>OSMemTbl := map (\<lambda>i. \<lparr>OSMemAddr = 0, OSMemFreeList = NextPart (if i + 1 < OS_MAX_MEM_PART then Some (i + 1) else None),
       OSMemBlkSize = 0, OSMemNBlks = 0, OSMemNFree = 0\<rparr>) [0..<OS_MAX_MEM_PART],
     OSMemFreePart := Some 0\<rparr>"

text \<open>The loop that links the blocks: the memory and the block the last link belongs to.\<close>

fun link_blocks :: "nat \<Rightarrow> u32 \<Rightarrow> u32 \<Rightarrow> mem \<Rightarrow> mem \<times> u32" where
  "link_blocks 0 blksize plink m = (m, plink)"
| "link_blocks (Suc n) blksize plink m = link_blocks n blksize (plink + blksize) (store_ptr m plink (plink + blksize))"

definition OSMemCreate :: "u32 \<Rightarrow> u32 \<Rightarrow> u32 \<Rightarrow> Mem \<Rightarrow> ((mem_err \<times> nat option) \<times> Mem) option" where
  "OSMemCreate addr nblks blksize s =
     (case OSMemFreePart s of
        None \<Rightarrow> Some ((OS_ERR_MEM_INVALID_PART, None), s)
      | Some p \<Rightarrow> do {
          pmem \<leftarrow> rd (OSMemTbl s) p;
          next_part \<leftarrow> (case OSMemFreeList pmem of NextPart q \<Rightarrow> Some q | FirstBlock b \<Rightarrow> None);
          let (m, last_link) = link_blocks (unat (nblks - 1)) blksize addr (memory s);
          Some ((OS_ERR_MEM_NONE, Some p),
            s\<lparr>OSMemTbl := (OSMemTbl s)[p := \<lparr>OSMemAddr = addr, OSMemFreeList = FirstBlock addr, OSMemBlkSize = blksize,
                OSMemNBlks = nblks, OSMemNFree = nblks\<rparr>],
              OSMemFreePart := next_part, memory := store_ptr m last_link 0\<rparr>) })"

definition OSMemGet :: "nat \<Rightarrow> Mem \<Rightarrow> ((mem_err \<times> u32) \<times> Mem) option" where
  "OSMemGet p s = do {
     pmem \<leftarrow> rd (OSMemTbl s) p;
     if OSMemNFree pmem > 0 then
       (case OSMemFreeList pmem of
          FirstBlock pblk \<Rightarrow> Some ((OS_ERR_MEM_NONE, pblk),
            s\<lparr>OSMemTbl := (OSMemTbl s)[p := pmem\<lparr>OSMemFreeList := FirstBlock (load_ptr (memory s) pblk), OSMemNFree := OSMemNFree pmem - 1\<rparr>]\<rparr>)
        | NextPart q \<Rightarrow> None)
     else Some ((OS_ERR_MEM_NO_FREE_BLKS, 0), s) }"

definition OSMemPut :: "nat \<Rightarrow> u32 \<Rightarrow> Mem \<Rightarrow> (mem_err \<times> Mem) option" where
  "OSMemPut p pblk s = do {
     pmem \<leftarrow> rd (OSMemTbl s) p;
     if OSMemNFree pmem \<ge> OSMemNBlks pmem then Some (OS_ERR_MEM_FULL, s)
     else
       (case OSMemFreeList pmem of
          FirstBlock b \<Rightarrow> Some (OS_ERR_MEM_NONE,
            s\<lparr>OSMemTbl := (OSMemTbl s)[p := pmem\<lparr>OSMemFreeList := FirstBlock pblk, OSMemNFree := OSMemNFree pmem + 1\<rparr>],
              memory := store_ptr (memory s) pblk b\<rparr>)
        | NextPart q \<Rightarrow> None) }"

text \<open>Address, first free block, block size, number of blocks, free and used ones.\<close>

definition OSMemQuery :: "nat \<Rightarrow> Mem \<Rightarrow> (u32 \<times> free_ptr \<times> u32 \<times> u32 \<times> u32 \<times> u32) option" where
  "OSMemQuery p s = do {
     pmem \<leftarrow> rd (OSMemTbl s) p;
     Some (OSMemAddr pmem, OSMemFreeList pmem, OSMemBlkSize pmem, OSMemNBlks pmem, OSMemNFree pmem,
           OSMemNBlks pmem - OSMemNFree pmem) }"

section \<open>What a user of a partition does\<close>

datatype mem_op = Get | Put u32 | Write u32 u8

datatype mem_out = Block u32 | NoBlock | Returned mem_err | Written

fun mem_step :: "nat \<Rightarrow> mem_op \<Rightarrow> Mem \<Rightarrow> (mem_out \<times> Mem) option" where
  "mem_step p Get s = do {
     ((err, b), s) \<leftarrow> OSMemGet p s;
     Some (if err = OS_ERR_MEM_NONE then Block b else NoBlock, s) }"
| "mem_step p (Put b) s = do {
     (err, s) \<leftarrow> OSMemPut p b s;
     Some (Returned err, s) }"
| "mem_step p (Write a v) s = Some (Written, s\<lparr>memory := (memory s)(a := v)\<rparr>)"

text \<open>
  The specification: the blocks of the partition and the stack of those that are free. Whatever
  is returned while every block is free is refused; otherwise a block that is returned must be
  one that is held. A write must not hit the link of a free block.
\<close>

definition link_at :: "u32 \<Rightarrow> u32 set" where
  "link_at x = {x, x + 1, x + 2, x + 3}"

definition links :: "u32 list \<Rightarrow> u32 set" where
  "links xs = (\<Union>x \<in> set xs. link_at x)"

fun pool_step :: "u32 list \<Rightarrow> mem_op \<Rightarrow> u32 list \<Rightarrow> mem_out \<times> u32 list" where
  "pool_step bs Get [] = (NoBlock, [])"
| "pool_step bs Get (x # xs) = (Block x, xs)"
| "pool_step bs (Put b) xs =
     (if length xs = length bs then (Returned OS_ERR_MEM_FULL, xs) else (Returned OS_ERR_MEM_NONE, b # xs))"
| "pool_step bs (Write a v) xs = (Written, xs)"

fun pool_ok :: "u32 list \<Rightarrow> mem_op \<Rightarrow> u32 list \<Rightarrow> bool" where
  "pool_ok bs Get xs \<longleftrightarrow> True"
| "pool_ok bs (Put b) xs \<longleftrightarrow> length xs = length bs \<or> b \<in> set bs \<and> b \<notin> set xs"
| "pool_ok bs (Write a v) xs \<longleftrightarrow> a \<notin> links xs"

section \<open>Links in memory\<close>

lemma load_store_same [simp]: "load_ptr (store_ptr m a v) a = v"
  by (simp add: load_ptr_def store_ptr_def del: One_nat_def)

lemma load_cong: "(\<And>x. x \<in> link_at a \<Longrightarrow> m x = m' x) \<Longrightarrow> load_ptr m a = load_ptr m' a"
  by (simp add: load_ptr_def link_at_def)

lemma store_outside: "x \<notin> link_at a \<Longrightarrow> store_ptr m a v x = m x"
  by (simp add: store_ptr_def link_at_def)

text \<open>The free list from a first block on.\<close>

fun chain_in :: "mem \<Rightarrow> u32 \<Rightarrow> u32 list \<Rightarrow> bool" where
  "chain_in m h [] \<longleftrightarrow> h = 0"
| "chain_in m h (x # xs) \<longleftrightarrow> h = x \<and> h \<noteq> 0 \<and> chain_in m (load_ptr m x) xs"

lemma links_Cons: "links (x # xs) = link_at x \<union> links xs"
  by (auto simp: links_def)

lemma chain_frame: "(\<And>x. x \<in> links xs \<Longrightarrow> m x = m' x) \<Longrightarrow> chain_in m h xs = chain_in m' h xs"
proof (induction xs arbitrary: h)
  case (Cons x xs)
  then have "load_ptr m x = load_ptr m' x" by (intro load_cong) (simp add: links_Cons)
  then show ?case using Cons by (simp add: links_Cons)
qed simp

text \<open>Blocks whose first four bytes do not overlap, none of them at address 0.\<close>

definition apart :: "u32 list \<Rightarrow> bool" where
  "apart bs \<longleftrightarrow> distinct bs \<and> 0 \<notin> set bs \<and> (\<forall>x \<in> set bs. \<forall>y \<in> set bs. x \<noteq> y \<longrightarrow> link_at x \<inter> link_at y = {})"

lemma apart_ConsD: "apart (x # bs) \<Longrightarrow> apart bs \<and> link_at x \<inter> links bs = {} \<and> x \<noteq> 0"
proof -
  assume a: "apart (x # bs)"
  have "links bs = (\<Union>y \<in> set bs. link_at y)" by (simp add: links_def)
  moreover have "link_at x \<inter> link_at y = {}" if "y \<in> set bs" for y
    using a that unfolding apart_def by (metis distinct.simps(2) list.set_intros)
  ultimately show ?thesis using a by (auto simp: apart_def)
qed

definition pool_rel :: "nat \<Rightarrow> u32 list \<Rightarrow> Mem \<Rightarrow> u32 list \<Rightarrow> bool" where
  "pool_rel p bs s xs \<longleftrightarrow> p < length (OSMemTbl s) \<and> apart bs \<and> distinct xs \<and> set xs \<subseteq> set bs
     \<and> length bs = unat (OSMemNBlks (OSMemTbl s ! p)) \<and> length xs = unat (OSMemNFree (OSMemTbl s ! p))
     \<and> (\<exists>h. OSMemFreeList (OSMemTbl s ! p) = FirstBlock h \<and> chain_in (memory s) h xs)"

lemma links_apart: "apart bs \<Longrightarrow> set xs \<subseteq> set bs \<Longrightarrow> b \<in> set bs \<Longrightarrow> b \<notin> set xs \<Longrightarrow> link_at b \<inter> links xs = {}"
proof -
  assume a: "apart bs" "set xs \<subseteq> set bs" "b \<in> set bs" "b \<notin> set xs"
  have "link_at b \<inter> link_at x = {}" if "x \<in> set xs" for x
    using a that unfolding apart_def by (metis subsetD)
  then show ?thesis by (auto simp: links_def)
qed

interpretation pool: simulation "mem_step p" "pool_step bs" "pool_ok bs" "pool_rel p bs" for p bs
proof (unfold_locales, goal_cases)
  case (1 s xs i)
  let ?pm = "OSMemTbl s ! p"
  from 1(1) obtain h where r: "p < length (OSMemTbl s)" "apart bs" "distinct xs" "set xs \<subseteq> set bs" "length bs = unat (OSMemNBlks ?pm)"
      "length xs = unat (OSMemNFree ?pm)" "OSMemFreeList ?pm = FirstBlock h" "chain_in (memory s) h xs"
    by (auto simp: pool_rel_def)
  show ?case
  proof (cases i)
    case Get
    show ?thesis
    proof (cases xs)
      case Nil
      then have "OSMemNFree ?pm = 0" using r(6) by (simp add: unat_eq_0)
      then show ?thesis using 1(1) r(1) Get Nil by (simp add: OSMemGet_def rd_in)
    next
      case (Cons x ys)
      then have nz: "OSMemNFree ?pm > 0" using r(6) by (auto simp: word_greater_zero_iff)
      then have n: "OSMemNFree ?pm > 0" "unat (OSMemNFree ?pm - 1) = length ys"
        using r(6) unat_dec [OF nz] Cons by simp_all
      then show ?thesis using r Get Cons by (auto simp: OSMemGet_def rd_in pool_rel_def)
    qed
  next
    case (Put b)
    show ?thesis
    proof (cases "length xs = length bs")
      case True
      then have "OSMemNFree ?pm = OSMemNBlks ?pm" using r(5,6) by (simp add: word_unat_eq_iff)
      then show ?thesis using 1(1) r(1) Put True by (simp add: OSMemPut_def rd_in)
    next
      case False
      then have b: "b \<in> set bs" "b \<notin> set xs" using 1(2) Put by simp_all
      have "card (insert b (set xs)) \<le> card (set bs)" using b(1) r(4) by (intro card_mono) auto
      then have l: "length xs < length bs" using b(2) r(2,3) by (simp add: distinct_card apart_def)
      then have n: "\<not> OSMemNBlks ?pm \<le> OSMemNFree ?pm" "unat (OSMemNFree ?pm + 1) = Suc (length xs)"
        using r(5,6) unat_inc [of "OSMemNFree ?pm" "OSMemNBlks ?pm"] by (simp_all add: word_le_nat_alt word_less_nat_alt)
      have "store_ptr (memory s) b h x = memory s x" if "x \<in> links xs" for x
        using that links_apart [OF r(2,4) b] by (intro store_outside) auto
      then have "chain_in (store_ptr (memory s) b h) h xs" using chain_frame r(8) by blast
      moreover have "b \<noteq> 0" using r(2) b(1) by (auto simp: apart_def)
      ultimately have "chain_in (store_ptr (memory s) b h) b (b # xs)" by simp
      then show ?thesis using r b l n Put False by (auto simp: OSMemPut_def rd_in pool_rel_def)
    qed
  next
    case (Write a v)
    have "((memory s)(a := v)) x = memory s x" if "x \<in> links xs" for x using that 1(2) Write by auto
    then have "chain_in ((memory s)(a := v)) h xs" using chain_frame r(8) by blast
    then show ?thesis using r Write by (auto simp: pool_rel_def)
  qed
qed

section \<open>Creating a partition\<close>

definition blocks :: "u32 \<Rightarrow> nat \<Rightarrow> u32 \<Rightarrow> u32 list" where
  "blocks addr n blksize = map (\<lambda>i. addr + of_nat i * blksize) [0..<n]"

lemma blocks_Suc: "blocks addr (Suc n) blksize = addr # blocks (addr + blksize) n blksize"
proof -
  have "[0..<Suc n] = 0 # map Suc [0..<n]" by (simp add: upt_conv_Cons map_Suc_upt del: upt_Suc)
  then show ?thesis by (simp add: blocks_def algebra_simps del: upt_Suc)
qed

text \<open>A region that starts above address 0, does not run over the end of memory, and has room for a
  pointer in every block.\<close>

definition region_ok :: "u32 \<Rightarrow> nat \<Rightarrow> u32 \<Rightarrow> bool" where
  "region_ok addr n blksize \<longleftrightarrow> addr \<noteq> 0 \<and> 4 \<le> unat blksize \<and> unat addr + n * unat blksize \<le> 2 ^ 32"

lemma region_address:
  assumes "region_ok addr n blksize" and "i < n" and "k < 4"
  shows "unat (addr + of_nat i * blksize + of_nat k) = unat addr + i * unat blksize + k"
proof -
  have "i * unat blksize + unat blksize \<le> n * unat blksize"
    using assms(2) by (metis add.commute mult_Suc mult_le_mono1 Suc_leI)
  then have b: "unat addr + i * unat blksize + k < 2 ^ 32" using assms(1,3) by (simp add: region_ok_def)
  have "addr + of_nat i * blksize + of_nat k = of_nat (unat addr + i * unat blksize + k)" by simp
  then show ?thesis using b by (simp only: unat_of_nat) simp
qed

lemma blocks_apart:
  assumes "region_ok addr n blksize"
  shows "apart (blocks addr n blksize)"
proof -
  have l: "\<exists>k < 4. z = x + of_nat k" if "z \<in> link_at x" for z x
    using that by (auto simp: link_at_def intro: exI [of _ 0] exI [of _ 1] exI [of _ 2] exI [of _ 3])
  have e: "i = j" if h: "i < n" "j < n" "z \<in> link_at (addr + of_nat i * blksize)" "z \<in> link_at (addr + of_nat j * blksize)" for i j z
  proof -
    obtain k where k: "k < 4" "z = addr + of_nat i * blksize + of_nat k" using l [OF h(3)] by blast
    obtain k' where k': "k' < 4" "z = addr + of_nat j * blksize + of_nat k'" using l [OF h(4)] by blast
    have "unat z = unat addr + i * unat blksize + k" unfolding k(2) by (rule region_address [OF assms h(1) k(1)])
    moreover have "unat z = unat addr + j * unat blksize + k'" unfolding k'(2) by (rule region_address [OF assms h(2) k'(1)])
    ultimately have "(i * unat blksize + k) div unat blksize = (j * unat blksize + k') div unat blksize" by simp
    moreover have "k < unat blksize" "k' < unat blksize" using assms k(1) k'(1) by (simp_all add: region_ok_def)
    ultimately show "i = j" by simp
  qed
  have "x \<in> link_at x" for x by (simp add: link_at_def)
  then have "inj_on (\<lambda>i. addr + of_nat i * blksize) {0..<n}" using e by (intro inj_onI) (metis atLeastLessThan_iff)
  moreover have "addr + of_nat i * blksize \<noteq> 0" if "i < n" for i
    using region_address [OF assms that, of 0] assms by (auto simp: region_ok_def unat_eq_0)
  moreover have "link_at x \<inter> link_at y = {}" if h: "x \<in> set (blocks addr n blksize)" "y \<in> set (blocks addr n blksize)" "x \<noteq> y" for x y
  proof -
    obtain i where i: "i < n" "x = addr + of_nat i * blksize" using h(1) by (auto simp: blocks_def)
    obtain j where j: "j < n" "y = addr + of_nat j * blksize" using h(2) by (auto simp: blocks_def)
    have "i \<noteq> j" using h(3) i(2) j(2) by blast
    then show ?thesis using e [OF i(1) j(1)] unfolding i(2) j(2) by blast
  qed
  ultimately show ?thesis by (auto simp: apart_def blocks_def distinct_map)
qed

lemma link_blocks_chain:
  "apart (blocks plink (Suc n) blksize) \<Longrightarrow> link_blocks n blksize plink m = (m', l) \<Longrightarrow>
     chain_in (store_ptr m' l 0) plink (blocks plink (Suc n) blksize)
     \<and> (\<forall>a. a \<notin> links (blocks plink (Suc n) blksize) \<longrightarrow> store_ptr m' l 0 a = m a)"
proof (induction n arbitrary: plink m)
  case 0
  then show ?case by (auto simp: blocks_def apart_def store_outside links_def)
next
  case (Suc n)
  let ?bs = "blocks (plink + blksize) (Suc n) blksize" and ?m = "store_ptr m plink (plink + blksize)"
  have b: "blocks plink (Suc (Suc n)) blksize = plink # ?bs" by (rule blocks_Suc)
  note a = apart_ConsD [OF Suc.prems(1) [unfolded b]]
  have ih: "chain_in (store_ptr m' l 0) (plink + blksize) ?bs" "\<And>a. a \<notin> links ?bs \<Longrightarrow> store_ptr m' l 0 a = ?m a"
    using Suc.IH [of "plink + blksize" ?m] a Suc.prems(2) by simp_all
  have "load_ptr (store_ptr m' l 0) plink = load_ptr ?m plink" using a ih(2) by (intro load_cong) auto
  then show ?case using a ih by (auto simp: b links_Cons store_outside)
qed

lemma OSMemCreate_pool:
  assumes "OSMemFreePart s = Some p" and "p < length (OSMemTbl s)" and "OSMemFreeList (OSMemTbl s ! p) = NextPart q"
    and "region_ok addr (unat nblks) blksize" and "0 < nblks"
  shows "\<exists>t. OSMemCreate addr nblks blksize s = Some ((OS_ERR_MEM_NONE, Some p), t)
    \<and> pool_rel p (blocks addr (unat nblks) blksize) t (blocks addr (unat nblks) blksize) \<and> OSMemFreePart t = q
    \<and> (\<forall>a. a \<notin> links (blocks addr (unat nblks) blksize) \<longrightarrow> memory t a = memory s a)"
proof -
  let ?n = "unat (nblks - 1)" and ?bs = "blocks addr (unat nblks) blksize"
  have n: "unat nblks = Suc ?n" using assms(5) unat_dec [OF assms(5)] by (simp add: unat_gt_0 word_greater_zero_iff)
  obtain m l where m: "link_blocks ?n blksize addr (memory s) = (m, l)" by fastforce
  have a: "apart ?bs" by (rule blocks_apart [OF assms(4)])
  then have c: "chain_in (store_ptr m l 0) addr ?bs" "\<And>a. a \<notin> links ?bs \<Longrightarrow> store_ptr m l 0 a = memory s a"
    using link_blocks_chain [OF _ m] n by auto
  let ?t = "s\<lparr>OSMemTbl := (OSMemTbl s)[p := \<lparr>OSMemAddr = addr, OSMemFreeList = FirstBlock addr, OSMemBlkSize = blksize,
      OSMemNBlks = nblks, OSMemNFree = nblks\<rparr>], OSMemFreePart := q, memory := store_ptr m l 0\<rparr>"
  have "OSMemCreate addr nblks blksize s = Some ((OS_ERR_MEM_NONE, Some p), ?t)"
    using assms(1-3) m by (simp add: OSMemCreate_def rd_in)
  moreover have "pool_rel p ?bs ?t ?bs"
    using a c(1) assms(2) by (simp add: pool_rel_def blocks_def apart_def)
  ultimately show ?thesis using c(2) by (intro exI [of _ ?t]) simp
qed

section \<open>Properties\<close>

text \<open>C7: A partition created over a region of memory is a stack of its blocks. For every sequence of requests,
  returns of held blocks and writes to bytes that are not links of free blocks, the results are those of a list:
  the block on top, no block when the list is empty, and a refusal when a block is returned though all are free;
  and the memory around the links is what the users wrote.\<close>

theorem os_mem_refines_stack:
  assumes "OSMemFreePart s = Some p" and "p < length (OSMemTbl s)" and "OSMemFreeList (OSMemTbl s ! p) = NextPart q"
    and "region_ok addr (unat nblks) blksize" and "0 < nblks" and "bs = blocks addr (unat nblks) blksize"
    and "allowed_trace (pool_step bs) (pool_ok bs) ops bs"
  shows "\<exists>t u. OSMemCreate addr nblks blksize s = Some ((OS_ERR_MEM_NONE, Some p), t)
    \<and> trace (mem_step p) ops t = Some (fst (abs_trace (pool_step bs) ops bs), u)
    \<and> pool_rel p bs u (snd (abs_trace (pool_step bs) ops bs))"
proof -
  obtain t where t: "OSMemCreate addr nblks blksize s = Some ((OS_ERR_MEM_NONE, Some p), t)" "pool_rel p bs t bs"
    using OSMemCreate_pool [OF assms(1-5)] assms(6) by blast
  from pool.trace_sim [OF t(2) assms(7)] t(1) show ?thesis by blast
qed

definition ex_mem :: Mem where
  "ex_mem = OS_MemInit \<lparr>OSMemTbl = [], OSMemFreePart = None, memory = (\<lambda>a. 0)\<rparr>"

theorem os_mem_refines_stack_witness:
  "\<exists>t u. OSMemCreate 0x10000000 2 8 ex_mem = Some ((OS_ERR_MEM_NONE, Some 0), t)
    \<and> trace (mem_step 0) [Put 7, Get, Write 0x10000000 7, Get, Get, Put 0x10000000, Get] t
        = Some ([Returned OS_ERR_MEM_FULL, Block 0x10000000, Written, Block 0x10000008, NoBlock, Returned OS_ERR_MEM_NONE, Block 0x10000000], u)"
proof -
  have b: "blocks 0x10000000 (unat (2 :: u32)) 8 = [0x10000000, 0x10000008]" by (simp add: blocks_def upt_rec)
  have ops: "allowed_trace (pool_step [0x10000000, 0x10000008]) (pool_ok [0x10000000, 0x10000008])
      [Put 7, Get, Write 0x10000000 7, Get, Get, Put 0x10000000, Get] [0x10000000, 0x10000008]"
    by (simp add: links_def link_at_def)
  have p: "OSMemFreePart ex_mem = Some 0" "0 < length (OSMemTbl ex_mem)" "OSMemFreeList (OSMemTbl ex_mem ! 0) = NextPart (Some 1)"
    by (simp_all add: ex_mem_def OS_MemInit_def OS_MAX_MEM_PART_def)
  have r: "region_ok 0x10000000 (unat (2 :: u32)) 8" "0 < (2 :: u32)" by (simp_all add: region_ok_def)
  from os_mem_refines_stack [OF p r b [symmetric] ops] show ?thesis by auto
qed

end
