(* ===== verification/Os_Time.thy ===== *)
theory Os_Time
  imports Os_Ipc
begin

text \<open>
  Delays, \<open>uCOS-II/Source/os_time.c\<close>, at 1000 ticks per second and without argument checks,
  and what the clock tick of \<open>os_core.c\<close> does to every task. A reserved entry of
  \<open>OSTCBPrioTbl\<close> (a priority set aside for a mutex) does not occur.
\<close>

section \<open>Delays\<close>

datatype time_err =
    TIME_NONE | OS_ERR_TIME_DLY_ISR | OS_ERR_SCHED_LOCKED | OS_ERR_PRIO_INVALID
  | OS_ERR_TASK_NOT_EXIST | OS_ERR_TIME_NOT_DLY

definition OS_LOWEST_PRIO :: u8 where "OS_LOWEST_PRIO = 63"
definition OS_TICKS_PER_SEC :: u32 where "OS_TICKS_PER_SEC = 1000"

definition OSTimeDly :: "u32 \<Rightarrow> OS \<Rightarrow> OS option" where
  "OSTimeDly ticks s =
     (if OSIntNesting s > 0 then Some s
      else if OSLockNesting s > 0 then Some s
      else if ticks > 0 then do {
        t \<leftarrow> OSTCBPrioTbl s (OSPrioCur s);
        (rg, rt) \<leftarrow> bits_clear t (OSRdyGrp s, OSRdyTbl s);
        OS_Sched (s\<lparr>OSTCBPrioTbl := (OSTCBPrioTbl s)(OSPrioCur s \<mapsto> t\<lparr>OSTCBDly := ticks\<rparr>),
                    OSRdyGrp := rg, OSRdyTbl := rt\<rparr>) }
      else Some s)"

text \<open>The ticks of a time, as the code computes them.\<close>

definition hmsm_ticks :: "u8 \<Rightarrow> u8 \<Rightarrow> u8 \<Rightarrow> u16 \<Rightarrow> u32" where
  "hmsm_ticks hours minutes seconds ms =
     (ucast hours * 3600 + ucast minutes * 60 + ucast seconds) * OS_TICKS_PER_SEC
     + OS_TICKS_PER_SEC * (ucast ms + 500 div OS_TICKS_PER_SEC) div 1000"

definition OSTimeDlyHMSM :: "u8 \<Rightarrow> u8 \<Rightarrow> u8 \<Rightarrow> u16 \<Rightarrow> OS \<Rightarrow> (time_err \<times> OS) option" where
  "OSTimeDlyHMSM hours minutes seconds ms s =
     (if OSIntNesting s > 0 then Some (OS_ERR_TIME_DLY_ISR, s)
      else if OSLockNesting s > 0 then Some (OS_ERR_SCHED_LOCKED, s)
      else map_option (Pair TIME_NONE) (OSTimeDly (hmsm_ticks hours minutes seconds ms) s))"

definition OSTimeDlyResume :: "u8 \<Rightarrow> OS \<Rightarrow> (time_err \<times> OS) option" where
  "OSTimeDlyResume prio s =
     (if prio \<ge> OS_LOWEST_PRIO then Some (OS_ERR_PRIO_INVALID, s)
      else case OSTCBPrioTbl s prio of
        None \<Rightarrow> Some (OS_ERR_TASK_NOT_EXIST, s)
      | Some t \<Rightarrow>
          if OSTCBDly t = 0 then Some (OS_ERR_TIME_NOT_DLY, s)
          else
            let t1 = t\<lparr>OSTCBDly := 0\<rparr>;
                t2 = (if OSTCBStat t1 AND OS_STAT_PEND_ANY \<noteq> OS_STAT_RDY
                      then t1\<lparr>OSTCBStat := OSTCBStat t1 AND NOT OS_STAT_PEND_ANY,
                              OSTCBStatPend := OS_STAT_PEND_TO\<rparr>
                      else t1\<lparr>OSTCBStatPend := OS_STAT_PEND_OK\<rparr>);
                s1 = s\<lparr>OSTCBPrioTbl := (OSTCBPrioTbl s)(prio \<mapsto> t2)\<rparr>
            in if OSTCBStat t2 AND OS_STAT_SUSPEND = OS_STAT_RDY
               then do {
                 (rg, rt) \<leftarrow> bits_set t2 (OSRdyGrp s1, OSRdyTbl s1);
                 s2 \<leftarrow> OS_Sched (s1\<lparr>OSRdyGrp := rg, OSRdyTbl := rt\<rparr>);
                 Some (TIME_NONE, s2) }
               else Some (TIME_NONE, s1))"

definition OSTimeGet :: "OS \<Rightarrow> u32" where
  "OSTimeGet s = OSTime s"

definition OSTimeSet :: "u32 \<Rightarrow> OS \<Rightarrow> OS" where
  "OSTimeSet ticks s = s\<lparr>OSTime := ticks\<rparr>"

section \<open>What a tick does to a task\<close>

text \<open>A block whose delay has run out, and whether its task then becomes ready.\<close>

definition timed_out :: "OS_TCB \<Rightarrow> OS_TCB" where
  "timed_out t =
     (if OSTCBStat t AND OS_STAT_PEND_ANY \<noteq> OS_STAT_RDY
      then t\<lparr>OSTCBDly := 0, OSTCBStat := OSTCBStat t AND NOT OS_STAT_PEND_ANY, OSTCBStatPend := OS_STAT_PEND_TO\<rparr>
      else t\<lparr>OSTCBDly := 0, OSTCBStatPend := OS_STAT_PEND_OK\<rparr>)"

definition suspended :: "OS_TCB \<Rightarrow> bool" where
  "suspended t \<longleftrightarrow> OSTCBStat t AND OS_STAT_SUSPEND \<noteq> OS_STAT_RDY"

definition ticked :: "OS_TCB \<Rightarrow> OS_TCB" where
  "ticked t = (if OSTCBDly t = 0 then t else if OSTCBDly t = 1 then timed_out t
               else t\<lparr>OSTCBDly := OSTCBDly t - 1\<rparr>)"

definition wakes :: "OS_TCB \<Rightarrow> bool" where
  "wakes t \<longleftrightarrow> OSTCBDly t = 1 \<and> \<not> suspended t"

text \<open>Exchanging a block for one of the same task and a ready list for a larger one.\<close>

abbreviation with_task :: "u8 \<Rightarrow> OS_TCB \<Rightarrow> bits \<Rightarrow> OS \<Rightarrow> OS" where
  "with_task p t r s \<equiv> s\<lparr>OSTCBPrioTbl := (OSTCBPrioTbl s)(p \<mapsto> t), OSRdyGrp := fst r, OSRdyTbl := snd r\<rparr>"

lemma with_task_ok:
  assumes ok: "os_ok s" and t: "OSTCBPrioTbl s p = Some t"
    and u: "OSTCBY u = OSTCBY t" "OSTCBBitX u = OSTCBBitX t" "OSTCBBitY u = OSTCBBitY t"
      "OSTCBEventMultiPtr u = OSTCBEventMultiPtr t"
    and r: "bits_ok r" "63 \<in> prios r" "prios r \<subseteq> insert (unat p) (ready s)"
  shows "os_ok (with_task p u r s)"
proof -
  have "tcb_at (unat p) u" using os_okD(4) [OF ok t] u(1-3) tcb_at_cong by metis
  moreover have "OSTCBEventMultiPtr u = None" using os_okD(5) [OF ok t] u(4) by simp
  moreover have "\<forall>e \<in> set (OSEvents s). event_ok (OSTCBPrioTbl s) e" using os_okD(7) [OF ok] by simp
  ultimately have "os_ok (s\<lparr>OSTCBPrioTbl := (OSTCBPrioTbl s)(p \<mapsto> u), OSEvents := OSEvents s,
                  OSRdyGrp := fst r, OSRdyTbl := snd r\<rparr>)"
    by (intro os_ok_update [OF ok t] r)
  then show ?thesis by simp
qed

lemma timed_out_simps [simp]:
  "OSTCBY (timed_out t) = OSTCBY t" "OSTCBBitX (timed_out t) = OSTCBBitX t"
  "OSTCBBitY (timed_out t) = OSTCBBitY t" "OSTCBEventMultiPtr (timed_out t) = OSTCBEventMultiPtr t"
  "OSTCBDly (timed_out t) = 0" "OSTCBEventPtr (timed_out t) = OSTCBEventPtr t"
  "OSTCBMsg (timed_out t) = OSTCBMsg t"
  by (simp_all add: timed_out_def)

lemma bits_set_cong:
  "OSTCBY u = OSTCBY t \<Longrightarrow> OSTCBBitX u = OSTCBBitX t \<Longrightarrow> OSTCBBitY u = OSTCBBitY t \<Longrightarrow> bits_set u b = bits_set t b"
  by (simp add: bits_set_def)

lemma stat_suspend: "(x AND NOT OS_STAT_PEND_ANY) AND OS_STAT_SUSPEND = x AND OS_STAT_SUSPEND"
proof -
  have "NOT OS_STAT_PEND_ANY AND OS_STAT_SUSPEND = OS_STAT_SUSPEND"
    by (simp add: os_constants)
  then show ?thesis by (simp add: and.assoc)
qed

lemma timed_out_suspended [simp]: "suspended (timed_out t) = suspended t"
  by (simp add: suspended_def timed_out_def stat_suspend)

lemma tick_task_ok:
  assumes ok: "os_ok s" and t: "OSTCBPrioTbl s p = Some t"
  shows "\<exists>r. tick_task p s = Some (with_task p (ticked t) r s) \<and> os_ok (with_task p (ticked t) r s)
     \<and> prios r = (if wakes t then insert (unat p) (ready s) else ready s)"
proof -
  have at: "tcb_at (unat p) (timed_out t)" using os_okD(4) [OF ok t] by (simp add: tcb_at_def)
  let ?r = "(OSRdyGrp s, OSRdyTbl s)"
  obtain r where r: "bits_set (timed_out t) ?r = Some r" "bits_ok r" "prios r = insert (unat p) (ready s)"
    using prio.ins [OF at os_okD(1) [OF ok]] by blast
  have same: "os_ok (with_task p u ?r s)"
    if "OSTCBY u = OSTCBY t" "OSTCBBitX u = OSTCBBitX t" "OSTCBBitY u = OSTCBBitY t"
      "OSTCBEventMultiPtr u = OSTCBEventMultiPtr t" for u
    using that os_okD(1,2) [OF ok] by (intro with_task_ok [OF ok t]) auto
  have new: "os_ok (with_task p (timed_out t) r s)"
    using r os_okD(2) [OF ok] by (intro with_task_ok [OF ok t]) auto
  have st: "(OSTCBPrioTbl s)(p \<mapsto> t) = OSTCBPrioTbl s" using t by (simp add: fun_upd_idem)
  consider "OSTCBDly t = 0" | "OSTCBDly t = 1" "suspended t" | "OSTCBDly t = 1" "\<not> suspended t"
    | "OSTCBDly t \<noteq> 0" "OSTCBDly t \<noteq> 1" by blast
  then show ?thesis
  proof cases
    case 1
    then have "tick_task p s = Some (with_task p t ?r s)" using t st by (simp add: tick_task_def)
    then show ?thesis using 1 same [of t] by (intro exI [of _ ?r]) (simp add: ticked_def wakes_def)
  next
    case 2
    then have "tick_task p s = Some (with_task p (timed_out t) ?r s)"
      using t by (simp add: tick_task_def Let_def suspended_def timed_out_def stat_suspend)
    then show ?thesis using 2 same [of "timed_out t"]
      by (intro exI [of _ ?r]) (simp add: ticked_def wakes_def)
  next
    case 3
    then have "tick_task p s = Some (with_task p (timed_out t) r s)"
      using t r(1) by (simp add: tick_task_def Let_def suspended_def timed_out_def stat_suspend case_prod_beta split: if_splits)
    then show ?thesis using 3 new r(3)
      by (intro exI [of _ r]) (simp add: ticked_def wakes_def)
  next
    case 4
    then have "OSTCBDly t - 1 \<noteq> 0" by (metis eq_iff_diff_eq_0)
    then have "tick_task p s = Some (with_task p (t\<lparr>OSTCBDly := OSTCBDly t - 1\<rparr>) ?r s)"
      using t 4 by (simp add: tick_task_def Let_def)
    then show ?thesis using 4 same [of "t\<lparr>OSTCBDly := OSTCBDly t - 1\<rparr>"]
      by (intro exI [of _ ?r]) (simp add: ticked_def wakes_def)
  qed
qed

section \<open>The tick as a whole\<close>

text \<open>The task list: every task; the idle task was created first and ends the list.\<close>

definition task_list :: "OS \<Rightarrow> u8 list \<Rightarrow> bool" where
  "task_list s ps \<longleftrightarrow> OSTCBList s = ps @ [OS_TASK_IDLE_PRIO] \<and> distinct ps
     \<and> OS_TASK_IDLE_PRIO \<notin> set ps \<and> dom (OSTCBPrioTbl s) = insert OS_TASK_IDLE_PRIO (set ps)"

text \<open>What the loop leaves alone: everything but the blocks and the ready list.\<close>

definition same_rest :: "OS \<Rightarrow> OS \<Rightarrow> bool" where
  "same_rest s s' \<longleftrightarrow> (\<exists>f g tb. s' = s\<lparr>OSTCBPrioTbl := f, OSRdyGrp := g, OSRdyTbl := tb\<rparr>)"

lemma same_rest_refl [simp]: "same_rest s s"
  unfolding same_rest_def
  by (intro exI [of _ "OSTCBPrioTbl s"] exI [of _ "OSRdyGrp s"] exI [of _ "OSRdyTbl s"]) simp

lemma same_rest_trans: "same_rest s t \<Longrightarrow> same_rest t u \<Longrightarrow> same_rest s u"
  unfolding same_rest_def by (elim exE, intro exI) simp

lemma same_rest_with_task [simp]: "same_rest s (with_task p t r s)"
  unfolding same_rest_def by (intro exI) (rule refl)

lemma same_restD:
  assumes "same_rest s s'"
  shows "OSEvents s' = OSEvents s" "OSQTbl s' = OSQTbl s" "OSPrioCur s' = OSPrioCur s"
    "OSIntNesting s' = OSIntNesting s" "OSLockNesting s' = OSLockNesting s" "OSTCBList s' = OSTCBList s"
    "OSRunning s' = OSRunning s" "OSTime s' = OSTime s" "OSTickStepState s' = OSTickStepState s"
    "OSTmrCtr s' = OSTmrCtr s" "OSTmrSemSignal s' = OSTmrSemSignal s" "switchPending s' = switchPending s"
    "OSPrioHighRdy s' = OSPrioHighRdy s" "OSCtxSwCtr s' = OSCtxSwCtr s"
    "OSEventFreeList s' = OSEventFreeList s" "OSQFreeList s' = OSQFreeList s"
  using assms by (auto simp: same_rest_def)

lemma tick_list_ok:
  assumes "os_ok s" and "distinct ps" and "OS_TASK_IDLE_PRIO \<notin> set ps"
    and "\<forall>p \<in> set ps. OSTCBPrioTbl s p \<noteq> None"
  shows "\<exists>s'. tick_list (ps @ [OS_TASK_IDLE_PRIO]) s = Some s' \<and> os_ok s' \<and> same_rest s s'
     \<and> OSTCBPrioTbl s' = (\<lambda>p. if p \<in> set ps then map_option ticked (OSTCBPrioTbl s p) else OSTCBPrioTbl s p)
     \<and> ready s' = ready s \<union> {unat p | p t. p \<in> set ps \<and> OSTCBPrioTbl s p = Some t \<and> wakes t}"
  using assms
proof (induction ps arbitrary: s)
  case Nil
  then show ?case by simp
next
  case (Cons p ps)
  obtain t where t: "OSTCBPrioTbl s p = Some t" using Cons.prems(4) by auto
  obtain r where r: "tick_task p s = Some (with_task p (ticked t) r s)" "os_ok (with_task p (ticked t) r s)"
      "prios r = (if wakes t then insert (unat p) (ready s) else ready s)"
    using tick_task_ok [OF Cons.prems(1) t] by blast
  let ?s = "with_task p (ticked t) r s"
  have pn: "p \<noteq> OS_TASK_IDLE_PRIO" "p \<notin> set ps" using Cons.prems(2,3) by auto
  have "\<forall>q \<in> set ps. OSTCBPrioTbl ?s q \<noteq> None" using Cons.prems(4) by simp
  then obtain s' where s': "tick_list (ps @ [OS_TASK_IDLE_PRIO]) ?s = Some s'" "os_ok s'" "same_rest ?s s'"
      "OSTCBPrioTbl s' = (\<lambda>q. if q \<in> set ps then map_option ticked (OSTCBPrioTbl ?s q) else OSTCBPrioTbl ?s q)"
      "ready s' = ready ?s \<union> {unat q | q t. q \<in> set ps \<and> OSTCBPrioTbl ?s q = Some t \<and> wakes t}"
    using Cons.IH [OF r(2)] Cons.prems(2,3) by auto
  have rest: "same_rest s s'" using s'(3) same_rest_with_task same_rest_trans by blast
  have tbl: "OSTCBPrioTbl s' = (\<lambda>q. if q \<in> set (p # ps) then map_option ticked (OSTCBPrioTbl s q) else OSTCBPrioTbl s q)"
    using s'(4) t pn(2) by (auto simp: fun_eq_iff)
  have "{unat q | q t'. q \<in> set ps \<and> OSTCBPrioTbl ?s q = Some t' \<and> wakes t'}
      = {unat q | q t'. q \<in> set ps \<and> OSTCBPrioTbl s q = Some t' \<and> wakes t'}"
    using pn(2) by (auto split: if_splits)
  moreover have "{unat q | q t'. q \<in> set (p # ps) \<and> OSTCBPrioTbl s q = Some t' \<and> wakes t'}
      = (if wakes t then {unat p} else {}) \<union> {unat q | q t'. q \<in> set ps \<and> OSTCBPrioTbl s q = Some t' \<and> wakes t'}"
    using t by auto
  ultimately have "ready s' = ready s \<union> {unat q | q t'. q \<in> set (p # ps) \<and> OSTCBPrioTbl s q = Some t' \<and> wakes t'}"
    using s'(5) r(3) by simp
  moreover have "tick_list ((p # ps) @ [OS_TASK_IDLE_PRIO]) s = Some s'" using r(1) s'(1) pn(1) by simp
  ultimately show ?case using rest tbl s'(2) by blast
qed

end
