(* ===== verification/Os_Services.thy ===== *)
theory Os_Services
  imports Os_Ipc
begin

text \<open>
  The remaining services for semaphores and queues of \<open>os_sem.c\<close> and \<open>os_q.c\<close>: deleting, aborting
  the wait of other tasks, posting with options, setting and querying. Their common parts, which
  the source repeats for every kind of event, are one definition each, with the type of the event
  and the bit of the waiting task's status as arguments.
\<close>

definition OS_PEND_OPT_BROADCAST :: u8 where "OS_PEND_OPT_BROADCAST = 1"
definition OS_POST_OPT_BROADCAST :: u8 where "OS_POST_OPT_BROADCAST = 1"
definition OS_POST_OPT_FRONT :: u8 where "OS_POST_OPT_FRONT = 2"
definition OS_POST_OPT_NO_SCHED :: u8 where "OS_POST_OPT_NO_SCHED = 4"

lemmas opt_constants =
  OS_DEL_NO_PEND_def OS_DEL_ALWAYS_def OS_PEND_OPT_BROADCAST_def OS_POST_OPT_BROADCAST_def
  OS_POST_OPT_FRONT_def OS_POST_OPT_NO_SCHED_def

section \<open>Readying every waiting task\<close>

text \<open>The loop while the event's group byte is not zero; \<open>n\<close> is the counter of the readied tasks.\<close>

partial_function (option) ready_all ::
    "nat \<Rightarrow> msg \<Rightarrow> u8 \<Rightarrow> u8 \<Rightarrow> u8 \<Rightarrow> OS \<Rightarrow> (u8 \<times> OS) option" where
  "ready_all ev m msk st n s = do {
     e \<leftarrow> rd (OSEvents s) ev;
     if OSEventGrp e \<noteq> 0 then do {
       r \<leftarrow> OS_EventTaskRdy ev m msk st s;
       ready_all ev m msk st (n + 1) (snd r) }
     else Some (n, s) }"

section \<open>Deleting\<close>

text \<open>Putting an event back on the free list.\<close>

definition free_event :: "nat \<Rightarrow> OS \<Rightarrow> OS option" where
  "free_event ev s = do {
     e \<leftarrow> rd (OSEvents s) ev;
     Some (s\<lparr>OSEvents := (OSEvents s)[ev := e\<lparr>OSEventType := OS_EVENT_TYPE_UNUSED,
               OSEventPtr := (case OSEventFreeList s of None \<Rightarrow> Null | Some n \<Rightarrow> FreeEvent n),
               OSEventCnt := 0\<rparr>],
             OSEventFreeList := Some ev\<rparr>) }"

text \<open>
  The result is the event pointer the caller keeps, \<open>None\<close> after the deletion; \<open>release\<close> gives back
  what belongs to the event.
\<close>

definition event_del :: "u8 \<Rightarrow> u8 \<Rightarrow> (nat \<Rightarrow> OS \<Rightarrow> OS option) \<Rightarrow> nat \<Rightarrow> u8 \<Rightarrow> OS
    \<Rightarrow> (nat option \<times> os_err \<times> OS) option" where
  "event_del ty msk release ev opt s = do {
     e \<leftarrow> rd (OSEvents s) ev;
     if OSEventType e \<noteq> ty then Some (Some ev, OS_ERR_EVENT_TYPE, s)
     else if OSIntNesting s > 0 then Some (Some ev, OS_ERR_DEL_ISR, s)
     else let tasks_waiting = (OSEventGrp e \<noteq> 0) in
       if opt = OS_DEL_NO_PEND then
         if \<not> tasks_waiting then do {
           s \<leftarrow> release ev s;
           s \<leftarrow> free_event ev s;
           Some (None, OS_ERR_NONE, s) }
         else Some (Some ev, OS_ERR_TASK_WAITING, s)
       else if opt = OS_DEL_ALWAYS then do {
         (_, s) \<leftarrow> ready_all ev None msk OS_STAT_PEND_ABORT 0 s;
         s \<leftarrow> release ev s;
         s \<leftarrow> free_event ev s;
         s \<leftarrow> (if tasks_waiting then OS_Sched s else Some s);
         Some (None, OS_ERR_NONE, s) }
       else Some (Some ev, OS_ERR_INVALID_OPT, s) }"

definition free_queue :: "nat \<Rightarrow> OS \<Rightarrow> OS option" where
  "free_queue ev s = do {
     (i, q) \<leftarrow> the_q ev s;
     Some (s\<lparr>OSQTbl := (OSQTbl s)[i := q\<lparr>OSQPtr := OSQFreeList s\<rparr>], OSQFreeList := Some i\<rparr>) }"

definition OSSemDel :: "nat \<Rightarrow> u8 \<Rightarrow> OS \<Rightarrow> (nat option \<times> os_err \<times> OS) option" where
  "OSSemDel = event_del OS_EVENT_TYPE_SEM OS_STAT_SEM (\<lambda>_. Some)"

definition OSQDel :: "nat \<Rightarrow> u8 \<Rightarrow> OS \<Rightarrow> (nat option \<times> os_err \<times> OS) option" where
  "OSQDel = event_del OS_EVENT_TYPE_Q OS_STAT_Q free_queue"

section \<open>Aborting the wait of other tasks\<close>

definition event_abort :: "u8 \<Rightarrow> u8 \<Rightarrow> nat \<Rightarrow> u8 \<Rightarrow> OS \<Rightarrow> (u8 \<times> os_err \<times> OS) option" where
  "event_abort ty msk ev opt s = do {
     e \<leftarrow> rd (OSEvents s) ev;
     if OSEventType e \<noteq> ty then Some (0, OS_ERR_EVENT_TYPE, s)
     else if OSEventGrp e \<noteq> 0 then do {
       (nbr_tasks, s) \<leftarrow>
         (if opt = OS_PEND_OPT_BROADCAST then ready_all ev None msk OS_STAT_PEND_ABORT 0 s
          else map_option (\<lambda>r. (0 + 1, snd r)) (OS_EventTaskRdy ev None msk OS_STAT_PEND_ABORT s));
       s \<leftarrow> OS_Sched s;
       Some (nbr_tasks, OS_ERR_PEND_ABORT, s) }
     else Some (0, OS_ERR_NONE, s) }"

definition OSSemPendAbort :: "nat \<Rightarrow> u8 \<Rightarrow> OS \<Rightarrow> (u8 \<times> os_err \<times> OS) option" where
  "OSSemPendAbort = event_abort OS_EVENT_TYPE_SEM OS_STAT_SEM"

definition OSQPendAbort :: "nat \<Rightarrow> u8 \<Rightarrow> OS \<Rightarrow> (u8 \<times> os_err \<times> OS) option" where
  "OSQPendAbort = event_abort OS_EVENT_TYPE_Q OS_STAT_Q"

section \<open>Posting with options, setting\<close>

text \<open>Handing a message to one waiting task or to all of them, with or without the scheduler.\<close>

definition post_waiting :: "u8 \<Rightarrow> nat \<Rightarrow> msg \<Rightarrow> u8 \<Rightarrow> OS \<Rightarrow> OS option" where
  "post_waiting msk ev m opt s = do {
     (_, s) \<leftarrow> (if opt AND OS_POST_OPT_BROADCAST \<noteq> 0
                then ready_all ev m msk OS_STAT_PEND_OK 0 s
                else OS_EventTaskRdy ev m msk OS_STAT_PEND_OK s);
     if opt AND OS_POST_OPT_NO_SCHED = 0 then OS_Sched s else Some s }"

definition OSQPostOpt :: "nat \<Rightarrow> msg \<Rightarrow> u8 \<Rightarrow> OS \<Rightarrow> (os_err \<times> OS) option" where
  "OSQPostOpt ev m opt s = do {
     e \<leftarrow> rd (OSEvents s) ev;
     if OSEventType e \<noteq> OS_EVENT_TYPE_Q then Some (OS_ERR_EVENT_TYPE, s)
     else if OSEventGrp e \<noteq> 0 then map_option (Pair OS_ERR_NONE) (post_waiting OS_STAT_Q ev m opt s)
     else do {
       (i, q) \<leftarrow> the_q ev s;
       if q_full q then Some (OS_ERR_Q_FULL, s)
       else do {
         q' \<leftarrow> (if opt AND OS_POST_OPT_FRONT \<noteq> 0 then q_put_front m q else q_put m q);
         Some (OS_ERR_NONE, s\<lparr>OSQTbl := (OSQTbl s)[i := q']\<rparr>) } } }"

definition OSSemSet :: "nat \<Rightarrow> u16 \<Rightarrow> OS \<Rightarrow> (os_err \<times> OS) option" where
  "OSSemSet ev cnt s = do {
     e \<leftarrow> rd (OSEvents s) ev;
     if OSEventType e \<noteq> OS_EVENT_TYPE_SEM then Some (OS_ERR_EVENT_TYPE, s)
     else let s' = s\<lparr>OSEvents := (OSEvents s)[ev := e\<lparr>OSEventCnt := cnt\<rparr>]\<rparr> in
       if OSEventCnt e > 0 then Some (OS_ERR_NONE, s')
       else if OSEventGrp e = 0 then Some (OS_ERR_NONE, s')
       else Some (OS_ERR_TASK_WAITING, s) }"

lemma post_waiting_plain:
  assumes "opt AND OS_POST_OPT_BROADCAST = 0" and "opt AND OS_POST_OPT_NO_SCHED = 0"
  shows "map_option (Pair err) (post_waiting msk ev m opt s) = do {
     (_, s) \<leftarrow> OS_EventTaskRdy ev m msk OS_STAT_PEND_OK s;
     s \<leftarrow> OS_Sched s;
     Some (err, s) }"
  using assms
  by (cases "OS_EventTaskRdy ev m msk OS_STAT_PEND_OK s")
    (auto simp: post_waiting_def map_conv_bind_option comp_def)

section \<open>Querying\<close>

record OS_SEM_DATA =
  sd_OSCnt :: u16
  sd_OSEventTbl :: "u8 list"
  sd_OSEventGrp :: u8

record OS_Q_DATA =
  qd_OSMsg :: msg
  qd_OSNMsgs :: u16
  qd_OSQSize :: u16
  qd_OSEventTbl :: "u8 list"
  qd_OSEventGrp :: u8

text \<open>The loop that copies the eight rows of the wait list.\<close>

fun copy_rows :: "nat \<Rightarrow> u8 list \<Rightarrow> u8 list option" where
  "copy_rows 0 src = Some []"
| "copy_rows (Suc n) src = do {
     row \<leftarrow> rd src 0;
     rows \<leftarrow> copy_rows n (tl src);
     Some (row # rows) }"

definition OSSemQuery :: "nat \<Rightarrow> OS_SEM_DATA \<Rightarrow> OS \<Rightarrow> (os_err \<times> OS_SEM_DATA) option" where
  "OSSemQuery ev d s = do {
     e \<leftarrow> rd (OSEvents s) ev;
     if OSEventType e \<noteq> OS_EVENT_TYPE_SEM then Some (OS_ERR_EVENT_TYPE, d)
     else do {
       rows \<leftarrow> copy_rows 8 (OSEventTbl e);
       Some (OS_ERR_NONE, d\<lparr>sd_OSEventGrp := OSEventGrp e, sd_OSEventTbl := rows,
         sd_OSCnt := OSEventCnt e\<rparr>) } }"

definition OSQQuery :: "nat \<Rightarrow> OS_Q_DATA \<Rightarrow> OS \<Rightarrow> (os_err \<times> OS_Q_DATA) option" where
  "OSQQuery ev d s = do {
     e \<leftarrow> rd (OSEvents s) ev;
     if OSEventType e \<noteq> OS_EVENT_TYPE_Q then Some (OS_ERR_EVENT_TYPE, d)
     else do {
       rows \<leftarrow> copy_rows 8 (OSEventTbl e);
       (_, q) \<leftarrow> the_q ev s;
       m \<leftarrow> (if OSQEntries q > 0 then rd (OSQStart q) (OSQOut q) else Some None);
       Some (OS_ERR_NONE, d\<lparr>qd_OSEventGrp := OSEventGrp e, qd_OSEventTbl := rows, qd_OSMsg := m,
         qd_OSNMsgs := OSQEntries q, qd_OSQSize := OSQSize q\<rparr>) } }"

section \<open>The loop readies exactly the waiting tasks\<close>

text \<open>What readying makes of a task control block.\<close>

definition awoken :: "msg \<Rightarrow> u8 \<Rightarrow> u8 \<Rightarrow> OS_TCB \<Rightarrow> OS_TCB \<Rightarrow> bool" where
  "awoken m msk st t u \<longleftrightarrow> OSTCBMsg u = m \<and> OSTCBStatPend u = st \<and> OSTCBDly u = 0
     \<and> OSTCBStat u = OSTCBStat t AND NOT msk"

text \<open>The tasks of \<open>W\<close> that are not suspended besides.\<close>

definition runnable :: "u8 \<Rightarrow> OS \<Rightarrow> nat set \<Rightarrow> nat set" where
  "runnable msk s W = {p \<in> W. \<forall>t. OSTCBPrioTbl s (of_nat p) = Some t \<longrightarrow>
     (OSTCBStat t AND NOT msk) AND OS_STAT_SUSPEND = 0}"

definition all_woken :: "msg \<Rightarrow> u8 \<Rightarrow> u8 \<Rightarrow> nat set \<Rightarrow> OS \<Rightarrow> OS \<Rightarrow> bool" where
  "all_woken m msk st W s s' \<longleftrightarrow>
     (\<forall>p \<in> W. \<exists>t u. OSTCBPrioTbl s (of_nat p) = Some t \<and> OSTCBPrioTbl s' (of_nat p) = Some u \<and> awoken m msk st t u)
     \<and> (\<forall>p. unat p \<notin> W \<longrightarrow> OSTCBPrioTbl s' p = OSTCBPrioTbl s p)"

text \<open>What the loop leaves alone.\<close>

definition rest_same :: "nat \<Rightarrow> OS \<Rightarrow> OS \<Rightarrow> bool" where
  "rest_same ev s s' \<longleftrightarrow> length (OSEvents s') = length (OSEvents s)
     \<and> (\<forall>i. i \<noteq> ev \<longrightarrow> OSEvents s' ! i = OSEvents s ! i)
     \<and> OSEventType (OSEvents s' ! ev) = OSEventType (OSEvents s ! ev)
     \<and> OSEventPtr (OSEvents s' ! ev) = OSEventPtr (OSEvents s ! ev)
     \<and> s' = s\<lparr>OSTCBPrioTbl := OSTCBPrioTbl s', OSEvents := OSEvents s', OSRdyGrp := OSRdyGrp s',
              OSRdyTbl := OSRdyTbl s'\<rparr>"

lemma rest_same_refl: "rest_same ev s s"
  by (simp add: rest_same_def)

lemma rest_same_trans: "rest_same ev s t \<Longrightarrow> rest_same ev t u \<Longrightarrow> rest_same ev s u"
  unfolding rest_same_def by (cases s; cases t; cases u) simp

lemma rest_sameD:
  assumes "rest_same ev s s'"
  shows "length (OSEvents s') = length (OSEvents s)" "i \<noteq> ev \<Longrightarrow> OSEvents s' ! i = OSEvents s ! i"
    "OSEventType (OSEvents s' ! ev) = OSEventType (OSEvents s ! ev)"
    "OSEventPtr (OSEvents s' ! ev) = OSEventPtr (OSEvents s ! ev)"
    "OSPrioCur s' = OSPrioCur s" "OSIntNesting s' = OSIntNesting s" "OSLockNesting s' = OSLockNesting s"
    "switchPending s' = switchPending s" "OSQTbl s' = OSQTbl s" "OSQFreeList s' = OSQFreeList s"
    "OSEventFreeList s' = OSEventFreeList s" "OSRunning s' = OSRunning s" "OSTCBList s' = OSTCBList s"
    "OSTmrSemSignal s' = OSTmrSemSignal s" "OSTickStepState s' = OSTickStepState s"
  using assms unfolding rest_same_def by (cases s; cases s'; simp)+

lemma all_woken_empty: "all_woken m msk st {} s s' \<longleftrightarrow> OSTCBPrioTbl s' = OSTCBPrioTbl s"
  by (auto simp: all_woken_def)

lemma OS_EventTaskRdy_rest:
  "OS_EventTaskRdy ev m msk st s = Some (p, s') \<Longrightarrow>
     s' = s\<lparr>OSTCBPrioTbl := OSTCBPrioTbl s', OSEvents := OSEvents s', OSRdyGrp := OSRdyGrp s',
            OSRdyTbl := OSRdyTbl s'\<rparr>"
  by (auto simp: OS_EventTaskRdy_def Let_def bind_eq_Some_conv split: option.splits if_splits)

text \<open>One turn: the highest-priority waiting task is readied.\<close>

lemma ready_one:
  assumes ok: "os_ok s" and ev: "ev < length (OSEvents s)" and w: "waiting (OSEvents s ! ev) \<noteq> {}"
  defines "p \<equiv> Min (waiting (OSEvents s ! ev))"
  shows "\<exists>s'. OS_EventTaskRdy ev m msk st s = Some (of_nat p, s') \<and> os_ok s' \<and> p \<in> waiting (OSEvents s ! ev)
           \<and> all_woken m msk st {p} s s' \<and> waiting (OSEvents s' ! ev) = waiting (OSEvents s ! ev) - {p}
           \<and> ready s' = ready s \<union> runnable msk s {p} \<and> rest_same ev s s'"
proof -
  have m: "p \<in> waiting (OSEvents s ! ev)" using w by (simp add: p_def)
  obtain s1 t u where s1: "OS_EventTaskRdy ev m msk st s = Some (of_nat p, s1)" "os_ok s1"
      "OSTCBPrioTbl s (of_nat p) = Some t" "OSTCBPrioTbl s1 (of_nat p) = Some u"
      "unat (of_nat p :: u8) = p" "OSTCBMsg u = m" "OSTCBStatPend u = st" "OSTCBDly u = 0"
      "OSTCBStat u = OSTCBStat t AND NOT msk"
      "waiting (OSEvents s1 ! ev) = waiting (OSEvents s ! ev) - {unat (of_nat p :: u8)}"
      "ready s1 = (if OSTCBStat u AND OS_STAT_SUSPEND = 0
                          then insert (unat (of_nat p :: u8)) (ready s) else ready s)"
      "length (OSEvents s1) = length (OSEvents s)"
      "\<forall>q. q \<noteq> of_nat p \<longrightarrow> OSTCBPrioTbl s1 q = OSTCBPrioTbl s q"
      "\<forall>i. i \<noteq> ev \<longrightarrow> OSEvents s1 ! i = OSEvents s ! i"
      "OSEventType (OSEvents s1 ! ev) = OSEventType (OSEvents s ! ev)"
      "OSEventPtr (OSEvents s1 ! ev) = OSEventPtr (OSEvents s ! ev)"
    using OS_EventTaskRdy_ok [OF ok ev w, of m msk st] unfolding p_def by blast
  have "q \<noteq> of_nat p" if "unat q \<noteq> p" for q :: u8 using s1(5) that by metis
  then have "all_woken m msk st {p} s s1"
    using s1(3-9,13) by (simp add: all_woken_def awoken_def)
  moreover have "ready s1 = ready s \<union> runnable msk s {p}"
    using s1(3,5,9,11) by (auto simp: runnable_def)
  moreover have "rest_same ev s s1"
    using s1(12,14-16) OS_EventTaskRdy_rest [OF s1(1)] by (simp add: rest_same_def)
  ultimately show ?thesis using s1(1,2,5,10) m by auto
qed

lemma runnable_cong:
  assumes "\<And>p. p \<in> W \<Longrightarrow> OSTCBPrioTbl s' (of_nat p) = OSTCBPrioTbl s (of_nat p)"
  shows "runnable msk s' W = runnable msk s W"
  using assms by (auto simp: runnable_def)

lemma all_woken_insert:
  assumes one: "all_woken m msk st {p} s s1" and rest: "all_woken m msk st (W - {p}) s1 s2"
    and p: "p \<in> W" and W: "W \<subseteq> {..<64}"
  shows "all_woken m msk st W s s2"
proof -
  have u: "unat (of_nat q :: u8) = q" if "q \<in> W" for q using that W by (auto simp: unat_of_nat)
  have "\<exists>t u. OSTCBPrioTbl s (of_nat q) = Some t \<and> OSTCBPrioTbl s2 (of_nat q) = Some u \<and> awoken m msk st t u"
    if q: "q \<in> W" for q
  proof (cases "q = p")
    case True
    then have "OSTCBPrioTbl s2 (of_nat q) = OSTCBPrioTbl s1 (of_nat q)"
      using rest u [OF q] by (simp add: all_woken_def)
    then show ?thesis using one True by (simp add: all_woken_def)
  next
    case False
    then have "OSTCBPrioTbl s1 (of_nat q) = OSTCBPrioTbl s (of_nat q)"
      using one u [OF q] by (simp add: all_woken_def)
    then show ?thesis using rest q False by (force simp: all_woken_def)
  qed
  moreover have "OSTCBPrioTbl s2 q = OSTCBPrioTbl s q" if "unat q \<notin> W" for q
    using that p one rest by (auto simp: all_woken_def)
  ultimately show ?thesis by (simp add: all_woken_def)
qed

text \<open>The loop: as many turns as there are waiting tasks.\<close>

lemma ready_all_ok:
  assumes "os_ok s" and "ev < length (OSEvents s)"
  shows "\<exists>s'. ready_all ev m msk st n s = Some (n + of_nat (card (waiting (OSEvents s ! ev))), s') \<and> os_ok s'
           \<and> all_woken m msk st (waiting (OSEvents s ! ev)) s s' \<and> waiting (OSEvents s' ! ev) = {}
           \<and> ready s' = ready s \<union> runnable msk s (waiting (OSEvents s ! ev)) \<and> rest_same ev s s'"
  using assms
proof (induction "card (waiting (OSEvents s ! ev))" arbitrary: s n)
  case 0
  then have w: "waiting (OSEvents s ! ev) = {}" by simp
  then have "OSEventGrp (OSEvents s ! ev) = 0" using waiting_empty_iff [OF 0(2,3)] by simp
  then show ?case
    using 0(2,3) w
    by (subst ready_all.simps) (simp add: rd_in rest_same_refl all_woken_empty runnable_def del: rd_eq_Some)
next
  case (Suc k)
  note ok = Suc.prems(1) and ev = Suc.prems(2)
  let ?W = "waiting (OSEvents s ! ev)"
  have w: "?W \<noteq> {}" using Suc.hyps(2) by force
  then have g: "OSEventGrp (OSEvents s ! ev) \<noteq> 0" using waiting_empty_iff [OF ok ev] by simp
  let ?p = "Min ?W"
  obtain s1 where s1: "OS_EventTaskRdy ev m msk st s = Some (of_nat ?p, s1)" "os_ok s1" "?p \<in> ?W"
      "all_woken m msk st {?p} s s1" "waiting (OSEvents s1 ! ev) = ?W - {?p}"
      "ready s1 = ready s \<union> runnable msk s {?p}" "rest_same ev s s1"
    using ready_one [OF ok ev w, of m msk st] by blast
  have c: "k = card (waiting (OSEvents s1 ! ev))" using Suc.hyps(2) s1(3,5) by simp
  have ev1: "ev < length (OSEvents s1)" using ev s1(7) by (simp add: rest_same_def)
  obtain s2 where s2: "ready_all ev m msk st (n + 1) s1 = Some (n + 1 + of_nat k, s2)" "os_ok s2"
      "all_woken m msk st (?W - {?p}) s1 s2" "waiting (OSEvents s2 ! ev) = {}"
      "ready s2 = ready s1 \<union> runnable msk s1 (?W - {?p})" "rest_same ev s1 s2"
    using Suc.hyps(1) [OF c s1(2) ev1, of "n + 1"] s1(5) c by auto
  have "ready_all ev m msk st n s = Some (n + of_nat (card ?W), s2)"
    using g ev s1(1) s2(1) Suc.hyps(2)
    by (subst ready_all.simps) (simp add: rd_in ac_simps del: rd_eq_Some flip: Suc.hyps(2))
  moreover have "all_woken m msk st ?W s s2"
    using all_woken_insert [OF s1(4) s2(3) s1(3) prios_bound] .
  moreover have "unat (of_nat q :: u8) = q" if "q \<in> ?W" for q
    using that prios_bound by (force simp: unat_of_nat)
  then have "runnable msk s1 (?W - {?p}) = runnable msk s (?W - {?p})"
    using s1(4) by (intro runnable_cong) (auto simp: all_woken_def)
  then have "ready s2 = ready s \<union> runnable msk s ?W"
    using s2(5) s1(3,6) by (auto simp: runnable_def)
  ultimately show ?case using s2(2,4) rest_same_trans [OF s1(7) s2(6)] by blast
qed

section \<open>Aborting\<close>

definition type_at :: "nat \<Rightarrow> u8 \<Rightarrow> OS \<Rightarrow> bool" where
  "type_at ev ty s \<longleftrightarrow> ev < length (OSEvents s) \<and> OSEventType (OSEvents s ! ev) = ty"

text \<open>The state after the scheduler call at the end of a service.\<close>

definition resched :: "OS \<Rightarrow> OS" where
  "resched s = (if OSIntNesting s = 0 \<and> OSLockNesting s = 0 then scheduled s else s)"

lemma OS_Sched_resched: "os_ok s \<Longrightarrow> OS_Sched s = Some (resched s)"
  by (simp add: resched_def OS_Sched_scheduled)

lemma resched_ok: "os_ok s \<Longrightarrow> os_ok (resched s)"
  by (simp add: resched_def scheduled_ok)

lemma resched_simps [simp]:
  "OSEvents (resched s) = OSEvents s" "OSRdyGrp (resched s) = OSRdyGrp s" "OSRdyTbl (resched s) = OSRdyTbl s"
  "OSQTbl (resched s) = OSQTbl s" "OSPrioCur (resched s) = OSPrioCur s"
  "OSIntNesting (resched s) = OSIntNesting s" "OSLockNesting (resched s) = OSLockNesting s"
  by (simp_all add: resched_def)

lemma resched_free [simp]:
  "OSQFreeList (resched s) = OSQFreeList s" "OSEventFreeList (resched s) = OSEventFreeList s"
  by (simp_all add: resched_def scheduled_def)

text \<open>The scheduler changes no field of a block but the count of its switches.\<close>

lemma resched_tcb:
  assumes "OSTCBPrioTbl s p = Some t"
  shows "\<exists>c. OSTCBPrioTbl (resched s) p = Some (t\<lparr>OSTCBCtxSwCtr := c\<rparr>)"
proof -
  have "\<exists>c. t = t\<lparr>OSTCBCtxSwCtr := c\<rparr>" by (rule exI [of _ "OSTCBCtxSwCtr t"]) simp
  then show ?thesis using assms by (auto simp: resched_def scheduled_def)
qed

lemma resched_selects:
  assumes "os_ok s" and "OSIntNesting s = 0" and "OSLockNesting s = 0"
  shows "unat (OSPrioHighRdy (resched s)) = Min (ready s)"
  using assms highest_ready [OF assms(1)] by (simp add: resched_def)

lemma woken_resched:
  assumes "all_woken m msk st W s s'" and "p \<in> W"
  shows "\<exists>t u. OSTCBPrioTbl s (of_nat p) = Some t \<and> OSTCBPrioTbl (resched s') (of_nat p) = Some u
     \<and> awoken m msk st t u"
proof -
  obtain t u where t: "OSTCBPrioTbl s (of_nat p) = Some t" "OSTCBPrioTbl s' (of_nat p) = Some u" "awoken m msk st t u"
    using assms by (auto simp: all_woken_def)
  moreover have "awoken m msk st t (u\<lparr>OSTCBCtxSwCtr := c\<rparr>)" for c using t(3) by (simp add: awoken_def)
  ultimately show ?thesis using resched_tcb [OF t(2)] by metis
qed

lemma event_abort_broadcast:
  assumes ok: "os_ok s" and ty: "type_at ev ty s" and w: "waiting (OSEvents s ! ev) \<noteq> {}"
    and n: "OSIntNesting s = 0" "OSLockNesting s = 0"
  shows "\<exists>s'. event_abort ty msk ev OS_PEND_OPT_BROADCAST s
             = Some (of_nat (card (waiting (OSEvents s ! ev))), OS_ERR_PEND_ABORT, s')
           \<and> os_ok s' \<and> waiting (OSEvents s' ! ev) = {}
           \<and> ready s' = ready s \<union> runnable msk s (waiting (OSEvents s ! ev))
           \<and> unat (OSPrioHighRdy s') = Min (ready s')
           \<and> (\<forall>p \<in> waiting (OSEvents s ! ev). \<exists>t u. OSTCBPrioTbl s (of_nat p) = Some t
                \<and> OSTCBPrioTbl s' (of_nat p) = Some u \<and> awoken None msk OS_STAT_PEND_ABORT t u)"
proof -
  have ev: "ev < length (OSEvents s)" and t: "OSEventType (OSEvents s ! ev) = ty"
    using ty by (simp_all add: type_at_def)
  obtain s1 where s1: "ready_all ev None msk OS_STAT_PEND_ABORT 0 s
        = Some (of_nat (card (waiting (OSEvents s ! ev))), s1)" "os_ok s1"
      "all_woken None msk OS_STAT_PEND_ABORT (waiting (OSEvents s ! ev)) s s1"
      "waiting (OSEvents s1 ! ev) = {}"
      "ready s1 = ready s \<union> runnable msk s (waiting (OSEvents s ! ev))" "rest_same ev s s1"
    using ready_all_ok [OF ok ev, of None msk OS_STAT_PEND_ABORT 0] by auto
  have "event_abort ty msk ev OS_PEND_OPT_BROADCAST s
      = Some (of_nat (card (waiting (OSEvents s ! ev))), OS_ERR_PEND_ABORT, resched s1)"
    using ev t w waiting_empty_iff [OF ok ev] s1(1) OS_Sched_resched [OF s1(2)]
    by (simp add: event_abort_def rd_in del: rd_eq_Some)
  then show ?thesis
    using s1(4,5) resched_ok [OF s1(2)] woken_resched [OF s1(3)] resched_selects [OF s1(2)]
      rest_sameD(6,7) [OF s1(6)] n
    by (intro exI [of _ "resched s1"] conjI) simp_all
qed

text \<open>What a task whose wait was aborted finds when it runs again.\<close>

lemma pend_resume_aborted:
  assumes "OSTCBPrioTbl s (OSPrioCur s) = Some u" and "OSTCBStatPend u = OS_STAT_PEND_ABORT"
  shows "pend_resume ev s = Some (None, OS_ERR_PEND_ABORT, s\<lparr>OSTCBPrioTbl := (OSTCBPrioTbl s)(OSPrioCur s \<mapsto>
       u\<lparr>OSTCBStat := OS_STAT_RDY, OSTCBStatPend := OS_STAT_PEND_OK, OSTCBEventPtr := None,
         OSTCBEventMultiPtr := None\<rparr>)\<rparr>)"
  using assms by (simp add: pend_resume_def os_constants)

section \<open>Deleting and creating again\<close>

text \<open>The state after a queue without waiting tasks is given back.\<close>

definition queue_gone :: "nat \<Rightarrow> nat \<Rightarrow> OS \<Rightarrow> OS" where
  "queue_gone ev i s = s\<lparr>OSQTbl := (OSQTbl s)[i := (OSQTbl s ! i)\<lparr>OSQPtr := OSQFreeList s\<rparr>],
     OSQFreeList := Some i,
     OSEvents := (OSEvents s)[ev := (OSEvents s ! ev)\<lparr>OSEventType := OS_EVENT_TYPE_UNUSED,
       OSEventPtr := (case OSEventFreeList s of None \<Rightarrow> Null | Some n \<Rightarrow> FreeEvent n), OSEventCnt := 0\<rparr>],
     OSEventFreeList := Some ev\<rparr>"

lemma queue_gone_ok:
  assumes "os_ok s" and "ev < length (OSEvents s)"
  shows "os_ok (queue_gone ev i s)"
proof -
  let ?e = "(OSEvents s ! ev)\<lparr>OSEventType := OS_EVENT_TYPE_UNUSED,
       OSEventPtr := (case OSEventFreeList s of None \<Rightarrow> Null | Some n \<Rightarrow> FreeEvent n), OSEventCnt := 0\<rparr>"
  have "event_ok (OSTCBPrioTbl s) ?e" using os_okD(8) [OF assms] by (simp add: event_ok_def)
  then show ?thesis
    using assms event_ok_replace [of "OSEvents s" "OSTCBPrioTbl s" ?e ev]
    by (simp add: os_ok_def queue_gone_def)
qed

lemma free_queue_event:
  assumes "the_q ev s = Some (i, q)"
  shows "Option.bind (free_queue ev s) (free_event ev) = Some (queue_gone ev i s)"
proof -
  have "ev < length (OSEvents s)" "OSQTbl s ! i = q" using assms by (simp_all add: the_q_Some)
  then show ?thesis
    using assms by (simp add: free_queue_def free_event_def queue_gone_def rd_in del: rd_eq_Some)
qed

lemma OSQDel_all:
  assumes ok: "os_ok s" and q: "queue_at ev q s" and n: "OSIntNesting s = 0"
  shows "\<exists>i s1 s'. the_q ev s = Some (i, q) \<and> OSQDel ev OS_DEL_ALWAYS s = Some (None, OS_ERR_NONE, s')
     \<and> os_ok s1 \<and> rest_same ev s s1
     \<and> all_woken None OS_STAT_Q OS_STAT_PEND_ABORT (waiting (OSEvents s ! ev)) s s1
     \<and> waiting (OSEvents s1 ! ev) = {}
     \<and> ready s1 = ready s \<union> runnable OS_STAT_Q s (waiting (OSEvents s ! ev))
     \<and> s' = (if waiting (OSEvents s ! ev) = {} then queue_gone ev i s1 else resched (queue_gone ev i s1))
     \<and> os_ok s'"
proof -
  have ev: "ev < length (OSEvents s)" and t: "OSEventType (OSEvents s ! ev) = OS_EVENT_TYPE_Q"
    using q by (simp_all add: queue_at_def)
  obtain i where i: "the_q ev s = Some (i, q)" using q by (auto simp: queue_at_def)
  let ?W = "waiting (OSEvents s ! ev)"
  obtain s1 where s1: "ready_all ev None OS_STAT_Q OS_STAT_PEND_ABORT 0 s = Some (of_nat (card ?W), s1)"
      "os_ok s1" "all_woken None OS_STAT_Q OS_STAT_PEND_ABORT ?W s s1" "waiting (OSEvents s1 ! ev) = {}"
      "ready s1 = ready s \<union> runnable OS_STAT_Q s ?W" "rest_same ev s s1"
    using ready_all_ok [OF ok ev, of None OS_STAT_Q OS_STAT_PEND_ABORT 0] by auto
  note r = rest_sameD [OF s1(6)]
  let ?s2 = "queue_gone ev i s1"
  have "the_q ev s1 = Some (i, q)" using i r by (simp add: the_q_Some)
  then obtain sf where f: "free_queue ev s1 = Some sf" "free_event ev sf = Some ?s2"
    using free_queue_event [of ev s1 i q] by (auto simp: bind_eq_Some_conv)
  have ok2: "os_ok ?s2" using queue_gone_ok [OF s1(2)] ev r(1) by simp
  let ?s' = "if ?W = {} then ?s2 else resched ?s2"
  have "OSQDel ev OS_DEL_ALWAYS s = Some (None, OS_ERR_NONE, ?s')"
    using ev t n s1(1) f OS_Sched_resched [OF ok2] waiting_empty_iff [OF ok ev]
    by (simp add: OSQDel_def event_del_def opt_constants rd_in del: rd_eq_Some)
  moreover have "os_ok ?s'" using ok2 resched_ok [OF ok2] by simp
  ultimately show ?thesis using i s1(2-6) by blast
qed

lemma OSQCreate_fresh:
  assumes ok: "os_ok s" and n: "OSIntNesting s = 0"
    and ef: "OSEventFreeList s = Some ev" and ev: "ev < length (OSEvents s)"
    and qf: "OSQFreeList s = Some i" and i: "i < length (OSQTbl s)"
    and start: "length start = unat sz" "0 < sz"
    and e: "OSEventPtr (OSEvents s ! ev) = (case f of None \<Rightarrow> Null | Some n \<Rightarrow> FreeEvent n)"
  shows "\<exists>s' q'. OSQCreate start sz s = Some (Some ev, s') \<and> os_ok s' \<and> queue_at ev q' s' \<and> q_list q' = []
     \<and> q_cap q' = unat sz \<and> OSEventFreeList s' = f \<and> OSQFreeList s' = OSQPtr (OSQTbl s ! i)
     \<and> waiting (OSEvents s' ! ev) = {} \<and> ready s' = ready s"
proof -
  let ?q = "(OSQTbl s ! i)\<lparr>OSQStart := start, OSQEnd := unat sz, OSQIn := 0, OSQOut := 0, OSQSize := sz,
      OSQEntries := 0\<rparr>"
  let ?e = "OS_EventWaitListInit ((OSEvents s ! ev)\<lparr>OSEventType := OS_EVENT_TYPE_Q, OSEventCnt := 0,
      OSEventPtr := Queue i\<rparr>)"
  let ?s = "s\<lparr>OSEventFreeList := f, OSQFreeList := OSQPtr (OSQTbl s ! i), OSQTbl := (OSQTbl s)[i := ?q],
      OSEvents := (OSEvents s)[ev := ?e]\<rparr>"
  have "(case OSEventPtr (OSEvents s ! ev) of FreeEvent n \<Rightarrow> Some n | _ \<Rightarrow> None) = f" using e by (cases f) simp_all
  then have "OSQCreate start sz s = Some (Some ev, ?s)"
    using ev i n ef qf by (simp add: OSQCreate_def rd_in Let_def del: rd_eq_Some)
  moreover have "event_ok (OSTCBPrioTbl s) ?e"
    by (simp add: event_ok_def OS_EventWaitListInit_def bits_empty)
  then have "os_ok ?s"
    using ok event_ok_replace [of "OSEvents s" "OSTCBPrioTbl s" ?e ev] by (simp add: os_ok_def)
  moreover have "queue_at ev ?q ?s"
    using ev i start by (auto simp: queue_at_def the_q_Some OS_EventWaitListInit_def q_ok_def
        word_gt_0 unat_gt_0)
  moreover have "q_list ?q = []" by (simp add: q_list_def)
  moreover have "waiting (OSEvents ?s ! ev) = {}" using ev by (simp add: OS_EventWaitListInit_def bits_empty)
  ultimately show ?thesis by (intro exI conjI) (assumption | simp add: q_cap_def)+
qed

section \<open>Properties\<close>

text \<open>C38: Aborting the wait of every task at a queue leaves nobody behind: the call ends, reports how
  many tasks waited, empties the wait list, makes every task that waited ready unless it is
  suspended, lets the highest-priority ready task run, and each of these tasks returns from its wait
  without a message and with the error that says the wait was aborted.\<close>

theorem OSQPendAbort_releases_all:
  assumes ok: "os_ok s" and ty: "type_at ev OS_EVENT_TYPE_Q s" and w: "waiting (OSEvents s ! ev) \<noteq> {}"
    and n: "OSIntNesting s = 0" "OSLockNesting s = 0"
  shows "\<exists>s'. OSQPendAbort ev OS_PEND_OPT_BROADCAST s
             = Some (of_nat (card (waiting (OSEvents s ! ev))), OS_ERR_PEND_ABORT, s')
           \<and> os_ok s' \<and> waiting (OSEvents s' ! ev) = {}
           \<and> ready s' = ready s \<union> runnable OS_STAT_Q s (waiting (OSEvents s ! ev))
           \<and> unat (OSPrioHighRdy s') = Min (ready s')
           \<and> (\<forall>p \<in> waiting (OSEvents s ! ev). \<exists>s''. OSQPend_resume ev (s'\<lparr>OSPrioCur := of_nat p\<rparr>)
                = Some (None, OS_ERR_PEND_ABORT, s''))"
proof -
  obtain s' where s': "OSQPendAbort ev OS_PEND_OPT_BROADCAST s
             = Some (of_nat (card (waiting (OSEvents s ! ev))), OS_ERR_PEND_ABORT, s')"
      "os_ok s'" "waiting (OSEvents s' ! ev) = {}"
      "ready s' = ready s \<union> runnable OS_STAT_Q s (waiting (OSEvents s ! ev))"
      "unat (OSPrioHighRdy s') = Min (ready s')"
      "\<And>p. p \<in> waiting (OSEvents s ! ev) \<Longrightarrow> \<exists>u. OSTCBPrioTbl s' (of_nat p) = Some u
         \<and> OSTCBStatPend u = OS_STAT_PEND_ABORT"
    using event_abort_broadcast [OF ok ty w n, of OS_STAT_Q] unfolding OSQPendAbort_def awoken_def by metis
  have "\<exists>s''. OSQPend_resume ev (s'\<lparr>OSPrioCur := of_nat p\<rparr>) = Some (None, OS_ERR_PEND_ABORT, s'')"
    if p: "p \<in> waiting (OSEvents s ! ev)" for p
  proof -
    obtain u where "OSTCBPrioTbl s' (of_nat p) = Some u" "OSTCBStatPend u = OS_STAT_PEND_ABORT"
      using s'(6) [OF p] by blast
    then show ?thesis
      using pend_resume_aborted [of "s'\<lparr>OSPrioCur := of_nat p\<rparr>" u ev] by (simp add: OSQPend_resume_def)
  qed
  then show ?thesis using s'(1-5) by blast
qed

lemma ex_type_at: "ev < 2 \<Longrightarrow> type_at ev OS_EVENT_TYPE_Q ex_os"
  using ex_queue_at [of ev] by (simp add: queue_at_def type_at_def)

lemma ex_runnable: "runnable OS_STAT_Q ex_os {5} = {5}"
  by (auto simp: runnable_def ex_os_def ex_tcb_def os_constants)

theorem OSQPendAbort_releases_all_witness:
  "\<exists>s' s''. OSQPendAbort 0 OS_PEND_OPT_BROADCAST ex_os = Some (1, OS_ERR_PEND_ABORT, s')
     \<and> ready s' = {5, 10, 63} \<and> unat (OSPrioHighRdy s') = 5
     \<and> OSQPend_resume 0 (s'\<lparr>OSPrioCur := 5\<rparr>) = Some (None, OS_ERR_PEND_ABORT, s'')"
  using OSQPendAbort_releases_all [OF ex_os_ok ex_type_at [of 0]]
  by (simp add: ex_runnable) fastforce



end
