(* ===== verification/Os_Mbox.thy ===== *)
theory Os_Mbox
  imports Os_Services
begin

text \<open>
  The mailboxes of the kernel, \<open>uCOS-II/Source/os_mbox.c\<close>. A mailbox keeps its one message in
  \<open>OSEventPtr\<close>; the empty mailbox has a NULL pointer there. Deleting and aborting share their code
  with the other events.
\<close>

section \<open>Services\<close>

text \<open>Reading the pointer as a message, and a message as a pointer.\<close>

fun ptr_msg :: "EventPtr \<Rightarrow> msg option" where
  "ptr_msg Null = Some None"
| "ptr_msg (Mail m) = Some (Some m)"
| "ptr_msg _ = None"

fun msg_ptr :: "msg \<Rightarrow> EventPtr" where
  "msg_ptr None = Null"
| "msg_ptr (Some m) = Mail m"

definition OSMboxCreate :: "msg \<Rightarrow> OS \<Rightarrow> (nat option \<times> OS) option" where
  "OSMboxCreate pmsg s =
     (if OSIntNesting s > 0 then Some (None, s)
      else case OSEventFreeList s of
        None \<Rightarrow> Some (None, s)
      | Some ev \<Rightarrow> do {
          e \<leftarrow> rd (OSEvents s) ev;
          Some (Some ev, s\<lparr>OSEventFreeList :=
              (case OSEventPtr e of FreeEvent n \<Rightarrow> Some n | _ \<Rightarrow> None),
            OSEvents := (OSEvents s)[ev := OS_EventWaitListInit
              (e\<lparr>OSEventType := OS_EVENT_TYPE_MBOX, OSEventCnt := 0, OSEventPtr := msg_ptr pmsg\<rparr>)]\<rparr>) })"

definition OSMboxAccept :: "nat \<Rightarrow> OS \<Rightarrow> (msg \<times> OS) option" where
  "OSMboxAccept ev s = do {
     e \<leftarrow> rd (OSEvents s) ev;
     if OSEventType e \<noteq> OS_EVENT_TYPE_MBOX then Some (None, s)
     else do {
       pmsg \<leftarrow> ptr_msg (OSEventPtr e);
       Some (pmsg, s\<lparr>OSEvents := (OSEvents s)[ev := e\<lparr>OSEventPtr := Null\<rparr>]\<rparr>) } }"

definition OSMboxDel :: "nat \<Rightarrow> u8 \<Rightarrow> OS \<Rightarrow> (nat option \<times> os_err \<times> OS) option" where
  "OSMboxDel = event_del OS_EVENT_TYPE_MBOX OS_STAT_MBOX (\<lambda>_. Some)"

definition OSMboxPend :: "nat \<Rightarrow> u32 \<Rightarrow> OS \<Rightarrow> (msg pend \<times> OS) option" where
  "OSMboxPend ev timeout s = do {
     e \<leftarrow> rd (OSEvents s) ev;
     if OSEventType e \<noteq> OS_EVENT_TYPE_MBOX then Some (Done None OS_ERR_EVENT_TYPE, s)
     else if OSIntNesting s > 0 then Some (Done None OS_ERR_PEND_ISR, s)
     else if OSLockNesting s > 0 then Some (Done None OS_ERR_PEND_LOCKED, s)
     else do {
       pmsg \<leftarrow> ptr_msg (OSEventPtr e);
       if pmsg \<noteq> None then
         Some (Done pmsg OS_ERR_NONE, s\<lparr>OSEvents := (OSEvents s)[ev := e\<lparr>OSEventPtr := Null\<rparr>]\<rparr>)
       else do {
         s \<leftarrow> pend_wait OS_STAT_MBOX timeout ev s;
         Some (Blocked, s) } } }"

definition OSMboxPend_resume :: "nat \<Rightarrow> OS \<Rightarrow> (msg \<times> os_err \<times> OS) option" where
  "OSMboxPend_resume ev s = do {
     (m, err, s) \<leftarrow> pend_resume ev s;
     t \<leftarrow> OSTCBPrioTbl s (OSPrioCur s);
     Some (m, err, s\<lparr>OSTCBPrioTbl := (OSTCBPrioTbl s)(OSPrioCur s \<mapsto> t\<lparr>OSTCBMsg := None\<rparr>)\<rparr>) }"

definition OSMboxPendAbort :: "nat \<Rightarrow> u8 \<Rightarrow> OS \<Rightarrow> (u8 \<times> os_err \<times> OS) option" where
  "OSMboxPendAbort = event_abort OS_EVENT_TYPE_MBOX OS_STAT_MBOX"

definition OSMboxPost :: "nat \<Rightarrow> msg \<Rightarrow> OS \<Rightarrow> (os_err \<times> OS) option" where
  "OSMboxPost ev m s = do {
     e \<leftarrow> rd (OSEvents s) ev;
     if OSEventType e \<noteq> OS_EVENT_TYPE_MBOX then Some (OS_ERR_EVENT_TYPE, s)
     else if OSEventGrp e \<noteq> 0 then do {
       (_, s) \<leftarrow> OS_EventTaskRdy ev m OS_STAT_MBOX OS_STAT_PEND_OK s;
       s \<leftarrow> OS_Sched s;
       Some (OS_ERR_NONE, s) }
     else if OSEventPtr e \<noteq> Null then Some (OS_ERR_MBOX_FULL, s)
     else Some (OS_ERR_NONE, s\<lparr>OSEvents := (OSEvents s)[ev := e\<lparr>OSEventPtr := msg_ptr m\<rparr>]\<rparr>) }"

definition OSMboxPostOpt :: "nat \<Rightarrow> msg \<Rightarrow> u8 \<Rightarrow> OS \<Rightarrow> (os_err \<times> OS) option" where
  "OSMboxPostOpt ev m opt s = do {
     e \<leftarrow> rd (OSEvents s) ev;
     if OSEventType e \<noteq> OS_EVENT_TYPE_MBOX then Some (OS_ERR_EVENT_TYPE, s)
     else if OSEventGrp e \<noteq> 0 then map_option (Pair OS_ERR_NONE) (post_waiting OS_STAT_MBOX ev m opt s)
     else if OSEventPtr e \<noteq> Null then Some (OS_ERR_MBOX_FULL, s)
     else Some (OS_ERR_NONE, s\<lparr>OSEvents := (OSEvents s)[ev := e\<lparr>OSEventPtr := msg_ptr m\<rparr>]\<rparr>) }"

record OS_MBOX_DATA =
  md_OSMsg :: msg
  md_OSEventTbl :: "u8 list"
  md_OSEventGrp :: u8

definition OSMboxQuery :: "nat \<Rightarrow> OS_MBOX_DATA \<Rightarrow> OS \<Rightarrow> (os_err \<times> OS_MBOX_DATA) option" where
  "OSMboxQuery ev d s = do {
     e \<leftarrow> rd (OSEvents s) ev;
     if OSEventType e \<noteq> OS_EVENT_TYPE_MBOX then Some (OS_ERR_EVENT_TYPE, d)
     else do {
       rows \<leftarrow> copy_rows 8 (OSEventTbl e);
       m \<leftarrow> ptr_msg (OSEventPtr e);
       Some (OS_ERR_NONE, d\<lparr>md_OSEventGrp := OSEventGrp e, md_OSEventTbl := rows, md_OSMsg := m\<rparr>) } }"

section \<open>A mailbox is a queue for one message\<close>

definition mbox_at :: "nat \<Rightarrow> msg \<Rightarrow> OS \<Rightarrow> bool" where
  "mbox_at ev m s \<longleftrightarrow> type_at ev OS_EVENT_TYPE_MBOX s \<and> OSEventPtr (OSEvents s ! ev) = msg_ptr m"

definition mbox_set :: "nat \<Rightarrow> msg \<Rightarrow> OS \<Rightarrow> OS" where
  "mbox_set ev m s = s\<lparr>OSEvents := (OSEvents s)[ev := (OSEvents s ! ev)\<lparr>OSEventPtr := msg_ptr m\<rparr>]\<rparr>"

lemma ptr_msg_inv [simp]: "ptr_msg (msg_ptr m) = Some m"
  by (cases m) simp_all

lemma msg_ptr_Null [simp]: "msg_ptr m = Null \<longleftrightarrow> m = None" "Null = msg_ptr m \<longleftrightarrow> m = None"
  by (cases m; simp)+

lemma mbox_set_simps [simp]:
  "length (OSEvents (mbox_set ev m s)) = length (OSEvents s)" "OSIntNesting (mbox_set ev m s) = OSIntNesting s"
  "OSLockNesting (mbox_set ev m s) = OSLockNesting s" "OSPrioCur (mbox_set ev m s) = OSPrioCur s"
  "OSTCBPrioTbl (mbox_set ev m s) = OSTCBPrioTbl s" "OSRdyGrp (mbox_set ev m s) = OSRdyGrp s"
  "OSRdyTbl (mbox_set ev m s) = OSRdyTbl s" "i \<noteq> ev \<Longrightarrow> OSEvents (mbox_set ev m s) ! i = OSEvents s ! i"
  by (simp_all add: mbox_set_def)

lemma mbox_set_at: "mbox_at ev m s \<Longrightarrow> mbox_at ev m' (mbox_set ev m' s)"
  by (simp add: mbox_at_def type_at_def mbox_set_def)

lemma mbox_set_waiting:
  "ev < length (OSEvents s) \<Longrightarrow> waiting (OSEvents (mbox_set ev m s) ! ev) = waiting (OSEvents s ! ev)"
  by (simp add: mbox_set_def)

lemma mbox_set_ok: "os_ok s \<Longrightarrow> ev < length (OSEvents s) \<Longrightarrow> os_ok (mbox_set ev m s)"
  using os_okD(8) [of s ev] os_ok_replace_event [of s "(OSEvents s ! ev)\<lparr>OSEventPtr := msg_ptr m\<rparr>" ev]
  by (simp add: mbox_set_def event_ok_def)

lemma mbox_atD:
  assumes "mbox_at ev m s"
  shows "ev < length (OSEvents s)" "OSEventType (OSEvents s ! ev) = OS_EVENT_TYPE_MBOX"
    "OSEventPtr (OSEvents s ! ev) = msg_ptr m" "type_at ev OS_EVENT_TYPE_MBOX s"
  using assms by (simp_all add: mbox_at_def type_at_def)

lemma OSMboxPost_idle:
  assumes ok: "os_ok s" and mb: "mbox_at ev m0 s" and w: "waiting (OSEvents s ! ev) = {}"
  shows "OSMboxPost ev m s = Some (if m0 = None then (OS_ERR_NONE, mbox_set ev m s) else (OS_ERR_MBOX_FULL, s))"
  using mbox_atD [OF mb] w waiting_empty_iff [OF ok mbox_atD(1) [OF mb]]
  by (simp add: OSMboxPost_def mbox_set_def rd_in del: rd_eq_Some)

lemma OSMboxAccept_takes:
  assumes mb: "mbox_at ev m s"
  shows "OSMboxAccept ev s = Some (m, mbox_set ev None s)"
  using mbox_atD [OF mb] by (simp add: OSMboxAccept_def mbox_set_def rd_in del: rd_eq_Some)

text \<open>Posting and accepting as the operations of a queue of capacity one.\<close>

definition mbox_put :: "nat \<Rightarrow> nat \<Rightarrow> OS \<Rightarrow> OS option" where
  "mbox_put ev m s = (case OSMboxPost ev (Some m) s of Some (OS_ERR_NONE, s') \<Rightarrow> Some s' | _ \<Rightarrow> None)"

definition mbox_take :: "nat \<Rightarrow> OS \<Rightarrow> (nat \<times> OS) option" where
  "mbox_take ev s = (case OSMboxAccept ev s of Some (Some m, s') \<Rightarrow> Some (m, s') | _ \<Rightarrow> None)"

definition mbox_list :: "nat \<Rightarrow> OS \<Rightarrow> nat list" where
  "mbox_list ev s = (case OSEventPtr (OSEvents s ! ev) of Mail m \<Rightarrow> [m] | _ \<Rightarrow> [])"

definition mbox_ok :: "nat \<Rightarrow> OS \<Rightarrow> bool" where
  "mbox_ok ev s \<longleftrightarrow> os_ok s \<and> (\<exists>m. mbox_at ev m s) \<and> waiting (OSEvents s ! ev) = {}"

lemma mbox_list_at: "mbox_at ev m s \<Longrightarrow> mbox_list ev s = (case m of None \<Rightarrow> [] | Some x \<Rightarrow> [x])"
  by (cases m) (simp_all add: mbox_list_def mbox_at_def)

lemma mbox_ok_set: "os_ok s \<Longrightarrow> mbox_at ev m s \<Longrightarrow> waiting (OSEvents s ! ev) = {} \<Longrightarrow> mbox_ok ev (mbox_set ev m' s)"
  using mbox_set_ok [of s ev m'] mbox_set_at [of ev m s m'] mbox_set_waiting [of ev s m'] mbox_atD(1) [of ev m s]
  unfolding mbox_ok_def by auto

interpretation mb: bounded_queue "mbox_put ev" "mbox_take ev" "\<lambda>s. mbox_list ev s \<noteq> []" "mbox_list ev"
    "\<lambda>_. 1" "mbox_ok ev" for ev
proof (unfold_locales, goal_cases)
  case (1 q)
  then show ?case by (auto simp: mbox_ok_def mbox_list_at split: option.splits)
next
  case (2 q)
  then show ?case by (auto simp: mbox_ok_def mbox_list_at split: option.splits)
next
  case (3 q m)
  then obtain m0 where m0: "os_ok q" "mbox_at ev m0 q" "waiting (OSEvents q ! ev) = {}"
    by (auto simp: mbox_ok_def)
  then have "m0 = None" using 3 mbox_list_at by (cases m0) auto
  then have "mbox_put ev m q = Some (mbox_set ev (Some m) q)"
    using OSMboxPost_idle [OF m0, of "Some m"] by (simp add: mbox_put_def)
  then show ?case
    using 3 mbox_ok_set [OF m0] mbox_list_at [OF mbox_set_at [OF m0(2)], of "Some m"] by simp
next
  case (4 q m ms)
  then obtain m0 where m0: "os_ok q" "mbox_at ev m0 q" "waiting (OSEvents q ! ev) = {}"
    by (auto simp: mbox_ok_def)
  then have m: "m0 = Some m" "ms = []" using 4 mbox_list_at [OF m0(2)] by (auto split: option.splits)
  then have "mbox_take ev q = Some (m, mbox_set ev None q)"
    using OSMboxAccept_takes [OF m0(2)] by (simp add: mbox_take_def)
  then show ?case
    using m mbox_ok_set [OF m0] mbox_list_at [OF mbox_set_at [OF m0(2)], of None] by simp
qed

section \<open>A task that waits and the post that wakes it\<close>

text \<open>The block of a task that has begun to wait.\<close>

definition began_wait :: "u8 \<Rightarrow> OS_TCB \<Rightarrow> OS_TCB \<Rightarrow> bool" where
  "began_wait stat t u \<longleftrightarrow> OSTCBStat u = OSTCBStat t OR stat \<and> OSTCBStatPend u = OS_STAT_PEND_OK"

lemma pend_wait_waits:
  assumes ok: "os_ok s" and ev: "ev < length (OSEvents s)" and t: "OSTCBPrioTbl s (OSPrioCur s) = Some t"
    and idle: "OSPrioCur s \<noteq> 63" and n: "OSIntNesting s = 0" "OSLockNesting s = 0"
  shows "\<exists>s' u. pend_wait stat timeout ev s = Some s' \<and> os_ok s' \<and> switchPending s'
           \<and> OSPrioHighRdy s' \<noteq> OSPrioCur s \<and> ready s' = ready s - {unat (OSPrioCur s)}
           \<and> waiting (OSEvents s' ! ev) = insert (unat (OSPrioCur s)) (waiting (OSEvents s ! ev))
           \<and> length (OSEvents s') = length (OSEvents s)
           \<and> OSEventType (OSEvents s' ! ev) = OSEventType (OSEvents s ! ev)
           \<and> OSEventPtr (OSEvents s' ! ev) = OSEventPtr (OSEvents s ! ev)
           \<and> OSIntNesting s' = 0 \<and> OSLockNesting s' = 0
           \<and> OSTCBPrioTbl s' (OSPrioCur s) = Some u \<and> began_wait stat t u"
proof -
  obtain s' where s': "pend_wait stat timeout ev s = Some s'" "os_ok s'" "switchPending s'"
      "OSPrioHighRdy s' \<noteq> OSPrioCur s" "ready s' = ready s - {unat (OSPrioCur s)}"
      "waiting (OSEvents s' ! ev) = insert (unat (OSPrioCur s)) (waiting (OSEvents s ! ev))"
    using pend_wait_ok [OF ok ev t idle n, of stat timeout] by blast
  let ?t = "t\<lparr>OSTCBStat := OSTCBStat t OR stat, OSTCBStatPend := OS_STAT_PEND_OK, OSTCBDly := timeout\<rparr>"
  let ?s = "s\<lparr>OSTCBPrioTbl := (OSTCBPrioTbl s)(OSPrioCur s \<mapsto> ?t)\<rparr>"
  have ok1: "os_ok ?s" using os_ok_pending [OF ok t] .
  obtain s1 where s1: "OS_EventTaskWait ev ?s = Some s1" "os_ok s1"
    using OS_EventTaskWait_ok [OF ok1, of ev ?t] ev idle by auto
  have e: "s' = resched s1"
    using s'(1) s1 t OS_Sched_resched [OF s1(2)] by (simp add: pend_wait_def Let_def)
  obtain g tb rg rt where w: "s1 = ?s\<lparr>OSTCBPrioTbl := (OSTCBPrioTbl ?s)(OSPrioCur s \<mapsto> ?t\<lparr>OSTCBEventPtr := Some ev\<rparr>),
      OSEvents := (OSEvents s)[ev := (OSEvents s ! ev)\<lparr>OSEventGrp := g, OSEventTbl := tb\<rparr>],
      OSRdyGrp := rg, OSRdyTbl := rt\<rparr>"
    using s1(1) by (auto simp: OS_EventTaskWait_def bind_eq_Some_conv)
  have "OSTCBPrioTbl s1 (OSPrioCur s) = Some (?t\<lparr>OSTCBEventPtr := Some ev\<rparr>)" by (simp add: w)
  then obtain c where "OSTCBPrioTbl s' (OSPrioCur s) = Some (?t\<lparr>OSTCBEventPtr := Some ev, OSTCBCtxSwCtr := c\<rparr>)"
    using resched_tcb unfolding e by fastforce
  then have "\<exists>u. OSTCBPrioTbl s' (OSPrioCur s) = Some u \<and> began_wait stat t u" by (simp add: began_wait_def)
  moreover have "OSEvents s' = OSEvents s1" "OSIntNesting s' = OSIntNesting s" "OSLockNesting s' = OSLockNesting s"
    by (simp_all add: e w)
  ultimately show ?thesis using s' ev n by (auto simp: w)
qed

lemma OSMboxPost_wakes:
  assumes ok: "os_ok s" and mb: "mbox_at ev m0 s" and w: "waiting (OSEvents s ! ev) \<noteq> {}"
  defines "p \<equiv> Min (waiting (OSEvents s ! ev))"
  shows "\<exists>s'. OSMboxPost ev m s = Some (OS_ERR_NONE, s') \<and> os_ok s' \<and> mbox_at ev m0 s'
           \<and> waiting (OSEvents s' ! ev) = waiting (OSEvents s ! ev) - {p}
           \<and> ready s' = ready s \<union> runnable OS_STAT_MBOX s {p}
           \<and> (\<exists>t u. OSTCBPrioTbl s (of_nat p) = Some t \<and> OSTCBPrioTbl s' (of_nat p) = Some u
                \<and> awoken m OS_STAT_MBOX OS_STAT_PEND_OK t u)"
proof -
  note mb' = mbox_atD [OF mb]
  obtain s1 where s1: "OS_EventTaskRdy ev m OS_STAT_MBOX OS_STAT_PEND_OK s = Some (of_nat p, s1)" "os_ok s1"
      "all_woken m OS_STAT_MBOX OS_STAT_PEND_OK {p} s s1"
      "waiting (OSEvents s1 ! ev) = waiting (OSEvents s ! ev) - {p}"
      "ready s1 = ready s \<union> runnable OS_STAT_MBOX s {p}" "rest_same ev s s1"
    using ready_one [OF ok mb'(1) w, of m OS_STAT_MBOX OS_STAT_PEND_OK] unfolding p_def by blast
  note r = rest_sameD [OF s1(6)]
  have "OSMboxPost ev m s = Some (OS_ERR_NONE, resched s1)"
    using mb' w waiting_empty_iff [OF ok mb'(1)] s1(1) OS_Sched_resched [OF s1(2)]
    by (simp add: OSMboxPost_def rd_in del: rd_eq_Some)
  moreover have "mbox_at ev m0 (resched s1)" using mb' r by (simp add: mbox_at_def type_at_def)
  moreover have "\<exists>t u. OSTCBPrioTbl s (of_nat p) = Some t \<and> OSTCBPrioTbl (resched s1) (of_nat p) = Some u
                \<and> awoken m OS_STAT_MBOX OS_STAT_PEND_OK t u" using woken_resched [OF s1(3)] by simp
  ultimately show ?thesis using s1(4,5) resched_ok [OF s1(2)] by (intro exI [of _ "resched s1"] conjI) simp_all
qed

text \<open>A task whose wait was ended by a post takes the message out of its block.\<close>

lemma OSMboxPend_resume_woken:
  assumes ok: "os_ok s" and u: "OSTCBPrioTbl s (OSPrioCur s) = Some u" and p: "OSTCBStatPend u = OS_STAT_PEND_OK"
  shows "\<exists>s'. OSMboxPend_resume ev s = Some (OSTCBMsg u, OS_ERR_NONE, s') \<and> os_ok s' \<and> ready s' = ready s"
proof -
  let ?u = "u\<lparr>OSTCBStat := OS_STAT_RDY, OSTCBStatPend := OS_STAT_PEND_OK, OSTCBEventPtr := None,
      OSTCBEventMultiPtr := None, OSTCBMsg := None\<rparr>"
  let ?s = "s\<lparr>OSTCBPrioTbl := (OSTCBPrioTbl s)(OSPrioCur s \<mapsto> ?u)\<rparr>"
  have "tcb_at (unat (OSPrioCur s)) ?u" using os_okD(4) [OF ok u] by (simp add: tcb_at_def)
  then have "os_ok ?s" using ok by (auto simp: os_ok_def event_ok_upd)
  moreover have "OSMboxPend_resume ev s = Some (OSTCBMsg u, OS_ERR_NONE, ?s)"
    using u p by (simp add: OSMboxPend_resume_def pend_resume_def)
  ultimately show ?thesis by auto
qed

section \<open>Properties\<close>


definition ex_mbox :: OS where
  "ex_mbox = ex_os\<lparr>OSEvents := OSEvents ex_os @ [\<lparr>OSEventType = 1, OSEventPtr = Null, OSEventCnt = 0,
     OSEventGrp = 0, OSEventTbl = replicate 8 0\<rparr>]\<rparr>"

lemma ex_mbox_ok: "os_ok ex_mbox"
  using ex_os_ok by (auto simp: os_ok_def ex_mbox_def event_ok_def bits_empty)

lemma ex_mbox_at: "mbox_at 2 None ex_mbox" "waiting (OSEvents ex_mbox ! 2) = {}"
  by (simp_all add: mbox_at_def type_at_def ex_mbox_def OS_EVENT_TYPE_MBOX_def nth_append bits_empty)


text \<open>Posting with options agrees with the plain posts: without options the call is \<open>OSQPost\<close> or
  \<open>OSMboxPost\<close>, with the option for the front it is \<open>OSQPostFront\<close>, in every state.\<close>

theorem post_opt_plain:
  "OSQPostOpt ev m 0 s = OSQPost ev m s \<and> OSQPostOpt ev m OS_POST_OPT_FRONT s = OSQPostFront ev m s
     \<and> OSMboxPostOpt ev m 0 s = OSMboxPost ev m s"
proof -
  have z: "(2 :: u8) AND 1 = 0" "(2 :: u8) AND 4 = 0" "(2 :: u8) AND 2 \<noteq> 0" by simp_all
  then show ?thesis
    by (simp add: OSQPostOpt_def OSQPost_def OSQPostFront_def OSMboxPostOpt_def OSMboxPost_def
        post_waiting_plain [unfolded opt_constants] opt_constants cong: if_cong)
qed

end
