(* ===== verification/Os_System.thy ===== *)
theory Os_System
  imports Os_Time Os_Mbox
begin

text \<open>
  The kernel as a state machine: tasks and interrupt handlers call its services in any order,
  the tick interrupt and the PendSV exception come in between. A call is one step, since its
  work is done with interrupts disabled. The running task can call only while no context switch
  is pended; the idle task never blocks. Posts that put off the scheduling to a later call, creating
  and deleting are left out: the kinds of the events stay what they are.
\<close>

section \<open>The machine\<close>

datatype kcall =
    IntEnter | IntExit | SchedLock | SchedUnlock | PendSV | Tick
  | SemPost nat | SemPend nat u32 | SemAccept nat | SemResume nat
  | QPost nat msg | QPostFront nat msg | QPend nat u32 | QAccept nat | QFlush nat | QResume nat
  | SemSet nat u16 | SemAbort nat u8 | QAbort nat u8 | QPostOpt nat msg u8
  | MboxPost nat msg | MboxPostOpt nat msg u8 | MboxPend nat u32 | MboxAccept nat
  | MboxAbort nat u8 | MboxResume nat
  | Dly u32 | DlyResume u8

fun kstep :: "kcall \<Rightarrow> OS \<Rightarrow> OS option" where
  "kstep IntEnter s = Some (OSIntEnter s)"
| "kstep IntExit s = OSIntExit s"
| "kstep SchedLock s = Some (OSSchedLock s)"
| "kstep SchedUnlock s = OSSchedUnlock s"
| "kstep PendSV s = Some (OS_CPU_PendSVHandler s)"
| "kstep Tick s = OSTimeTick s"
| "kstep (SemPost ev) s = map_option snd (OSSemPost ev s)"
| "kstep (SemPend ev n) s = map_option snd (OSSemPend ev n s)"
| "kstep (SemAccept ev) s = map_option snd (OSSemAccept ev s)"
| "kstep (SemResume ev) s = map_option snd (OSSemPend_resume ev s)"
| "kstep (QPost ev m) s = map_option snd (OSQPost ev m s)"
| "kstep (QPostFront ev m) s = map_option snd (OSQPostFront ev m s)"
| "kstep (QPend ev n) s = map_option snd (OSQPend ev n s)"
| "kstep (QAccept ev) s = map_option (snd \<circ> snd) (OSQAccept ev s)"
| "kstep (QFlush ev) s = OSQFlush ev s"
| "kstep (QResume ev) s = map_option (snd \<circ> snd) (OSQPend_resume ev s)"
| "kstep (SemSet ev n) s = map_option snd (OSSemSet ev n s)"
| "kstep (SemAbort ev opt) s = map_option (snd \<circ> snd) (OSSemPendAbort ev opt s)"
| "kstep (QAbort ev opt) s = map_option (snd \<circ> snd) (OSQPendAbort ev opt s)"
| "kstep (QPostOpt ev m opt) s = map_option snd (OSQPostOpt ev m opt s)"
| "kstep (MboxPost ev m) s = map_option snd (OSMboxPost ev m s)"
| "kstep (MboxPostOpt ev m opt) s = map_option snd (OSMboxPostOpt ev m opt s)"
| "kstep (MboxPend ev n) s = map_option snd (OSMboxPend ev n s)"
| "kstep (MboxAccept ev) s = map_option snd (OSMboxAccept ev s)"
| "kstep (MboxAbort ev opt) s = map_option (snd \<circ> snd) (OSMboxPendAbort ev opt s)"
| "kstep (MboxResume ev) s = map_option (snd \<circ> snd) (OSMboxPend_resume ev s)"
| "kstep (Dly n) s = OSTimeDly n s"
| "kstep (DlyResume p) s = map_option snd (OSTimeDlyResume p s)"

text \<open>Who can make a call: an interrupt handler, or the running task.\<close>

definition can_call :: "OS \<Rightarrow> bool" where
  "can_call s \<longleftrightarrow> OSIntNesting s > 0 \<or> \<not> switchPending s"

definition can_block :: "OS \<Rightarrow> bool" where
  "can_block s \<longleftrightarrow> can_call s \<and> OSPrioCur s \<noteq> OS_TASK_IDLE_PRIO"

definition event_in :: "nat \<Rightarrow> OS \<Rightarrow> bool" where
  "event_in ev s \<longleftrightarrow> ev < length (OSEvents s)"

fun allowed :: "kcall \<Rightarrow> OS \<Rightarrow> bool" where
  "allowed IntEnter s \<longleftrightarrow> OSIntNesting s < 255"
| "allowed IntExit s \<longleftrightarrow> OSIntNesting s > 0"
| "allowed SchedLock s \<longleftrightarrow> can_call s"
| "allowed SchedUnlock s \<longleftrightarrow> can_call s"
| "allowed PendSV s \<longleftrightarrow> switchPending s \<and> OSIntNesting s = 0"
| "allowed Tick s \<longleftrightarrow> OSIntNesting s > 0"
| "allowed (SemPost ev) s \<longleftrightarrow> can_call s \<and> event_in ev s"
| "allowed (SemPend ev n) s \<longleftrightarrow> can_block s \<and> event_in ev s"
| "allowed (SemAccept ev) s \<longleftrightarrow> can_call s \<and> event_in ev s"
| "allowed (SemResume ev) s \<longleftrightarrow> OSIntNesting s = 0 \<and> \<not> switchPending s \<and> event_in ev s"
| "allowed (QPost ev m) s \<longleftrightarrow> can_call s \<and> event_in ev s"
| "allowed (QPostFront ev m) s \<longleftrightarrow> can_call s \<and> event_in ev s"
| "allowed (QPend ev n) s \<longleftrightarrow> can_block s \<and> event_in ev s"
| "allowed (QAccept ev) s \<longleftrightarrow> can_call s \<and> event_in ev s"
| "allowed (QFlush ev) s \<longleftrightarrow> can_call s \<and> event_in ev s
     \<and> OSEventType (OSEvents s ! ev) = OS_EVENT_TYPE_Q"
| "allowed (QResume ev) s \<longleftrightarrow> OSIntNesting s = 0 \<and> \<not> switchPending s \<and> event_in ev s"
| "allowed (SemSet ev n) s \<longleftrightarrow> can_call s \<and> event_in ev s"
| "allowed (SemAbort ev opt) s \<longleftrightarrow> can_call s \<and> event_in ev s"
| "allowed (QAbort ev opt) s \<longleftrightarrow> can_call s \<and> event_in ev s"
| "allowed (QPostOpt ev m opt) s \<longleftrightarrow> can_call s \<and> event_in ev s \<and> opt AND OS_POST_OPT_NO_SCHED = 0"
| "allowed (MboxPost ev m) s \<longleftrightarrow> can_call s \<and> event_in ev s"
| "allowed (MboxPostOpt ev m opt) s \<longleftrightarrow> can_call s \<and> event_in ev s \<and> opt AND OS_POST_OPT_NO_SCHED = 0"
| "allowed (MboxPend ev n) s \<longleftrightarrow> can_block s \<and> event_in ev s"
| "allowed (MboxAccept ev) s \<longleftrightarrow> can_call s \<and> event_in ev s"
| "allowed (MboxAbort ev opt) s \<longleftrightarrow> can_call s \<and> event_in ev s"
| "allowed (MboxResume ev) s \<longleftrightarrow> OSIntNesting s = 0 \<and> \<not> switchPending s \<and> event_in ev s"
| "allowed (Dly n) s \<longleftrightarrow> can_block s"
| "allowed (DlyResume p) s \<longleftrightarrow> can_call s"

text \<open>A run of the machine, every call of it allowed where it is made.\<close>

inductive kruns :: "OS \<Rightarrow> kcall list \<Rightarrow> OS \<Rightarrow> bool" where
  start: "kruns s [] s"
| call: "kruns s cs t \<Longrightarrow> allowed c t \<Longrightarrow> kstep c t = Some u \<Longrightarrow> kruns s (cs @ [c]) u"

inductive_cases kruns_snocE: "kruns s (cs @ [c]) u"

section \<open>The invariant\<close>

text \<open>What no call changes.\<close>

definition kind_of :: "OS_EVENT \<Rightarrow> u8 \<times> nat option \<times> bool" where
  "kind_of e = (OSEventType e, event_queue (OSEventPtr e), ptr_msg (OSEventPtr e) \<noteq> None)"

definition static where
  "static s = (OSRunning s, OSTCBList s, map kind_of (OSEvents s), OSTmrSemSignal s,
     OSTickStepState s, dom (OSTCBPrioTbl s))"

text \<open>Every queue has a ring, and the pointer of every mailbox is a message or NULL.\<close>

definition ring_ok :: "OS_Q list \<Rightarrow> u8 \<times> nat option \<times> bool \<Rightarrow> bool" where
  "ring_ok tbl k \<longleftrightarrow> (fst k = OS_EVENT_TYPE_Q \<longrightarrow>
     (\<exists>j. fst (snd k) = Some j \<and> j < length tbl \<and> q_ok (tbl ! j)))
     \<and> (fst k = OS_EVENT_TYPE_MBOX \<longrightarrow> snd (snd k))"

definition rings_ok :: "OS \<Rightarrow> bool" where
  "rings_ok s \<longleftrightarrow> list_all (ring_ok (OSQTbl s)) (map kind_of (OSEvents s))"

lemma ring_ok_upd: "ring_ok tbl k \<Longrightarrow> q_ok q \<Longrightarrow> ring_ok (tbl[i := q]) k"
  by (cases "i < length tbl") (auto simp: ring_ok_def nth_list_update)

definition static_ok :: "OS \<Rightarrow> bool" where
  "static_ok s \<longleftrightarrow> OSRunning s \<and> (\<exists>ps. task_list s ps) \<and> OSTickStepState s = OS_TICK_STEP_DIS
     \<and> event_in (OSTmrSemSignal s) s \<and> OSEventType (OSEvents s ! OSTmrSemSignal s) = OS_EVENT_TYPE_SEM"

text \<open>
  Outside interrupts and with the scheduler unlocked the highest ready task has been selected:
  it runs, or a switch to it is pended. The scheduler is not locked while a switch is pended,
  and if none is, the running task is ready.
\<close>

definition sched_ok :: "OS \<Rightarrow> bool" where
  "sched_ok s \<longleftrightarrow>
     (OSIntNesting s = 0 \<and> OSLockNesting s = 0 \<longrightarrow>
        OSPrioHighRdy s = highest s \<and> (switchPending s \<or> OSPrioCur s = highest s))
     \<and> (switchPending s \<longrightarrow> OSLockNesting s = 0)
     \<and> (\<not> switchPending s \<longrightarrow> unat (OSPrioCur s) \<in> ready s)"

definition system_ok :: "OS \<Rightarrow> bool" where
  "system_ok s \<longleftrightarrow> os_ok s \<and> static_ok s \<and> rings_ok s \<and> sched_ok s"

text \<open>A task that waits for nothing but the end of a delay of \<open>n\<close> ticks.\<close>

definition asleep :: "u8 \<Rightarrow> u32 \<Rightarrow> OS \<Rightarrow> bool" where
  "asleep p n s \<longleftrightarrow> (\<exists>t. OSTCBPrioTbl s p = Some t \<and> OSTCBDly t = n \<and> \<not> suspended t)
     \<and> unat p \<notin> ready s \<and> (\<forall>e \<in> set (OSEvents s). unat p \<notin> waiting e)"

section \<open>Frames\<close>

lemma static_ok_cong:
  assumes "static s' = static s"
  shows "static_ok s' = static_ok s"
proof -
  have k: "map kind_of (OSEvents s') = map kind_of (OSEvents s)" and i: "OSTmrSemSignal s' = OSTmrSemSignal s"
    and d: "dom (OSTCBPrioTbl s') = dom (OSTCBPrioTbl s)" and l: "OSTCBList s' = OSTCBList s"
    using assms by (simp_all add: static_def)
  have len: "length (OSEvents s') = length (OSEvents s)" using k by (metis length_map)
  have ty: "OSEventType (OSEvents s' ! j) = OSEventType (OSEvents s ! j)" if "j < length (OSEvents s)" for j
    using arg_cong [OF k, of "\<lambda>xs. fst (xs ! j)"] that len by (simp add: kind_of_def)
  have "task_list s' ps = task_list s ps" for ps using l d by (simp add: task_list_def)
  then show ?thesis
    using assms len ty by (auto simp: static_ok_def static_def event_in_def)
qed

lemma static_length: "static s' = static s \<Longrightarrow> length (OSEvents s') = length (OSEvents s)"
  by (simp add: static_def) (metis length_map)

text \<open>What a step must keep, and how much of a state each part of it depends on.\<close>

definition safe :: "OS \<Rightarrow> OS \<Rightarrow> bool" where
  "safe s s' \<longleftrightarrow> static s' = static s \<and> os_ok s' \<and> rings_ok s'"

definition keeps :: "OS \<Rightarrow> OS \<Rightarrow> bool" where
  "keeps s s' \<longleftrightarrow> static s' = static s \<and> os_ok s' \<and> rings_ok s' \<and> (\<forall>p n. asleep p n s \<longrightarrow> asleep p n s')"

lemma keeps_safe: "keeps s s' \<Longrightarrow> safe s s'"
  by (simp add: keeps_def safe_def)

lemma safe_trans: "safe s t \<Longrightarrow> safe t u \<Longrightarrow> safe s u"
  by (simp add: safe_def)

lemma keeps_trans: "keeps s t \<Longrightarrow> keeps t u \<Longrightarrow> keeps s u"
  by (simp add: keeps_def)

lemma keeps_refl: "os_ok s \<Longrightarrow> rings_ok s \<Longrightarrow> keeps s s"
  by (simp add: keeps_def)

section \<open>The scheduler at the end of a call\<close>

lemma scheduled_frame:
  assumes ok: "os_ok s" and r: "rings_ok s"
  shows "keeps s (scheduled s)"
proof -
  obtain t where t: "OSTCBPrioTbl s (highest s) = Some t" using highest_tcb [OF ok] by blast
  have "static (scheduled s) = static s"
    using t by (auto simp: static_def scheduled_def dom_def)
  moreover have "rings_ok (scheduled s)" using r by (simp add: rings_ok_def)
  moreover have "asleep p n (scheduled s)" if "asleep p n s" for p n
    using that t by (auto simp: asleep_def scheduled_def suspended_def)
  ultimately show ?thesis using scheduled_ok [OF ok] by (simp add: keeps_def)
qed

lemma highest_scheduled [simp]: "highest (scheduled s) = highest s"
  by (simp add: highest_def)

lemma scheduled_sched_ok:
  assumes "os_ok s" and "OSLockNesting s = 0" and "OSIntNesting s = 0"
  shows "sched_ok (scheduled s)"
  using assms highest_ready [OF assms(1)] by (auto simp: sched_ok_def)

text \<open>What a call does before it ends in the scheduler: all but the selection is in order.\<close>

definition before_sched :: "OS \<Rightarrow> bool" where
  "before_sched s \<longleftrightarrow> (switchPending s \<longrightarrow> OSLockNesting s = 0)
     \<and> (\<not> switchPending s \<longrightarrow> unat (OSPrioCur s) \<in> ready s \<or> OSIntNesting s = 0 \<and> OSLockNesting s = 0)"

lemma OS_Sched_step:
  assumes k: "keeps s s1" and b: "before_sched s1"
  shows "\<exists>s2. OS_Sched s1 = Some s2 \<and> keeps s s2 \<and> sched_ok s2"
proof -
  have ok: "os_ok s1" and r: "rings_ok s1" using k by (simp_all add: keeps_def)
  show ?thesis
  proof (cases "OSIntNesting s1 = 0 \<and> OSLockNesting s1 = 0")
    case True
    then show ?thesis
      using OS_Sched_scheduled [OF ok] scheduled_sched_ok [OF ok] keeps_trans [OF k scheduled_frame [OF ok r]]
      by simp
  next
    case False
    then have "sched_ok s1" using b by (auto simp: sched_ok_def before_sched_def)
    moreover have "OS_Sched s1 = Some s1" using False by (auto simp: OS_Sched_def)
    ultimately show ?thesis using k by blast
  qed
qed

text \<open>A call that does not touch the ready list, the nesting counters or the selection.\<close>

definition sched_view where
  "sched_view s = (OSIntNesting s, OSLockNesting s, OSPrioHighRdy s, OSPrioCur s, switchPending s, ready s)"

lemma sched_ok_cong: "sched_view s' = sched_view s \<Longrightarrow> sched_ok s' = sched_ok s"
  by (simp add: sched_view_def sched_ok_def highest_def)

lemma system_ok_keeps: "system_ok s \<Longrightarrow> keeps s s' \<Longrightarrow> sched_ok s' \<Longrightarrow> system_ok s'"
  using static_ok_cong [of s' s] by (simp add: system_ok_def keeps_def)

lemma system_okD:
  assumes "system_ok s"
  shows "os_ok s" "static_ok s" "rings_ok s" "sched_ok s" "keeps s s"
  using assms by (simp_all add: system_ok_def keeps_def)

section \<open>Posting\<close>

lemma asleep_cong:
  assumes "asleep p n s" and "OSTCBPrioTbl s' p = OSTCBPrioTbl s p" and "unat p \<notin> ready s'"
    and "\<And>e. e \<in> set (OSEvents s') \<Longrightarrow> unat p \<notin> waiting e"
  shows "asleep p n s'"
  using assms by (simp add: asleep_def)

lemma OS_EventTaskRdy_frame:
  "OS_EventTaskRdy ev m msk st s = Some (p, s') \<Longrightarrow>
     OSRunning s' = OSRunning s \<and> OSTCBList s' = OSTCBList s \<and> OSTmrSemSignal s' = OSTmrSemSignal s
     \<and> OSTickStepState s' = OSTickStepState s \<and> OSQTbl s' = OSQTbl s \<and> OSPrioCur s' = OSPrioCur s
     \<and> OSIntNesting s' = OSIntNesting s \<and> OSLockNesting s' = OSLockNesting s
     \<and> switchPending s' = switchPending s \<and> OSTime s' = OSTime s \<and> OSTmrCtr s' = OSTmrCtr s"
  by (auto simp: OS_EventTaskRdy_def Let_def bind_eq_Some_conv split: option.splits if_splits)

lemma woken_keeps:
  assumes sys: "system_ok s" and ev: "event_in ev s" and ok1: "os_ok s1"
    and w: "all_woken m msk st W s s1" "W \<subseteq> waiting (OSEvents s ! ev)"
    and e: "waiting (OSEvents s1 ! ev) \<subseteq> waiting (OSEvents s ! ev)"
    and rd: "ready s1 = ready s \<union> runnable msk s W" and rs: "rest_same ev s s1"
  shows "keeps s s1"
proof -
  have lt: "ev < length (OSEvents s)" using ev by (simp add: event_in_def)
  note r = rest_sameD [OF rs]
  have ks: "map kind_of (OSEvents s1) = map kind_of (OSEvents s)"
  proof (rule nth_equalityI)
    fix i assume "i < length (map kind_of (OSEvents s1))"
    then show "map kind_of (OSEvents s1) ! i = map kind_of (OSEvents s) ! i"
      using r(1-4) by (cases "i = ev") (simp_all add: kind_of_def)
  qed (simp add: r(1))
  have u: "unat (of_nat p :: u8) = p" if "p \<in> W" for p
    using that w(2) prios_bound by (force simp: unat_of_nat)
  have "OSTCBPrioTbl s1 q = None \<longleftrightarrow> OSTCBPrioTbl s q = None" for q
  proof (cases "unat q \<in> W")
    case True
    then obtain t v where "OSTCBPrioTbl s (of_nat (unat q)) = Some t" "OSTCBPrioTbl s1 (of_nat (unat q)) = Some v"
      using w(1) unfolding all_woken_def by blast
    then show ?thesis by simp
  next
    case False
    then show ?thesis using w(1) by (simp add: all_woken_def)
  qed
  then have "dom (OSTCBPrioTbl s1) = dom (OSTCBPrioTbl s)" by (simp add: dom_def)
  then have "static s1 = static s" using ks r(12-15) by (simp add: static_def)
  moreover have "rings_ok s1" using system_okD(3) [OF sys] ks r(9) by (simp add: rings_ok_def)
  moreover have "asleep q n s1" if a: "asleep q n s" for q n
  proof (rule asleep_cong [OF a])
    have aw: "\<And>i. i < length (OSEvents s) \<Longrightarrow> unat q \<notin> waiting (OSEvents s ! i)"
      using a by (simp add: asleep_def)
    then have q: "unat q \<notin> W" using w(2) lt by blast
    then show "OSTCBPrioTbl s1 q = OSTCBPrioTbl s q" using w(1) by (simp add: all_woken_def)
    show "unat q \<notin> ready s1" using a q rd by (auto simp: asleep_def runnable_def)
    fix x assume "x \<in> set (OSEvents s1)"
    then obtain i where i: "i < length (OSEvents s)" "x = OSEvents s1 ! i"
      using r(1) by (auto simp: in_set_conv_nth)
    have "waiting x \<subseteq> waiting (OSEvents s ! i)" using i e r(2) by (cases "i = ev") auto
    then show "unat q \<notin> waiting x" using aw [OF i(1)] by blast
  qed
  ultimately show ?thesis using ok1 by (simp add: keeps_def)
qed

lemma woken_before_sched:
  assumes sys: "system_ok s" and rd: "ready s1 = ready s \<union> W" and rs: "rest_same ev s s1"
  shows "before_sched s1"
  using system_okD(4) [OF sys] rest_sameD(5-8) [OF rs] rd by (auto simp: before_sched_def sched_ok_def)

lemma readied_step:
  assumes sys: "system_ok s" and ev: "event_in ev s" and w: "waiting (OSEvents s ! ev) \<noteq> {}"
  shows "\<exists>p s1 s2. OS_EventTaskRdy ev m msk st s = Some (p, s1) \<and> OS_Sched s1 = Some s2
           \<and> keeps s s2 \<and> sched_ok s2"
proof -
  have lt: "ev < length (OSEvents s)" using ev by (simp add: event_in_def)
  let ?p = "Min (waiting (OSEvents s ! ev))"
  obtain s1 where s1: "OS_EventTaskRdy ev m msk st s = Some (of_nat ?p, s1)" "os_ok s1"
      "?p \<in> waiting (OSEvents s ! ev)" "all_woken m msk st {?p} s s1"
      "waiting (OSEvents s1 ! ev) = waiting (OSEvents s ! ev) - {?p}"
      "ready s1 = ready s \<union> runnable msk s {?p}" "rest_same ev s s1"
    using ready_one [OF system_okD(1) [OF sys] lt w, of m msk st] by blast
  have "keeps s s1" using s1(3,5) by (intro woken_keeps [OF sys ev s1(2,4) _ _ s1(6,7)]) auto
  then show ?thesis using OS_Sched_step [OF _ woken_before_sched [OF sys s1(6,7)]] s1(1) by blast
qed

lemma readied_all_step:
  assumes sys: "system_ok s" and ev: "event_in ev s"
  shows "\<exists>k s1 s2. ready_all ev m msk st n s = Some (k, s1) \<and> OS_Sched s1 = Some s2
           \<and> keeps s s2 \<and> sched_ok s2"
proof -
  have lt: "ev < length (OSEvents s)" using ev by (simp add: event_in_def)
  let ?W = "waiting (OSEvents s ! ev)"
  obtain s1 where s1: "ready_all ev m msk st n s = Some (n + of_nat (card ?W), s1)" "os_ok s1"
      "all_woken m msk st ?W s s1" "waiting (OSEvents s1 ! ev) = {}"
      "ready s1 = ready s \<union> runnable msk s ?W" "rest_same ev s s1"
    using ready_all_ok [OF system_okD(1) [OF sys] lt, of m msk st n] by blast
  have "keeps s s1" using s1(4) by (intro woken_keeps [OF sys ev s1(2,3) _ _ s1(5,6)]) auto
  then show ?thesis using OS_Sched_step [OF _ woken_before_sched [OF sys s1(5,6)]] s1(1) by blast
qed

text \<open>The result of a step that is defined and keeps the invariant.\<close>

definition fine :: "OS \<Rightarrow> OS option \<Rightarrow> bool" where
  "fine s r \<longleftrightarrow> (\<exists>s'. r = Some s' \<and> keeps s s' \<and> sched_ok s')"

lemma fine_same: "system_ok s \<Longrightarrow> fine s (Some s)"
  unfolding fine_def using system_okD(4,5) by blast

lemma fine_still: "keeps s s' \<Longrightarrow> sched_view s' = sched_view s \<Longrightarrow> sched_ok s \<Longrightarrow> fine s (Some s')"
  unfolding fine_def using sched_ok_cong by blast

text \<open>Changing an event, but not its kind and its wait list.\<close>

lemma fine_event:
  assumes sys: "system_ok s" and ev: "event_in ev s" and k: "kind_of e = kind_of (OSEvents s ! ev)"
    and w: "OSEventGrp e = OSEventGrp (OSEvents s ! ev)" "OSEventTbl e = OSEventTbl (OSEvents s ! ev)"
  shows "fine s (Some (s\<lparr>OSEvents := (OSEvents s)[ev := e]\<rparr>))"
proof (rule fine_still)
  let ?s = "s\<lparr>OSEvents := (OSEvents s)[ev := e]\<rparr>"
  note ok = system_okD(1) [OF sys]
  have lt: "ev < length (OSEvents s)" using ev by (simp add: event_in_def)
  have "map kind_of ((OSEvents s)[ev := e]) = map kind_of (OSEvents s)"
    using lt k by (simp add: map_update list_update_same_conv)
  then have "static ?s = static s" "rings_ok ?s"
    using system_okD(3) [OF sys] by (simp_all add: static_def rings_ok_def)
  moreover have "event_ok (OSTCBPrioTbl s) e" using os_okD(8) [OF ok lt] w by (simp add: event_ok_def)
  then have "os_ok ?s" by (rule os_ok_replace_event [OF ok])
  moreover have "asleep p n ?s" if a: "asleep p n s" for p n
  proof (rule asleep_cong [OF a])
    fix x assume "x \<in> set (OSEvents ?s)"
    then have "x \<in> set (OSEvents s) \<or> x = e" by (auto dest: set_update_subset_insert [THEN subsetD])
    then show "unat p \<notin> waiting x" using a lt w by (auto simp: asleep_def)
  qed (use a in \<open>simp_all add: asleep_def\<close>)
  ultimately show "keeps s ?s" by (simp add: keeps_def)
  show "sched_view ?s = sched_view s" by (simp add: sched_view_def)
qed (rule system_okD(4) [OF sys])

lemma fine_count:
  assumes sys: "system_ok s" and ev: "event_in ev s"
  shows "fine s (Some (s\<lparr>OSEvents := (OSEvents s)[ev := (OSEvents s ! ev)\<lparr>OSEventCnt := c\<rparr>]\<rparr>))"
  by (rule fine_event [OF sys ev]) (simp_all add: kind_of_def)

lemma the_mail:
  assumes sys: "system_ok s" and ev: "event_in ev s" and ty: "OSEventType (OSEvents s ! ev) = OS_EVENT_TYPE_MBOX"
  shows "\<exists>m. OSEventPtr (OSEvents s ! ev) = msg_ptr m"
proof -
  have lt: "ev < length (OSEvents s)" using ev by (simp add: event_in_def)
  then have "ring_ok (OSQTbl s) (kind_of (OSEvents s ! ev))"
    using system_okD(3) [OF sys] by (simp add: rings_ok_def list_all_length)
  then have "ptr_msg (OSEventPtr (OSEvents s ! ev)) \<noteq> None" using ty by (simp add: ring_ok_def kind_of_def)
  then show ?thesis by (metis ptr_msg.simps(3,4) msg_ptr.simps EventPtr.exhaust)
qed

lemma fine_mail:
  assumes sys: "system_ok s" and ev: "event_in ev s" and ty: "OSEventType (OSEvents s ! ev) = OS_EVENT_TYPE_MBOX"
  shows "fine s (Some (s\<lparr>OSEvents := (OSEvents s)[ev := (OSEvents s ! ev)\<lparr>OSEventPtr := msg_ptr m\<rparr>]\<rparr>))"
proof -
  obtain m0 where "OSEventPtr (OSEvents s ! ev) = msg_ptr m0" using the_mail [OF sys ev ty] by blast
  moreover have "event_queue (msg_ptr x) = None" for x by (cases x) simp_all
  ultimately show ?thesis by (intro fine_event [OF sys ev]) (simp_all add: kind_of_def)
qed

lemma fine_ring:
  assumes sys: "system_ok s" and q: "q_ok q'"
  shows "fine s (Some (s\<lparr>OSQTbl := (OSQTbl s)[i := q']\<rparr>))"
proof (rule fine_still)
  let ?s = "s\<lparr>OSQTbl := (OSQTbl s)[i := q']\<rparr>"
  have "rings_ok ?s"
    using system_okD(3) [OF sys] q by (auto simp: rings_ok_def list_all_iff ring_ok_upd)
  then show "keeps s ?s"
    using system_okD(1) [OF sys] by (simp add: keeps_def static_def asleep_def)
  show "sched_view ?s = sched_view s" by (simp add: sched_view_def)
qed (rule system_okD(4) [OF sys])

lemma the_ring:
  assumes sys: "system_ok s" and ev: "event_in ev s" and ty: "OSEventType (OSEvents s ! ev) = OS_EVENT_TYPE_Q"
  shows "\<exists>i q. the_q ev s = Some (i, q) \<and> q_ok q"
proof -
  have lt: "ev < length (OSEvents s)" using ev by (simp add: event_in_def)
  then have "ring_ok (OSQTbl s) (kind_of (OSEvents s ! ev))"
    using system_okD(3) [OF sys] by (simp add: rings_ok_def list_all_length)
  then show ?thesis using lt ty by (auto simp: the_q_Some ring_ok_def kind_of_def)
qed

text \<open>The branch of every post that finds a waiting task.\<close>

lemma fine_readied:
  assumes "system_ok s" and "event_in ev s" and "OSEventGrp (OSEvents s ! ev) \<noteq> 0"
  shows "fine s (do { (_, s) \<leftarrow> OS_EventTaskRdy ev m msk st s; OS_Sched s })"
proof -
  have "waiting (OSEvents s ! ev) \<noteq> {}"
    using waiting_empty_iff [OF system_okD(1) [OF assms(1)]] assms(2,3) by (simp add: event_in_def)
  then show ?thesis using readied_step [OF assms(1,2), of m msk st] by (auto simp: fine_def)
qed

lemma post_snd: "map_option snd (do { (_, s) \<leftarrow> r; s \<leftarrow> OS_Sched s; Some (x, s) }) = do { (_, s) \<leftarrow> r; OS_Sched s }"
proof (cases r)
  case (Some y)
  then show ?thesis by (cases "OS_Sched (snd y)") (simp_all add: case_prod_beta)
qed simp

lemma fine_SemPost:
  assumes sys: "system_ok s" and ev: "event_in ev s"
  shows "fine s (map_option snd (OSSemPost ev s))"
proof -
  let ?e = "OSEvents s ! ev"
  have e: "rd (OSEvents s) ev = Some ?e" using ev by (simp add: event_in_def)
  consider "OSEventType ?e \<noteq> OS_EVENT_TYPE_SEM" | "OSEventType ?e = OS_EVENT_TYPE_SEM" "OSEventGrp ?e \<noteq> 0"
    | "OSEventType ?e = OS_EVENT_TYPE_SEM" "OSEventGrp ?e = 0" "OSEventCnt ?e < 65535"
    | "OSEventType ?e = OS_EVENT_TYPE_SEM" "OSEventGrp ?e = 0" "\<not> OSEventCnt ?e < 65535" by blast
  then show ?thesis
  proof cases
    case 2
    then have "map_option snd (OSSemPost ev s)
        = do { (_, s) \<leftarrow> OS_EventTaskRdy ev None OS_STAT_SEM OS_STAT_PEND_OK s; OS_Sched s }"
      by (simp add: OSSemPost_def e post_snd del: rd_eq_Some)
    then show ?thesis using fine_readied [OF sys ev 2(2)] by simp
  qed (simp_all add: OSSemPost_def e fine_same [OF sys] fine_count [OF sys ev] del: rd_eq_Some)
qed

lemma fine_QPost:
  assumes sys: "system_ok s" and ev: "event_in ev s"
  shows "fine s (map_option snd (OSQPost ev m s))" and "fine s (map_option snd (OSQPostFront ev m s))"
proof -
  let ?e = "OSEvents s ! ev"
  have e: "rd (OSEvents s) ev = Some ?e" using ev by (simp add: event_in_def)
  consider "OSEventType ?e \<noteq> OS_EVENT_TYPE_Q" | "OSEventType ?e = OS_EVENT_TYPE_Q" "OSEventGrp ?e \<noteq> 0"
    | i q where "OSEventType ?e = OS_EVENT_TYPE_Q" "OSEventGrp ?e = 0" "the_q ev s = Some (i, q)" "q_ok q"
    using the_ring [OF sys ev] by blast
  then have "fine s (map_option snd (OSQPost ev m s)) \<and> fine s (map_option snd (OSQPostFront ev m s))"
  proof cases
    case 1
    then show ?thesis by (simp add: OSQPost_def OSQPostFront_def e fine_same [OF sys] del: rd_eq_Some)
  next
    case 2
    then have "map_option snd (OSQPost ev m s)
        = do { (_, s) \<leftarrow> OS_EventTaskRdy ev m OS_STAT_Q OS_STAT_PEND_OK s; OS_Sched s }"
      "map_option snd (OSQPostFront ev m s)
        = do { (_, s) \<leftarrow> OS_EventTaskRdy ev m OS_STAT_Q OS_STAT_PEND_OK s; OS_Sched s }"
      by (simp_all add: OSQPost_def OSQPostFront_def e post_snd del: rd_eq_Some)
    then show ?thesis using fine_readied [OF sys ev 2(2)] by simp
  next
    case 3
    show ?thesis
    proof (cases "q_full q")
      case True
      then show ?thesis using 3 by (simp add: OSQPost_def OSQPostFront_def e fine_same [OF sys] del: rd_eq_Some)
    next
      case False
      obtain q1 q2 where "q_put m q = Some q1" "q_ok q1" "q_put_front m q = Some q2" "q_ok q2"
        using osq.put [OF 3(4) False] osq.put_front [OF 3(4) False] by blast
      then show ?thesis using 3 False fine_ring [OF sys]
        by (simp add: OSQPost_def OSQPostFront_def e del: rd_eq_Some)
    qed
  qed
  then show "fine s (map_option snd (OSQPost ev m s))" "fine s (map_option snd (OSQPostFront ev m s))" by auto
qed

section \<open>Taking without waiting\<close>

lemma fine_SemAccept:
  assumes sys: "system_ok s" and ev: "event_in ev s"
  shows "fine s (map_option snd (OSSemAccept ev s))"
proof -
  have e: "rd (OSEvents s) ev = Some (OSEvents s ! ev)" using ev by (simp add: event_in_def)
  show ?thesis
    by (simp add: OSSemAccept_def e Let_def fine_same [OF sys] fine_count [OF sys ev] del: rd_eq_Some)
qed

lemma q_take_ok:
  assumes "q_ok q" and "OSQEntries q > 0"
  shows "\<exists>m q'. q_take q = Some (m, q') \<and> q_ok q'"
proof -
  have "length (q_list q) \<noteq> 0" using assms(2) by (simp add: word_gt_0 unat_eq_0)
  then obtain m ms where "q_list q = m # ms" by (cases "q_list q") auto
  then show ?thesis using osq.take_first [OF assms(1)] by blast
qed

lemma fine_QAccept:
  assumes sys: "system_ok s" and ev: "event_in ev s"
  shows "fine s (map_option (snd \<circ> snd) (OSQAccept ev s))"
proof -
  have e: "rd (OSEvents s) ev = Some (OSEvents s ! ev)" using ev by (simp add: event_in_def)
  show ?thesis
  proof (cases "OSEventType (OSEvents s ! ev) = OS_EVENT_TYPE_Q")
    case True
    then obtain i q where q: "the_q ev s = Some (i, q)" "q_ok q" using the_ring [OF sys ev] by blast
    show ?thesis
    proof (cases "OSQEntries q > 0")
      case pos: True
      then obtain m q' where "q_take q = Some (m, q')" "q_ok q'" using q_take_ok [OF q(2)] by blast
      then show ?thesis using True q pos fine_ring [OF sys] by (simp add: OSQAccept_def e del: rd_eq_Some)
    next
      case False
      then show ?thesis using True q by (simp add: OSQAccept_def e fine_same [OF sys] del: rd_eq_Some)
    qed
  next
    case False
    then show ?thesis by (simp add: OSQAccept_def e fine_same [OF sys] del: rd_eq_Some)
  qed
qed

lemma fine_QFlush:
  assumes sys: "system_ok s" and ev: "event_in ev s" and ty: "OSEventType (OSEvents s ! ev) = OS_EVENT_TYPE_Q"
  shows "fine s (OSQFlush ev s)"
proof -
  obtain i q where q: "the_q ev s = Some (i, q)" "q_ok q" using the_ring [OF sys ev ty] by blast
  have "q_ok (q\<lparr>OSQIn := 0, OSQOut := 0, OSQEntries := 0\<rparr>)" using q(2) by (simp add: q_ok_def)
  then show ?thesis using q(1) fine_ring [OF sys] by (simp add: OSQFlush_def)
qed

section \<open>Nesting, locking and switching\<close>

lemma keeps_nesting:
  assumes "system_ok s" and "static s' = static s" and "OSQTbl s' = OSQTbl s" and "OSEvents s' = OSEvents s"
    and "OSTCBPrioTbl s' = OSTCBPrioTbl s" and "OSRdyGrp s' = OSRdyGrp s" and "OSRdyTbl s' = OSRdyTbl s"
  shows "keeps s s'"
  using assms system_okD(1,3) [OF assms(1)] by (simp add: keeps_def rings_ok_def os_ok_def asleep_def)

lemma fine_IntEnter:
  assumes sys: "system_ok s" and n: "OSIntNesting s < 255"
  shows "fine s (Some (OSIntEnter s))"
proof -
  have "OSIntNesting s + 1 \<noteq> 0" using n by (rule inc_not_zero)
  then have "sched_ok (OSIntEnter s)"
    using system_okD(4) [OF sys] n by (auto simp: sched_ok_def OSIntEnter_def)
  moreover have "keeps s (OSIntEnter s)"
    by (rule keeps_nesting [OF sys]) (simp_all add: OSIntEnter_def static_def)
  ultimately show ?thesis by (simp add: fine_def)
qed

lemma fine_IntExit:
  assumes sys: "system_ok s" and n: "OSIntNesting s > 0"
  shows "fine s (OSIntExit s)"
proof -
  let ?s = "s\<lparr>OSIntNesting := OSIntNesting s - 1\<rparr>"
  have run: "OSRunning s" using system_okD(2) [OF sys] by (simp add: static_ok_def)
  have k: "keeps s ?s" by (rule keeps_nesting [OF sys]) (simp_all add: static_def)
  then have ok: "os_ok ?s" "rings_ok ?s" by (simp_all add: keeps_def)
  show ?thesis
  proof (cases "OSIntNesting ?s = 0 \<and> OSLockNesting ?s = 0")
    case True
    then have "OSIntExit s = Some (scheduled ?s)"
      using run n request_switch_scheduled [OF ok(1)] by (simp add: OSIntExit_def Let_def)
    then show ?thesis
      using keeps_trans [OF k scheduled_frame [OF ok]] scheduled_sched_ok [OF ok(1)] True
      unfolding fine_def by blast
  next
    case False
    then have "OSIntExit s = Some ?s" using run n by (auto simp: OSIntExit_def Let_def)
    moreover have "sched_ok ?s" using system_okD(4) [OF sys] False by (auto simp: sched_ok_def)
    ultimately show ?thesis using k unfolding fine_def by blast
  qed
qed

lemma fine_SchedLock:
  assumes sys: "system_ok s" and c: "can_call s"
  shows "fine s (Some (OSSchedLock s))"
proof -
  have "OSLockNesting s + 1 \<noteq> 0" if "OSLockNesting s < 255" using that by (rule inc_not_zero)
  then have "sched_ok (OSSchedLock s)"
    using system_okD(4) [OF sys] c by (auto simp: sched_ok_def OSSchedLock_def can_call_def)
  moreover have "keeps s (OSSchedLock s)"
    by (rule keeps_nesting [OF sys]) (simp_all add: OSSchedLock_def static_def)
  ultimately show ?thesis by (simp add: fine_def)
qed

lemma fine_SchedUnlock:
  assumes sys: "system_ok s" and c: "can_call s"
  shows "fine s (OSSchedUnlock s)"
proof (cases "OSRunning s \<and> OSIntNesting s = 0 \<and> OSLockNesting s > 0")
  case True
  let ?s = "s\<lparr>OSLockNesting := OSLockNesting s - 1\<rparr>"
  have k: "keeps s ?s" by (rule keeps_nesting [OF sys]) (simp_all add: static_def)
  have p: "\<not> switchPending s" using True c by (simp add: can_call_def)
  then have cur: "unat (OSPrioCur s) \<in> ready s" using system_okD(4) [OF sys] by (simp add: sched_ok_def)
  show ?thesis
  proof (cases "OSLockNesting ?s = 0")
    case z: True
    then have "OSSchedUnlock s = OS_Sched ?s" using True by (simp add: OSSchedUnlock_def)
    moreover have "before_sched ?s" using p cur by (simp add: before_sched_def)
    ultimately show ?thesis using OS_Sched_step [OF k] by (simp add: fine_def)
  next
    case False
    then have "OSSchedUnlock s = Some ?s" using True by (simp add: OSSchedUnlock_def Let_def)
    moreover have "sched_ok ?s" using False p cur by (simp add: sched_ok_def)
    ultimately show ?thesis using k by (simp add: fine_def)
  qed
next
  case False
  then have "OSSchedUnlock s = Some s" by (auto simp: OSSchedUnlock_def)
  then show ?thesis using fine_same [OF sys] by simp
qed

lemma fine_PendSV:
  assumes sys: "system_ok s" and c: "switchPending s" "OSIntNesting s = 0"
  shows "fine s (Some (OS_CPU_PendSVHandler s))"
proof -
  have "OSPrioHighRdy s = highest s" "OSLockNesting s = 0"
    using system_okD(4) [OF sys] c by (auto simp: sched_ok_def)
  moreover have "unat (highest s) \<in> ready s" using highest_ready [OF system_okD(1) [OF sys]] by simp
  ultimately have "sched_ok (OS_CPU_PendSVHandler s)"
    by (simp add: sched_ok_def OS_CPU_PendSVHandler_def highest_def)
  moreover have "keeps s (OS_CPU_PendSVHandler s)"
    by (rule keeps_nesting [OF sys]) (simp_all add: OS_CPU_PendSVHandler_def static_def)
  ultimately show ?thesis by (simp add: fine_def)
qed

section \<open>Blocking\<close>

text \<open>The task that can block is ready, so it is not one that sleeps.\<close>

lemma runner:
  assumes sys: "system_ok s" and c: "\<not> switchPending s"
  shows "unat (OSPrioCur s) \<in> ready s" and "\<exists>t. OSTCBPrioTbl s (OSPrioCur s) = Some t"
    and "asleep p n s \<Longrightarrow> p \<noteq> OSPrioCur s"
proof -
  show r: "unat (OSPrioCur s) \<in> ready s" using system_okD(4) [OF sys] c by (simp add: sched_ok_def)
  then show "\<exists>t. OSTCBPrioTbl s (OSPrioCur s) = Some t"
    using os_okD(6) [OF system_okD(1) [OF sys]] by fastforce
  show "p \<noteq> OSPrioCur s" if "asleep p n s" using that r by (auto simp: asleep_def)
qed

text \<open>Writing the block of the running task.\<close>

lemma keeps_runner:
  assumes sys: "system_ok s" and c: "\<not> switchPending s"
    and t: "OSTCBPrioTbl s (OSPrioCur s) = Some t"
    and u: "OSTCBY u = OSTCBY t" "OSTCBBitX u = OSTCBBitX t" "OSTCBBitY u = OSTCBBitY t"
      "OSTCBEventMultiPtr u = None"
    and r: "bits_ok r" "63 \<in> prios r" "prios r \<subseteq> ready s"
  shows "keeps s (with_task (OSPrioCur s) u r s)"
proof -
  let ?s = "with_task (OSPrioCur s) u r s"
  note ok = system_okD(1) [OF sys]
  have "OSTCBEventMultiPtr u = OSTCBEventMultiPtr t" using os_okD(5) [OF ok t] u(4) by simp
  then have "os_ok ?s" using r by (intro with_task_ok [OF ok t] u) auto
  moreover have "static ?s = static s" using t by (auto simp: static_def)
  moreover have "rings_ok ?s" using system_okD(3) [OF sys] by (simp add: rings_ok_def)
  moreover have "asleep p n ?s" if a: "asleep p n s" for p n
    using a runner(3) [OF sys c a] r(3) by (auto simp: asleep_def)
  ultimately show ?thesis by (simp add: keeps_def)
qed

lemma fine_OSTimeDly:
  assumes sys: "system_ok s" and c: "can_block s"
  shows "fine s (OSTimeDly n s)"
proof (cases "OSIntNesting s = 0 \<and> OSLockNesting s = 0 \<and> n > 0")
  case True
  note ok = system_okD(1) [OF sys]
  have p: "\<not> switchPending s" using True c by (simp add: can_block_def can_call_def)
  obtain t where t: "OSTCBPrioTbl s (OSPrioCur s) = Some t" using runner(2) [OF sys p] by blast
  obtain r where r: "bits_clear t (OSRdyGrp s, OSRdyTbl s) = Some r" "bits_ok r"
      "prios r = ready s - {unat (OSPrioCur s)}"
    using prio.rem [OF os_okD(4) [OF ok t] os_okD(1) [OF ok]] by blast
  have "unat (OSPrioCur s) \<noteq> 63" using c by (simp add: can_block_def OS_TASK_IDLE_PRIO_def word_unat_eq_iff)
  then have k: "keeps s (with_task (OSPrioCur s) (t\<lparr>OSTCBDly := n\<rparr>) r s)"
    using r os_okD(2) [OF ok] os_okD(5) [OF ok t] by (intro keeps_runner [OF sys p t]) simp_all
  have "OSTimeDly n s = OS_Sched (with_task (OSPrioCur s) (t\<lparr>OSTCBDly := n\<rparr>) r s)"
    using True t r(1) by (simp add: OSTimeDly_def case_prod_beta)
  moreover have "before_sched (with_task (OSPrioCur s) (t\<lparr>OSTCBDly := n\<rparr>) r s)"
    using True p by (simp add: before_sched_def)
  ultimately show ?thesis using OS_Sched_step [OF k] by (simp add: fine_def)
next
  case False
  then have "OSTimeDly n s = Some s" by (auto simp: OSTimeDly_def word_gt_0)
  then show ?thesis using fine_same [OF sys] by simp
qed

text \<open>After its call the task sleeps.\<close>

lemma OSTimeDly_asleep:
  assumes sys: "system_ok s" and c: "can_block s" and n: "OSIntNesting s = 0" "OSLockNesting s = 0" "n > 0"
    and t: "OSTCBPrioTbl s (OSPrioCur s) = Some t" "\<not> suspended t"
    and w: "\<forall>e \<in> set (OSEvents s). unat (OSPrioCur s) \<notin> waiting e"
  shows "\<exists>s1. OSTimeDly n s = Some s1 \<and> asleep (OSPrioCur s) n s1"
proof -
  note ok = system_okD(1) [OF sys]
  have p: "\<not> switchPending s" using n c by (simp add: can_block_def can_call_def)
  obtain r where r: "bits_clear t (OSRdyGrp s, OSRdyTbl s) = Some r" "bits_ok r"
      "prios r = ready s - {unat (OSPrioCur s)}"
    using prio.rem [OF os_okD(4) [OF ok t(1)] os_okD(1) [OF ok]] by blast
  let ?s = "with_task (OSPrioCur s) (t\<lparr>OSTCBDly := n\<rparr>) r s"
  have "unat (OSPrioCur s) \<noteq> 63" using c by (simp add: can_block_def OS_TASK_IDLE_PRIO_def word_unat_eq_iff)
  then have "keeps s ?s"
    using r os_okD(2) [OF ok] os_okD(5) [OF ok t(1)] by (intro keeps_runner [OF sys p t(1)]) simp_all
  then have "keeps ?s ?s" by (simp add: keeps_def)
  moreover have "before_sched ?s" using n p by (simp add: before_sched_def)
  ultimately obtain s1 where "OS_Sched ?s = Some s1" "keeps ?s s1" using OS_Sched_step by blast
  moreover have "asleep (OSPrioCur s) n ?s" using t w r(3) by (simp add: asleep_def suspended_def)
  moreover have "OSTimeDly n s = OS_Sched ?s" using n t r(1) by (simp add: OSTimeDly_def case_prod_beta)
  ultimately show ?thesis by (auto simp: keeps_def)
qed

lemma wait_frame:
  assumes "OS_EventTaskWait ev s = Some s'"
  shows "\<exists>t g tb. OSTCBPrioTbl s (OSPrioCur s) = Some t
      \<and> OSTCBPrioTbl s' = (OSTCBPrioTbl s)(OSPrioCur s \<mapsto> t\<lparr>OSTCBEventPtr := Some ev\<rparr>)
      \<and> OSEvents s' = (OSEvents s)[ev := (OSEvents s ! ev)\<lparr>OSEventGrp := g, OSEventTbl := tb\<rparr>]"
    and "OSRunning s' = OSRunning s \<and> OSTCBList s' = OSTCBList s \<and> OSTmrSemSignal s' = OSTmrSemSignal s
      \<and> OSTickStepState s' = OSTickStepState s \<and> OSQTbl s' = OSQTbl s \<and> switchPending s' = switchPending s
      \<and> OSIntNesting s' = OSIntNesting s \<and> OSLockNesting s' = OSLockNesting s \<and> OSPrioCur s' = OSPrioCur s"
proof -
  obtain t w r where t: "OSTCBPrioTbl s (OSPrioCur s) = Some t" and s': "s' =
      s\<lparr>OSTCBPrioTbl := (OSTCBPrioTbl s)(OSPrioCur s \<mapsto> t\<lparr>OSTCBEventPtr := Some ev\<rparr>),
        OSEvents := (OSEvents s)[ev := (OSEvents s ! ev)\<lparr>OSEventGrp := fst w, OSEventTbl := snd w\<rparr>],
        OSRdyGrp := fst r, OSRdyTbl := snd r\<rparr>"
    using assms by (auto simp: OS_EventTaskWait_def bind_eq_Some_conv)
  show "\<exists>t g tb. OSTCBPrioTbl s (OSPrioCur s) = Some t
      \<and> OSTCBPrioTbl s' = (OSTCBPrioTbl s)(OSPrioCur s \<mapsto> t\<lparr>OSTCBEventPtr := Some ev\<rparr>)
      \<and> OSEvents s' = (OSEvents s)[ev := (OSEvents s ! ev)\<lparr>OSEventGrp := g, OSEventTbl := tb\<rparr>]"
    using t s' by (intro exI [of _ t] exI [of _ "fst w"] exI [of _ "snd w"]) simp
qed (use assms in \<open>auto simp: OS_EventTaskWait_def bind_eq_Some_conv\<close>)

lemma kinds_replaced:
  assumes "ev < length evs" and "kind_of e = kind_of (evs ! ev)"
  shows "map kind_of (evs[ev := e]) = map kind_of evs"
  using assms by (simp add: map_update list_update_same_conv)

lemma fine_pend_wait:
  assumes sys: "system_ok s" and p: "\<not> switchPending s" and idle: "OSPrioCur s \<noteq> OS_TASK_IDLE_PRIO"
    and ev: "event_in ev s" and n: "OSIntNesting s = 0" "OSLockNesting s = 0"
  shows "fine s (pend_wait stat timeout ev s)"
proof -
  note ok = system_okD(1) [OF sys]
  obtain t where t: "OSTCBPrioTbl s (OSPrioCur s) = Some t" using runner(2) [OF sys p] by blast
  let ?u = "t\<lparr>OSTCBStat := OSTCBStat t OR stat, OSTCBStatPend := OS_STAT_PEND_OK, OSTCBDly := timeout\<rparr>"
  let ?s = "s\<lparr>OSTCBPrioTbl := (OSTCBPrioTbl s)(OSPrioCur s \<mapsto> ?u)\<rparr>"
  have "keeps s (with_task (OSPrioCur s) ?u (OSRdyGrp s, OSRdyTbl s) s)"
    using os_okD(1,2) [OF ok] os_okD(5) [OF ok t] by (intro keeps_runner [OF sys p t]) simp_all
  then have k: "keeps s ?s" by simp
  then have ok1: "os_ok ?s" by (simp add: keeps_def)
  have lt: "ev < length (OSEvents ?s)" using ev by (simp add: event_in_def)
  have i63: "OSPrioCur ?s \<noteq> 63" using idle by (simp add: OS_TASK_IDLE_PRIO_def)
  have u: "OSTCBPrioTbl ?s (OSPrioCur ?s) = Some ?u" by simp
  obtain s2 where s2: "OS_EventTaskWait ev ?s = Some s2" "os_ok s2"
      "ready s2 = ready s - {unat (OSPrioCur s)}"
      "waiting (OSEvents s2 ! ev) = insert (unat (OSPrioCur s)) (waiting (OSEvents s ! ev))"
    using OS_EventTaskWait_ok [OF ok1 lt u i63] by auto
  obtain g tb where w: "OSTCBPrioTbl s2 = (OSTCBPrioTbl s)(OSPrioCur s \<mapsto> ?u\<lparr>OSTCBEventPtr := Some ev\<rparr>)"
      "OSEvents s2 = (OSEvents s)[ev := (OSEvents s ! ev)\<lparr>OSEventGrp := g, OSEventTbl := tb\<rparr>]"
    using wait_frame(1) [OF s2(1)] by auto
  note fr = wait_frame(2) [OF s2(1)]
  have ks: "map kind_of (OSEvents s2) = map kind_of (OSEvents s)"
    using w(2) lt by (simp add: kinds_replaced kind_of_def)
  have "static s2 = static s" using fr ks w(1) t by (auto simp: static_def)
  moreover have "rings_ok s2" using fr ks system_okD(3) [OF sys] by (simp add: rings_ok_def)
  moreover have "asleep q m s2" if a: "asleep q m s" for q m
  proof (rule asleep_cong [OF a])
    have q: "q \<noteq> OSPrioCur s" using runner(3) [OF sys p a] .
    then show "OSTCBPrioTbl s2 q = OSTCBPrioTbl s q" using w(1) by simp
    show "unat q \<notin> ready s2" using a s2(3) by (simp add: asleep_def)
    fix e assume "e \<in> set (OSEvents s2)"
    then obtain i where i: "i < length (OSEvents s)" "e = OSEvents s2 ! i"
      using w(2) by (auto simp: in_set_conv_nth)
    have "waiting e \<subseteq> insert (unat (OSPrioCur s)) (waiting (OSEvents s ! i))"
      using i s2(4) w(2) by (cases "i = ev") auto
    moreover have "unat q \<notin> waiting (OSEvents s ! i)" using a i(1) by (simp add: asleep_def)
    ultimately show "unat q \<notin> waiting e" using q by (auto simp: word_unat_eq_iff)
  qed
  ultimately have k2: "keeps s s2" using s2(2) by (simp add: keeps_def)
  have "pend_wait stat timeout ev s = OS_Sched s2" using t s2(1) by (simp add: pend_wait_def Let_def)
  moreover have "before_sched s2" using fr p n by (simp add: before_sched_def)
  ultimately show ?thesis using OS_Sched_step [OF k2] by (simp add: fine_def)
qed

lemma block_snd: "map_option snd (do { s \<leftarrow> r; Some (x, s) }) = r"
  by (cases r) simp_all

lemma fine_SemPend:
  assumes sys: "system_ok s" and c: "can_block s" and ev: "event_in ev s"
  shows "fine s (map_option snd (OSSemPend ev n s))"
proof -
  have e: "rd (OSEvents s) ev = Some (OSEvents s ! ev)" using ev by (simp add: event_in_def)
  have "fine s (pend_wait OS_STAT_SEM n ev s)" if "OSIntNesting s = 0" "OSLockNesting s = 0"
    using that c by (intro fine_pend_wait [OF sys _ _ ev]) (auto simp: can_block_def can_call_def)
  then show ?thesis
    by (auto simp: OSSemPend_def e word_gt_0 fine_same [OF sys] fine_count [OF sys ev] block_snd
        simp del: rd_eq_Some)
qed

lemma fine_QPend:
  assumes sys: "system_ok s" and c: "can_block s" and ev: "event_in ev s"
  shows "fine s (map_option snd (OSQPend ev n s))"
proof -
  have e: "rd (OSEvents s) ev = Some (OSEvents s ! ev)" using ev by (simp add: event_in_def)
  have w: "fine s (pend_wait OS_STAT_Q n ev s)" if "OSIntNesting s = 0" "OSLockNesting s = 0"
    using that c by (intro fine_pend_wait [OF sys _ _ ev]) (auto simp: can_block_def can_call_def)
  show ?thesis
  proof (cases "OSEventType (OSEvents s ! ev) = OS_EVENT_TYPE_Q \<and> OSIntNesting s = 0 \<and> OSLockNesting s = 0")
    case True
    then obtain i q where q: "the_q ev s = Some (i, q)" "q_ok q" using the_ring [OF sys ev] by blast
    show ?thesis
    proof (cases "OSQEntries q > 0")
      case pos: True
      then obtain m q' where "q_take q = Some (m, q')" "q_ok q'" using q_take_ok [OF q(2)] by blast
      then show ?thesis using True q pos fine_ring [OF sys] by (simp add: OSQPend_def e del: rd_eq_Some)
    next
      case False
      then show ?thesis using True q w by (simp add: OSQPend_def e block_snd del: rd_eq_Some)
    qed
  next
    case False
    then show ?thesis by (auto simp: OSQPend_def e fine_same [OF sys] word_gt_0 simp del: rd_eq_Some)
  qed
qed

section \<open>The end of a wait\<close>

lemma resume_step:
  assumes sys: "system_ok s" and p: "\<not> switchPending s" and ev: "event_in ev s"
  shows "\<exists>m err s'. pend_resume ev s = Some (m, err, s') \<and> keeps s s' \<and> sched_view s' = sched_view s"
proof -
  note ok = system_okD(1) [OF sys]
  obtain t where t: "OSTCBPrioTbl s (OSPrioCur s) = Some t" using runner(2) [OF sys p] by blast
  let ?u = "t\<lparr>OSTCBStat := OS_STAT_RDY, OSTCBStatPend := OS_STAT_PEND_OK, OSTCBEventPtr := None,
         OSTCBEventMultiPtr := None\<rparr>"
  let ?w = "\<lambda>s. s\<lparr>OSTCBPrioTbl := (OSTCBPrioTbl s)(OSPrioCur s \<mapsto> ?u)\<rparr>"
  have w: "keeps s1 (?w s1) \<and> sched_view (?w s1) = sched_view s1"
    if "system_ok s1" "\<not> switchPending s1" "OSTCBPrioTbl s1 (OSPrioCur s1) = Some t" for s1
  proof -
    have "keeps s1 (with_task (OSPrioCur s1) ?u (OSRdyGrp s1, OSRdyTbl s1) s1)"
      using os_okD(1,2) [OF system_okD(1) [OF that(1)]] by (intro keeps_runner [OF that]) simp_all
    then show ?thesis by (simp add: sched_view_def)
  qed
  show ?thesis
  proof (cases "OSTCBStatPend t = OS_STAT_PEND_OK \<or> OSTCBStatPend t = OS_STAT_PEND_ABORT")
    case True
    then have "\<exists>m err. pend_resume ev s = Some (m, err, ?w s)" using t by (auto simp: pend_resume_def)
    then show ?thesis using w [OF sys p t] by blast
  next
    case False
    let ?e = "OSEvents s ! ev"
    have lt: "ev < length (OSEvents s)" using ev by (simp add: event_in_def)
    have e: "event_ok (OSTCBPrioTbl s) ?e" using os_okD(8) [OF ok lt] .
    obtain c where c: "bits_clear t (OSEventGrp ?e, OSEventTbl ?e) = Some c" "bits_ok c"
        "prios c = waiting ?e - {unat (OSPrioCur s)}"
      using prio.rem [OF os_okD(4) [OF ok t], of "(OSEventGrp ?e, OSEventTbl ?e)"] e
      unfolding event_ok_def by blast
    let ?e' = "?e\<lparr>OSEventGrp := fst c, OSEventTbl := snd c\<rparr>"
    let ?s = "s\<lparr>OSEvents := (OSEvents s)[ev := ?e']\<rparr>"
    have "event_ok (OSTCBPrioTbl s) ?e'" using e c by (auto simp: event_ok_def)
    then have ok': "os_ok ?s" by (rule os_ok_replace_event [OF ok])
    have ks: "map kind_of ((OSEvents s)[ev := ?e']) = map kind_of (OSEvents s)"
      using lt by (intro kinds_replaced) (simp_all add: kind_of_def)
    then have "static ?s = static s" "rings_ok ?s"
      using system_okD(3) [OF sys] by (simp_all add: static_def rings_ok_def)
    moreover have "asleep q n ?s" if a: "asleep q n s" for q n
    proof (rule asleep_cong [OF a])
      fix x assume "x \<in> set (OSEvents ?s)"
      then have "x \<in> set (OSEvents s) \<or> x = ?e'" by (auto dest: set_update_subset_insert [THEN subsetD])
      then show "unat q \<notin> waiting x" using a lt c(3) by (auto simp: asleep_def)
    qed (use a in \<open>simp_all add: asleep_def\<close>)
    ultimately have k: "keeps s ?s" using ok' by (simp add: keeps_def)
    have v: "sched_view ?s = sched_view s" by (simp add: sched_view_def)
    have sys': "system_ok ?s"
      using system_ok_keeps [OF sys k] sched_ok_cong [OF v] system_okD(4) [OF sys] by simp
    have "pend_resume ev s = Some (None, OS_ERR_TIMEOUT, ?w ?s)"
      using False t c(1) lt
      by (simp add: pend_resume_def OS_EventTaskRemove_def rd_in case_prod_beta del: rd_eq_Some)
    moreover have "keeps ?s (?w ?s) \<and> sched_view (?w ?s) = sched_view ?s" using w [OF sys'] p t by simp
    ultimately show ?thesis using keeps_trans [OF k] v by metis
  qed
qed

lemma fine_resume:
  assumes sys: "system_ok s" and p: "\<not> switchPending s" and ev: "event_in ev s"
  shows "fine s (map_option snd (OSSemPend_resume ev s))"
    and "fine s (map_option (snd \<circ> snd) (OSQPend_resume ev s))"
proof -
  obtain m err s1 where s1: "pend_resume ev s = Some (m, err, s1)" "keeps s s1" "sched_view s1 = sched_view s"
    using resume_step [OF sys p ev] by blast
  have so: "sched_ok s1" using sched_ok_cong [OF s1(3)] system_okD(4) [OF sys] by simp
  show "fine s (map_option snd (OSSemPend_resume ev s))"
    using s1 so by (simp add: OSSemPend_resume_def fine_def)
  have sys1: "system_ok s1" using system_ok_keeps [OF sys s1(2) so] .
  have p1: "\<not> switchPending s1" using s1(3) p by (simp add: sched_view_def)
  obtain t where t: "OSTCBPrioTbl s1 (OSPrioCur s1) = Some t" using runner(2) [OF sys1 p1] by blast
  let ?s = "s1\<lparr>OSTCBPrioTbl := (OSTCBPrioTbl s1)(OSPrioCur s1 \<mapsto> t\<lparr>OSTCBMsg := None\<rparr>)\<rparr>"
  have "keeps s1 (with_task (OSPrioCur s1) (t\<lparr>OSTCBMsg := None\<rparr>) (OSRdyGrp s1, OSRdyTbl s1) s1)"
    using os_okD(1,2,5) [OF system_okD(1) [OF sys1]] t by (intro keeps_runner [OF sys1 p1 t]) auto
  then have "keeps s ?s" using keeps_trans [OF s1(2)] by simp
  moreover have "sched_ok ?s" using so sched_ok_cong [of ?s s1] by (simp add: sched_view_def)
  moreover have "OSQPend_resume ev s = Some (m, err, ?s)" using s1(1) t by (simp add: OSQPend_resume_def)
  ultimately show "fine s (map_option (snd \<circ> snd) (OSQPend_resume ev s))" by (simp add: fine_def)
qed

section \<open>Aborting, options and mailboxes\<close>

lemma sched_snd:
  "map_option (\<lambda>x. snd (snd x)) (do { (n, s) \<leftarrow> r; s \<leftarrow> OS_Sched s; Some (n, err, s) }) = do { (_, s) \<leftarrow> r; OS_Sched s }"
proof (cases r)
  case (Some y)
  then show ?thesis by (cases "OS_Sched (snd y)") (simp_all add: case_prod_beta)
qed simp

lemma bind_drop_fst: "do { (_, s) \<leftarrow> map_option (\<lambda>r. (k, snd r)) r; f s } = do { (_, s) \<leftarrow> r; f s }"
  by (cases r) (simp_all add: case_prod_beta)

lemma fine_readied_all:
  assumes "system_ok s" and "event_in ev s"
  shows "fine s (do { (_, s) \<leftarrow> ready_all ev m msk st n s; OS_Sched s })"
  using readied_all_step [OF assms, of m msk st n] by (auto simp: fine_def)

lemma fine_abort:
  assumes sys: "system_ok s" and ev: "event_in ev s"
  shows "fine s (map_option (snd \<circ> snd) (event_abort ty msk ev opt s))"
proof -
  have e: "rd (OSEvents s) ev = Some (OSEvents s ! ev)" using ev by (simp add: event_in_def)
  show ?thesis
  proof (cases "OSEventType (OSEvents s ! ev) = ty \<and> OSEventGrp (OSEvents s ! ev) \<noteq> 0")
    case True
    then show ?thesis
      using fine_readied_all [OF sys ev] fine_readied [OF sys ev]
      by (simp add: event_abort_def e comp_def sched_snd bind_drop_fst del: rd_eq_Some)
  next
    case False
    then show ?thesis by (auto simp: event_abort_def e fine_same [OF sys] simp del: rd_eq_Some)
  qed
qed

lemma fine_post_waiting:
  assumes sys: "system_ok s" and ev: "event_in ev s" and g: "OSEventGrp (OSEvents s ! ev) \<noteq> 0"
    and opt: "opt AND OS_POST_OPT_NO_SCHED = 0"
  shows "fine s (post_waiting msk ev m opt s)"
  using fine_readied_all [OF sys ev] fine_readied [OF sys ev g] opt by (simp add: post_waiting_def)

lemma fine_SemSet:
  assumes sys: "system_ok s" and ev: "event_in ev s"
  shows "fine s (map_option snd (OSSemSet ev n s))"
proof -
  have e: "rd (OSEvents s) ev = Some (OSEvents s ! ev)" using ev by (simp add: event_in_def)
  show ?thesis
    by (simp add: OSSemSet_def e Let_def fine_same [OF sys] fine_count [OF sys ev] del: rd_eq_Some)
qed

lemma snd_Pair [simp]: "map_option snd (map_option (Pair x) r) = r"
  by (cases r) simp_all

lemma fine_QPostOpt:
  assumes sys: "system_ok s" and ev: "event_in ev s" and opt: "opt AND OS_POST_OPT_NO_SCHED = 0"
  shows "fine s (map_option snd (OSQPostOpt ev m opt s))"
proof -
  let ?e = "OSEvents s ! ev"
  have e: "rd (OSEvents s) ev = Some ?e" using ev by (simp add: event_in_def)
  consider "OSEventType ?e \<noteq> OS_EVENT_TYPE_Q" | "OSEventType ?e = OS_EVENT_TYPE_Q" "OSEventGrp ?e \<noteq> 0"
    | i q where "OSEventType ?e = OS_EVENT_TYPE_Q" "OSEventGrp ?e = 0" "the_q ev s = Some (i, q)" "q_ok q"
    using the_ring [OF sys ev] by blast
  then show ?thesis
  proof cases
    case 1
    then show ?thesis by (simp add: OSQPostOpt_def e fine_same [OF sys] del: rd_eq_Some)
  next
    case 2
    then show ?thesis using fine_post_waiting [OF sys ev _ opt] by (simp add: OSQPostOpt_def e del: rd_eq_Some)
  next
    case 3
    show ?thesis
    proof (cases "q_full q")
      case True
      then show ?thesis using 3 by (simp add: OSQPostOpt_def e fine_same [OF sys] del: rd_eq_Some)
    next
      case False
      obtain q1 q2 where "q_put m q = Some q1" "q_ok q1" "q_put_front m q = Some q2" "q_ok q2"
        using osq.put [OF 3(4) False] osq.put_front [OF 3(4) False] by blast
      then show ?thesis using 3 False fine_ring [OF sys] by (simp add: OSQPostOpt_def e del: rd_eq_Some)
    qed
  qed
qed

lemma fine_MboxPost:
  assumes sys: "system_ok s" and ev: "event_in ev s"
  shows "fine s (map_option snd (OSMboxPost ev m s))"
    and "opt AND OS_POST_OPT_NO_SCHED = 0 \<Longrightarrow> fine s (map_option snd (OSMboxPostOpt ev m opt s))"
proof -
  let ?e = "OSEvents s ! ev"
  have e: "rd (OSEvents s) ev = Some ?e" using ev by (simp add: event_in_def)
  show "fine s (map_option snd (OSMboxPost ev m s))"
  proof (cases "OSEventType ?e = OS_EVENT_TYPE_MBOX \<and> OSEventGrp ?e \<noteq> 0")
    case True
    then show ?thesis using fine_readied [OF sys ev] by (simp add: OSMboxPost_def e post_snd del: rd_eq_Some)
  next
    case False
    then show ?thesis
      by (auto simp: OSMboxPost_def e fine_same [OF sys] fine_mail [OF sys ev] simp del: rd_eq_Some)
  qed
  show "fine s (map_option snd (OSMboxPostOpt ev m opt s))" if "opt AND OS_POST_OPT_NO_SCHED = 0"
    using fine_post_waiting [OF sys ev _ that]
    by (auto simp: OSMboxPostOpt_def e fine_same [OF sys] fine_mail [OF sys ev] simp del: rd_eq_Some)
qed

lemma fine_MboxAccept:
  assumes sys: "system_ok s" and ev: "event_in ev s"
  shows "fine s (map_option snd (OSMboxAccept ev s))"
proof -
  have e: "rd (OSEvents s) ev = Some (OSEvents s ! ev)" using ev by (simp add: event_in_def)
  show ?thesis
  proof (cases "OSEventType (OSEvents s ! ev) = OS_EVENT_TYPE_MBOX")
    case True
    then obtain m where "OSEventPtr (OSEvents s ! ev) = msg_ptr m" using the_mail [OF sys ev] by blast
    then show ?thesis using True fine_mail [OF sys ev True, of None] by (simp add: OSMboxAccept_def e del: rd_eq_Some)
  qed (simp add: OSMboxAccept_def e fine_same [OF sys] del: rd_eq_Some)
qed

lemma fine_MboxPend:
  assumes sys: "system_ok s" and c: "can_block s" and ev: "event_in ev s"
  shows "fine s (map_option snd (OSMboxPend ev n s))"
proof -
  have e: "rd (OSEvents s) ev = Some (OSEvents s ! ev)" using ev by (simp add: event_in_def)
  have w: "fine s (pend_wait OS_STAT_MBOX n ev s)" if "OSIntNesting s = 0" "OSLockNesting s = 0"
    using that c by (intro fine_pend_wait [OF sys _ _ ev]) (auto simp: can_block_def can_call_def)
  show ?thesis
  proof (cases "OSEventType (OSEvents s ! ev) = OS_EVENT_TYPE_MBOX \<and> OSIntNesting s = 0 \<and> OSLockNesting s = 0")
    case True
    then obtain m where "OSEventPtr (OSEvents s ! ev) = msg_ptr m" using the_mail [OF sys ev] by blast
    then show ?thesis
      using True w fine_mail [OF sys ev, of None]
      by (cases m) (simp_all add: OSMboxPend_def e block_snd del: rd_eq_Some)
  next
    case False
    then show ?thesis by (auto simp: OSMboxPend_def e fine_same [OF sys] word_gt_0 simp del: rd_eq_Some)
  qed
qed

lemma fine_MboxResume:
  assumes "system_ok s" and "\<not> switchPending s" and "event_in ev s"
  shows "fine s (map_option (snd \<circ> snd) (OSMboxPend_resume ev s))"
  using fine_resume(2) [OF assms] by (simp add: OSMboxPend_resume_def OSQPend_resume_def)

section \<open>The end of a delay\<close>

lemma safe_task:
  assumes sys: "system_ok s" and t: "OSTCBPrioTbl s p = Some t"
    and u: "OSTCBY u = OSTCBY t" "OSTCBBitX u = OSTCBBitX t" "OSTCBBitY u = OSTCBBitY t"
      "OSTCBEventMultiPtr u = OSTCBEventMultiPtr t"
    and r: "bits_ok r" "prios r \<subseteq> insert (unat p) (ready s)" "ready s \<subseteq> prios r"
  shows "safe s (with_task p u r s)" and "before_sched (with_task p u r s)"
    and "q \<noteq> p \<Longrightarrow> asleep q n s \<Longrightarrow> asleep q n (with_task p u r s)"
proof -
  note ok = system_okD(1) [OF sys]
  have "os_ok (with_task p u r s)" using r os_okD(2) [OF ok] by (intro with_task_ok [OF ok t] u) auto
  moreover have "static (with_task p u r s) = static s" using t by (auto simp: static_def)
  moreover have "rings_ok (with_task p u r s)" using system_okD(3) [OF sys] by (simp add: rings_ok_def)
  ultimately show "safe s (with_task p u r s)" by (simp add: safe_def)
  show "before_sched (with_task p u r s)"
    using system_okD(4) [OF sys] r(3) by (auto simp: before_sched_def sched_ok_def)
  show "asleep q n (with_task p u r s)" if "q \<noteq> p" "asleep q n s"
    using that r(2) by (auto simp: asleep_def word_unat_eq_iff)
qed

lemma OSTimeDlyResume_step:
  assumes sys: "system_ok s"
  shows "\<exists>s'. map_option snd (OSTimeDlyResume p s) = Some s' \<and> safe s s' \<and> sched_ok s'
     \<and> (\<forall>q n. q \<noteq> p \<longrightarrow> asleep q n s \<longrightarrow> asleep q n s')"
proof -
  note ok = system_okD(1) [OF sys]
  have same: ?thesis if "\<exists>err. OSTimeDlyResume p s = Some (err, s)"
    using that system_okD(4,5) [OF sys] keeps_safe by auto
  show ?thesis
  proof (cases "OS_LOWEST_PRIO \<le> p \<or> OSTCBPrioTbl s p = None \<or> (\<exists>t. OSTCBPrioTbl s p = Some t \<and> OSTCBDly t = 0)")
    case True
    then show ?thesis by (intro same) (auto simp: OSTimeDlyResume_def)
  next
    case False
    then obtain t where t: "OSTCBPrioTbl s p = Some t" "OSTCBDly t \<noteq> 0" and low: "\<not> OS_LOWEST_PRIO \<le> p" by auto
    have at: "tcb_at (unat p) (timed_out t)" using os_okD(4) [OF ok t(1)] by (simp add: tcb_at_def)
    obtain r where r: "bits_set (timed_out t) (OSRdyGrp s, OSRdyTbl s) = Some r" "bits_ok r"
        "prios r = insert (unat p) (ready s)"
      using prio.ins [OF at os_okD(1) [OF ok]] by blast
    show ?thesis
    proof (cases "suspended t")
      case True
      let ?s = "with_task p (timed_out t) (OSRdyGrp s, OSRdyTbl s) s"
      have f: "safe s ?s" "before_sched ?s" "\<And>q n. q \<noteq> p \<Longrightarrow> asleep q n s \<Longrightarrow> asleep q n ?s"
        using os_okD(1) [OF ok] by (intro safe_task [OF sys t(1)]; auto)+
      have "OSTimeDlyResume p s = Some (TIME_NONE, ?s)"
        using t low True by (simp add: OSTimeDlyResume_def Let_def suspended_def timed_out_def stat_suspend)
      moreover have "sched_ok ?s" using system_okD(4) [OF sys] sched_ok_cong [of ?s s] by (simp add: sched_view_def)
      ultimately show ?thesis using f by auto
    next
      case False
      let ?s = "with_task p (timed_out t) r s"
      have f: "safe s ?s" "before_sched ?s" "\<And>q n. q \<noteq> p \<Longrightarrow> asleep q n s \<Longrightarrow> asleep q n ?s"
        using r by (intro safe_task [OF sys t(1)]; auto)+
      then have "keeps ?s ?s" by (simp add: safe_def keeps_def)
      then obtain s2 where s2: "OS_Sched ?s = Some s2" "keeps ?s s2" "sched_ok s2"
        using OS_Sched_step [OF _ f(2)] by blast
      have "OSTimeDlyResume p s = do { s2 \<leftarrow> OS_Sched ?s; Some (TIME_NONE, s2) }"
        using t low False r(1)
        by (simp add: OSTimeDlyResume_def Let_def suspended_def timed_out_def stat_suspend case_prod_beta split: if_splits)
      then have "OSTimeDlyResume p s = Some (TIME_NONE, s2)" using s2(1) by simp
      moreover have "\<forall>q n. q \<noteq> p \<longrightarrow> asleep q n s \<longrightarrow> asleep q n s2" using f(3) s2(2) by (simp add: keeps_def)
      ultimately show ?thesis using safe_trans [OF f(1) keeps_safe [OF s2(2)]] s2(3) by auto
    qed
  qed
qed

section \<open>The tick\<close>

lemma fine_hook:
  assumes sys: "system_ok s"
  shows "fine s (OSTimeTickHook s)"
proof -
  let ?s = "s\<lparr>OSTmrCtr := OSTmrCtr s + 1\<rparr>"
  have v: "sched_view (s\<lparr>OSTmrCtr := c\<rparr>) = sched_view s" for c by (simp add: sched_view_def)
  have k: "keeps s (s\<lparr>OSTmrCtr := c\<rparr>)" for c by (rule keeps_nesting [OF sys]) (simp_all add: static_def)
  have so: "sched_ok (s\<lparr>OSTmrCtr := c\<rparr>)" for c using sched_ok_cong [OF v] system_okD(4) [OF sys] by simp
  show ?thesis
  proof (cases "OSTmrCtr ?s \<ge> 100")
    case True
    let ?z = "s\<lparr>OSTmrCtr := 0\<rparr>"
    have z: "system_ok ?z" using system_ok_keeps [OF sys k so] .
    have "event_in (OSTmrSemSignal s) ?z" using system_okD(2) [OF sys] by (simp add: static_ok_def event_in_def)
    then have "fine ?z (map_option snd (OSSemPost (OSTmrSemSignal s) ?z))" by (rule fine_SemPost [OF z])
    moreover have "OSTimeTickHook s = map_option snd (OSSemPost (OSTmrSemSignal s) ?z)"
      using True by (simp add: OSTimeTickHook_def Let_def)
    ultimately show ?thesis using keeps_trans [OF k] unfolding fine_def by metis
  next
    case False
    then have "OSTimeTickHook s = Some ?s" by (simp add: OSTimeTickHook_def Let_def)
    then show ?thesis using k so by (simp add: fine_def)
  qed
qed

text \<open>A tick of a sleeping task: one tick less to sleep, or the end of its sleep.\<close>

definition tick_sleep :: "u8 \<Rightarrow> u32 \<Rightarrow> OS \<Rightarrow> bool" where
  "tick_sleep p n s \<longleftrightarrow> (if n = 0 then asleep p 0 s else if n = 1 then unat p \<in> ready s else asleep p (n - 1) s)"

lemma OS_Sched_nesting: "OS_Sched s = Some s' \<Longrightarrow> OSIntNesting s' = OSIntNesting s"
  by (auto simp: OS_Sched_def request_switch_def OS_SchedNew_def bind_eq_Some_conv split: if_splits)

lemma OSTimeDly_nesting: "OSTimeDly n s = Some s' \<Longrightarrow> OSIntNesting s' = OSIntNesting s"
  by (auto simp: OSTimeDly_def bind_eq_Some_conv split: if_splits dest!: OS_Sched_nesting)

lemma hook_nesting: "OSTimeTickHook s = Some s' \<Longrightarrow> OSIntNesting s' = OSIntNesting s"
  by (auto simp: OSTimeTickHook_def OSSemPost_def Let_def bind_eq_Some_conv split: if_splits
      dest!: OS_Sched_nesting OS_EventTaskRdy_frame)

lemma OSTimeTick_step:
  assumes sys: "system_ok s" and n: "OSIntNesting s > 0"
  shows "\<exists>s'. OSTimeTick s = Some s' \<and> safe s s' \<and> sched_ok s'
     \<and> (\<forall>p n. asleep p n s \<longrightarrow> tick_sleep p n s')"
proof -
  obtain s1 where s1: "OSTimeTickHook s = Some s1" "keeps s s1" "sched_ok s1"
    using fine_hook [OF sys] by (auto simp: fine_def)
  let ?s = "s1\<lparr>OSTime := OSTime s1 + 1\<rparr>"
  have n1: "OSIntNesting s1 > 0" using hook_nesting [OF s1(1)] n by simp
  have sys1: "system_ok s1" using system_ok_keeps [OF sys s1(2,3)] .
  have k: "keeps s1 ?s" by (rule keeps_nesting [OF sys1]) (simp_all add: static_def)
  have ok: "os_ok ?s" using k by (simp add: keeps_def)
  obtain ps where "task_list s1 ps" "OSRunning s1" "OSTickStepState s1 = OS_TICK_STEP_DIS"
    using system_okD(2) [OF sys1] by (auto simp: static_ok_def)
  then have ps: "OSTCBList ?s = ps @ [OS_TASK_IDLE_PRIO]" "distinct ps" "OS_TASK_IDLE_PRIO \<notin> set ps"
      "dom (OSTCBPrioTbl ?s) = insert OS_TASK_IDLE_PRIO (set ps)" "OSRunning ?s"
      "OSTickStepState ?s = OS_TICK_STEP_DIS" by (simp_all add: task_list_def)
  have "\<forall>p \<in> set ps. OSTCBPrioTbl ?s p \<noteq> None" using ps(4) by blast
  then obtain s' where s': "tick_list (ps @ [OS_TASK_IDLE_PRIO]) ?s = Some s'" "os_ok s'" "same_rest ?s s'"
      "OSTCBPrioTbl s' = (\<lambda>p. if p \<in> set ps then map_option ticked (OSTCBPrioTbl ?s p) else OSTCBPrioTbl ?s p)"
      "ready s' = ready ?s \<union> {unat p | p t. p \<in> set ps \<and> OSTCBPrioTbl ?s p = Some t \<and> wakes t}"
    using tick_list_ok [OF ok ps(2,3)] by blast
  note fr = same_restD [OF s'(3)]
  have "OSTimeTick s = Some s'"
    using s1(1) ps(1,5,6) s'(1) by (simp add: OSTimeTick_def Let_def OS_TICK_STEP_DIS_def OS_TICK_STEP_WAIT_def)
  moreover have "dom (OSTCBPrioTbl s') = dom (OSTCBPrioTbl ?s)" using s'(4) by (auto simp: dom_def)
  then have "static s' = static ?s" using fr by (simp add: static_def)
  then have "safe ?s s'" using s'(2) k fr by (simp add: safe_def keeps_def rings_ok_def)
  then have "safe s s'" using safe_trans keeps_safe s1(2) k by blast
  moreover have "sched_ok s'" using s1(3) fr n1 s'(5) by (auto simp: sched_ok_def)
  moreover have "tick_sleep p m s'" if "asleep p m s" for p m
  proof -
    have "asleep p m ?s" using that s1(2) k by (simp add: keeps_def)
    then obtain t where t: "OSTCBPrioTbl ?s p = Some t" "OSTCBDly t = m" "\<not> suspended t"
      and p: "unat p \<notin> ready ?s" "\<forall>e \<in> set (OSEvents s'). unat p \<notin> waiting e"
      using fr(1) by (auto simp: asleep_def)
    have "p \<noteq> OS_TASK_IDLE_PRIO" using p(1) os_okD(2) [OF ok] by (auto simp: OS_TASK_IDLE_PRIO_def)
    then have mem: "p \<in> set ps" using ps(4) t(1) by blast
    then have tbl: "OSTCBPrioTbl s' p = Some (ticked t)" using s'(4) t(1) by simp
    have rd: "unat p \<in> ready s' \<longleftrightarrow> wakes t" using s'(5) p(1) mem t(1) by (auto simp flip: word_unat_eq_iff)
    consider "m = 0" | "m = 1" | "m \<noteq> 0" "m \<noteq> 1" by blast
    then show ?thesis
      using tbl rd p(2) t(2,3) by cases (auto simp: tick_sleep_def asleep_def wakes_def ticked_def suspended_def)
  qed
  ultimately show ?thesis by blast
qed

section \<open>Every call\<close>

text \<open>What a call does to a sleeping task: only a tick counts, and only \<open>OSTimeDlyResume\<close> wakes it early.\<close>

definition sleeps_on :: "kcall \<Rightarrow> OS \<Rightarrow> OS \<Rightarrow> bool" where
  "sleeps_on c s s' \<longleftrightarrow> (\<forall>p n. asleep p n s \<longrightarrow> c \<noteq> DlyResume p \<longrightarrow>
     (if c = Tick then tick_sleep p n s' else asleep p n s'))"

lemma kstep_fine:
  assumes "fine s (kstep c s)" and "c \<noteq> Tick"
  shows "\<exists>s'. kstep c s = Some s' \<and> safe s s' \<and> sched_ok s' \<and> sleeps_on c s s'"
  using assms keeps_safe unfolding fine_def sleeps_on_def by (metis keeps_def)

lemma fine_calls:
  assumes sys: "system_ok s" and a: "allowed c s" and n: "c \<noteq> Tick" "\<nexists>p. c = DlyResume p"
  shows "fine s (kstep c s)"
  using a n
  by (cases c) (simp_all add: fine_IntEnter [OF sys] fine_IntExit [OF sys] fine_SchedLock [OF sys]
    fine_SchedUnlock [OF sys] fine_PendSV [OF sys] fine_SemPost [OF sys] fine_SemPend [OF sys]
    fine_SemAccept [OF sys] fine_resume [OF sys] fine_QPost [OF sys] fine_QPend [OF sys]
    fine_QAccept [OF sys] fine_QFlush [OF sys] fine_OSTimeDly [OF sys] fine_SemSet [OF sys]
    fine_abort [OF sys] fine_QPostOpt [OF sys] fine_MboxPost [OF sys] fine_MboxAccept [OF sys]
    fine_MboxPend [OF sys] fine_MboxResume [OF sys]
    OSSemPendAbort_def OSQPendAbort_def OSMboxPendAbort_def)

lemma kstep_ok:
  assumes sys: "system_ok s" and a: "allowed c s"
  shows "\<exists>s'. kstep c s = Some s' \<and> safe s s' \<and> sched_ok s' \<and> sleeps_on c s s'"
proof -
  consider "c = Tick" | p where "c = DlyResume p" | "c \<noteq> Tick" "\<nexists>p. c = DlyResume p" by blast
  then show ?thesis
  proof cases
    case 1
    then show ?thesis using OSTimeTick_step [OF sys] a by (auto simp: sleeps_on_def)
  next
    case 2
    then show ?thesis using OSTimeDlyResume_step [OF sys, of p] by (auto simp: sleeps_on_def)
  next
    case 3
    show ?thesis by (rule kstep_fine [OF fine_calls [OF sys a 3] 3(1)])
  qed
qed

lemma system_ok_safe: "system_ok s \<Longrightarrow> safe s s' \<Longrightarrow> sched_ok s' \<Longrightarrow> system_ok s'"
  using static_ok_cong [of s' s] by (simp add: system_ok_def safe_def)

lemma kruns_ok: "kruns s cs t \<Longrightarrow> system_ok s \<Longrightarrow> system_ok t"
proof (induction rule: kruns.induct)
  case (call s cs t c u)
  then show ?case using kstep_ok [of t c] system_ok_safe by auto
qed

definition ticks :: "kcall list \<Rightarrow> nat" where
  "ticks cs = length (filter (\<lambda>c. c = Tick) cs)"

lemma ticks_simps [simp]: "ticks [] = 0" "ticks (cs @ [c]) = ticks cs + (if c = Tick then 1 else 0)"
  by (simp_all add: ticks_def)

lemma kruns_asleep:
  assumes "kruns s cs t" and "system_ok s" and "asleep p n s" and "DlyResume p \<notin> set cs" and "ticks cs < unat n"
  shows "\<exists>m. asleep p m t \<and> unat m + ticks cs = unat n"
  using assms
proof (induction rule: kruns.induct)
  case (start s)
  then show ?case by auto
next
  case (call s cs t c u)
  then obtain m where m: "asleep p m t" "unat m + ticks cs = unat n" by (auto split: if_splits)
  have o: "sleeps_on c t u" using kstep_ok [OF kruns_ok [OF call.hyps(1) call.prems(1)] call.hyps(2)] call.hyps(3) by auto
  show ?case
  proof (cases "c = Tick")
    case True
    then have "unat m > 1" using m(2) call.prems(4) by simp
    then have "m \<noteq> 0" "m \<noteq> 1" by auto
    then have "asleep p (m - 1) u" using o m(1) True by (auto simp: sleeps_on_def tick_sleep_def)
    moreover have "unat (m - 1) = unat m - 1" using \<open>m \<noteq> 0\<close> by (simp add: unat_minus_one)
    ultimately show ?thesis using m(2) True \<open>unat m > 1\<close> by (intro exI [of _ "m - 1"]) simp
  next
    case False
    then show ?thesis using o m call.prems(3) by (auto simp: sleeps_on_def)
  qed
qed

section \<open>A concrete system\<close>

text \<open>The tasks and queues of the kernel example, and the semaphore of the timer task.\<close>

definition ex_system :: OS where
  "ex_system = ex_os\<lparr>OSEvents := OSEvents ex_os @ [\<lparr>OSEventType = 3, OSEventPtr = Null, OSEventCnt = 0,
     OSEventGrp = 0, OSEventTbl = replicate 8 0\<rparr>], OSTmrSemSignal := 2\<rparr>"

lemma ex_system_ready [simp]: "ready ex_system = {10, 63}" "highest ex_system = 10"
  by (simp_all add: ex_system_def highest_def)

lemma ex_system_simps [simp]:
  "OSIntNesting ex_system = 0" "OSLockNesting ex_system = 0" "\<not> switchPending ex_system"
  "OSPrioCur ex_system = 10" "OSPrioHighRdy ex_system = 10" "OSRunning ex_system"
  "OSTCBList ex_system = [5, 10, 63]" "OSTmrSemSignal ex_system = 2" "OSTickStepState ex_system = 0"
  "OSTCBPrioTbl ex_system = [5 \<mapsto> ex_tcb 5, 10 \<mapsto> ex_tcb 10, 63 \<mapsto> ex_tcb 63]"
  by (simp_all add: ex_system_def ex_os_def)

lemma ex_system_ok: "system_ok ex_system"
proof -
  have "event_ok (OSTCBPrioTbl ex_os) \<lparr>OSEventType = 3, OSEventPtr = Null, OSEventCnt = 0,
     OSEventGrp = 0, OSEventTbl = replicate 8 0\<rparr>" by (simp add: event_ok_def bits_empty)
  then have "os_ok ex_system" using ex_os_ok by (auto simp: ex_system_def os_ok_def)
  moreover have "task_list ex_system [5, 10]" by (auto simp: task_list_def OS_TASK_IDLE_PRIO_def)
  then have "static_ok ex_system"
    by (auto simp: static_ok_def event_in_def OS_TICK_STEP_DIS_def OS_EVENT_TYPE_SEM_def)
      (simp_all add: ex_system_def ex_os_def)
  moreover have "q_ok ex_ring" by (simp add: q_ok_def ex_ring_def)
  then have "rings_ok ex_system"
    by (simp add: rings_ok_def ring_ok_def kind_of_def ex_system_def ex_os_def ex_queue_event_def
        OS_EVENT_TYPE_Q_def OS_EVENT_TYPE_MBOX_def)
  moreover have "sched_ok ex_system" by (simp add: sched_ok_def)
  ultimately show ?thesis by (simp add: system_ok_def)
qed

section \<open>Properties\<close>

text \<open>C1: Whatever tasks and interrupt handlers do, every call the kernel gets is defined, its lists
  stay consistent, and whenever no interrupt is served, the scheduler is not locked and no
  context switch is pended, the task that runs is the highest-priority ready one.\<close>

theorem kernel_runs_highest:
  assumes "system_ok s" and "kruns s cs t"
  shows "system_ok t \<and> (\<forall>c. allowed c t \<longrightarrow> kstep c t \<noteq> None)
     \<and> (OSIntNesting t = 0 \<and> OSLockNesting t = 0 \<and> \<not> switchPending t \<longrightarrow>
          unat (OSPrioCur t) \<in> ready t \<and> (\<forall>p \<in> ready t. unat (OSPrioCur t) \<le> p))"
proof -
  have sys: "system_ok t" using kruns_ok assms by blast
  then have "kstep c t \<noteq> None" if "allowed c t" for c using kstep_ok that by fastforce
  moreover have "unat (OSPrioCur t) \<in> ready t \<and> (\<forall>p \<in> ready t. unat (OSPrioCur t) \<le> p)"
    if "OSIntNesting t = 0" "OSLockNesting t = 0" "\<not> switchPending t"
    using that system_okD(1,4) [OF sys] highest_ready [of t] by (auto simp: sched_ok_def)
  ultimately show ?thesis using sys by blast
qed

theorem kernel_runs_highest_witness:
  "kstep Tick (OSIntEnter ex_system) \<noteq> None \<and> system_ok (OSIntEnter ex_system)
   \<and> unat (OSPrioCur ex_system) \<in> ready ex_system \<and> unat (OSPrioCur ex_system) \<le> 10 \<and> unat (OSPrioCur ex_system) \<le> 63"
proof -
  have "kruns ex_system ([] @ [IntEnter]) (OSIntEnter ex_system)"
    by (rule kruns.call [OF kruns.start]) simp_all
  note r = kernel_runs_highest [OF ex_system_ok this]
  have "allowed Tick (OSIntEnter ex_system)" by (simp add: OSIntEnter_def)
  then have "kstep Tick (OSIntEnter ex_system) \<noteq> None \<and> system_ok (OSIntEnter ex_system)" using r by blast
  moreover have "unat (OSPrioCur ex_system) \<in> ready ex_system \<and> unat (OSPrioCur ex_system) \<le> 10 \<and> unat (OSPrioCur ex_system) \<le> 63"
    using kernel_runs_highest [OF ex_system_ok kruns.start] by simp
  ultimately show ?thesis by blast
qed

text \<open>C4: A task that delays itself by a number of ticks is not ready before that many ticks and is
  ready right after the last of them, whatever calls other tasks and interrupt handlers make
  in between, unless one of them ends the delay with OSTimeDlyResume.\<close>

theorem delay_is_exact:
  assumes "system_ok s" and "can_block s" and "OSIntNesting s = 0" and "OSLockNesting s = 0" and "n > 0"
    and "OSTCBPrioTbl s (OSPrioCur s) = Some t" and "\<not> suspended t"
    and "\<forall>e \<in> set (OSEvents s). unat (OSPrioCur s) \<notin> waiting e"
  shows "\<exists>s1. kstep (Dly n) s = Some s1 \<and> system_ok s1
     \<and> (\<forall>cs u. kruns s1 cs u \<and> DlyResume (OSPrioCur s) \<notin> set cs \<and> ticks cs < unat n \<longrightarrow>
          unat (OSPrioCur s) \<notin> ready u)
     \<and> (\<forall>cs u. kruns s1 (cs @ [Tick]) u \<and> DlyResume (OSPrioCur s) \<notin> set cs \<and> Suc (ticks cs) = unat n \<longrightarrow>
          unat (OSPrioCur s) \<in> ready u)"
proof -
  let ?p = "OSPrioCur s"
  obtain s1 where s1: "OSTimeDly n s = Some s1" "asleep ?p n s1"
    using OSTimeDly_asleep [OF assms] by blast
  obtain s1' where "OSTimeDly n s = Some s1'" "safe s s1'" "sched_ok s1'"
    using kstep_ok [OF assms(1), of "Dly n"] assms(2) by auto
  then have sys: "system_ok s1" using system_ok_safe [OF assms(1)] s1(1) by simp
  have "unat ?p \<notin> ready u" if "kruns s1 cs u" "DlyResume ?p \<notin> set cs" "ticks cs < unat n" for cs u
    using kruns_asleep [OF that(1) sys s1(2) that(2,3)] by (auto simp: asleep_def)
  moreover have "unat ?p \<in> ready u"
    if run: "kruns s1 (cs @ [Tick]) u" and d: "DlyResume ?p \<notin> set cs" and k: "Suc (ticks cs) = unat n" for cs u
  proof -
    obtain t where t: "kruns s1 cs t" "allowed Tick t" "kstep Tick t = Some u" using kruns_snocE [OF run] by blast
    obtain m where "asleep ?p m t" "unat m + ticks cs = unat n"
      using kruns_asleep [OF t(1) sys s1(2) d] k by auto
    moreover from this have "m = 1" using k by (simp add: word_unat_eq_iff)
    ultimately show ?thesis
      using kstep_ok [OF kruns_ok [OF t(1) sys] t(2)] t(3) by (auto simp: sleeps_on_def tick_sleep_def)
  qed
  ultimately show ?thesis using s1(1) sys by auto
qed

theorem delay_is_exact_witness:
  "\<exists>s1 u. kstep (Dly 1) ex_system = Some s1 \<and> 10 \<notin> ready s1 \<and> kruns s1 [IntEnter, Tick] u \<and> 10 \<in> ready u"
proof -
  have c: "can_block ex_system" by (simp add: can_block_def can_call_def OS_TASK_IDLE_PRIO_def)
  have t: "OSTCBPrioTbl ex_system (OSPrioCur ex_system) = Some (ex_tcb 10)" "\<not> suspended (ex_tcb 10)"
    by (simp_all add: suspended_def ex_tcb_def os_constants)
  have w: "\<forall>e \<in> set (OSEvents ex_system). unat (OSPrioCur ex_system) \<notin> waiting e"
    by (simp add: ex_system_def ex_os_def ex_queue_event_def ex_waiter bits_empty)
  obtain s1 where s1: "kstep (Dly 1) ex_system = Some s1" "system_ok s1"
      "\<forall>cs u. kruns s1 cs u \<and> DlyResume 10 \<notin> set cs \<and> ticks cs < unat (1 :: u32) \<longrightarrow> unat (10 :: u8) \<notin> ready u"
      "\<forall>cs u. kruns s1 (cs @ [Tick]) u \<and> DlyResume 10 \<notin> set cs \<and> Suc (ticks cs) = unat (1 :: u32) \<longrightarrow>
          unat (10 :: u8) \<in> ready u"
    using delay_is_exact [OF ex_system_ok c _ _ _ t w, of 1] by auto
  have "OSIntNesting s1 = 0" "OSRunning s1"
    using s1(1,2) OSTimeDly_nesting [of 1 ex_system s1] by (simp_all add: system_ok_def static_ok_def)
  then have a: "allowed IntEnter s1" "allowed Tick (OSIntEnter s1)" by (simp_all add: OSIntEnter_def)
  have r: "kruns s1 ([] @ [IntEnter]) (OSIntEnter s1)" by (rule kruns.call [OF kruns.start a(1)]) simp
  then obtain u where "kstep Tick (OSIntEnter s1) = Some u"
    using kstep_ok [OF kruns_ok [OF _ s1(2)] a(2)] by blast
  then have u: "kruns s1 (([] @ [IntEnter]) @ [Tick]) u" using kruns.call [OF r a(2)] by blast
  moreover have "ticks ([] @ [IntEnter]) = 0" "DlyResume 10 \<notin> set ([] @ [IntEnter])" by (simp_all add: ticks_def)
  ultimately have "unat (10 :: u8) \<in> ready u" using s1(4) by (metis One_nat_def unat_1)
  then have "10 \<in> ready u" by simp
  moreover have "ticks [] < unat (1 :: u32)" "DlyResume 10 \<notin> set []" by simp_all
  then have "unat (10 :: u8) \<notin> ready s1" using s1(3) kruns.start [of s1] by blast
  then have "10 \<notin> ready s1" by simp
  ultimately show ?thesis using s1(1) u by auto
qed

end
