(* ===== verification/Os_Flag.thy ===== *)
theory Os_Flag
  imports Os_Ipc
begin

text \<open>
  The event flag groups of the kernel, \<open>uCOS-II/Source/os_flag.c\<close> (16 flags, waiting for cleared
  flags and deleting of tasks enabled), on which the port of the Modbus master waits. A group
  has a doubly linked list of nodes, one per waiting task; a node is a local variable of
  \<open>OSFlagPend\<close> and named by its address. \<open>flag_nodes\<close> holds the nodes that are alive, the fields
  \<open>OSTCBFlagsRdy\<close> and \<open>OSTCBFlagNode\<close> of the task control blocks are tables beside the kernel's.
  As in \<open>Os_Ipc\<close> a blocking call is split where the caller is switched out.
\<close>

section \<open>State\<close>

record OS_FLAG_NODE =
  OSFlagNodeNext :: "nat option"
  OSFlagNodePrev :: "nat option"
  OSFlagNodeTCB :: u8
  OSFlagNodeFlagGrp :: nat
  OSFlagNodeFlags :: u16
  OSFlagNodeWaitType :: u8

text \<open>What \<open>OSFlagWaitList\<close> points to: nothing, a waiting node, or the next free group.\<close>

datatype FlagPtr = NoFlag | Node nat | Group nat

record OS_FLAG_GRP =
  OSFlagType :: u8
  OSFlagWaitList :: FlagPtr
  OSFlagFlags :: u16

record FLAGS =
  kern :: OS
  OSFlagTbl :: "OS_FLAG_GRP list"
  OSFlagFreeList :: FlagPtr
  flag_nodes :: "nat \<Rightarrow> OS_FLAG_NODE option"
  OSTCBFlagsRdy :: "u8 \<Rightarrow> u16"
  OSTCBFlagNode :: "u8 \<Rightarrow> nat option"

definition OS_EVENT_TYPE_FLAG :: u8 where "OS_EVENT_TYPE_FLAG = 5"
definition OS_FLAG_WAIT_CLR_ALL :: u8 where "OS_FLAG_WAIT_CLR_ALL = 0"
definition OS_FLAG_WAIT_CLR_ANY :: u8 where "OS_FLAG_WAIT_CLR_ANY = 1"
definition OS_FLAG_WAIT_SET_ALL :: u8 where "OS_FLAG_WAIT_SET_ALL = 2"
definition OS_FLAG_WAIT_SET_ANY :: u8 where "OS_FLAG_WAIT_SET_ANY = 3"
definition OS_FLAG_CONSUME :: u8 where "OS_FLAG_CONSUME = 0x80"
definition OS_FLAG_CLR :: u8 where "OS_FLAG_CLR = 0"
definition OS_FLAG_SET :: u8 where "OS_FLAG_SET = 1"
definition OS_STAT_FLAG :: u8 where "OS_STAT_FLAG = 0x20"

lemmas flag_constants =
  OS_FLAG_WAIT_CLR_ALL_def OS_FLAG_WAIT_CLR_ANY_def OS_FLAG_WAIT_SET_ALL_def OS_FLAG_WAIT_SET_ANY_def

fun ptr_of :: "nat option \<Rightarrow> FlagPtr" where
  "ptr_of None = NoFlag"
| "ptr_of (Some a) = Node a"

fun node_of :: "FlagPtr \<Rightarrow> nat option option" where
  "node_of NoFlag = Some None"
| "node_of (Node a) = Some (Some a)"
| "node_of (Group _) = None"

definition set_grp :: "nat \<Rightarrow> OS_FLAG_GRP \<Rightarrow> FLAGS \<Rightarrow> FLAGS" where
  "set_grp g G s = s\<lparr>OSFlagTbl := (OSFlagTbl s)[g := G]\<rparr>"

definition set_prev :: "nat \<Rightarrow> nat option \<Rightarrow> FLAGS \<Rightarrow> FLAGS option" where
  "set_prev a p s = do { n \<leftarrow> flag_nodes s a; Some (s\<lparr>flag_nodes := (flag_nodes s)(a \<mapsto> n\<lparr>OSFlagNodePrev := p\<rparr>)\<rparr>) }"

definition set_next :: "nat \<Rightarrow> nat option \<Rightarrow> FLAGS \<Rightarrow> FLAGS option" where
  "set_next a p s = do { n \<leftarrow> flag_nodes s a; Some (s\<lparr>flag_nodes := (flag_nodes s)(a \<mapsto> n\<lparr>OSFlagNodeNext := p\<rparr>)\<rparr>) }"

definition set_tcb :: "u8 \<Rightarrow> OS_TCB \<Rightarrow> FLAGS \<Rightarrow> FLAGS" where
  "set_tcb p t s = s\<lparr>kern := (kern s)\<lparr>OSTCBPrioTbl := (OSTCBPrioTbl (kern s))(p \<mapsto> t)\<rparr>\<rparr>"

section \<open>Conditions\<close>

text \<open>
  The cases of the switches over the wait type: the flags that are ready and whether the
  condition holds; \<open>None\<close> is the default case. Then what consuming does to the flags.
\<close>

definition flag_cond :: "u8 \<Rightarrow> u16 \<Rightarrow> u16 \<Rightarrow> (u16 \<times> bool) option" where
  "flag_cond wait_type cur flags =
     (if wait_type = OS_FLAG_WAIT_SET_ALL then let rdy = cur AND flags in Some (rdy, rdy = flags)
      else if wait_type = OS_FLAG_WAIT_SET_ANY then let rdy = cur AND flags in Some (rdy, rdy \<noteq> 0)
      else if wait_type = OS_FLAG_WAIT_CLR_ALL then let rdy = NOT cur AND flags in Some (rdy, rdy = flags)
      else if wait_type = OS_FLAG_WAIT_CLR_ANY then let rdy = NOT cur AND flags in Some (rdy, rdy \<noteq> 0)
      else None)"

definition flag_consume :: "u8 \<Rightarrow> u16 \<Rightarrow> u16 \<Rightarrow> u16 option" where
  "flag_consume wait_type rdy cur =
     (if wait_type = OS_FLAG_WAIT_SET_ALL \<or> wait_type = OS_FLAG_WAIT_SET_ANY then Some (cur AND NOT rdy)
      else if wait_type = OS_FLAG_WAIT_CLR_ALL \<or> wait_type = OS_FLAG_WAIT_CLR_ANY then Some (cur OR rdy)
      else None)"

section \<open>Groups\<close>

definition OS_FlagInit :: "FLAGS \<Rightarrow> FLAGS" where
  "OS_FlagInit s = s\<lparr>OSFlagTbl := map (\<lambda>ix. \<lparr>OSFlagType = 0, OSFlagWaitList = (if ix < 4 then Group (ix + 1) else NoFlag), OSFlagFlags = 0\<rparr>) [0..<5],
     OSFlagFreeList := Group 0\<rparr>"

definition OSFlagCreate :: "u16 \<Rightarrow> FLAGS \<Rightarrow> (nat option \<times> os_err \<times> FLAGS) option" where
  "OSFlagCreate flags s =
     (if OSIntNesting (kern s) > 0 then Some (None, OS_ERR_CREATE_ISR, s)
      else case OSFlagFreeList s of
        NoFlag \<Rightarrow> Some (None, OS_ERR_FLAG_GRP_DEPLETED, s)
      | Node _ \<Rightarrow> None
      | Group g \<Rightarrow> do {
          G \<leftarrow> rd (OSFlagTbl s) g;
          let s = s\<lparr>OSFlagFreeList := OSFlagWaitList G\<rparr>;
          Some (Some g, OS_ERR_NONE,
            set_grp g (G\<lparr>OSFlagType := OS_EVENT_TYPE_FLAG, OSFlagFlags := flags, OSFlagWaitList := NoFlag\<rparr>) s) })"

definition OSFlagQuery :: "nat \<Rightarrow> FLAGS \<Rightarrow> (u16 \<times> os_err) option" where
  "OSFlagQuery g s = do {
     G \<leftarrow> rd (OSFlagTbl s) g;
     Some (if OSFlagType G \<noteq> OS_EVENT_TYPE_FLAG then (0, OS_ERR_EVENT_TYPE) else (OSFlagFlags G, OS_ERR_NONE)) }"

definition OSFlagAccept :: "nat \<Rightarrow> u16 \<Rightarrow> u8 \<Rightarrow> FLAGS \<Rightarrow> (u16 \<times> os_err \<times> FLAGS) option" where
  "OSFlagAccept g flags wait_type s = do {
     G \<leftarrow> rd (OSFlagTbl s) g;
     if OSFlagType G \<noteq> OS_EVENT_TYPE_FLAG then Some (0, OS_ERR_EVENT_TYPE, s)
     else
       let consume = wait_type AND OS_FLAG_CONSUME \<noteq> 0;
           wait_type = (if consume then wait_type AND NOT OS_FLAG_CONSUME else wait_type)
       in case flag_cond wait_type (OSFlagFlags G) flags of
         None \<Rightarrow> Some (0, OS_ERR_FLAG_WAIT_TYPE, s)
       | Some (rdy, met) \<Rightarrow>
           if met then do {
             s \<leftarrow> (if consume then map_option (\<lambda>f. set_grp g (G\<lparr>OSFlagFlags := f\<rparr>) s) (flag_consume wait_type rdy (OSFlagFlags G))
                   else Some s);
             Some (rdy, OS_ERR_NONE, s) }
           else Some (rdy, OS_ERR_FLAG_NOT_RDY, s) }"

section \<open>The wait list\<close>

definition OS_FlagBlock :: "nat \<Rightarrow> nat \<Rightarrow> u16 \<Rightarrow> u8 \<Rightarrow> u32 \<Rightarrow> FLAGS \<Rightarrow> FLAGS option" where
  "OS_FlagBlock g pnode flags wait_type timeout s = do {
     let p = OSPrioCur (kern s);
     t \<leftarrow> OSTCBPrioTbl (kern s) p;
     let t = t\<lparr>OSTCBStat := OSTCBStat t OR OS_STAT_FLAG, OSTCBStatPend := OS_STAT_PEND_OK, OSTCBDly := timeout\<rparr>;
     G \<leftarrow> rd (OSFlagTbl s) g;
     next \<leftarrow> node_of (OSFlagWaitList G);
     let s = (set_tcb p t s)\<lparr>OSTCBFlagNode := (OSTCBFlagNode s)(p := Some pnode),
       flag_nodes := (flag_nodes s)(pnode \<mapsto> \<lparr>OSFlagNodeNext = next, OSFlagNodePrev = None, OSFlagNodeTCB = p,
         OSFlagNodeFlagGrp = g, OSFlagNodeFlags = flags, OSFlagNodeWaitType = wait_type\<rparr>)\<rparr>;
     s \<leftarrow> (case next of None \<Rightarrow> Some s | Some a \<Rightarrow> set_prev a (Some pnode) s);
     let s = set_grp g (G\<lparr>OSFlagWaitList := Node pnode\<rparr>) s;
     (rg, rt) \<leftarrow> bits_clear t (OSRdyGrp (kern s), OSRdyTbl (kern s));
     Some (s\<lparr>kern := (kern s)\<lparr>OSRdyGrp := rg, OSRdyTbl := rt\<rparr>\<rparr>) }"

definition OS_FlagUnlink :: "nat \<Rightarrow> FLAGS \<Rightarrow> FLAGS option" where
  "OS_FlagUnlink pnode s = do {
     n \<leftarrow> flag_nodes s pnode;
     s \<leftarrow> (case OSFlagNodePrev n of
         None \<Rightarrow> do {
           G \<leftarrow> rd (OSFlagTbl s) (OSFlagNodeFlagGrp n);
           Some (set_grp (OSFlagNodeFlagGrp n) (G\<lparr>OSFlagWaitList := ptr_of (OSFlagNodeNext n)\<rparr>) s) }
       | Some p \<Rightarrow> set_next p (OSFlagNodeNext n) s);
     s \<leftarrow> (case OSFlagNodeNext n of None \<Rightarrow> Some s | Some a \<Rightarrow> set_prev a (OSFlagNodePrev n) s);
     Some (s\<lparr>OSTCBFlagNode := (OSTCBFlagNode s)(OSFlagNodeTCB n := None)\<rparr>) }"

definition OS_FlagTaskRdy :: "nat \<Rightarrow> u16 \<Rightarrow> u8 \<Rightarrow> FLAGS \<Rightarrow> (bool \<times> FLAGS) option" where
  "OS_FlagTaskRdy pnode flags_rdy pend_stat s = do {
     n \<leftarrow> flag_nodes s pnode;
     let p = OSFlagNodeTCB n;
     t \<leftarrow> OSTCBPrioTbl (kern s) p;
     let t = t\<lparr>OSTCBDly := 0, OSTCBStat := OSTCBStat t AND NOT OS_STAT_FLAG, OSTCBStatPend := pend_stat\<rparr>;
     let s = (set_tcb p t s)\<lparr>OSTCBFlagsRdy := (OSTCBFlagsRdy s)(p := flags_rdy)\<rparr>;
     (rg, rt) \<leftarrow> (if OSTCBStat t = OS_STAT_RDY then bits_set t (OSRdyGrp (kern s), OSRdyTbl (kern s))
                  else Some (OSRdyGrp (kern s), OSRdyTbl (kern s)));
     s \<leftarrow> OS_FlagUnlink pnode (s\<lparr>kern := (kern s)\<lparr>OSRdyGrp := rg, OSRdyTbl := rt\<rparr>\<rparr>);
     Some (OSTCBStat t = OS_STAT_RDY, s) }"

section \<open>Pending\<close>

definition OSFlagPend :: "nat \<Rightarrow> nat \<Rightarrow> u16 \<Rightarrow> u8 \<Rightarrow> u32 \<Rightarrow> FLAGS \<Rightarrow> (u16 pend \<times> FLAGS) option" where
  "OSFlagPend g node flags wait_type timeout s =
     (if OSIntNesting (kern s) > 0 then Some (Done 0 OS_ERR_PEND_ISR, s)
      else if OSLockNesting (kern s) > 0 then Some (Done 0 OS_ERR_PEND_LOCKED, s)
      else do {
        G \<leftarrow> rd (OSFlagTbl s) g;
        if OSFlagType G \<noteq> OS_EVENT_TYPE_FLAG then Some (Done 0 OS_ERR_EVENT_TYPE, s)
        else
          let consume = wait_type AND OS_FLAG_CONSUME \<noteq> 0;
              wait_type = (if consume then wait_type AND NOT OS_FLAG_CONSUME else wait_type)
          in case flag_cond wait_type (OSFlagFlags G) flags of
            None \<Rightarrow> Some (Done 0 OS_ERR_FLAG_WAIT_TYPE, s)
          | Some (rdy, met) \<Rightarrow>
              if met then do {
                s \<leftarrow> (if consume then map_option (\<lambda>f. set_grp g (G\<lparr>OSFlagFlags := f\<rparr>) s) (flag_consume wait_type rdy (OSFlagFlags G))
                      else Some s);
                Some (Done rdy OS_ERR_NONE, s\<lparr>OSTCBFlagsRdy := (OSTCBFlagsRdy s)(OSPrioCur (kern s) := rdy)\<rparr>) }
              else do {
                s \<leftarrow> OS_FlagBlock g node flags wait_type timeout s;
                k \<leftarrow> OS_Sched (kern s);
                Some (Blocked, s\<lparr>kern := k\<rparr>) } })"

text \<open>The rest, run when the task is switched in again; at its end the node's storage is gone.\<close>

definition OSFlagPend_resume :: "nat \<Rightarrow> nat \<Rightarrow> u8 \<Rightarrow> FLAGS \<Rightarrow> (u16 \<times> os_err \<times> FLAGS) option" where
  "OSFlagPend_resume g node wait_type s = do {
     let consume = wait_type AND OS_FLAG_CONSUME \<noteq> 0;
     let wait_type = (if consume then wait_type AND NOT OS_FLAG_CONSUME else wait_type);
     let p = OSPrioCur (kern s);
     t \<leftarrow> OSTCBPrioTbl (kern s) p;
     (rdy, err, s) \<leftarrow>
       (if OSTCBStatPend t \<noteq> OS_STAT_PEND_OK then do {
          let pend_stat = OSTCBStatPend t;
          s \<leftarrow> OS_FlagUnlink node (set_tcb p (t\<lparr>OSTCBStatPend := OS_STAT_PEND_OK\<rparr>) s);
          t \<leftarrow> OSTCBPrioTbl (kern s) p;
          Some (0, if pend_stat = OS_STAT_PEND_ABORT then OS_ERR_PEND_ABORT else OS_ERR_TIMEOUT,
            set_tcb p (t\<lparr>OSTCBStat := OS_STAT_RDY\<rparr>) s) }
        else if consume then do {
          G \<leftarrow> rd (OSFlagTbl s) g;
          Some (case flag_consume wait_type (OSTCBFlagsRdy s p) (OSFlagFlags G) of
            None \<Rightarrow> (0, OS_ERR_FLAG_WAIT_TYPE, s)
          | Some f \<Rightarrow> (OSTCBFlagsRdy s p, OS_ERR_NONE, set_grp g (G\<lparr>OSFlagFlags := f\<rparr>) s)) }
        else Some (OSTCBFlagsRdy s p, OS_ERR_NONE, s));
     Some (rdy, err, s\<lparr>flag_nodes := (flag_nodes s)(node := None)\<rparr>) }"

definition OSFlagPendGetFlagsRdy :: "FLAGS \<Rightarrow> u16" where
  "OSFlagPendGetFlagsRdy s = OSTCBFlagsRdy s (OSPrioCur (kern s))"

section \<open>Posting and deleting\<close>

partial_function (option) post_loop :: "nat \<Rightarrow> nat option \<Rightarrow> bool \<Rightarrow> FLAGS \<Rightarrow> (os_err \<times> bool \<times> FLAGS) option" where
  "post_loop g pnode sched s =
     (case pnode of
        None \<Rightarrow> Some (OS_ERR_NONE, sched, s)
      | Some a \<Rightarrow> do {
          n \<leftarrow> flag_nodes s a;
          G \<leftarrow> rd (OSFlagTbl s) g;
          (case flag_cond (OSFlagNodeWaitType n) (OSFlagFlags G) (OSFlagNodeFlags n) of
             None \<Rightarrow> Some (OS_ERR_FLAG_WAIT_TYPE, sched, s)
           | Some (flags_rdy, met) \<Rightarrow> do {
               (rdy, s) \<leftarrow> (if met then OS_FlagTaskRdy a flags_rdy OS_STAT_PEND_OK s else Some (False, s));
               n \<leftarrow> flag_nodes s a;
               post_loop g (OSFlagNodeNext n) (sched \<or> rdy) s }) })"

definition OSFlagPost :: "nat \<Rightarrow> u16 \<Rightarrow> u8 \<Rightarrow> FLAGS \<Rightarrow> (u16 \<times> os_err \<times> FLAGS) option" where
  "OSFlagPost g flags opt s = do {
     G \<leftarrow> rd (OSFlagTbl s) g;
     if OSFlagType G \<noteq> OS_EVENT_TYPE_FLAG then Some (0, OS_ERR_EVENT_TYPE, s)
     else if opt \<noteq> OS_FLAG_CLR \<and> opt \<noteq> OS_FLAG_SET then Some (0, OS_ERR_FLAG_INVALID_OPT, s)
     else do {
       let s = set_grp g (G\<lparr>OSFlagFlags := (if opt = OS_FLAG_CLR then OSFlagFlags G AND NOT flags else OSFlagFlags G OR flags)\<rparr>) s;
       pnode \<leftarrow> node_of (OSFlagWaitList G);
       (err, sched, s) \<leftarrow> post_loop g pnode False s;
       if err \<noteq> OS_ERR_NONE then Some (0, err, s)
       else do {
         k \<leftarrow> (if sched then OS_Sched (kern s) else Some (kern s));
         G \<leftarrow> rd (OSFlagTbl s) g;
         Some (OSFlagFlags G, OS_ERR_NONE, s\<lparr>kern := k\<rparr>) } } }"

partial_function (option) del_loop :: "nat option \<Rightarrow> FLAGS \<Rightarrow> FLAGS option" where
  "del_loop pnode s =
     (case pnode of
        None \<Rightarrow> Some s
      | Some a \<Rightarrow> do {
          (_, s) \<leftarrow> OS_FlagTaskRdy a 0 OS_STAT_PEND_ABORT s;
          n \<leftarrow> flag_nodes s a;
          del_loop (OSFlagNodeNext n) s })"

text \<open>The group goes to the front of the free list.\<close>

definition free_grp :: "nat \<Rightarrow> FLAGS \<Rightarrow> FLAGS option" where
  "free_grp g s = do {
     G \<leftarrow> rd (OSFlagTbl s) g;
     Some ((set_grp g (G\<lparr>OSFlagType := 0, OSFlagWaitList := OSFlagFreeList s, OSFlagFlags := 0\<rparr>) s)\<lparr>OSFlagFreeList := Group g\<rparr>) }"

definition OSFlagDel :: "nat \<Rightarrow> u8 \<Rightarrow> FLAGS \<Rightarrow> (nat option \<times> os_err \<times> FLAGS) option" where
  "OSFlagDel g opt s =
     (if OSIntNesting (kern s) > 0 then Some (Some g, OS_ERR_DEL_ISR, s)
      else do {
        G \<leftarrow> rd (OSFlagTbl s) g;
        if OSFlagType G \<noteq> OS_EVENT_TYPE_FLAG then Some (Some g, OS_ERR_EVENT_TYPE, s)
        else if opt = OS_DEL_NO_PEND then
          if OSFlagWaitList G = NoFlag then map_option (\<lambda>s. (None, OS_ERR_NONE, s)) (free_grp g s)
          else Some (Some g, OS_ERR_TASK_WAITING, s)
        else if opt = OS_DEL_ALWAYS then do {
          pnode \<leftarrow> node_of (OSFlagWaitList G);
          s \<leftarrow> del_loop pnode s;
          s \<leftarrow> free_grp g s;
          k \<leftarrow> (if OSFlagWaitList G \<noteq> NoFlag then OS_Sched (kern s) else Some (kern s));
          Some (None, OS_ERR_NONE, s\<lparr>kern := k\<rparr>) }
        else Some (Some g, OS_ERR_INVALID_OPT, s) })"

section \<open>Wait lists as lists\<close>

text \<open>
  The nodes \<open>as\<close> are linked in both directions, from \<open>st\<close> on; the node before the first is \<open>pv\<close>,
  the one after the last \<open>nx\<close>.
\<close>

fun dseg :: "(nat \<Rightarrow> OS_FLAG_NODE option) \<Rightarrow> nat \<Rightarrow> nat option \<Rightarrow> nat option \<Rightarrow> nat list \<Rightarrow> nat option \<Rightarrow> bool" where
  "dseg h g pv st [] nx \<longleftrightarrow> st = nx"
| "dseg h g pv st (a # as) nx \<longleftrightarrow> st = Some a \<and> (\<exists>n. h a = Some n \<and> OSFlagNodePrev n = pv \<and> OSFlagNodeFlagGrp n = g
     \<and> dseg h g (Some a) (OSFlagNodeNext n) as nx)"

fun last_of :: "nat option \<Rightarrow> nat list \<Rightarrow> nat option" where
  "last_of pv [] = pv"
| "last_of pv (a # as) = last_of (Some a) as"

lemma last_of_snoc [simp]: "last_of pv (as @ [a]) = Some a"
  by (induction as arbitrary: pv) simp_all

lemma dseg_append [simp]: "dseg h g pv st (as @ bs) nx \<longleftrightarrow> (\<exists>m. dseg h g pv st as m \<and> dseg h g (last_of pv as) m bs nx)"
  by (induction as arbitrary: pv st) auto

lemma dseg_upd [simp]: "a \<notin> set as \<Longrightarrow> dseg (h(a := x)) g pv st as nx = dseg h g pv st as nx"
  by (induction as arbitrary: pv st) auto

lemma dseg_alive: "dseg h g pv st as nx \<Longrightarrow> a \<in> set as \<Longrightarrow> \<exists>n. h a = Some n \<and> OSFlagNodeFlagGrp n = g"
  by (induction as arbitrary: pv st) auto

definition flist :: "nat \<Rightarrow> nat list \<Rightarrow> FLAGS \<Rightarrow> bool" where
  "flist g ns s \<longleftrightarrow> g < length (OSFlagTbl s) \<and> distinct ns
     \<and> (\<exists>st. OSFlagWaitList (OSFlagTbl s ! g) = ptr_of st \<and> dseg (flag_nodes s) g None st ns None)"

text \<open>What a node says apart from its links, and that a step changes links only.\<close>

definition node_data :: "OS_FLAG_NODE \<Rightarrow> u8 \<times> nat \<times> u16 \<times> u8" where
  "node_data n = (OSFlagNodeTCB n, OSFlagNodeFlagGrp n, OSFlagNodeFlags n, OSFlagNodeWaitType n)"

definition relinked :: "(nat \<Rightarrow> OS_FLAG_NODE option) \<Rightarrow> (nat \<Rightarrow> OS_FLAG_NODE option) \<Rightarrow> bool" where
  "relinked h h' \<longleftrightarrow> (\<forall>x. map_option node_data (h' x) = map_option node_data (h x))"

lemma relinked_refl [simp]: "relinked h h"
  by (simp add: relinked_def)

lemma relinked_trans: "relinked h h1 \<Longrightarrow> relinked h1 h2 \<Longrightarrow> relinked h h2"
  by (simp add: relinked_def)

lemma relinkedD: "relinked h h' \<Longrightarrow> h x = Some n \<Longrightarrow> \<exists>n'. h' x = Some n' \<and> node_data n' = node_data n"
  unfolding relinked_def by (metis map_option_eq_Some option.simps(9))

lemma node_data_links [simp]:
  "node_data (n\<lparr>OSFlagNodePrev := p\<rparr>) = node_data n" "node_data (n\<lparr>OSFlagNodeNext := p\<rparr>) = node_data n"
  by (simp_all add: node_data_def)

lemma node_of_ptr [simp]: "node_of (ptr_of x) = Some x"
  by (cases x) simp_all

lemma ptr_of_none [simp]: "ptr_of x = NoFlag \<longleftrightarrow> x = None"
  by (cases x) simp_all

lemma unlink_first:
  assumes "flist g (a # bs) s" and "flag_nodes s a = Some n"
  shows "\<exists>h' st'. OS_FlagUnlink a s = Some (s\<lparr>OSFlagTbl := (OSFlagTbl s)[g := (OSFlagTbl s ! g)\<lparr>OSFlagWaitList := ptr_of st'\<rparr>],
       flag_nodes := h', OSTCBFlagNode := (OSTCBFlagNode s)(OSFlagNodeTCB n := None)\<rparr>)
     \<and> dseg h' g None st' bs None \<and> relinked (flag_nodes s) h' \<and> (\<forall>x. x \<notin> set bs \<longrightarrow> h' x = flag_nodes s x)"
proof -
  have g: "g < length (OSFlagTbl s)" "a \<notin> set bs" "distinct bs" and p: "OSFlagNodePrev n = None" "OSFlagNodeFlagGrp n = g"
    and d: "dseg (flag_nodes s) g (Some a) (OSFlagNodeNext n) bs None"
    using assms by (auto simp: flist_def)
  show ?thesis
  proof (cases bs)
    case Nil
    then show ?thesis
      using g p d assms(2) by (intro exI [of _ "flag_nodes s"] exI [of _ None]) (simp add: OS_FlagUnlink_def set_grp_def rd_in del: rd_eq_Some)
  next
    case (Cons b bs')
    then obtain m where m: "flag_nodes s b = Some m" "OSFlagNodeNext n = Some b" "OSFlagNodeFlagGrp m = g"
        "dseg (flag_nodes s) g (Some b) (OSFlagNodeNext m) bs' None"
      using d by auto
    show ?thesis
      using g p m assms(2) Cons
      by (intro exI [of _ "(flag_nodes s)(b \<mapsto> m\<lparr>OSFlagNodePrev := None\<rparr>)"] exI [of _ "Some b"])
        (auto simp: OS_FlagUnlink_def set_grp_def set_prev_def rd_in relinked_def simp del: rd_eq_Some)
  qed
qed

lemma unlink_later:
  assumes "flist g ((as @ [p]) @ a # bs) s" and "flag_nodes s a = Some n"
  shows "\<exists>h' st'. OS_FlagUnlink a s = Some (s\<lparr>OSFlagTbl := (OSFlagTbl s)[g := (OSFlagTbl s ! g)\<lparr>OSFlagWaitList := ptr_of st'\<rparr>],
       flag_nodes := h', OSTCBFlagNode := (OSTCBFlagNode s)(OSFlagNodeTCB n := None)\<rparr>)
     \<and> dseg h' g None st' ((as @ [p]) @ bs) None \<and> relinked (flag_nodes s) h' \<and> (\<forall>x. x \<notin> set ((as @ [p]) @ bs) \<longrightarrow> h' x = flag_nodes s x)"
proof -
  obtain st where st: "OSFlagWaitList (OSFlagTbl s ! g) = ptr_of st" "dseg (flag_nodes s) g None st ((as @ [p]) @ a # bs) None"
    and g: "g < length (OSFlagTbl s)" "distinct ((as @ [p]) @ a # bs)"
    using assms(1) by (auto simp: flist_def simp del: dseg_append)
  then obtain q where q: "dseg (flag_nodes s) g None st as (Some p)" "flag_nodes s p = Some q" "OSFlagNodePrev q = last_of None as"
      "OSFlagNodeFlagGrp q = g" "OSFlagNodeNext q = Some a" "OSFlagNodePrev n = Some p"
      "dseg (flag_nodes s) g (Some a) (OSFlagNodeNext n) bs None"
    using assms(2) by auto
  have s: "(OSFlagTbl s)[g := (OSFlagTbl s ! g)\<lparr>OSFlagWaitList := ptr_of st\<rparr>] = OSFlagTbl s" using g(1) st(1) [symmetric] by simp
  show ?thesis
  proof (cases bs)
    case Nil
    then show ?thesis
      using g q s assms(2)
      by (intro exI [of _ "(flag_nodes s)(p \<mapsto> q\<lparr>OSFlagNodeNext := None\<rparr>)"] exI [of _ st])
        (auto simp: OS_FlagUnlink_def set_next_def relinked_def)
  next
    case (Cons b bs')
    then obtain m where m: "flag_nodes s b = Some m" "OSFlagNodeNext n = Some b" "OSFlagNodeFlagGrp m = g"
        "dseg (flag_nodes s) g (Some b) (OSFlagNodeNext m) bs' None"
      using q(7) by auto
    show ?thesis
      using g q m s assms(2) Cons
      by (intro exI [of _ "(flag_nodes s)(p \<mapsto> q\<lparr>OSFlagNodeNext := Some b\<rparr>, b \<mapsto> m\<lparr>OSFlagNodePrev := Some p\<rparr>)"] exI [of _ st])
        (auto simp: OS_FlagUnlink_def set_next_def set_prev_def relinked_def)
  qed
qed

lemma unlink_flist:
  assumes "flist g (as @ a # bs) s" and "flag_nodes s a = Some n"
  shows "\<exists>h' st'. OS_FlagUnlink a s = Some (s\<lparr>OSFlagTbl := (OSFlagTbl s)[g := (OSFlagTbl s ! g)\<lparr>OSFlagWaitList := ptr_of st'\<rparr>],
       flag_nodes := h', OSTCBFlagNode := (OSTCBFlagNode s)(OSFlagNodeTCB n := None)\<rparr>)
     \<and> dseg h' g None st' (as @ bs) None \<and> relinked (flag_nodes s) h' \<and> (\<forall>x. x \<notin> set (as @ bs) \<longrightarrow> h' x = flag_nodes s x)"
proof (cases as rule: rev_cases)
  case Nil
  then show ?thesis using unlink_first [of g a bs s n] assms by simp
next
  case (snoc as' p)
  then show ?thesis using unlink_later [of g as' p a bs s n] assms by simp
qed


section \<open>Readying a waiting task\<close>

text \<open>The task of a node, and its control block when it is readied.\<close>

definition task_of :: "FLAGS \<Rightarrow> nat \<Rightarrow> u8" where
  "task_of s a = OSFlagNodeTCB (the (flag_nodes s a))"

definition flag_readied :: "u8 \<Rightarrow> OS_TCB \<Rightarrow> OS_TCB" where
  "flag_readied pend_stat t = t\<lparr>OSTCBDly := 0, OSTCBStat := OSTCBStat t AND NOT OS_STAT_FLAG, OSTCBStatPend := pend_stat\<rparr>"

text \<open>
  The kernel's lists are consistent, the waiting nodes of a group belong to different tasks, and
  each waits in one of the four ways.
\<close>

definition waits :: "nat \<Rightarrow> nat list \<Rightarrow> FLAGS \<Rightarrow> bool" where
  "waits g ns s \<longleftrightarrow> os_ok (kern s) \<and> flist g ns s \<and> distinct (map (task_of s) ns)
     \<and> (\<forall>a \<in> set ns. OSTCBPrioTbl (kern s) (task_of s a) \<noteq> None \<and> OSFlagNodeWaitType (the (flag_nodes s a)) < 4)"

lemma waits_flist: "waits g ns s \<Longrightarrow> flist g ns s"
  by (simp add: waits_def)

lemma relinked_task: "relinked (flag_nodes s) (flag_nodes s') \<Longrightarrow> flag_nodes s a \<noteq> None \<Longrightarrow> task_of s' a = task_of s a"
  by (auto simp: task_of_def node_data_def dest: relinkedD)

lemma flist_alive: "flist g ns s \<Longrightarrow> a \<in> set ns \<Longrightarrow> \<exists>n. flag_nodes s a = Some n \<and> OSFlagNodeFlagGrp n = g"
  by (auto simp: flist_def dest: dseg_alive)

lemma os_ok_ready_task:
  assumes ok: "os_ok k" and t: "OSTCBPrioTbl k p = Some t" and u: "u = flag_readied st t"
  shows "\<exists>r. (if OSTCBStat u = OS_STAT_RDY then bits_set u (OSRdyGrp k, OSRdyTbl k) else Some (OSRdyGrp k, OSRdyTbl k)) = Some r
     \<and> os_ok (k\<lparr>OSTCBPrioTbl := (OSTCBPrioTbl k)(p \<mapsto> u), OSRdyGrp := fst r, OSRdyTbl := snd r\<rparr>)
     \<and> prios r = (if OSTCBStat u = OS_STAT_RDY then insert (unat p) (ready k) else ready k)"
proof -
  have at: "tcb_at (unat p) u" using os_okD(4) [OF ok t] by (simp add: u flag_readied_def tcb_at_def)
  have mu: "OSTCBEventMultiPtr u = None" using os_okD(5) [OF ok t] by (simp add: u flag_readied_def)
  obtain r where r: "(if OSTCBStat u = OS_STAT_RDY then bits_set u (OSRdyGrp k, OSRdyTbl k) else Some (OSRdyGrp k, OSRdyTbl k)) = Some r"
      "bits_ok r" "prios r = (if OSTCBStat u = OS_STAT_RDY then insert (unat p) (ready k) else ready k)"
    using prio.ins [OF at os_okD(1) [OF ok]] os_okD(1) [OF ok] by (cases "OSTCBStat u = OS_STAT_RDY") auto
  have "63 \<in> prios r" "prios r \<subseteq> insert (unat p) (ready k)" using r(3) os_okD(2) [OF ok] by (auto split: if_splits)
  moreover have "\<forall>e \<in> set (OSEvents k). event_ok (OSTCBPrioTbl k) e" using os_okD(7) [OF ok] by blast
  ultimately have "os_ok (k\<lparr>OSTCBPrioTbl := (OSTCBPrioTbl k)(p \<mapsto> u), OSEvents := OSEvents k, OSRdyGrp := fst r, OSRdyTbl := snd r\<rparr>)"
    using os_ok_update [OF ok t at mu r(2)] by blast
  then show ?thesis using r(1,3) by (intro exI [of _ r]) simp
qed

text \<open>
  The state after a task was readied, up to the links: what the two loops need to know of it.
\<close>

definition woken :: "nat \<Rightarrow> nat \<Rightarrow> u16 \<Rightarrow> u8 \<Rightarrow> FLAGS \<Rightarrow> FLAGS \<Rightarrow> bool" where
  "woken g a rdy st s s' \<longleftrightarrow>
     (\<exists>t h' w r. OSTCBPrioTbl (kern s) (task_of s a) = Some t
       \<and> prios r = (if OSTCBStat (flag_readied st t) = OS_STAT_RDY then insert (unat (task_of s a)) (ready (kern s)) else ready (kern s))
       \<and> s' = s\<lparr>OSTCBFlagsRdy := (OSTCBFlagsRdy s)(task_of s a := rdy),
           kern := (kern s)\<lparr>OSTCBPrioTbl := (OSTCBPrioTbl (kern s))(task_of s a \<mapsto> flag_readied st t), OSRdyGrp := fst r, OSRdyTbl := snd r\<rparr>,
           OSFlagTbl := (OSFlagTbl s)[g := (OSFlagTbl s ! g)\<lparr>OSFlagWaitList := w\<rparr>],
           flag_nodes := h', OSTCBFlagNode := (OSTCBFlagNode s)(task_of s a := None)\<rparr>)"

lemma OS_FlagTaskRdy_alt:
  "OS_FlagTaskRdy a rdy st s = do {
     n \<leftarrow> flag_nodes s a;
     t \<leftarrow> OSTCBPrioTbl (kern s) (OSFlagNodeTCB n);
     r \<leftarrow> (if OSTCBStat (flag_readied st t) = OS_STAT_RDY then bits_set (flag_readied st t) (OSRdyGrp (kern s), OSRdyTbl (kern s))
         else Some (OSRdyGrp (kern s), OSRdyTbl (kern s)));
     s' \<leftarrow> OS_FlagUnlink a (s\<lparr>OSTCBFlagsRdy := (OSTCBFlagsRdy s)(OSFlagNodeTCB n := rdy),
       kern := (kern s)\<lparr>OSTCBPrioTbl := (OSTCBPrioTbl (kern s))(OSFlagNodeTCB n \<mapsto> flag_readied st t), OSRdyGrp := fst r, OSRdyTbl := snd r\<rparr>\<rparr>);
     Some (OSTCBStat (flag_readied st t) = OS_STAT_RDY, s') }"
  by (simp add: OS_FlagTaskRdy_def set_tcb_def flag_readied_def Let_def case_prod_unfold cong: if_cong)

lemma OS_FlagTaskRdy_ok:
  assumes w: "waits g (as @ a # bs) s"
  shows "\<exists>s' b. OS_FlagTaskRdy a rdy st s = Some (b, s') \<and> waits g (as @ bs) s' \<and> woken g a rdy st s s'
     \<and> (b \<longleftrightarrow> OSTCBStat (the (OSTCBPrioTbl (kern s') (task_of s a))) = OS_STAT_RDY)
     \<and> relinked (flag_nodes s) (flag_nodes s') \<and> (\<forall>x. x \<notin> set (as @ bs) \<longrightarrow> flag_nodes s' x = flag_nodes s x)"
proof -
  have ok: "os_ok (kern s)" and fl: "flist g (as @ a # bs) s" using w by (auto simp: waits_def)
  obtain n where n: "flag_nodes s a = Some n" using flist_alive [OF fl, of a] by auto
  then have p: "OSFlagNodeTCB n = task_of s a" by (simp add: task_of_def)
  obtain t where t: "OSTCBPrioTbl (kern s) (task_of s a) = Some t" using w by (auto simp: waits_def)
  let ?u = "flag_readied st t" and ?p = "task_of s a" and ?k = "kern s"
  obtain r where r: "(if OSTCBStat ?u = OS_STAT_RDY then bits_set ?u (OSRdyGrp ?k, OSRdyTbl ?k) else Some (OSRdyGrp ?k, OSRdyTbl ?k)) = Some r"
      "os_ok (?k\<lparr>OSTCBPrioTbl := (OSTCBPrioTbl ?k)(?p \<mapsto> ?u), OSRdyGrp := fst r, OSRdyTbl := snd r\<rparr>)"
      "prios r = (if OSTCBStat ?u = OS_STAT_RDY then insert (unat ?p) (ready ?k) else ready ?k)"
    using os_ok_ready_task [OF ok t refl] by blast
  let ?s1 = "s\<lparr>OSTCBFlagsRdy := (OSTCBFlagsRdy s)(?p := rdy),
      kern := ?k\<lparr>OSTCBPrioTbl := (OSTCBPrioTbl ?k)(?p \<mapsto> ?u), OSRdyGrp := fst r, OSRdyTbl := snd r\<rparr>\<rparr>"
  have "flist g (as @ a # bs) ?s1" "flag_nodes ?s1 a = Some n" using fl n by (simp_all add: flist_def)
  then obtain h' st' where h: "OS_FlagUnlink a ?s1 = Some (?s1\<lparr>OSFlagTbl := (OSFlagTbl s)[g := (OSFlagTbl s ! g)\<lparr>OSFlagWaitList := ptr_of st'\<rparr>],
       flag_nodes := h', OSTCBFlagNode := (OSTCBFlagNode s)(?p := None)\<rparr>)"
      "dseg h' g None st' (as @ bs) None" "relinked (flag_nodes s) h'" "\<forall>x. x \<notin> set (as @ bs) \<longrightarrow> h' x = flag_nodes s x"
    using unlink_flist [of g as a bs ?s1 n] unfolding p by auto
  let ?s2 = "?s1\<lparr>OSFlagTbl := (OSFlagTbl s)[g := (OSFlagTbl s ! g)\<lparr>OSFlagWaitList := ptr_of st'\<rparr>],
       flag_nodes := h', OSTCBFlagNode := (OSTCBFlagNode s)(?p := None)\<rparr>"
  have e: "OS_FlagTaskRdy a rdy st s = Some (OSTCBStat ?u = OS_STAT_RDY, ?s2)"
    using n p t r(1) h(1) by (simp add: OS_FlagTaskRdy_alt)
  have tasks: "task_of ?s2 x = task_of s x" if "x \<in> set (as @ bs)" for x
    using flist_alive [OF fl, of x] that h(3) by (intro relinked_task) auto
  have "OSFlagNodeWaitType (the (h' x)) = OSFlagNodeWaitType (the (flag_nodes s x))" if "x \<in> set (as @ bs)" for x
    using flist_alive [OF fl, of x] that relinkedD [OF h(3), of x] by (auto simp: node_data_def)
  moreover have "flist g (as @ bs) ?s2" using fl h(2) by (auto simp: flist_def)
  ultimately have "waits g (as @ bs) ?s2" using w r(2) tasks by (auto simp: waits_def cong: map_cong)
  moreover have "woken g a rdy st s ?s2"
    unfolding woken_def using t r(3) by (intro exI [of _ t] exI [of _ h'] exI [of _ "ptr_of st'"] exI [of _ r]) simp
  ultimately show ?thesis using e h(3,4) by (intro exI [of _ ?s2] exI [of _ "OSTCBStat ?u = OS_STAT_RDY"]) simp
qed


section \<open>Walking along a wait list\<close>

definition start :: "nat list \<Rightarrow> nat option" where
  "start ns = (case ns of [] \<Rightarrow> None | a # _ \<Rightarrow> Some a)"

lemma start_simps [simp]: "start [] = None" "start (a # ns) = Some a"
  by (simp_all add: start_def)

lemma dseg_start: "dseg h g pv st ns None \<Longrightarrow> st = start ns"
  by (cases ns) auto

lemma flist_next: "flist g (as @ a # bs) s \<Longrightarrow> \<exists>n. flag_nodes s a = Some n \<and> OSFlagNodeNext n = start bs"
  by (auto simp: flist_def dest: dseg_start)

text \<open>The condition a node waits for, at the flags \<open>f\<close>, and the bits it would get.\<close>

definition node_met :: "FLAGS \<Rightarrow> u16 \<Rightarrow> nat \<Rightarrow> bool" where
  "node_met s f a = (case flag_cond (OSFlagNodeWaitType (the (flag_nodes s a))) f (OSFlagNodeFlags (the (flag_nodes s a))) of
     None \<Rightarrow> False | Some (_, met) \<Rightarrow> met)"

definition node_rdy :: "FLAGS \<Rightarrow> u16 \<Rightarrow> nat \<Rightarrow> u16" where
  "node_rdy s f a = (case flag_cond (OSFlagNodeWaitType (the (flag_nodes s a))) f (OSFlagNodeFlags (the (flag_nodes s a))) of
     None \<Rightarrow> 0 | Some (rdy, _) \<Rightarrow> rdy)"

lemma relinked_node:
  assumes "relinked (flag_nodes s) (flag_nodes s')" and "flag_nodes s a \<noteq> None"
  shows "node_met s' f a = node_met s f a" and "node_rdy s' f a = node_rdy s f a" and "task_of s' a = task_of s a"
  using assms relinkedD [OF assms(1), of a] by (auto simp: node_met_def node_rdy_def task_of_def node_data_def)

lemma flag_cond_cases: "w < 4 \<Longrightarrow> \<exists>r m. flag_cond w f fl = Some (r, m)"
proof -
  assume "w < 4"
  then have "unat w = 0 \<or> unat w = 1 \<or> unat w = 2 \<or> unat w = 3" by (simp add: word_less_nat_alt) linarith
  then have "w = 0 \<or> w = 1 \<or> w = 2 \<or> w = 3" by (simp add: word_unat_eq_iff)
  then show ?thesis by (auto simp: flag_cond_def flag_constants Let_def)
qed

text \<open>The effect of readying the tasks of the nodes \<open>ws\<close>, each with its bits.\<close>

definition only_tasks :: "nat \<Rightarrow> FLAGS \<Rightarrow> FLAGS \<Rightarrow> bool" where
  "only_tasks g s s' \<longleftrightarrow> (\<exists>R T r w h N. s' = s\<lparr>OSTCBFlagsRdy := R, kern := (kern s)\<lparr>OSTCBPrioTbl := T, OSRdyGrp := fst r, OSRdyTbl := snd r\<rparr>,
      OSFlagTbl := (OSFlagTbl s)[g := (OSFlagTbl s ! g)\<lparr>OSFlagWaitList := w\<rparr>], flag_nodes := h, OSTCBFlagNode := N\<rparr>)"

definition stat_of :: "FLAGS \<Rightarrow> u8 \<Rightarrow> u8" where
  "stat_of s p = OSTCBStat (the (OSTCBPrioTbl (kern s) p))"

definition wakes :: "nat \<Rightarrow> nat list \<Rightarrow> (nat \<Rightarrow> u16) \<Rightarrow> u8 \<Rightarrow> FLAGS \<Rightarrow> FLAGS \<Rightarrow> bool" where
  "wakes g ws rdy st s s' \<longleftrightarrow> only_tasks g s s'
     \<and> (\<forall>a \<in> set ws. OSTCBPrioTbl (kern s') (task_of s a) = map_option (flag_readied st) (OSTCBPrioTbl (kern s) (task_of s a))
          \<and> OSTCBFlagsRdy s' (task_of s a) = rdy a \<and> OSTCBFlagNode s' (task_of s a) = None)
     \<and> (\<forall>p. p \<notin> task_of s ` set ws \<longrightarrow> OSTCBPrioTbl (kern s') p = OSTCBPrioTbl (kern s) p
          \<and> OSTCBFlagsRdy s' p = OSTCBFlagsRdy s p \<and> OSTCBFlagNode s' p = OSTCBFlagNode s p)
     \<and> ready (kern s') = ready (kern s) \<union> {unat p |p. p \<in> task_of s ` set ws \<and> stat_of s' p = OS_STAT_RDY}"

lemma only_tasks_refl: "only_tasks g s s"
  unfolding only_tasks_def
  by (intro exI [of _ "OSTCBFlagsRdy s"] exI [of _ "OSTCBPrioTbl (kern s)"] exI [of _ "(OSRdyGrp (kern s), OSRdyTbl (kern s))"]
      exI [of _ "OSFlagWaitList (OSFlagTbl s ! g)"] exI [of _ "flag_nodes s"] exI [of _ "OSTCBFlagNode s"]) simp

lemma only_tasks_trans:
  assumes "only_tasks g s s1" and "only_tasks g s1 s2" and "g < length (OSFlagTbl s)"
  shows "only_tasks g s s2"
proof -
  obtain R T r w h N where 1: "s1 = s\<lparr>OSTCBFlagsRdy := R, kern := (kern s)\<lparr>OSTCBPrioTbl := T, OSRdyGrp := fst r, OSRdyTbl := snd r\<rparr>,
      OSFlagTbl := (OSFlagTbl s)[g := (OSFlagTbl s ! g)\<lparr>OSFlagWaitList := w\<rparr>], flag_nodes := h, OSTCBFlagNode := N\<rparr>"
    using assms(1) unfolding only_tasks_def by blast
  obtain R' T' r' w' h' N' where 2: "s2 = s1\<lparr>OSTCBFlagsRdy := R', kern := (kern s1)\<lparr>OSTCBPrioTbl := T', OSRdyGrp := fst r', OSRdyTbl := snd r'\<rparr>,
      OSFlagTbl := (OSFlagTbl s1)[g := (OSFlagTbl s1 ! g)\<lparr>OSFlagWaitList := w'\<rparr>], flag_nodes := h', OSTCBFlagNode := N'\<rparr>"
    using assms(2) unfolding only_tasks_def by blast
  show ?thesis
    unfolding only_tasks_def 2 1 using assms(3)
    by (intro exI [of _ R'] exI [of _ T'] exI [of _ r'] exI [of _ w'] exI [of _ h'] exI [of _ N']) simp
qed

lemma wakes_nil: "wakes g [] rdy st s s"
  by (simp add: wakes_def only_tasks_refl)

lemma wakes_cons:
  assumes w: "woken g a (rdy a) st s s1" and ws: "wakes g ws rdy st s1 s2" and g: "g < length (OSFlagTbl s)"
    and d: "task_of s a \<notin> task_of s ` set ws" and same: "\<forall>x \<in> set ws. task_of s1 x = task_of s x"
  shows "wakes g (a # ws) rdy st s s2"
proof -
  let ?p = "task_of s a"
  obtain t h' w' r where t: "OSTCBPrioTbl (kern s) ?p = Some t"
    and r: "prios r = (if OSTCBStat (flag_readied st t) = OS_STAT_RDY then insert (unat ?p) (ready (kern s)) else ready (kern s))"
    and s1: "s1 = s\<lparr>OSTCBFlagsRdy := (OSTCBFlagsRdy s)(?p := rdy a),
           kern := (kern s)\<lparr>OSTCBPrioTbl := (OSTCBPrioTbl (kern s))(?p \<mapsto> flag_readied st t), OSRdyGrp := fst r, OSRdyTbl := snd r\<rparr>,
           OSFlagTbl := (OSFlagTbl s)[g := (OSFlagTbl s ! g)\<lparr>OSFlagWaitList := w'\<rparr>],
           flag_nodes := h', OSTCBFlagNode := (OSTCBFlagNode s)(?p := None)\<rparr>"
    using w unfolding woken_def by blast
  have "only_tasks g s s1" unfolding only_tasks_def s1 by blast
  then have o: "only_tasks g s s2" using only_tasks_trans ws g by (auto simp: wakes_def)
  have im: "task_of s1 ` set ws = task_of s ` set ws" using same by auto
  have a: "OSTCBPrioTbl (kern s2) ?p = Some (flag_readied st t)" "OSTCBFlagsRdy s2 ?p = rdy a" "OSTCBFlagNode s2 ?p = None"
    using ws d im by (auto simp: wakes_def s1)
  have "ready (kern s1) = (if stat_of s2 ?p = OS_STAT_RDY then insert (unat ?p) (ready (kern s)) else ready (kern s))"
    using r a(1) by (simp add: s1 stat_of_def)
  then have "ready (kern s2) = ready (kern s) \<union> {unat p |p. p \<in> task_of s ` set (a # ws) \<and> stat_of s2 p = OS_STAT_RDY}"
    using ws unfolding wakes_def im by (auto split: if_splits)
  then show ?thesis
    using o a t ws d im same by (auto simp: wakes_def s1)
qed


section \<open>The two loops\<close>

lemma waits_split:
  assumes "waits g (as @ a # bs) s"
  shows "task_of s a \<notin> task_of s ` set bs" and "a \<notin> set (as @ bs)" and "g < length (OSFlagTbl s)"
    and "x \<in> set (as @ a # bs) \<Longrightarrow> flag_nodes s x \<noteq> None"
  using assms flist_alive [OF waits_flist [OF assms], of x] by (auto simp: waits_def flist_def)

lemma woken_flags: "woken g a rdy st s s' \<Longrightarrow> g < length (OSFlagTbl s) \<Longrightarrow> OSFlagFlags (OSFlagTbl s' ! g) = OSFlagFlags (OSFlagTbl s ! g)"
  by (auto simp: woken_def)

lemma wakes_stat: "wakes g ws rdy st s s' \<Longrightarrow> p \<notin> task_of s ` set ws \<Longrightarrow> stat_of s' p = stat_of s p"
  by (simp add: wakes_def stat_of_def)

lemma post_loop_ok:
  assumes "waits g (as @ bs) s" and "OSFlagFlags (OSFlagTbl s ! g) = f"
  shows "\<exists>s' b. post_loop g (start bs) sched s = Some (OS_ERR_NONE, b, s')
     \<and> waits g (as @ filter (\<lambda>a. \<not> node_met s f a) bs) s' \<and> wakes g (filter (node_met s f) bs) (node_rdy s f) OS_STAT_PEND_OK s s'
     \<and> (b \<longleftrightarrow> sched \<or> (\<exists>a \<in> set (filter (node_met s f) bs). stat_of s' (task_of s a) = OS_STAT_RDY))
     \<and> relinked (flag_nodes s) (flag_nodes s')"
  using assms
proof (induction bs arbitrary: as s sched)
  case Nil
  then show ?case by (intro exI [of _ s] exI [of _ sched]) (simp add: post_loop.simps wakes_nil)
next
  case (Cons a bs)
  note w = waits_split [OF Cons.prems(1)]
  obtain n where n: "flag_nodes s a = Some n" "OSFlagNodeNext n = start bs"
    using flist_next [OF waits_flist [OF Cons.prems(1)]] by blast
  have "OSFlagNodeWaitType n < 4" using Cons.prems(1) n(1) by (auto simp: waits_def)
  then obtain r m where c: "flag_cond (OSFlagNodeWaitType n) f (OSFlagNodeFlags n) = Some (r, m)" using flag_cond_cases by blast
  then have rm: "node_rdy s f a = r" "node_met s f a = m" by (simp_all add: node_rdy_def node_met_def n(1))
  show ?case
  proof (cases m)
    case False
    have "waits g ((as @ [a]) @ bs) s" using Cons.prems(1) by simp
    from Cons.IH [OF this Cons.prems(2), of sched] show ?thesis
      using n c w(3) Cons.prems(2) False rm by (simp add: post_loop.simps [of g "Some a"] rd_in del: rd_eq_Some)
  next
    case True
    obtain s1 b where s1: "OS_FlagTaskRdy a r OS_STAT_PEND_OK s = Some (b, s1)" "waits g (as @ bs) s1" "woken g a r OS_STAT_PEND_OK s s1"
        "b \<longleftrightarrow> OSTCBStat (the (OSTCBPrioTbl (kern s1) (task_of s a))) = OS_STAT_RDY"
        "relinked (flag_nodes s) (flag_nodes s1)" "\<forall>x. x \<notin> set (as @ bs) \<longrightarrow> flag_nodes s1 x = flag_nodes s x"
      using OS_FlagTaskRdy_ok [OF Cons.prems(1), of r OS_STAT_PEND_OK] by blast
    have same: "node_met s1 f x = node_met s f x" "node_rdy s1 f x = node_rdy s f x" "task_of s1 x = task_of s x" if "x \<in> set bs" for x
      using relinked_node [OF s1(5)] w(4) [of x] that by simp_all
    then have fi: "filter (\<lambda>a. \<not> node_met s1 f a) bs = filter (\<lambda>a. \<not> node_met s f a) bs"
        "filter (node_met s1 f) bs = filter (node_met s f) bs"
      by (auto intro: filter_cong)
    obtain s2 b2 where s2: "post_loop g (start bs) (sched \<or> b) s1 = Some (OS_ERR_NONE, b2, s2)"
        "waits g (as @ filter (\<lambda>a. \<not> node_met s f a) bs) s2" "wakes g (filter (node_met s f) bs) (node_rdy s1 f) OS_STAT_PEND_OK s1 s2"
        "b2 \<longleftrightarrow> (sched \<or> b) \<or> (\<exists>a \<in> set (filter (node_met s f) bs). stat_of s2 (task_of s1 a) = OS_STAT_RDY)"
        "relinked (flag_nodes s1) (flag_nodes s2)"
      using Cons.IH [OF s1(2), of "sched \<or> b"] woken_flags [OF s1(3) w(3)] Cons.prems(2) unfolding fi by auto
    have ta: "task_of s a \<notin> task_of s ` set (filter (node_met s f) bs)" using w(1) by auto
    have tb: "\<forall>x \<in> set (filter (node_met s f) bs). task_of s1 x = task_of s x" using same by auto
    have "wakes g (filter (node_met s f) bs) (node_rdy s f) OS_STAT_PEND_OK s1 s2"
      using s2(3) same by (simp add: wakes_def)
    then have wk: "wakes g (a # filter (node_met s f) bs) (node_rdy s f) OS_STAT_PEND_OK s s2"
      using s1(3) rm by (intro wakes_cons [OF _ _ w(3) ta tb]) simp_all
    have "task_of s1 ` set (filter (node_met s f) bs) = task_of s ` set (filter (node_met s f) bs)" using tb by auto
    then have "stat_of s2 (task_of s a) = stat_of s1 (task_of s a)" using ta by (intro wakes_stat [OF s2(3)]) simp
    then have bb: "b \<longleftrightarrow> stat_of s2 (task_of s a) = OS_STAT_RDY" using s1(4) by (simp add: stat_of_def)
    have "flag_nodes s1 a = Some n" using s1(6) w(2) n(1) by simp
    then have "post_loop g (start (a # bs)) sched s = Some (OS_ERR_NONE, b2, s2)"
      using n c w(3) Cons.prems(2) True s1(1) s2(1) by (simp add: post_loop.simps [of g "Some a"] rd_in del: rd_eq_Some)
    then show ?thesis
      using s2(2,4) wk bb tb True rm relinked_trans [OF s1(5) s2(5)] by (intro exI [of _ s2] exI [of _ b2]) auto
  qed
qed

lemma del_loop_ok:
  assumes "waits g bs s"
  shows "\<exists>s'. del_loop (start bs) s = Some s' \<and> waits g [] s' \<and> wakes g bs (\<lambda>_. 0) OS_STAT_PEND_ABORT s s'
     \<and> (\<forall>i < length bs. \<exists>n. flag_nodes s' (bs ! i) = Some n \<and> OSFlagNodePrev n = None \<and> OSFlagNodeNext n = start (drop (Suc i) bs)
           \<and> OSFlagNodeFlagGrp n = g)
     \<and> (\<forall>x. x \<notin> set bs \<longrightarrow> flag_nodes s' x = flag_nodes s x)"
  using assms
proof (induction bs arbitrary: s)
  case Nil
  then show ?case by (intro exI [of _ s]) (simp add: del_loop.simps wakes_nil)
next
  case (Cons a bs)
  have pre: "waits g ([] @ a # bs) s" using Cons.prems by simp
  note w = waits_split [OF pre]
  obtain n where n: "flag_nodes s a = Some n" "OSFlagNodeNext n = start bs" "OSFlagNodePrev n = None" "OSFlagNodeFlagGrp n = g"
    using waits_flist [OF Cons.prems] by (auto simp: flist_def dest: dseg_start)
  obtain s1 b where s1: "OS_FlagTaskRdy a 0 OS_STAT_PEND_ABORT s = Some (b, s1)" "waits g bs s1" "woken g a 0 OS_STAT_PEND_ABORT s s1"
      "relinked (flag_nodes s) (flag_nodes s1)" "\<forall>x. x \<notin> set bs \<longrightarrow> flag_nodes s1 x = flag_nodes s x"
    using OS_FlagTaskRdy_ok [OF pre, of 0 OS_STAT_PEND_ABORT] by auto
  obtain s2 where s2: "del_loop (start bs) s1 = Some s2" "waits g [] s2" "wakes g bs (\<lambda>_. 0) OS_STAT_PEND_ABORT s1 s2"
      "\<forall>i < length bs. \<exists>n. flag_nodes s2 (bs ! i) = Some n \<and> OSFlagNodePrev n = None \<and> OSFlagNodeNext n = start (drop (Suc i) bs)
         \<and> OSFlagNodeFlagGrp n = g"
      "\<forall>x. x \<notin> set bs \<longrightarrow> flag_nodes s2 x = flag_nodes s1 x"
    using Cons.IH [OF s1(2)] by blast
  have a: "a \<notin> set bs" using w(2) by simp
  then have na: "flag_nodes s1 a = Some n" "flag_nodes s2 a = Some n" using s1(5) s2(5) n(1) by auto
  have "\<forall>x \<in> set bs. task_of s1 x = task_of s x" using relinked_node(3) [OF s1(4)] w(4) by simp
  then have "wakes g (a # bs) (\<lambda>_. 0) OS_STAT_PEND_ABORT s s2" using wakes_cons [OF s1(3) s2(3) w(3,1)] by simp
  moreover have "del_loop (start (a # bs)) s = Some s2" using s1(1) na(1) n(2) s2(1) by (simp add: del_loop.simps [of "Some a"])
  moreover have "\<exists>n. flag_nodes s2 ((a # bs) ! i) = Some n \<and> OSFlagNodePrev n = None \<and> OSFlagNodeNext n = start (drop (Suc i) (a # bs))
     \<and> OSFlagNodeFlagGrp n = g" if "i < length (a # bs)" for i
    using that na(2) n s2(4) by (cases i) auto
  ultimately show ?case using s1(5) s2(2,5) by (intro exI [of _ s2]) auto
qed


section \<open>The services\<close>

lemma scheduled_tcb: "\<exists>c. OSTCBPrioTbl (scheduled k) p = map_option (\<lambda>t. t\<lparr>OSTCBCtxSwCtr := OSTCBCtxSwCtr t + c\<rparr>) (OSTCBPrioTbl k p)"
proof (cases "highest k \<noteq> OSPrioCur k \<and> p = highest k")
  case True
  then show ?thesis by (intro exI [of _ 1]) (simp add: scheduled_def)
next
  case False
  then show ?thesis by (intro exI [of _ 0]) (auto simp: scheduled_def option.map_ident)
qed

text \<open>What a call of the scheduler leaves alone; \<open>sched\<close> says whether it is called.\<close>

definition sched_of :: "OS \<Rightarrow> OS \<Rightarrow> bool" where
  "sched_of k k' \<longleftrightarrow> os_ok k' \<and> ready k' = ready k \<and> OSPrioCur k' = OSPrioCur k \<and> OSIntNesting k' = OSIntNesting k
     \<and> OSLockNesting k' = OSLockNesting k
     \<and> (\<forall>p. \<exists>c. OSTCBPrioTbl k' p = map_option (\<lambda>t. t\<lparr>OSTCBCtxSwCtr := OSTCBCtxSwCtr t + c\<rparr>) (OSTCBPrioTbl k p))"

lemma sched_of_refl: "os_ok k \<Longrightarrow> sched_of k k"
  by (auto simp: sched_of_def option.map_ident intro!: exI [of _ 0])

lemma sched_of_OS_Sched:
  assumes "os_ok k"
  shows "\<exists>k'. (if sched then OS_Sched k else Some k) = Some k' \<and> sched_of k k'"
proof (cases "sched \<and> OSIntNesting k = 0 \<and> OSLockNesting k = 0")
  case True
  have "sched_of k (scheduled k)" using scheduled_ok [OF assms] scheduled_tcb by (simp add: sched_of_def)
  then show ?thesis using True OS_Sched_scheduled [OF assms] by auto
next
  case False
  then show ?thesis using OS_Sched_scheduled [OF assms] sched_of_refl [OF assms] by auto
qed

lemma sched_of_tcb: "sched_of k k' \<Longrightarrow> OSTCBPrioTbl k p = Some t \<Longrightarrow> \<exists>c. OSTCBPrioTbl k' p = Some (t\<lparr>OSTCBCtxSwCtr := c\<rparr>)"
proof -
  assume k: "sched_of k k'" and t: "OSTCBPrioTbl k p = Some t"
  obtain c where "OSTCBPrioTbl k' p = map_option (\<lambda>t. t\<lparr>OSTCBCtxSwCtr := OSTCBCtxSwCtr t + c\<rparr>) (OSTCBPrioTbl k p)"
    using k unfolding sched_of_def by blast
  then show ?thesis using t by auto
qed

lemma waits_sched:
  assumes "waits g ns s" and k: "sched_of (kern s) k'"
  shows "waits g ns (s\<lparr>kern := k'\<rparr>)"
proof -
  have "OSTCBPrioTbl k' p \<noteq> None" if "OSTCBPrioTbl (kern s) p \<noteq> None" for p using sched_of_tcb [OF k] that by fastforce
  moreover have "task_of (s\<lparr>kern := k'\<rparr>) = task_of s" by (simp add: task_of_def fun_eq_iff)
  moreover have "os_ok k'" using k by (simp add: sched_of_def)
  ultimately show ?thesis using assms(1) by (simp add: waits_def flist_def)
qed

text \<open>A task's flags, state and outcome after it was readied with the bits \<open>rdy\<close>.\<close>

definition flagged :: "u16 \<Rightarrow> u8 \<Rightarrow> u8 \<Rightarrow> FLAGS \<Rightarrow> FLAGS \<Rightarrow> bool" where
  "flagged rdy st p s s' \<longleftrightarrow> OSTCBFlagsRdy s' p = rdy \<and> OSTCBFlagNode s' p = None
     \<and> (\<exists>t u. OSTCBPrioTbl (kern s) p = Some t \<and> OSTCBPrioTbl (kern s') p = Some u \<and> OSTCBDly u = 0 \<and> OSTCBStatPend u = st
          \<and> OSTCBStat u = OSTCBStat t AND NOT OS_STAT_FLAG \<and> (OSTCBStat u = OS_STAT_RDY \<longrightarrow> unat p \<in> ready (kern s')))"

lemma wakes_flagged:
  assumes w: "wakes g ws rdy st s s'" and a: "a \<in> set ws" and t: "OSTCBPrioTbl (kern s) (task_of s a) = Some t"
    and k: "sched_of (kern s') k'"
  shows "flagged (rdy a) st (task_of s a) s (s'\<lparr>kern := k'\<rparr>)"
proof -
  have u: "OSTCBPrioTbl (kern s') (task_of s a) = Some (flag_readied st t)" using w a t by (auto simp: wakes_def)
  then obtain c where c: "OSTCBPrioTbl k' (task_of s a) = Some (flag_readied st t\<lparr>OSTCBCtxSwCtr := c\<rparr>)" using sched_of_tcb [OF k] by blast
  have "OSTCBStat (flag_readied st t) = OS_STAT_RDY \<longrightarrow> unat (task_of s a) \<in> ready (kern s')"
    using w a u by (auto simp: wakes_def stat_of_def)
  then show ?thesis using w a t c k by (auto simp: flagged_def wakes_def flag_readied_def sched_of_def)
qed

lemma only_tasks_frame:
  assumes "only_tasks g s s'"
  shows "OSFlagFreeList s' = OSFlagFreeList s" and "length (OSFlagTbl s') = length (OSFlagTbl s)"
    and "i \<noteq> g \<Longrightarrow> OSFlagTbl s' ! i = OSFlagTbl s ! i"
    and "g < length (OSFlagTbl s) \<Longrightarrow> OSFlagFlags (OSFlagTbl s' ! g) = OSFlagFlags (OSFlagTbl s ! g) \<and> OSFlagType (OSFlagTbl s' ! g) = OSFlagType (OSFlagTbl s ! g)"
    and "OSIntNesting (kern s') = OSIntNesting (kern s)" and "OSPrioCur (kern s') = OSPrioCur (kern s)"
  using assms by (auto simp: only_tasks_def)

lemma flist_node: "flist g ns s \<Longrightarrow> node_of (OSFlagWaitList (OSFlagTbl s ! g)) = Some (start ns)"
  by (auto simp: flist_def dest: dseg_start)

lemma waits_set_flags:
  "waits g ns s \<Longrightarrow> waits g ns (set_grp g ((OSFlagTbl s ! g)\<lparr>OSFlagFlags := f\<rparr>) s)"
  by (auto simp: waits_def flist_def set_grp_def task_of_def cong: map_cong)

text \<open>The priorities a post makes ready: the tasks of the list whose condition holds for \<open>f\<close> and whose
  status says nothing else than that they wait for flags.\<close>

definition flag_readies :: "FLAGS \<Rightarrow> u16 \<Rightarrow> nat list \<Rightarrow> nat set" where
  "flag_readies s f ns = {unat (task_of s a) |a. a \<in> set ns \<and> node_met s f a
     \<and> OSTCBStat (the (OSTCBPrioTbl (kern s) (task_of s a))) AND NOT OS_STAT_FLAG = OS_STAT_RDY}"

lemma wakes_ready:
  assumes w: "wakes g (filter (node_met s f) ns) rdy st s s'" and t: "\<forall>a \<in> set ns. OSTCBPrioTbl (kern s) (task_of s a) \<noteq> None"
  shows "ready (kern s') = ready (kern s) \<union> flag_readies s f ns"
proof -
  have "stat_of s' (task_of s a) = OSTCBStat (the (OSTCBPrioTbl (kern s) (task_of s a))) AND NOT OS_STAT_FLAG"
    if "a \<in> set ns" "node_met s f a" for a
    using w t that by (fastforce simp: wakes_def stat_of_def flag_readied_def)
  then have "{unat p |p. p \<in> task_of s ` set (filter (node_met s f) ns) \<and> stat_of s' p = OS_STAT_RDY} = flag_readies s f ns"
    unfolding flag_readies_def by auto
  then show ?thesis using w by (simp add: wakes_def)
qed

lemma OSFlagPost_ok:
  assumes w: "waits g ns s" and ty: "OSFlagType (OSFlagTbl s ! g) = OS_EVENT_TYPE_FLAG" and opt: "opt = OS_FLAG_CLR \<or> opt = OS_FLAG_SET"
    and f: "f = (if opt = OS_FLAG_CLR then OSFlagFlags (OSFlagTbl s ! g) AND NOT fl else OSFlagFlags (OSFlagTbl s ! g) OR fl)"
  shows "\<exists>s'. OSFlagPost g fl opt s = Some (f, OS_ERR_NONE, s') \<and> OSFlagFlags (OSFlagTbl s' ! g) = f
     \<and> OSFlagType (OSFlagTbl s' ! g) = OS_EVENT_TYPE_FLAG
     \<and> waits g (filter (\<lambda>a. \<not> node_met s f a) ns) s'
     \<and> (\<forall>a \<in> set ns. node_met s f a \<longrightarrow> flagged (node_rdy s f a) OS_STAT_PEND_OK (task_of s a) s s')
     \<and> (\<forall>p. p \<notin> task_of s ` {a \<in> set ns. node_met s f a} \<longrightarrow> OSTCBFlagsRdy s' p = OSTCBFlagsRdy s p \<and> OSTCBFlagNode s' p = OSTCBFlagNode s p
          \<and> (\<exists>c. OSTCBPrioTbl (kern s') p = map_option (\<lambda>t. t\<lparr>OSTCBCtxSwCtr := OSTCBCtxSwCtr t + c\<rparr>) (OSTCBPrioTbl (kern s) p)))
     \<and> ready (kern s') = ready (kern s) \<union> flag_readies s f ns"
proof -
  have g: "g < length (OSFlagTbl s)" using waits_flist [OF w] by (simp add: flist_def)
  let ?s = "set_grp g ((OSFlagTbl s ! g)\<lparr>OSFlagFlags := f\<rparr>) s"
  have nd: "node_met ?s f = node_met s f" "node_rdy ?s f = node_rdy s f" "task_of ?s = task_of s" "kern ?s = kern s"
      "OSTCBFlagsRdy ?s = OSTCBFlagsRdy s" "OSTCBFlagNode ?s = OSTCBFlagNode s"
    by (auto simp: node_met_def node_rdy_def task_of_def set_grp_def)
  have fg: "OSFlagFlags (OSFlagTbl ?s ! g) = f" "OSFlagType (OSFlagTbl ?s ! g) = OS_EVENT_TYPE_FLAG" using g ty by (simp_all add: set_grp_def)
  obtain s' b where p: "post_loop g (start ns) False ?s = Some (OS_ERR_NONE, b, s')"
      "waits g (filter (\<lambda>a. \<not> node_met s f a) ns) s'" "wakes g (filter (node_met s f) ns) (node_rdy s f) OS_STAT_PEND_OK ?s s'"
    using post_loop_ok [of g "[]" ns ?s f False] waits_set_flags [OF w, of f] fg(1) by (auto simp: nd)
  have "os_ok (kern s')" using p(2) by (simp add: waits_def)
  then obtain k' where k: "(if b then OS_Sched (kern s') else Some (kern s')) = Some k'" "sched_of (kern s') k'"
    using sched_of_OS_Sched by blast
  have o: "only_tasks g ?s s'" using p(3) by (simp add: wakes_def)
  have fin: "g < length (OSFlagTbl s')" "OSFlagFlags (OSFlagTbl s' ! g) = f" "OSFlagType (OSFlagTbl s' ! g) = OS_EVENT_TYPE_FLAG"
    using only_tasks_frame(2,4) [OF o] fg g by (auto simp: set_grp_def)
  have e: "OSFlagPost g fl opt s = Some (f, OS_ERR_NONE, s'\<lparr>kern := k'\<rparr>)"
    using g ty opt flist_node [OF waits_flist [OF w]] p(1) k(1) fin
    by (simp add: OSFlagPost_def rd_in f [symmetric] del: rd_eq_Some)
  have "flagged (node_rdy s f a) OS_STAT_PEND_OK (task_of s a) s (s'\<lparr>kern := k'\<rparr>)" if a: "a \<in> set ns" "node_met s f a" for a
  proof -
    obtain t where t: "OSTCBPrioTbl (kern s) (task_of s a) = Some t" using w a by (auto simp: waits_def)
    have "flagged (node_rdy s f a) OS_STAT_PEND_OK (task_of ?s a) ?s (s'\<lparr>kern := k'\<rparr>)"
      using a t by (intro wakes_flagged [OF p(3) _ _ k(2)]) (simp_all add: nd)
    then show ?thesis by (simp add: flagged_def nd)
  qed
  moreover have "OSTCBFlagsRdy s' p = OSTCBFlagsRdy s p \<and> OSTCBFlagNode s' p = OSTCBFlagNode s p
      \<and> (\<exists>c. OSTCBPrioTbl k' p = map_option (\<lambda>t. t\<lparr>OSTCBCtxSwCtr := OSTCBCtxSwCtr t + c\<rparr>) (OSTCBPrioTbl (kern s) p))"
    if "p \<notin> task_of s ` {a \<in> set ns. node_met s f a}" for p
  proof -
    have "p \<notin> task_of s ` set (filter (node_met s f) ns)" using that by auto
    then have "OSTCBPrioTbl (kern s') p = OSTCBPrioTbl (kern s) p \<and> OSTCBFlagsRdy s' p = OSTCBFlagsRdy s p \<and> OSTCBFlagNode s' p = OSTCBFlagNode s p"
      using p(3) unfolding wakes_def nd by blast
    moreover have "\<exists>c. OSTCBPrioTbl k' p = map_option (\<lambda>t. t\<lparr>OSTCBCtxSwCtr := OSTCBCtxSwCtr t + c\<rparr>) (OSTCBPrioTbl (kern s') p)"
      using k(2) unfolding sched_of_def by blast
    ultimately show ?thesis by simp
  qed
  moreover have "ready k' = ready (kern s) \<union> flag_readies s f ns"
  proof -
    have "\<forall>a \<in> set ns. OSTCBPrioTbl (kern ?s) (task_of ?s a) \<noteq> None" using w by (auto simp: waits_def nd)
    moreover have "wakes g (filter (node_met ?s f) ns) (node_rdy s f) OS_STAT_PEND_OK ?s s'" using p(3) by (simp add: nd)
    ultimately have "ready (kern s') = ready (kern ?s) \<union> flag_readies ?s f ns" by (rule wakes_ready [rotated])
    then show ?thesis using k(2) by (simp add: sched_of_def flag_readies_def nd)
  qed
  ultimately show ?thesis
    using e fin waits_sched [OF p(2) k(2)] by (intro exI [of _ "s'\<lparr>kern := k'\<rparr>"]) simp
qed


lemma os_ok_block_task:
  assumes ok: "os_ok k" and t: "OSTCBPrioTbl k p = Some t" and p: "p \<noteq> 63"
    and u: "u = t\<lparr>OSTCBStat := st, OSTCBStatPend := ps, OSTCBDly := d\<rparr>"
  shows "\<exists>r. bits_clear u (OSRdyGrp k, OSRdyTbl k) = Some r
     \<and> os_ok (k\<lparr>OSTCBPrioTbl := (OSTCBPrioTbl k)(p \<mapsto> u), OSRdyGrp := fst r, OSRdyTbl := snd r\<rparr>)
     \<and> prios r = ready k - {unat p}"
proof -
  have at: "tcb_at (unat p) u" using os_okD(4) [OF ok t] by (simp add: u tcb_at_def)
  have mu: "OSTCBEventMultiPtr u = None" using os_okD(5) [OF ok t] by (simp add: u)
  obtain r where r: "bits_clear u (OSRdyGrp k, OSRdyTbl k) = Some r" "bits_ok r" "prios r = ready k - {unat p}"
    using prio.rem [OF at os_okD(1) [OF ok]] by blast
  have "unat p \<noteq> 63" using p by (simp add: word_unat_eq_iff)
  then have "63 \<in> prios r" "prios r \<subseteq> insert (unat p) (ready k)" using r(3) os_okD(2) [OF ok] by auto
  moreover have "\<forall>e \<in> set (OSEvents k). event_ok (OSTCBPrioTbl k) e" using os_okD(7) [OF ok] by blast
  ultimately have "os_ok (k\<lparr>OSTCBPrioTbl := (OSTCBPrioTbl k)(p \<mapsto> u), OSEvents := OSEvents k, OSRdyGrp := fst r, OSRdyTbl := snd r\<rparr>)"
    using os_ok_update [OF ok t at mu r(2)] by blast
  then show ?thesis using r(1,3) by (intro exI [of _ r]) simp
qed

text \<open>The running task may wait: it exists, is not the idle task and waits nowhere in the group.\<close>

definition may_wait :: "nat list \<Rightarrow> nat \<Rightarrow> FLAGS \<Rightarrow> bool" where
  "may_wait ns node s \<longleftrightarrow> OSTCBPrioTbl (kern s) (OSPrioCur (kern s)) \<noteq> None \<and> OSPrioCur (kern s) \<noteq> 63
     \<and> OSPrioCur (kern s) \<notin> task_of s ` set ns \<and> flag_nodes s node = None"

definition new_node :: "nat \<Rightarrow> u16 \<Rightarrow> u8 \<Rightarrow> nat option \<Rightarrow> u8 \<Rightarrow> OS_FLAG_NODE" where
  "new_node g flags wait_type nx p = \<lparr>OSFlagNodeNext = nx, OSFlagNodePrev = None, OSFlagNodeTCB = p,
     OSFlagNodeFlagGrp = g, OSFlagNodeFlags = flags, OSFlagNodeWaitType = wait_type\<rparr>"

lemma link_first:
  assumes "flist g ns s" and "flag_nodes s node = None"
  shows "\<exists>h. (case start ns of None \<Rightarrow> Some (s\<lparr>flag_nodes := (flag_nodes s)(node \<mapsto> new_node g fl wt (start ns) p)\<rparr>)
       | Some a \<Rightarrow> set_prev a (Some node) (s\<lparr>flag_nodes := (flag_nodes s)(node \<mapsto> new_node g fl wt (start ns) p)\<rparr>)) = Some (s\<lparr>flag_nodes := h\<rparr>)
     \<and> dseg h g None (Some node) (node # ns) None \<and> h node = Some (new_node g fl wt (start ns) p)
     \<and> (\<forall>x. x \<noteq> node \<longrightarrow> map_option node_data (h x) = map_option node_data (flag_nodes s x)) \<and> node \<notin> set ns"
proof -
  have n: "node \<notin> set ns" using flist_alive [OF assms(1)] assms(2) by fastforce
  show ?thesis
  proof (cases ns)
    case Nil
    then show ?thesis by (intro exI [of _ "(flag_nodes s)(node \<mapsto> new_node g fl wt (start ns) p)"]) (simp add: new_node_def)
  next
    case (Cons a as)
    then obtain m where m: "flag_nodes s a = Some m" "OSFlagNodePrev m = None" "OSFlagNodeFlagGrp m = g"
        "dseg (flag_nodes s) g (Some a) (OSFlagNodeNext m) as None" "a \<notin> set as"
      using assms(1) by (auto simp: flist_def)
    let ?h = "(flag_nodes s)(node \<mapsto> new_node g fl wt (start ns) p, a \<mapsto> m\<lparr>OSFlagNodePrev := Some node\<rparr>)"
    have "dseg ?h g None (Some node) (node # ns) None" using m n Cons by (auto simp: new_node_def)
    then show ?thesis using m n Cons by (intro exI [of _ ?h]) (auto simp: set_prev_def new_node_def)
  qed
qed

lemma OS_FlagBlock_ok:
  assumes w: "waits g ns s" and m: "may_wait ns node s" and wt: "wt < 4"
  defines "p \<equiv> OSPrioCur (kern s)"
  shows "\<exists>s' t u. OS_FlagBlock g node fl wt timeout s = Some s' \<and> waits g (node # ns) s' \<and> task_of s' node = p
     \<and> ready (kern s') = ready (kern s) - {unat p} \<and> OSPrioCur (kern s') = p
     \<and> OSIntNesting (kern s') = OSIntNesting (kern s) \<and> OSLockNesting (kern s') = OSLockNesting (kern s)
     \<and> OSTCBPrioTbl (kern s) p = Some t \<and> OSTCBPrioTbl (kern s') p = Some u
     \<and> OSTCBStat u = OSTCBStat t OR OS_STAT_FLAG \<and> OSTCBStatPend u = OS_STAT_PEND_OK \<and> OSTCBDly u = timeout
     \<and> OSFlagFlags (OSFlagTbl s' ! g) = OSFlagFlags (OSFlagTbl s ! g) \<and> OSFlagType (OSFlagTbl s' ! g) = OSFlagType (OSFlagTbl s ! g)
     \<and> flag_nodes s' node = Some (new_node g fl wt (start ns) p)
     \<and> (\<forall>x. x \<noteq> node \<longrightarrow> map_option node_data (flag_nodes s' x) = map_option node_data (flag_nodes s x))"
proof -
  have fl: "flist g ns s" and ok: "os_ok (kern s)" using w by (auto simp: waits_def)
  have g: "g < length (OSFlagTbl s)" using fl by (simp add: flist_def)
  obtain t where t: "OSTCBPrioTbl (kern s) p = Some t" using m by (auto simp: may_wait_def p_def)
  have p63: "p \<noteq> 63" and fresh: "flag_nodes s node = None" using m by (auto simp: may_wait_def p_def)
  define u where "u = t\<lparr>OSTCBStat := OSTCBStat t OR OS_STAT_FLAG, OSTCBStatPend := OS_STAT_PEND_OK, OSTCBDly := timeout\<rparr>"
  obtain r where r: "bits_clear u (OSRdyGrp (kern s), OSRdyTbl (kern s)) = Some r"
      "os_ok ((kern s)\<lparr>OSTCBPrioTbl := (OSTCBPrioTbl (kern s))(p \<mapsto> u), OSRdyGrp := fst r, OSRdyTbl := snd r\<rparr>)"
      "prios r = ready (kern s) - {unat p}"
    using os_ok_block_task [OF ok t p63 u_def] by blast
  let ?s1 = "(set_tcb p u s)\<lparr>OSTCBFlagNode := (OSTCBFlagNode s)(p := Some node)\<rparr>"
  have "flist g ns ?s1" "flag_nodes ?s1 node = None" using fl fresh by (simp_all add: flist_def set_tcb_def)
  then obtain h where h: "(case start ns of None \<Rightarrow> Some (?s1\<lparr>flag_nodes := (flag_nodes ?s1)(node \<mapsto> new_node g fl wt (start ns) p)\<rparr>)
       | Some a \<Rightarrow> set_prev a (Some node) (?s1\<lparr>flag_nodes := (flag_nodes ?s1)(node \<mapsto> new_node g fl wt (start ns) p)\<rparr>)) = Some (?s1\<lparr>flag_nodes := h\<rparr>)"
      "dseg h g None (Some node) (node # ns) None" "h node = Some (new_node g fl wt (start ns) p)"
      "\<forall>x. x \<noteq> node \<longrightarrow> map_option node_data (h x) = map_option node_data (flag_nodes ?s1 x)" "node \<notin> set ns"
    using link_first by blast
  let ?s2 = "set_grp g ((OSFlagTbl s ! g)\<lparr>OSFlagWaitList := Node node\<rparr>) (?s1\<lparr>flag_nodes := h\<rparr>)"
  let ?s' = "?s2\<lparr>kern := (kern ?s2)\<lparr>OSRdyGrp := fst r, OSRdyTbl := snd r\<rparr>\<rparr>"
  have hn: "start ns = None \<Longrightarrow> h = (flag_nodes s)(node \<mapsto> new_node g fl wt (start ns) p)"
    using arg_cong [OF h(1), of "\<lambda>s. flag_nodes (the s)"] by (simp add: set_tcb_def)
  have e: "OS_FlagBlock g node fl wt timeout s = Some ?s'"
    using t g flist_node [OF fl] h(1) r(1) hn
    by (cases "start ns") (simp_all add: OS_FlagBlock_def Let_def rd_in set_tcb_def set_grp_def p_def [symmetric] u_def [symmetric] new_node_def
        case_prod_beta del: rd_eq_Some)
  have hx: "\<exists>n n'. flag_nodes s x = Some n \<and> h x = Some n' \<and> node_data n' = node_data n" if "x \<in> set ns" for x
  proof -
    have "x \<noteq> node" using that h(5) by blast
    then have "map_option node_data (h x) = map_option node_data (flag_nodes s x)" using h(4) by (simp add: set_tcb_def)
    then show ?thesis using flist_alive [OF fl that] by (auto simp: map_option_eq_Some)
  qed
  define s' where "s' = ?s'"
  have tk: "task_of s' x = task_of s x" "OSFlagNodeWaitType (the (flag_nodes s' x)) = OSFlagNodeWaitType (the (flag_nodes s x))" if "x \<in> set ns" for x
    using hx [OF that] by (auto simp: s'_def task_of_def set_grp_def node_data_def)
  have tn: "task_of s' node = p" "OSFlagNodeWaitType (the (flag_nodes s' node)) = wt"
    using h(3) by (simp_all add: s'_def task_of_def set_grp_def new_node_def)
  have k: "kern s' = (kern s)\<lparr>OSTCBPrioTbl := (OSTCBPrioTbl (kern s))(p \<mapsto> u), OSRdyGrp := fst r, OSRdyTbl := snd r\<rparr>"
    by (simp add: s'_def set_grp_def set_tcb_def)
  have tm: "map (task_of s') ns = map (task_of s) ns" using tk(1) by simp
  have "distinct (map (task_of s) ns)" using w by (simp add: waits_def)
  then have "distinct (map (task_of s') ns)" by (simp only: tm)
  moreover have "p \<notin> set (map (task_of s) ns)" using m by (simp add: may_wait_def p_def)
  moreover have "flist g (node # ns) s'"
    using g h(2,5) fl by (auto simp: s'_def flist_def set_grp_def set_tcb_def intro!: exI [of _ "Some node"] simp del: dseg.simps)
  ultimately have "waits g (node # ns) s'"
    using w wt r(2) tk tn unfolding waits_def k by (auto simp: image_iff)
  then show ?thesis
    using e tn t r(3) h(3,4) g k unfolding s'_def [symmetric]
    by (intro exI [of _ s'] exI [of _ t] exI [of _ u]) (simp add: s'_def set_grp_def set_tcb_def u_def p_def)
qed


lemma consume_off: "(if wt AND OS_FLAG_CONSUME \<noteq> 0 then wt AND NOT OS_FLAG_CONSUME else wt) = wt AND NOT OS_FLAG_CONSUME"
proof -
  have "wt AND NOT c = wt" if "wt AND c = 0" for c
  proof (rule bit_word_eqI)
    fix n
    have "bit (wt AND c) n \<longleftrightarrow> bit (0 :: u8) n" using that by simp
    then show "n < LENGTH(8) \<Longrightarrow> bit (wt AND NOT c) n \<longleftrightarrow> bit wt n" by (auto simp: bit_simps)
  qed
  then show ?thesis by auto
qed

lemma OSFlagPend_blocks:
  assumes w: "waits g ns s" and m: "may_wait ns node s" and ty: "OSFlagType (OSFlagTbl s ! g) = OS_EVENT_TYPE_FLAG"
    and n: "OSIntNesting (kern s) = 0" "OSLockNesting (kern s) = 0" and wt: "wt AND NOT OS_FLAG_CONSUME < 4"
    and c: "flag_cond (wt AND NOT OS_FLAG_CONSUME) (OSFlagFlags (OSFlagTbl s ! g)) fl = Some (r, False)"
  defines "p \<equiv> OSPrioCur (kern s)"
  shows "\<exists>s' t u. OSFlagPend g node fl wt timeout s = Some (Blocked, s') \<and> waits g (node # ns) s' \<and> task_of s' node = p
     \<and> ready (kern s') = ready (kern s) - {unat p} \<and> switchPending (kern s') \<and> OSPrioHighRdy (kern s') \<noteq> p
     \<and> OSTCBPrioTbl (kern s) p = Some t \<and> OSTCBPrioTbl (kern s') p = Some u
     \<and> OSTCBStat u = OSTCBStat t OR OS_STAT_FLAG \<and> OSTCBStatPend u = OS_STAT_PEND_OK \<and> OSTCBDly u = timeout
     \<and> OSFlagFlags (OSFlagTbl s' ! g) = OSFlagFlags (OSFlagTbl s ! g) \<and> OSFlagType (OSFlagTbl s' ! g) = OS_EVENT_TYPE_FLAG
     \<and> flag_nodes s' node = Some (new_node g fl (wt AND NOT OS_FLAG_CONSUME) (start ns) p)
     \<and> (\<forall>x. x \<noteq> node \<longrightarrow> map_option node_data (flag_nodes s' x) = map_option node_data (flag_nodes s x))"
proof -
  have g: "g < length (OSFlagTbl s)" using waits_flist [OF w] by (simp add: flist_def)
  obtain s1 t u where s1: "OS_FlagBlock g node fl (wt AND NOT OS_FLAG_CONSUME) timeout s = Some s1" "waits g (node # ns) s1" "task_of s1 node = p"
     "ready (kern s1) = ready (kern s) - {unat p}" "OSPrioCur (kern s1) = p"
     "OSIntNesting (kern s1) = 0" "OSLockNesting (kern s1) = 0"
     "OSTCBPrioTbl (kern s) p = Some t" "OSTCBPrioTbl (kern s1) p = Some u"
     "OSTCBStat u = OSTCBStat t OR OS_STAT_FLAG" "OSTCBStatPend u = OS_STAT_PEND_OK" "OSTCBDly u = timeout"
     "OSFlagFlags (OSFlagTbl s1 ! g) = OSFlagFlags (OSFlagTbl s ! g)" "OSFlagType (OSFlagTbl s1 ! g) = OSFlagType (OSFlagTbl s ! g)"
     "flag_nodes s1 node = Some (new_node g fl (wt AND NOT OS_FLAG_CONSUME) (start ns) p)"
     "\<forall>x. x \<noteq> node \<longrightarrow> map_option node_data (flag_nodes s1 x) = map_option node_data (flag_nodes s x)"
    using OS_FlagBlock_ok [OF w m wt, of fl timeout] n unfolding p_def by auto
  have ok: "os_ok (kern s1)" using s1(2) by (simp add: waits_def)
  have sch: "OS_Sched (kern s1) = Some (scheduled (kern s1))" using OS_Sched_scheduled [OF ok] s1(6,7) by simp
  have "unat (highest (kern s1)) \<in> ready (kern s1)" using highest_ready [OF ok] by metis
  then have h: "highest (kern s1) \<noteq> p" unfolding s1(4) by auto
  have so: "sched_of (kern s1) (scheduled (kern s1))" using scheduled_ok [OF ok] scheduled_tcb by (simp add: sched_of_def)
  obtain c where u': "OSTCBPrioTbl (scheduled (kern s1)) p = Some (u\<lparr>OSTCBCtxSwCtr := c\<rparr>)" using sched_of_tcb [OF so s1(9)] by blast
  have "OSFlagPend g node fl wt timeout s = Some (Blocked, s1\<lparr>kern := scheduled (kern s1)\<rparr>)"
    using g n ty c s1(1) sch consume_off [of wt] by (simp add: OSFlagPend_def rd_in Let_def del: rd_eq_Some)
  then show ?thesis
    using s1 h u' waits_sched [OF s1(2) so] ty
    by (intro exI [of _ "s1\<lparr>kern := scheduled (kern s1)\<rparr>"] exI [of _ t] exI [of _ "u\<lparr>OSTCBCtxSwCtr := c\<rparr>"]) (simp add: task_of_def)
qed

lemma waits_drop:
  assumes "waits g ns s" and "node \<notin> set ns"
  shows "waits g ns (s\<lparr>flag_nodes := (flag_nodes s)(node := None)\<rparr>)"
proof -
  let ?s = "s\<lparr>flag_nodes := (flag_nodes s)(node := None)\<rparr>"
  have t: "task_of ?s x = task_of s x" "flag_nodes ?s x = flag_nodes s x" if "x \<in> set ns" for x
    using that assms(2) by (auto simp: task_of_def)
  have "map (task_of ?s) ns = map (task_of s) ns" using t(1) by simp
  moreover have "distinct (map (task_of s) ns)" using assms(1) by (simp add: waits_def)
  ultimately have "distinct (map (task_of ?s) ns)" by (simp only:)
  then show ?thesis using assms t by (auto simp: waits_def flist_def)
qed

lemma waits_kern:
  assumes "waits g ns s" and "os_ok k" and "OSTCBPrioTbl k = OSTCBPrioTbl (kern s)"
  shows "waits g ns (s\<lparr>kern := k\<rparr>)"
proof -
  have "task_of (s\<lparr>kern := k\<rparr>) = task_of s" by (simp add: task_of_def fun_eq_iff)
  then show ?thesis using assms by (simp add: waits_def flist_def)
qed

lemma os_ok_running: "os_ok (k\<lparr>OSPrioCur := p\<rparr>) = os_ok k" "os_ok (OS_CPU_PendSVHandler k) = os_ok k"
  by (simp_all add: os_ok_def OS_CPU_PendSVHandler_def)

lemma PendSV_simps [simp]:
  "OSTCBPrioTbl (OS_CPU_PendSVHandler k) = OSTCBPrioTbl k" "OSRdyGrp (OS_CPU_PendSVHandler k) = OSRdyGrp k"
  "OSRdyTbl (OS_CPU_PendSVHandler k) = OSRdyTbl k"
  by (simp_all add: OS_CPU_PendSVHandler_def)

text \<open>The task at priority \<open>p\<close> is switched in.\<close>

definition run_task :: "u8 \<Rightarrow> FLAGS \<Rightarrow> FLAGS" where
  "run_task p s = s\<lparr>kern := (kern s)\<lparr>OSPrioCur := p\<rparr>\<rparr>"

lemma resume_ok:
  assumes t: "OSTCBPrioTbl (kern s) p = Some u" "OSTCBStatPend u = OS_STAT_PEND_OK" and g: "g < length (OSFlagTbl s)"
    and wt: "wt AND NOT OS_FLAG_CONSUME < 4"
  shows "\<exists>s'. OSFlagPend_resume g node wt (run_task p s) = Some (OSTCBFlagsRdy s p, OS_ERR_NONE, s'\<lparr>flag_nodes := (flag_nodes s)(node := None)\<rparr>)
     \<and> s' = (if wt AND OS_FLAG_CONSUME \<noteq> 0 then set_grp g ((OSFlagTbl s ! g)\<lparr>OSFlagFlags :=
           the (flag_consume (wt AND NOT OS_FLAG_CONSUME) (OSTCBFlagsRdy s p) (OSFlagFlags (OSFlagTbl s ! g)))\<rparr>) (run_task p s) else run_task p s)"
proof -
  have "\<exists>f. flag_consume (wt AND NOT OS_FLAG_CONSUME) (OSTCBFlagsRdy s p) (OSFlagFlags (OSFlagTbl s ! g)) = Some f"
    using flag_cond_cases [OF wt, of 0 0] by (auto simp: flag_consume_def flag_cond_def split: if_splits)
  then show ?thesis
    using t g consume_off [of wt] by (auto simp: OSFlagPend_resume_def run_task_def Let_def rd_in set_grp_def split: if_splits simp del: rd_eq_Some)
qed


text \<open>Unlinking a node that was the first of its list and is no longer in it.\<close>

lemma unlink_stale:
  assumes "flag_nodes s a = Some m" and "OSFlagNodePrev m = None" and "OSFlagNodeFlagGrp m = g" and "g < length (OSFlagTbl s)"
    and "\<And>b. OSFlagNodeNext m = Some b \<Longrightarrow> \<exists>x. flag_nodes s b = Some x"
  shows "\<exists>s'. OS_FlagUnlink a s = Some s' \<and> OSFlagTbl s' = (OSFlagTbl s)[g := (OSFlagTbl s ! g)\<lparr>OSFlagWaitList := ptr_of (OSFlagNodeNext m)\<rparr>]
     \<and> OSFlagFreeList s' = OSFlagFreeList s \<and> kern s' = kern s"
  using assms by (cases "OSFlagNodeNext m") (auto simp: OS_FlagUnlink_def set_grp_def set_prev_def rd_in simp del: rd_eq_Some)

lemma node_met_data:
  assumes "map_option node_data (flag_nodes s' a) = map_option node_data (flag_nodes s a)" and "flag_nodes s a \<noteq> None"
  shows "node_met s' f a = node_met s f a"
  using assms by (auto simp: node_met_def node_data_def)

section \<open>A concrete state\<close>

text \<open>
  In the kernel's example state task 5 waits for both flags 1 and 2 of group 0, in which flag 1
  is set; its node is at 100. The other groups are free.
\<close>

definition ex_flags :: FLAGS where
  "ex_flags = \<lparr>kern = ex_os\<lparr>OSTCBPrioTbl := (OSTCBPrioTbl ex_os)(5 \<mapsto> (ex_tcb 5)\<lparr>OSTCBStat := 0x20, OSTCBStatPend := 0, OSTCBDly := 0\<rparr>)\<rparr>,
     OSFlagTbl = [\<lparr>OSFlagType = 5, OSFlagWaitList = Node 100, OSFlagFlags = 1\<rparr>, \<lparr>OSFlagType = 0, OSFlagWaitList = Group 2, OSFlagFlags = 0\<rparr>,
       \<lparr>OSFlagType = 0, OSFlagWaitList = Group 3, OSFlagFlags = 0\<rparr>, \<lparr>OSFlagType = 0, OSFlagWaitList = Group 4, OSFlagFlags = 0\<rparr>,
       \<lparr>OSFlagType = 0, OSFlagWaitList = NoFlag, OSFlagFlags = 0\<rparr>],
     OSFlagFreeList = Group 1, flag_nodes = [100 \<mapsto> new_node 0 3 2 None 5], OSTCBFlagsRdy = (\<lambda>_. 0),
     OSTCBFlagNode = [5 \<mapsto> 100]\<rparr>"

lemma ex_flags_waits: "waits 0 [100] ex_flags"
proof -
  have "OSTCBPrioTbl ex_os 5 = Some (ex_tcb 5)" by (simp add: ex_os_def)
  then have "os_ok (kern ex_flags)" using os_ok_pending [OF ex_os_ok] by (simp add: ex_flags_def)
  then show ?thesis
    by (auto simp: waits_def flist_def ex_flags_def task_of_def new_node_def intro!: exI [of _ "Some 100"])
qed

lemma ex_flags_simps [simp]:
  "OSIntNesting (kern ex_flags) = 0" "OSLockNesting (kern ex_flags) = 0" "OSPrioCur (kern ex_flags) = 10"
  "OSFlagFlags (OSFlagTbl ex_flags ! 0) = 1" "OSFlagType (OSFlagTbl ex_flags ! 0) = OS_EVENT_TYPE_FLAG"
  "task_of ex_flags 100 = 5" "OSTCBPrioTbl (kern ex_flags) 10 = Some (ex_tcb 10)" "flag_nodes ex_flags 200 = None"
  "OSFlagFreeList ex_flags = Group 1"
  by (simp_all add: ex_flags_def task_of_def new_node_def OS_EVENT_TYPE_FLAG_def) (simp add: ex_os_def)

lemma ex_flags_5: "OSTCBPrioTbl (kern ex_flags) 5 = Some ((ex_tcb 5)\<lparr>OSTCBStat := 0x20, OSTCBStatPend := 0, OSTCBDly := 0\<rparr>)"
  by (simp add: ex_flags_def)

lemma ex_flags_node:
  "node_met ex_flags 3 100" "node_rdy ex_flags 3 100 = 3" "\<not> node_met ex_flags 5 100"
  by (simp_all add: node_met_def node_rdy_def ex_flags_def new_node_def flag_cond_def flag_constants Let_def)

section \<open>Properties\<close>

text \<open>C8: posting to a flag group sets or clears the flags and ends the wait of exactly the tasks whose condition
  then holds, each with the bits that made it hold and no time limit; it takes exactly their nodes
  out of the list. To the ready list it adds exactly those of them whose status says nothing else than
  the wait for flags (a task that is suspended as well stays out), and every other task is as it was.\<close>

theorem flag_post_wakes:
  assumes "waits g ns s" and "OSFlagType (OSFlagTbl s ! g) = OS_EVENT_TYPE_FLAG" and "opt = OS_FLAG_CLR \<or> opt = OS_FLAG_SET"
    and "f = (if opt = OS_FLAG_CLR then OSFlagFlags (OSFlagTbl s ! g) AND NOT fl else OSFlagFlags (OSFlagTbl s ! g) OR fl)"
  shows "\<exists>s'. OSFlagPost g fl opt s = Some (f, OS_ERR_NONE, s') \<and> OSFlagFlags (OSFlagTbl s' ! g) = f
     \<and> OSFlagType (OSFlagTbl s' ! g) = OS_EVENT_TYPE_FLAG
     \<and> waits g (filter (\<lambda>a. \<not> node_met s f a) ns) s'
     \<and> (\<forall>a \<in> set ns. node_met s f a \<longrightarrow> flagged (node_rdy s f a) OS_STAT_PEND_OK (task_of s a) s s')
     \<and> (\<forall>p. p \<notin> task_of s ` {a \<in> set ns. node_met s f a} \<longrightarrow> OSTCBFlagsRdy s' p = OSTCBFlagsRdy s p \<and> OSTCBFlagNode s' p = OSTCBFlagNode s p
          \<and> (\<exists>c. OSTCBPrioTbl (kern s') p = map_option (\<lambda>t. t\<lparr>OSTCBCtxSwCtr := OSTCBCtxSwCtr t + c\<rparr>) (OSTCBPrioTbl (kern s) p)))
     \<and> ready (kern s') = ready (kern s) \<union> flag_readies s f ns"
  by (rule OSFlagPost_ok) (fact assms)+

theorem flag_post_wakes_witness:
  "\<exists>s'. OSFlagPost 0 2 OS_FLAG_SET ex_flags = Some (3, OS_ERR_NONE, s') \<and> waits 0 [] s' \<and> flagged 3 OS_STAT_PEND_OK 5 ex_flags s'
     \<and> ready (kern s') = insert 5 (ready (kern ex_flags))"
proof -
  have "flag_readies ex_flags 3 [100] = {5}"
    using ex_flags_node by (auto simp: flag_readies_def ex_flags_5 OS_STAT_FLAG_def OS_STAT_RDY_def)
  then show ?thesis
    using flag_post_wakes [OF ex_flags_waits, of OS_FLAG_SET 3 2]
    by (auto simp: ex_flags_node OS_FLAG_SET_def OS_FLAG_CLR_def)
qed



text \<open>C10: deleting a group with waiting tasks breaks the list of free groups: each of the tasks unlinks its node
  a second time when it runs again, through the link by which the group hangs in the free list.
  Then only this group can still be created; the next creation finds no group, or takes the
  local variable of another task for one.\<close>

theorem flag_delete_breaks_free_list:
  assumes w: "waits g ns s" and ty: "OSFlagType (OSFlagTbl s ! g) = OS_EVENT_TYPE_FLAG" and n: "OSIntNesting (kern s) = 0"
    and i: "i < length ns"
  shows "\<exists>s1 s2 s3. OSFlagDel g OS_DEL_ALWAYS s = Some (None, OS_ERR_NONE, s1) \<and> OSFlagFreeList s1 = Group g
     \<and> OSFlagWaitList (OSFlagTbl s1 ! g) = OSFlagFreeList s \<and> flagged 0 OS_STAT_PEND_ABORT (task_of s (ns ! i)) s s1
     \<and> OSFlagPend_resume g (ns ! i) wt (run_task (task_of s (ns ! i)) s1) = Some (0, OS_ERR_PEND_ABORT, s2)
     \<and> OSFlagCreate f s2 = Some (Some g, OS_ERR_NONE, s3)
     \<and> OSFlagCreate f' s3 = (if Suc i = length ns then Some (None, OS_ERR_FLAG_GRP_DEPLETED, s3) else None)"
proof -
  have fl: "flist g ns s" and g: "g < length (OSFlagTbl s)" using waits_flist [OF w] by (simp_all add: flist_def)
  have ne: "OSFlagWaitList (OSFlagTbl s ! g) \<noteq> NoFlag" using fl i by (auto simp: flist_def dest!: dseg_start) (cases ns, auto)
  let ?p = "task_of s (ns ! i)"
  obtain s' where s': "del_loop (start ns) s = Some s'" "wakes g ns (\<lambda>_. 0) OS_STAT_PEND_ABORT s s'" "os_ok (kern s')"
     "\<forall>i < length ns. \<exists>n. flag_nodes s' (ns ! i) = Some n \<and> OSFlagNodePrev n = None \<and> OSFlagNodeNext n = start (drop (Suc i) ns) \<and> OSFlagNodeFlagGrp n = g"
    using del_loop_ok [OF w] by (auto simp: waits_def)
  have o: "only_tasks g s s'" using s'(2) by (simp add: wakes_def)
  note fr = only_tasks_frame [OF o]
  obtain k' where k: "OS_Sched (kern s') = Some k'" "sched_of (kern s') k'" using sched_of_OS_Sched [OF s'(3), of True] by auto
  let ?G = "(OSFlagTbl s' ! g)\<lparr>OSFlagType := 0, OSFlagWaitList := OSFlagFreeList s, OSFlagFlags := 0\<rparr>"
  let ?s1 = "s'\<lparr>OSFlagTbl := (OSFlagTbl s')[g := ?G], OSFlagFreeList := Group g, kern := k'\<rparr>"
  have d: "OSFlagDel g OS_DEL_ALWAYS s = Some (None, OS_ERR_NONE, ?s1)"
    using n g ty ne flist_node [OF fl] s'(1) k(1) fr(1,2)
    by (simp add: OSFlagDel_def rd_in OS_DEL_ALWAYS_def OS_DEL_NO_PEND_def free_grp_def set_grp_def del: rd_eq_Some)
  obtain t where t: "OSTCBPrioTbl (kern s) ?p = Some t" using w i by (fastforce simp: waits_def)
  have fg: "flagged 0 OS_STAT_PEND_ABORT ?p s ?s1" using wakes_flagged [OF s'(2) _ t k(2)] i by (simp add: flagged_def)
  then obtain u where u: "OSTCBPrioTbl k' ?p = Some u" "OSTCBStatPend u = OS_STAT_PEND_ABORT" by (auto simp: flagged_def)
  obtain m where m: "flag_nodes s' (ns ! i) = Some m" "OSFlagNodePrev m = None" "OSFlagNodeNext m = start (drop (Suc i) ns)" "OSFlagNodeFlagGrp m = g"
    using s'(4) i by blast
  have nx: "\<exists>x. flag_nodes s' b = Some x" if "start (drop (Suc i) ns) = Some b" for b
  proof -
    have "Suc i < length ns" using that by (cases "Suc i < length ns") auto
    moreover from this have "start (drop (Suc i) ns) = Some (ns ! Suc i)" by (simp add: Cons_nth_drop_Suc [symmetric])
    ultimately show ?thesis using that s'(4) by auto
  qed
  let ?s = "set_tcb ?p (u\<lparr>OSTCBStatPend := OS_STAT_PEND_OK\<rparr>) (run_task ?p ?s1)"
  obtain s2 where s2: "OS_FlagUnlink (ns ! i) ?s = Some s2" "OSFlagTbl s2 = (OSFlagTbl s')[g := ?G\<lparr>OSFlagWaitList := ptr_of (start (drop (Suc i) ns))\<rparr>]"
      "OSFlagFreeList s2 = Group g" "kern s2 = kern ?s"
    using unlink_stale [of ?s "ns ! i" m g] m nx g fr(2) by (auto simp: set_tcb_def run_task_def)
  let ?s2 = "(set_tcb ?p (u\<lparr>OSTCBStatPend := OS_STAT_PEND_OK, OSTCBStat := OS_STAT_RDY\<rparr>) s2)\<lparr>flag_nodes := (flag_nodes s2)(ns ! i := None)\<rparr>"
  have "OSFlagPend_resume g (ns ! i) wt (run_task ?p ?s1) = Some (0, OS_ERR_PEND_ABORT, ?s2)"
    using u s2(1,4) by (simp add: OSFlagPend_resume_def run_task_def Let_def set_tcb_def OS_STAT_PEND_ABORT_def OS_STAT_PEND_OK_def)
  moreover have n2: "OSIntNesting (kern ?s2) = 0" using n k(2) fr(5) s2(4) by (simp add: set_tcb_def run_task_def sched_of_def)
  moreover obtain s3 where s3: "OSFlagCreate f ?s2 = Some (Some g, OS_ERR_NONE, s3)" "OSFlagFreeList s3 = ptr_of (start (drop (Suc i) ns))"
      "OSIntNesting (kern s3) = 0"
    using n2 s2(2,3) g fr(2) by (simp add: OSFlagCreate_def set_tcb_def set_grp_def rd_in Let_def del: rd_eq_Some)
  moreover have "OSFlagCreate f' s3 = (if Suc i = length ns then Some (None, OS_ERR_FLAG_GRP_DEPLETED, s3) else None)"
  proof (cases "Suc i = length ns")
    case True
    then show ?thesis using s3(2,3) by (simp add: OSFlagCreate_def)
  next
    case False
    then have "start (drop (Suc i) ns) = Some (ns ! Suc i)" using i by (simp add: Cons_nth_drop_Suc [symmetric])
    then show ?thesis using False s3(2,3) by (simp add: OSFlagCreate_def)
  qed
  ultimately show ?thesis using d fg g fr(2) by (intro exI [of _ ?s1] exI [of _ ?s2] exI [of _ s3]) simp
qed


theorem flag_delete_breaks_free_list_witness:
  "\<exists>s1 s2 s3. OSFlagDel 0 OS_DEL_ALWAYS ex_flags = Some (None, OS_ERR_NONE, s1) \<and> OSFlagWaitList (OSFlagTbl s1 ! 0) = Group 1
     \<and> OSFlagPend_resume 0 100 2 (run_task 5 s1) = Some (0, OS_ERR_PEND_ABORT, s2)
     \<and> OSFlagCreate 0 s2 = Some (Some 0, OS_ERR_NONE, s3) \<and> OSFlagCreate 0 s3 = Some (None, OS_ERR_FLAG_GRP_DEPLETED, s3)"
  using flag_delete_breaks_free_list [OF ex_flags_waits, of 0 2 0 0] by auto

end
