(* ===== verification/C_Float.thy ===== *)
theory C_Float
  imports C_Text
begin

text \<open>
  The conversions of \<open>float\<close> values the configuration file needs: \<open>%.3f\<close> of \<open>sprintf\<close> and
  \<open>%f\<close> of \<open>sscanf\<close> in plain decimal notation, with IEEE single precision and rounding to
  nearest, ties to even. A \<open>float\<close> is its 32 bits. The scanner does not know exponents,
  hexadecimal digits, infinities and NaNs, which nothing in the firmware writes to a file.
\<close>

section \<open>Rounding\<close>

text \<open>The integer nearest to \<open>a / b\<close>, ties to even.\<close>

definition rne :: "nat \<Rightarrow> nat \<Rightarrow> nat" where
  "rne a b =
     (let q = a div b; r = a mod b in
      if 2 * r < b then q else if 2 * r > b then q + 1 else if even q then q else q + 1)"

lemma rne_bound: "0 < b \<Longrightarrow> 2 * \<bar>int a - int (rne a b) * int b\<bar> \<le> int b"
proof -
  assume b: "0 < b"
  have "int a = int (a div b) * int b + int (a mod b)"
    by (metis div_mult_mod_eq of_nat_add of_nat_mult)
  moreover have "int (a mod b) < int b" using b by simp
  moreover have "rne a b = a div b \<and> 2 * (a mod b) \<le> b \<or> rne a b = a div b + 1 \<and> b \<le> 2 * (a mod b)"
    by (auto simp: rne_def Let_def)
  ultimately show ?thesis by (auto simp: algebra_simps)
qed

lemma rne_unique:
  assumes "2 * \<bar>int a - int q * int b\<bar> < int b"
  shows "rne a b = q"
proof -
  have "0 \<le> 2 * \<bar>int a - int q * int b\<bar>" by simp
  then have b: "0 < b" using assms by (metis le_less_trans of_nat_0_less_iff)
  have tri: "x = y - z \<Longrightarrow> 2 * \<bar>z\<bar> \<le> c \<Longrightarrow> 2 * \<bar>y\<bar> < c \<Longrightarrow> 2 * \<bar>x\<bar> < 2 * c" for x y z c :: int
    by linarith
  have "(int (rne a b) - int q) * int b = (int a - int q * int b) - (int a - int (rne a b) * int b)"
    by (simp add: left_diff_distrib)
  then have "2 * \<bar>(int (rne a b) - int q) * int b\<bar> < 2 * int b"
    using rne_bound [OF b] assms by (rule tri)
  then have "\<bar>int (rne a b) - int q\<bar> * int b < 1 * int b" by (simp add: abs_mult)
  then have "\<bar>int (rne a b) - int q\<bar> < 1" using b by (simp only: mult_less_cancel_right)
  then show ?thesis by linarith
qed

section \<open>Single precision numbers\<close>

text \<open>The binary logarithm of \<open>a / b\<close>, rounded down.\<close>

function log_up :: "nat \<Rightarrow> nat \<Rightarrow> nat" where
  "log_up a b = (if a = 0 \<or> b \<le> a then 0 else Suc (log_up (2 * a) b))"
  by auto
termination by (relation "measure (\<lambda>(a, b). b - a)") auto

function log_down :: "nat \<Rightarrow> nat \<Rightarrow> nat" where
  "log_down a b = (if b = 0 \<or> a < 2 * b then 0 else Suc (log_down a (2 * b)))"
  by auto
termination by (relation "measure (\<lambda>(a, b). a - b)") auto

declare log_up.simps [simp del] log_down.simps [simp del]

definition ratio_log :: "nat \<Rightarrow> nat \<Rightarrow> int" where
  "ratio_log a b = (if b \<le> a then int (log_down a b) else - int (log_up a b))"

text \<open>The 31 low bits of the float nearest to \<open>a / b\<close>.\<close>

definition f32_abs :: "nat \<Rightarrow> nat \<Rightarrow> nat" where
  "f32_abs a b =
     (if a = 0 then 0
      else
        let e = max (-149) (ratio_log a b - 23);
            m = (if e < 0 then rne (a * 2 ^ nat (- e)) b else rne a (b * 2 ^ nat e));
            v = nat (e + 149) * 2 ^ 23 + m
        in min v 0x7F800000)"

definition f32_of :: "bool \<Rightarrow> nat \<Rightarrow> nat \<Rightarrow> u32" where
  "f32_of neg a b = word_of_nat ((if neg then 2 ^ 31 else 0) + f32_abs a b)"

text \<open>Sign, significand and binary exponent of a finite float.\<close>

definition f32_neg :: "u32 \<Rightarrow> bool" where
  "f32_neg w \<longleftrightarrow> 2 ^ 31 \<le> unat w"

definition f32_exp :: "u32 \<Rightarrow> nat" where
  "f32_exp w = unat w mod 2 ^ 31 div 2 ^ 23"

definition f32_sig :: "u32 \<Rightarrow> nat" where
  "f32_sig w = (if f32_exp w = 0 then 0 else 2 ^ 23) + unat w mod 2 ^ 23"

definition f32_pow :: "u32 \<Rightarrow> int" where
  "f32_pow w = max 1 (int (f32_exp w)) - 150"

section \<open>Printing and scanning\<close>

definition frac3 :: "nat \<Rightarrow> u8 list" where
  "frac3 r = [48 + of_nat (r div 100), 48 + of_nat (r div 10 mod 10), 48 + of_nat (r mod 10)]"

definition text3 :: "nat \<Rightarrow> u8 list" where
  "text3 n = digits (n div 1000) @ 46 # frac3 (n mod 1000)"

text \<open>The text of \<open>%.3f\<close>; infinities and NaNs are words.\<close>

definition print3 :: "u32 \<Rightarrow> u8 list" where
  "print3 w =
     (if f32_neg w then [45] else []) @
     (if f32_exp w = 255 then (if unat w mod 2 ^ 23 = 0 then [0x69, 0x6E, 0x66] else [0x6E, 0x61, 0x6E])
      else text3 (if f32_pow w \<ge> 0 then 1000 * f32_sig w * 2 ^ nat (f32_pow w)
                  else rne (1000 * f32_sig w) (2 ^ nat (- f32_pow w))))"

definition scan_sign :: "u8 list \<Rightarrow> bool \<times> u8 list" where
  "scan_sign cs = (case cs of c # r \<Rightarrow> if c = 45 then (True, r) else if c = 43 then (False, r) else (False, cs)
     | [] \<Rightarrow> (False, []))"

definition scan_float :: "u8 list \<Rightarrow> (u32 \<times> u8 list) option" where
  "scan_float cs =
     (let (neg, cs) = scan_sign (dropWhile is_space cs);
          ip = takeWhile is_digit cs; r = dropWhile is_digit cs;
          (fp, r) = (case r of c # r' \<Rightarrow> if c = 46 then (takeWhile is_digit r', dropWhile is_digit r') else ([], r)
                     | [] \<Rightarrow> ([], []))
      in if ip = [] \<and> fp = [] then None
         else Some (f32_of neg (fst (scan_digits 0 (ip @ fp))) (10 ^ length fp), r))"

section \<open>A number with three decimals survives\<close>

lemma log_down_bound: "0 < b \<Longrightarrow> b \<le> a \<Longrightarrow> b * 2 ^ log_down a b \<le> a \<and> a < b * 2 ^ Suc (log_down a b)"
proof (induction a b rule: log_down.induct)
  case (1 a b)
  show ?case
  proof (cases "a < 2 * b")
    case True
    then have "log_down a b = 0" by (subst log_down.simps) simp
    then show ?thesis using True 1(3) by simp
  next
    case False
    then have "log_down a b = Suc (log_down a (2 * b))" using 1(2) by (subst log_down.simps) simp
    then show ?thesis using 1 False by (simp add: mult.assoc mult.left_commute)
  qed
qed

lemma log_up_bound: "0 < a \<Longrightarrow> a < b \<Longrightarrow> b \<le> a * 2 ^ log_up a b \<and> a * 2 ^ log_up a b < 2 * b"
proof (induction a b rule: log_up.induct)
  case (1 a b)
  have s: "log_up a b = Suc (log_up (2 * a) b)" using 1(2,3) by (subst log_up.simps) simp
  show ?case
  proof (cases "2 * a < b")
    case True
    then show ?thesis using 1 s by (simp add: mult.assoc mult.left_commute)
  next
    case False
    then have "log_up (2 * a) b = 0" by (subst log_up.simps) simp
    then show ?thesis using s False 1(3) by simp
  qed
qed

text \<open>The scaling that brings \<open>a / b\<close> between \<open>2 ^ 23\<close> and \<open>2 ^ 24\<close>.\<close>

lemma ratio_log_scale:
  assumes "0 < a" and "0 < b" and "ratio_log a b = 23 - int k"
  shows "2 ^ 23 * b \<le> a * 2 ^ k \<and> a * 2 ^ k < 2 ^ 24 * b"
proof (cases "b \<le> a")
  case True
  define j where "j = log_down a b"
  have k: "23 = j + k" using assms(3) True by (simp add: ratio_log_def j_def)
  have "b * 2 ^ j \<le> a" "a < b * 2 ^ Suc j" using log_down_bound [OF assms(2) True] by (simp_all add: j_def)
  then have "b * 2 ^ j * 2 ^ k \<le> a * 2 ^ k" "a * 2 ^ k < b * 2 ^ Suc j * 2 ^ k" by simp_all
  moreover have "(2::nat) ^ 23 = 2 ^ j * 2 ^ k" "(2::nat) ^ 24 = 2 ^ Suc j * 2 ^ k"
    using k by (simp_all only: power_Suc power_add mult.assoc) (simp_all flip: power_add power_Suc)
  ultimately show ?thesis by (simp only: mult.commute [of _ b] mult.assoc)
next
  case False
  define j where "j = log_up a b"
  have k: "k = j + 23" using assms(3) False by (simp add: ratio_log_def j_def)
  have "b \<le> a * 2 ^ j" "a * 2 ^ j < 2 * b" using log_up_bound [of a b] assms(1) False by (simp_all add: j_def)
  then have "2 ^ 23 * b \<le> 2 ^ 23 * (a * 2 ^ j)" "2 ^ 23 * (a * 2 ^ j) < 2 ^ 23 * (2 * b)" by simp_all
  then show ?thesis by (simp add: k power_add ac_simps)
qed

text \<open>The significand and exponent the conversion finds for \<open>n\<close> thousandths.\<close>

lemma f32_abs_thousandths:
  assumes "0 < n" and "n < 16384000"
  obtains k m where "10 \<le> k" and "k \<le> 33" and "f32_abs n 1000 = (149 - k) * 2 ^ 23 + m"
    and "2 ^ 23 \<le> m" and "m \<le> 2 ^ 24" and "\<bar>int (1000 * m) - int n * 2 ^ k\<bar> \<le> 500"
proof -
  define e where "e = ratio_log n 1000"
  have "- 10 \<le> e \<and> e \<le> 13"
  proof (cases "1000 \<le> n")
    case True
    then have "1000 * 2 ^ log_down n 1000 \<le> n" using log_down_bound by simp
    then have "1000 * 2 ^ log_down n 1000 < (1000 :: nat) * 2 ^ 14" using assms(2) by simp
    then have "2 ^ log_down n 1000 < (2 :: nat) ^ 14" by simp
    then have "log_down n 1000 < 14" by (simp only: power_strict_increasing_iff)
    then show ?thesis using True by (simp add: e_def ratio_log_def)
  next
    case False
    then have "n * 2 ^ log_up n 1000 < 2000" using log_up_bound [of n 1000] assms(1) by simp
    moreover have "1 * 2 ^ log_up n 1000 \<le> n * 2 ^ log_up n 1000" using assms(1) by (intro mult_le_mono1) simp
    ultimately have "2 ^ log_up n 1000 < (2000 :: nat)" by linarith
    also have "\<dots> < 2 ^ 11" by simp
    finally have "2 ^ log_up n 1000 < (2 :: nat) ^ 11" .
    then have "log_up n 1000 < 11" by (simp only: power_strict_increasing_iff)
    then show ?thesis using False by (simp add: e_def ratio_log_def)
  qed
  then have k: "10 \<le> nat (23 - e)" "nat (23 - e) \<le> 33" "e = 23 - int (nat (23 - e))" by linarith+
  define k where "k = nat (23 - e)"
  note k = k [folded k_def]
  define m where "m = rne (n * 2 ^ k) 1000"
  have sc: "2 ^ 23 * 1000 \<le> n * 2 ^ k \<and> n * 2 ^ k < 2 ^ 24 * 1000"
    using ratio_log_scale [OF assms(1), of 1000 k] k(3) by (simp add: e_def)
  have r: "2 * \<bar>int (n * 2 ^ k) - int m * 1000\<bar> \<le> 1000"
    using rne_bound [of 1000 "n * 2 ^ k"] by (simp add: m_def)
  have "(2 :: int) ^ 23 * 1000 \<le> int (n * 2 ^ k) \<and> int (n * 2 ^ k) < 2 ^ 24 * 1000"
    using sc by (metis (mono_tags, lifting) of_nat_less_iff of_nat_mono of_nat_mult of_nat_numeral of_nat_power)
  then have m: "2 ^ 23 \<le> m" "m \<le> 2 ^ 24" using r by auto
  have "f32_abs n 1000 = min ((149 - k) * 2 ^ 23 + m) 0x7F800000"
  proof -
    have "max (- 149) (e - 23) = - int k" using k by simp
    moreover have "nat (- int k + 149) = 149 - k" using k(2) by simp
    ultimately show ?thesis using assms(1) k(1) by (simp add: f32_abs_def Let_def m_def flip: e_def)
  qed
  moreover have "(149 - k) * 2 ^ 23 + m \<le> 0x7F800000"
  proof -
    have "(149 - k) * 2 ^ 23 \<le> 139 * 2 ^ 23" using k(1) by (intro mult_le_mono1) simp
    then show ?thesis using m(2) by simp
  qed
  moreover have "\<bar>int (1000 * m) - int n * 2 ^ k\<bar> \<le> 500" using r by simp
  ultimately show ?thesis using that [of k m] k m by simp
qed

lemma f32_abs_bound: "f32_abs a b \<le> 0x7F800000"
  by (simp add: f32_abs_def Let_def)

lemma f32_fields:
  "f32_neg (f32_of neg a b) = neg"
  "f32_exp (f32_of neg a b) = f32_abs a b div 2 ^ 23"
  "f32_sig (f32_of neg a b) = (if f32_abs a b div 2 ^ 23 = 0 then 0 else 2 ^ 23) + f32_abs a b mod 2 ^ 23"
proof -
  have u: "unat (f32_of neg a b) = (if neg then 2 ^ 31 else 0) + f32_abs a b"
    using f32_abs_bound [of a b] by (simp add: f32_of_def unat_of_nat del: of_nat_add)
  show "f32_neg (f32_of neg a b) = neg" using f32_abs_bound [of a b] by (simp add: f32_neg_def u)
  show "f32_exp (f32_of neg a b) = f32_abs a b div 2 ^ 23"
    using f32_abs_bound [of a b] by (simp add: f32_exp_def u)
  have "(x + 2 ^ 8 * 2 ^ 23) mod 2 ^ 23 = x mod 2 ^ 23" for x :: nat by (rule mod_mult_self1)
  then have "unat (f32_of neg a b) mod 2 ^ 23 = f32_abs a b mod 2 ^ 23" by (simp add: u add.commute)
  then show "f32_sig (f32_of neg a b) = (if f32_abs a b div 2 ^ 23 = 0 then 0 else 2 ^ 23) + f32_abs a b mod 2 ^ 23"
    by (simp add: f32_sig_def \<open>f32_exp (f32_of neg a b) = f32_abs a b div 2 ^ 23\<close>)
qed

lemma print3_thousandths:
  assumes "n < 16384000"
  shows "print3 (f32_of neg n 1000) = (if neg then [45] else []) @ text3 n"
proof -
  let ?w = "f32_of neg n 1000"
  have "f32_exp ?w \<noteq> 255 \<and> f32_pow ?w < 0 \<and> rne (1000 * f32_sig ?w) (2 ^ nat (- f32_pow ?w)) = n"
  proof (cases "n = 0")
    case True
    then have "f32_abs n 1000 = 0" by (simp add: f32_abs_def)
    then show ?thesis using True by (simp add: f32_fields f32_pow_def rne_def)
  next
    case False
    then obtain k m where k: "10 \<le> k" "k \<le> 33" and v: "f32_abs n 1000 = (149 - k) * 2 ^ 23 + m"
        and m: "2 ^ 23 \<le> m" "m \<le> 2 ^ 24" and d: "\<bar>int (1000 * m) - int n * 2 ^ k\<bar> \<le> 500"
      using f32_abs_thousandths [of n] assms by blast
    show ?thesis
    proof (cases "m = 2 ^ 24")
      case True
      obtain j where j: "k = Suc j" "9 \<le> j" using k(1) by (cases k) auto
      have "f32_abs n 1000 = (151 - k) * 2 ^ 23" using v True k by (simp add: algebra_simps)
      then have f: "f32_exp ?w = 151 - k" "f32_sig ?w = 2 ^ 23" "f32_pow ?w = - int j"
        using k j by (simp_all add: f32_fields f32_pow_def)
      have "(2 :: int) ^ 9 \<le> 2 ^ j" using j(2) by (intro power_increasing) simp_all
      then have "2 * \<bar>int (1000 * 2 ^ 23) - int n * int (2 ^ j)\<bar> < int (2 ^ j)"
      proof -
        define x where "x = int n * 2 ^ j"
        have "int n * 2 ^ k = 2 * x" by (simp add: j(1) x_def)
        then have "\<bar>int (1000 * 2 ^ 24) - 2 * x\<bar> \<le> 500" using d True by simp
        then show ?thesis using \<open>(2 :: int) ^ 9 \<le> 2 ^ j\<close> by (auto simp: abs_if simp flip: x_def split: if_splits)
      qed
      then have "rne (1000 * 2 ^ 23) (2 ^ j) = n" by (rule rne_unique)
      then show ?thesis using f k j by simp
    next
      case False
      then have lt: "m - 2 ^ 23 < 2 ^ 23" using m by simp
      have "f32_abs n 1000 = (m - 2 ^ 23) + (150 - k) * 2 ^ 23"
        using v m(1) k by (simp add: algebra_simps)
      then have "f32_abs n 1000 div 2 ^ 23 = 150 - k" "f32_abs n 1000 mod 2 ^ 23 = m - 2 ^ 23"
        using lt by simp_all
      then have f: "f32_exp ?w = 150 - k" "f32_sig ?w = m" "f32_pow ?w = - int k"
        using k m(1) by (simp_all add: f32_fields f32_pow_def)
      have "(2 :: int) ^ 10 \<le> 2 ^ k" using k(1) by (intro power_increasing) simp_all
      then have "2 * \<bar>int (1000 * m) - int n * int (2 ^ k)\<bar> < int (2 ^ k)" using d by simp
      then have "rne (1000 * m) (2 ^ k) = n" by (rule rne_unique)
      then show ?thesis using f k by simp
    qed
  qed
  then show ?thesis by (simp add: print3_def f32_fields)
qed

lemma frac3_digits: "r < 1000 \<Longrightarrow> list_all is_digit (frac3 r)"
  by (simp add: frac3_def digit_code)

lemma scan_text3:
  assumes "r < 1000"
  shows "fst (scan_digits 0 (digits q @ frac3 r)) = 1000 * q + r"
proof -
  have "r div 100 < 10" "r div 10 mod 10 < 10" "r mod 10 < 10" using assms by simp_all
  then have "fst (scan_digits q (frac3 r)) = 10 * (10 * (10 * q + r div 100) + r div 10 mod 10) + r mod 10"
    by (simp add: frac3_def digit_code)
  also have "\<dots> = 1000 * q + (10 * (10 * (r div 100) + r div 10 mod 10) + r mod 10)" by simp
  also have "10 * (r div 100) + r div 10 mod 10 = r div 10"
    using mult_div_mod_eq [of 10 "r div 10"] div_mult2_eq [of r 10 10] by simp
  also have "10 * (r div 10) + r mod 10 = r" by simp
  finally show ?thesis by (simp add: scan_digits_append digits_all scan_digits_digits)
qed

lemma span_digits:
  "list_all is_digit ds \<Longrightarrow> r = [] \<or> \<not> is_digit (hd r) \<Longrightarrow>
     takeWhile is_digit (ds @ r) = ds \<and> dropWhile is_digit (ds @ r) = r"
proof (induction ds)
  case Nil
  then show ?case by (cases r) auto
qed simp

lemma scan_float_text3:
  assumes "rest = [] \<or> \<not> is_digit (hd rest)"
  shows "scan_float ((if neg then [45] else []) @ text3 n @ rest) = Some (f32_of neg n 1000, rest)"
proof -
  let ?q = "n div 1000" and ?r = "n mod 1000"
  obtain c cs where d: "digits ?q = c # cs" using digits_nonempty by (meson list.exhaust)
  have c: "is_digit c" using digits_all [of ?q] d by simp
  then have cn: "\<not> is_space c" "c \<noteq> 45" "c \<noteq> 43" by (auto simp: is_digit_def is_space_def word_le_nat_alt)
  have body: "text3 n @ rest = digits ?q @ 46 # frac3 ?r @ rest" by (simp add: text3_def)
  have minus: "\<not> is_space 45" by (simp add: is_space_def)
  have sg: "scan_sign (dropWhile is_space ((if neg then [45] else []) @ text3 n @ rest)) = (neg, text3 n @ rest)"
    using cn d minus by (cases neg) (simp_all add: body scan_sign_def)
  have dot: "\<not> is_digit 46" by (simp add: is_digit_def)
  then have 1: "takeWhile is_digit (text3 n @ rest) = digits ?q" "dropWhile is_digit (text3 n @ rest) = 46 # frac3 ?r @ rest"
    using span_digits [OF digits_all, of "46 # frac3 ?r @ rest" ?q] by (simp_all add: body)
  have 2: "takeWhile is_digit (frac3 ?r @ rest) = frac3 ?r" "dropWhile is_digit (frac3 ?r @ rest) = rest"
    using span_digits [OF frac3_digits assms, of ?r] by simp_all
  have "fst (scan_digits 0 (digits ?q @ frac3 ?r)) = n" using scan_text3 [of ?r ?q] by simp
  moreover have "length (frac3 ?r) = 3" by (simp add: frac3_def)
  ultimately show ?thesis using digits_nonempty [of ?q] by (simp add: scan_float_def sg 1 2 Let_def)
qed

text \<open>A float nearest to a number with three decimals is read back as it was printed.\<close>

lemma scan_print3:
  assumes "n < 16384000" and "rest = [] \<or> \<not> is_digit (hd rest)"
  shows "scan_float (print3 (f32_of neg n 1000) @ rest) = Some (f32_of neg n 1000, rest)"
  using scan_float_text3 [OF assms(2), of neg n] print3_thousandths [OF assms(1), of neg] by simp

end
