(* ===== verification/C_Memory.thy ===== *)
theory C_Memory
  imports Prelude
begin

text \<open>
  Objects in memory as lists of bytes, least significant byte first: stores and loads of words
  at a byte offset, for code that writes a member of a struct with the wrong width. A store
  that leaves the object is undefined.
\<close>

section \<open>Loads and stores\<close>

definition bytes32 :: "u32 \<Rightarrow> u8 list" where
  "bytes32 w = [byte_of 0 w, byte_of 1 w, byte_of 2 w, byte_of 3 w]"

definition put32 :: "nat \<Rightarrow> u32 \<Rightarrow> u8 list \<Rightarrow> u8 list option" where
  "put32 i w m = wr_seq m i (bytes32 w)"

definition get32 :: "u8 list \<Rightarrow> nat \<Rightarrow> u32" where
  "get32 m i = word32 (m ! (i + 3)) (m ! (i + 2)) (m ! (i + 1)) (m ! i)"

definition get16 :: "u8 list \<Rightarrow> nat \<Rightarrow> u16" where
  "get16 m i = word16 (m ! (i + 1)) (m ! i)"

section \<open>Loads after stores\<close>

text \<open>The bytes \<open>bs\<close> written at offset \<open>i\<close>.\<close>

definition put :: "nat \<Rightarrow> u8 list \<Rightarrow> u8 list \<Rightarrow> u8 list" where
  "put i bs m = take i m @ bs @ drop (i + length bs) m"

lemma length_put [simp]: "i + length bs \<le> length m \<Longrightarrow> length (put i bs m) = length m"
  by (simp add: put_def)

lemma nth_put:
  "i + length bs \<le> length m \<Longrightarrow> put i bs m ! j = (if j < i then m ! j else if j < i + length bs then bs ! (j - i) else m ! j)"
  by (auto simp: put_def nth_append)

lemma length_bytes32 [simp]: "length (bytes32 w) = 4"
  by (simp add: bytes32_def)

lemma nth_bytes32: "bytes32 w ! 0 = byte_of 0 w" "bytes32 w ! 1 = byte_of 1 w" "bytes32 w ! 2 = byte_of 2 w"
    "bytes32 w ! 3 = byte_of 3 w"
  by (simp_all add: bytes32_def numeral_2_eq_2 numeral_3_eq_3)

lemma put32_put: "i + 4 \<le> length m \<Longrightarrow> put32 i w m = Some (put i (bytes32 w) m)"
  by (simp add: put32_def wr_seq_eq put_def)

lemma get32_put_same [simp]: "i + 4 \<le> length m \<Longrightarrow> get32 (put i (bytes32 w) m) i = w"
  by (simp add: get32_def nth_put nth_bytes32 del: One_nat_def)

lemma get32_put_other [simp]:
  "i + length bs \<le> length m \<Longrightarrow> j + 4 \<le> i \<or> i + length bs \<le> j \<Longrightarrow> get32 (put i bs m) j = get32 m j"
  by (auto simp: get32_def nth_put)

lemma byte_pair: "word16 (byte_of 1 w) (byte_of 0 w) = ucast w"
  by (rule bit_word_eqI) (auto simp: bit_word16 byte_of_def bit_simps)

lemma get16_put_same [simp]: "i + 4 \<le> length m \<Longrightarrow> get16 (put i (bytes32 w) m) i = ucast w"
  by (simp add: get16_def nth_put nth_bytes32 byte_pair del: One_nat_def)

lemma get16_put_other [simp]:
  "i + length bs \<le> length m \<Longrightarrow> j + 2 \<le> i \<or> i + length bs \<le> j \<Longrightarrow> get16 (put i bs m) j = get16 m j"
  by (auto simp: get16_def nth_put)

end
