(* ===== verification/Config_File.thy ===== *)
theory Config_File
  imports Equipment_List C_Float C_Memory
begin

text \<open>
  \<open>User/user_file.c\<close> and \<open>Read_ConfigFile\<close> of \<open>Task/EquipmentList.c\<close>: the measuring points are
  kept in a text file of lines of 64 bytes. The file system is a parameter, its documented
  behaviour on an open file is the hypothesis \<open>file_ok\<close>.

  The reading side scans every number with \<open>%d\<close>, that is as four bytes, also into members of
  two bytes and of two single bytes. The structs of that side are therefore kept as their
  bytes in the layout of the ARM ABI (natural alignment, least significant byte first), and a
  write is undefined when it leaves the struct. A number outside the range of \<open>int\<close> is
  taken modulo \<open>2 ^ 32\<close>. The debug output is left out.
\<close>

section \<open>Structs as bytes\<close>

definition range_at :: "u8 list \<Rightarrow> nat \<Rightarrow> Range" where
  "range_at m i = \<lparr>minval = get32 m i, maxval = get32 m (i + 4)\<rparr>"

text \<open>The members of the four structs, which have 84, 40, 52 and 56 bytes.\<close>

definition Analogue_at :: "u8 list \<Rightarrow> Analogue_Config" where
  "Analogue_at m = \<lparr>testpointNo = get32 m 0, sensorName = get16 m 4, location = take 30 (drop 6 m),
     portType = get16 m 36, outputControl = (m ! 38, m ! 39), outage = range_at m 40, recover = range_at m 48,
     alarm = range_at m 56, liftAlarm = range_at m 64, measureRange = range_at m 72, coefficient = get32 m 80\<rparr>"

definition Switch_at :: "u8 list \<Rightarrow> Switch_Config" where
  "Switch_at m = \<lparr>testpointNo = get32 m 0, sensorName = get16 m 4, location = take 30 (drop 6 m),
     portType = get16 m 36, outputControl = (m ! 38, m ! 39)\<rparr>"

definition Accumulate_at :: "u8 list \<Rightarrow> Accumulate_Config" where
  "Accumulate_at m = \<lparr>testpointNo = get32 m 0, sensorName = get16 m 4, location = take 30 (drop 6 m),
     portType = get16 m 36, measureMaxVal = get32 m 40, shift = get32 m 44, acc_coefficient = get32 m 48\<rparr>"

definition Tristate_at :: "u8 list \<Rightarrow> Tristate_Config" where
  "Tristate_at m = \<lparr>testpointNo = get32 m 0, sensorName = get16 m 4, location = take 30 (drop 6 m),
     portType = get16 m 36, outputControl = (m ! 38, m ! 39),
     current = (get32 m 40, get32 m 44, get32 m 48, get32 m 52)\<rparr>"

section \<open>The file system\<close>

datatype oflag = O_RDONLY | O_RDWR | O_CREAT | O_TRUNC

text \<open>\<open>yaffs_read\<close> returns its result and the bytes it stored in the caller's buffer.\<close>

record 'fs yaffs =
  yaffs_open :: "string \<Rightarrow> oflag list \<Rightarrow> 'fs \<Rightarrow> int \<times> 'fs"
  yaffs_close :: "int \<Rightarrow> 'fs \<Rightarrow> 'fs"
  yaffs_read :: "int \<Rightarrow> nat \<Rightarrow> 'fs \<Rightarrow> int \<times> u8 list \<times> 'fs"
  yaffs_write :: "int \<Rightarrow> u8 list \<Rightarrow> 'fs \<Rightarrow> 'fs"

definition BUFFERSIZE :: nat where "BUFFERSIZE = 64"

section \<open>Writing\<close>

text \<open>The statements that write one line: the cleared buffer, the text, a line feed at its end.\<close>

definition put_line :: "'fs yaffs \<Rightarrow> int \<Rightarrow> u8 list \<Rightarrow> 'fs \<Rightarrow> 'fs option" where
  "put_line y f s fs = do {
     buf \<leftarrow> sprintf (replicate BUFFERSIZE 0) s;
     buf \<leftarrow> wr buf (BUFFERSIZE - 1) 10;
     Some (yaffs_write y f buf fs) }"

text \<open>\<open>%s\<close> of a char array without a NUL reads behind the array.\<close>

definition put_string :: "'fs yaffs \<Rightarrow> int \<Rightarrow> u8 list \<Rightarrow> 'fs \<Rightarrow> 'fs option" where
  "put_string y f s fs = (if 0 \<in> set s then put_line y f (c_str s) fs else None)"

fun spaced :: "u8 list list \<Rightarrow> u8 list" where
  "spaced [] = []"
| "spaced [w] = w"
| "spaced (w # ws) = w @ 32 # spaced ws"

definition type_text :: "u8 list" where
  "type_text = [0x54, 0x79, 0x70, 0x65, 0x3A, 0x20]"

definition range_text :: "Range \<Rightarrow> u8 list" where
  "range_text r = spaced [dec (sint (minval r)), dec (sint (maxval r))]"

text \<open>Number, name and port of a point and the constant that follows them.\<close>

definition base_text :: "'a Config_Base_scheme \<Rightarrow> int \<Rightarrow> u8 list" where
  "base_text c n = spaced [dec (sint (testpointNo c)), dec (sint (sensorName c)), dec (uint (portType c)), dec n]"

text \<open>
  \<open>a\<close> is the address of the struct; \<open>outputControl\<close> is an array, so what \<open>%d\<close> prints for it is
  its address.
\<close>

definition File_Set_Config_Analogue :: "'fs yaffs \<Rightarrow> int \<Rightarrow> u32 \<Rightarrow> Analogue_Config \<Rightarrow> 'fs \<Rightarrow> 'fs option" where
  "File_Set_Config_Analogue y f a c fs = do {
     fs \<leftarrow> put_line y f (type_text @ dec (uint SENSOR_ANALOGUE)) fs;
     fs \<leftarrow> put_line y f (base_text c 12) fs;
     fs \<leftarrow> put_string y f (location c) fs;
     fs \<leftarrow> put_line y f (range_text (alarm c)) fs;
     fs \<leftarrow> put_line y f (range_text (liftAlarm c)) fs;
     fs \<leftarrow> put_line y f (range_text (measureRange c)) fs;
     fs \<leftarrow> put_line y f (range_text (outage c)) fs;
     fs \<leftarrow> put_line y f (range_text (recover c)) fs;
     put_line y f (spaced [dec (sint (a + 38)), print3 (coefficient c)]) fs }"

definition File_Set_Config_Switch :: "'fs yaffs \<Rightarrow> int \<Rightarrow> u32 \<Rightarrow> Switch_Config \<Rightarrow> 'fs \<Rightarrow> 'fs option" where
  "File_Set_Config_Switch y f a c fs = do {
     fs \<leftarrow> put_line y f (type_text @ dec (uint SENSOR_SWITCH)) fs;
     fs \<leftarrow> put_line y f (base_text c 22) fs;
     fs \<leftarrow> put_string y f (location c) fs;
     put_line y f (dec (sint (a + 38))) fs }"

definition File_Set_Config_Accumulate :: "'fs yaffs \<Rightarrow> int \<Rightarrow> Accumulate_Config \<Rightarrow> 'fs \<Rightarrow> 'fs option" where
  "File_Set_Config_Accumulate y f c fs = do {
     fs \<leftarrow> put_line y f (type_text @ dec (uint SENSOR_ACCUMULATE)) fs;
     fs \<leftarrow> put_line y f (base_text c 12) fs;
     fs \<leftarrow> put_string y f (location c) fs;
     fs \<leftarrow> put_line y f (dec (sint (measureMaxVal c))) fs;
     fs \<leftarrow> put_line y f (print3 (acc_coefficient c)) fs;
     put_line y f (dec (sint (shift c))) fs }"

definition File_Set_Config_Tristate :: "'fs yaffs \<Rightarrow> int \<Rightarrow> u32 \<Rightarrow> Tristate_Config \<Rightarrow> 'fs \<Rightarrow> 'fs option" where
  "File_Set_Config_Tristate y f a c fs = do {
     fs \<leftarrow> put_line y f (type_text @ dec (uint SENSOR_TRISTATE)) fs;
     fs \<leftarrow> put_line y f (base_text c 12) fs;
     fs \<leftarrow> put_string y f (location c) fs;
     fs \<leftarrow> put_line y f (case current c of (i0, i1, i2, _) \<Rightarrow> spaced [dec (sint i0), dec (sint i1), dec (sint i2)]) fs;
     put_line y f (dec (sint (a + 38))) fs }"

section \<open>Reading\<close>

definition get_line :: "'fs yaffs \<Rightarrow> int \<Rightarrow> 'fs \<Rightarrow> (u8 list \<times> 'fs) option" where
  "get_line y f fs =
     (case yaffs_read y f BUFFERSIZE fs of
        (_, data, fs') \<Rightarrow> map_option (\<lambda>buf. (buf, fs')) (wr_seq (replicate BUFFERSIZE 0) 0 data))"

text \<open>The numbers a format of \<open>n\<close> times \<open>%d\<close> converts, up to the first matching failure.\<close>

fun scan_ints :: "nat \<Rightarrow> u8 list \<Rightarrow> int list" where
  "scan_ints 0 cs = []"
| "scan_ints (Suc n) cs = (case scan_int cs of None \<Rightarrow> [] | Some (v, rest) \<Rightarrow> v # scan_ints n rest)"

text \<open>Storing them at offsets of the struct; \<open>None\<close> is a variable outside it.\<close>

fun put_ints :: "(nat option \<times> int) list \<Rightarrow> u8 list \<Rightarrow> u8 list option" where
  "put_ints [] m = Some m"
| "put_ints ((None, v) # xs) m = put_ints xs m"
| "put_ints ((Some i, v) # xs) m = do { m \<leftarrow> put32 i (word_of_int v) m; put_ints xs m }"

text \<open>A line is a string for \<open>sscanf\<close> and \<open>strcpy\<close> only if it has a NUL.\<close>

definition get_string :: "'fs yaffs \<Rightarrow> int \<Rightarrow> 'fs \<Rightarrow> (u8 list \<times> 'fs) option" where
  "get_string y f fs = do {
     (buf, fs) \<leftarrow> get_line y f fs;
     if 0 \<in> set buf then Some (c_str buf, fs) else None }"

definition get_ints :: "'fs yaffs \<Rightarrow> int \<Rightarrow> nat option list \<Rightarrow> u8 list \<Rightarrow> 'fs \<Rightarrow> (u8 list \<times> 'fs) option" where
  "get_ints y f offs m fs = do {
     (s, fs) \<leftarrow> get_string y f fs;
     m \<leftarrow> put_ints (zip offs (scan_ints (length offs) s)) m;
     Some (m, fs) }"

definition get_location :: "'fs yaffs \<Rightarrow> int \<Rightarrow> u8 list \<Rightarrow> 'fs \<Rightarrow> (u8 list \<times> 'fs) option" where
  "get_location y f m fs = do {
     (s, fs) \<leftarrow> get_string y f fs;
     m \<leftarrow> wr_seq m 6 (s @ [0]);
     Some (m, fs) }"

definition put_float :: "nat \<Rightarrow> u8 list \<Rightarrow> u8 list \<Rightarrow> u8 list option" where
  "put_float i s m = (case scan_float s of None \<Rightarrow> Some m | Some (w, _) \<Rightarrow> put32 i w m)"

definition get_float :: "'fs yaffs \<Rightarrow> int \<Rightarrow> nat \<Rightarrow> u8 list \<Rightarrow> 'fs \<Rightarrow> (u8 list \<times> 'fs) option" where
  "get_float y f i m fs = do {
     (s, fs) \<leftarrow> get_string y f fs;
     m \<leftarrow> put_float i s m;
     Some (m, fs) }"

definition get_int_float :: "'fs yaffs \<Rightarrow> int \<Rightarrow> nat \<Rightarrow> nat \<Rightarrow> u8 list \<Rightarrow> 'fs \<Rightarrow> (u8 list \<times> 'fs) option" where
  "get_int_float y f i j m fs = do {
     (s, fs) \<leftarrow> get_string y f fs;
     m \<leftarrow> (case scan_int s of None \<Rightarrow> Some m | Some (v, r) \<Rightarrow> do { m \<leftarrow> put32 i (word_of_int v) m; put_float j r m });
     Some (m, fs) }"

definition File_Get_Config_Analogue :: "'fs yaffs \<Rightarrow> int \<Rightarrow> u8 list \<Rightarrow> 'fs \<Rightarrow> (u8 list \<times> 'fs) option" where
  "File_Get_Config_Analogue y f m fs = do {
     (m, fs) \<leftarrow> get_ints y f [Some 0, Some 4, Some 36, None] m fs;
     (m, fs) \<leftarrow> get_location y f m fs;
     (m, fs) \<leftarrow> get_ints y f [Some 56, Some 60] m fs;
     (m, fs) \<leftarrow> get_ints y f [Some 64, Some 68] m fs;
     (m, fs) \<leftarrow> get_ints y f [Some 72, Some 76] m fs;
     (m, fs) \<leftarrow> get_ints y f [Some 40, Some 44] m fs;
     (m, fs) \<leftarrow> get_ints y f [Some 48, Some 52] m fs;
     get_int_float y f 38 80 m fs }"

definition File_Get_Config_Switch :: "'fs yaffs \<Rightarrow> int \<Rightarrow> u8 list \<Rightarrow> 'fs \<Rightarrow> (u8 list \<times> 'fs) option" where
  "File_Get_Config_Switch y f m fs = do {
     (m, fs) \<leftarrow> get_ints y f [Some 0, Some 4, Some 36, None] m fs;
     (m, fs) \<leftarrow> get_location y f m fs;
     get_ints y f [Some 38] m fs }"

definition File_Get_Config_Accumulate :: "'fs yaffs \<Rightarrow> int \<Rightarrow> u8 list \<Rightarrow> 'fs \<Rightarrow> (u8 list \<times> 'fs) option" where
  "File_Get_Config_Accumulate y f m fs = do {
     (m, fs) \<leftarrow> get_ints y f [Some 0, Some 4, Some 36, None] m fs;
     (m, fs) \<leftarrow> get_location y f m fs;
     (m, fs) \<leftarrow> get_ints y f [Some 40] m fs;
     (m, fs) \<leftarrow> get_float y f 48 m fs;
     get_ints y f [Some 44] m fs }"

definition File_Get_Config_Tristate :: "'fs yaffs \<Rightarrow> int \<Rightarrow> u8 list \<Rightarrow> 'fs \<Rightarrow> (u8 list \<times> 'fs) option" where
  "File_Get_Config_Tristate y f m fs = do {
     (m, fs) \<leftarrow> get_ints y f [Some 0, Some 4, Some 36, None] m fs;
     (m, fs) \<leftarrow> get_location y f m fs;
     (m, fs) \<leftarrow> get_ints y f [Some 40, Some 44, Some 48] m fs;
     get_ints y f [Some 38] m fs }"

section \<open>Lines of a file\<close>

text \<open>
  The documented behaviour of an open file: reading returns the next bytes, fewer at the end
  of the file, and writing appends.
\<close>

definition file_ok :: "'fs yaffs \<Rightarrow> int \<Rightarrow> ('fs \<Rightarrow> u8 list) \<Rightarrow> ('fs \<Rightarrow> u8 list) \<Rightarrow> bool" where
  "file_ok y f unread written \<longleftrightarrow>
     (\<forall>n fs. case yaffs_read y f n fs of (r, data, fs') \<Rightarrow>
        r = int (length data) \<and> data = take n (unread fs) \<and> unread fs' = drop n (unread fs))
     \<and> (\<forall>buf fs. written (yaffs_write y f buf fs) = written fs @ buf)"

definition line :: "u8 list \<Rightarrow> u8 list" where
  "line s = s @ replicate (63 - length s) 0 @ [10]"

definition lines :: "u8 list list \<Rightarrow> u8 list" where
  "lines ss = concat (map line ss)"

lemma lines_simps [simp]: "lines [] = []" "lines (s # ss) = line s @ lines ss"
  by (simp_all add: lines_def)

lemma length_line [simp]: "length s < 64 \<Longrightarrow> length (line s) = 64"
  by (simp add: line_def)

lemma put_line_ok:
  assumes f: "file_ok y f unread written" and s: "length s < 64"
  shows "\<exists>fs'. put_line y f s fs = Some fs' \<and> written fs' = written fs @ line s"
proof -
  obtain k where k: "63 = length s + k" using s le_Suc_ex [of "length s" 63] by auto
  have b: "sprintf (replicate BUFFERSIZE 0) s = Some (s @ 0 # replicate k 0)"
    using k by (simp add: sprintf_ok BUFFERSIZE_def)
  have l: "replicate k 0 @ [0] = 0 # replicate k (0 :: u8)" by (simp add: replicate_append_same)
  have "(s @ 0 # replicate k 0)[63 := 10] = s @ replicate k 0 @ [10 :: u8]"
    using k by (simp add: l [symmetric] list_update_append del: l)
  then have "wr (s @ 0 # replicate k 0) (BUFFERSIZE - 1) 10 = Some (line s)"
    using k by (simp add: BUFFERSIZE_def wr_def line_def)
  then show ?thesis using b f by (simp add: put_line_def file_ok_def del: wr_eq_Some One_nat_def)
qed

lemma file_readD:
  assumes "file_ok y f unread written" and "yaffs_read y f n fs = (r, data, fs')"
  shows "r = int (length data)" "data = take n (unread fs)" "unread fs' = drop n (unread fs)"
proof -
  have "case yaffs_read y f n fs of (r, data, fs') \<Rightarrow>
      r = int (length data) \<and> data = take n (unread fs) \<and> unread fs' = drop n (unread fs)"
    using conjunct1 [OF assms(1) [unfolded file_ok_def], THEN spec, THEN spec, of n fs] .
  then show "r = int (length data)" "data = take n (unread fs)" "unread fs' = drop n (unread fs)"
    using assms(2) by simp_all
qed

lemma line_string:
  assumes "length s < 63" and "0 \<notin> set s"
  shows "c_str (line s) = s" "0 \<in> set (line s)"
proof -
  obtain k where k: "63 - length s = Suc k" using assms(1) by (metis Suc_diff_Suc)
  then have "line s = s @ 0 # replicate k 0 @ [10]" by (simp add: line_def)
  then show "c_str (line s) = s" "0 \<in> set (line s)" using assms(2) by simp_all
qed

lemma get_string_line:
  assumes f: "file_ok y f unread written" and u: "unread fs = line s @ tail"
    and s: "length s < 63" "0 \<notin> set s"
  shows "\<exists>fs'. get_string y f fs = Some (s, fs') \<and> unread fs' = tail"
proof -
  obtain n data fs' where r: "yaffs_read y f 64 fs = (n, data, fs')" by (meson prod_cases3)
  then have d: "data = line s" "unread fs' = tail" using file_readD [OF f r] u s(1) by simp_all
  have "wr_seq (replicate BUFFERSIZE 0) 0 (line s) = Some (line s)"
    using s(1) by (simp add: wr_seq_eq BUFFERSIZE_def)
  then show ?thesis using r d line_string [OF s] by (simp add: get_string_def get_line_def BUFFERSIZE_def)
qed

section \<open>Texts\<close>

lemma length_dec_i32: "length (dec (sint (w :: u32))) \<le> 11"
proof -
  have "- (2 ^ 31) \<le> sint w" "sint w < 2 ^ 31" using sint_ge [of w] sint_lt [of w] by simp_all
  then have "nat \<bar>sint w\<bar> < 10 ^ 10" by simp
  then have "length (digits (nat \<bar>sint w\<bar>)) \<le> 10" using length_digits [of 10] by simp
  then show ?thesis by (auto simp: dec_def)
qed

lemma length_dec_u16: "length (dec (uint (w :: u16))) \<le> 11" "length (dec (sint (w :: u16))) \<le> 11"
proof -
  have "unat w < 2 ^ 16" using unsigned_less [of w] by simp
  then have "length (digits (unat w)) \<le> 10" using length_digits [of 10] by simp
  then show "length (dec (uint w)) \<le> 11" by (simp add: dec_def)
  have "- (2 ^ 15) \<le> sint w" "sint w < 2 ^ 15" using sint_ge [of w] sint_lt [of w] by simp_all
  then have "nat \<bar>sint w\<bar> < 10 ^ 10" by simp
  then have "length (digits (nat \<bar>sint w\<bar>)) \<le> 10" using length_digits [of 10] by simp
  then show "length (dec (sint w)) \<le> 11" by (auto simp: dec_def)
qed

lemma length_spaced: "length (spaced ws) \<le> sum_list (map length ws) + length ws"
  by (induction ws rule: spaced.induct) auto

lemma spaced_no_nul: "0 \<notin> set (spaced ws) \<longleftrightarrow> (\<forall>w \<in> set ws. 0 \<notin> set w)"
  by (induction ws rule: spaced.induct) auto

lemma scan_int_space: "scan_int (32 # cs) = scan_int cs"
  by (simp add: scan_int_def is_space_def)

lemma scan_ints_spaced: "scan_ints (length vs) (spaced (map dec vs)) = vs"
proof (induction vs)
  case Nil
  then show ?case by simp
next
  case (Cons v vs)
  show ?case
  proof (cases vs)
    case Nil
    then show ?thesis using scan_int_dec [of "[]" v] by simp
  next
    case (Cons u us)
    have "scan_int (dec v @ 32 # spaced (map dec vs)) = Some (v, 32 # spaced (map dec vs))"
      by (rule scan_int_dec) (simp add: is_digit_def)
    then show ?thesis using Cons.IH Cons by (simp add: scan_int_space)
  qed
qed

text \<open>A line of printed numbers read into a struct.\<close>

lemma get_ints_line:
  assumes f: "file_ok y f unread written" and u: "unread fs = line (spaced (map dec vs)) @ tail"
    and l: "\<forall>v \<in> set vs. length (dec v) \<le> 11" "length vs \<le> 4" and o: "length offs = length vs"
    and m: "put_ints (zip offs vs) m = Some m'"
  shows "\<exists>fs'. get_ints y f offs m fs = Some (m', fs') \<and> unread fs' = tail"
proof -
  have "sum_list (map length (map dec vs)) \<le> 11 * length vs"
    using l(1) by (induction vs) auto
  then have "length (spaced (map dec vs)) < 63" using length_spaced [of "map dec vs"] l(2) by simp
  moreover have "0 \<notin> set (spaced (map dec vs))" by (simp add: spaced_no_nul dec_no_nul)
  ultimately obtain fs' where "get_string y f fs = Some (spaced (map dec vs), fs')" "unread fs' = tail"
    using get_string_line [OF f u] by blast
  then show ?thesis using m o scan_ints_spaced [of vs] by (simp add: get_ints_def)
qed

lemma get_location_line:
  assumes f: "file_ok y f unread written" and u: "unread fs = line s @ tail"
    and s: "length s < 30" "0 \<notin> set s" "36 \<le> length m"
  shows "\<exists>fs'. get_location y f m fs = Some (take 6 m @ (s @ [0]) @ drop (7 + length s) m, fs') \<and> unread fs' = tail"
proof -
  obtain fs' where "get_string y f fs = Some (s, fs')" "unread fs' = tail"
    using get_string_line [OF f u _ s(2)] s(1) by auto
  then show ?thesis using s(1,3) by (simp add: get_location_def wr_seq_eq)
qed

section \<open>Members of a struct\<close>

lemma slice_put_other:
  "i + length bs \<le> length m \<Longrightarrow> 36 \<le> i \<Longrightarrow> take 30 (drop 6 (put i bs m)) = take 30 (drop 6 m)"
  by (rule nth_equalityI) (auto simp: nth_put)

lemma slice_put_string:
  assumes "length s < 30" and "0 \<notin> set s" and "36 \<le> length m"
  shows "c_str (take 30 (drop 6 (put 6 (s @ [0]) m))) = s"
proof -
  have "drop 6 (put 6 (s @ [0]) m) = s @ 0 # drop (7 + length s) m" using assms(3) by (simp add: put_def)
  moreover have "take 30 (s @ 0 # drop (7 + length s) m) = s @ 0 # take (29 - length s) (drop (7 + length s) m)"
    using assms(1) by (simp add: take_Cons')
  ultimately show ?thesis using assms(2) by simp
qed

lemma length_slice [simp]: "36 \<le> length m \<Longrightarrow> length (take 30 (drop 6 m)) = 30"
  by simp

section \<open>What is read back\<close>

lemma i16_through_int: "ucast (scast w :: u32) = (w :: u16)"
proof (rule bit_word_eqI)
  fix n assume "n < LENGTH(16)"
  then have "n < 15 \<or> n = 15" by auto
  then show "bit (ucast (scast w :: u32) :: u16) n \<longleftrightarrow> bit w n"
    by (auto simp: bit_simps bit_sint_iff min_def)
qed

lemma u16_through_int: "ucast (ucast w :: u32) = (w :: u16)"
  by (rule bit_word_eqI) (simp add: bit_simps)

text \<open>A place name that fits its array.\<close>

definition place_ok :: "'a Config_Base_scheme \<Rightarrow> bool" where
  "place_ok c \<longleftrightarrow> 0 \<in> set (location c) \<and> length (c_str (location c)) < 30"

text \<open>The struct after the two lines all classes begin with.\<close>

definition head_put :: "'a Config_Base_scheme \<Rightarrow> u8 list \<Rightarrow> u8 list" where
  "head_put c m = put 6 (c_str (location c) @ [0]) (put 36 (bytes32 (word_of_int (uint (portType c))))
     (put 4 (bytes32 (word_of_int (sint (sensorName c)))) (put 0 (bytes32 (testpointNo c)) m)))"

lemma head_put_simps [simp]:
  assumes "40 \<le> length m" and "place_ok c"
  shows "length (head_put c m) = length m" "get32 (head_put c m) 0 = testpointNo c"
    "get16 (head_put c m) 4 = sensorName c" "get16 (head_put c m) 36 = portType c"
    "c_str (take 30 (drop 6 (head_put c m))) = c_str (location c)"
    "40 \<le> j \<Longrightarrow> get32 (head_put c m) j = get32 m j"
  using assms by (simp_all add: head_put_def place_ok_def i16_through_int u16_through_int slice_put_string)

lemma get_range_line:
  assumes f: "file_ok y f unread written" and u: "unread fs = line (range_text r) @ tail" and m: "i + 8 \<le> length m"
  shows "\<exists>fs'. get_ints y f [Some i, Some (i + 4)] m fs
     = Some (put (i + 4) (bytes32 (maxval r)) (put i (bytes32 (minval r)) m), fs') \<and> unread fs' = tail"
  using u m length_dec_i32
  by (intro get_ints_line [OF f, of _ "[sint (minval r), sint (maxval r)]"]) (simp_all add: range_text_def put32_put)

lemma get_one_line:
  assumes f: "file_ok y f unread written" and u: "unread fs = line (dec (sint w)) @ tail" and m: "i + 4 \<le> length m"
  shows "\<exists>fs'. get_ints y f [Some i] m fs = Some (put i (bytes32 w) m, fs') \<and> unread fs' = tail"
  using u m length_dec_i32
  by (intro get_ints_line [OF f, of _ "[sint w]"]) (simp_all add: put32_put)

text \<open>A float that is the nearest one to a number with three decimals, not too large.\<close>

definition three_decimals :: "u32 \<Rightarrow> bool" where
  "three_decimals w \<longleftrightarrow> (\<exists>neg n. n < 16384000 \<and> w = f32_of neg n 1000)"

lemma print3_text:
  assumes "three_decimals w"
  shows "length (print3 w) \<le> 10" "0 \<notin> set (print3 w)" "scan_float (print3 w) = Some (w, [])"
    "scan_float (32 # print3 w) = Some (w, [])"
proof -
  obtain neg n where n: "n < 16384000" "w = f32_of neg n 1000" using assms by (auto simp: three_decimals_def)
  have p: "print3 w = (if neg then [45] else []) @ text3 n" using print3_thousandths [OF n(1)] n(2) by simp
  have "n div 1000 < 10 ^ 5" using n(1) by simp
  then have "length (digits (n div 1000)) \<le> 5" using length_digits [of 5] by simp
  then show "length (print3 w) \<le> 10" by (simp add: p text3_def frac3_def)
  have "0 \<notin> set (frac3 r)" if "r < 1000" for r
    using frac3_digits [OF that] by (auto simp: list_all_iff is_digit_def)
  then show "0 \<notin> set (print3 w)" by (simp add: p text3_def digits_no_nul)
  show s: "scan_float (print3 w) = Some (w, [])" using scan_print3 [OF n(1), of "[]" neg] n(2) by simp
  show "scan_float (32 # print3 w) = Some (w, [])" using s by (simp add: scan_float_def is_space_def)
qed

lemma get_float_line:
  assumes f: "file_ok y f unread written" and u: "unread fs = line (print3 w) @ tail" and w: "three_decimals w"
    and m: "i + 4 \<le> length m"
  shows "\<exists>fs'. get_float y f i m fs = Some (put i (bytes32 w) m, fs') \<and> unread fs' = tail"
proof -
  obtain fs' where "get_string y f fs = Some (print3 w, fs')" "unread fs' = tail"
    using get_string_line [OF f u _ print3_text(2) [OF w]] print3_text(1) [OF w] by auto
  then show ?thesis using m by (simp add: get_float_def put_float_def print3_text(3) [OF w] put32_put)
qed

lemma get_int_float_line:
  assumes f: "file_ok y f unread written" and u: "unread fs = line (spaced [dec (sint v), print3 w]) @ tail"
    and w: "three_decimals w" and m: "i + 4 \<le> length m" "j + 4 \<le> length m"
  shows "\<exists>fs'. get_int_float y f i j m fs = Some (put j (bytes32 w) (put i (bytes32 v) m), fs') \<and> unread fs' = tail"
proof -
  let ?s = "spaced [dec (sint v), print3 w]"
  have "length ?s < 63" using length_dec_i32 [of v] print3_text(1) [OF w] by simp
  moreover have "0 \<notin> set ?s" using print3_text(2) [OF w] by (simp add: dec_no_nul)
  ultimately obtain fs' where "get_string y f fs = Some (?s, fs')" "unread fs' = tail"
    using get_string_line [OF f u] by blast
  moreover have "scan_int ?s = Some (sint v, 32 # print3 w)"
    using scan_int_dec [of "32 # print3 w" "sint v"] by (simp add: is_digit_def)
  ultimately show ?thesis using m by (simp add: get_int_float_def put_float_def print3_text(4) [OF w] put32_put)
qed

end
