(* ===== verification/Config_Roundtrip.thy ===== *)
theory Config_Roundtrip
  imports Config_File
begin

text \<open>
  What becomes of the configuration of a measuring point that is saved to the file and read
  back: the four classes are written line by line (\<open>save_ok\<close>), and a struct filled from these
  lines holds what was saved, but for what a four-byte store into a two-byte member destroys.
\<close>

section \<open>Saved points\<close>

text \<open>
  A struct to be saved, with the address it has in memory where the code prints that; the lines
  of its text after the first, and what becomes of it on the way through the file.
\<close>

datatype saved =
    SavedAnalogue u32 Analogue_Config
  | SavedSwitch u32 Switch_Config
  | SavedAccumulate Accumulate_Config
  | SavedTristate u32 Tristate_Config

fun saved_class :: "saved \<Rightarrow> Sensor_Class" where
  "saved_class (SavedAnalogue _ _) = Analogue"
| "saved_class (SavedSwitch _ _) = Switch"
| "saved_class (SavedAccumulate _) = Accumulate"
| "saved_class (SavedTristate _ _) = Tristate"

fun save :: "'fs yaffs \<Rightarrow> int \<Rightarrow> saved \<Rightarrow> 'fs \<Rightarrow> 'fs option" where
  "save y f (SavedAnalogue a c) = File_Set_Config_Analogue y f a c"
| "save y f (SavedSwitch a c) = File_Set_Config_Switch y f a c"
| "save y f (SavedAccumulate c) = File_Set_Config_Accumulate y f c"
| "save y f (SavedTristate a c) = File_Set_Config_Tristate y f a c"

fun load :: "'fs yaffs \<Rightarrow> int \<Rightarrow> Sensor_Class \<Rightarrow> u8 list \<Rightarrow> 'fs \<Rightarrow> (u8 list \<times> 'fs) option" where
  "load y f Analogue = File_Get_Config_Analogue y f"
| "load y f Switch = File_Get_Config_Switch y f"
| "load y f Accumulate = File_Get_Config_Accumulate y f"
| "load y f Tristate = File_Get_Config_Tristate y f"

fun struct_size :: "Sensor_Class \<Rightarrow> nat" where
  "struct_size Analogue = 84"
| "struct_size Switch = 40"
| "struct_size Accumulate = 52"
| "struct_size Tristate = 56"

fun config_at :: "Sensor_Class \<Rightarrow> u8 list \<Rightarrow> Config" where
  "config_at Analogue m = AnalogueC (Analogue_at m)"
| "config_at Switch m = SwitchC (Switch_at m)"
| "config_at Accumulate m = AccumulateC (Accumulate_at m)"
| "config_at Tristate m = TristateC (Tristate_at m)"

fun saved_ok :: "saved \<Rightarrow> bool" where
  "saved_ok (SavedAnalogue a c) \<longleftrightarrow> place_ok c \<and> three_decimals (coefficient c)"
| "saved_ok (SavedSwitch a c) \<longleftrightarrow> place_ok c"
| "saved_ok (SavedAccumulate c) \<longleftrightarrow> place_ok c \<and> three_decimals (acc_coefficient c)"
| "saved_ok (SavedTristate a c) \<longleftrightarrow> place_ok c"

definition type_line :: "saved \<Rightarrow> u8 list" where
  "type_line sv = type_text @ dec (uint (class_code (saved_class sv)))"

fun texts :: "saved \<Rightarrow> u8 list list" where
  "texts (SavedAnalogue a c) = [base_text c 12, c_str (location c), range_text (alarm c), range_text (liftAlarm c),
     range_text (measureRange c), range_text (outage c), range_text (recover c),
     spaced [dec (sint (a + 38)), print3 (coefficient c)]]"
| "texts (SavedSwitch a c) = [base_text c 22, c_str (location c), dec (sint (a + 38))]"
| "texts (SavedAccumulate c) = [base_text c 12, c_str (location c), dec (sint (measureMaxVal c)),
     print3 (acc_coefficient c), dec (sint (shift c))]"
| "texts (SavedTristate a c) = [base_text c 12, c_str (location c),
     (case current c of (i0, i1, i2, _) \<Rightarrow> spaced [dec (sint i0), dec (sint i1), dec (sint i2)]), dec (sint (a + 38))]"

text \<open>The two low bytes of \<open>w\<close> replaced by the two high bytes of an address.\<close>

definition overrun :: "u32 \<Rightarrow> u32 \<Rightarrow> u32" where
  "overrun a w = word32 (byte_of 3 w) (byte_of 2 w) (byte_of 3 a) (byte_of 2 a)"

definition low_bytes :: "u32 \<Rightarrow> u8 \<times> u8" where
  "low_bytes a = (byte_of 0 a, byte_of 1 a)"

fun read_back :: "saved \<Rightarrow> u8 list \<Rightarrow> Config" where
  "read_back (SavedAnalogue a c) m = AnalogueC (c\<lparr>outputControl := low_bytes (a + 38),
     outage := (outage c)\<lparr>minval := overrun (a + 38) (minval (outage c))\<rparr>\<rparr>)"
| "read_back (SavedSwitch a c) m = SwitchC (c\<lparr>outputControl := low_bytes (a + 38)\<rparr>)"
| "read_back (SavedAccumulate c) m = AccumulateC c"
| "read_back (SavedTristate a c) m = TristateC (c\<lparr>outputControl := low_bytes (a + 38),
     current := (case current c of (i0, i1, i2, _) \<Rightarrow> (overrun (a + 38) i0, i1, i2, get32 m 52))\<rparr>)"

lemma length_spaced2 [simp]: "length (spaced [u, v]) = length u + length v + 1"
  "length (spaced [u, v, w]) = length u + length v + length w + 2"
  "length (spaced [u, v, w, x]) = length u + length v + length w + length x + 3"
  by simp_all

lemma length_base_text: "length (base_text c 12) < 64" "length (base_text c 22) < 64"
  using length_dec_i32 [of "testpointNo c"] length_dec_u16(2) [of "sensorName c"] length_dec_u16(1) [of "portType c"]
  by (simp_all add: base_text_def dec_def [of 12] dec_def [of 22] digits.simps del: spaced.simps)

lemma short_texts:
  assumes ok: "saved_ok sv" and s: "s \<in> set (type_line sv # texts sv)"
  shows "length s < 64"
proof -
  have r: "length (range_text r) < 64" for r
    using length_dec_i32 [of "minval r"] length_dec_i32 [of "maxval r"] by (simp add: range_text_def del: spaced.simps)
  have i: "length (dec (sint (w :: u32))) < 64" for w using length_dec_i32 [of w] by simp
  have i3: "length (spaced [dec (sint (u :: u32)), dec (sint (v :: u32)), dec (sint (w :: u32))]) < 64" for u v w
    using length_dec_i32 [of u] length_dec_i32 [of v] length_dec_i32 [of w] by (simp del: spaced.simps)
  have t: "length (type_line v) < 64" for v
    using length_dec_u16(1) [of "class_code (saved_class v)"] by (simp add: type_line_def type_text_def)
  have p: "length (print3 w) < 64" "length (spaced [dec (sint (v :: u32)), print3 w]) < 64" if "three_decimals w" for v w
    using print3_text(1) [OF that] length_dec_i32 [of v] by (simp_all del: spaced.simps)
  show ?thesis
    using s ok
    by (cases sv) (auto simp: place_ok_def length_base_text r i i3 p t
        simp del: spaced.simps length_spaced2 split: prod.splits)
qed

lemma run_bind: "run f [] = Some" "run f (i # is) = (\<lambda>s. Option.bind (f i s) (run f is))"
  by (auto simp: fun_eq_iff split: option.split Option.bind_split)

text \<open>Every class is saved line by line.\<close>

lemma save_run:
  assumes "saved_ok sv"
  shows "save y f sv fs = run (put_line y f) (type_line sv # texts sv) fs"
  using assms
  by (cases sv) (simp_all add: run_bind File_Set_Config_Analogue_def File_Set_Config_Switch_def
      File_Set_Config_Accumulate_def File_Set_Config_Tristate_def put_string_def place_ok_def type_line_def
      del: run.simps spaced.simps split: prod.splits)

lemma run_put_lines:
  assumes f: "file_ok y f unread written"
  shows "(\<forall>s \<in> set ss. length s < 64) \<Longrightarrow>
     \<exists>fs'. run (put_line y f) ss fs = Some fs' \<and> written fs' = written fs @ lines ss"
proof (induction ss arbitrary: fs)
  case Nil
  then show ?case by simp
next
  case (Cons s ss)
  then obtain fs1 where "put_line y f s fs = Some fs1" "written fs1 = written fs @ line s"
    using put_line_ok [OF f] by (metis list.set_intros(1))
  then show ?case using Cons.IH [of fs1] Cons.prems by auto
qed

lemma save_ok:
  assumes "file_ok y f unread written" and "saved_ok sv"
  shows "\<exists>fs'. save y f sv fs = Some fs' \<and> written fs' = written fs @ lines (type_line sv # texts sv)"
  using run_put_lines [OF assms(1)] short_texts [OF assms(2)] save_run [OF assms(2)] by metis

section \<open>Reading a saved point\<close>

lemma get32_overrun:
  assumes "i + 6 \<le> length m"
  shows "get32 (put i (bytes32 a) m) (i + 2) = overrun a (get32 m (i + 2))"
proof -
  have e: "i + 2 + 3 = i + 5" "i + 2 + 2 = i + 4" "i + 2 + 1 = i + 3" by simp_all
  have b: "byte_of 3 (word32 p q r s) = p" "byte_of 2 (word32 p q r s) = q" for p q r s
    by (rule bit_word_eqI; simp add: byte_of_def bit_word32 bit_simps)+
  have n: "put i (bytes32 a) m ! (i + 2) = byte_of 2 a" "put i (bytes32 a) m ! (i + 3) = byte_of 3 a"
      "put i (bytes32 a) m ! (i + 4) = m ! (i + 4)" "put i (bytes32 a) m ! (i + 5) = m ! (i + 5)"
    using assms by (simp_all add: nth_put nth_bytes32)
  show ?thesis unfolding overrun_def get32_def e b n ..
qed

lemma nth_put_low: "i + 4 \<le> length m \<Longrightarrow> (put i (bytes32 a) m ! i, put i (bytes32 a) m ! Suc i) = low_bytes a"
  using nth_bytes32 [of a] by (simp add: nth_put low_bytes_def)

definition put_range :: "nat \<Rightarrow> Range \<Rightarrow> u8 list \<Rightarrow> u8 list" where
  "put_range i r m = put (i + 4) (bytes32 (maxval r)) (put i (bytes32 (minval r)) m)"

lemma put_range_simps [simp]:
  assumes "i + 8 \<le> length m"
  shows "length (put_range i r m) = length m" "range_at (put_range i r m) i = r"
    "j + 8 \<le> i \<or> i + 8 \<le> j \<Longrightarrow> range_at (put_range i r m) j = range_at m j"
    "j + 4 \<le> i \<or> i + 8 \<le> j \<Longrightarrow> get32 (put_range i r m) j = get32 m j"
    "j + 2 \<le> i \<or> i + 8 \<le> j \<Longrightarrow> get16 (put_range i r m) j = get16 m j"
    "36 \<le> i \<Longrightarrow> take 30 (drop 6 (put_range i r m)) = take 30 (drop 6 m)"
  using assms by (auto simp: put_range_def range_at_def slice_put_other)

lemma range_at_put_other [simp]:
  "i + length bs \<le> length m \<Longrightarrow> j + 8 \<le> i \<or> i + length bs \<le> j \<Longrightarrow> range_at (put i bs m) j = range_at m j"
  by (auto simp: range_at_def)

lemma range_at_minval: "get32 m i = minval (range_at m i)" "get32 m (i + 4) = maxval (range_at m i)"
  by (simp_all add: range_at_def)

text \<open>\<open>g\<close> consumes the lines \<open>ss\<close> and turns the struct \<open>m\<close> into \<open>m'\<close>.\<close>

definition reads :: "('fs \<Rightarrow> u8 list) \<Rightarrow> (u8 list \<Rightarrow> 'fs \<Rightarrow> (u8 list \<times> 'fs) option) \<Rightarrow> u8 list list \<Rightarrow> u8 list \<Rightarrow> u8 list \<Rightarrow> bool" where
  "reads unread g ss m m' \<longleftrightarrow>
     (\<forall>fs tail. unread fs = lines ss @ tail \<longrightarrow> (\<exists>fs'. g m fs = Some (m', fs') \<and> unread fs' = tail))"

lemma reads_bind:
  assumes "reads unread g [s] m m1" and "reads unread h ss m1 m2"
  shows "reads unread (\<lambda>m fs. Option.bind (g m fs) (\<lambda>(m, fs). h m fs)) (s # ss) m m2"
  unfolding reads_def
proof (intro allI impI)
  fix fs tail assume "unread fs = lines (s # ss) @ tail"
  then have "unread fs = lines [s] @ lines ss @ tail" by simp
  then obtain fs1 where 1: "g m fs = Some (m1, fs1)" "unread fs1 = lines ss @ tail"
    using assms(1) unfolding reads_def by blast
  then obtain fs2 where "h m1 fs1 = Some (m2, fs2)" "unread fs2 = tail"
    using assms(2) unfolding reads_def by blast
  then show "\<exists>fs'. Option.bind (g m fs) (\<lambda>(m, fs). h m fs) = Some (m2, fs') \<and> unread fs' = tail"
    using 1(1) by simp
qed

lemma reads_head:
  assumes f: "file_ok y f unread written" and c: "place_ok c" and m: "40 \<le> length m" and n: "length (dec n) \<le> 11"
  obtains m1 where "reads unread (get_ints y f [Some 0, Some 4, Some 36, None]) [base_text c n] m m1"
    and "reads unread (get_location y f) [c_str (location c)] m1 (head_put c m)"
proof -
  let ?vs = "[sint (testpointNo c), sint (sensorName c), uint (portType c), n]"
  let ?m1 = "put 36 (bytes32 (word_of_int (uint (portType c))))
     (put 4 (bytes32 (word_of_int (sint (sensorName c)))) (put 0 (bytes32 (testpointNo c)) m))"
  show ?thesis
  proof
    show "reads unread (get_ints y f [Some 0, Some 4, Some 36, None]) [base_text c n] m ?m1"
      unfolding reads_def using n m length_dec_i32 length_dec_u16
      by (intro allI impI get_ints_line [OF f, of _ ?vs]) (simp_all add: base_text_def put32_put)
    show "reads unread (get_location y f) [c_str (location c)] ?m1 (head_put c m)"
      unfolding reads_def using get_location_line [OF f, of _ "c_str (location c)" _ ?m1] c m
      by (simp add: place_ok_def head_put_def put_def [of 6])
  qed
qed

lemma reads_range:
  assumes f: "file_ok y f unread written" and m: "i + 8 \<le> length m" and j: "j = i + 4"
  shows "reads unread (get_ints y f [Some i, Some j]) [range_text r] m (put_range i r m)"
  using get_range_line [OF f _ m] by (simp add: reads_def put_range_def j)

lemma reads_one:
  assumes f: "file_ok y f unread written" and m: "i + 4 \<le> length m"
  shows "reads unread (get_ints y f [Some i]) [dec (sint w)] m (put i (bytes32 w) m)"
  using get_one_line [OF f _ m] by (simp add: reads_def)

lemma reads_float:
  assumes f: "file_ok y f unread written" and w: "three_decimals w" and m: "i + 4 \<le> length m"
  shows "reads unread (get_float y f i) [print3 w] m (put i (bytes32 w) m)"
  using get_float_line [OF f _ w m] by (simp add: reads_def)

lemma reads_int_float:
  assumes f: "file_ok y f unread written" and w: "three_decimals w" and m: "i + 4 \<le> length m" "j + 4 \<le> length m"
  shows "reads unread (get_int_float y f i j) [spaced [dec (sint v), print3 w]] m
    (put j (bytes32 w) (put i (bytes32 v) m))"
  using get_int_float_line [OF f _ w m] by (simp add: reads_def)

lemma analogue_same:
  assumes "get32 x 0 = testpointNo c" "get16 x 4 = sensorName c" "get16 x 36 = portType c"
    and "c_str (take 30 (drop 6 x)) = c_str (location c)" "get32 x 80 = coefficient c"
    and "range_at x 48 = recover c" "range_at x 56 = alarm c" "range_at x 64 = liftAlarm c"
    and "range_at x 72 = measureRange c" "get32 x 40 = overrun b (minval (outage c))"
    and "get32 x 44 = maxval (outage c)" "(x ! 38, x ! 39) = low_bytes b"
  shows "same_settings (AnalogueC (Analogue_at x)) (AnalogueC (c\<lparr>outputControl := low_bytes b,
     outage := (outage c)\<lparr>minval := overrun b (minval (outage c))\<rparr>\<rparr>))"
  using assms by (cases c; cases "outage c") (simp add: same_settings_def Analogue_at_def range_at_def [of x 40])

lemma reads_three:
  assumes f: "file_ok y f unread written" and m: "i + 12 \<le> length m" and j: "j = i + 4" "k = i + 8"
  shows "reads unread (get_ints y f [Some i, Some j, Some k]) [spaced [dec (sint u), dec (sint v), dec (sint w)]] m
    (put k (bytes32 w) (put j (bytes32 v) (put i (bytes32 u) m)))"
  unfolding reads_def using m j length_dec_i32
  by (intro allI impI get_ints_line [OF f, of _ "[sint u, sint v, sint w]"]) (simp_all add: put32_put)

text \<open>The bytes of a struct after reading.\<close>

fun put_saved :: "saved \<Rightarrow> u8 list \<Rightarrow> u8 list" where
  "put_saved (SavedAnalogue a c) m = put 80 (bytes32 (coefficient c)) (put 38 (bytes32 (a + 38))
     (put_range 48 (recover c) (put_range 40 (outage c) (put_range 72 (measureRange c)
     (put_range 64 (liftAlarm c) (put_range 56 (alarm c) (head_put c m)))))))"
| "put_saved (SavedSwitch a c) m = head_put c m"
| "put_saved (SavedAccumulate c) m = put 44 (bytes32 (shift c)) (put 48 (bytes32 (acc_coefficient c))
     (put 40 (bytes32 (measureMaxVal c)) (head_put c m)))"
| "put_saved (SavedTristate a c) m = (case current c of (i0, i1, i2, _) \<Rightarrow> put 38 (bytes32 (a + 38))
     (put 48 (bytes32 i2) (put 44 (bytes32 i1) (put 40 (bytes32 i0) (head_put c m)))))"

lemma length_dec_constants: "length (dec 12) \<le> 11" "length (dec 22) \<le> 11"
  by (simp_all add: dec_def digits.simps)

lemma load_reads:
  assumes f: "file_ok y f unread written" and c: "saved_ok sv" "saved_class sv \<noteq> Switch"
    and m: "length m = struct_size (saved_class sv)"
  shows "reads unread (load y f (saved_class sv)) (texts sv) m (put_saved sv m)"
proof (cases sv)
  case (SavedAnalogue a c)
  then obtain m1 where "reads unread (get_ints y f [Some 0, Some 4, Some 36, None]) [base_text c 12] m m1"
    and "reads unread (get_location y f) [c_str (location c)] m1 (head_put c m)"
    using reads_head [OF f _ _ length_dec_constants(1), of c m] c m by auto
  then show ?thesis
    unfolding SavedAnalogue load.simps saved_class.simps File_Get_Config_Analogue_def [abs_def] texts.simps put_saved.simps
    using SavedAnalogue m c
    by - (assumption | rule reads_range [OF f] reads_int_float [OF f] | rule reads_bind | simp)+
next
  case (SavedAccumulate c)
  then obtain m1 where "reads unread (get_ints y f [Some 0, Some 4, Some 36, None]) [base_text c 12] m m1"
    and "reads unread (get_location y f) [c_str (location c)] m1 (head_put c m)"
    using reads_head [OF f _ _ length_dec_constants(1), of c m] c m by auto
  then show ?thesis
    unfolding SavedAccumulate load.simps saved_class.simps File_Get_Config_Accumulate_def [abs_def] texts.simps put_saved.simps
    using SavedAccumulate m c
    by - (assumption | rule reads_one [OF f] reads_float [OF f] | rule reads_bind | simp)+
next
  case (SavedTristate a c)
  then obtain m1 where "reads unread (get_ints y f [Some 0, Some 4, Some 36, None]) [base_text c 12] m m1"
    and "reads unread (get_location y f) [c_str (location c)] m1 (head_put c m)"
    using reads_head [OF f _ _ length_dec_constants(1), of c m] c m by auto
  moreover obtain i0 i1 i2 i3 where i: "current c = (i0, i1, i2, i3)" by (cases "current c")
  ultimately show ?thesis
    unfolding SavedTristate load.simps saved_class.simps File_Get_Config_Tristate_def [abs_def] texts.simps put_saved.simps
      i prod.case
    using SavedTristate m c
    by - (assumption | rule reads_three [OF f] reads_one [OF f] | rule reads_bind | simp)+
qed (use c in simp)

lemma load_switch_overruns:
  assumes f: "file_ok y f unread written" and c: "saved_ok (SavedSwitch a c)" and m: "length m = 40"
    and u: "unread fs = lines (texts (SavedSwitch a c)) @ tail"
  shows "File_Get_Config_Switch y f m fs = None"
proof -
  obtain m1 where r: "reads unread (get_ints y f [Some 0, Some 4, Some 36, None]) [base_text c 22] m m1"
      "reads unread (get_location y f) [c_str (location c)] m1 (head_put c m)"
    using reads_head [OF f _ _ length_dec_constants(2), of c m] c m by auto
  have "unread fs = lines [base_text c 22] @ lines (drop 1 (texts (SavedSwitch a c))) @ tail" using u by simp
  then obtain fs1 where 1: "get_ints y f [Some 0, Some 4, Some 36, None] m fs = Some (m1, fs1)"
      "unread fs1 = lines [c_str (location c)] @ lines [dec (sint (a + 38))] @ tail"
    using r(1) unfolding reads_def by fastforce
  then obtain fs2 where 2: "get_location y f m1 fs1 = Some (head_put c m, fs2)"
      "unread fs2 = line (dec (sint (a + 38))) @ tail"
    using r(2) unfolding reads_def by fastforce
  obtain fs3 where "get_string y f fs2 = Some (dec (sint (a + 38)), fs3)"
    using get_string_line [OF f 2(2)] length_dec_i32 [of "a + 38"] dec_no_nul by auto
  moreover have "put32 38 w (head_put c m) = None" for w
    using wr_seq_None [of "head_put c m" 38 "bytes32 w"] m c by (simp add: put32_def bytes32_def)
  moreover have "scan_ints 1 (dec (sint (a + 38))) = [sint (a + 38)]"
    using scan_int_dec [of "[]" "sint (a + 38)"] by simp
  ultimately show ?thesis using 1(1) 2(1) by (simp add: File_Get_Config_Switch_def get_ints_def)
qed

lemma analogue_read_back:
  assumes m: "length m = 84" and c: "place_ok c"
  shows "same_settings (AnalogueC (Analogue_at (put_saved (SavedAnalogue a c) m))) (read_back (SavedAnalogue a c) m)"
proof -
  let ?m = "put_range 48 (recover c) (put_range 40 (outage c) (put_range 72 (measureRange c)
     (put_range 64 (liftAlarm c) (put_range 56 (alarm c) (head_put c m)))))"
  have h: "length ?m = 84" "range_at ?m 40 = outage c" using m c by simp_all
  let ?n = "put_saved (SavedAnalogue a c) m"
  have "get32 ?n 40 = overrun (a + 38) (minval (outage c))" "(?n ! 38, ?n ! 39) = low_bytes (a + 38)"
    using get32_overrun [of 38 ?m "a + 38"] nth_put_low [of 38 ?m "a + 38"] h
    by (simp_all add: nth_put [of 80] range_at_minval(1))
  moreover have "get32 ?n 44 = maxval (outage c)"
    using range_at_minval(2) [of ?m 40] h by simp
  ultimately show ?thesis unfolding read_back.simps using m c
    by (intro analogue_same) (simp_all add: slice_put_other)
qed


lemma accumulate_read_back:
  assumes "length m = 52" and "place_ok c"
  shows "same_settings (AccumulateC (Accumulate_at (put_saved (SavedAccumulate c) m))) (read_back (SavedAccumulate c) m)"
  using assms by (cases c) (simp add: same_settings_def Accumulate_at_def slice_put_other)

lemma tristate_read_back:
  assumes m: "length m = 56" and c: "place_ok c"
  shows "same_settings (TristateC (Tristate_at (put_saved (SavedTristate a c) m))) (read_back (SavedTristate a c) m)"
proof -
  obtain i0 i1 i2 i3 where i: "current c = (i0, i1, i2, i3)" by (cases "current c")
  let ?m = "put 48 (bytes32 i2) (put 44 (bytes32 i1) (put 40 (bytes32 i0) (head_put c m)))"
  let ?n = "put 38 (bytes32 (a + 38)) ?m"
  have "get32 ?n 40 = overrun (a + 38) i0" "(?n ! 38, ?n ! 39) = low_bytes (a + 38)"
    using get32_overrun [of 38 ?m "a + 38"] nth_put_low [of 38 ?m "a + 38"] m c by simp_all
  moreover have "get32 ?n 0 = testpointNo c" "get16 ?n 4 = sensorName c" "get16 ?n 36 = portType c"
      "c_str (take 30 (drop 6 ?n)) = c_str (location c)" "get32 ?n 44 = i1" "get32 ?n 48 = i2"
      "get32 ?n 52 = get32 m 52"
    using m c by (simp_all add: slice_put_other)
  ultimately show ?thesis
    unfolding put_saved.simps read_back.simps i prod.case using i
    by (cases c) (simp add: same_settings_def Tristate_at_def)
qed

lemma length_put_saved: "saved_ok sv \<Longrightarrow> length m = struct_size (saved_class sv) \<Longrightarrow> length (put_saved sv m) = length m"
  by (cases sv) (simp_all split: prod.splits)

lemma load_read_back:
  assumes f: "file_ok y f unread written" and c: "saved_ok sv" "saved_class sv \<noteq> Switch"
    and m: "length m = struct_size (saved_class sv)" and u: "unread fs = lines (texts sv) @ tail"
  shows "\<exists>m' fs'. load y f (saved_class sv) m fs = Some (m', fs') \<and> unread fs' = tail
     \<and> length m' = length m \<and> same_settings (config_at (saved_class sv) m') (read_back sv m)"
proof -
  obtain fs' where "load y f (saved_class sv) m fs = Some (put_saved sv m, fs')" "unread fs' = tail"
    using load_reads [OF f c m] u unfolding reads_def by blast
  moreover have "same_settings (config_at (saved_class sv) (put_saved sv m)) (read_back sv m)"
    using c m analogue_read_back accumulate_read_back tristate_read_back
    by (cases sv) (simp_all del: put_saved.simps read_back.simps)
  ultimately show ?thesis using length_put_saved [OF c(1) m] by blast
qed

text \<open>C11: saving a configuration writes whole lines, and reading the lines after the first into a
  struct of its class gives back the same settings, but for what the address of
  \<open>outputControl\<close>, which is what is stored of it, overwrites when it is read back as four bytes:
  the low half of the cut-off limit (\<open>outage.minval\<close>) of an analogue point and of the first current
  of a tristate one. The struct of a switch ends with \<open>outputControl\<close>, so reading it back writes
  behind the struct.
\<close>

theorem config_read_back:
  assumes f: "file_ok y f unread written" and c: "saved_ok sv" and m: "length m = struct_size (saved_class sv)"
  shows "\<exists>fs1 block. save y f sv fs = Some fs1 \<and> written fs1 = written fs @ block
     \<and> (\<forall>fs2 tail. unread fs2 = drop 64 block @ tail \<longrightarrow>
         (if saved_class sv = Switch then load y f Switch m fs2 = None
          else \<exists>m' fs3. load y f (saved_class sv) m fs2 = Some (m', fs3) \<and> unread fs3 = tail
             \<and> same_settings (config_at (saved_class sv) m') (read_back sv m)))"
proof -
  let ?block = "lines (type_line sv # texts sv)"
  have "drop 64 ?block = lines (texts sv)"
    using short_texts [OF c, of "type_line sv"] by simp
  moreover have "load y f Switch m fs2 = None"
    if "saved_class sv = Switch" "unread fs2 = lines (texts sv) @ tail" for fs2 tail
    using that load_switch_overruns [OF f, of _ _ m fs2 tail] c m by (cases sv) (auto simp del: texts.simps)
  moreover have "\<exists>m' fs3. load y f (saved_class sv) m fs2 = Some (m', fs3) \<and> unread fs3 = tail
      \<and> same_settings (config_at (saved_class sv) m') (read_back sv m)"
    if "saved_class sv \<noteq> Switch" "unread fs2 = lines (texts sv) @ tail" for fs2 tail
    using load_read_back [OF f c that(1) m that(2)] by blast
  ultimately show ?thesis using save_ok [OF f c, of fs] by auto
qed

text \<open>A file system of one file, as the bytes to be read and the bytes written.\<close>

definition ex_yaffs :: "(u8 list \<times> u8 list) yaffs" where
  "ex_yaffs = \<lparr>yaffs_open = (\<lambda>_ _ fs. (0, fs)), yaffs_close = (\<lambda>_ fs. fs),
     yaffs_read = (\<lambda>_ n (u, w). (int (length (take n u)), take n u, drop n u, w)),
     yaffs_write = (\<lambda>_ buf (u, w). (u, w @ buf))\<rparr>"

lemma ex_yaffs_ok: "file_ok ex_yaffs f fst snd"
  by (simp add: file_ok_def ex_yaffs_def split: prod.splits)

definition ex_tristate :: Tristate_Config where
  "ex_tristate = \<lparr>testpointNo = 40004, sensorName = 7, location = 0x41 # 0x31 # replicate 28 0,
     portType = 36, outputControl = (0x08, 0xFF), current = (0, 1, 5, 9)\<rparr>"

theorem config_read_back_witness:
  "\<exists>fs1 block. save ex_yaffs 0 (SavedTristate 0x10000100 ex_tristate) ([], []) = Some fs1 \<and> snd fs1 = block
     \<and> (\<exists>m' fs3. load ex_yaffs 0 Tristate (replicate 56 0) (drop 64 block, []) = Some (m', fs3) \<and> fst fs3 = []
           \<and> same_settings (TristateC (Tristate_at m')) (read_back (SavedTristate 0x10000100 ex_tristate) (replicate 56 0)))"
proof -
  have ok: "saved_ok (SavedTristate 0x10000100 ex_tristate)" by (simp add: place_ok_def ex_tristate_def c_str_def)
  obtain fs1 block where 1: "save ex_yaffs 0 (SavedTristate 0x10000100 ex_tristate) ([], []) = Some fs1" "snd fs1 = block"
    and 2: "\<And>fs2 tail. fst fs2 = drop 64 block @ tail \<Longrightarrow>
      \<exists>m' fs3. load ex_yaffs 0 Tristate (replicate 56 0) fs2 = Some (m', fs3) \<and> fst fs3 = tail
        \<and> same_settings (TristateC (Tristate_at m')) (read_back (SavedTristate 0x10000100 ex_tristate) (replicate 56 0))"
    using config_read_back [OF ex_yaffs_ok ok, of "replicate 56 0" 0 "([], [])"]
    by (auto simp del: load.simps save.simps read_back.simps)
  show ?thesis using 1 2 [of "(drop 64 block, [])" "[]"] by auto
qed

end
