(* ===== verification/Config_Boot.thy ===== *)
theory Config_Boot
  imports Config_Roundtrip
begin

text \<open>
  \<open>Read_ConfigFile\<close> of \<open>Task/EquipmentList.c\<close>: at start-up the list of measuring points is built
  from the configuration file. \<open>malloc\<close> and the contents of fresh memory are parameters. The
  local variables that are not initialised (line buffer, sensor type, one struct of each class)
  start with arbitrary values.
\<close>

section \<open>The loop\<close>

record memory =
  malloc_point :: "heap \<Rightarrow> addr option"
  raw_point :: "addr \<Rightarrow> Testpoint"
  malloc_config :: "heap \<Rightarrow> Sensor_Class \<Rightarrow> Config option"

record 'fs boot =
  files :: 'fs
  points :: heap
  kernel :: OS
  linebuf :: "u8 list"
  sensor_type :: u32
  confs :: "Sensor_Class \<Rightarrow> u8 list"

text \<open>\<open>sscanf(buf, "Type: %d", &sensor_type)\<close>.\<close>

definition scan_type :: "u8 list \<Rightarrow> u32 \<Rightarrow> u32" where
  "scan_type s old =
     (if take 5 s = take 5 type_text
      then case scan_int (drop 5 s) of None \<Rightarrow> old | Some (v, _) \<Rightarrow> word_of_int v
      else old)"

definition case_class :: "u32 \<Rightarrow> Sensor_Class option" where
  "case_class t =
     (if t = ucast SENSOR_ANALOGUE then Some Analogue
      else if t = ucast SENSOR_SWITCH then Some Switch
      else if t = ucast SENSOR_ACCUMULATE then Some Accumulate
      else if t = ucast SENSOR_TRISTATE then Some Tristate
      else None)"

text \<open>The three statements all four cases end with.\<close>

definition link_point :: "memory \<Rightarrow> addr \<Rightarrow> addr option \<Rightarrow> u16 \<Rightarrow> Config \<Rightarrow> heap \<Rightarrow> OS \<Rightarrow> (heap \<times> OS) option" where
  "link_point al head p sensor c h os = do {
     a \<leftarrow> p;
     tp0 \<leftarrow> h a;
     (tp, os) \<leftarrow> initTestpoint (malloc_config al h) tp0 sensor (Some c) os;
     h \<leftarrow> AddEquipment head a (h(a \<mapsto> tp));
     tph \<leftarrow> h head;
     Some (h(head \<mapsto> tph\<lparr>EquipmentType := EquipmentType tph + 1\<rparr>), os) }"

text \<open>The loop body after a successful read; \<open>free(NULL)\<close> has no effect.\<close>

definition read_record :: "'fs yaffs \<Rightarrow> memory \<Rightarrow> addr \<Rightarrow> int \<Rightarrow> 'fs boot \<Rightarrow> 'fs boot option" where
  "read_record y al head f s = do {
     let p = malloc_point al (points s);
     let h = (case p of None \<Rightarrow> points s | Some a \<Rightarrow> (points s)(a \<mapsto> raw_point al a));
     t \<leftarrow> (if 0 \<in> set (linebuf s) then Some (scan_type (c_str (linebuf s)) (sensor_type s)) else None);
     let s = s\<lparr>sensor_type := t\<rparr>;
     (case case_class t of
        Some cls \<Rightarrow> do {
          (m, fs) \<leftarrow> load y f cls (confs s cls) (files s);
          (h, os) \<leftarrow> link_point al head p (ucast t) (config_at cls m) h (kernel s);
          Some (s\<lparr>files := fs, confs := (confs s)(cls := m), points := h, kernel := os\<rparr>) }
      | None \<Rightarrow> Some (s\<lparr>points := (case p of None \<Rightarrow> h | Some a \<Rightarrow> h(a := None))\<rparr>)) }"

partial_function (option) read_loop :: "'fs yaffs \<Rightarrow> memory \<Rightarrow> addr \<Rightarrow> int \<Rightarrow> 'fs boot \<Rightarrow> 'fs boot option" where
  "read_loop y al head f s =
     (case yaffs_read y f 64 (files s) of
        (n, data, fs) \<Rightarrow>
          if n = 0 then Some (s\<lparr>files := fs\<rparr>)
          else do {
            buf \<leftarrow> wr_seq (linebuf s) 0 data;
            s \<leftarrow> read_record y al head f (s\<lparr>files := fs, linebuf := buf\<rparr>);
            read_loop y al head f s })"

definition config_path :: string where "config_path = ''/nand/config/TestpointConfig''"

definition Read_ConfigFile :: "'fs yaffs \<Rightarrow> memory \<Rightarrow> addr \<Rightarrow> 'fs boot \<Rightarrow> 'fs boot option" where
  "Read_ConfigFile y al head s =
     (case yaffs_open y config_path [O_RDONLY] (files s) of
        (f, fs) \<Rightarrow>
          if f \<ge> 0 then do {
            s \<leftarrow> read_loop y al head f (s\<lparr>files := fs\<rparr>);
            Some (s\<lparr>files := yaffs_close y f (files s)\<rparr>) }
          else Some (s\<lparr>files := fs\<rparr>))"

section \<open>What the code relies on\<close>

text \<open>
  Allocation succeeds while fewer than \<open>N\<close> nodes exist: it returns a node that is not in use,
  with an array for the time, and a struct of the class asked for with its place name array.
\<close>

definition memory_ok :: "memory \<Rightarrow> nat \<Rightarrow> bool" where
  "memory_ok al N \<longleftrightarrow>
     (\<forall>h. finite (dom h) \<and> card (dom h) < N \<longrightarrow>
        (\<exists>a. malloc_point al h = Some a \<and> h a = None \<and> collectTime (upload (raw_point al a)) \<noteq> []))
     \<and> (\<forall>h cls. \<exists>d. malloc_config al h cls = Some d \<and> class_of d = Some cls \<and> length (cfg_location d) = 30)"

text \<open>The free event control blocks of the kernel, in the order they are taken.\<close>

fun free_events :: "OS_EVENT list \<Rightarrow> nat option \<Rightarrow> nat list \<Rightarrow> bool" where
  "free_events evs p [] \<longleftrightarrow> p = None"
| "free_events evs p (e # es) \<longleftrightarrow> p = Some e \<and> e < length evs
     \<and> free_events evs (case OSEventPtr (evs ! e) of FreeEvent n \<Rightarrow> Some n | _ \<Rightarrow> None) es"

definition events_ok :: "OS \<Rightarrow> bool" where
  "events_ok os \<longleftrightarrow> (\<exists>es. free_events (OSEvents os) (OSEventFreeList os) es \<and> distinct es)"

lemma free_events_upd [simp]: "e \<notin> set es \<Longrightarrow> free_events (evs[e := x]) p es = free_events evs p es"
  by (induction es arbitrary: p) (auto cong: option.case_cong)

lemma OSSemCreate_ok:
  assumes "events_ok os"
  shows "\<exists>sem os'. OSSemCreate cnt os = Some (sem, os') \<and> events_ok os'"
proof -
  obtain es where es: "free_events (OSEvents os) (OSEventFreeList os) es" "distinct es"
    using assms by (auto simp: events_ok_def)
  show ?thesis
  proof (cases es)
    case Nil
    then show ?thesis using es assms by (simp add: OSSemCreate_def)
  next
    case (Cons e es')
    then have "OSEventFreeList os = Some e" "e < length (OSEvents os)" using es by simp_all
    then show ?thesis using es Cons assms
      by (auto simp: OSSemCreate_def events_ok_def rd_in simp del: rd_eq_Some intro!: exI [of _ es'])
  qed
qed

section \<open>One record\<close>

definition built_at :: "heap \<Rightarrow> addr \<Rightarrow> saved \<Rightarrow> bool" where
  "built_at h a sv \<longleftrightarrow> (\<exists>tp e m. h a = Some tp \<and> points_to (saved_class sv) tp \<and> config tp = Some e
     \<and> length m = struct_size (saved_class sv) \<and> same_settings e (read_back sv m))"

lemma built_at_cong:
  assumes "map_option (\<lambda>tp. tp\<lparr>link := None\<rparr>) (h a) = map_option (\<lambda>tp. tp\<lparr>link := None\<rparr>) (h' a)"
    and "built_at h a sv"
  shows "built_at h' a sv"
proof -
  obtain tp e m where 1: "h a = Some tp" "points_to (saved_class sv) tp" "config tp = Some e"
      "length m = struct_size (saved_class sv)" "same_settings e (read_back sv m)"
    using assms(2) by (auto simp: built_at_def)
  then obtain tp' where 2: "h' a = Some tp'" "tp\<lparr>link := None\<rparr> = tp'\<lparr>link := None\<rparr>"
    using assms(1) by (cases "h' a") auto
  have "points_to c tp = points_to c (tp\<lparr>link := None\<rparr>)" "config tp = config (tp\<lparr>link := None\<rparr>)" for c tp
    by (simp_all add: points_to_def)
  then show ?thesis using 1 2 unfolding built_at_def by metis
qed

lemma case_class_code [simp]: "case_class (ucast (class_code cls)) = Some cls"
  by (cases cls) (simp_all add: case_class_def sensor_type_defs)

lemma scan_type_line: "scan_type (type_line sv) old = ucast (class_code (saved_class sv))"
proof -
  have "scan_int (32 # dec v) = Some (v, [])" for v
    using scan_int_dec [of "[]" v] by (simp add: scan_int_space)
  then show ?thesis by (simp add: scan_type_def type_line_def type_text_def)
qed

lemma type_line_string: "length (type_line sv) < 63" "0 \<notin> set (type_line sv)"
  using length_dec_u16(1) [of "class_code (saved_class sv)"]
  by (simp_all add: type_line_def type_text_def dec_no_nul)

lemma config_at_simps:
  "class_of (config_at cls m) = Some cls" "36 \<le> length m \<Longrightarrow> length (cfg_location (config_at cls m)) = 30"
  by (cases cls; simp add: Analogue_at_def Switch_at_def Accumulate_at_def Tristate_at_def)+

lemma read_back_place: "saved_ok sv \<Longrightarrow> length (c_str (cfg_location (read_back sv m))) < 30"
  by (cases sv) (simp_all add: place_ok_def)

lemma same_settings_trans: "same_settings a b \<Longrightarrow> same_settings b c \<Longrightarrow> same_settings a c"
  by (simp add: same_settings_def)

lemma read_back_fits:
  assumes "same_settings (config_at cls m') (read_back sv m)" and "saved_ok sv" and "36 \<le> length m'"
  shows "fits_string 30 (cfg_location (config_at cls m'))"
proof -
  have "length (c_str (cfg_location (config_at cls m'))) < 30"
    using assms(1) read_back_place [OF assms(2)] by (simp add: same_settings_def)
  moreover have "0 \<in> set xs" if "length (c_str xs) < length xs" for xs
  proof (rule ccontr)
    assume "0 \<notin> set xs"
    then have "c_str xs = xs" unfolding c_str_def by (auto simp: takeWhile_eq_all_conv)
    then show False using that by simp
  qed
  ultimately show ?thesis using config_at_simps(2) [OF assms(3), of cls] by (simp add: fits_string_def)
qed

lemma link_point_ok:
  assumes al: "memory_ok al N" and l: "list_at h head as" and a: "h a = None" "a \<noteq> head" "a \<notin> set as"
    and raw: "collectTime (upload raw) \<noteq> []" and os: "events_ok os" and c: "class_of c = Some cls" "fits_string 30 (cfg_location c)"
  shows "\<exists>h' os' tp e. link_point al head (Some a) (class_code cls) c (h(a \<mapsto> raw)) os = Some (h', os')
     \<and> list_at h' head (a # as) \<and> h' a = Some tp \<and> points_to cls tp \<and> config tp = Some e \<and> same_settings e c
     \<and> (\<forall>b. b \<noteq> a \<and> b \<noteq> head \<longrightarrow> map_option (\<lambda>tp. tp\<lparr>link := None\<rparr>) (h b) = map_option (\<lambda>tp. tp\<lparr>link := None\<rparr>) (h' b))
     \<and> map_option EquipmentType (h' head) = map_option (\<lambda>tp. EquipmentType tp + 1) (h head)
     \<and> dom h' = insert a (dom h) \<and> events_ok os'"
proof -
  let ?h = "h(a \<mapsto> raw)"
  obtain sem os' where os': "OSSemCreate 1 os = Some (sem, os')" "events_ok os'" using OSSemCreate_ok [OF os] by blast
  obtain d where d: "malloc_config al ?h cls = Some d" "class_of d = Some cls" "length (cfg_location d) = 30"
    using al unfolding memory_ok_def by blast
  obtain tp e where tp: "initTestpoint (malloc_config al ?h) raw (class_code cls) (Some c) os = Some (tp, os')"
      "points_to cls tp" "config tp = Some e" "same_settings e c"
    using initTestpoint_ok [OF os'(1) c(1) refl, of "malloc_config al ?h" d raw] d c(2) raw by auto
  have "list_at (?h(a \<mapsto> tp)) head as" using l a(2,3) by (simp add: list_at_def)
  then obtain h1 where h1: "AddEquipment head a (?h(a \<mapsto> tp)) = Some h1" "list_at h1 head (a # as)"
      "same_data (?h(a \<mapsto> tp)) h1 UNIV"
    using AddEquipment_ok [of "?h(a \<mapsto> tp)" head as a tp] a by auto
  obtain tph where tph: "h1 head = Some tph" using h1(2) by (auto simp: list_at_def)
  let ?h' = "h1(head \<mapsto> tph\<lparr>EquipmentType := EquipmentType tph + 1\<rparr>)"
  have same: "map_option (\<lambda>tp. tp\<lparr>link := None\<rparr>) ((?h(a \<mapsto> tp)) b) = map_option (\<lambda>tp. tp\<lparr>link := None\<rparr>) (h1 b)" for b
    using h1(3) by (simp add: same_data_def)
  have link: "chain ?h' p xs = chain h1 p xs" for p xs using tph by (intro chain_cong) auto
  have frame: "map_option (\<lambda>tp. tp\<lparr>link := None\<rparr>) (h b) = map_option (\<lambda>tp. tp\<lparr>link := None\<rparr>) (?h' b)"
    if "b \<noteq> a" "b \<noteq> head" for b
    using same [of b] that by simp
  obtain tp' where tp': "h1 a = Some tp'" "tp\<lparr>link := None\<rparr> = tp'\<lparr>link := None\<rparr>"
    using same [of a] by (cases "h1 a") auto
  have "points_to c tp = points_to c (tp\<lparr>link := None\<rparr>)" "config tp = config (tp\<lparr>link := None\<rparr>)" for c tp
    by (simp_all add: points_to_def)
  then have "points_to cls tp'" "config tp' = Some e" using tp(2,3) tp'(2) by metis+
  moreover obtain th where th: "h head = Some th" "th\<lparr>link := None\<rparr> = tph\<lparr>link := None\<rparr>"
    using same [of head] tph a(2) by (cases "h head") auto
  have "EquipmentType tp = EquipmentType (tp\<lparr>link := None\<rparr>)" for tp by simp
  then have "EquipmentType tph = EquipmentType th" using th(2) by metis
  moreover have "dom h1 = insert a (dom h)"
  proof -
    have "(h1 b = None) = ((?h(a \<mapsto> tp)) b = None)" for b using same [of b] by (metis option.map_disc_iff)
    then show ?thesis using a(1) by (auto simp: dom_def)
  qed
  then have "dom ?h' = insert a (dom h)" using th(1) by auto
  moreover have "link_point al head (Some a) (class_code cls) c ?h os = Some (?h', os')"
    using tp(1) h1(1) tph by (simp add: link_point_def)
  moreover have "list_at ?h' head (a # as)" using h1(2) unfolding list_at_def link .
  ultimately show ?thesis using tp(4) tp'(1) th(1) frame os'(2) a(2)
    by (intro exI [of _ ?h'] exI [of _ os'] exI [of _ tp'] exI [of _ e]) simp
qed

section \<open>The whole file\<close>

definition file_text :: "saved list \<Rightarrow> u8 list" where
  "file_text svs = concat (map (\<lambda>sv. lines (type_line sv # texts sv)) svs)"

text \<open>The state before the next record: \<open>don\<close> has been read and is in the list, the last first.\<close>

definition boot_ok :: "('fs \<Rightarrow> u8 list) \<Rightarrow> addr \<Rightarrow> 'fs boot \<Rightarrow> addr list \<Rightarrow> saved list \<Rightarrow> saved list \<Rightarrow> bool" where
  "boot_ok unread head s as don svs \<longleftrightarrow>
     list_at (points s) head as \<and> list_all2 (built_at (points s)) as (rev don) \<and> events_ok (kernel s)
     \<and> (\<forall>cls. length (confs s cls) = struct_size cls) \<and> length (linebuf s) = 64
     \<and> finite (dom (points s)) \<and> unread (files s) = file_text svs"

lemma read_type_line:
  assumes f: "file_ok y f unread written" and s: "boot_ok unread head s as don (sv # svs)"
  shows "\<exists>fs. read_loop y al head f s = Option.bind (read_record y al head f (s\<lparr>files := fs, linebuf := line (type_line sv)\<rparr>))
       (read_loop y al head f)
     \<and> unread fs = lines (texts sv) @ file_text svs"
proof -
  obtain n data fs where r: "yaffs_read y f 64 (files s) = (n, data, fs)" by (meson prod_cases3)
  have u: "unread (files s) = line (type_line sv) @ lines (texts sv) @ file_text svs"
    using s by (simp add: boot_ok_def file_text_def)
  have l: "length (line (type_line sv)) = 64" using type_line_string(1) [of sv] by simp
  have "data = line (type_line sv)" "n \<noteq> 0" "unread fs = lines (texts sv) @ file_text svs"
    using file_readD [OF f r] u l by simp_all
  moreover have "wr_seq (linebuf s) 0 (line (type_line sv)) = Some (line (type_line sv))"
    using s l by (simp add: boot_ok_def wr_seq_eq)
  ultimately show ?thesis using r by (intro exI [of _ fs]) (subst read_loop.simps, simp)
qed

lemma read_record_ok:
  assumes f: "file_ok y f unread written" and al: "memory_ok al N" and s: "boot_ok unread head s as don (sv # svs)"
    and sv: "saved_ok sv" "saved_class sv \<noteq> Switch" and n: "card (dom (points s)) < N"
    and fs: "unread fs = lines (texts sv) @ file_text svs"
  shows "\<exists>s' a. read_record y al head f (s\<lparr>files := fs, linebuf := line (type_line sv)\<rparr>) = Some s'
     \<and> boot_ok unread head s' (a # as) (don @ [sv]) svs \<and> card (dom (points s')) = Suc (card (dom (points s)))
     \<and> map_option EquipmentType (points s' head) = map_option (\<lambda>tp. EquipmentType tp + 1) (points s head)"
proof -
  let ?cls = "saved_class sv" and ?h = "points s"
  have b: "list_at ?h head as" "list_all2 (built_at ?h) as (rev don)" "events_ok (kernel s)"
      "length (confs s ?cls) = struct_size ?cls" "finite (dom ?h)"
    using s by (simp_all add: boot_ok_def)
  obtain a where a: "malloc_point al ?h = Some a" "?h a = None" "collectTime (upload (raw_point al a)) \<noteq> []"
    using al b(5) n unfolding memory_ok_def by blast
  have mem: "x \<in> set (head # as) \<Longrightarrow> \<exists>tp. ?h x = Some tp" for x
    using b(1) chain_mem [of ?h "Some head" "head # as" x] by (simp only: list_at_def)
  have na: "a \<noteq> head" "a \<notin> set as" using mem [of a] a(2) by auto
  obtain m fs' where m: "load y f ?cls (confs s ?cls) fs = Some (m, fs')" "unread fs' = file_text svs"
      "length m = length (confs s ?cls)" "same_settings (config_at ?cls m) (read_back sv (confs s ?cls))"
    using load_read_back [OF f sv b(4) fs] by blast
  have "36 \<le> length m" using m(3) b(4) by (cases ?cls) simp_all
  then have fit: "fits_string 30 (cfg_location (config_at ?cls m))" using read_back_fits [OF m(4) sv(1)] by simp
  obtain h' os' tp e where 1: "link_point al head (Some a) (class_code ?cls) (config_at ?cls m) (?h(a \<mapsto> raw_point al a)) (kernel s) = Some (h', os')"
      "list_at h' head (a # as)" "h' a = Some tp" "points_to ?cls tp" "config tp = Some e" "same_settings e (config_at ?cls m)"
      "\<forall>b. b \<noteq> a \<and> b \<noteq> head \<longrightarrow> map_option (\<lambda>tp. tp\<lparr>link := None\<rparr>) (?h b) = map_option (\<lambda>tp. tp\<lparr>link := None\<rparr>) (h' b)"
      "map_option EquipmentType (h' head) = map_option (\<lambda>tp. EquipmentType tp + 1) (?h head)"
      "dom h' = insert a (dom ?h)" "events_ok os'"
    using link_point_ok [OF al b(1) a(2) na a(3) b(3) config_at_simps(1) fit] by blast
  let ?s = "s\<lparr>files := fs', linebuf := line (type_line sv), sensor_type := ucast (class_code ?cls),
      confs := (confs s)(?cls := m), points := h', kernel := os'\<rparr>"
  have code: "ucast (ucast (class_code ?cls) :: u32) = class_code ?cls" by (cases ?cls) (simp_all add: sensor_type_defs)
  have "read_record y al head f (s\<lparr>files := fs, linebuf := line (type_line sv)\<rparr>) = Some ?s"
    using a(1) m(1) 1(1) line_string [OF type_line_string, of sv] code
    by (simp add: read_record_def scan_type_line Let_def)
  moreover have "built_at h' a sv"
    using 1(3-6) m(4) b(4) same_settings_trans unfolding built_at_def by blast
  moreover have "list_all2 (built_at h') as (rev don)"
  proof (rule list.rel_mono_strong [OF b(2)])
    fix x v assume x: "x \<in> set as" "built_at ?h x v"
    then have "x \<noteq> a" "x \<noteq> head" using b(1) na(2) by (auto simp: list_at_def)
    then show "built_at h' x v" using 1(7) x(2) by (intro built_at_cong [of ?h x h' v]) blast+
  qed
  ultimately show ?thesis
    using 1(2,8-10) m(2,3) b(5) a(2) s type_line_string(1) [of sv]
    by (intro exI [of _ ?s] exI [of _ a]) (simp add: boot_ok_def domIff)
qed

lemma read_loop_builds:
  assumes f: "file_ok y f unread written" and al: "memory_ok al N"
  shows "boot_ok unread head s as don svs \<Longrightarrow> card (dom (points s)) + length svs \<le> N \<Longrightarrow>
     \<forall>sv \<in> set svs. saved_ok sv \<and> saved_class sv \<noteq> Switch \<Longrightarrow>
     \<exists>s' as'. read_loop y al head f s = Some s' \<and> boot_ok unread head s' as' (don @ svs) []
       \<and> map_option EquipmentType (points s' head)
         = map_option (\<lambda>tp. EquipmentType tp + word_of_nat (length svs)) (points s head)"
proof (induction svs arbitrary: s as don)
  case Nil
  obtain n data fs where r: "yaffs_read y f 64 (files s) = (n, data, fs)" by (meson prod_cases3)
  have u: "unread (files s) = []" using Nil by (simp add: boot_ok_def file_text_def)
  have "data = []" using file_readD(2) [OF f r] u by simp
  then have "n = 0" "unread fs = []" using file_readD(1,3) [OF f r] u by simp_all
  then have "read_loop y al head f s = Some (s\<lparr>files := fs\<rparr>)" using r by (subst read_loop.simps) simp
  moreover have "boot_ok unread head (s\<lparr>files := fs\<rparr>) as don []"
    using Nil(1) \<open>unread fs = []\<close> by (simp add: boot_ok_def file_text_def)
  ultimately show ?case by (auto simp: option.map_ident)
next
  case (Cons sv svs)
  obtain fs where 1: "read_loop y al head f s
      = Option.bind (read_record y al head f (s\<lparr>files := fs, linebuf := line (type_line sv)\<rparr>)) (read_loop y al head f)"
      "unread fs = lines (texts sv) @ file_text svs"
    using read_type_line [OF f Cons.prems(1)] by blast
  obtain s1 a where 2: "read_record y al head f (s\<lparr>files := fs, linebuf := line (type_line sv)\<rparr>) = Some s1"
      "boot_ok unread head s1 (a # as) (don @ [sv]) svs" "card (dom (points s1)) = Suc (card (dom (points s)))"
      "map_option EquipmentType (points s1 head) = map_option (\<lambda>tp. EquipmentType tp + 1) (points s head)"
    using read_record_ok [OF f al Cons.prems(1) _ _ _ 1(2)] Cons.prems(2,3) by auto
  obtain s' as' where 3: "read_loop y al head f s1 = Some s'" "boot_ok unread head s' as' ((don @ [sv]) @ svs) []"
      "map_option EquipmentType (points s' head)
         = map_option (\<lambda>tp. EquipmentType tp + word_of_nat (length svs)) (points s1 head)"
    using Cons.IH [OF 2(2)] 2(3) Cons.prems(2,3) by auto
  obtain th where th: "points s head = Some th" using Cons.prems(1) by (auto simp: boot_ok_def list_at_def)
  obtain th1 where th1: "points s1 head = Some th1" using 2(2) by (auto simp: boot_ok_def list_at_def)
  show ?case using 1(1) 2(1,4) 3 th th1 by (auto simp: ac_simps)
qed

lemma read_loop_switch:
  assumes f: "file_ok y f unread written" and al: "memory_ok al N" and sw: "saved_ok (SavedSwitch a c)"
  shows "boot_ok unread head s as don (svs @ SavedSwitch a c # rest) \<Longrightarrow> card (dom (points s)) + length svs \<le> N \<Longrightarrow>
     \<forall>sv \<in> set svs. saved_ok sv \<and> saved_class sv \<noteq> Switch \<Longrightarrow> read_loop y al head f s = None"
proof (induction svs arbitrary: s as don)
  case Nil
  obtain fs where 1: "read_loop y al head f s
      = Option.bind (read_record y al head f (s\<lparr>files := fs, linebuf := line (type_line (SavedSwitch a c))\<rparr>)) (read_loop y al head f)"
      "unread fs = lines (texts (SavedSwitch a c)) @ file_text rest"
    using read_type_line [OF f, of head s as don "SavedSwitch a c" rest] Nil(1) by auto
  have "length (confs s Switch) = 40" using Nil(1) by (simp add: boot_ok_def)
  then have "load y f Switch (confs s Switch) fs = None"
    using load_switch_overruns [OF f sw _ 1(2)] by simp
  moreover have "case_class (ucast (class_code Switch)) = Some Switch" by (rule case_class_code)
  ultimately show ?case using 1(1) line_string [OF type_line_string, of "SavedSwitch a c"]
    by (simp add: read_record_def scan_type_line Let_def del: class_code.simps load.simps)
next
  case (Cons sv svs)
  obtain fs where 1: "read_loop y al head f s
      = Option.bind (read_record y al head f (s\<lparr>files := fs, linebuf := line (type_line sv)\<rparr>)) (read_loop y al head f)"
      "unread fs = lines (texts sv) @ file_text (svs @ SavedSwitch a c # rest)"
    using read_type_line [OF f, of head s as don sv "svs @ SavedSwitch a c # rest"] Cons.prems(1) by auto
  obtain s1 b where 2: "read_record y al head f (s\<lparr>files := fs, linebuf := line (type_line sv)\<rparr>) = Some s1"
      "boot_ok unread head s1 (b # as) (don @ [sv]) (svs @ SavedSwitch a c # rest)"
      "card (dom (points s1)) = Suc (card (dom (points s)))"
    using read_record_ok [OF f al _ _ _ _ 1(2), of head s as don] Cons.prems by auto
  show ?case using 1(1) 2(1) Cons.IH [OF 2(2)] 2(3) Cons.prems(2,3) by simp
qed

section \<open>Properties\<close>

lemma run_save:
  assumes f: "file_ok y f unread written"
  shows "\<forall>sv \<in> set svs. saved_ok sv \<Longrightarrow>
     \<exists>fs'. run (save y f) svs fs = Some fs' \<and> written fs' = written fs @ file_text svs"
proof (induction svs arbitrary: fs)
  case Nil
  then show ?case by (simp add: file_text_def)
next
  case (Cons sv svs)
  then obtain fs1 where "save y f sv fs = Some fs1" "written fs1 = written fs @ lines (type_line sv # texts sv)"
    using save_ok [OF f, of sv fs] by auto
  then show ?case using Cons by (fastforce simp: file_text_def)
qed

text \<open>The state in which the file is read: an empty list behind its head, the locals of their sizes.\<close>

definition boot_start :: "memory \<Rightarrow> nat \<Rightarrow> addr \<Rightarrow> 'fs boot \<Rightarrow> bool" where
  "boot_start al n head s \<longleftrightarrow>
     memory_ok al (card (dom (points s)) + n) \<and> list_at (points s) head [] \<and> finite (dom (points s))
     \<and> events_ok (kernel s) \<and> (\<forall>cls. length (confs s cls) = struct_size cls) \<and> length (linebuf s) = 64"

lemma boot_start_ok:
  "boot_start al n head s \<Longrightarrow> unread fs = file_text svs \<Longrightarrow> boot_ok unread head (s\<lparr>files := fs\<rparr>) [] [] svs"
  by (simp add: boot_start_def boot_ok_def)

lemma switch_split:
  assumes "\<not> (\<forall>sv \<in> set svs. saved_class sv \<noteq> Switch)"
  obtains pre a c rest where "svs = pre @ SavedSwitch a c # rest" and "\<forall>sv \<in> set pre. saved_class sv \<noteq> Switch"
proof -
  obtain pre sv rest where "svs = pre @ sv # rest" "saved_class sv = Switch" "\<forall>sv \<in> set pre. saved_class sv \<noteq> Switch"
    using split_list_first_prop [of svs "\<lambda>sv. saved_class sv = Switch"] assms by blast
  moreover from this(2) obtain a c where "sv = SavedSwitch a c" by (cases sv) auto
  ultimately show thesis using that by blast
qed

text \<open>C12: what reading the configuration file at start-up does with points that were saved one after the
  other. If none of them is a switch, it ends and builds the list of measuring points in the reverse order:
  every node has the functions of its class and a private copy of its settings as \<open>config_read_back\<close> describes
  them, that is with the bytes that the address written instead of the output control has overwritten, and the
  count in the head grows by the number of points. If one is a switch, as in the default file of the
  firmware, reading its record writes outside its struct, which is undefined.\<close>

theorem Read_ConfigFile_builds:
  assumes f: "file_ok y f unread written" and f0: "file_ok y f0 unread written"
    and sv: "\<forall>sv \<in> set svs. saved_ok sv"
    and saved: "run (save y f0) svs fs0 = Some fs1" "written fs0 = []"
    and opened: "yaffs_open y config_path [O_RDONLY] (files s) = (f, fs)" "0 \<le> f" "unread fs = written fs1"
    and start: "boot_start al (length svs) head s"
  shows "if \<forall>sv \<in> set svs. saved_class sv \<noteq> Switch
    then \<exists>s' as. Read_ConfigFile y al head s = Some s' \<and> list_at (points s') head as
       \<and> list_all2 (built_at (points s')) as (rev svs)
       \<and> map_option EquipmentType (points s' head)
         = map_option (\<lambda>tp. EquipmentType tp + word_of_nat (length svs)) (points s head)
    else Read_ConfigFile y al head s = None"
proof -
  have "unread fs = file_text svs" using run_save [OF f0 sv, of fs0] saved opened(3) by auto
  then have b: "boot_ok unread head (s\<lparr>files := fs\<rparr>) [] [] svs" by (rule boot_start_ok [OF start])
  have m: "memory_ok al (card (dom (points s)) + length svs)" using start by (simp add: boot_start_def)
  show ?thesis
  proof (cases "\<forall>sv \<in> set svs. saved_class sv \<noteq> Switch")
    case True
    then obtain s' as' where "read_loop y al head f (s\<lparr>files := fs\<rparr>) = Some s'" "boot_ok unread head s' as' svs []"
      "map_option EquipmentType (points s' head)
       = map_option (\<lambda>tp. EquipmentType tp + word_of_nat (length svs)) (points s head)"
      using read_loop_builds [OF f m b] sv by auto
    then show ?thesis using True opened(1,2) by (auto simp: Read_ConfigFile_def boot_ok_def)
  next
    case False
    then obtain pre a c rest where p: "svs = pre @ SavedSwitch a c # rest" "\<forall>sv \<in> set pre. saved_class sv \<noteq> Switch"
      by (rule switch_split)
    have "saved_ok (SavedSwitch a c)" using sv p(1) by auto
    from read_loop_switch [OF f m this b [unfolded p(1)]] have "read_loop y al head f (s\<lparr>files := fs\<rparr>) = None"
      using sv p by simp
    then show ?thesis using False opened(1,2) by (simp add: Read_ConfigFile_def)
  qed
qed

text \<open>A store with room for the nodes 1000 to 1009.\<close>

definition ex_memory :: memory where
  "ex_memory = \<lparr>malloc_point = (\<lambda>h. find (\<lambda>a. h a = None) [1000..<1010]), raw_point = (\<lambda>a. ex_point),
     malloc_config = (\<lambda>h cls. Some (config_at cls (replicate 84 0)))\<rparr>"

definition ex_boot :: "'fs \<Rightarrow> 'fs boot" where
  "ex_boot fs = \<lparr>files = fs, points = [100 \<mapsto> ex_point\<lparr>EquipmentType := 0\<rparr>], kernel = ex_os,
     linebuf = replicate 64 0x55, sensor_type = 7, confs = (\<lambda>cls. replicate (struct_size cls) 0)\<rparr>"

lemma find_hit: "x \<in> set xs \<Longrightarrow> P x \<Longrightarrow> \<exists>a. find P xs = Some a \<and> P a"
  by (induction xs) auto

lemma ex_memory_ok: "memory_ok ex_memory 10"
proof -
  have "\<exists>a. find (\<lambda>a. h a = None) [1000..<1010] = Some a \<and> h a = None"
    if "finite (dom h)" "card (dom h) < 10" for h :: heap
  proof -
    have "\<not> {1000..<1010} \<subseteq> dom h" using card_mono [OF that(1), of "{1000..<1010}"] that(2) by auto
    then obtain x where "x \<in> {1000..<1010}" "h x = None" unfolding dom_def by blast
    then show ?thesis unfolding set_upt [symmetric] by (rule find_hit)
  qed
  then show ?thesis
    using config_at_simps by (simp add: memory_ok_def ex_memory_def ex_point_def)
qed

lemma memory_ok_less: "memory_ok al N \<Longrightarrow> n \<le> N \<Longrightarrow> memory_ok al n"
  unfolding memory_ok_def by (meson order_less_le_trans)

lemma ex_boot_start: "n \<le> 9 \<Longrightarrow> boot_start ex_memory n 100 (ex_boot fs)"
  using memory_ok_less [OF ex_memory_ok]
  by (simp add: boot_start_def ex_boot_def list_at_def ex_point_def events_ok_def ex_os_def exI [of _ "[]"])

definition ex_saved :: "saved list" where
  "ex_saved = [SavedTristate 0x10000100 ex_tristate, SavedTristate 0x10000100 (ex_tristate\<lparr>testpointNo := 40005\<rparr>)]"

theorem Read_ConfigFile_builds_witness:
  "\<exists>fs1 s' as. run (save ex_yaffs 0) ex_saved ([], []) = Some fs1
     \<and> Read_ConfigFile ex_yaffs ex_memory 100 (ex_boot (snd fs1, [])) = Some s' \<and> list_at (points s') 100 as
     \<and> list_all2 (built_at (points s')) as (rev ex_saved) \<and> map_option EquipmentType (points s' 100) = Some 2"
proof -
  have ok: "\<forall>sv \<in> set ex_saved. saved_ok sv" "\<forall>sv \<in> set ex_saved. saved_class sv \<noteq> Switch"
    by (simp_all add: ex_saved_def place_ok_def ex_tristate_def c_str_def)
  then obtain fs1 where 1: "run (save ex_yaffs 0) ex_saved ([], []) = Some fs1"
    using run_save [OF ex_yaffs_ok ok(1), of 0 "([], [])"] by auto
  have start: "boot_start ex_memory (length ex_saved) 100 (ex_boot (snd fs1, [] :: u8 list))"
    by (rule ex_boot_start) (simp add: ex_saved_def)
  have opened: "yaffs_open ex_yaffs config_path [O_RDONLY] (files (ex_boot (snd fs1, []))) = (0, (snd fs1, []))"
    by (simp add: ex_yaffs_def ex_boot_def)
  have "points (ex_boot (snd fs1, [] :: u8 list)) 100 = Some (ex_point\<lparr>EquipmentType := 0\<rparr>)" by (simp add: ex_boot_def)
  moreover obtain s' as where "Read_ConfigFile ex_yaffs ex_memory 100 (ex_boot (snd fs1, [])) = Some s'" "list_at (points s') 100 as"
     "list_all2 (built_at (points s')) as (rev ex_saved)" "map_option EquipmentType (points s' 100)
       = map_option (\<lambda>tp. EquipmentType tp + word_of_nat (length ex_saved)) (points (ex_boot (snd fs1, [] :: u8 list)) 100)"
    using Read_ConfigFile_builds [OF ex_yaffs_ok ex_yaffs_ok ok(1) 1 _ opened _ _ start] ok(2) by auto
  ultimately show ?thesis using 1 by (auto simp: ex_saved_def)
qed

end
