(* ===== verification/Config_Default.thy ===== *)
theory Config_Default
  imports Config_Boot
begin

text \<open>
  \<open>initConf\<close> and \<open>File_Create_TpConfig\<close> of \<open>User/user_file.c\<close>: the configuration file the
  firmware writes at every start. The structs are local variables that are not initialised;
  they start with arbitrary contents. Place names are in the encoding of the source (GBK). The
  received configuration, the argument of \<open>File_Create_TpConfig\<close>, is only used in debug output.
\<close>

section \<open>The default points\<close>

record default_confs =
  d_an :: Analogue_Config
  d_sw :: Switch_Config
  d_ac :: Accumulate_Config
  d_tr :: Tristate_Config

definition yuandian :: "u8 list" where
  "yuandian = [0xBB, 0xB4, 0xB1, 0xB1, 0xBF, 0xF3, 0xD2, 0xB5, 0xBC, 0xAF, 0xCD, 0xC5, 0xD4, 0xAC, 0xB5, 0xEA, 0xC3, 0xBA, 0xBF, 0xF3, 0]"

definition laboratory :: "u8 list" where
  "laboratory = [0xD6, 0xD0, 0xB4, 0xAC, 0xD6, 0xD8, 0xB9, 0xA4, 0xBF, 0xF3, 0xD3, 0xC3, 0xD7, 0xB0, 0xB1, 0xB8, 0xCA, 0xB5, 0xD1, 0xE9, 0xCA, 0xD2, 0]"

definition zhuxianzhuang :: "u8 list" where
  "zhuxianzhuang = [0xBB, 0xB4, 0xB1, 0xB1, 0xBF, 0xF3, 0xD2, 0xB5, 0xBC, 0xAF, 0xCD, 0xC5, 0xD6, 0xEC, 0xCF, 0xC9, 0xD7, 0xAF, 0xC3, 0xBA, 0xBF, 0xF3, 0]"

definition chuangqi :: "u8 list" where
  "chuangqi = [0xBB, 0xB4, 0xB1, 0xB1, 0xB4, 0xB4, 0xC6, 0xE6, 0xBC, 0xE0, 0xB2, 0xE2, 0xC9, 0xE8, 0xB1, 0xB8, 0xD3, 0xD0, 0xCF, 0xDE, 0xB9, 0xAB, 0xCB, 0xBE, 0]"

definition face832 :: "u8 list" where
  "face832 = [0xCB, 0xC4, 0xB2, 0xC9, 0xC7, 0xF8, 0x38, 0x33, 0x32, 0xB9, 0xA4, 0xD7, 0xF7, 0xC3, 0xE6, 0]"

definition drift :: "u8 list" where
  "drift = [0xC4, 0xCF, 0xB4, 0xF3, 0xCF, 0xEF, 0xBB, 0xFA, 0xB5, 0xE7, 0xB6, 0xB4, 0xCA, 0xD2, 0x20, 0]"

definition face811 :: "u8 list" where
  "face811 = [0xB6, 0xFE, 0xB2, 0xC9, 0xC7, 0xF8, 0x38, 0x31, 0x31, 0xBE, 0xF2, 0xBD, 0xF8, 0xB9, 0xA4, 0xD7, 0xF7, 0xC3, 0xE6, 0]"

definition initConf :: "default_confs \<Rightarrow> default_confs option" where
  "initConf d = do {
     l \<leftarrow> strcpy (location (d_an d)) yuandian;
     let an = (d_an d)\<lparr>testpointNo := 10001, sensorName := 10001, location := l, portType := 17,
       outputControl := (0x80, 0xFF), coefficient := f32_of False 1100 1000,
       outage := \<lparr>minval = VALUE_UNDEF, maxval = 70\<rparr>, alarm := \<lparr>minval = VALUE_UNDEF, maxval = 70\<rparr>,
       liftAlarm := \<lparr>minval = 70, maxval = VALUE_UNDEF\<rparr>, recover := \<lparr>minval = VALUE_UNDEF, maxval = 70\<rparr>,
       measureRange := \<lparr>minval = 0, maxval = 200\<rparr>\<rparr>;
     l \<leftarrow> strcpy (location (d_sw d)) laboratory;
     let sw = (d_sw d)\<lparr>testpointNo := 20002, sensorName := 20001, location := l, portType := 17,
       outputControl := (0x20, 0xFF)\<rparr>;
     l \<leftarrow> strcpy (location (d_ac d)) zhuxianzhuang;
     let ac = (d_ac d)\<lparr>testpointNo := 30003, sensorName := 30001, location := l, portType := 24,
       acc_coefficient := f32_of False 3300 1000, shift := 3, measureMaxVal := 12345\<rparr>;
     l \<leftarrow> strcpy (location (d_tr d)) chuangqi;
     let tr = (d_tr d)\<lparr>testpointNo := 40004, sensorName := 40001, location := l, portType := 36,
       outputControl := (0x08, 0xFF), current := (case current (d_tr d) of (_, _, _, i) \<Rightarrow> (0, 1, 5, i))\<rparr>;
     Some \<lparr>d_an = an, d_sw = sw, d_ac = ac, d_tr = tr\<rparr> }"

text \<open>Addresses of the structs, where they are printed.\<close>

record default_addrs =
  a_an :: u32
  a_sw :: u32
  a_tr :: u32

definition set_four :: "'fs yaffs \<Rightarrow> int \<Rightarrow> default_addrs \<Rightarrow> default_confs \<Rightarrow> 'fs \<Rightarrow> 'fs option" where
  "set_four y f a d fs = do {
     fs \<leftarrow> File_Set_Config_Analogue y f (a_an a) (d_an d) fs;
     fs \<leftarrow> File_Set_Config_Switch y f (a_sw a) (d_sw d) fs;
     fs \<leftarrow> File_Set_Config_Accumulate y f (d_ac d) fs;
     File_Set_Config_Tristate y f (a_tr a) (d_tr d) fs }"

definition an_place :: "u8 list \<Rightarrow> default_confs \<Rightarrow> default_confs option" where
  "an_place s d = map_option (\<lambda>l. d\<lparr>d_an := (d_an d)\<lparr>location := l\<rparr>\<rparr>) (strcpy (location (d_an d)) s)"

definition sw_place :: "u8 list \<Rightarrow> default_confs \<Rightarrow> default_confs option" where
  "sw_place s d = map_option (\<lambda>l. d\<lparr>d_sw := (d_sw d)\<lparr>location := l\<rparr>\<rparr>) (strcpy (location (d_sw d)) s)"

definition ac_place :: "u8 list \<Rightarrow> default_confs \<Rightarrow> default_confs option" where
  "ac_place s d = map_option (\<lambda>l. d\<lparr>d_ac := (d_ac d)\<lparr>location := l\<rparr>\<rparr>) (strcpy (location (d_ac d)) s)"

text \<open>The writes to the open file.\<close>

definition write_defaults :: "'fs yaffs \<Rightarrow> int \<Rightarrow> default_addrs \<Rightarrow> default_confs \<Rightarrow> 'fs \<Rightarrow> 'fs option" where
  "write_defaults y f a d fs = do {
     d \<leftarrow> an_place yuandian d;
     fs \<leftarrow> File_Set_Config_Analogue y f (a_an a) (d_an d) fs;
     d \<leftarrow> an_place laboratory d;
     fs \<leftarrow> File_Set_Config_Switch y f (a_sw a) (d_sw d) fs;
     d \<leftarrow> an_place zhuxianzhuang d;
     fs \<leftarrow> File_Set_Config_Accumulate y f (d_ac d) fs;
     d \<leftarrow> an_place chuangqi d;
     fs \<leftarrow> File_Set_Config_Tristate y f (a_tr a) (d_tr d) fs;
     d \<leftarrow> an_place face832 d;
     fs \<leftarrow> File_Set_Config_Analogue y f (a_an a) (d_an d) fs;
     d \<leftarrow> sw_place drift d;
     fs \<leftarrow> File_Set_Config_Switch y f (a_sw a) (d_sw d) fs;
     d \<leftarrow> ac_place face811 d;
     fs \<leftarrow> File_Set_Config_Accumulate y f (d_ac d) fs;
     fs \<leftarrow> File_Set_Config_Tristate y f (a_tr a) (d_tr d) fs;
     fs \<leftarrow> set_four y f a d fs;
     set_four y f a d fs }"

definition File_Create_TpConfig :: "'fs yaffs \<Rightarrow> default_addrs \<Rightarrow> default_confs \<Rightarrow> 'fs \<Rightarrow> 'fs option" where
  "File_Create_TpConfig y a d fs = do {
     d \<leftarrow> initConf d;
     (case yaffs_open y config_path [O_CREAT, O_RDWR, O_TRUNC] fs of
        (f, fs) \<Rightarrow> if f \<ge> 0 then map_option (yaffs_close y f) (write_defaults y f a d fs) else Some fs) }"

section \<open>What is written\<close>

definition places_30 :: "default_confs \<Rightarrow> bool" where
  "places_30 d \<longleftrightarrow> length (location (d_an d)) = 30 \<and> length (location (d_sw d)) = 30
     \<and> length (location (d_ac d)) = 30 \<and> length (location (d_tr d)) = 30"

text \<open>Structs ready to be written.\<close>

definition confs_ok :: "default_confs \<Rightarrow> bool" where
  "confs_ok d \<longleftrightarrow> places_30 d \<and> place_ok (d_an d) \<and> place_ok (d_sw d) \<and> place_ok (d_ac d) \<and> place_ok (d_tr d)
     \<and> three_decimals (coefficient (d_an d)) \<and> three_decimals (acc_coefficient (d_ac d))"

text \<open>The struct variables as points to be saved, in the order the code writes them.\<close>

definition four :: "default_addrs \<Rightarrow> default_confs \<Rightarrow> saved list" where
  "four a d = [SavedAnalogue (a_an a) (d_an d), SavedSwitch (a_sw a) (d_sw d), SavedAccumulate (d_ac d),
     SavedTristate (a_tr a) (d_tr d)]"

lemma four_ok: "confs_ok d \<Longrightarrow> \<forall>sv \<in> set (four a d). saved_ok sv"
  by (simp add: four_def confs_ok_def)

lemma place_names:
  "s \<in> {yuandian, laboratory, zhuxianzhuang, chuangqi, face832, drift, face811} \<Longrightarrow> 0 \<in> set s \<and> length (c_str s) < 30"
  by (elim insertE emptyE) (simp_all add: yuandian_def laboratory_def zhuxianzhuang_def chuangqi_def face832_def
      drift_def face811_def c_str_def)

lemma strcpy_place:
  assumes "length dst = 30" and "s \<in> {yuandian, laboratory, zhuxianzhuang, chuangqi, face832, drift, face811}"
  shows "\<exists>l. strcpy dst s = Some l \<and> length l = 30 \<and> 0 \<in> set l \<and> length (c_str l) < 30"
proof -
  have n: "0 \<in> set s" "length (c_str s) < 30" using place_names assms(2) by blast+
  then obtain l where l: "strcpy dst s = Some l" using strcpy_fits [of dst s] assms(1) by (auto simp: fits_string_def)
  then show ?thesis using n assms(1) strcpy_c_str [OF l] by (intro exI [of _ l]) simp
qed

lemma an_place_ok:
  assumes "confs_ok d" and "s \<in> {yuandian, laboratory, zhuxianzhuang, chuangqi, face832, drift, face811}"
  shows "\<exists>d'. an_place s d = Some d' \<and> confs_ok d'"
proof -
  obtain l where "strcpy (location (d_an d)) s = Some l" "length l = 30" "0 \<in> set l" "length (c_str l) < 30"
    using strcpy_place [OF _ assms(2)] assms(1) by (auto simp: confs_ok_def places_30_def)
  then show ?thesis using assms(1) by (simp add: an_place_def confs_ok_def places_30_def place_ok_def)
qed

lemma sw_place_ok:
  assumes "confs_ok d" and "s \<in> {yuandian, laboratory, zhuxianzhuang, chuangqi, face832, drift, face811}"
  shows "\<exists>d'. sw_place s d = Some d' \<and> confs_ok d'"
proof -
  obtain l where "strcpy (location (d_sw d)) s = Some l" "length l = 30" "0 \<in> set l" "length (c_str l) < 30"
    using strcpy_place [OF _ assms(2)] assms(1) by (auto simp: confs_ok_def places_30_def)
  then show ?thesis using assms(1) by (simp add: sw_place_def confs_ok_def places_30_def place_ok_def)
qed

lemma ac_place_ok:
  assumes "confs_ok d" and "s \<in> {yuandian, laboratory, zhuxianzhuang, chuangqi, face832, drift, face811}"
  shows "\<exists>d'. ac_place s d = Some d' \<and> confs_ok d'"
proof -
  obtain l where "strcpy (location (d_ac d)) s = Some l" "length l = 30" "0 \<in> set l" "length (c_str l) < 30"
    using strcpy_place [OF _ assms(2)] assms(1) by (auto simp: confs_ok_def places_30_def)
  then show ?thesis using assms(1) by (simp add: ac_place_def confs_ok_def places_30_def place_ok_def)
qed

lemma initConf_ok:
  assumes "places_30 d"
  shows "\<exists>d'. initConf d = Some d' \<and> confs_ok d'"
proof -
  note s = strcpy_place [of _ yuandian] strcpy_place [of _ laboratory] strcpy_place [of _ zhuxianzhuang] strcpy_place [of _ chuangqi]
  obtain l1 where 1: "strcpy (location (d_an d)) yuandian = Some l1" "length l1 = 30" "0 \<in> set l1" "length (c_str l1) < 30"
    using s(1) [of "location (d_an d)"] assms by (auto simp: places_30_def)
  obtain l2 where 2: "strcpy (location (d_sw d)) laboratory = Some l2" "length l2 = 30" "0 \<in> set l2" "length (c_str l2) < 30"
    using s(2) [of "location (d_sw d)"] assms by (auto simp: places_30_def)
  obtain l3 where 3: "strcpy (location (d_ac d)) zhuxianzhuang = Some l3" "length l3 = 30" "0 \<in> set l3" "length (c_str l3) < 30"
    using s(3) [of "location (d_ac d)"] assms by (auto simp: places_30_def)
  obtain l4 where 4: "strcpy (location (d_tr d)) chuangqi = Some l4" "length l4 = 30" "0 \<in> set l4" "length (c_str l4) < 30"
    using s(4) [of "location (d_tr d)"] assms by (auto simp: places_30_def)
  have "three_decimals (f32_of False n 1000)" if "n < 16384000" for n
    using that unfolding three_decimals_def by blast
  then show ?thesis using 1 2 3 4 by (simp add: initConf_def Let_def confs_ok_def places_30_def place_ok_def)
qed

text \<open>\<open>g\<close> appends the records \<open>svs\<close> to the file.\<close>

definition writes :: "('fs \<Rightarrow> u8 list) \<Rightarrow> ('fs \<Rightarrow> 'fs option) \<Rightarrow> saved list \<Rightarrow> bool" where
  "writes written g svs \<longleftrightarrow> (\<forall>fs. \<exists>fs'. g fs = Some fs' \<and> written fs' = written fs @ file_text svs)"

lemma writes_append:
  assumes "writes written g svs" and "writes written h svs'"
  shows "writes written (\<lambda>fs. Option.bind (g fs) h) (svs @ svs')"
  unfolding writes_def
proof
  fix fs
  obtain fs1 where 1: "g fs = Some fs1" "written fs1 = written fs @ file_text svs" using assms(1) unfolding writes_def by blast
  obtain fs2 where "h fs1 = Some fs2" "written fs2 = written fs1 @ file_text svs'" using assms(2) unfolding writes_def by blast
  then show "\<exists>fs'. Option.bind (g fs) h = Some fs' \<and> written fs' = written fs @ file_text (svs @ svs')"
    using 1 by (simp add: file_text_def)
qed

lemmas writes_bind = writes_append [of _ _ "[sv]" for sv, simplified append_Cons append_Nil]

lemma writes_save:
  assumes f: "file_ok y f unread written" and d: "confs_ok d"
  shows "writes written (File_Set_Config_Analogue y f (a_an a) (d_an d)) [SavedAnalogue (a_an a) (d_an d)]"
    "writes written (File_Set_Config_Switch y f (a_sw a) (d_sw d)) [SavedSwitch (a_sw a) (d_sw d)]"
    "writes written (File_Set_Config_Accumulate y f (d_ac d)) [SavedAccumulate (d_ac d)]"
    "writes written (File_Set_Config_Tristate y f (a_tr a) (d_tr d)) [SavedTristate (a_tr a) (d_tr d)]"
  using save_ok [OF f, of "SavedAnalogue (a_an a) (d_an d)"] save_ok [OF f, of "SavedSwitch (a_sw a) (d_sw d)"]
    save_ok [OF f, of "SavedAccumulate (d_ac d)"] save_ok [OF f, of "SavedTristate (a_tr a) (d_tr d)"] d
  by (simp_all add: writes_def file_text_def confs_ok_def)

lemma writes_four:
  assumes "file_ok y f unread written" and "confs_ok d"
  shows "writes written (set_four y f a d) (four a d)"
  unfolding set_four_def [abs_def] four_def by (intro writes_bind writes_save [OF assms])

lemma write_defaults_writes:
  assumes f: "file_ok y f unread written" and d: "confs_ok d"
  shows "\<exists>d1 d2 svs. confs_ok d1 \<and> confs_ok d2
     \<and> writes written (write_defaults y f a d) (SavedAnalogue (a_an a) (d_an d1) # SavedSwitch (a_sw a) (d_sw d2) # svs)"
proof -
  obtain d1 where 1: "an_place yuandian d = Some d1" "confs_ok d1" using an_place_ok [OF d] by blast
  obtain d2 where 2: "an_place laboratory d1 = Some d2" "confs_ok d2" using an_place_ok [OF 1(2)] by blast
  obtain d3 where 3: "an_place zhuxianzhuang d2 = Some d3" "confs_ok d3" using an_place_ok [OF 2(2)] by blast
  obtain d4 where 4: "an_place chuangqi d3 = Some d4" "confs_ok d4" using an_place_ok [OF 3(2)] by blast
  obtain d5 where 5: "an_place face832 d4 = Some d5" "confs_ok d5" using an_place_ok [OF 4(2)] by blast
  obtain d6 where 6: "sw_place drift d5 = Some d6" "confs_ok d6" using sw_place_ok [OF 5(2)] by blast
  obtain d7 where 7: "ac_place face811 d6 = Some d7" "confs_ok d7" using ac_place_ok [OF 6(2)] by blast
  note w = writes_save [OF f]
  have "write_defaults y f a d = (\<lambda>fs. Option.bind (File_Set_Config_Analogue y f (a_an a) (d_an d1) fs)
      (\<lambda>fs. Option.bind (File_Set_Config_Switch y f (a_sw a) (d_sw d2) fs)
      (\<lambda>fs. Option.bind (File_Set_Config_Accumulate y f (d_ac d3) fs)
      (\<lambda>fs. Option.bind (File_Set_Config_Tristate y f (a_tr a) (d_tr d4) fs)
      (\<lambda>fs. Option.bind (File_Set_Config_Analogue y f (a_an a) (d_an d5) fs)
      (\<lambda>fs. Option.bind (File_Set_Config_Switch y f (a_sw a) (d_sw d6) fs)
      (\<lambda>fs. Option.bind (File_Set_Config_Accumulate y f (d_ac d7) fs)
      (\<lambda>fs. Option.bind (File_Set_Config_Tristate y f (a_tr a) (d_tr d7) fs)
      (\<lambda>fs. Option.bind (set_four y f a d7 fs) (set_four y f a d7))))))))))"
    using 1 2 3 4 5 6 7 by (simp add: write_defaults_def fun_eq_iff)
  moreover have "writes written \<dots> (SavedAnalogue (a_an a) (d_an d1) # SavedSwitch (a_sw a) (d_sw d2)
      # SavedAccumulate (d_ac d3) # SavedTristate (a_tr a) (d_tr d4) # SavedAnalogue (a_an a) (d_an d5)
      # SavedSwitch (a_sw a) (d_sw d6) # SavedAccumulate (d_ac d7) # SavedTristate (a_tr a) (d_tr d7)
      # four a d7 @ four a d7)"
    by (intro writes_bind writes_append w(1) [OF 1(2)] w(2) [OF 2(2)] w(3) [OF 3(2)] w(4) [OF 4(2)] w(1) [OF 5(2)]
        w(2) [OF 6(2)] w(3) [OF 7(2)] w(4) [OF 7(2)] writes_four [OF f 7(2)])
  ultimately show ?thesis using 1(2) 2(2) by metis
qed

section \<open>Properties\<close>

text \<open>C35: the configuration file the firmware writes at every start cannot be read by it: its second
  record is a switch, whose \<open>outputControl\<close> is read as four bytes behind the end of its struct.
\<close>

theorem default_file_unreadable:
  assumes f: "file_ok y f unread written" "file_ok y f0 unread written" and d: "places_30 d"
    and o: "yaffs_open y config_path [O_CREAT, O_RDWR, O_TRUNC] fs = (f0, fs0)" "0 \<le> f0" "written fs0 = []"
    and w: "\<forall>fs. written (yaffs_close y f0 fs) = written fs"
    and r: "File_Create_TpConfig y a d fs = Some fs1"
      "yaffs_open y config_path [O_RDONLY] (files s) = (f, fs2)" "0 \<le> f" "unread fs2 = written fs1"
    and start: "boot_start al 1 head s"
  shows "Read_ConfigFile y al head s = None"
proof -
  obtain d0 where d0: "initConf d = Some d0" "confs_ok d0" using initConf_ok [OF d] by blast
  obtain d1 d2 svs where c: "confs_ok d1" "confs_ok d2"
    and ws: "writes written (write_defaults y f0 a d0) (SavedAnalogue (a_an a) (d_an d1) # SavedSwitch (a_sw a) (d_sw d2) # svs)"
    using write_defaults_writes [OF f(2) d0(2)] by blast
  let ?sv = "SavedAnalogue (a_an a) (d_an d1)"
  obtain fs' where fs': "write_defaults y f0 a d0 fs0 = Some fs'" "written fs' = file_text (?sv # SavedSwitch (a_sw a) (d_sw d2) # svs)"
    using ws o(3) unfolding writes_def by fastforce
  then have "written fs1 = file_text ([?sv] @ SavedSwitch (a_sw a) (d_sw d2) # svs)"
    using r(1) d0(1) o(1,2) w by (auto simp: File_Create_TpConfig_def)
  then have b: "boot_ok unread head (s\<lparr>files := fs2\<rparr>) [] [] ([?sv] @ SavedSwitch (a_sw a) (d_sw d2) # svs)"
    using r(4) by (intro boot_start_ok [OF start]) simp
  have m: "memory_ok al (card (dom (points s)) + 1)" using start by (simp add: boot_start_def)
  have sw: "saved_ok (SavedSwitch (a_sw a) (d_sw d2))" using c(2) by (simp add: confs_ok_def)
  have "read_loop y al head f (s\<lparr>files := fs2\<rparr>) = None"
    by (rule read_loop_switch [OF f(1) m sw b]) (use c(1) in \<open>simp_all add: confs_ok_def\<close>)
  then show ?thesis using r(2,3) by (simp add: Read_ConfigFile_def)
qed

text \<open>Contents of structs that are not initialised.\<close>

definition ex_confs :: default_confs where
  "ex_confs = \<lparr>d_an = Analogue_at (replicate 84 0x55), d_sw = Switch_at (replicate 84 0x55),
     d_ac = Accumulate_at (replicate 84 0x55), d_tr = Tristate_at (replicate 84 0x55)\<rparr>"

theorem default_file_unreadable_witness:
  "\<exists>fs1. File_Create_TpConfig ex_yaffs \<lparr>a_an = 0x10000000, a_sw = 0x10000060, a_tr = 0x10000100\<rparr> ex_confs ([], []) = Some fs1
     \<and> Read_ConfigFile ex_yaffs ex_memory 100 (ex_boot (snd fs1, [])) = None"
proof -
  let ?a = "\<lparr>a_an = 0x10000000, a_sw = 0x10000060, a_tr = 0x10000100\<rparr>"
  have d: "places_30 ex_confs"
    by (simp add: places_30_def ex_confs_def Analogue_at_def Switch_at_def Accumulate_at_def Tristate_at_def)
  obtain d0 where d0: "initConf ex_confs = Some d0" "confs_ok d0" using initConf_ok [OF d] by blast
  have o: "yaffs_open ex_yaffs config_path fl fs = (0, fs)" for fl fs by (simp add: ex_yaffs_def)
  have w: "\<forall>fs. snd (yaffs_close ex_yaffs 0 fs) = snd fs" by (simp add: ex_yaffs_def)
  obtain fs' where "write_defaults ex_yaffs 0 ?a d0 ([], []) = Some fs'"
    using write_defaults_writes [OF ex_yaffs_ok d0(2), of 0 ?a] unfolding writes_def by blast
  then obtain fs1 where 1: "File_Create_TpConfig ex_yaffs ?a ex_confs ([], []) = Some fs1"
    using d0(1) o by (simp add: File_Create_TpConfig_def)
  have fl: "files (ex_boot (snd fs1, [])) = (snd fs1, [])" by (simp add: ex_boot_def)
  have "Read_ConfigFile ex_yaffs ex_memory 100 (ex_boot (snd fs1, [])) = None"
    by (rule default_file_unreadable [OF ex_yaffs_ok ex_yaffs_ok d o _ _ w 1 o [of "[O_RDONLY]" "files (ex_boot (snd fs1, []))"] _ _ ex_boot_start])
      (simp_all add: fl)
  then show ?thesis using 1 by blast
qed

end
