(* ===== verification/Dialogs.thy ===== *)
theory Dialogs
  imports Eeprom_Store C_Text C_Memory
begin

text \<open>
  The dialogs that change settings: network addresses (\<open>User/user_SetAddr.c\<close>) and bit rates
  (\<open>User/user_SetConnect.c\<close>). The texts of the edit fields and the selected rows of the lists are inputs; of the GUI library only the copying of a text
  out of its field is modelled, for fields with one byte per character.

  \<open>optionSaveStruct\<close> is kept as its 30 bytes: the octets are scanned with \<open>%d\<close>, which stores
  four bytes for each.
\<close>

section \<open>The settings in memory\<close>

definition settings_ram :: "EEPROMDataStruct \<Rightarrow> u8 list" where
  "settings_ram s = ip (ipConfig s) @ sub (ipConfig s) @ gw (ipConfig s) @ mac (ipConfig s) @ uartConfig s @ password s"

definition settings_at :: "u8 list \<Rightarrow> EEPROMDataStruct" where
  "settings_at m = \<lparr>ipConfig = \<lparr>ip = take 4 m, sub = take 4 (drop 4 m), gw = take 4 (drop 8 m), mac = take 6 (drop 12 m)\<rparr>,
     uartConfig = take 6 (drop 18 m), password = take 6 (drop 24 m)\<rparr>"

section \<open>Network addresses\<close>

text \<open>\<open>EDIT_GetText\<close>: at most \<open>n\<close> characters of the field and a NUL.\<close>

definition EDIT_GetText :: "u8 list \<Rightarrow> nat \<Rightarrow> u8 list \<Rightarrow> u8 list option" where
  "EDIT_GetText txt n s = sprintf s (take n txt)"

text \<open>\<open>sscanf\<close> with \<open>%d\<close> into a variable that holds \<open>old\<close>.\<close>

definition scan_i32 :: "u8 list \<Rightarrow> 32 word \<Rightarrow> 32 word" where
  "scan_i32 s old = (case scan_int s of None \<Rightarrow> old | Some (v, _) \<Rightarrow> word_of_int v)"

text \<open>\<open>%03d\<close> and \<open>%02d\<close> of an octet.\<close>

definition dec_pad :: "nat \<Rightarrow> u8 \<Rightarrow> u8 list" where
  "dec_pad n v = replicate (n - length (digits (unat v))) 48 @ digits (unat v)"

text \<open>The text the dialog shows in its \<open>i\<close>-th field.\<close>

definition shown :: "EEPROMDataStruct \<Rightarrow> nat \<Rightarrow> u8 list" where
  "shown st i = dec_pad (if i < 12 then 3 else 2) (settings_ram st ! i)"

text \<open>Is a field of three digits at most 255?\<close>

definition checkBitIP :: "u8 list \<Rightarrow> bool option" where
  "checkBitIP s = do {
     c0 \<leftarrow> rd s 0;
     if c0 = 0x32 then do {
       c1 \<leftarrow> rd s 1;
       if c1 > 0x35 then Some False
       else if c1 = 0x35 then do { c2 \<leftarrow> rd s 2; Some (\<not> c2 > 0x35) }
       else Some True }
     else Some (\<not> c0 > 0x32) }"

text \<open>The statements the code repeats for every field; \<open>s\<close> is the buffer the text goes through.\<close>

fun check_fields :: "(nat \<Rightarrow> u8 list) \<Rightarrow> nat list \<Rightarrow> u8 list \<Rightarrow> (bool \<times> u8 list) option" where
  "check_fields txts [] s = Some (True, s)"
| "check_fields txts (i # is) s = do {
     s \<leftarrow> EDIT_GetText (txts i) 3 s;
     ok \<leftarrow> checkBitIP s;
     if ok then check_fields txts is s else Some (False, s) }"

definition get_field :: "(nat \<Rightarrow> u8 list) \<Rightarrow> nat \<Rightarrow> nat \<Rightarrow> u8 list \<times> u8 list \<Rightarrow> (u8 list \<times> u8 list) option" where
  "get_field txts n i sm = do {
     s \<leftarrow> EDIT_GetText (txts i) n (fst sm);
     m \<leftarrow> (case scan_int (c_str s) of None \<Rightarrow> Some (snd sm) | Some (v, _) \<Rightarrow> put32 i (word_of_int v) (snd sm));
     Some (s, m) }"

text \<open>The first function already stores the octets of the MAC address.\<close>

definition checkUserInputIP :: "(nat \<Rightarrow> u8 list) \<Rightarrow> u8 list \<Rightarrow> u8 list \<Rightarrow> (bool \<times> u8 list) option" where
  "checkUserInputIP txts s m = do {
     (ok, s) \<leftarrow> check_fields txts [0..<12] s;
     if ok then map_option (\<lambda>sm. (True, snd sm)) (run (get_field txts 2) [12..<18] (s, m))
     else Some (False, m) }"

definition getUserInputIP :: "(nat \<Rightarrow> u8 list) \<Rightarrow> u8 list \<Rightarrow> u8 list \<Rightarrow> u8 list option" where
  "getUserInputIP txts s m = do {
     sm \<leftarrow> run (get_field txts 3) [0..<12] (s, m);
     sm \<leftarrow> run (get_field txts 2) [12..<18] sm;
     Some (snd sm) }"

text \<open>
  The button that confirms: whether the dialog is closed, the settings and the EEPROM after it.
  \<open>s1\<close>, \<open>s2\<close> and \<open>buf\<close> are the contents of buffers that are not initialised.
\<close>

definition cbSetAddr_ok ::
    "'d i2c \<Rightarrow> u8 list \<Rightarrow> u8 list \<Rightarrow> u8 list \<Rightarrow> (nat \<Rightarrow> u8 list) \<Rightarrow> u8 list \<Rightarrow> 'd \<Rightarrow> (bool \<times> u8 list \<times> 'd) option" where
  "cbSetAddr_ok c s1 s2 buf txts m d = do {
     (ok, m) \<leftarrow> checkUserInputIP txts s1 m;
     if ok then do {
       m \<leftarrow> getUserInputIP txts s2 m;
       (_, d) \<leftarrow> EEPROM_WriteStruct c buf (settings_at m) d;
       Some (True, m, d) }
     else Some (False, m, d) }"

section \<open>Bit rates\<close>

text \<open>\<open>sel\<close> are the selected rows of the six lists.\<close>

definition GetConnectDialog :: "(nat \<Rightarrow> int) \<Rightarrow> u8 list \<Rightarrow> u8 list option" where
  "GetConnectDialog sel m = run (\<lambda>i m. wr m (18 + i) (word_of_int (sel i))) [0..<6] m"

section \<open>Fields of digits\<close>

definition digit_text :: "u8 list \<Rightarrow> bool" where
  "digit_text ds \<longleftrightarrow> ds \<noteq> [] \<and> list_all is_digit ds"

definition text_val :: "u8 list \<Rightarrow> nat" where
  "text_val ds = fst (scan_digits 0 ds)"

lemma digit_text_take: "digit_text ds \<Longrightarrow> 0 < n \<Longrightarrow> digit_text (take n ds)"
  by (auto simp: digit_text_def list_all_iff dest: in_set_takeD)

lemma is_digit_cases:
  assumes "is_digit c"
  shows "c = 48 + of_nat (unat c - 48)" "unat c - 48 < 10" "unat c \<ge> 48" "c \<noteq> 0"
  using assms by (auto simp: is_digit_def word_le_nat_alt)

lemma scan_digits_val: "list_all is_digit ds \<Longrightarrow> scan_digits 0 ds = (text_val ds, [])"
proof -
  assume "list_all is_digit ds"
  then have "snd (scan_digits acc ds) = []" for acc by (induction ds arbitrary: acc) auto
  then show ?thesis by (simp add: text_val_def prod_eq_iff)
qed

lemma scan_digit_text: "digit_text ds \<Longrightarrow> scan_int ds = Some (int (text_val ds), [])"
proof -
  assume a: "digit_text ds"
  then obtain c r where d: "ds = c # r" "is_digit c" by (cases ds) (auto simp: digit_text_def)
  then have "\<not> is_space c" "c \<noteq> 45" "c \<noteq> 43"
    by (auto simp: is_digit_def is_space_def word_le_nat_alt)
  then show ?thesis using d a scan_digits_val [of ds] by (simp add: scan_int_def digit_text_def)
qed

lemma text_val_less: "list_all is_digit ds \<Longrightarrow> text_val ds < 10 ^ length ds"
proof (induction ds rule: rev_induct)
  case Nil
  then show ?case by (simp add: text_val_def)
next
  case (snoc c ds)
  then have "fst (scan_digits 0 (ds @ [c])) = 10 * text_val ds + (unat c - 48)"
    by (simp add: scan_digits_append text_val_def)
  moreover have "unat c - 48 < 10" using snoc is_digit_cases(2) by simp
  moreover have "text_val ds < 10 ^ length ds" using snoc by simp
  ultimately show ?case by (simp add: text_val_def)
qed

lemma text_val3:
  assumes "list_all is_digit [a, b, c]"
  shows "text_val [a, b, c] = 100 * (unat a - 48) + 10 * (unat b - 48) + (unat c - 48)"
  using assms by (simp add: text_val_def)

lemma checkBitIP_exact:
  assumes "length ds = 3" and "list_all is_digit ds"
  shows "checkBitIP (ds @ tail) = Some (text_val ds \<le> 255)"
proof -
  obtain a b c where ds: "ds = [a, b, c]" using assms(1) by (auto simp: numeral_3_eq_3 length_Suc_conv)
  obtain x y z where n: "unat a = 48 + x" "unat b = 48 + y" "unat c = 48 + z" "x < 10" "y < 10" "z < 10"
    using that [of "unat a - 48" "unat b - 48" "unat c - 48"] assms(2) is_digit_cases(2,3) [of a]
      is_digit_cases(2,3) [of b] is_digit_cases(2,3) [of c] by (simp add: ds)
  have v: "text_val ds = 100 * x + 10 * y + z" using text_val3 assms(2) n unfolding ds by simp
  have "a = 0x32 \<longleftrightarrow> x = 2" "a > 0x32 \<longleftrightarrow> x > 2" "b > 0x35 \<longleftrightarrow> y > 5" "b = 0x35 \<longleftrightarrow> y = 5" "c > 0x35 \<longleftrightarrow> z > 5"
    using n by (auto simp: word_less_nat_alt word_unat_eq_iff)
  then show ?thesis using n(4-6) by (auto simp: checkBitIP_def ds v [unfolded ds] rd_in simp del: rd_eq_Some)
qed

text \<open>The check reads three characters whatever the text holds, so it takes shorter texts for the number with
  zeros appended: 30 is refused like 300.\<close>

definition as_three :: "u8 list \<Rightarrow> nat" where
  "as_three ds = text_val (take 3 (ds @ [48, 48]))"

lemma digit_text_cases:
  assumes "digit_text ds"
  obtains a where "ds = [a]" "is_digit a" | a b where "ds = [a, b]" "is_digit a" "is_digit b"
    | a b c r where "ds = a # b # c # r" "is_digit a" "is_digit b" "is_digit c"
proof -
  have "ds \<noteq> []" "list_all is_digit ds" using assms by (simp_all add: digit_text_def)
  then show thesis using that by (cases ds rule: remdups_adj.cases; cases "drop 2 ds") auto
qed

lemma checkBitIP_as_three:
  assumes "digit_text ds"
  shows "checkBitIP (take 3 ds @ 0 # tail) = Some (as_three ds \<le> 255)"
proof -
  have z: "is_digit 48" by (simp add: is_digit_def)
  have pad: "checkBitIP (a # 0 # r) = checkBitIP ([a, 48, 48] @ r)" "checkBitIP (a # b # 0 # r) = checkBitIP ([a, b, 48] @ r)" for a b r
    by (simp_all add: checkBitIP_def rd_in del: rd_eq_Some)
  show ?thesis using assms
  proof (cases rule: digit_text_cases)
    case (1 a)
    then show ?thesis using checkBitIP_exact [of "[a, 48, 48]" tail] z pad(1) [of a tail] by (simp add: as_three_def)
  next
    case (2 a b)
    then show ?thesis using checkBitIP_exact [of "[a, b, 48]" tail] z pad(2) [of a b tail] by (simp add: as_three_def)
  next
    case (3 a b c r)
    then show ?thesis using checkBitIP_exact [of "[a, b, c]" "0 # tail"] by (simp add: as_three_def)
  qed
qed

lemma text_val_as_three: "digit_text ds \<Longrightarrow> text_val (take 3 ds) \<le> as_three ds"
  by (erule digit_text_cases) (simp_all add: as_three_def text_val_def is_digit_def)

lemma EDIT_GetText_ok:
  assumes "length s = 4" and "n \<le> 3"
  shows "EDIT_GetText t n s = Some (take n t @ 0 # drop (Suc (length (take n t))) s)"
  using assms by (simp add: EDIT_GetText_def sprintf_ok)

lemma digit_text_no_nul: "digit_text t \<Longrightarrow> 0 \<notin> set t"
  by (auto simp: digit_text_def list_all_iff is_digit_def)

lemma byte_small:
  assumes "v < 256"
  shows "byte_of 0 (word_of_nat v) = word_of_nat v" "0 < k \<Longrightarrow> k < 4 \<Longrightarrow> byte_of k (word_of_nat v) = 0"
proof -
  have u: "unat (word_of_nat v :: u32) = v" using assms by (simp add: unat_of_nat)
  show "byte_of 0 (word_of_nat v) = word_of_nat v"
    by (intro bit_word_eqI) (simp add: byte_of_def bit_simps)
  assume k: "0 < k" "k < 4"
  then have "256 \<le> (2 :: nat) ^ (8 * k)" using power_increasing [of 8 "8 * k" "2 :: nat"] by simp
  then have "v div 2 ^ (8 * k) = 0" using assms by simp
  then have "drop_bit (8 * k) v = 0" by (simp add: drop_bit_eq_div)
  moreover have "unat (drop_bit (8 * k) (word_of_nat v :: u32)) = drop_bit (8 * k) v" by (simp only: unat_drop_bit_eq u)
  ultimately have "drop_bit (8 * k) (word_of_nat v :: u32) = 0" by (simp add: unat_eq_0)
  then show "byte_of k (word_of_nat v) = 0" by (simp add: byte_of_def)
qed

text \<open>The value a field of \<open>n\<close> characters is read as.\<close>

definition field_val :: "(nat \<Rightarrow> u8 list) \<Rightarrow> nat \<Rightarrow> nat \<Rightarrow> nat" where
  "field_val txts n i = text_val (take n (txts i))"

lemma get_field_ok:
  assumes t: "digit_text (txts i)" and n: "0 < n" "n \<le> 3" and s: "length s = 4" and m: "i + 4 \<le> length m"
  shows "\<exists>s'. get_field txts n i (s, m) = Some (s', put i (bytes32 (word_of_nat (field_val txts n i))) m) \<and> length s' = 4"
proof -
  have d: "digit_text (take n (txts i))" using digit_text_take [OF t n(1)] .
  let ?s = "take n (txts i) @ 0 # drop (Suc (length (take n (txts i)))) s"
  have "c_str ?s = take n (txts i)" using digit_text_no_nul [OF d] by simp
  moreover have "EDIT_GetText (txts i) n s = Some ?s" by (rule EDIT_GetText_ok [OF s n(2)])
  moreover have "length ?s = 4" using s n(2) by simp
  ultimately show ?thesis
    using m by (intro exI [of _ ?s]) (simp add: get_field_def scan_digit_text [OF d] put32_put field_val_def)
qed

lemma get_fields_run:
  assumes t: "\<forall>i. a \<le> i \<and> i < b \<longrightarrow> digit_text (txts i) \<and> field_val txts n i < 256" and n: "0 < n" "n \<le> 3"
    and s: "length s = 4" and m: "b + 3 \<le> length m" and ab: "a < b"
  shows "\<exists>s' m'. run (get_field txts n) [a..<b] (s, m) = Some (s', m') \<and> length s' = 4 \<and> length m' = length m
     \<and> (\<forall>j. m' ! j = (if a \<le> j \<and> j < b then word_of_nat (field_val txts n j) else if b \<le> j \<and> j < b + 3 then 0 else m ! j))"
  using ab t m
proof (induction b)
  case 0
  then show ?case by simp
next
  case (Suc b)
  have "\<exists>s1 m1. run (get_field txts n) [a..<b] (s, m) = Some (s1, m1) \<and> length s1 = 4 \<and> length m1 = length m
     \<and> (\<forall>j. m1 ! j = (if a \<le> j \<and> j < b then word_of_nat (field_val txts n j)
           else if b \<le> j \<and> j < b + 3 \<and> a < b then 0 else m ! j))"
  proof (cases "a < b")
    case True
    then show ?thesis using Suc.IH Suc.prems by auto
  next
    case False
    then have "[a..<b] = []" by simp
    then show ?thesis using s False by auto
  qed
  then obtain s1 m1 where 1: "run (get_field txts n) [a..<b] (s, m) = Some (s1, m1)" "length s1 = 4" "length m1 = length m"
      "\<forall>j. m1 ! j = (if a \<le> j \<and> j < b then word_of_nat (field_val txts n j) else if b \<le> j \<and> j < b + 3 \<and> a < b then 0 else m ! j)"
    by blast
  let ?w = "word_of_nat (field_val txts n b) :: u32"
  have tb: "digit_text (txts b)" "field_val txts n b < 256" using Suc.prems by auto
  have len: "b + 4 \<le> length m1" using Suc.prems 1(3) by simp
  obtain s' where s': "get_field txts n b (s1, m1) = Some (s', put b (bytes32 ?w) m1)" "length s' = 4"
    using get_field_ok [of txts b n s1 m1] tb(1) n 1(2) len by blast
  have "[a..<Suc b] = [a..<b] @ [b]" using Suc.prems by simp
  then have "run (get_field txts n) [a..<Suc b] (s, m) = Some (s', put b (bytes32 ?w) m1)"
    using 1(1) s'(1) by (simp only: run_append_Some) simp
  moreover have "put b (bytes32 ?w) m1 ! j = (if a \<le> j \<and> j < Suc b then word_of_nat (field_val txts n j)
      else if Suc b \<le> j \<and> j < Suc b + 3 then 0 else m ! j)" for j
  proof -
    have "bytes32 ?w = [word_of_nat (field_val txts n b), 0, 0, 0]"
      by (simp add: bytes32_def byte_small [OF tb(2)])
    moreover have "j < b \<or> j = b \<or> j = b + 1 \<or> j = b + 2 \<or> j = b + 3 \<or> b + 4 \<le> j" by arith
    ultimately show ?thesis using len 1(4) Suc.prems(1) by (auto simp: nth_put)
  qed
  ultimately show ?case using 1(3) s'(2) len by auto
qed

lemma check_fields_ok:
  assumes "\<forall>i \<in> set js. digit_text (txts i)" and "length s = 4"
  shows "\<exists>s'. check_fields txts js s = Some (\<forall>i \<in> set js. as_three (txts i) \<le> 255, s') \<and> length s' = 4"
  using assms
proof (induction js arbitrary: s)
  case Nil
  then show ?case by simp
next
  case (Cons i js)
  let ?s = "take 3 (txts i) @ 0 # drop (Suc (length (take 3 (txts i)))) s"
  have "EDIT_GetText (txts i) 3 s = Some ?s" using EDIT_GetText_ok [OF Cons.prems(2), of 3 "txts i"] by simp
  moreover have "checkBitIP ?s = Some (as_three (txts i) \<le> 255)" using Cons.prems(1) by (intro checkBitIP_as_three) simp
  moreover have "length ?s = 4" using Cons.prems(2) by simp
  ultimately show ?case using Cons.IH [of ?s] Cons.prems(1) by auto
qed

text \<open>The octets the fields hold, in the order of the struct.\<close>

definition entered :: "(nat \<Rightarrow> u8 list) \<Rightarrow> u8 list" where
  "entered txts = map (\<lambda>i. word_of_nat (field_val txts (if i < 12 then 3 else 2) i)) [0..<18]"

text \<open>All fields hold digits, any number of them but at least one.\<close>

definition fields_ok :: "(nat \<Rightarrow> u8 list) \<Rightarrow> bool" where
  "fields_ok txts \<longleftrightarrow> (\<forall>i < 18. digit_text (txts i))"

lemma mac_field: "digit_text (txts i) \<Longrightarrow> field_val txts 2 i < 256"
proof -
  assume d: "digit_text (txts i)"
  then have "field_val txts 2 i < 10 ^ length (take 2 (txts i))"
    using text_val_less [of "take 2 (txts i)"] digit_text_take [OF d, of 2] by (simp add: field_val_def digit_text_def)
  also have "\<dots> \<le> 10 ^ 2" by (rule power_increasing) simp_all
  finally show ?thesis by simp
qed

lemma get_fields_from_to:
  assumes "\<forall>i. a \<le> i \<and> i < b \<longrightarrow> digit_text (txts i) \<and> field_val txts n i < 256" and "0 < n \<and> n \<le> 3"
    and "length s = 4" and "length m = 30" and "a < b" and "e = b + 3" and "e \<le> 30"
  shows "\<exists>s' m'. run (get_field txts n) [a..<b] (s, m) = Some (s', m') \<and> length s' = 4 \<and> length m' = 30
     \<and> (\<forall>j. m' ! j = (if a \<le> j \<and> j < b then word_of_nat (field_val txts n j) else if b \<le> j \<and> j < e then 0 else m ! j))"
  using get_fields_run [of a b txts n s m] assms(1-5,7) unfolding assms(4,6) by blast

lemma mac_fields_run:
  assumes "fields_ok txts" and "length s = 4" and "length m = 30"
  shows "\<exists>s' m'. run (get_field txts 2) [12..<18] (s, m) = Some (s', m') \<and> length s' = 4 \<and> length m' = 30
     \<and> (\<forall>j. m' ! j = (if 12 \<le> j \<and> j < 18 then word_of_nat (field_val txts 2 j) else if 18 \<le> j \<and> j < 21 then 0 else m ! j))"
  using assms mac_field by (intro get_fields_from_to) (simp_all add: fields_ok_def)

lemma getUserInputIP_ok:
  assumes t: "fields_ok txts" "\<forall>i < 12. as_three (txts i) \<le> 255" and s: "length s = 4" and m: "length m = 30"
  shows "getUserInputIP txts s m = Some (entered txts @ [0, 0, 0] @ drop 21 m)"
proof -
  have f: "digit_text (txts i) \<and> field_val txts 3 i < 256" if "i < 12" for i
  proof -
    have "digit_text (txts i)" "as_three (txts i) \<le> 255" using t that by (simp_all add: fields_ok_def)
    then show ?thesis using text_val_as_three [of "txts i"] by (simp add: field_val_def)
  qed
  then have "\<forall>i. 0 \<le> i \<and> i < 12 \<longrightarrow> digit_text (txts i) \<and> field_val txts 3 i < 256" by blast
  moreover have "0 < (3 :: nat) \<and> 3 \<le> (3 :: nat)" "0 < (12 :: nat)" "15 = 12 + (3 :: nat)" "15 \<le> (30 :: nat)" by simp_all
  ultimately obtain s1 m1 where 1: "run (get_field txts 3) [0..<12] (s, m) = Some (s1, m1)" "length s1 = 4" "length m1 = 30"
      "\<forall>j. m1 ! j = (if 0 \<le> j \<and> j < 12 then word_of_nat (field_val txts 3 j) else if 12 \<le> j \<and> j < 15 then 0 else m ! j)"
    using get_fields_from_to [of 0 12 txts 3 s m 15] s m by metis
  obtain s2 m2 where 2: "run (get_field txts 2) [12..<18] (s1, m1) = Some (s2, m2)" "length m2 = 30"
      "\<forall>j. m2 ! j = (if 12 \<le> j \<and> j < 18 then word_of_nat (field_val txts 2 j) else if 18 \<le> j \<and> j < 21 then 0 else m1 ! j)"
    using mac_fields_run [OF t(1) 1(2,3)] by blast
  have "m2 = entered txts @ [0, 0, 0] @ drop 21 m"
  proof (rule nth_equalityI)
    show "length m2 = length (entered txts @ [0, 0, 0] @ drop 21 m)" using 2(2) m by (simp add: entered_def)
    fix j assume "j < length m2"
    then consider "j < 12" | "12 \<le> j" "j < 18" | "j = 18 \<or> j = 19 \<or> j = 20" | "21 \<le> j" "j < 30" using 2(2) by linarith
    then show "m2 ! j = (entered txts @ [0, 0, 0] @ drop 21 m) ! j"
      by cases (use 1(4) 2(3) m in \<open>auto simp: entered_def nth_append\<close>)
  qed
  then show ?thesis using 1(1) 2(1) by (simp add: getUserInputIP_def del: upt_rec_numeral)
qed

lemma length_entered [simp]: "length (entered txts) = 18"
  by (simp add: entered_def)

section \<open>Confirming what is shown\<close>

lemma unat_u8: "unat (v :: u8) < 256"
  using unsigned_less [of v] by simp

lemma text_val_digits: "text_val (digits n) = n"
  by (simp add: text_val_def scan_digits_digits)

lemma text_val_zeros: "text_val (replicate k 48 @ ds) = text_val ds"
proof -
  have "is_digit 48" by (simp add: is_digit_def)
  then have "scan_digits 0 (replicate k 48 @ ds) = scan_digits 0 ds" by (induction k) simp_all
  then show ?thesis by (simp add: text_val_def)
qed

lemma dec_pad_digits: "list_all is_digit (dec_pad n v)"
  using digits_all [of "unat v"] by (auto simp: dec_pad_def list_all_iff is_digit_def)

lemma length_digits_octet: "length (digits (unat (v :: u8))) \<le> 3"
  using length_digits [of 3 "unat v"] unat_u8 [of v] by simp

lemma shown_three: "length (dec_pad 3 v) = 3" "text_val (dec_pad 3 v) = unat v"
  using length_digits_octet [of v] by (simp_all add: dec_pad_def text_val_zeros text_val_digits)

lemma shown_two: "text_val (take 2 (dec_pad 2 v)) = (if v < 100 then unat v else unat v div 10)"
proof (cases "unat v < 100")
  case True
  then have "length (digits (unat v)) \<le> 2" using length_digits [of 2 "unat v"] by simp
  then show ?thesis using True by (simp add: dec_pad_def text_val_zeros text_val_digits word_less_nat_alt)
next
  case False
  then have "length (digits (unat v)) = 3" "length (digits (unat v div 10)) \<le> 2"
    using length_digits [of 2 "unat v"] length_digits_octet [of v] length_digits [of 2 "unat v div 10"] unat_u8 [of v] by auto
  moreover have "digits (unat v) = digits (unat v div 10) @ [48 + word_of_nat (unat v mod 10)]"
    using False by (subst digits.simps) simp
  ultimately have "take 2 (digits (unat v)) = digits (unat v div 10)" by simp
  then show ?thesis using False \<open>length (digits (unat v)) = 3\<close>
    by (simp add: dec_pad_def text_val_digits word_less_nat_alt)
qed

lemma digit_text_pad: "0 < n \<Longrightarrow> digit_text (dec_pad n v)"
  using dec_pad_digits [of n v] digits_nonempty by (auto simp: digit_text_def dec_pad_def)

text \<open>The octet that is stored for a shown octet of the MAC address.\<close>

definition mac_kept :: "u8 \<Rightarrow> u8" where
  "mac_kept x = (if x < 100 then x else x div 10)"

lemma entered_shown:
  assumes "wf_settings st"
  shows "entered (shown st) = ip (ipConfig st) @ sub (ipConfig st) @ gw (ipConfig st) @ map mac_kept (mac (ipConfig st))"
proof -
  define A where "A = ip (ipConfig st) @ sub (ipConfig st) @ gw (ipConfig st)"
  have A: "length A = 12" "length (mac (ipConfig st)) = 6" using assms by (simp_all add: wf_settings_def A_def)
  have b: "settings_ram st = A @ mac (ipConfig st) @ uartConfig st @ password st"
    by (simp add: settings_ram_def A_def)
  have "entered (shown st) = A @ map mac_kept (mac (ipConfig st))"
  proof (rule nth_equalityI)
    show "length (entered (shown st)) = length (A @ map mac_kept (mac (ipConfig st)))" using A by simp
    fix j assume j: "j < length (entered (shown st))"
    show "entered (shown st) ! j = (A @ map mac_kept (mac (ipConfig st))) ! j"
    proof (cases "j < 12")
      case True
      then have "entered (shown st) ! j = settings_ram st ! j"
        using shown_three by (simp add: entered_def field_val_def shown_def)
      then show ?thesis using True A by (simp add: b nth_append)
    next
      case False
      then have "entered (shown st) ! j = word_of_nat (text_val (take 2 (dec_pad 2 (settings_ram st ! j))))"
        using j by (simp add: entered_def field_val_def shown_def)
      also have "\<dots> = mac_kept (settings_ram st ! j)"
        by (simp add: shown_two mac_kept_def word_arith_nat_div [of _ 10])
      finally have "entered (shown st) ! j = mac_kept (settings_ram st ! j)" .
      moreover have "j - 12 < 6" using False j by simp
      ultimately show ?thesis using False A by (simp add: b nth_append)
    qed
  qed
  then show ?thesis by (simp add: A_def)
qed

lemma settings_at_ram: "wf_settings st \<Longrightarrow> settings_at (settings_ram st) = st"
  by (cases st; cases "ipConfig st") (simp add: wf_settings_def settings_at_def settings_ram_def)

lemma fields_ok_shown: "fields_ok (shown st)" "i < 12 \<Longrightarrow> as_three (shown st i) \<le> 255"
  using shown_three digit_text_pad unat_u8 [of "settings_ram st ! i"]
  by (simp_all add: fields_ok_def shown_def as_three_def)

lemma address_dialog:
  assumes "fields_ok txts" and "length s1 = 4" and "length s2 = 4" and "length m = 30"
  shows "cbSetAddr_ok c s1 s2 buf txts m d =
     (if \<forall>i < 12. as_three (txts i) \<le> 255 then
        let m' = entered txts @ [0, 0, 0] @ drop 21 m in
        map_option (\<lambda>(_, d'). (True, m', d')) (EEPROM_WriteStruct c buf (settings_at m') d)
      else Some (False, m, d))"
proof -
  obtain s where s: "check_fields txts [0..<12] s1 = Some (\<forall>i < 12. as_three (txts i) \<le> 255, s)" "length s = 4"
    using check_fields_ok [of "[0..<12]" txts s1] assms(1,2)
    by (auto simp: fields_ok_def atLeast0LessThan Ball_def simp del: upt_rec_numeral)
  obtain s' m1 where m1: "run (get_field txts 2) [12..<18] (s, m) = Some (s', m1)" "length m1 = 30"
      "\<forall>j. m1 ! j = (if 12 \<le> j \<and> j < 18 then word_of_nat (field_val txts 2 j) else if 18 \<le> j \<and> j < 21 then 0 else m ! j)"
    using mac_fields_run [OF assms(1) s(2) assms(4)] by blast
  have "drop 21 m1 = drop 21 m" using m1(2,3) assms(4) by (intro nth_equalityI) auto
  then have g: "getUserInputIP txts s2 m1 = Some (entered txts @ [0, 0, 0] @ drop 21 m)" if "\<forall>i < 12. as_three (txts i) \<le> 255"
    using getUserInputIP_ok [OF assms(1) that assms(3) m1(2)] by simp
  show ?thesis
  proof (cases "\<forall>i < 12. as_three (txts i) \<le> 255")
    case True
    then have "checkUserInputIP txts s1 m = Some (True, m1)" using s(1) m1(1) by (simp add: checkUserInputIP_def del: upt_rec_numeral)
    then show ?thesis using g True
      by (cases "EEPROM_WriteStruct c buf (settings_at (entered txts @ [0, 0, 0] @ drop 21 m)) d") (simp_all add: cbSetAddr_ok_def Let_def case_prod_beta)
  next
    case False
    then have "checkUserInputIP txts s1 m = Some (False, m)" using s(1) by (simp add: checkUserInputIP_def)
    then show ?thesis unfolding if_not_P [OF False] by (simp add: cbSetAddr_ok_def)
  qed
qed

text \<open>An address typed into the fields: 210 eleven times, 25, and 300 in the fields of the MAC address.\<close>

definition ex_typed :: "nat \<Rightarrow> u8 list" where
  "ex_typed i = (if i < 11 then [0x32, 0x31, 0x30] else if i = 11 then [0x32, 0x35] else [0x33, 0x30, 0x30])"

section \<open>Properties\<close>

text \<open>C17: what confirming the address dialog does with any fields of digits. The twelve fields of the IP address, the
  mask and the gateway are accepted if each, with zeros appended to three digits, is at most 255 (so 30 is refused);
  then the value of their first three digits is stored. The six fields of the MAC address are not checked, and the
  value of their first two digits is stored, 30 for 300. The settings are saved, with the bit rates of the first
  three serial ports set to row 0: the last octet of the MAC address is stored as four bytes. If an
  address field is refused, nothing changes and the dialog stays open.\<close>

theorem address_dialog_stores:
  assumes "fields_ok txts" and "length s1 = 4" and "length s2 = 4" and "length m = 30"
  shows "cbSetAddr_ok c s1 s2 buf txts m d =
     (if \<forall>i < 12. as_three (txts i) \<le> 255 then
        let m' = entered txts @ [0, 0, 0] @ drop 21 m in
        map_option (\<lambda>(_, d'). (True, m', d')) (EEPROM_WriteStruct c buf (settings_at m') d)
      else Some (False, m, d))"
  by (rule address_dialog) (fact assms)+

theorem address_dialog_stores_witness:
  "\<exists>d'. cbSetAddr_ok ex_chip [0, 0, 0, 0] [1, 1, 1, 1] (replicate 8 0) ex_typed (settings_ram ex_settings) (\<lambda>_. 0xFF, False)
     = Some (True, replicate 11 210 @ [25] @ replicate 6 30 @ [0, 0, 0, 1, 1, 1] @ password ex_settings, d')"
proof -
  let ?m = "replicate 11 210 @ [25] @ replicate 6 30 @ [0, 0, 0, 1, 1, 1] @ password ex_settings"
  have f: "fields_ok ex_typed" by (simp add: fields_ok_def digit_text_def is_digit_def ex_typed_def)
  have v: "text_val [0x32, 0x31, 0x30] = 210" "text_val [0x32, 0x35] = 25" "text_val [0x33, 0x30] = 30" "text_val [0x32, 0x35, 0x30] = 250"
    by (simp_all add: text_val_def is_digit_def)
  have e: "entered ex_typed @ [0, 0, 0] @ drop 21 (settings_ram ex_settings) = ?m"
    by (simp add: entered_def field_val_def v ex_settings_def settings_ram_def ex_typed_def numeral_eq_Suc)
  have "wf_settings (settings_at ?m)" by (simp add: wf_settings_def settings_at_def ex_settings_def)
  then obtain d1 where "EEPROM_WriteStruct ex_chip (replicate 8 0) (settings_at ?m) (\<lambda>_. 0xFF, False) = Some (True, d1)"
    using save_and_read [OF ex_chip_ok, of "(\<lambda>_. 0xFF, False)" "settings_at ?m" "replicate 8 0" "replicate 30 0"] by (auto simp: ex_ready_def)
  moreover have "\<forall>i < 12. as_three (ex_typed i) \<le> 255" by (simp add: ex_typed_def as_three_def v)
  ultimately show ?thesis
    using address_dialog_stores [OF f, of "[0, 0, 0, 0]" "[1, 1, 1, 1]" "settings_ram ex_settings" ex_chip "replicate 8 0" "(\<lambda>_. 0xFF, False)"]
    unfolding e by (simp add: settings_ram_def ex_settings_def)
qed

text \<open>C18: opening the address dialog and confirming what it shows is not without effect: the addresses are
  kept, but an octet of the MAC address above 99 loses its last digit, since its field is read with
  two characters, and the bit rates of the first three serial ports become row 0. The settings
  are saved, so they are lost for the next start as well.\<close>

theorem address_dialog_confirm:
  assumes chip: "st24c02 c mem ready" and d: "ready d" and st: "wf_settings st"
    and s: "length s1 = 4" "length s2 = 4" "length buf = 8" "length rbuf = 30"
  shows "\<exists>d1 d2. let st' = st\<lparr>ipConfig := (ipConfig st)\<lparr>mac := map mac_kept (mac (ipConfig st))\<rparr>,
                           uartConfig := [0, 0, 0] @ drop 3 (uartConfig st)\<rparr> in
     cbSetAddr_ok c s1 s2 buf (shown st) (settings_ram st) d = Some (True, settings_ram st', d1)
     \<and> EEPROM_ReadStruct c rbuf d1 = Some (st', d2)"
proof -
  let ?st = "st\<lparr>ipConfig := (ipConfig st)\<lparr>mac := map mac_kept (mac (ipConfig st))\<rparr>, uartConfig := [0, 0, 0] @ drop 3 (uartConfig st)\<rparr>"
  have w: "wf_settings ?st" using st by (simp add: wf_settings_def)
  have l: "length (settings_ram st) = 30" using st by (simp add: wf_settings_def settings_ram_def)
  have e: "entered (shown st) @ [0, 0, 0] @ drop 21 (settings_ram st) = settings_ram ?st"
    using st by (simp add: entered_shown) (simp add: wf_settings_def settings_ram_def)
  obtain d1 d2 where 1: "EEPROM_WriteStruct c buf ?st d = Some (True, d1)" "EEPROM_ReadStruct c rbuf d1 = Some (?st, d2)"
    using save_and_read [OF chip d w s(3,4)] by blast
  have "\<forall>i < 12. as_three (shown st i) \<le> 255" using fields_ok_shown(2) by blast
  then have "cbSetAddr_ok c s1 s2 buf (shown st) (settings_ram st) d = Some (True, settings_ram ?st, d1)"
    using address_dialog [OF fields_ok_shown(1) [of st] s(1,2) l, of c buf d] 1(1)
    unfolding if_P [OF \<open>\<forall>i < 12. _ i\<close>] e Let_def settings_at_ram [OF w] by simp
  then show ?thesis using 1(2) by (auto simp: Let_def)
qed

theorem address_dialog_confirm_witness:
  "\<exists>d1 d2. cbSetAddr_ok ex_chip [0, 0, 0, 0] [1, 1, 1, 1] (replicate 8 0) (shown ex_settings) (settings_ram ex_settings) (\<lambda>_. 0xFF, False)
       = Some (True, settings_ram (ex_settings\<lparr>ipConfig := (ipConfig ex_settings)\<lparr>mac := [30, 48, 10, 16, 69, 94]\<rparr>, uartConfig := [0, 0, 0, 1, 1, 1]\<rparr>), d1)
     \<and> EEPROM_ReadStruct ex_chip (replicate 30 0) d1 = Some (ex_settings\<lparr>ipConfig := (ipConfig ex_settings)\<lparr>mac := [30, 48, 10, 16, 69, 94]\<rparr>, uartConfig := [0, 0, 0, 1, 1, 1]\<rparr>, d2)"
proof -
  have "map mac_kept (mac (ipConfig ex_settings)) = [30, 48, 10, 16, 69, 94]"
    "[0, 0, 0] @ drop 3 (uartConfig ex_settings) = [0, 0, 0, 1, 1, 1]"
    by (simp_all add: ex_settings_def mac_kept_def)
  then show ?thesis
    using address_dialog_confirm [OF ex_chip_ok _ ex_settings_wf, of "(\<lambda>_. 0xFF, False)" "[0, 0, 0, 0]" "[1, 1, 1, 1]" "replicate 8 0" "replicate 30 0"]
    by (simp add: ex_ready_def Let_def)
qed

end
