(* ===== verification/Clock.thy ===== *)
theory Clock
  imports Dialogs
begin

text \<open>
  The clock dialog (\<open>User/user_SetTime.c\<close>) with the functions of the clock driver it uses
  (\<open>LPC177x_8xLib/src/lpc177x_8x_rtc.c\<close>). The registers are those of the device at the moment of
  the call; that the device counts on is not modelled. A value the driver refuses sends it into
  \<open>while(1)\<close>: \<open>RTC_SetTime\<close> is then \<open>None\<close> and the dialog's outcome \<open>Hangs\<close>.
\<close>

section \<open>Dates\<close>

record MY_DATE =
  year :: u32
  mon :: u32
  day :: u32
  hour :: u32
  minute :: u32
  sec :: u32

definition IsLeap :: "u16 \<Rightarrow> bool" where
  "IsLeap y = (if y mod 400 = 0 then True else if y mod 100 \<noteq> 0 \<and> y mod 4 = 0 then True else False)"

definition CheckTime :: "MY_DATE \<Rightarrow> bool" where
  "CheckTime t =
     (if sec t \<ge> 60 \<or> minute t \<ge> 60 \<or> hour t \<ge> 24 \<or> mon t > 12 \<or> (year t < 1990 \<or> year t > 2100) then False
      else let dayOfMon :: u16 =
             (if mon t = 1 \<or> mon t = 3 \<or> mon t = 5 \<or> mon t = 7 \<or> mon t = 8 \<or> mon t = 10 \<or> mon t = 12 then 31
              else if mon t = 2 then (if IsLeap (ucast (year t)) then 29 else 28)
              else 30)
           in if day t > ucast dayOfMon then False else True)"

section \<open>The clock driver\<close>

record RTC =
  SEC :: u8
  MINUTE :: u8
  HOUR :: u8
  DOM :: u8
  DOW :: u8
  DOY :: u16
  MONTH :: u8
  YEAR :: u16

record RTC_TIME =
  t_SEC :: u32
  t_MINUTE :: u32
  t_HOUR :: u32
  t_DOM :: u32
  t_DOW :: u32
  t_DOY :: u32
  t_MONTH :: u32
  t_YEAR :: u32

definition RTC_SetTime :: "u32 \<Rightarrow> u32 \<Rightarrow> RTC \<Rightarrow> RTC option" where
  "RTC_SetTime ty v r =
     (if ty = 0 then if v \<ge> 59 then None else Some (r\<lparr>SEC := ucast (v AND 0x3F)\<rparr>)
      else if ty = 1 then if v \<ge> 59 then None else Some (r\<lparr>MINUTE := ucast (v AND 0x3F)\<rparr>)
      else if ty = 2 then if v \<ge> 23 then None else Some (r\<lparr>HOUR := ucast (v AND 0x1F)\<rparr>)
      else if ty = 3 then if v \<ge> 6 then None else Some (r\<lparr>DOW := ucast (v AND 0x07)\<rparr>)
      else if ty = 4 then if v \<le> 1 \<or> v \<ge> 31 then None else Some (r\<lparr>DOM := ucast (v AND 0x1F)\<rparr>)
      else if ty = 5 then if v \<le> 1 \<or> v \<ge> 366 then None else Some (r\<lparr>DOY := ucast (v AND 0x1FF)\<rparr>)
      else if ty = 6 then if v \<le> 1 \<or> v \<ge> 12 then None else Some (r\<lparr>MONTH := ucast (v AND 0x0F)\<rparr>)
      else if ty = 7 then if v \<ge> 4095 then None else Some (r\<lparr>YEAR := ucast (v AND 0xFFF)\<rparr>)
      else Some r)"

definition RTC_GetFullTime :: "RTC \<Rightarrow> RTC_TIME" where
  "RTC_GetFullTime r = \<lparr>t_SEC = ucast (SEC r) AND 0x3F, t_MINUTE = ucast (MINUTE r) AND 0x3F, t_HOUR = ucast (HOUR r) AND 0x1F,
     t_DOM = ucast (DOM r) AND 0x1F, t_DOW = ucast (DOW r) AND 0x07, t_DOY = ucast (DOY r) AND 0x1FF,
     t_MONTH = ucast (MONTH r) AND 0x0F, t_YEAR = ucast (YEAR r) AND 0xFFF\<rparr>"

section \<open>The dialog\<close>

text \<open>One field of \<open>n\<close> characters, read through the buffer \<open>s\<close>.\<close>

definition get_time :: "(nat \<Rightarrow> u8 list) \<Rightarrow> nat \<Rightarrow> nat \<Rightarrow> u32 \<Rightarrow> u8 list \<Rightarrow> (u32 \<times> u8 list) option" where
  "get_time txts n i old s = do { s \<leftarrow> EDIT_GetText (txts i) n s; Some (scan_i32 (c_str s) old, s) }"

definition getUserInputTime :: "(nat \<Rightarrow> u8 list) \<Rightarrow> u8 list \<Rightarrow> MY_DATE \<Rightarrow> MY_DATE option" where
  "getUserInputTime txts s t = do {
     (v, s) \<leftarrow> get_time txts 4 0 (year t) s;
     let t = t\<lparr>year := v\<rparr>;
     (v, s) \<leftarrow> get_time txts 2 1 (mon t) s;
     let t = t\<lparr>mon := v\<rparr>;
     (v, s) \<leftarrow> get_time txts 2 2 (day t) s;
     let t = t\<lparr>day := v\<rparr>;
     (v, s) \<leftarrow> get_time txts 2 3 (hour t) s;
     let t = t\<lparr>hour := v\<rparr>;
     (v, s) \<leftarrow> get_time txts 2 4 (minute t) s;
     let t = t\<lparr>minute := v\<rparr>;
     (v, s) \<leftarrow> get_time txts 2 5 (sec t) s;
     Some (t\<lparr>sec := v\<rparr>) }"

definition set_clock :: "MY_DATE \<Rightarrow> RTC \<Rightarrow> RTC option" where
  "set_clock t r = do {
     r \<leftarrow> RTC_SetTime 0 (sec t) r;
     r \<leftarrow> RTC_SetTime 1 (minute t) r;
     r \<leftarrow> RTC_SetTime 2 (hour t) r;
     r \<leftarrow> RTC_SetTime 6 (mon t) r;
     r \<leftarrow> RTC_SetTime 7 (year t) r;
     RTC_SetTime 4 (day t) r }"

datatype clock_outcome = Stays MY_DATE | Hangs MY_DATE | Closes MY_DATE RTC

text \<open>The button that confirms; \<open>s\<close> is the buffer of the fields, \<open>t\<close> the variable \<open>currentTime\<close>.\<close>

definition cbSetTime_ok :: "u8 list \<Rightarrow> (nat \<Rightarrow> u8 list) \<Rightarrow> MY_DATE \<Rightarrow> RTC \<Rightarrow> clock_outcome option" where
  "cbSetTime_ok s txts t r = do {
     t \<leftarrow> getUserInputTime txts s t;
     Some (if CheckTime t then (case set_clock t r of None \<Rightarrow> Hangs t | Some r \<Rightarrow> Closes t r) else Stays t) }"

section \<open>The calendar\<close>

definition leap :: "nat \<Rightarrow> bool" where
  "leap y \<longleftrightarrow> 4 dvd y \<and> (\<not> 100 dvd y \<or> 400 dvd y)"

definition month_days :: "nat \<Rightarrow> nat list" where
  "month_days y = [31, if leap y then 29 else 28, 31, 30, 31, 30, 31, 31, 30, 31, 30, 31]"

definition calendar_date :: "nat \<Rightarrow> nat \<Rightarrow> nat \<Rightarrow> bool" where
  "calendar_date y m d \<longleftrightarrow> 1 \<le> m \<and> m \<le> 12 \<and> 1 \<le> d \<and> d \<le> month_days y ! (m - 1)"

lemma IsLeap_leap: "IsLeap w \<longleftrightarrow> leap (unat w)"
proof -
  have "w mod n = 0 \<longleftrightarrow> unat n dvd unat w" for n
    using unat_eq_0 [of "w mod n"] by (simp add: unat_mod dvd_eq_mod_eq_0)
  then have "w mod 400 = 0 \<longleftrightarrow> 400 dvd unat w" "w mod 100 = 0 \<longleftrightarrow> 100 dvd unat w" "w mod 4 = 0 \<longleftrightarrow> 4 dvd unat w"
    by simp_all
  moreover have "(400 :: nat) dvd n \<Longrightarrow> 4 dvd n" for n using dvd_trans [of 4 400 n] by simp
  ultimately show ?thesis unfolding IsLeap_def leap_def by auto
qed

section \<open>Reading and setting\<close>

definition clock_text :: "(nat \<Rightarrow> u8 list) \<Rightarrow> MY_DATE" where
  "clock_text txts = \<lparr>year = word_of_nat (field_val txts 4 0), mon = word_of_nat (field_val txts 2 1), day = word_of_nat (field_val txts 2 2),
     hour = word_of_nat (field_val txts 2 3), minute = word_of_nat (field_val txts 2 4), sec = word_of_nat (field_val txts 2 5)\<rparr>"

lemma get_time_ok:
  assumes "digit_text (txts i)" and "length s = 8" and "0 < n" and "n \<le> 4"
  shows "\<exists>s'. get_time txts n i old s = Some (word_of_nat (field_val txts n i), s') \<and> length s' = 8"
proof -
  have d: "digit_text (take n (txts i))" by (rule digit_text_take [OF assms(1,3)])
  have "EDIT_GetText (txts i) n s = Some (take n (txts i) @ 0 # drop (Suc (length (take n (txts i)))) s)"
    using assms(2,4) by (simp add: EDIT_GetText_def sprintf_ok)
  then show ?thesis
    using digit_text_no_nul [OF d] scan_digit_text [OF d] assms(2,4)
    by (auto simp: get_time_def scan_i32_def field_val_def)
qed

lemma getUserInputTime_ok:
  assumes "\<forall>i < 6. digit_text (txts i)" and "length s = 8"
  shows "getUserInputTime txts s t = Some (clock_text txts)"
proof -
  have d: "digit_text (txts 0)" "digit_text (txts 1)" "digit_text (txts 2)" "digit_text (txts 3)" "digit_text (txts 4)" "digit_text (txts 5)"
    using assms(1) by simp_all
  have four: "0 < (4 :: nat)" "4 \<le> (4 :: nat)" and two: "0 < (2 :: nat)" "2 \<le> (4 :: nat)" by simp_all
  obtain s0 where 0: "get_time txts 4 0 (year t) s = Some (word_of_nat (field_val txts 4 0), s0)" "length s0 = 8"
    using get_time_ok [of txts 0 s, OF d(1) assms(2) four] by blast
  obtain s1 where 1: "get_time txts 2 1 (mon t) s0 = Some (word_of_nat (field_val txts 2 1), s1)" "length s1 = 8"
    using get_time_ok [of txts 1 s0, OF d(2) 0(2) two] by blast
  obtain s2 where 2: "get_time txts 2 2 (day t) s1 = Some (word_of_nat (field_val txts 2 2), s2)" "length s2 = 8"
    using get_time_ok [of txts 2 s1, OF d(3) 1(2) two] by blast
  obtain s3 where 3: "get_time txts 2 3 (hour t) s2 = Some (word_of_nat (field_val txts 2 3), s3)" "length s3 = 8"
    using get_time_ok [of txts 3 s2, OF d(4) 2(2) two] by blast
  obtain s4 where 4: "get_time txts 2 4 (minute t) s3 = Some (word_of_nat (field_val txts 2 4), s4)" "length s4 = 8"
    using get_time_ok [of txts 4 s3, OF d(5) 3(2) two] by blast
  obtain s5 where 5: "get_time txts 2 5 (sec t) s4 = Some (word_of_nat (field_val txts 2 5), s5)"
    using get_time_ok [of txts 5 s4, OF d(6) 4(2) two] by blast
  show ?thesis using 0(1) 1(1) 2(1) 3(1) 4(1) 5 by (simp add: getUserInputTime_def clock_text_def Let_def)
qed

text \<open>What the driver takes without looping, and the registers after it.\<close>

definition driver_takes :: "MY_DATE \<Rightarrow> bool" where
  "driver_takes t \<longleftrightarrow> sec t < 59 \<and> minute t < 59 \<and> hour t < 23 \<and> 1 < mon t \<and> mon t < 12 \<and> year t < 4095 \<and> 1 < day t \<and> day t < 31"

lemma and_low:
  fixes v :: u32
  assumes "v < k" and "unat k \<le> 2 ^ n" and "m = 2 ^ n - 1"
  shows "v AND m = v"
proof -
  have "unat v < 2 ^ n" using assms(1,2) by (simp add: word_less_nat_alt)
  then have "take_bit n v = v" by (simp add: word_unat_eq_iff unsigned_take_bit_eq take_bit_nat_eq_self)
  then show ?thesis using assms(3) by (simp add: take_bit_eq_mask mask_eq_exp_minus_1)
qed

lemma ucast_low:
  fixes v :: u32
  assumes "v < k" and "unat k \<le> 2 ^ LENGTH('a)"
  shows "ucast (ucast v :: 'a::len word) = v"
proof -
  have "unat v < 2 ^ LENGTH('a)" using assms by (simp add: word_less_nat_alt)
  then show ?thesis by (simp add: word_unat_eq_iff unsigned_ucast_eq unsigned_take_bit_eq take_bit_nat_eq_self)
qed

definition shows_date :: "MY_DATE \<Rightarrow> RTC \<Rightarrow> RTC \<Rightarrow> bool" where
  "shows_date t r r' \<longleftrightarrow> RTC_GetFullTime r' = (RTC_GetFullTime r)\<lparr>t_SEC := sec t, t_MINUTE := minute t, t_HOUR := hour t,
     t_DOM := day t, t_MONTH := mon t, t_YEAR := year t\<rparr>"

lemma set_clock_ok:
  "\<exists>r'. if driver_takes t then set_clock t r = Some r' \<and> shows_date t r r' else set_clock t r = None"
proof (cases "driver_takes t")
  case True
  then have a: "sec t AND 0x3F = sec t" "minute t AND 0x3F = minute t" "hour t AND 0x1F = hour t" "mon t AND 0x0F = mon t"
      "year t AND 0xFFF = year t" "day t AND 0x1F = day t"
    using and_low [of "sec t" 59 6] and_low [of "minute t" 59 6] and_low [of "hour t" 23 5] and_low [of "mon t" 12 4]
      and_low [of "year t" 4095 12] and_low [of "day t" 31 5]
    by (simp_all add: driver_takes_def)
  have u: "ucast (ucast (sec t) :: u8) = sec t" "ucast (ucast (minute t) :: u8) = minute t" "ucast (ucast (hour t) :: u8) = hour t"
      "ucast (ucast (mon t) :: u8) = mon t" "ucast (ucast (year t) :: u16) = year t" "ucast (ucast (day t) :: u8) = day t"
    using True ucast_low [of "sec t" 59, where 'a = 8] ucast_low [of "minute t" 59, where 'a = 8] ucast_low [of "hour t" 23, where 'a = 8]
      ucast_low [of "mon t" 12, where 'a = 8] ucast_low [of "year t" 4095, where 'a = 16] ucast_low [of "day t" 31, where 'a = 8]
    by (simp_all add: driver_takes_def)
  have "set_clock t r = Some (r\<lparr>SEC := ucast (sec t), MINUTE := ucast (minute t), HOUR := ucast (hour t), MONTH := ucast (mon t),
     YEAR := ucast (year t), DOM := ucast (day t)\<rparr>)"
    using True by (simp add: set_clock_def RTC_SetTime_def driver_takes_def a linorder_not_le [symmetric])
  then show ?thesis using True by (simp add: shows_date_def RTC_GetFullTime_def u a)
next
  case False
  then show ?thesis by (auto simp: set_clock_def RTC_SetTime_def driver_takes_def linorder_not_le [symmetric])
qed

section \<open>Properties\<close>

text \<open>The clock dialog accepts exactly the dates of the calendar from 1990 to 2100 at a time of day, and
  besides them day 0 of any month and the days up to 30 of month 0.\<close>

theorem CheckTime_dates:
  "CheckTime t \<longleftrightarrow> sec t < 60 \<and> minute t < 60 \<and> hour t < 24 \<and> 1990 \<le> year t \<and> year t \<le> 2100
     \<and> (calendar_date (unat (year t)) (unat (mon t)) (unat (day t))
        \<or> mon t \<le> 12 \<and> day t = 0 \<or> mon t = 0 \<and> day t \<le> 30)"
proof (cases "1990 \<le> year t \<and> year t \<le> 2100 \<and> mon t \<le> 12")
  case True
  have "unat (year t) \<le> 2100" using True by (simp add: word_le_nat_alt)
  then have y: "IsLeap (ucast (year t)) = leap (unat (year t))"
    by (simp add: IsLeap_leap unsigned_ucast_eq take_bit_eq_mod)
  define m where "m = unat (mon t)"
  have e: "mon t = w \<longleftrightarrow> m = unat w" for w by (simp add: m_def word_unat_eq_iff)
  have "m < 13" using True by (simp add: m_def word_le_nat_alt)
  then consider "m = 0" | "m = 1" | "m = 2" | "m = 3" | "m = 4" | "m = 5" | "m = 6" | "m = 7" | "m = 8"
    | "m = 9" | "m = 10" | "m = 11" | "m = 12"
    by (auto simp: less_Suc_eq numeral_eq_Suc)
  then show ?thesis
    using True
    by cases (auto simp: CheckTime_def y calendar_date_def month_days_def Let_def e m_def [symmetric] word_le_nat_alt word_less_nat_alt
        unat_eq_0 [symmetric] simp del: unat_eq_0)
next
  case False
  then show ?thesis by (auto simp: CheckTime_def calendar_date_def word_le_nat_alt word_less_nat_alt)
qed


text \<open>C16: confirming the clock dialog. A date the check refuses leaves it open. A date it accepts is read back from
  the clock as entered, if the driver takes it; but the driver loops forever at second or minute 59,
  at 23 hours, in January and December, on the first and the thirty-first of a month, and for
  month or day 0, all of which the check accepts.\<close>

theorem clock_dialog:
  assumes "\<forall>i < 6. digit_text (txts i)" and "length s = 8"
  shows "\<exists>r'. cbSetTime_ok s txts t0 r =
       Some (if \<not> CheckTime (clock_text txts) then Stays (clock_text txts)
             else if driver_takes (clock_text txts) then Closes (clock_text txts) r'
             else Hangs (clock_text txts))
     \<and> (driver_takes (clock_text txts) \<longrightarrow> RTC_GetFullTime r' =
          (RTC_GetFullTime r)\<lparr>t_SEC := sec (clock_text txts), t_MINUTE := minute (clock_text txts), t_HOUR := hour (clock_text txts),
            t_DOM := day (clock_text txts), t_MONTH := mon (clock_text txts), t_YEAR := year (clock_text txts)\<rparr>)"
proof -
  obtain r' where "if driver_takes (clock_text txts) then set_clock (clock_text txts) r = Some r' \<and> shows_date (clock_text txts) r r'
      else set_clock (clock_text txts) r = None"
    using set_clock_ok by blast
  then show ?thesis
    by (intro exI [of _ r']) (simp add: cbSetTime_ok_def getUserInputTime_ok [OF assms] shows_date_def split: if_splits)
qed

text \<open>30 March 2014, 15:45:00 and 15 January 2014, 15:45:00, on a clock that shows 0.\<close>

definition ex_fields :: "u8 list \<Rightarrow> nat \<Rightarrow> u8 list" where
  "ex_fields m i = [[0x32, 0x30, 0x31, 0x34], m, [0x33, 0x30], [0x31, 0x35], [0x34, 0x35], [0x30, 0x30]] ! i"

definition ex_date :: "u32 \<Rightarrow> MY_DATE" where
  "ex_date m = \<lparr>year = 2014, mon = m, day = 30, hour = 15, minute = 45, sec = 0\<rparr>"

definition ex_clock :: RTC where
  "ex_clock = \<lparr>SEC = 0, MINUTE = 0, HOUR = 0, DOM = 0, DOW = 0, DOY = 0, MONTH = 0, YEAR = 0\<rparr>"

lemma ex_fields_text:
  "clock_text (ex_fields [0x30, 0x33]) = ex_date 3" "clock_text (ex_fields [0x30, 0x31]) = ex_date 1"
  by (simp_all add: clock_text_def ex_date_def ex_fields_def field_val_def text_val_def is_digit_def)

lemma ex_fields_digits:
  "\<forall>i < 6. digit_text (ex_fields [0x30, 0x33] i)" "\<forall>i < 6. digit_text (ex_fields [0x30, 0x31] i)"
proof -
  have "i = 0 \<or> i = 1 \<or> i = 2 \<or> i = 3 \<or> i = 4 \<or> i = 5" if "i < 6" for i :: nat using that by linarith
  then show "\<forall>i < 6. digit_text (ex_fields [0x30, 0x33] i)" "\<forall>i < 6. digit_text (ex_fields [0x30, 0x31] i)"
    by (fastforce simp: ex_fields_def digit_text_def is_digit_def)+
qed

theorem clock_dialog_witness:
  "(\<exists>r'. cbSetTime_ok (replicate 8 0) (ex_fields [0x30, 0x33]) (ex_date 9) ex_clock = Some (Closes (ex_date 3) r')
     \<and> RTC_GetFullTime r' = \<lparr>t_SEC = 0, t_MINUTE = 45, t_HOUR = 15, t_DOM = 30, t_DOW = 0, t_DOY = 0, t_MONTH = 3, t_YEAR = 2014\<rparr>)
   \<and> cbSetTime_ok (replicate 8 0) (ex_fields [0x30, 0x31]) (ex_date 9) ex_clock = Some (Hangs (ex_date 1))"
proof -
  have c: "CheckTime (ex_date 3)" "CheckTime (ex_date 1)" "driver_takes (ex_date 3)" "\<not> driver_takes (ex_date 1)"
    by (simp_all add: CheckTime_def driver_takes_def ex_date_def Let_def)
  have "(RTC_GetFullTime ex_clock)\<lparr>t_SEC := sec (ex_date 3), t_MINUTE := minute (ex_date 3), t_HOUR := hour (ex_date 3),
      t_DOM := day (ex_date 3), t_MONTH := mon (ex_date 3), t_YEAR := year (ex_date 3)\<rparr>
    = \<lparr>t_SEC = 0, t_MINUTE = 45, t_HOUR = 15, t_DOM = 30, t_DOW = 0, t_DOY = 0, t_MONTH = 3, t_YEAR = 2014\<rparr>"
    by (simp add: ex_date_def ex_clock_def RTC_GetFullTime_def)
  then show ?thesis
    using clock_dialog [OF ex_fields_digits(1), of "replicate 8 0" "ex_date 9" ex_clock] c
      clock_dialog [OF ex_fields_digits(2), of "replicate 8 0" "ex_date 9" ex_clock]
    by (simp add: ex_fields_text)
qed

end
