(* ===== verification/Calibrate.thy ===== *)
theory Calibrate
  imports Dialogs
begin

text \<open>
  The measuring half of the calibration dialog (\<open>User/user_Correct.c\<close>): for the selected port a
  press of a button stores the value the user entered and the sample of the port. The
  two-dimensional arrays are flat lists of 32 elements; an index behind the last one is undefined.
  The arithmetic on the points, in floating point, is left out.
\<close>

section \<open>The dialog's state\<close>

record Correct =
  xCorrect :: "i32 list"
  yCorrect :: "i32 list"
  prePort :: i32
  preCurrent :: i32
  getDataCnt :: i32

definition Correct_init :: Correct where
  "Correct_init = \<lparr>xCorrect = replicate 32 0, yCorrect = replicate 32 0, prePort = 1000, preCurrent = -1, getDataCnt = 0\<rparr>"

text \<open>
  One press: the selected row, the texts of the two fields, the samples of the sixteen ports
  after the delay, and the contents of the locals that are not initialised.
\<close>

record press =
  port :: nat
  txt_current :: "u8 list"
  txt_value :: "u8 list"
  AD_now :: "u16 list"
  current0 :: i32
  str0 :: "u8 list"

definition IfFinishedOneCorrect :: "Correct \<Rightarrow> bool" where
  "IfFinishedOneCorrect st = (if sint (getDataCnt st) \<ge> 2 then True else False)"

definition getPortAD :: "press \<Rightarrow> i32 option" where
  "getPortAD p = map_option ucast (rd (AD_now p) (port p))"

definition getPortData :: "press \<Rightarrow> Correct \<Rightarrow> Correct option" where
  "getPortData p st =
     (if word_of_nat (port p) = prePort st then do {
        s \<leftarrow> EDIT_GetText (txt_current p) 4 (str0 p);
        let current = scan_i32 (c_str s) (current0 p);
        s \<leftarrow> EDIT_GetText (txt_value p) 4 s;
        let st = (if current \<noteq> preCurrent st then st\<lparr>getDataCnt := getDataCnt st + 1\<rparr> else st);
        let i = 2 * port p + unat (getDataCnt st) mod 2;
        old \<leftarrow> rd (xCorrect st) i;
        x \<leftarrow> wr (xCorrect st) i (scan_i32 (c_str s) old);
        ad \<leftarrow> getPortAD p;
        y \<leftarrow> wr (yCorrect st) (2 * port p + unat (getDataCnt st)) ad;
        Some (st\<lparr>xCorrect := x, yCorrect := y, prePort := word_of_nat (port p)\<rparr>) }
      else Some (st\<lparr>preCurrent := -1, getDataCnt := 0, prePort := word_of_nat (port p)\<rparr>))"

section \<open>Measuring a port\<close>

text \<open>A press on port \<open>p\<close> with decimal numbers in the fields.\<close>

definition press_ok :: "nat \<Rightarrow> press \<Rightarrow> bool" where
  "press_ok p pr \<longleftrightarrow> port pr = p \<and> digit_text (txt_current pr) \<and> digit_text (txt_value pr)
     \<and> length (AD_now pr) = 16 \<and> length (str0 pr) = 8"

definition sample :: "press \<Rightarrow> i32" where
  "sample pr = ucast (AD_now pr ! port pr)"

lemma field_text:
  assumes "digit_text t" and "length s = 8"
  shows "\<exists>s'. EDIT_GetText t 4 s = Some s' \<and> length s' = 8 \<and> c_str s' = take 4 t
     \<and> scan_i32 (c_str s') old = word_of_nat (text_val (take 4 t)) \<and> text_val (take 4 t) < 10000"
proof -
  have d: "digit_text (take 4 t)" by (rule digit_text_take [OF assms(1)]) simp
  have "length (take 4 t) \<le> 4" by simp
  then have "EDIT_GetText t 4 s = Some (take 4 t @ 0 # drop (Suc (length (take 4 t))) s)"
    using assms(2) by (simp add: EDIT_GetText_def sprintf_ok)
  moreover have "text_val (take 4 t) < 10 ^ length (take 4 t)"
    using text_val_less [of "take 4 t"] d by (simp add: digit_text_def)
  moreover have "(10 :: nat) ^ length (take 4 t) \<le> 10 ^ 4" by (rule power_increasing) simp_all
  ultimately show ?thesis
    using digit_text_no_nul [OF d] scan_digit_text [OF d] assms(2) by (auto simp: scan_i32_def)
qed

lemma small_not_minus_one: "v < 10000 \<Longrightarrow> (word_of_nat v :: i32) \<noteq> - 1"
proof
  assume v: "v < 10000" "(word_of_nat v :: i32) = - 1"
  then have "unat (word_of_nat v :: i32) = unat (- 1 :: i32)" by simp
  then show False using v(1) by (simp add: unat_of_nat unsigned_minus_1_eq_mask mask_eq_exp_minus_1)
qed

text \<open>The state while port \<open>p\<close> is measured, after \<open>k\<close> samples.\<close>

definition measuring :: "nat \<Rightarrow> nat \<Rightarrow> Correct \<Rightarrow> bool" where
  "measuring p k st \<longleftrightarrow> prePort st = word_of_nat p \<and> preCurrent st = -1 \<and> getDataCnt st = word_of_nat k
     \<and> length (xCorrect st) = 32 \<and> length (yCorrect st) = 32"

lemma one_press:
  assumes p: "p < 16" and k: "2 * p + k < 32" and st: "measuring p k st" and pr: "press_ok p pr"
  shows "if 2 * p + Suc k < 32
     then \<exists>st'. getPortData pr st = Some st' \<and> measuring p (Suc k) st' \<and> yCorrect st' = (yCorrect st)[2 * p + Suc k := sample pr]
     else getPortData pr st = None"
proof -
  have r: "port pr = p" "length (AD_now pr) = 16" using pr by (simp_all add: press_ok_def)
  obtain s1 where s1: "EDIT_GetText (txt_current pr) 4 (str0 pr) = Some s1" "length s1 = 8"
      "scan_i32 (c_str s1) (current0 pr) \<noteq> - 1"
    using field_text [of "txt_current pr" "str0 pr" "current0 pr"] pr small_not_minus_one by (auto simp: press_ok_def)
  obtain s2 where s2: "EDIT_GetText (txt_value pr) 4 s1 = Some s2"
    using field_text [of "txt_value pr" s1] pr s1(2) by (auto simp: press_ok_def)
  have c: "getDataCnt st + 1 = word_of_nat (Suc k)" using st by (simp add: measuring_def)
  have u: "unat (word_of_nat (Suc k) :: i32) = Suc k" using k by (simp add: unat_of_nat del: of_nat_Suc)
  let ?i = "2 * p + Suc k mod 2"
  have i: "?i < 32" using p by (simp add: mod_less_divisor [THEN order.strict_trans2])  
  have ad: "getPortAD pr = Some (sample pr)" using p r by (simp add: getPortAD_def sample_def rd_in del: rd_eq_Some)
  have len: "length (xCorrect st) = 32" "length (yCorrect st) = 32" using st by (simp_all add: measuring_def)
  let ?x = "(xCorrect st)[?i := scan_i32 (c_str s2) (xCorrect st ! ?i)]"
  let ?st = "st\<lparr>getDataCnt := word_of_nat (Suc k), xCorrect := ?x, yCorrect := (yCorrect st)[2 * p + Suc k := sample pr], prePort := word_of_nat p\<rparr>"
  have e: "getPortData pr st = (if 2 * p + Suc k < 32 then Some ?st else None)"
    using s1 s2 st c u i ad len r
    by (simp add: getPortData_def measuring_def Let_def rd_in wr_def del: rd_eq_Some of_nat_Suc)
  have "measuring p (Suc k) ?st" using st len by (simp add: measuring_def del: of_nat_Suc)
  then show ?thesis using e by (auto simp del: of_nat_Suc)
qed

lemma presses:
  assumes p: "p < 16"
  shows "measuring p k st \<Longrightarrow> 2 * p + k < 32 \<Longrightarrow> \<forall>pr \<in> set prs. press_ok p pr \<Longrightarrow>
     if 2 * p + k + length prs < 32
     then \<exists>st'. run getPortData prs st = Some st' \<and> measuring p (k + length prs) st'
        \<and> yCorrect st' = take (2 * p + k + 1) (yCorrect st) @ map sample prs @ drop (2 * p + k + 1 + length prs) (yCorrect st)
     else run getPortData prs st = None"
proof (induction prs arbitrary: k st)
  case Nil
  then show ?case by simp
next
  case (Cons pr prs)
  have o: "if 2 * p + Suc k < 32
     then \<exists>st'. getPortData pr st = Some st' \<and> measuring p (Suc k) st' \<and> yCorrect st' = (yCorrect st)[2 * p + Suc k := sample pr]
     else getPortData pr st = None"
    by (rule one_press [OF p Cons.prems(2,1)]) (use Cons.prems(3) in simp)
  show ?case
  proof (cases "2 * p + Suc k < 32")
    case False
    then show ?thesis using o by simp
  next
    case True
    then obtain st1 where 1: "getPortData pr st = Some st1" "measuring p (Suc k) st1"
        "yCorrect st1 = (yCorrect st)[2 * p + Suc k := sample pr]"
      using o by auto
    have y: "take (2 * p + Suc k + 1) (yCorrect st1) = take (2 * p + k + 1) (yCorrect st) @ [sample pr]"
      "drop (2 * p + Suc k + 1 + length prs) (yCorrect st1) = drop (2 * p + k + 1 + length (pr # prs)) (yCorrect st)"
      using True Cons.prems(1) by (simp_all add: 1(3) measuring_def take_Suc_conv_app_nth take_update_cancel)
    show ?thesis using Cons.IH [OF 1(2) True] Cons.prems(3) 1(1) unfolding y by (simp split: if_splits)
  qed
qed

section \<open>Properties\<close>

text \<open>C36: measuring a port the way the dialog asks for it never fills the port's first point: the press that
  selects the port stores nothing, the samples after it go to the second point and on, the
  second one into the first point of the next port; at the end of the array the write is
  undefined. The calibration counts as finished nevertheless after two samples.\<close>

theorem calibration_spills:
  assumes p: "p < 16" and st: "length (xCorrect st) = 32" "length (yCorrect st) = 32" "prePort st \<noteq> word_of_nat p"
    and prs: "\<forall>pr \<in> set (pr0 # prs). press_ok p pr"
  shows "if 2 * p + length prs < 32
     then \<exists>st'. run getPortData (pr0 # prs) st = Some st' \<and> (IfFinishedOneCorrect st' \<longleftrightarrow> 2 \<le> length prs)
        \<and> yCorrect st' = take (2 * p + 1) (yCorrect st) @ map sample prs @ drop (2 * p + 1 + length prs) (yCorrect st)
     else run getPortData (pr0 # prs) st = None"
proof -
  let ?st = "st\<lparr>preCurrent := -1, getDataCnt := 0, prePort := word_of_nat p\<rparr>"
  have first: "getPortData pr0 st = Some ?st" using st(3) prs by (simp add: getPortData_def press_ok_def)
  have m: "measuring p 0 ?st" using st(1,2) by (simp add: measuring_def)
  have q: "if 2 * p + 0 + length prs < 32
     then \<exists>st'. run getPortData prs ?st = Some st' \<and> measuring p (0 + length prs) st'
        \<and> yCorrect st' = take (2 * p + 0 + 1) (yCorrect ?st) @ map sample prs @ drop (2 * p + 0 + 1 + length prs) (yCorrect ?st)
     else run getPortData prs ?st = None"
    by (rule presses [OF p m]) (use p prs in simp_all)
  have f: "IfFinishedOneCorrect st' \<longleftrightarrow> 2 \<le> k" if "measuring p k st'" "k < 32" for k st'
    using that by (simp add: IfFinishedOneCorrect_def measuring_def signed_of_nat signed_take_bit_int_eq_self)
  show ?thesis
  proof (cases "2 * p + length prs < 32")
    case True
    then obtain st' where s: "run getPortData prs ?st = Some st'" "measuring p (length prs) st'"
        "yCorrect st' = take (2 * p + 1) (yCorrect st) @ map sample prs @ drop (2 * p + 1 + length prs) (yCorrect st)"
      using q by auto
    moreover have "IfFinishedOneCorrect st' \<longleftrightarrow> 2 \<le> length prs" using True by (intro f [OF s(2)]) simp
    ultimately show ?thesis using True first by auto
  next
    case False
    then show ?thesis using q first by simp
  qed
qed

text \<open>Presses on port 3 with the values 400 and 2000.\<close>

definition ex_press :: "u16 \<Rightarrow> press" where
  "ex_press ad = \<lparr>port = 3, txt_current = [0x34, 0x30, 0x30], txt_value = [0x32, 0x30, 0x30, 0x30],
     AD_now = replicate 16 ad, current0 = 0, str0 = replicate 8 0x55\<rparr>"

theorem calibration_spills_witness:
  "\<exists>st'. run getPortData [ex_press 400, ex_press 410, ex_press 2020] Correct_init = Some st' \<and> IfFinishedOneCorrect st'
     \<and> yCorrect st' = replicate 7 0 @ [410, 2020] @ replicate 23 0"
proof -
  have p: "\<forall>pr \<in> set [ex_press 400, ex_press 410, ex_press 2020]. press_ok 3 pr"
    by (simp add: ex_press_def press_ok_def digit_text_def is_digit_def)
  have s: "map sample [ex_press 410, ex_press 2020] = [410, 2020]" by (simp add: sample_def ex_press_def)
  have i: "length (xCorrect Correct_init) = 32" "length (yCorrect Correct_init) = 32" "prePort Correct_init \<noteq> word_of_nat 3"
      "take (2 * 3 + 1) (yCorrect Correct_init) = replicate 7 0"
      "drop (2 * 3 + 1 + length [ex_press 410, ex_press 2020]) (yCorrect Correct_init) = replicate 23 0"
    by (simp_all add: Correct_init_def)
  show ?thesis
    using calibration_spills [OF _ i(1-3) p] unfolding s i(4,5) by (simp del: run.simps)
qed

end
