(* ===== verification/Nand_Ecc.thy ===== *)
theory Nand_Ecc
  imports Prelude
begin

text \<open>
  The error correction of the flash file system (\<open>YAFFS2/yaffs_ecc.c\<close>): three bytes of parity over
  256 bytes of data. The parity of a block is linear over exclusive or; from this follows which
  errors the correction repairs and which it reports.
\<close>

section \<open>The code\<close>

definition column_parity_table :: "u8 list" where
  "column_parity_table =
    [0x00, 0x55, 0x59, 0x0c, 0x65, 0x30, 0x3c, 0x69, 0x69, 0x3c, 0x30, 0x65, 0x0c, 0x59, 0x55, 0x00,
     0x95, 0xc0, 0xcc, 0x99, 0xf0, 0xa5, 0xa9, 0xfc, 0xfc, 0xa9, 0xa5, 0xf0, 0x99, 0xcc, 0xc0, 0x95,
     0x99, 0xcc, 0xc0, 0x95, 0xfc, 0xa9, 0xa5, 0xf0, 0xf0, 0xa5, 0xa9, 0xfc, 0x95, 0xc0, 0xcc, 0x99,
     0x0c, 0x59, 0x55, 0x00, 0x69, 0x3c, 0x30, 0x65, 0x65, 0x30, 0x3c, 0x69, 0x00, 0x55, 0x59, 0x0c,
     0xa5, 0xf0, 0xfc, 0xa9, 0xc0, 0x95, 0x99, 0xcc, 0xcc, 0x99, 0x95, 0xc0, 0xa9, 0xfc, 0xf0, 0xa5,
     0x30, 0x65, 0x69, 0x3c, 0x55, 0x00, 0x0c, 0x59, 0x59, 0x0c, 0x00, 0x55, 0x3c, 0x69, 0x65, 0x30,
     0x3c, 0x69, 0x65, 0x30, 0x59, 0x0c, 0x00, 0x55, 0x55, 0x00, 0x0c, 0x59, 0x30, 0x65, 0x69, 0x3c,
     0xa9, 0xfc, 0xf0, 0xa5, 0xcc, 0x99, 0x95, 0xc0, 0xc0, 0x95, 0x99, 0xcc, 0xa5, 0xf0, 0xfc, 0xa9,
     0xa9, 0xfc, 0xf0, 0xa5, 0xcc, 0x99, 0x95, 0xc0, 0xc0, 0x95, 0x99, 0xcc, 0xa5, 0xf0, 0xfc, 0xa9,
     0x3c, 0x69, 0x65, 0x30, 0x59, 0x0c, 0x00, 0x55, 0x55, 0x00, 0x0c, 0x59, 0x30, 0x65, 0x69, 0x3c,
     0x30, 0x65, 0x69, 0x3c, 0x55, 0x00, 0x0c, 0x59, 0x59, 0x0c, 0x00, 0x55, 0x3c, 0x69, 0x65, 0x30,
     0xa5, 0xf0, 0xfc, 0xa9, 0xc0, 0x95, 0x99, 0xcc, 0xcc, 0x99, 0x95, 0xc0, 0xa9, 0xfc, 0xf0, 0xa5,
     0x0c, 0x59, 0x55, 0x00, 0x69, 0x3c, 0x30, 0x65, 0x65, 0x30, 0x3c, 0x69, 0x00, 0x55, 0x59, 0x0c,
     0x99, 0xcc, 0xc0, 0x95, 0xfc, 0xa9, 0xa5, 0xf0, 0xf0, 0xa5, 0xa9, 0xfc, 0x95, 0xc0, 0xcc, 0x99,
     0x95, 0xc0, 0xcc, 0x99, 0xf0, 0xa5, 0xa9, 0xfc, 0xfc, 0xa9, 0xa5, 0xf0, 0x99, 0xcc, 0xc0, 0x95,
     0x00, 0x55, 0x59, 0x0c, 0x65, 0x30, 0x3c, 0x69, 0x69, 0x3c, 0x30, 0x65, 0x0c, 0x59, 0x55, 0x00]"

definition yaffs_count_bits_table :: "nat list" where
  "yaffs_count_bits_table =
    [0, 1, 1, 2, 1, 2, 2, 3, 1, 2, 2, 3, 2, 3, 3, 4, 1, 2, 2, 3, 2, 3, 3, 4, 2, 3, 3, 4, 3, 4, 4, 5,
     1, 2, 2, 3, 2, 3, 3, 4, 2, 3, 3, 4, 3, 4, 4, 5, 2, 3, 3, 4, 3, 4, 4, 5, 3, 4, 4, 5, 4, 5, 5, 6,
     1, 2, 2, 3, 2, 3, 3, 4, 2, 3, 3, 4, 3, 4, 4, 5, 2, 3, 3, 4, 3, 4, 4, 5, 3, 4, 4, 5, 4, 5, 5, 6,
     2, 3, 3, 4, 3, 4, 4, 5, 3, 4, 4, 5, 4, 5, 5, 6, 3, 4, 4, 5, 4, 5, 5, 6, 4, 5, 5, 6, 5, 6, 6, 7,
     1, 2, 2, 3, 2, 3, 3, 4, 2, 3, 3, 4, 3, 4, 4, 5, 2, 3, 3, 4, 3, 4, 4, 5, 3, 4, 4, 5, 4, 5, 5, 6,
     2, 3, 3, 4, 3, 4, 4, 5, 3, 4, 4, 5, 4, 5, 5, 6, 3, 4, 4, 5, 4, 5, 5, 6, 4, 5, 5, 6, 5, 6, 6, 7,
     2, 3, 3, 4, 3, 4, 4, 5, 3, 4, 4, 5, 4, 5, 5, 6, 3, 4, 4, 5, 4, 5, 5, 6, 4, 5, 5, 6, 5, 6, 6, 7,
     3, 4, 4, 5, 4, 5, 5, 6, 4, 5, 5, 6, 5, 6, 6, 7, 4, 5, 5, 6, 5, 6, 6, 7, 5, 6, 6, 7, 6, 7, 7, 8]"

definition hweight8 :: "u8 \<Rightarrow> nat option" where
  "hweight8 x = rd yaffs_count_bits_table (unat x)"

type_synonym ecc = "u8 \<times> u8 \<times> u8"

text \<open>One pass of the loop: the column parity, the line parity and its complement.\<close>

definition ecc_step :: "u8 list \<Rightarrow> nat \<Rightarrow> ecc \<Rightarrow> ecc option" where
  "ecc_step data i = (\<lambda>(col, lp, lpp). do {
     x \<leftarrow> rd data i;
     b \<leftarrow> rd column_parity_table (unat x);
     Some (if b AND 1 \<noteq> 0 then (col XOR b, lp XOR word_of_nat i, lpp XOR NOT (word_of_nat i)) else (col XOR b, lp, lpp)) })"

definition ecc_bits :: "u8 \<Rightarrow> u8 \<Rightarrow> u8 \<Rightarrow> u8 \<Rightarrow> u8 \<Rightarrow> u8 \<Rightarrow> u8" where
  "ecc_bits lp lpp m3 m2 m1 m0 =
     (if lp AND m3 \<noteq> 0 then 0x80 else 0) OR (if lpp AND m3 \<noteq> 0 then 0x40 else 0) OR
     (if lp AND m2 \<noteq> 0 then 0x20 else 0) OR (if lpp AND m2 \<noteq> 0 then 0x10 else 0) OR
     (if lp AND m1 \<noteq> 0 then 0x08 else 0) OR (if lpp AND m1 \<noteq> 0 then 0x04 else 0) OR
     (if lp AND m0 \<noteq> 0 then 0x02 else 0) OR (if lpp AND m0 \<noteq> 0 then 0x01 else 0)"

definition yaffs_ecc_calc :: "u8 list \<Rightarrow> ecc option" where
  "yaffs_ecc_calc data = map_option (\<lambda>(col, lp, lpp).
     (NOT (ecc_bits lp lpp 0x08 0x04 0x02 0x01), NOT (ecc_bits lp lpp 0x80 0x40 0x20 0x10), NOT col OR 0x03))
     (run (ecc_step data) [0..<256] (0, 0, 0))"

text \<open>The result of the correction is the return value, the data and the stored parity after it.\<close>

definition yaffs_ecc_correct :: "u8 list \<Rightarrow> ecc \<Rightarrow> ecc \<Rightarrow> (int \<times> u8 list \<times> ecc) option" where
  "yaffs_ecc_correct data read_ecc test_ecc =
     (let d0 = fst read_ecc XOR fst test_ecc;
          d1 = fst (snd read_ecc) XOR fst (snd test_ecc);
          d2 = snd (snd read_ecc) XOR snd (snd test_ecc) in
      if d0 OR d1 OR d2 = 0 then Some (0, data, read_ecc)
      else if (d0 XOR drop_bit 1 d0) AND 0x55 = 0x55 \<and> (d1 XOR drop_bit 1 d1) AND 0x55 = 0x55
           \<and> (d2 XOR drop_bit 1 d2) AND 0x54 = 0x54 then
        let byte :: u32 = (if d1 AND 0x80 \<noteq> 0 then 0x80 else 0) OR (if d1 AND 0x20 \<noteq> 0 then 0x40 else 0) OR
              (if d1 AND 0x08 \<noteq> 0 then 0x20 else 0) OR (if d1 AND 0x02 \<noteq> 0 then 0x10 else 0) OR
              (if d0 AND 0x80 \<noteq> 0 then 0x08 else 0) OR (if d0 AND 0x20 \<noteq> 0 then 0x04 else 0) OR
              (if d0 AND 0x08 \<noteq> 0 then 0x02 else 0) OR (if d0 AND 0x02 \<noteq> 0 then 0x01 else 0);
            bit :: u32 = (if d2 AND 0x80 \<noteq> 0 then 0x04 else 0) OR (if d2 AND 0x20 \<noteq> 0 then 0x02 else 0) OR
              (if d2 AND 0x08 \<noteq> 0 then 0x01 else 0) in
        do {
          x \<leftarrow> rd data (unat byte);
          data \<leftarrow> wr data (unat byte) (x XOR push_bit (unat bit) 1);
          Some (1, data, read_ecc) }
      else do {
        w0 \<leftarrow> hweight8 d0;
        w1 \<leftarrow> hweight8 d1;
        w2 \<leftarrow> hweight8 d2;
        Some (if w0 + w1 + w2 = 1 then (1, data, test_ecc) else (-1, data, read_ecc)) })"

section \<open>The tables\<close>

definition pick :: "bool \<Rightarrow> u8 \<Rightarrow> u8" where
  "pick b g = (if b then g else 0)"

text \<open>The entry of a byte is the sum of the entries of its bits.\<close>

definition lin :: "u8 \<Rightarrow> u8" where
  "lin x = pick (bit x 0) 0x55 XOR pick (bit x 1) 0x59 XOR pick (bit x 2) 0x65 XOR pick (bit x 3) 0x69 XOR
     pick (bit x 4) 0x95 XOR pick (bit x 5) 0x99 XOR pick (bit x 6) 0xA5 XOR pick (bit x 7) 0xA9"

lemma column_parity_lin: "column_parity_table = map (\<lambda>n. lin (word_of_nat n)) [0..<256]"
  by code_simp

lemma column_parity_entry: "rd column_parity_table (unat x) = Some (lin x)"
proof -
  have "unat x < 256" using unsigned_less [of x] by simp
  then show ?thesis by (simp add: column_parity_lin rd_def)
qed

lemma pick_xor: "pick (a \<noteq> b) g = pick a g XOR pick b g"
  by (simp add: pick_def)

lemma lin_xor: "lin (x XOR y) = lin x XOR lin y"
  unfolding lin_def bit_xor_iff pick_xor by (simp only: ac_simps)

lemma hweight_table: "yaffs_count_bits_table = map (\<lambda>n. length (filter (bit (word_of_nat n :: u8)) [0..<8])) [0..<256]"
  by code_simp

lemma hweight8_bits: "hweight8 x = Some (length (filter (bit x) [0..<8]))"
proof -
  have "unat x < 256" using unsigned_less [of x] by simp
  then show ?thesis by (simp add: hweight8_def hweight_table rd_def)
qed

section \<open>The parity is linear\<close>

text \<open>
  The contract of a parity: a sum over the bytes of a block, additive in each byte. Then adding
  \<open>y\<close> to one byte adds its part to the sum.
\<close>

locale parity_sum =
  fixes add :: "'a \<Rightarrow> 'a \<Rightarrow> 'a"
    and part :: "nat \<Rightarrow> u8 \<Rightarrow> 'a"
  assumes add_assoc: "add (add a b) c = add a (add b c)"
    and add_commute: "add a b = add b a"
    and part_xor: "part i (x XOR y) = add (part i x) (part i y)"
begin

lemma add_left_commute: "add a (add b c) = add b (add a c)"
  by (metis add_assoc add_commute)

lemma sum_shift: "fold (\<lambda>i. add (f i)) is (add a b) = add a (fold (\<lambda>i. add (f i)) is b)"
  by (induction "is" arbitrary: b) (simp_all add: add_left_commute)

lemma sum_other: "k \<notin> set is \<Longrightarrow> fold (\<lambda>i. add (part i (data[k := z] ! i))) is st = fold (\<lambda>i. add (part i (data ! i))) is st"
  by (induction "is" arbitrary: st) auto

lemma sum_upd:
  assumes "k < length data" "k \<in> set is" "distinct is"
  shows "fold (\<lambda>i. add (part i (data[k := data ! k XOR y] ! i))) is st = add (part k y) (fold (\<lambda>i. add (part i (data ! i))) is st)"
  using assms(2,3)
proof (induction "is" arbitrary: st)
  case Nil
  then show ?case by simp
next
  case (Cons i "is")
  show ?case
  proof (cases "i = k")
    case True
    have "add (part k (data ! k XOR y)) st = add (part k y) (add (part k (data ! k)) st)"
      unfolding part_xor add_assoc by (rule add_left_commute)
    then show ?thesis using Cons.prems True assms(1) by (simp add: sum_other sum_shift)
  next
    case False
    then show ?thesis using Cons by simp
  qed
qed

end

definition xor3 :: "ecc \<Rightarrow> ecc \<Rightarrow> ecc" where
  "xor3 = (\<lambda>(a, b, c) (a', b', c'). (a XOR a', b XOR b', c XOR c'))"

text \<open>What the byte \<open>x\<close> at index \<open>i\<close> adds.\<close>

definition contr :: "nat \<Rightarrow> u8 \<Rightarrow> ecc" where
  "contr i x = (lin x, pick (bit (lin x) 0) (word_of_nat i), pick (bit (lin x) 0) (NOT (word_of_nat i)))"

lemma xor3_ac: "xor3 (xor3 a b) c = xor3 a (xor3 b c)" "xor3 a b = xor3 b a" "xor3 a (xor3 b c) = xor3 b (xor3 a c)"
  by (auto simp: xor3_def split_beta ac_simps)

lemma xor3_same: "xor3 a a = (0, 0, 0)" "xor3 a (0, 0, 0) = a"
  by (auto simp: xor3_def split_beta)

lemma contr_xor: "contr i (x XOR y) = xor3 (contr i x) (contr i y)"
  by (simp add: contr_def xor3_def lin_xor bit_xor_iff pick_def)

lemma and_bit_0: "(b :: u8) AND 1 \<noteq> 0 \<longleftrightarrow> bit b 0"
  by (simp add: bit_iff_and_push_bit_not_eq_0)

lemma ecc_step_contr: "i < length data \<Longrightarrow> ecc_step data i st = Some (xor3 st (contr i (data ! i)))"
  using column_parity_entry [of "data ! i"]
  by (cases st) (simp add: ecc_step_def and_bit_0 contr_def xor3_def pick_def rd_in del: rd_eq_Some)

lemma ecc_run:
  "\<forall>i \<in> set is. i < length data \<Longrightarrow> run (ecc_step data) is st = Some (fold (\<lambda>i. xor3 (contr i (data ! i))) is st)"
  by (induction "is" arbitrary: st) (simp_all add: ecc_step_contr xor3_ac(2))

interpretation ecc: parity_sum xor3 contr
  by unfold_locales (simp_all only: xor3_ac contr_xor)

definition parity :: "u8 list \<Rightarrow> ecc" where
  "parity data = fold (\<lambda>i. xor3 (contr i (data ! i))) [0..<256] (0, 0, 0)"

lemma parity_upd: "k < 256 \<Longrightarrow> length data = 256 \<Longrightarrow> parity (data[k := data ! k XOR y]) = xor3 (contr k y) (parity data)"
  using ecc.sum_upd [of k data "[0..<256]" y "(0, 0, 0)"] by (simp add: parity_def del: upt_rec_numeral)

text \<open>The three bytes as a function of the parity; their differences.\<close>

definition pack :: "ecc \<Rightarrow> ecc" where
  "pack = (\<lambda>(col, lp, lpp). (ecc_bits lp lpp 0x08 0x04 0x02 0x01, ecc_bits lp lpp 0x80 0x40 0x20 0x10, col))"

lemma yaffs_ecc_calc_parity:
  "length data = 256 \<Longrightarrow> yaffs_ecc_calc data = Some (let (a, b, c) = pack (parity data) in (NOT a, NOT b, NOT c OR 3))"
  by (simp add: yaffs_ecc_calc_def ecc_run parity_def pack_def split_beta Let_def del: upt_rec_numeral)

lemma bit_masks:
  fixes x :: u8
  shows "x AND 1 \<noteq> 0 \<longleftrightarrow> bit x 0" "x AND 2 \<noteq> 0 \<longleftrightarrow> bit x 1" "x AND 4 \<noteq> 0 \<longleftrightarrow> bit x 2" "x AND 8 \<noteq> 0 \<longleftrightarrow> bit x 3"
    "x AND 0x10 \<noteq> 0 \<longleftrightarrow> bit x 4" "x AND 0x20 \<noteq> 0 \<longleftrightarrow> bit x 5" "x AND 0x40 \<noteq> 0 \<longleftrightarrow> bit x 6" "x AND 0x80 \<noteq> 0 \<longleftrightarrow> bit x 7"
  by (simp_all add: bit_iff_and_push_bit_not_eq_0)

text \<open>A byte given by its bits.\<close>

definition octet :: "bool \<Rightarrow> bool \<Rightarrow> bool \<Rightarrow> bool \<Rightarrow> bool \<Rightarrow> bool \<Rightarrow> bool \<Rightarrow> bool \<Rightarrow> u8" where
  "octet b7 b6 b5 b4 b3 b2 b1 b0 =
     pick b7 0x80 OR pick b6 0x40 OR pick b5 0x20 OR pick b4 0x10 OR pick b3 0x08 OR pick b2 0x04 OR pick b1 0x02 OR pick b0 0x01"

lemma octet_XOR:
  "octet b7 b6 b5 b4 b3 b2 b1 b0 =
     pick b7 0x80 XOR pick b6 0x40 XOR pick b5 0x20 XOR pick b4 0x10 XOR pick b3 0x08 XOR pick b2 0x04 XOR pick b1 0x02 XOR pick b0 0x01"
  by (cases b7; cases b6; cases b5; cases b4; cases b3; cases b2; cases b1; cases b0; simp add: octet_def pick_def)

lemma octet_xor:
  "octet (a7 \<noteq> b7) (a6 \<noteq> b6) (a5 \<noteq> b5) (a4 \<noteq> b4) (a3 \<noteq> b3) (a2 \<noteq> b2) (a1 \<noteq> b1) (a0 \<noteq> b0)
     = octet a7 a6 a5 a4 a3 a2 a1 a0 XOR octet b7 b6 b5 b4 b3 b2 b1 b0"
  unfolding octet_XOR pick_xor by (simp only: ac_simps)

lemma octet_bits:
  "bit (octet b7 b6 b5 b4 b3 b2 b1 b0) 0 = b0" "bit (octet b7 b6 b5 b4 b3 b2 b1 b0) 1 = b1"
  "bit (octet b7 b6 b5 b4 b3 b2 b1 b0) 2 = b2" "bit (octet b7 b6 b5 b4 b3 b2 b1 b0) 3 = b3"
  "bit (octet b7 b6 b5 b4 b3 b2 b1 b0) 4 = b4" "bit (octet b7 b6 b5 b4 b3 b2 b1 b0) 5 = b5"
  "bit (octet b7 b6 b5 b4 b3 b2 b1 b0) 6 = b6" "bit (octet b7 b6 b5 b4 b3 b2 b1 b0) 7 = b7"
  by (simp_all add: octet_def pick_def bit_or_iff)

lemmas octet_bits_Suc = octet_bits [unfolded One_nat_def]

lemma below_8: "(n :: nat) < 8 \<longleftrightarrow> n \<in> {0, 1, 2, 3, 4, 5, 6, 7}"
  by auto

lemma octet_of_bits: "octet (bit x 7) (bit x 6) (bit x 5) (bit x 4) (bit x 3) (bit x 2) (bit x 1) (bit x 0) = (x :: u8)"
  by (rule bit_word_eqI) (auto simp: below_8 octet_bits_Suc)

lemma octet_pairs:
  "(octet b7 b6 b5 b4 b3 b2 b1 b0 XOR drop_bit 1 (octet b7 b6 b5 b4 b3 b2 b1 b0)) AND 0x55 = 0x55
     \<longleftrightarrow> b7 \<noteq> b6 \<and> b5 \<noteq> b4 \<and> b3 \<noteq> b2 \<and> b1 \<noteq> b0"
  "(octet b7 b6 b5 b4 b3 b2 b1 b0 XOR drop_bit 1 (octet b7 b6 b5 b4 b3 b2 b1 b0)) AND 0x54 = 0x54 \<longleftrightarrow> b7 \<noteq> b6 \<and> b5 \<noteq> b4 \<and> b3 \<noteq> b2"
  by (cases b7; cases b6; cases b5; cases b4; cases b3; cases b2; cases b1; cases b0; simp add: octet_def pick_def)+

lemma octet_value:
  "unat ((if b7 then 0x80 else 0) OR (if b6 then 0x40 else 0) OR (if b5 then 0x20 else 0) OR (if b4 then 0x10 else 0) OR
     (if b3 then 0x08 else 0) OR (if b2 then 0x04 else 0) OR (if b1 then 0x02 else 0) OR (if b0 then 0x01 else 0) :: u32)
   = unat (octet b7 b6 b5 b4 b3 b2 b1 b0)"
  by (cases b7; cases b6; cases b5; cases b4; cases b3; cases b2; cases b1; cases b0; simp add: octet_def pick_def)

lemma length_filter_Cons: "length (filter P (x # xs)) = of_bool (P x) + length (filter P xs)"
  by simp

lemma octet_hweight8:
  "hweight8 (octet b7 b6 b5 b4 b3 b2 b1 b0) = Some (of_bool b0 + (of_bool b1 + (of_bool b2 + (of_bool b3 +
     (of_bool b4 + (of_bool b5 + (of_bool b6 + of_bool b7)))))))"
proof -
  have "[0..<8] = [0, 1, 2, 3, 4, 5, 6, 7 :: nat]" by (simp add: upt_rec)
  then show ?thesis by (simp only: hweight8_bits length_filter_Cons octet_bits filter.simps(1) list.size add_0_right)
qed

lemma ecc_bits_octet:
  "ecc_bits lp lpp 0x08 0x04 0x02 0x01 =
     octet (bit lp 3) (bit lpp 3) (bit lp 2) (bit lpp 2) (bit lp 1) (bit lpp 1) (bit lp 0) (bit lpp 0)"
  "ecc_bits lp lpp 0x80 0x40 0x20 0x10 =
     octet (bit lp 7) (bit lpp 7) (bit lp 6) (bit lpp 6) (bit lp 5) (bit lpp 5) (bit lp 4) (bit lpp 4)"
  by (simp_all only: ecc_bits_def octet_def pick_def bit_masks)

lemma pack_xor: "pack (xor3 a b) = xor3 (pack a) (pack b)"
  by (cases a; cases b) (simp only: pack_def xor3_def prod.case ecc_bits_octet bit_xor_iff octet_xor)

section \<open>What the correction does with a difference\<close>

text \<open>The difference of the parities of two blocks, where the sums differ by \<open>z\<close>.\<close>

definition upper :: "ecc \<Rightarrow> ecc" where
  "upper = (\<lambda>(a, b, c). (a, b, c AND 0xFC))"

lemma calc_delta:
  assumes "length data = 256" "length data' = 256" "parity data' = xor3 z (parity data)"
    and "yaffs_ecc_calc data = Some e" "yaffs_ecc_calc data' = Some t"
  shows "xor3 e t = upper (pack z)"
proof -
  have less: "(NOT c OR 3) XOR (NOT (d XOR c) OR 3) = d AND 0xFC" for c d :: u8
    by (rule bit_word_eqI) (auto simp: below_8 bit_simps)
  obtain a b c where p: "pack (parity data) = (a, b, c)" by (metis prod_cases3)
  obtain a' b' c' where q: "pack z = (a', b', c')" by (metis prod_cases3)
  have "pack (parity data') = (a' XOR a, b' XOR b, c' XOR c)"
    unfolding assms(3) pack_xor p q by (simp add: xor3_def)
  then have "e = (NOT a, NOT b, NOT c OR 3)" "t = (NOT (a' XOR a), NOT (b' XOR b), NOT (c' XOR c) OR 3)"
    using assms p by (simp_all add: yaffs_ecc_calc_parity)
  moreover have "NOT a XOR NOT (d XOR a) = d" for a d :: u8
    by (rule bit_word_eqI) (auto simp: bit_simps)
  ultimately show ?thesis by (simp only: xor3_def upper_def q prod.case less)
qed

lemma calc_total: "length data = 256 \<Longrightarrow> \<exists>e. yaffs_ecc_calc data = Some e"
  by (cases "pack (parity data)") (simp add: yaffs_ecc_calc_parity)

lemma upper_octet: "octet b7 b6 b5 b4 b3 b2 b1 b0 AND 0xFC = octet b7 b6 b5 b4 b3 b2 False False"
  by (rule bit_word_eqI) (auto simp: below_8 octet_bits_Suc bit_simps)

lemma octet_zero: "octet b7 b6 b5 b4 b3 b2 b1 b0 = 0 \<longleftrightarrow> \<not> b7 \<and> \<not> b6 \<and> \<not> b5 \<and> \<not> b4 \<and> \<not> b3 \<and> \<not> b2 \<and> \<not> b1 \<and> \<not> b0"
  by (cases b7; cases b6; cases b5; cases b4; cases b3; cases b2; cases b1; cases b0; simp add: octet_def pick_def)

lemma below_8_cases: "(j :: nat) < 8 \<Longrightarrow> j = 0 \<or> j = 1 \<or> j = 2 \<or> j = 3 \<or> j = 4 \<or> j = 5 \<or> j = 6 \<or> j = 7"
  by auto

lemma lin_flip:
  assumes "j < 8"
  shows "lin (push_bit j 1) = octet (bit j 2) (\<not> bit j 2) (bit j 1) (\<not> bit j 1) (bit j 0) (\<not> bit j 0) False True"
  using below_8_cases [OF assms] by (elim disjE) (hypsubst, code_simp)+

lemma contr_flip:
  assumes "j < 8"
  shows "contr k (push_bit j 1) =
    (octet (bit j 2) (\<not> bit j 2) (bit j 1) (\<not> bit j 1) (bit j 0) (\<not> bit j 0) False True, word_of_nat k, NOT (word_of_nat k))"
  by (simp only: contr_def lin_flip [OF assms] octet_bits pick_def if_True)

lemma pack_flip:
  assumes "j < 8"
  shows "upper (pack (contr k (push_bit j 1))) = (let w = word_of_nat k :: u8 in
    (octet (bit w 3) (\<not> bit w 3) (bit w 2) (\<not> bit w 2) (bit w 1) (\<not> bit w 1) (bit w 0) (\<not> bit w 0),
     octet (bit w 7) (\<not> bit w 7) (bit w 6) (\<not> bit w 6) (bit w 5) (\<not> bit w 5) (bit w 4) (\<not> bit w 4),
     octet (bit j 2) (\<not> bit j 2) (bit j 1) (\<not> bit j 1) (bit j 0) (\<not> bit j 0) False False))"
  by (simp only: contr_flip [OF assms] pack_def ecc_bits_octet upper_def upper_octet prod.case Let_def) (simp add: bit_not_iff)

lemma bit_index:
  assumes "j < 8"
  shows "unat ((if bit j 2 then 0x04 else 0) OR (if bit j 1 then 0x02 else 0) OR (if bit j 0 then 0x01 else 0) :: u32) = j"
  using below_8_cases [OF assms] by (elim disjE) (hypsubst, code_simp)+

lemma correct_delta:
  assumes "xor3 e t = (d0, d1, d2)"
  shows "fst e XOR fst t = d0" "fst (snd e) XOR fst (snd t) = d1" "snd (snd e) XOR snd (snd t) = d2"
  using assms by (simp_all add: xor3_def split_beta)

lemma correct_same: "yaffs_ecc_correct data e e = Some (0, data, e)"
  by (simp add: yaffs_ecc_correct_def)

text \<open>Every pair of bits of the difference differs: the data bit they name is changed back.\<close>

lemma correct_pairs:
  fixes w :: u8
  assumes j: "j < 8" and w: "unat w < length data"
    and d: "xor3 e t =
      (octet (bit w 3) (\<not> bit w 3) (bit w 2) (\<not> bit w 2) (bit w 1) (\<not> bit w 1) (bit w 0) (\<not> bit w 0),
       octet (bit w 7) (\<not> bit w 7) (bit w 6) (\<not> bit w 6) (bit w 5) (\<not> bit w 5) (bit w 4) (\<not> bit w 4),
       octet (bit j 2) (\<not> bit j 2) (bit j 1) (\<not> bit j 1) (bit j 0) (\<not> bit j 0) False False)"
  shows "yaffs_ecc_correct data e t = Some (1, data[unat w := data ! unat w XOR push_bit j 1], e)"
proof -
  note b = octet_value [of "bit w 7" "bit w 6" "bit w 5" "bit w 4" "bit w 3" "bit w 2" "bit w 1" "bit w 0", unfolded octet_of_bits]
  have "\<not> (octet (bit w 3) (\<not> bit w 3) (bit w 2) (\<not> bit w 2) (bit w 1) (\<not> bit w 1) (bit w 0) (\<not> bit w 0) OR
       octet (bit w 7) (\<not> bit w 7) (bit w 6) (\<not> bit w 6) (bit w 5) (\<not> bit w 5) (bit w 4) (\<not> bit w 4) OR
       octet (bit j 2) (\<not> bit j 2) (bit j 1) (\<not> bit j 1) (bit j 0) (\<not> bit j 0) False False = 0)"
    by (auto simp: or_eq_0_iff octet_zero)
  then show ?thesis
    unfolding yaffs_ecc_correct_def correct_delta [OF d] Let_def bit_masks octet_bits octet_pairs b bit_index [OF j]
    using w by (simp add: rd_in wr_in del: rd_eq_Some)
qed

text \<open>The two bits of every pair are equal and some pair is set: nothing is changed.\<close>

lemma correct_even:
  assumes d: "xor3 e t = (octet a3 a3 a2 a2 a1 a1 a0 a0, octet b3 b3 b2 b2 b1 b1 b0 b0, octet c2 c2 c1 c1 c0 c0 False False)"
    and n: "xor3 e t \<noteq> (0, 0, 0)"
  shows "yaffs_ecc_correct data e t = Some (-1, data, e)"
proof -
  have "\<not> (octet a3 a3 a2 a2 a1 a1 a0 a0 OR octet b3 b3 b2 b2 b1 b1 b0 b0 OR octet c2 c2 c1 c1 c0 c0 False False = 0)"
    using n unfolding d by (auto simp: or_eq_0_iff octet_zero)
  moreover have "x + x \<noteq> (1 :: nat)" for x by presburger
  ultimately show ?thesis
    unfolding yaffs_ecc_correct_def correct_delta [OF d] Let_def octet_pairs octet_hweight8
    by simp
qed

text \<open>One bit of the difference is set: the stored parity is replaced.\<close>

lemma correct_single:
  assumes d: "xor3 e t = (octet a7 a6 a5 a4 a3 a2 a1 a0, octet b7 b6 b5 b4 b3 b2 b1 b0, octet c7 c6 c5 c4 c3 c2 c1 c0)"
    and n: "length (filter id [a0, a1, a2, a3, a4, a5, a6, a7, b0, b1, b2, b3, b4, b5, b6, b7, c0, c1, c2, c3, c4, c5, c6, c7]) = 1"
  shows "yaffs_ecc_correct data e t = Some (1, data, t)"
proof -
  have sum: "of_bool a0 + of_bool a1 + of_bool a2 + of_bool a3 + of_bool a4 + of_bool a5 + of_bool a6 + of_bool a7 +
     of_bool b0 + of_bool b1 + of_bool b2 + of_bool b3 + of_bool b4 + of_bool b5 + of_bool b6 + of_bool b7 +
     of_bool c0 + of_bool c1 + of_bool c2 + of_bool c3 + of_bool c4 + of_bool c5 + of_bool c6 + of_bool c7 = (1 :: nat)"
    using n by (simp only: length_filter_Cons id_apply filter.simps(1) list.size add_0_right)
  have nz: "\<not> (octet a7 a6 a5 a4 a3 a2 a1 a0 OR octet b7 b6 b5 b4 b3 b2 b1 b0 OR octet c7 c6 c5 c4 c3 c2 c1 c0 = 0)"
  proof
    assume "octet a7 a6 a5 a4 a3 a2 a1 a0 OR octet b7 b6 b5 b4 b3 b2 b1 b0 OR octet c7 c6 c5 c4 c3 c2 c1 c0 = 0"
    then show False using sum by (simp add: or_eq_0_iff octet_zero)
  qed
  have "\<not> (a7 \<noteq> a6 \<and> a5 \<noteq> a4 \<and> a3 \<noteq> a2 \<and> a1 \<noteq> a0)"
  proof
    assume "a7 \<noteq> a6 \<and> a5 \<noteq> a4 \<and> a3 \<noteq> a2 \<and> a1 \<noteq> a0"
    then have "of_bool a6 + of_bool a7 = (1 :: nat)" "of_bool a4 + of_bool a5 = (1 :: nat)" by auto
    then show False using sum by linarith
  qed
  then have np: "\<not> ((a7 \<noteq> a6 \<and> a5 \<noteq> a4 \<and> a3 \<noteq> a2 \<and> a1 \<noteq> a0) \<and> (b7 \<noteq> b6 \<and> b5 \<noteq> b4 \<and> b3 \<noteq> b2 \<and> b1 \<noteq> b0) \<and>
      c7 \<noteq> c6 \<and> c5 \<noteq> c4 \<and> c3 \<noteq> c2)" by blast
  show ?thesis
    unfolding yaffs_ecc_correct_def correct_delta [OF d] Let_def octet_pairs octet_hweight8 if_not_P [OF nz] if_not_P [OF np]
    using sum by (simp add: add.assoc)
qed

lemma upper_pack_xor: "upper (pack (xor3 a b)) = xor3 (upper (pack a)) (upper (pack b))"
  unfolding pack_xor by (cases "pack a"; cases "pack b") (simp add: upper_def xor3_def bit.conj_xor_distrib2)

lemma xor_not_not: "((\<not> a) \<noteq> (\<not> b)) = (a \<noteq> b)"
  by blast

text \<open>Two flipped bits: the pairs of the difference are equal, and not all of them are zero.\<close>

lemma two_flips:
  fixes j j' k k' :: nat
  assumes "j < 8" "j' < 8"
  defines "w \<equiv> word_of_nat k :: u8" and "w' \<equiv> word_of_nat k' :: u8"
  shows "upper (pack (xor3 (contr k' (push_bit j' 1)) (contr k (push_bit j 1)))) =
    (octet (bit w' 3 \<noteq> bit w 3) (bit w' 3 \<noteq> bit w 3) (bit w' 2 \<noteq> bit w 2) (bit w' 2 \<noteq> bit w 2)
       (bit w' 1 \<noteq> bit w 1) (bit w' 1 \<noteq> bit w 1) (bit w' 0 \<noteq> bit w 0) (bit w' 0 \<noteq> bit w 0),
     octet (bit w' 7 \<noteq> bit w 7) (bit w' 7 \<noteq> bit w 7) (bit w' 6 \<noteq> bit w 6) (bit w' 6 \<noteq> bit w 6)
       (bit w' 5 \<noteq> bit w 5) (bit w' 5 \<noteq> bit w 5) (bit w' 4 \<noteq> bit w 4) (bit w' 4 \<noteq> bit w 4),
     octet (bit j' 2 \<noteq> bit j 2) (bit j' 2 \<noteq> bit j 2) (bit j' 1 \<noteq> bit j 1) (bit j' 1 \<noteq> bit j 1)
       (bit j' 0 \<noteq> bit j 0) (bit j' 0 \<noteq> bit j 0) False False)"
  unfolding upper_pack_xor pack_flip [OF assms(1)] pack_flip [OF assms(2)] Let_def w_def w'_def
  by (simp only: xor3_def prod.case octet_xor [symmetric] xor_not_not) simp

lemma two_flips_differ:
  assumes "k < 256" "j < 8" "k' < 256" "j' < 8" "(k, j) \<noteq> (k', j')"
  shows "upper (pack (xor3 (contr k' (push_bit j' 1)) (contr k (push_bit j 1)))) \<noteq> (0, 0, 0)"
proof
  assume "upper (pack (xor3 (contr k' (push_bit j' 1)) (contr k (push_bit j 1)))) = (0, 0, 0)"
  then have zero: "bit (word_of_nat k' :: u8) 0 = bit (word_of_nat k :: u8) 0" "bit (word_of_nat k' :: u8) 1 = bit (word_of_nat k :: u8) 1"
      "bit (word_of_nat k' :: u8) 2 = bit (word_of_nat k :: u8) 2" "bit (word_of_nat k' :: u8) 3 = bit (word_of_nat k :: u8) 3"
      "bit (word_of_nat k' :: u8) 4 = bit (word_of_nat k :: u8) 4" "bit (word_of_nat k' :: u8) 5 = bit (word_of_nat k :: u8) 5"
      "bit (word_of_nat k' :: u8) 6 = bit (word_of_nat k :: u8) 6" "bit (word_of_nat k' :: u8) 7 = bit (word_of_nat k :: u8) 7"
      "bit j' 0 = bit j 0" "bit j' 1 = bit j 1" "bit j' 2 = bit j 2"
    unfolding two_flips [OF assms(2,4)] prod.inject octet_zero by blast+
  have "word_of_nat k = (word_of_nat k' :: u8)"
    using octet_of_bits [of "word_of_nat k", folded zero] octet_of_bits [of "word_of_nat k'"] by (rule trans [OF sym])
  then have "unat (word_of_nat k' :: u8) = unat (word_of_nat k :: u8)" by simp
  then have "k = k'" using assms(1,3) by (simp add: unat_of_nat)
  moreover have "j = j'"
    using bit_index [OF assms(4), unfolded zero] bit_index [OF assms(2)] by (rule trans [OF sym, THEN sym])
  ultimately show False using assms(5) by simp
qed

lemma ecc_one_bit:
  assumes "length data = 256" "yaffs_ecc_calc data = Some e" "k < 256" "j < 8"
  shows "\<exists>t. yaffs_ecc_calc (data[k := data ! k XOR push_bit j 1]) = Some t \<and>
      yaffs_ecc_correct (data[k := data ! k XOR push_bit j 1]) e t = Some (1, data, e)"
proof -
  let ?data = "data[k := data ! k XOR push_bit j 1]"
  obtain t where t: "yaffs_ecc_calc ?data = Some t"
    using calc_total [of ?data] assms(1) by auto
  have k: "unat (word_of_nat k :: u8) = k"
    using assms(3) by (simp add: unat_of_nat)
  have "xor3 e t = upper (pack (contr k (push_bit j 1)))"
    using assms t by (intro calc_delta) (simp_all add: parity_upd)
  then have "yaffs_ecc_correct ?data e t = Some (1, ?data[k := ?data ! k XOR push_bit j 1], e)"
    unfolding pack_flip [OF assms(4)] Let_def
    using assms correct_pairs [of j "word_of_nat k" ?data e t, unfolded k] by simp
  then show ?thesis using t assms by (simp add: xor.assoc)
qed

lemma ecc_two_bits:
  assumes "length data = 256" "yaffs_ecc_calc data = Some e" "k < 256" "j < 8" "k' < 256" "j' < 8" "(k, j) \<noteq> (k', j')"
    and "data1 = data[k := data ! k XOR push_bit j 1]" "data2 = data1[k' := data1 ! k' XOR push_bit j' 1]"
  shows "\<exists>t. yaffs_ecc_calc data2 = Some t \<and> yaffs_ecc_correct data2 e t = Some (-1, data2, e)"
proof -
  obtain t where t: "yaffs_ecc_calc data2 = Some t"
    using calc_total [of data2] assms by auto
  let ?z = "xor3 (contr k' (push_bit j' 1)) (contr k (push_bit j 1))"
  have "parity data2 = xor3 ?z (parity data)"
    using assms by (simp add: parity_upd xor3_ac)
  then have d: "xor3 e t = upper (pack ?z)"
    using assms t by (intro calc_delta) simp_all
  show ?thesis
    using t correct_even [OF trans [OF d two_flips]] two_flips_differ assms(3-7) unfolding d by blast
qed

lemma octet_single:
  assumes "j < 8"
  shows "push_bit j (1 :: u8) = octet (j = 7) (j = 6) (j = 5) (j = 4) (j = 3) (j = 2) (j = 1) (j = 0)"
  using below_8_cases [OF assms] by (elim disjE) (hypsubst, code_simp)+

lemma octet_none: "(0 :: u8) = octet False False False False False False False False"
  by (simp add: octet_def pick_def)

text \<open>The stored parity with one bit flipped.\<close>

definition flip_parity :: "nat \<Rightarrow> nat \<Rightarrow> ecc \<Rightarrow> ecc" where
  "flip_parity i j = (\<lambda>(a, b, c). if i = 0 then (a XOR push_bit j 1, b, c) else if i = 1 then (a, b XOR push_bit j 1, c)
     else (a, b, c XOR push_bit j 1))"

lemma ecc_parity_bit:
  assumes "j < 8"
  shows "yaffs_ecc_correct data (flip_parity i j e) e = Some (1, data, e)"
proof -
  obtain a b c where e: "e = (a, b, c)" by (metis prod_cases3)
  have d: "xor3 (flip_parity i j e) e = (if i = 0 then (push_bit j 1, 0, 0) else if i = 1 then (0, push_bit j 1, 0) else (0, 0, push_bit j 1))"
    by (simp add: e flip_parity_def xor3_def ac_simps)
  consider "i = 0" | "i = 1" | "i \<noteq> 0" "i \<noteq> 1" by blast
  then show ?thesis
  proof cases
    case 1
    then have "xor3 (flip_parity i j e) e = (push_bit j 1, 0, 0)" using d by simp
    then show ?thesis unfolding octet_single [OF assms] octet_none
      by (rule correct_single) (use below_8_cases [OF assms] in \<open>elim disjE; simp\<close>)
  next
    case 2
    then have "xor3 (flip_parity i j e) e = (0, push_bit j 1, 0)" using d by simp
    then show ?thesis unfolding octet_single [OF assms] octet_none
      by (rule correct_single) (use below_8_cases [OF assms] in \<open>elim disjE; simp\<close>)
  next
    case 3
    then have "xor3 (flip_parity i j e) e = (0, 0, push_bit j 1)" using d by simp
    then show ?thesis unfolding octet_single [OF assms] octet_none
      by (rule correct_single) (use below_8_cases [OF assms] in \<open>elim disjE; simp\<close>)
  qed
qed

section \<open>Properties\<close>

text \<open>C37: Flash memory may return a wrong bit. A block of 256 bytes of which any one bit has flipped since
  its parity was computed is restored by the correction, which reports 1; a block without an error
  is left alone and reported as 0; and when a bit of the stored parity has flipped, the data stay as
  they are and the parity is replaced by the computed one.\<close>

theorem ecc_repairs_one_bit:
  assumes "length data = 256" "yaffs_ecc_calc data = Some e" "k < 256" "j < 8"
  shows "(\<exists>t. yaffs_ecc_calc (data[k := data ! k XOR push_bit j 1]) = Some t \<and>
      yaffs_ecc_correct (data[k := data ! k XOR push_bit j 1]) e t = Some (1, data, e)) \<and>
    yaffs_ecc_correct data e e = Some (0, data, e) \<and>
    yaffs_ecc_correct data (flip_parity i j e) e = Some (1, data, e)"
  using ecc_one_bit [OF assms] correct_same ecc_parity_bit [OF assms(4)] by blast

lemma ecc_repairs_one_bit_witness:
  "\<exists>e t. yaffs_ecc_calc (map word_of_nat [0..<256]) = Some e \<and>
     yaffs_ecc_calc ((map word_of_nat [0..<256])[77 := 77 XOR push_bit 3 1]) = Some t \<and>
     yaffs_ecc_correct ((map word_of_nat [0..<256])[77 := 77 XOR push_bit 3 1]) e t = Some (1, map word_of_nat [0..<256], e)"
proof -
  let ?data = "map word_of_nat [0..<256] :: u8 list"
  obtain e where e: "yaffs_ecc_calc ?data = Some e"
    using calc_total [of ?data] by (auto simp del: upt_rec_numeral)
  have n: "?data ! 77 = 77" by (simp del: upt_rec_numeral)
  show ?thesis
    using ecc_repairs_one_bit [of ?data e 77 3 0] e unfolding n by (auto simp del: upt_rec_numeral)
qed

text \<open>Two flipped bits in a block of 256 bytes, wherever they are, are always recognised: the correction
  returns -1 and changes neither the data nor the stored parity (it never takes them for one error).\<close>

theorem ecc_reports_two_bits:
  assumes "length data = 256" "yaffs_ecc_calc data = Some e" "k < 256" "j < 8" "k' < 256" "j' < 8" "(k, j) \<noteq> (k', j')"
    and "data1 = data[k := data ! k XOR push_bit j 1]" "data2 = data1[k' := data1 ! k' XOR push_bit j' 1]"
  shows "\<exists>t. yaffs_ecc_calc data2 = Some t \<and> yaffs_ecc_correct data2 e t = Some (-1, data2, e)"
  by (rule ecc_two_bits) (fact assms)+

lemma ecc_reports_two_bits_witness:
  "\<exists>e t. yaffs_ecc_calc (replicate 256 0) = Some e \<and> yaffs_ecc_calc ((replicate 256 0)[3 := 0x21]) = Some t \<and>
     yaffs_ecc_correct ((replicate 256 0)[3 := 0x21]) e t = Some (-1, (replicate 256 0)[3 := 0x21], e)"
proof -
  let ?data = "replicate 256 0 :: u8 list"
  obtain e where e: "yaffs_ecc_calc ?data = Some e"
    using calc_total [of ?data] by auto
  have "?data ! 3 = 0" by simp
  then show ?thesis
    using ecc_reports_two_bits [of ?data e 3 0 3 5 "?data[3 := 1]" "?data[3 := 0x21]"] e by simp
qed

end
