(* ===== verification/Nand_Flash.thy ===== *)
theory Nand_Flash
  imports Nand_Ecc
begin

text \<open>
  The driver of the K9F4G08U0B flash chip (\<open>BoardSupport/nandflash_k9f4g08u0b.c\<close>) and the chunk
  operations YAFFS2 has of it (\<open>YAFFS2/yaffs_nand_drv.c\<close>): pages of 2048 bytes of data and 64 spare
  bytes that hold the bad block mark, eight parities and the tags of the file system. The chip is a
  parameter: what writing to its three addresses and reading its data and its ready pin do. Its
  contract is that of the data sheet. A definition is \<open>None\<close> where the code has undefined behaviour
  or never returns.
\<close>

section \<open>The bus\<close>

text \<open>Writing at \<open>K9F1G_CLE\<close>, \<open>K9F1G_ALE\<close> and \<open>K9F1G_DATA\<close>, reading at \<open>K9F1G_DATA\<close> and \<open>FIO4PIN\<close>.\<close>

record 'c nand =
  CLE :: "u8 \<Rightarrow> 'c \<Rightarrow> 'c"
  ALE :: "u8 \<Rightarrow> 'c \<Rightarrow> 'c"
  DATA_w :: "u8 \<Rightarrow> 'c \<Rightarrow> 'c"
  DATA_r :: "'c \<Rightarrow> u8 \<times> 'c"
  FIO4PIN :: "'c \<Rightarrow> u32 \<times> 'c"

abbreviation K9FXX_BUSY :: u32 where "K9FXX_BUSY \<equiv> 0x08000000"
abbreviation K9FXX_READ_1 :: u8 where "K9FXX_READ_1 \<equiv> 0x00"
abbreviation K9FXX_READ_2 :: u8 where "K9FXX_READ_2 \<equiv> 0x30"
abbreviation K9FXX_BLOCK_PROGRAM_1 :: u8 where "K9FXX_BLOCK_PROGRAM_1 \<equiv> 0x80"
abbreviation K9FXX_BLOCK_PROGRAM_2 :: u8 where "K9FXX_BLOCK_PROGRAM_2 \<equiv> 0x10"
abbreviation K9FXX_BLOCK_PROGRAM_3 :: u8 where "K9FXX_BLOCK_PROGRAM_3 \<equiv> 0x85"
abbreviation K9FXX_BLOCK_ERASE_1 :: u8 where "K9FXX_BLOCK_ERASE_1 \<equiv> 0x60"
abbreviation K9FXX_BLOCK_ERASE_2 :: u8 where "K9FXX_BLOCK_ERASE_2 \<equiv> 0xD0"
abbreviation K9FXX_READ_STATUS :: u8 where "K9FXX_READ_STATUS \<equiv> 0x70"
abbreviation NANDFLASH_PAGE_FSIZE :: u32 where "NANDFLASH_PAGE_FSIZE \<equiv> 2112"
abbreviation NANDFLASH_BLOCK_FSIZE :: u32 where "NANDFLASH_BLOCK_FSIZE \<equiv> 135168"

section \<open>The chip driver\<close>

partial_function (option) NandFlash_WaitForReady :: "'c nand \<Rightarrow> 'c \<Rightarrow> 'c option" where
  "NandFlash_WaitForReady N c =
     (let (pin, c) = FIO4PIN N c in if pin AND K9FXX_BUSY = 0 then NandFlash_WaitForReady N c else Some c)"

partial_function (option) wait_status :: "'c nand \<Rightarrow> 'c \<Rightarrow> 'c option" where
  "wait_status N c = (let (x, c) = DATA_r N c in if x AND 0xC0 \<noteq> 0xC0 then wait_status N c else Some c)"

definition NandFlash_ReadStatus :: "'c nand \<Rightarrow> u8 \<Rightarrow> 'c \<Rightarrow> (bool \<times> 'c) option" where
  "NandFlash_ReadStatus N Cmd c = do {
     c \<leftarrow> wait_status N (CLE N K9FXX_READ_STATUS c);
     let (StatusData, c) = DATA_r N c;
     Some (if Cmd = K9FXX_BLOCK_PROGRAM_1 \<or> Cmd = K9FXX_BLOCK_ERASE_1 then StatusData AND 0x01 = 0 else Cmd = K9FXX_READ_1, c) }"

definition NandFlash_BlockErase :: "'c nand \<Rightarrow> u32 \<Rightarrow> 'c \<Rightarrow> (bool \<times> 'c) option" where
  "NandFlash_BlockErase N blockNum c =
     (let rowAddr = blockNum * NANDFLASH_BLOCK_FSIZE;
          rowAddr = rowAddr - rowAddr mod NANDFLASH_BLOCK_FSIZE;
          c = CLE N K9FXX_BLOCK_ERASE_1 c;
          c = ALE N (ucast (drop_bit 12 (rowAddr AND 0x000FF000))) c;
          c = ALE N (ucast (drop_bit 20 (rowAddr AND 0x0FF00000))) c;
          c = ALE N (ucast (drop_bit 28 (rowAddr AND 0xF0000000))) c;
          c = CLE N K9FXX_BLOCK_ERASE_2 c in
      do {
        c \<leftarrow> NandFlash_WaitForReady N c;
        NandFlash_ReadStatus N K9FXX_BLOCK_ERASE_1 c })"

text \<open>The loop that copies data until the end of the page or until the wanted bytes are read.\<close>

fun read_bytes :: "'c nand \<Rightarrow> nat \<Rightarrow> u32 \<Rightarrow> nat \<Rightarrow> u8 list \<Rightarrow> 'c \<Rightarrow> (nat \<times> u8 list \<times> 'c) option" where
  "read_bytes N 0 n i buf c = Some (i, buf, c)"
| "read_bytes N (Suc left) n i buf c =
     (let (x, c) = DATA_r N c in do {
        buf \<leftarrow> wr buf i x;
        if unat n \<le> Suc i then Some (i, buf, c) else read_bytes N left n (Suc i) buf c })"

definition NandFlash_ReadFromAddr :: "'c nand \<Rightarrow> u32 \<Rightarrow> u8 list \<Rightarrow> u32 \<Rightarrow> 'c \<Rightarrow> (nat \<times> u8 list \<times> 'c) option" where
  "NandFlash_ReadFromAddr N addrInWholeNand buf n c =
     (let curColumm = addrInWholeNand mod NANDFLASH_PAGE_FSIZE;
          curRow = addrInWholeNand - curColumm;
          c = CLE N K9FXX_READ_1 c;
          c = ALE N (ucast (curColumm AND 0x000000FF)) c;
          c = ALE N (ucast (drop_bit 8 (curColumm AND 0x00000F00))) c;
          c = ALE N (ucast (drop_bit 12 (curRow AND 0x000FF000))) c;
          c = ALE N (ucast (drop_bit 20 (curRow AND 0x0FF00000))) c;
          c = ALE N (ucast (drop_bit 28 (curRow AND 0xF0000000))) c;
          c = CLE N K9FXX_READ_2 c in
      do {
        c \<leftarrow> NandFlash_WaitForReady N c;
        read_bytes N (unat (NANDFLASH_PAGE_FSIZE - curColumm)) n 0 buf c })"

definition NandFlash_PageReadFromAddr ::
    "'c nand \<Rightarrow> u32 \<Rightarrow> u32 \<Rightarrow> u32 \<Rightarrow> u8 list \<Rightarrow> u32 \<Rightarrow> 'c \<Rightarrow> (nat \<times> u8 list \<times> 'c) option" where
  "NandFlash_PageReadFromAddr N blockNum pageNum addrInPage buf n c =
     NandFlash_ReadFromAddr N (blockNum * NANDFLASH_BLOCK_FSIZE + pageNum * NANDFLASH_PAGE_FSIZE + addrInPage) buf n c"

definition NandFlash_PageReadFromBeginning :: "'c nand \<Rightarrow> u32 \<Rightarrow> u32 \<Rightarrow> u8 list \<Rightarrow> 'c \<Rightarrow> (nat \<times> u8 list \<times> 'c) option" where
  "NandFlash_PageReadFromBeginning N blockNum pageNum buf c =
     NandFlash_PageReadFromAddr N blockNum pageNum 0 buf NANDFLASH_PAGE_FSIZE c"

definition NandFlash_PageRead :: "'c nand \<Rightarrow> u32 \<Rightarrow> u32 \<Rightarrow> u8 list \<Rightarrow> 'c \<Rightarrow> (bool \<times> u8 list \<times> 'c) option" where
  "NandFlash_PageRead N pageNum blockNum buf c =
     map_option (\<lambda>(n, buf, c). (n \<noteq> 0, buf, c)) (NandFlash_PageReadFromBeginning N pageNum blockNum buf c)"

definition NandFlash_ValidBlockCheck :: "'c nand \<Rightarrow> u32 \<Rightarrow> 'c \<Rightarrow> (bool \<times> 'c) option" where
  "NandFlash_ValidBlockCheck N block c = do {
     (n, buf, c) \<leftarrow> NandFlash_PageReadFromAddr N block 0 2048 [0] 1 c;
     x \<leftarrow> rd buf 0;
     if x \<noteq> 0xFF then Some (False, c)
     else do {
       (n, buf, c) \<leftarrow> NandFlash_PageReadFromAddr N block 1 2048 buf 1 c;
       x \<leftarrow> rd buf 0;
       Some (x = 0xFF, c) } }"

text \<open>Writing the data area of a page by block and page number.\<close>

definition NandFlash_PageProgram :: "'c nand \<Rightarrow> u32 \<Rightarrow> u32 \<Rightarrow> u8 list \<Rightarrow> 'c \<Rightarrow> (bool \<times> 'c) option" where
  "NandFlash_PageProgram N pageNum blockNum bufPtr c =
     (let curAddr = blockNum * NANDFLASH_BLOCK_FSIZE + pageNum * NANDFLASH_PAGE_FSIZE;
          curColumm = curAddr mod NANDFLASH_PAGE_FSIZE;
          curAddr = curAddr - curColumm;
          c = CLE N K9FXX_BLOCK_PROGRAM_1 c;
          c = ALE N (ucast (curColumm AND 0x000000FF)) c;
          c = ALE N (ucast (drop_bit 8 (curColumm AND 0x00000F00))) c;
          c = ALE N (ucast (drop_bit 12 (curAddr AND 0x000FF000))) c;
          c = ALE N (ucast (drop_bit 20 (curAddr AND 0x0FF00000))) c;
          c = ALE N (ucast (drop_bit 28 (curAddr AND 0xF0000000))) c in
      if length bufPtr < 2048 then None
      else do {
        let c = fold (DATA_w N) (take 2048 bufPtr) c;
        c \<leftarrow> NandFlash_WaitForReady N (CLE N K9FXX_BLOCK_PROGRAM_2 c);
        NandFlash_ReadStatus N K9FXX_BLOCK_PROGRAM_1 c })"

text \<open>Reading and writing \<open>n\<close> bytes of the page register.\<close>

fun read_n :: "'c nand \<Rightarrow> nat \<Rightarrow> 'c \<Rightarrow> u8 list \<times> 'c" where
  "read_n N 0 c = ([], c)"
| "read_n N (Suc n) c = (let (x, c) = DATA_r N c; (xs, c) = read_n N n c in (x # xs, c))"

definition write_n :: "'c nand \<Rightarrow> nat \<Rightarrow> u8 list \<Rightarrow> 'c \<Rightarrow> 'c option" where
  "write_n N n bs c = (if n \<le> length bs then Some (fold (DATA_w N) (take n bs) c) else None)"

definition NandFlash_PageReadWithSpare ::
    "'c nand \<Rightarrow> u32 \<Rightarrow> bool \<Rightarrow> bool \<Rightarrow> 'c \<Rightarrow> (int \<times> u8 list option \<times> u8 list option \<times> 'c) option" where
  "NandFlash_PageReadWithSpare N page hasData hasSpare c =
     (let off = (if hasData then 0 else 2048 :: u32);
          c = CLE N K9FXX_READ_1 c;
          c = ALE N (ucast (off AND 0x000000FF)) c;
          c = ALE N (ucast (drop_bit 8 (off AND 0x00000F00))) c;
          c = ALE N (ucast (page AND 0x000000FF)) c;
          c = ALE N (ucast (drop_bit 8 (page AND 0x0000FF00))) c;
          c = ALE N (ucast (drop_bit 16 (page AND 0x000F0000))) c;
          c = CLE N K9FXX_READ_2 c in
      do {
        c \<leftarrow> NandFlash_WaitForReady N c;
        let (data, c) = (if hasData then map_prod Some id (read_n N 2048 c) else (None, c));
        let (spare, c) = (if hasSpare then map_prod Some id (read_n N 64 c) else (None, c));
        Some (1, data, spare, c) })"

text \<open>The code loops forever when it is to write a spare area whose first byte marks the block as bad.\<close>

definition NandFlash_PageProgramWithSpare ::
    "'c nand \<Rightarrow> u32 \<Rightarrow> u8 list option \<Rightarrow> nat \<Rightarrow> u8 list option \<Rightarrow> 'c \<Rightarrow> (bool \<times> 'c) option" where
  "NandFlash_PageProgramWithSpare N page dataPtr dataLen sparePtr c = do {
     (case sparePtr of None \<Rightarrow> Some () | Some sp \<Rightarrow> do { x \<leftarrow> rd sp 0; if x \<noteq> 0xFF then None else Some () });
     let off = (if dataPtr = None then 2048 else 0 :: u32);
     let c = CLE N K9FXX_BLOCK_PROGRAM_1 c;
     let c = ALE N (ucast (off AND 0x000000FF)) c;
     let c = ALE N (ucast (drop_bit 8 (off AND 0x00000F00))) c;
     let c = ALE N (ucast (page AND 0x000000FF)) c;
     let c = ALE N (ucast (drop_bit 8 (page AND 0x0000FF00))) c;
     let c = ALE N (ucast (drop_bit 16 (page AND 0x000F0000))) c;
     c \<leftarrow> (case dataPtr of None \<Rightarrow> Some c | Some d \<Rightarrow> write_n N dataLen d c);
     c \<leftarrow> (case sparePtr of None \<Rightarrow> Some c
       | Some sp \<Rightarrow>
           let c = (if dataPtr \<noteq> None \<and> dataLen \<noteq> 2048
             then ALE N (ucast (drop_bit 8 (2048 AND 0x00000F00 :: u32))) (ALE N (ucast (2048 AND 0x000000FF :: u32)) (CLE N K9FXX_BLOCK_PROGRAM_3 c))
             else c)
           in write_n N 64 sp c);
     c \<leftarrow> NandFlash_WaitForReady N (CLE N K9FXX_BLOCK_PROGRAM_2 c);
     NandFlash_ReadStatus N K9FXX_BLOCK_PROGRAM_1 c }"

section \<open>The chunk operations of the file system\<close>

record nand_chip =
  blocks :: nat
  pages_per_block :: nat
  data_bytes_per_page :: nat
  spare_bytes_per_page :: nat

text \<open>The chip that \<open>yaffs_k9f4g08u0b_install_drv\<close> describes.\<close>

definition k9f4g08u0b :: nand_chip where
  "k9f4g08u0b = \<lparr>blocks = 4096, pages_per_block = 64, data_bytes_per_page = 2048, spare_bytes_per_page = 64\<rparr>"

datatype yaffs_ecc_result = ECC_UNKNOWN | ECC_NO_ERROR | ECC_FIXED | ECC_UNFIXED

text \<open>The number of 256-byte sectors a loop up to the page size passes through; one of them.\<close>

definition sectors :: "nand_chip \<Rightarrow> nat" where
  "sectors chip = (data_bytes_per_page chip + 255) div 256"

definition sector :: "u8 list \<Rightarrow> nat \<Rightarrow> u8 list" where
  "sector data k = take 256 (drop (256 * k) data)"

definition put_ecc :: "u8 list \<Rightarrow> nat \<Rightarrow> u8 list \<Rightarrow> u8 list option" where
  "put_ecc data k buffer = do {
     e \<leftarrow> yaffs_ecc_calc (sector data k);
     wr_seq buffer (2 + 3 * k) [fst e, fst (snd e), snd (snd e)] }"

definition yaffs_nand_drv_WriteChunk ::
    "'c nand \<Rightarrow> nand_chip \<Rightarrow> u32 \<Rightarrow> u8 list option \<Rightarrow> nat \<Rightarrow> u8 list option \<Rightarrow> nat \<Rightarrow> 'c \<Rightarrow> (bool \<times> 'c) option" where
  "yaffs_nand_drv_WriteChunk N chip nand_chunk data data_len oob oob_len c =
     (case (data, oob) of
        (Some d, Some ob) \<Rightarrow> do {
          buffer \<leftarrow> run (put_ecc d) [0..<sectors chip] (replicate (spare_bytes_per_page chip) 0xFF);
          buffer \<leftarrow> (if oob_len \<le> length ob then wr_seq buffer 26 (take oob_len ob) else None);
          NandFlash_PageProgramWithSpare N nand_chunk data data_len (Some buffer) c }
      | _ \<Rightarrow> Some (False, c))"

text \<open>One sector of a page that was read: its parity, the correction and the result so far.\<close>

definition fix_sector :: "nat \<Rightarrow> u8 list \<times> u8 list \<times> yaffs_ecc_result \<Rightarrow> (u8 list \<times> u8 list \<times> yaffs_ecc_result) option" where
  "fix_sector k = (\<lambda>(data, buffer, res). do {
     read_ecc \<leftarrow> yaffs_ecc_calc (sector data k);
     e0 \<leftarrow> rd buffer (2 + 3 * k);
     e1 \<leftarrow> rd buffer (3 + 3 * k);
     e2 \<leftarrow> rd buffer (4 + 3 * k);
     (ret, d, e) \<leftarrow> yaffs_ecc_correct (sector data k) (e0, e1, e2) read_ecc;
     data \<leftarrow> wr_seq data (256 * k) d;
     buffer \<leftarrow> wr_seq buffer (2 + 3 * k) [fst e, fst (snd e), snd (snd e)];
     Some (data, buffer,
       if ret < 0 then ECC_UNFIXED else if ret > 0 \<and> res = ECC_NO_ERROR then ECC_FIXED else res) })"

definition yaffs_nand_drv_ReadChunk ::
    "'c nand \<Rightarrow> nand_chip \<Rightarrow> u32 \<Rightarrow> bool \<Rightarrow> nat option \<Rightarrow> 'c
      \<Rightarrow> (bool \<times> u8 list option \<times> u8 list option \<times> yaffs_ecc_result \<times> 'c) option" where
  "yaffs_nand_drv_ReadChunk N chip nand_chunk hasData oob_len c = do {
     (ret, data, spare, c) \<leftarrow> NandFlash_PageReadWithSpare N nand_chunk hasData True c;
     buffer \<leftarrow> spare;
     if ret < 0 then Some (False, data, None, ECC_UNKNOWN, c)
     else do {
       oob \<leftarrow> (case oob_len of None \<Rightarrow> Some None
         | Some n \<Rightarrow> if 26 + n \<le> length buffer then Some (Some (take n (drop 26 buffer))) else None);
       (case data of None \<Rightarrow> Some (True, None, oob, ECC_NO_ERROR, c)
         | Some d \<Rightarrow> do {
             (d, buffer, res) \<leftarrow> run fix_sector [0..<sectors chip] (d, buffer, ECC_NO_ERROR);
             Some (True, Some d, oob, res, c) }) } }"

definition yaffs_nand_drv_EraseBlock :: "'c nand \<Rightarrow> u32 \<Rightarrow> 'c \<Rightarrow> (bool \<times> 'c) option" where
  "yaffs_nand_drv_EraseBlock N block_no c = NandFlash_BlockErase N block_no c"

text \<open>The report that a bug was found is printed; the mark is prepared in the buffer, which is then read into.\<close>

definition yaffs_nand_drv_MarkBad :: "'c nand \<Rightarrow> nand_chip \<Rightarrow> u32 \<Rightarrow> 'c \<Rightarrow> (int \<times> 'c) option" where
  "yaffs_nand_drv_MarkBad N chip block_no c = do {
     let nand_chunk = block_no * word_of_nat (pages_per_block chip);
     (ret, data, spare, c) \<leftarrow> NandFlash_PageReadWithSpare N nand_chunk False True c;
     Some (ret, c) }"

definition yaffs_nand_drv_CheckBad :: "'c nand \<Rightarrow> u32 \<Rightarrow> 'c \<Rightarrow> (bool \<times> 'c) option" where
  "yaffs_nand_drv_CheckBad N block_no c = NandFlash_ValidBlockCheck N block_no c"

section \<open>The data sheet\<close>

text \<open>
  What the data sheet says of the chip, as far as the driver uses it: the command register, the
  address cycles it has seen since, the column and the page they select, the page register, the array
  of pages and how many more times the chip is polled before it is ready.
\<close>

record sheet =
  cmd :: u8
  cycles :: "u8 list"
  column :: nat
  page :: nat
  reg :: "u8 list"
  pages :: "nat \<Rightarrow> u8 list"
  busy :: nat
  latency :: nat

definition blank :: "u8 list" where
  "blank = replicate 2112 0xFF"

definition page_number :: "u8 \<Rightarrow> u8 \<Rightarrow> u8 \<Rightarrow> nat" where
  "page_number a b c = (unat a + 256 * unat b + 65536 * unat c) mod 262144"

text \<open>Programming can only clear bits; erasing sets those of the 64 pages of a block.\<close>

definition sheet_command :: "u8 \<Rightarrow> sheet \<Rightarrow> sheet" where
  "sheet_command x s =
     (if x = 0x80 then s\<lparr>cmd := x, cycles := [], reg := blank\<rparr>
      else if x = 0x30 \<and> cmd s = 0x00 then s\<lparr>cmd := x, reg := pages s (page s), busy := latency s\<rparr>
      else if x = 0x10 \<and> (cmd s = 0x80 \<or> cmd s = 0x85) then
        s\<lparr>cmd := x, pages := (pages s)(page s := map2 (AND) (pages s (page s)) (reg s)), busy := latency s\<rparr>
      else if x = 0xD0 \<and> cmd s = 0x60 then
        s\<lparr>cmd := x, pages := (\<lambda>p. if p div 64 = page s div 64 then blank else pages s p), busy := latency s\<rparr>
      else s\<lparr>cmd := x, cycles := []\<rparr>)"

definition sheet_address :: "u8 \<Rightarrow> sheet \<Rightarrow> sheet" where
  "sheet_address x s = (let a = cycles s @ [x] in
     s\<lparr>cycles := a,
       column := (if cmd s \<noteq> 0x60 \<and> length a = 2 then unat (a ! 0) + 256 * (unat (a ! 1) mod 16) else column s),
       page := (if cmd s = 0x60 \<and> length a = 3 then page_number (a ! 0) (a ! 1) (a ! 2)
         else if cmd s \<noteq> 0x60 \<and> length a = 5 then page_number (a ! 2) (a ! 3) (a ! 4) else page s)\<rparr>)"

definition sheet_write :: "u8 \<Rightarrow> sheet \<Rightarrow> sheet" where
  "sheet_write x s = (if cmd s = 0x80 \<or> cmd s = 0x85 then s\<lparr>reg := (reg s)[column s := x], column := Suc (column s)\<rparr> else s)"

definition sheet_read :: "sheet \<Rightarrow> u8 \<times> sheet" where
  "sheet_read s =
     (if cmd s = 0x70 then (if busy s = 0 then 0xC0 else 0x80, s\<lparr>busy := busy s - 1\<rparr>)
      else (if column s < length (reg s) then reg s ! column s else 0xFF, s\<lparr>column := Suc (column s)\<rparr>))"

definition sheet_pin :: "sheet \<Rightarrow> sheet" where
  "sheet_pin s = s\<lparr>busy := busy s - 1\<rparr>"

text \<open>The contract of a chip whose operations succeed; \<open>v\<close> is what the data sheet says of its state.\<close>

definition nand_contract :: "'c nand \<Rightarrow> ('c \<Rightarrow> sheet) \<Rightarrow> bool" where
  "nand_contract N v \<longleftrightarrow>
     (\<forall>x c. v (CLE N x c) = sheet_command x (v c)) \<and>
     (\<forall>x c. v (ALE N x c) = sheet_address x (v c)) \<and>
     (\<forall>x c. v (DATA_w N x c) = sheet_write x (v c)) \<and>
     (\<forall>c. fst (DATA_r N c) = fst (sheet_read (v c)) \<and> v (snd (DATA_r N c)) = snd (sheet_read (v c))) \<and>
     (\<forall>c. (fst (FIO4PIN N c) AND K9FXX_BUSY = 0 \<longleftrightarrow> busy (v c) \<noteq> 0) \<and> v (snd (FIO4PIN N c)) = sheet_pin (v c))"

section \<open>The operations on the data sheet's state\<close>

lemma contract:
  assumes "nand_contract N v"
  shows "v (CLE N x c) = sheet_command x (v c)" "v (ALE N x c) = sheet_address x (v c)" "v (DATA_w N x c) = sheet_write x (v c)"
    "fst (DATA_r N c) = fst (sheet_read (v c))" "v (snd (DATA_r N c)) = snd (sheet_read (v c))"
    "(fst (FIO4PIN N c) AND K9FXX_BUSY = 0) = (busy (v c) \<noteq> 0)" "v (snd (FIO4PIN N c)) = sheet_pin (v c)"
  using assms by (simp_all add: nand_contract_def)

lemma commands:
  assumes "nand_contract N v"
  shows "x = K9FXX_READ_1 \<or> x = K9FXX_BLOCK_ERASE_1 \<or> x = K9FXX_BLOCK_PROGRAM_3 \<Longrightarrow> v (CLE N x c) = (v c)\<lparr>cmd := x, cycles := []\<rparr>"
    "v (CLE N K9FXX_BLOCK_PROGRAM_1 c) = (v c)\<lparr>cmd := K9FXX_BLOCK_PROGRAM_1, cycles := [], reg := blank\<rparr>"
    "cmd (v c) = K9FXX_READ_1 \<Longrightarrow>
       v (CLE N K9FXX_READ_2 c) = (v c)\<lparr>cmd := K9FXX_READ_2, reg := pages (v c) (page (v c)), busy := latency (v c)\<rparr>"
    "cmd (v c) = K9FXX_BLOCK_PROGRAM_1 \<or> cmd (v c) = K9FXX_BLOCK_PROGRAM_3 \<Longrightarrow>
       v (CLE N K9FXX_BLOCK_PROGRAM_2 c) = (v c)\<lparr>cmd := K9FXX_BLOCK_PROGRAM_2,
         pages := (pages (v c))(page (v c) := map2 (AND) (pages (v c) (page (v c))) (reg (v c))), busy := latency (v c)\<rparr>"
    "cmd (v c) = K9FXX_BLOCK_ERASE_1 \<Longrightarrow>
       v (CLE N K9FXX_BLOCK_ERASE_2 c) = (v c)\<lparr>cmd := K9FXX_BLOCK_ERASE_2,
         pages := (\<lambda>p. if p div 64 = page (v c) div 64 then blank else pages (v c) p), busy := latency (v c)\<rparr>"
proof -
  show "v (CLE N x c) = (v c)\<lparr>cmd := x, cycles := []\<rparr>" if "x = K9FXX_READ_1 \<or> x = K9FXX_BLOCK_ERASE_1 \<or> x = K9FXX_BLOCK_PROGRAM_3"
    using that unfolding contract(1) [OF assms] by (elim disjE) (simp_all add: sheet_command_def)
  show "v (CLE N K9FXX_BLOCK_PROGRAM_1 c) = (v c)\<lparr>cmd := K9FXX_BLOCK_PROGRAM_1, cycles := [], reg := blank\<rparr>"
    unfolding contract(1) [OF assms] by (simp add: sheet_command_def)
qed (unfold contract(1) [OF assms], simp_all add: sheet_command_def)

lemma wait_ready:
  assumes "nand_contract N v"
  shows "\<exists>c'. NandFlash_WaitForReady N c = Some c' \<and> v c' = (v c)\<lparr>busy := 0\<rparr>"
proof (induction "busy (v c)" arbitrary: c)
  case 0
  then show ?case
    by (subst NandFlash_WaitForReady.simps) (simp add: split_beta contract [OF assms] sheet_pin_def)
next
  case (Suc n)
  let ?c = "snd (FIO4PIN N c)"
  have "n = busy (v ?c)" using Suc.hyps(2) by (simp add: contract [OF assms] sheet_pin_def)
  then obtain c' where "NandFlash_WaitForReady N ?c = Some c'" "v c' = (v ?c)\<lparr>busy := 0\<rparr>"
    using Suc.hyps(1) by blast
  then show ?case using Suc.hyps(2)
    by (subst NandFlash_WaitForReady.simps) (simp add: split_beta contract [OF assms] sheet_pin_def)
qed

lemma wait_status_ready:
  assumes "nand_contract N v" "cmd (v c) = K9FXX_READ_STATUS"
  shows "\<exists>c'. wait_status N c = Some c' \<and> v c' = (v c)\<lparr>busy := 0\<rparr>"
  using assms(2)
proof (induction "busy (v c)" arbitrary: c)
  case 0
  then show ?case
    by (subst wait_status.simps) (simp add: split_beta contract [OF assms(1)] sheet_read_def)
next
  case (Suc n)
  let ?c = "snd (DATA_r N c)"
  have "n = busy (v ?c)" "cmd (v ?c) = K9FXX_READ_STATUS"
    using Suc.hyps(2) Suc.prems by (simp_all add: contract [OF assms(1)] sheet_read_def)
  then obtain c' where "wait_status N ?c = Some c'" "v c' = (v ?c)\<lparr>busy := 0\<rparr>"
    using Suc.hyps(1) by blast
  then show ?case using Suc.hyps(2) Suc.prems
    by (subst wait_status.simps) (simp add: split_beta contract [OF assms(1)] sheet_read_def)
qed

lemma read_status:
  assumes "nand_contract N v" "Cmd = K9FXX_BLOCK_PROGRAM_1 \<or> Cmd = K9FXX_BLOCK_ERASE_1"
  shows "\<exists>c'. NandFlash_ReadStatus N Cmd c = Some (True, c') \<and> v c' = (v c)\<lparr>cmd := K9FXX_READ_STATUS, cycles := [], busy := 0\<rparr>"
proof -
  let ?c = "CLE N K9FXX_READ_STATUS c"
  have v: "v ?c = (v c)\<lparr>cmd := K9FXX_READ_STATUS, cycles := []\<rparr>"
    by (simp add: contract [OF assms(1)] sheet_command_def)
  then obtain c' where "wait_status N ?c = Some c'" "v c' = (v ?c)\<lparr>busy := 0\<rparr>"
    using wait_status_ready [OF assms(1), of ?c] by auto
  then show ?thesis using v assms(2)
    by (auto simp: NandFlash_ReadStatus_def split_beta contract [OF assms(1)] sheet_read_def)
qed

text \<open>The address cycles of an access to a page and of an erasure.\<close>

lemma sheet_address_page:
  assumes "cmd s \<noteq> K9FXX_BLOCK_ERASE_1"
  shows "cycles s = [] \<Longrightarrow> sheet_address a s = s\<lparr>cycles := [a]\<rparr>"
    "cycles s = [a] \<Longrightarrow> sheet_address b s = s\<lparr>cycles := [a, b], column := unat a + 256 * (unat b mod 16)\<rparr>"
    "cycles s = [a, b] \<Longrightarrow> sheet_address c s = s\<lparr>cycles := [a, b, c]\<rparr>"
    "cycles s = [a, b, c] \<Longrightarrow> sheet_address d s = s\<lparr>cycles := [a, b, c, d]\<rparr>"
    "cycles s = [a, b, c, d] \<Longrightarrow> sheet_address e s = s\<lparr>cycles := [a, b, c, d, e], page := page_number c d e\<rparr>"
  using assms by (simp_all add: sheet_address_def)

lemma sheet_address_block:
  assumes "cmd s = K9FXX_BLOCK_ERASE_1"
  shows "cycles s = [] \<Longrightarrow> sheet_address a s = s\<lparr>cycles := [a]\<rparr>"
    "cycles s = [a] \<Longrightarrow> sheet_address b s = s\<lparr>cycles := [a, b]\<rparr>"
    "cycles s = [a, b] \<Longrightarrow> sheet_address c s = s\<lparr>cycles := [a, b, c], page := page_number a b c\<rparr>"
  using assms by (simp_all add: sheet_address_def)

lemma address_page:
  assumes "nand_contract N v" "cmd (v x) \<noteq> K9FXX_BLOCK_ERASE_1" "cycles (v x) = []"
  shows "v (ALE N e (ALE N d (ALE N c (ALE N b (ALE N a x))))) =
    (v x)\<lparr>cycles := [a, b, c, d, e], column := unat a + 256 * (unat b mod 16), page := page_number c d e\<rparr>"
  using assms(2,3) by (simp add: contract [OF assms(1)] sheet_address_page)

lemma address_block:
  assumes "nand_contract N v" "cmd (v x) = K9FXX_BLOCK_ERASE_1" "cycles (v x) = []"
  shows "v (ALE N c (ALE N b (ALE N a x))) = (v x)\<lparr>cycles := [a, b, c], page := page_number a b c\<rparr>"
  using assms(2,3) by (simp add: contract [OF assms(1)] sheet_address_block)

lemma write_bytes:
  assumes "nand_contract N v" "cmd (v c) = 0x80 \<or> cmd (v c) = 0x85" "column (v c) + length bs \<le> length (reg (v c))"
  shows "v (fold (DATA_w N) bs c) = (v c)\<lparr>column := column (v c) + length bs,
    reg := take (column (v c)) (reg (v c)) @ bs @ drop (column (v c) + length bs) (reg (v c))\<rparr>"
  using assms(2,3)
proof (induction bs arbitrary: c)
  case Nil
  then show ?case by simp
next
  case (Cons b bs)
  have v: "v (DATA_w N b c) = (v c)\<lparr>reg := (reg (v c))[column (v c) := b], column := Suc (column (v c))\<rparr>"
    using Cons.prems(1) by (auto simp: contract [OF assms(1)] sheet_write_def)
  have "v (fold (DATA_w N) bs (DATA_w N b c)) = (v (DATA_w N b c))\<lparr>column := column (v (DATA_w N b c)) + length bs,
      reg := take (column (v (DATA_w N b c))) (reg (v (DATA_w N b c))) @ bs @ drop (column (v (DATA_w N b c)) + length bs) (reg (v (DATA_w N b c)))\<rparr>"
    using Cons.prems by (intro Cons.IH) (auto simp: v)
  then show ?case using Cons.prems(2) by (simp add: v take_Suc_conv_app_nth)
qed

lemma read_register:
  assumes "nand_contract N v" "cmd (v c) \<noteq> K9FXX_READ_STATUS" "column (v c) + n \<le> length (reg (v c))"
  shows "\<exists>c'. read_n N n c = (take n (drop (column (v c)) (reg (v c))), c') \<and> v c' = (v c)\<lparr>column := column (v c) + n\<rparr>"
  using assms(2,3)
proof (induction n arbitrary: c)
  case 0
  then show ?case by simp
next
  case (Suc n)
  let ?c = "snd (DATA_r N c)"
  have v: "v ?c = (v c)\<lparr>column := Suc (column (v c))\<rparr>" "fst (DATA_r N c) = reg (v c) ! column (v c)"
    using Suc.prems by (simp_all add: contract [OF assms(1)] sheet_read_def)
  then obtain c' where "read_n N n ?c = (take n (drop (column (v ?c)) (reg (v ?c))), c')" "v c' = (v ?c)\<lparr>column := column (v ?c) + n\<rparr>"
    using Suc.IH [of ?c] Suc.prems by auto
  then show ?case using Suc.prems v
    by (simp add: split_beta Cons_nth_drop_Suc [symmetric])
qed

text \<open>The bytes of a row address.\<close>

lemma digits: "q mod 256 + 256 * (q div 256 mod 256) + 65536 * (q div 65536 mod 16) = q mod (1048576 :: nat)"
proof -
  have "q mod 1048576 = 65536 * (q div 65536 mod 16) + q mod 65536"
    using mod_mult2_eq [of q 65536 16] by simp
  moreover have "q mod 65536 = 256 * (q div 256 mod 256) + q mod 256"
    using mod_mult2_eq [of q 256 256] by simp
  ultimately show ?thesis by linarith
qed

lemma byte_field:
  fixes w :: u32
  shows "unat (ucast (drop_bit n (w AND push_bit n (mask k))) :: u8) = unat w div 2 ^ n mod 2 ^ min k 8"
proof -
  have "unat w < 2 ^ 32" using unsigned_less [of w] by simp
  then have w: "take_bit 32 (unat w) = unat w" by (rule take_bit_nat_eq_self)
  have "(ucast (drop_bit n (w AND push_bit n (mask k))) :: u8) = ucast (take_bit k (drop_bit n w))"
    by (rule bit_word_eqI) (auto simp: bit_simps dest: bit_imp_le_length)
  moreover have "unat (ucast (take_bit k (drop_bit n w)) :: u8) = take_bit 8 (take_bit k (drop_bit n (unat w)))"
    by (simp add: w unsigned_ucast_eq unsigned_take_bit_eq unsigned_drop_bit_eq take_bit_nat_eq_self take_bit_take_bit min.commute del: drop_bit_eq_div)
  moreover have "m mod 2 ^ k mod 2 ^ 8 = m mod 2 ^ min k 8" for m :: nat
    using take_bit_take_bit [of 8 k m] by (simp only: take_bit_eq_mod min.commute)
  ultimately show ?thesis
    by (simp only: take_bit_eq_mod drop_bit_eq_div)
qed

lemma byte_masks:
  "push_bit 8 (mask 8) = (0xFF00 :: u32)" "push_bit 16 (mask 4) = (0xF0000 :: u32)" "push_bit 8 (mask 4) = (0xF00 :: u32)"
  "push_bit 12 (mask 8) = (0xFF000 :: u32)" "push_bit 20 (mask 8) = (0x0FF00000 :: u32)" "push_bit 28 (mask 4) = (0xF0000000 :: u32)"
  by (simp_all add: mask_eq_exp_minus_1)

lemma powers:
  "(2 :: nat) ^ 4 = 16" "(2 :: nat) ^ 8 = 256" "(2 :: nat) ^ 12 = 4096" "(2 :: nat) ^ 16 = 65536" "(2 :: nat) ^ 20 = 1048576" "(2 :: nat) ^ 28 = 268435456"
  "min 4 8 = (4 :: nat)" "min 8 8 = (8 :: nat)"
  by simp_all

lemma byte_fields:
  fixes w :: u32
  shows "unat (ucast (w AND 0xFF) :: u8) = unat w mod 256"
    "unat (ucast (drop_bit 8 (w AND 0xFF00)) :: u8) = unat w div 256 mod 256"
    "unat (ucast (drop_bit 16 (w AND 0xF0000)) :: u8) = unat w div 65536 mod 16"
    "unat (ucast (drop_bit 8 (w AND 0xF00)) :: u8) = unat w div 256 mod 16"
    "unat (ucast (drop_bit 12 (w AND 0xFF000)) :: u8) = unat w div 4096 mod 256"
    "unat (ucast (drop_bit 20 (w AND 0x0FF00000)) :: u8) = unat w div 1048576 mod 256"
    "unat (ucast (drop_bit 28 (w AND 0xF0000000)) :: u8) = unat w div 268435456 mod 16"
proof -
  show "unat (ucast (w AND 0xFF) :: u8) = unat w mod 256"
    using byte_field [of 0 w 8] by (simp add: mask_eq_exp_minus_1)
qed (unfold byte_masks [symmetric], simp_all only: byte_field powers)

lemma page_bytes:
  fixes p :: u32
  assumes "unat p < 262144"
  shows "page_number (ucast (p AND 0xFF)) (ucast (drop_bit 8 (p AND 0xFF00))) (ucast (drop_bit 16 (p AND 0xF0000))) = unat p"
  unfolding page_number_def byte_fields using digits [of "unat p"] assms by simp

lemma row_bytes:
  fixes r :: u32
  shows "page_number (ucast (drop_bit 12 (r AND 0xFF000))) (ucast (drop_bit 20 (r AND 0x0FF00000))) (ucast (drop_bit 28 (r AND 0xF0000000)))
    = unat r div 4096 mod 262144"
proof -
  let ?q = "unat r div 4096"
  have "?q div 256 = unat r div 1048576" "?q div 65536 = unat r div 268435456"
    by (simp_all add: div_mult2_eq [symmetric])
  moreover have "?q mod 1048576 mod 262144 = ?q mod 262144"
    by (rule mod_mod_cancel) simp
  ultimately show ?thesis
    unfolding page_number_def byte_fields using digits [of ?q] by simp
qed

section \<open>Erasing\<close>

text \<open>The row address that is sent is 33 times the block number.\<close>

lemma block_row:
  assumes "unat b < 4096"
  shows "unat (b * NANDFLASH_BLOCK_FSIZE - b * NANDFLASH_BLOCK_FSIZE mod NANDFLASH_BLOCK_FSIZE) div 4096 mod 262144 = 33 * unat b"
proof -
  have "unat b * 135168 < 2 ^ 32" using assms by simp
  then have u: "unat (b * NANDFLASH_BLOCK_FSIZE) = unat b * 135168"
    by (simp add: unat_word_ariths)
  then have "unat (b * NANDFLASH_BLOCK_FSIZE mod NANDFLASH_BLOCK_FSIZE) = 0"
    by (simp add: unat_mod_distrib)
  then have "b * NANDFLASH_BLOCK_FSIZE mod NANDFLASH_BLOCK_FSIZE = 0"
    by (simp only: unat_eq_0)
  then show ?thesis using u assms by simp
qed

lemma erase:
  assumes "nand_contract N v" "unat b < 4096"
  shows "\<exists>c'. yaffs_nand_drv_EraseBlock N b c = Some (True, c') \<and>
    pages (v c') = (\<lambda>p. if p div 64 = 33 * unat b div 64 then blank else pages (v c) p)"
proof -
  let ?r = "b * NANDFLASH_BLOCK_FSIZE - b * NANDFLASH_BLOCK_FSIZE mod NANDFLASH_BLOCK_FSIZE"
  let ?c1 = "CLE N K9FXX_BLOCK_ERASE_1 c"
  obtain c2 where c2: "c2 = ALE N (ucast (drop_bit 28 (?r AND 0xF0000000))) (ALE N (ucast (drop_bit 20 (?r AND 0x0FF00000)))
      (ALE N (ucast (drop_bit 12 (?r AND 0x000FF000))) ?c1))" by blast
  let ?c3 = "CLE N K9FXX_BLOCK_ERASE_2 c2"
  have 1: "cmd (v ?c1) = K9FXX_BLOCK_ERASE_1" "cycles (v ?c1) = []" "pages (v ?c1) = pages (v c)"
    by (simp_all add: commands [OF assms(1)])
  have 2: "cmd (v c2) = K9FXX_BLOCK_ERASE_1" "page (v c2) = 33 * unat b" "pages (v c2) = pages (v c)"
    unfolding c2 address_block [OF assms(1) 1(1,2)] row_bytes block_row [OF assms(2)] using 1 by simp_all
  have 3: "pages (v ?c3) = (\<lambda>p. if p div 64 = 33 * unat b div 64 then blank else pages (v c) p)"
    using commands(5) [OF assms(1) 2(1)] 2(2,3) by (simp cong: if_cong)
  obtain c4 where 4: "NandFlash_WaitForReady N ?c3 = Some c4" "v c4 = (v ?c3)\<lparr>busy := 0\<rparr>"
    using wait_ready [OF assms(1)] by blast
  obtain c5 where 5: "NandFlash_ReadStatus N K9FXX_BLOCK_ERASE_1 c4 = Some (True, c5)"
      "v c5 = (v c4)\<lparr>cmd := K9FXX_READ_STATUS, cycles := [], busy := 0\<rparr>"
    using read_status [OF assms(1), of K9FXX_BLOCK_ERASE_1 c4] by blast
  show ?thesis
    unfolding yaffs_nand_drv_EraseBlock_def NandFlash_BlockErase_def Let_def c2 [symmetric] 4(1)
    using 3 4(2) 5 by simp
qed

section \<open>Programming and reading a page\<close>

lemma page_select:
  fixes p off :: u32
  assumes "nand_contract N v" "cmd (v x) = K9FXX_READ_1 \<or> cmd (v x) = K9FXX_BLOCK_PROGRAM_1" "cycles (v x) = []" "unat p < 262144"
    and "off = 0 \<or> off = (2048 :: u32)"
  shows "\<exists>cy. v (ALE N (ucast (drop_bit 16 (p AND 0x000F0000))) (ALE N (ucast (drop_bit 8 (p AND 0x0000FF00)))
     (ALE N (ucast (p AND 0x000000FF)) (ALE N (ucast (drop_bit 8 (off AND 0x00000F00))) (ALE N (ucast (off AND 0x000000FF)) x))))) =
    (v x)\<lparr>cycles := cy, column := unat off, page := unat p\<rparr>"
proof -
  have x: "cmd (v x) \<noteq> K9FXX_BLOCK_ERASE_1" using assms(2) by auto
  have "unat off mod 256 + 256 * (unat off div 256 mod 16 mod 16) = unat off"
    using assms(5) by auto
  then show ?thesis
    unfolding address_page [OF assms(1) x assms(3)] byte_fields page_bytes [OF assms(4)] by auto
qed

lemma program_page:
  assumes "nand_contract N v" "unat p < 262144" "length data = 2048" "length spare = 64" "spare ! 0 = 0xFF"
  shows "\<exists>c'. NandFlash_PageProgramWithSpare N p (Some data) 2048 (Some spare) c = Some (True, c') \<and>
    pages (v c') = (pages (v c))(unat p := map2 (AND) (pages (v c) (unat p)) (data @ spare))"
proof -
  let ?c1 = "CLE N K9FXX_BLOCK_PROGRAM_1 c"
  have 1: "v ?c1 = (v c)\<lparr>cmd := K9FXX_BLOCK_PROGRAM_1, cycles := [], reg := blank\<rparr>"
    by (rule commands(2) [OF assms(1)])
  let ?c2 = "ALE N (ucast (drop_bit 16 (p AND 0x000F0000))) (ALE N (ucast (drop_bit 8 (p AND 0x0000FF00)))
     (ALE N (ucast (p AND 0x000000FF)) (ALE N (ucast (drop_bit 8 ((0 :: u32) AND 0x00000F00))) (ALE N (ucast ((0 :: u32) AND 0x000000FF)) ?c1))))"
  obtain cy where 2: "v ?c2 = (v ?c1)\<lparr>cycles := cy, column := unat (0 :: u32), page := unat p\<rparr>"
    using page_select [OF assms(1), of ?c1 p 0] assms(2) 1 by auto
  let ?c3 = "fold (DATA_w N) data ?c2"
  have 3: "v ?c3 = (v ?c2)\<lparr>column := 2048, reg := data @ drop 2048 blank\<rparr>"
    using write_bytes [OF assms(1), of ?c2 data] assms(3) unfolding 2 1 by (simp add: blank_def)
  let ?c4 = "fold (DATA_w N) spare ?c3"
  have 4: "v ?c4 = (v ?c3)\<lparr>column := 2112, reg := data @ spare\<rparr>"
    using write_bytes [OF assms(1), of ?c3 spare] assms(3,4) unfolding 3 2 1 by (simp add: blank_def)
  let ?c5 = "CLE N K9FXX_BLOCK_PROGRAM_2 ?c4"
  have "cmd (v ?c4) = K9FXX_BLOCK_PROGRAM_1"
    unfolding 4 3 2 1 by simp
  then have 5: "pages (v ?c5) = (pages (v c))(unat p := map2 (AND) (pages (v c) (unat p)) (data @ spare))"
    using commands(4) [OF assms(1), of ?c4] unfolding 4 3 2 1 by simp
  obtain c6 where 6: "NandFlash_WaitForReady N ?c5 = Some c6" "v c6 = (v ?c5)\<lparr>busy := 0\<rparr>"
    using wait_ready [OF assms(1)] by blast
  obtain c7 where 7: "NandFlash_ReadStatus N K9FXX_BLOCK_PROGRAM_1 c6 = Some (True, c7)"
      "v c7 = (v c6)\<lparr>cmd := K9FXX_READ_STATUS, cycles := [], busy := 0\<rparr>"
    using read_status [OF assms(1), of K9FXX_BLOCK_PROGRAM_1 c6] by blast
  have d: "write_n N 2048 data x = Some (fold (DATA_w N) data x)" "write_n N 64 spare x = Some (fold (DATA_w N) spare x)" for x
    using assms(3,4) by (simp_all add: write_n_def)
  have sp: "rd spare 0 = Some 0xFF" using assms(4,5) by (simp add: rd_def)
  show ?thesis
    unfolding NandFlash_PageProgramWithSpare_def option.case sp bind.simps Let_def d
    using 5 6 7 by (simp add: d)
qed

lemma read_page:
  assumes "nand_contract N v" "unat p < 262144" "length (pages (v c) (unat p)) = 2112"
  shows "\<exists>c'. NandFlash_PageReadWithSpare N p True True c =
      Some (1, Some (take 2048 (pages (v c) (unat p))), Some (drop 2048 (pages (v c) (unat p))), c') \<and> pages (v c') = pages (v c)"
proof -
  let ?c1 = "CLE N K9FXX_READ_1 c"
  have 1: "v ?c1 = (v c)\<lparr>cmd := K9FXX_READ_1, cycles := []\<rparr>"
    by (rule commands(1) [OF assms(1)]) simp
  let ?c2 = "ALE N (ucast (drop_bit 16 (p AND 0x000F0000))) (ALE N (ucast (drop_bit 8 (p AND 0x0000FF00)))
     (ALE N (ucast (p AND 0x000000FF)) (ALE N (ucast (drop_bit 8 ((0 :: u32) AND 0x00000F00))) (ALE N (ucast ((0 :: u32) AND 0x000000FF)) ?c1))))"
  obtain cy where 2: "v ?c2 = (v ?c1)\<lparr>cycles := cy, column := unat (0 :: u32), page := unat p\<rparr>"
    using page_select [OF assms(1), of ?c1 p 0] assms(2) 1 by auto
  let ?c3 = "CLE N K9FXX_READ_2 ?c2"
  have "cmd (v ?c2) = K9FXX_READ_1" unfolding 2 1 by simp
  note 3 = commands(3) [OF assms(1) this]
  obtain c4 where 4: "NandFlash_WaitForReady N ?c3 = Some c4" "v c4 = (v ?c3)\<lparr>busy := 0\<rparr>"
    using wait_ready [OF assms(1)] by blast
  have r: "cmd (v c4) = K9FXX_READ_2" "column (v c4) = 0" "reg (v c4) = pages (v c) (unat p)" "pages (v c4) = pages (v c)"
    unfolding 4 3 2 1 by simp_all
  obtain c5 where 5: "read_n N 2048 c4 = (take 2048 (pages (v c) (unat p)), c5)" "v c5 = (v c4)\<lparr>column := 2048\<rparr>"
    using read_register [OF assms(1), of c4 2048] assms(3) by (auto simp: r)
  obtain c6 where 6: "read_n N 64 c5 = (drop 2048 (pages (v c) (unat p)), c6)" "v c6 = (v c5)\<lparr>column := 2112\<rparr>"
    using read_register [OF assms(1), of c5 64] assms(3) by (auto simp: r 5(2))
  show ?thesis
    unfolding NandFlash_PageReadWithSpare_def Let_def if_True 4(1) bind.simps 5(1) map_prod_simp split 6(1)
    using 5(2) 6 r(4) by simp
qed

lemma other_block:
  fixes b :: u32
  assumes "b \<noteq> 0"
  shows "33 * unat b div 64 \<noteq> unat b"
proof -
  have "0 < unat b" using assms by (simp add: unat_gt_0)
  moreover have "33 * unat b div 64 * 64 \<le> 33 * unat b" by (rule div_times_less_eq_dividend)
  ultimately show ?thesis by linarith
qed

section \<open>The bad block check\<close>

lemma read_one:
  assumes "nand_contract N v" "unat w mod 2112 = 2048" "buf \<noteq> []"
    and page: "length (pages (v c) ((unat w - 2048) div 4096 mod 262144)) = 2112"
  shows "\<exists>c'. NandFlash_ReadFromAddr N w buf 1 c =
      Some (0, buf[0 := pages (v c) ((unat w - 2048) div 4096 mod 262144) ! 2048], c') \<and> pages (v c') = pages (v c)"
proof -
  have m: "unat (w mod NANDFLASH_PAGE_FSIZE) = 2048" using assms(2) by (simp add: unat_mod_distrib)
  then have m': "w mod NANDFLASH_PAGE_FSIZE = 2048" by (simp add: word_unat_eq_iff)
  have "2048 \<le> unat w" using assms(2) mod_less_eq_dividend [of "unat w" 2112] by linarith
  then have r: "unat (w - 2048) = unat w - 2048" by (simp add: unat_sub word_le_nat_alt)
  let ?c1 = "CLE N K9FXX_READ_1 c"
  have 1: "v ?c1 = (v c)\<lparr>cmd := K9FXX_READ_1, cycles := []\<rparr>"
    by (rule commands(1) [OF assms(1)]) simp
  have 0: "cmd (v ?c1) \<noteq> K9FXX_BLOCK_ERASE_1" "cycles (v ?c1) = []" using 1 by simp_all
  obtain c2 where c2: "c2 = ALE N (ucast (drop_bit 28 ((w - 2048) AND 0xF0000000))) (ALE N (ucast (drop_bit 20 ((w - 2048) AND 0x0FF00000)))
      (ALE N (ucast (drop_bit 12 ((w - 2048) AND 0x000FF000))) (ALE N (ucast (drop_bit 8 (2048 AND 0x00000F00 :: u32)))
      (ALE N (ucast (2048 AND 0x000000FF :: u32)) ?c1))))" by blast
  have 2: "cmd (v c2) = K9FXX_READ_1" "column (v c2) = 2048" "page (v c2) = (unat w - 2048) div 4096 mod 262144" "pages (v c2) = pages (v c)"
    unfolding c2 address_page [OF assms(1) 0] row_bytes byte_fields r using 1 by simp_all
  let ?c3 = "CLE N K9FXX_READ_2 c2"
  obtain c4 where 4: "NandFlash_WaitForReady N ?c3 = Some c4" "v c4 = (v ?c3)\<lparr>busy := 0\<rparr>"
    using wait_ready [OF assms(1)] by blast
  have 5: "cmd (v c4) = K9FXX_READ_2" "column (v c4) = 2048" "reg (v c4) = pages (v c) ((unat w - 2048) div 4096 mod 262144)" "pages (v c4) = pages (v c)"
    using commands(3) [OF assms(1) 2(1)] 2 by (simp_all add: 4)
  have 6: "fst (DATA_r N c4) = pages (v c) ((unat w - 2048) div 4096 mod 262144) ! 2048" "pages (v (snd (DATA_r N c4))) = pages (v c)"
    using 5 page by (simp_all add: contract [OF assms(1)] sheet_read_def)
  have n: "unat (NANDFLASH_PAGE_FSIZE - 2048) = Suc 63" by simp
  have buf: "wr buf 0 x = Some (buf[0 := x])" for x using assms(3) by (simp add: wr_def)
  show ?thesis
    unfolding NandFlash_ReadFromAddr_def Let_def m' c2 [symmetric] 4(1) bind.simps n read_bytes.simps split_beta buf
    using 6 by simp
qed

lemma check_address:
  assumes "unat b < 4096" "k < 2"
  shows "unat (b * NANDFLASH_BLOCK_FSIZE + k * NANDFLASH_PAGE_FSIZE + 2048) = 135168 * unat b + 2112 * unat k + 2048"
proof -
  have k: "unat k < 2" using assms(2) by (simp add: word_less_nat_alt)
  then have "135168 * unat b + 2112 * unat k + 2048 < 2 ^ 32" using assms(1) by simp
  then show ?thesis by (simp add: unat_word_ariths)
qed

lemma check_bad:
  assumes "nand_contract N v" "unat b < 4096" "length (pages (v c) (33 * unat b)) = 2112"
  shows "\<exists>c'. yaffs_nand_drv_CheckBad N b c = Some (pages (v c) (33 * unat b) ! 2048 = 0xFF, c') \<and> pages (v c') = pages (v c)"
proof -
  have row: "(135168 * unat b + 2112 * unat k + 2048 - 2048) div 4096 mod 262144 = 33 * unat b"
      "(135168 * unat b + 2112 * unat k + 2048) mod 2112 = 2048" if "k < 2" for k :: u32
  proof -
    have "unat k = 0 \<or> unat k = 1" using that by (auto simp: word_less_nat_alt)
    then show "(135168 * unat b + 2112 * unat k + 2048 - 2048) div 4096 mod 262144 = 33 * unat b"
      using assms(2) by auto
    have "135168 * unat b + 2112 * unat k = 2112 * (64 * unat b + unat k)" by simp
    then show "(135168 * unat b + 2112 * unat k + 2048) mod 2112 = 2048" by (simp only: mod_mult_self4) simp
  qed
  have page: "\<exists>c'. NandFlash_PageReadFromAddr N b k 2048 [x] 1 c = Some (0, [pages (v c) (33 * unat b) ! 2048], c') \<and> pages (v c') = pages (v c)"
    if "k < 2" "length (pages (v c) (33 * unat b)) = 2112" for k x c
    using read_one [OF assms(1), of "b * NANDFLASH_BLOCK_FSIZE + k * NANDFLASH_PAGE_FSIZE + 2048" "[x]" c]
    unfolding check_address [OF assms(2) that(1)] row [OF that(1)] NandFlash_PageReadFromAddr_def using that(2) by simp
  obtain y where y: "pages (v c) (33 * unat b) ! 2048 = y" by blast
  obtain c1 where c1: "NandFlash_PageReadFromAddr N b 0 2048 [0] 1 c = Some (0, [y], c1)" "pages (v c1) = pages (v c)"
    using page [of 0 c 0] assms(3) y by auto
  obtain c2 where c2: "NandFlash_PageReadFromAddr N b 1 2048 [y] 1 c1 = Some (0, [y], c2)" "pages (v c2) = pages (v c)"
    using page [of 1 c1 y] assms(3) c1(2) y by auto
  show ?thesis
    unfolding yaffs_nand_drv_CheckBad_def NandFlash_ValidBlockCheck_def c1(1) bind.simps prod.case c2(1) y
    using c1(2) c2(2) by (cases "y = 0xFF") (simp_all add: rd_def)
qed

section \<open>A chip that meets the contract\<close>

definition sheet_chip :: "sheet nand" where
  "sheet_chip = \<lparr>CLE = sheet_command, ALE = sheet_address, DATA_w = sheet_write, DATA_r = sheet_read,
     FIO4PIN = (\<lambda>s. (if busy s = 0 then K9FXX_BUSY else 0, sheet_pin s))\<rparr>"

lemma sheet_chip_contract: "nand_contract sheet_chip id"
  by (simp add: nand_contract_def sheet_chip_def)

definition new_chip :: sheet where
  "new_chip = \<lparr>cmd = 0xFF, cycles = [], column = 0, page = 0, reg = blank, pages = (\<lambda>_. blank), busy = 5, latency = 20\<rparr>"


section \<open>Properties\<close>

text \<open>C15: \<open>NandFlash_BlockErase\<close> computes the row address from a block size of 2112 bytes per page but sends
  it as if a page had 4096 bytes. Asked to erase block \<open>b\<close>, it erases block \<open>33 * b div 64\<close>: every
  block but block 0 keeps its old contents although the erasure is reported as done, another block
  loses them (erasing block 1 erases block 0), and no block from 2112 on can ever be erased.\<close>

theorem erase_wrong_block:
  assumes "nand_contract N v" "unat b < 4096"
  shows "\<exists>c'. yaffs_nand_drv_EraseBlock N b c = Some (True, c') \<and>
    (\<forall>p. pages (v c') p = (if p div 64 = 33 * unat b div 64 then blank else pages (v c) p)) \<and>
    (b \<noteq> 0 \<longrightarrow> (\<forall>p. p div 64 = unat b \<longrightarrow> pages (v c') p = pages (v c) p)) \<and>
    33 * unat b div 64 < 2112"
proof -
  obtain c' where c': "yaffs_nand_drv_EraseBlock N b c = Some (True, c')"
      "pages (v c') = (\<lambda>p. if p div 64 = 33 * unat b div 64 then blank else pages (v c) p)"
    using erase [OF assms] by blast
  have "33 * unat b div 64 < 2112" using assms(2) div_times_less_eq_dividend [of "33 * unat b" 64] by linarith
  moreover have "33 * unat b div 64 \<noteq> unat b" if "b \<noteq> 0" by (rule other_block [OF that])
  ultimately show ?thesis
    by (intro exI [of _ c']) (auto simp: c')
qed

lemma erase_wrong_block_witness:
  "\<exists>c'. yaffs_nand_drv_EraseBlock sheet_chip 1 (new_chip\<lparr>pages := (\<lambda>_. replicate 2112 7)\<rparr>) = Some (True, c') \<and>
     pages c' 0 = blank \<and> pages c' 64 = replicate 2112 7"
proof -
  obtain pg where pg: "pg = replicate 2112 (7 :: u8)" by blast
  have "unat (1 :: u32) < 4096" by simp
  from erase_wrong_block [OF sheet_chip_contract this, of "new_chip\<lparr>pages := (\<lambda>_. pg)\<rparr>"]
  show ?thesis unfolding pg [symmetric] by force
qed

text \<open>For the same reason \<open>NandFlash_ValidBlockCheck\<close> does not read the bad block marks in the spare areas of
  the first two pages of the block: it reads the first spare byte of page \<open>33 * b\<close>, twice. For
  every block but block 0 that page belongs to another block, whose mark decides.\<close>

theorem check_wrong_block:
  assumes "nand_contract N v" "unat b < 4096" "length (pages (v c) (33 * unat b)) = 2112"
  shows "(\<exists>c'. yaffs_nand_drv_CheckBad N b c = Some (pages (v c) (33 * unat b) ! 2048 = 0xFF, c') \<and> pages (v c') = pages (v c)) \<and>
    (b \<noteq> 0 \<longrightarrow> 33 * unat b div 64 \<noteq> unat b)"
  by (intro conjI impI check_bad [OF assms] other_block)

lemma check_wrong_block_witness:
  "\<exists>c'. yaffs_nand_drv_CheckBad sheet_chip 3 (new_chip\<lparr>pages := (\<lambda>p. if p div 64 = 3 then replicate 2112 0 else blank)\<rparr>) = Some (True, c')"
proof -
  obtain pg where pg: "pg = replicate 2112 (0 :: u8)" by blast
  let ?s = "new_chip\<lparr>pages := (\<lambda>p. if p div 64 = 3 then pg else blank)\<rparr>"
  have b: "unat (3 :: u32) < 4096" by simp
  have p: "pages (id ?s) (33 * unat (3 :: u32)) = blank" by simp
  have l: "length blank = 2112" "blank ! 2048 = 0xFF" by (simp_all add: blank_def)
  show ?thesis
    using check_wrong_block [OF sheet_chip_contract b, of ?s, unfolded p, OF l(1)] unfolding pg [symmetric] l(2) by force
qed

end
