(* ===== verification/Nand_Chunk.thy ===== *)
theory Nand_Chunk
  imports Nand_Flash
begin

text \<open>
  What a page of the flash chip holds after \<open>yaffs_nand_drv_WriteChunk\<close> and what
  \<open>yaffs_nand_drv_ReadChunk\<close> makes of it when bits have flipped in the meantime.
\<close>

section \<open>Arrays of blocks\<close>

lemma blocks_length: "\<forall>k \<in> set ks. length (F k) = w \<Longrightarrow> length (concat (map F ks)) = w * length ks"
  by (induction ks) simp_all

lemma upt_split: "k < m \<Longrightarrow> [0..<m] = [0..<k] @ k # [Suc k..<m]"
  using upt_add_eq_append [of 0 k "m - k"] by (simp add: upt_conv_Cons)

lemma blocks_get:
  assumes "\<forall>k < m. length (F k) = w" "k < m"
  shows "take w (drop (w * k) (concat (map F [0..<m]))) = F k"
proof -
  have "length (concat (map F [0..<k])) = w * k"
    using blocks_length [of "[0..<k]" F w] assms by simp
  then show ?thesis
    using assms unfolding upt_split [OF assms(2)] by simp
qed

lemma blocks_put:
  assumes "\<forall>k < m. length (F k) = w" "k < m" "length x = w" "i = length pre + w * k"
  shows "wr_seq (pre @ concat (map F [0..<m]) @ post) i x = Some (pre @ concat (map (F(k := x)) [0..<m]) @ post)"
proof -
  have "length (concat (map F [0..<k])) = w * k"
    using blocks_length [of "[0..<k]" F w] assms by simp
  moreover have "map (F(k := x)) [0..<k] = map F [0..<k]" "map (F(k := x)) [Suc k..<m] = map F [Suc k..<m]"
    by simp_all
  ultimately show ?thesis
    using assms unfolding upt_split [OF assms(2)] by (simp add: wr_seq_eq)
qed

lemma wr_seq_tail:
  "length x \<le> m \<Longrightarrow> i = length pre \<Longrightarrow> wr_seq (pre @ replicate m z) i x = Some (pre @ x @ replicate (m - length x) z)"
  by (simp add: wr_seq_eq)

section \<open>The layout of a page\<close>

definition ecc_bytes :: "ecc \<Rightarrow> u8 list" where
  "ecc_bytes e = [fst e, fst (snd e), snd (snd e)]"

definition data_area :: "(nat \<Rightarrow> u8 list) \<Rightarrow> u8 list" where
  "data_area F = concat (map F [0..<8])"

definition spare_area :: "(nat \<Rightarrow> ecc) \<Rightarrow> u8 list \<Rightarrow> u8 list" where
  "spare_area E tags = [0xFF, 0xFF] @ concat (map (\<lambda>k. ecc_bytes (E k)) [0..<8]) @ tags @ replicate (38 - length tags) 0xFF"

definition sector_ecc :: "u8 list \<Rightarrow> nat \<Rightarrow> ecc" where
  "sector_ecc data k = the (yaffs_ecc_calc (sector data k))"

text \<open>What may have happened to a sector: one flipped bit in its data or its parity, or two in its data.\<close>

datatype sector_error = Clean | DataBit nat nat | ParityBit nat nat | TwoBits nat nat nat nat

definition flip_bit :: "nat \<Rightarrow> nat \<Rightarrow> u8 list \<Rightarrow> u8 list" where
  "flip_bit k j s = s[k := s ! k XOR push_bit j 1]"

fun hit_data :: "sector_error \<Rightarrow> u8 list \<Rightarrow> u8 list" where
  "hit_data (DataBit k j) s = flip_bit k j s"
| "hit_data (TwoBits k j k' j') s = flip_bit k' j' (flip_bit k j s)"
| "hit_data _ s = s"

fun hit_parity :: "sector_error \<Rightarrow> ecc \<Rightarrow> ecc" where
  "hit_parity (ParityBit i j) e = flip_parity i j e"
| "hit_parity _ e = e"

fun possible :: "sector_error \<Rightarrow> bool" where
  "possible Clean \<longleftrightarrow> True"
| "possible (DataBit k j) \<longleftrightarrow> k < 256 \<and> j < 8"
| "possible (ParityBit i j) \<longleftrightarrow> i < 3 \<and> j < 8"
| "possible (TwoBits k j k' j') \<longleftrightarrow> k < 256 \<and> j < 8 \<and> k' < 256 \<and> j' < 8 \<and> (k, j) \<noteq> (k', j')"

fun uncorrectable :: "sector_error \<Rightarrow> bool" where
  "uncorrectable (TwoBits k j k' j') \<longleftrightarrow> True"
| "uncorrectable _ \<longleftrightarrow> False"

text \<open>The page of a chunk and its tags, with the errors it has suffered.\<close>

definition page_image :: "(nat \<Rightarrow> sector_error) \<Rightarrow> u8 list \<Rightarrow> u8 list \<Rightarrow> u8 list" where
  "page_image err data tags =
     data_area (\<lambda>k. hit_data (err k) (sector data k)) @ spare_area (\<lambda>k. hit_parity (err k) (sector_ecc data k)) tags"

lemma sector_length: "length data = 2048 \<Longrightarrow> k < 8 \<Longrightarrow> length (sector data k) = 256"
  by (simp add: sector_def)

lemma sector_calc: "length data = 2048 \<Longrightarrow> k < 8 \<Longrightarrow> yaffs_ecc_calc (sector data k) = Some (sector_ecc data k)"
  using calc_total [OF sector_length, of data k] by (auto simp: sector_ecc_def)

lemma hit_data_length: "length (hit_data err s) = length s"
  by (cases err) (simp_all add: flip_bit_def)

lemma ecc_bytes_length: "length (ecc_bytes e) = 3"
  by (simp add: ecc_bytes_def)

lemma data_area_sectors: "length data = 2048 \<Longrightarrow> data_area (sector data) = data"
proof -
  assume "length data = 2048"
  moreover have "concat (map (sector data) [0..<n]) = take (256 * n) data" for n
    by (induction n) (simp_all add: sector_def take_add [symmetric] add.commute)
  ultimately show ?thesis by (simp add: data_area_def)
qed

lemma sector_data_area: "\<forall>k < 8. length (F k) = 256 \<Longrightarrow> k < 8 \<Longrightarrow> sector (data_area F) k = F k"
  unfolding sector_def data_area_def by (rule blocks_get)

lemma area_lengths:
  "\<forall>k < 8. length (F k) = 256 \<Longrightarrow> length (data_area F) = 2048"
  "length tags \<le> 38 \<Longrightarrow> length (spare_area E tags) = 64"
  using blocks_length [of "[0..<8]" F 256] blocks_length [of "[0..<8]" "\<lambda>k. ecc_bytes (E k)" 3]
  by (simp_all add: data_area_def spare_area_def ecc_bytes_length del: upt_rec_numeral)

section \<open>Writing\<close>

lemma put_ecc_run:
  assumes "length data = 2048" "n \<le> 8"
  shows "run (put_ecc data) [0..<n] (replicate 64 0xFF) =
    Some ([0xFF, 0xFF] @ concat (map (\<lambda>k. ecc_bytes (sector_ecc data k)) [0..<n]) @ replicate (62 - 3 * n) 0xFF)"
  using assms(2)
proof (induction n)
  case 0
  then show ?case by (simp add: numeral_eq_Suc)
next
  case (Suc n)
  have "length (concat (map (\<lambda>k. ecc_bytes (sector_ecc data k)) [0..<n])) = 3 * n"
    using blocks_length [of "[0..<n]" "\<lambda>k. ecc_bytes (sector_ecc data k)" 3] by (simp add: ecc_bytes_length)
  then have "wr_seq ([0xFF, 0xFF] @ concat (map (\<lambda>k. ecc_bytes (sector_ecc data k)) [0..<n]) @ replicate (62 - 3 * n) 0xFF) (2 + 3 * n)
      (ecc_bytes (sector_ecc data n)) =
      Some ([0xFF, 0xFF] @ concat (map (\<lambda>k. ecc_bytes (sector_ecc data k)) [0..<Suc n]) @ replicate (62 - 3 * Suc n) 0xFF)"
    using wr_seq_tail [of "ecc_bytes (sector_ecc data n)" "62 - 3 * n" "2 + 3 * n"
        "[0xFF, 0xFF] @ concat (map (\<lambda>k. ecc_bytes (sector_ecc data k)) [0..<n])" "0xFF"] Suc.prems
    by (simp add: ecc_bytes_length)
  then show ?case using Suc sector_calc [OF assms(1), of n]
    by (simp add: run_append put_ecc_def ecc_bytes_def [symmetric])
qed

lemma and_ones: "0xFF AND x = (x :: u8)"
proof -
  have "(0xFF :: u8) = -1" by simp
  then show ?thesis by (simp only: and.left_neutral)
qed

lemma and_blank: "length xs = 2112 \<Longrightarrow> map2 (AND) blank xs = xs"
  by (rule nth_equalityI) (simp_all add: blank_def and_ones)

lemma page_image_length: "length data = 2048 \<Longrightarrow> length tags \<le> 38 \<Longrightarrow> length (page_image err data tags) = 2112"
  by (simp add: page_image_def area_lengths hit_data_length sector_length)

lemma page_image_clean: "length data = 2048 \<Longrightarrow> page_image (\<lambda>_. Clean) data tags = data @ spare_area (sector_ecc data) tags"
  using data_area_sectors by (simp add: page_image_def)

lemma write_chunk:
  assumes "nand_contract N v" "unat p < 262144" "length data = 2048" "n \<le> length tags" "n \<le> 38" "pages (v c) (unat p) = blank"
  shows "\<exists>c'. yaffs_nand_drv_WriteChunk N k9f4g08u0b p (Some data) 2048 (Some tags) n c = Some (True, c') \<and>
    pages (v c') = (pages (v c))(unat p := page_image (\<lambda>_. Clean) data (take n tags))"
proof -
  have len: "length (concat (map (\<lambda>k. ecc_bytes (sector_ecc data k)) [0..<8])) = 24"
    using blocks_length [of "[0..<8]" "\<lambda>k. ecc_bytes (sector_ecc data k)" 3] by (simp add: ecc_bytes_length)
  have spare: "wr_seq ([0xFF, 0xFF] @ concat (map (\<lambda>k. ecc_bytes (sector_ecc data k)) [0..<8]) @ replicate 38 0xFF) 26 (take n tags)
      = Some (spare_area (sector_ecc data) (take n tags))"
    using wr_seq_tail [of "take n tags" 38 26 "[0xFF, 0xFF] @ concat (map (\<lambda>k. ecc_bytes (sector_ecc data k)) [0..<8])" "0xFF"] assms(4,5) len
    by (simp add: spare_area_def min_def del: upt_rec_numeral)
  have s: "sectors k9f4g08u0b = 8" "spare_bytes_per_page k9f4g08u0b = 64"
    by (simp_all add: sectors_def k9f4g08u0b_def)
  have "length (spare_area (sector_ecc data) (take n tags)) = 64" "spare_area (sector_ecc data) (take n tags) ! 0 = 0xFF"
    using assms(5) by (simp_all add: area_lengths) (simp add: spare_area_def)
  note program_page [OF assms(1-3) this, of c, unfolded assms(6)]
  then show ?thesis
    unfolding yaffs_nand_drv_WriteChunk_def option.case prod.case s
    using put_ecc_run [OF assms(3), of 8] spare assms(4) and_blank [of "data @ spare_area (sector_ecc data) (take n tags)"]
    by (simp add: page_image_clean assms(3) area_lengths assms(5) del: upt_rec_numeral)
qed

section \<open>Reading\<close>

text \<open>The result after some sectors; what is delivered of a sector.\<close>

definition chunk_result :: "(nat \<Rightarrow> sector_error) \<Rightarrow> nat \<Rightarrow> yaffs_ecc_result" where
  "chunk_result err n = (if \<exists>k < n. uncorrectable (err k) then ECC_UNFIXED else if \<exists>k < n. err k \<noteq> Clean then ECC_FIXED else ECC_NO_ERROR)"

definition delivered :: "sector_error \<Rightarrow> u8 list \<Rightarrow> u8 list" where
  "delivered err s = (if uncorrectable err then hit_data err s else s)"

text \<open>What the correction does with each error.\<close>

lemma correct_sector:
  assumes "length s = 256" "yaffs_ecc_calc s = Some e" "possible err"
  shows "\<exists>t. yaffs_ecc_calc (hit_data err s) = Some t \<and>
    yaffs_ecc_correct (hit_data err s) (hit_parity err e) t =
      Some (if uncorrectable err then -1 else if err = Clean then 0 else 1, delivered err s, e)"
proof (cases err)
  case Clean
  then show ?thesis using assms(2) correct_same by (simp add: delivered_def)
next
  case (DataBit k j)
  then show ?thesis using assms ecc_one_bit [of s e k j] by (simp add: delivered_def flip_bit_def)
next
  case (ParityBit i j)
  then show ?thesis using assms ecc_parity_bit [of j s i e] by (simp add: delivered_def)
next
  case (TwoBits k j k' j')
  then show ?thesis using assms ecc_two_bits [of s e k j k' j' "flip_bit k j s"] by (simp add: delivered_def flip_bit_def)
qed

lemma fix_sector_areas:
  assumes F: "\<forall>k < 8. length (F k) = 256" and k: "k < 8" and tags: "length tags \<le> 38"
    and s: "length s = 256" "yaffs_ecc_calc s = Some e" "possible err" "F k = hit_data err s" "E k = hit_parity err e"
  shows "fix_sector k (data_area F, spare_area E tags, res) =
    Some (data_area (F(k := delivered err s)), spare_area (E(k := e)) tags,
      if uncorrectable err then ECC_UNFIXED else if err \<noteq> Clean \<and> res = ECC_NO_ERROR then ECC_FIXED else res)"
proof -
  obtain t where t: "yaffs_ecc_calc (sector (data_area F) k) = Some t"
     "yaffs_ecc_correct (sector (data_area F) k) (hit_parity err e) t =
        Some (if uncorrectable err then -1 else if err = Clean then 0 else 1, delivered err s, e)"
    using correct_sector [OF s(1-3)] sector_data_area [OF F k] s(4) by auto
  let ?post = "tags @ replicate (38 - length tags) 0xFF"
  have get: "take 3 (drop (2 + 3 * k) (spare_area E tags)) = ecc_bytes (E k)"
    using blocks_get [of 8 "\<lambda>k. ecc_bytes (E k)" 3 k] k blocks_length [of "[0..<8]" "\<lambda>k. ecc_bytes (E k)" 3]
    by (simp add: spare_area_def ecc_bytes_length del: upt_rec_numeral)
  have len: "length (spare_area E tags) = 64" by (rule area_lengths(2) [OF tags])
  have bytes: "rd (spare_area E tags) (2 + 3 * k) = Some (fst (E k))" "rd (spare_area E tags) (3 + 3 * k) = Some (fst (snd (E k)))"
      "rd (spare_area E tags) (4 + 3 * k) = Some (snd (snd (E k)))"
    using arg_cong [OF get, of "\<lambda>xs. xs ! 0"] arg_cong [OF get, of "\<lambda>xs. xs ! 1"] arg_cong [OF get, of "\<lambda>xs. xs ! 2"] k
    by (simp_all add: len ecc_bytes_def add.commute numeral_eq_Suc)
  have wd: "wr_seq (data_area F) (256 * k) (delivered err s) = Some (data_area (F(k := delivered err s)))"
    using blocks_put [of 8 F 256 k "delivered err s" "256 * k" "[]" "[]"] F k s(1)
    by (simp add: data_area_def delivered_def hit_data_length del: upt_rec_numeral)
  have ws: "wr_seq (spare_area E tags) (2 + 3 * k) (ecc_bytes e) = Some (spare_area (E(k := e)) tags)"
    using blocks_put [of 8 "\<lambda>k. ecc_bytes (E k)" 3 k "ecc_bytes e" "2 + 3 * k" "[0xFF, 0xFF]" ?post] k
    by (simp add: spare_area_def ecc_bytes_length fun_upd_def if_distrib cong: if_cong del: upt_rec_numeral)
  show ?thesis
    unfolding fix_sector_def split t(1) bytes bind.simps prod.collapse s(5) t(2) wd ecc_bytes_def [symmetric] ws
    by simp
qed

lemma fix_sectors:
  assumes "length data = 2048" "length tags \<le> 38" "\<forall>k < 8. possible (err k)" "n \<le> 8"
  shows "run fix_sector [0..<n] (data_area (\<lambda>k. hit_data (err k) (sector data k)),
       spare_area (\<lambda>k. hit_parity (err k) (sector_ecc data k)) tags, ECC_NO_ERROR) =
    Some (data_area (\<lambda>k. if k < n then delivered (err k) (sector data k) else hit_data (err k) (sector data k)),
       spare_area (\<lambda>k. if k < n then sector_ecc data k else hit_parity (err k) (sector_ecc data k)) tags, chunk_result err n)"
  using assms(4)
proof (induction n)
  case 0
  then show ?case by (simp add: chunk_result_def)
next
  case (Suc n)
  let ?F = "\<lambda>k. if k < n then delivered (err k) (sector data k) else hit_data (err k) (sector data k)"
  let ?E = "\<lambda>k. if k < n then sector_ecc data k else hit_parity (err k) (sector_ecc data k)"
  have F: "\<forall>k < 8. length (?F k) = 256"
    using assms(1) by (simp add: delivered_def hit_data_length sector_length)
  have n: "n < 8" using Suc.prems by simp
  have step: "fix_sector n (data_area ?F, spare_area ?E tags, chunk_result err n) =
    Some (data_area (?F(n := delivered (err n) (sector data n))), spare_area (?E(n := sector_ecc data n)) tags, chunk_result err (Suc n))"
    using fix_sector_areas [OF F n assms(2) sector_length [OF assms(1) n] sector_calc [OF assms(1) n], of "err n" ?E "chunk_result err n"] assms(3) n
    by (auto simp: chunk_result_def less_Suc_eq)
  have "?F(n := delivered (err n) (sector data n)) = (\<lambda>k. if k < Suc n then delivered (err k) (sector data k) else hit_data (err k) (sector data k))"
      "?E(n := sector_ecc data n) = (\<lambda>k. if k < Suc n then sector_ecc data k else hit_parity (err k) (sector_ecc data k))"
    by auto
  then show ?case using Suc step by (simp add: run_append)
qed

lemma data_area_cong: "(\<And>k. k < 8 \<Longrightarrow> F k = G k) \<Longrightarrow> data_area F = data_area G"
  unfolding data_area_def by (rule arg_cong [where f = concat], rule map_cong) simp_all

lemma read_chunk:
  assumes "nand_contract N v" "unat p < 262144" "length data = 2048" "length tags \<le> 38" "\<forall>k < 8. possible (err k)"
    and "pages (v c) (unat p) = page_image err data tags"
  shows "\<exists>c'. yaffs_nand_drv_ReadChunk N k9f4g08u0b p True (Some (length tags)) c =
      Some (True, Some (data_area (\<lambda>k. delivered (err k) (sector data k))), Some tags, chunk_result err 8, c') \<and>
    pages (v c') = pages (v c)"
proof -
  let ?d = "data_area (\<lambda>k. hit_data (err k) (sector data k))"
  let ?s = "spare_area (\<lambda>k. hit_parity (err k) (sector_ecc data k)) tags"
  have len: "length ?d = 2048" "length ?s = 64"
    using assms(3,4) by (simp_all add: area_lengths hit_data_length sector_length)
  have "length (pages (v c) (unat p)) = 2112"
    unfolding assms(6) by (rule page_image_length [OF assms(3,4)])
  from read_page [OF assms(1,2) this] obtain c' where
    r: "NandFlash_PageReadWithSpare N p True True c = Some (1, Some ?d, Some ?s, c')" "pages (v c') = pages (v c)"
    unfolding assms(6) page_image_def using len by auto
  have "length (concat (map (\<lambda>k. ecc_bytes (hit_parity (err k) (sector_ecc data k))) [0..<8])) = 24"
    using blocks_length [of "[0..<8]" "\<lambda>k. ecc_bytes (hit_parity (err k) (sector_ecc data k))" 3] by (simp add: ecc_bytes_length)
  then have tags: "take (length tags) (drop 26 ?s) = tags"
    unfolding spare_area_def by (simp del: upt_rec_numeral)
  have area: "data_area (\<lambda>k. if k < 8 then delivered (err k) (sector data k) else hit_data (err k) (sector data k))
      = data_area (\<lambda>k. delivered (err k) (sector data k))"
    by (rule data_area_cong) simp
  have s: "sectors k9f4g08u0b = 8"
    by (simp add: sectors_def k9f4g08u0b_def)
  show ?thesis
    unfolding yaffs_nand_drv_ReadChunk_def r(1) bind.simps prod.case s option.case tags
    using fix_sectors [OF assms(3-5) order.refl] assms(4) len(2) r(2) by (simp add: area del: upt_rec_numeral)
qed

lemma delivered_clean:
  assumes "length data = 2048" "\<forall>k < 8. \<not> uncorrectable (err k)"
  shows "data_area (\<lambda>k. delivered (err k) (sector data k)) = data"
proof -
  have "data_area (\<lambda>k. delivered (err k) (sector data k)) = data_area (sector data)"
    by (rule data_area_cong) (simp add: delivered_def assms(2))
  then show ?thesis by (simp add: data_area_sectors [OF assms(1)])
qed

lemma chunk_result_fixed: "\<forall>k < 8. \<not> uncorrectable (err k) \<Longrightarrow> k < 8 \<Longrightarrow> err k \<noteq> Clean \<Longrightarrow> chunk_result err 8 = ECC_FIXED"
  by (auto simp: chunk_result_def)

section \<open>Properties\<close>

text \<open>C14: A chunk that is written to an erased page can be read back: whatever one bit of the data or of
  the parity has flipped in each of the eight sectors of the page, \<open>yaffs_nand_drv_ReadChunk\<close>
  delivers the data and the tags that \<open>yaffs_nand_drv_WriteChunk\<close> was given, and says whether it
  had to correct anything; if two bits of a sector have flipped it says that the page could not be
  corrected and delivers that sector as it was read. Both calls return, and no other page changes.\<close>

theorem chunk_roundtrip:
  assumes "nand_contract N v" "unat p < 262144" "length data = 2048" "length tags \<le> 38" "pages (v c) (unat p) = blank"
  shows "\<exists>c1. yaffs_nand_drv_WriteChunk N k9f4g08u0b p (Some data) 2048 (Some tags) (length tags) c = Some (True, c1) \<and>
    pages (v c1) = (pages (v c))(unat p := page_image (\<lambda>_. Clean) data tags) \<and>
    (\<forall>err c2. (\<forall>k < 8. possible (err k)) \<longrightarrow> pages (v c2) (unat p) = page_image err data tags \<longrightarrow>
      (\<exists>c3. yaffs_nand_drv_ReadChunk N k9f4g08u0b p True (Some (length tags)) c2 =
          Some (True, Some (data_area (\<lambda>k. delivered (err k) (sector data k))), Some tags, chunk_result err 8, c3) \<and>
        pages (v c3) = pages (v c2)) \<and>
      ((\<forall>k < 8. \<not> uncorrectable (err k)) \<longrightarrow> data_area (\<lambda>k. delivered (err k) (sector data k)) = data))"
  using write_chunk [OF assms(1-3) order.refl assms(4,5)] read_chunk [OF assms(1-4)] delivered_clean [OF assms(3)] by auto

lemma chunk_roundtrip_witness:
  "\<exists>c1 c3. yaffs_nand_drv_WriteChunk sheet_chip k9f4g08u0b 70 (Some (replicate 2048 0x5A)) 2048 (Some [1, 2, 3]) 3 new_chip = Some (True, c1) \<and>
     yaffs_nand_drv_ReadChunk sheet_chip k9f4g08u0b 70 True (Some 3)
       (c1\<lparr>pages := (\<lambda>_. page_image (\<lambda>k. if k = 2 then DataBit 17 5 else if k = 7 then ParityBit 1 3 else Clean) (replicate 2048 0x5A) [1, 2, 3])\<rparr>) =
       Some (True, Some (replicate 2048 0x5A), Some [1, 2, 3], ECC_FIXED, c3)"
proof -
  obtain data where d: "data = replicate 2048 (0x5A :: u8)" by blast
  obtain err where e: "err = (\<lambda>k :: nat. if k = 2 then DataBit 17 5 else if k = 7 then ParityBit 1 3 else Clean)" by blast
  obtain tags where t: "tags = [1, 2, 3 :: u8]" by blast
  have ok: "\<forall>k < 8. possible (err k)" "\<forall>k < 8. \<not> uncorrectable (err k)"
    by (auto simp: e)
  have res: "chunk_result err 8 = ECC_FIXED"
    by (rule chunk_result_fixed [OF ok(2), of 2]) (simp_all add: e)
  have len: "length data = 2048" "length tags = 3" by (simp_all add: d t)
  have "unat (70 :: u32) < 262144" "length tags \<le> 38" "pages (id new_chip) (unat (70 :: u32)) = blank"
    by (simp_all add: new_chip_def t)
  note rt = chunk_roundtrip [OF sheet_chip_contract this(1) len(1) this(2,3), unfolded len(2) id_apply]
  show ?thesis
    using rt
  proof (elim exE conjE)
    fix c1
    assume c1: "yaffs_nand_drv_WriteChunk sheet_chip k9f4g08u0b 70 (Some data) 2048 (Some tags) 3 new_chip = Some (True, c1)"
    assume r: "\<forall>err c2. (\<forall>k < 8. possible (err k)) \<longrightarrow> pages c2 (unat (70 :: u32)) = page_image err data tags \<longrightarrow>
      (\<exists>c3. yaffs_nand_drv_ReadChunk sheet_chip k9f4g08u0b 70 True (Some 3) c2 =
          Some (True, Some (data_area (\<lambda>k. delivered (err k) (sector data k))), Some tags, chunk_result err 8, c3) \<and>
        pages c3 = pages c2) \<and>
      ((\<forall>k < 8. \<not> uncorrectable (err k)) \<longrightarrow> data_area (\<lambda>k. delivered (err k) (sector data k)) = data)"
    have "pages (c1\<lparr>pages := (\<lambda>_. page_image err data tags)\<rparr>) (unat (70 :: u32)) = page_image err data tags" by simp
    note r [rule_format, OF ok(1) [rule_format] this]
    moreover from this have "data_area (\<lambda>k. delivered (err k) (sector data k)) = data" using ok(2) by blast
    ultimately have "\<exists>c3. yaffs_nand_drv_ReadChunk sheet_chip k9f4g08u0b 70 True (Some 3) (c1\<lparr>pages := (\<lambda>_. page_image err data tags)\<rparr>) =
        Some (True, Some data, Some tags, ECC_FIXED, c3)" by (auto simp: res)
    with c1 show ?thesis unfolding d e t by blast
  qed
qed

end
