(* ===== verification/Nand_Tags.thy ===== *)
theory Nand_Tags
  imports Nand_Chunk C_Memory
begin

text \<open>
  The tags YAFFS2 keeps with every chunk: packing them into the spare area with a parity of their own
  (\<open>YAFFS2/yaffs_packedtags2.c\<close>, the variant for other lengths in \<open>YAFFS2/yaffs_ecc.c\<close>) and reading and writing
  chunks with tags (\<open>YAFFS2/yaffs_tagsmarshall.c\<close>) on the chip's driver. Trace output is left out.
\<close>

section \<open>Parity of other lengths\<close>

text \<open>\<open>struct yaffs_ecc_other\<close>: column parity, line parity and its complement.\<close>

type_synonym ecc_other = "u8 \<times> u32 \<times> u32"

definition other_step :: "u8 list \<Rightarrow> nat \<Rightarrow> ecc_other \<Rightarrow> ecc_other option" where
  "other_step data i = (\<lambda>(col, lp, lpp). do {
     x \<leftarrow> rd data i;
     b \<leftarrow> rd column_parity_table (unat x);
     Some (if b AND 0x01 \<noteq> 0 then (col XOR b, lp XOR word_of_nat i, lpp XOR NOT (word_of_nat i)) else (col XOR b, lp, lpp)) })"

definition yaffs_ecc_calc_other :: "u8 list \<Rightarrow> nat \<Rightarrow> ecc_other option" where
  "yaffs_ecc_calc_other data n_bytes =
     map_option (\<lambda>(col, lp, lpp). (drop_bit 2 col AND 0x3F, lp, lpp)) (run (other_step data) [0..<n_bytes] (0, 0, 0))"

definition hweight32 :: "u32 \<Rightarrow> nat option" where
  "hweight32 x = do {
     w0 \<leftarrow> hweight8 (ucast (x AND 0xFF));
     w1 \<leftarrow> hweight8 (ucast (drop_bit 8 x AND 0xFF));
     w2 \<leftarrow> hweight8 (ucast (drop_bit 16 x AND 0xFF));
     w3 \<leftarrow> hweight8 (ucast (drop_bit 24 x AND 0xFF));
     Some (w0 + w1 + w2 + w3) }"

definition yaffs_ecc_correct_other :: "u8 list \<Rightarrow> nat \<Rightarrow> ecc_other \<Rightarrow> ecc_other \<Rightarrow> (int \<times> u8 list \<times> ecc_other) option" where
  "yaffs_ecc_correct_other data n_bytes read_ecc test_ecc =
     (let delta_col = fst read_ecc XOR fst test_ecc;
          delta_line = fst (snd read_ecc) XOR fst (snd test_ecc);
          delta_line_prime = snd (snd read_ecc) XOR snd (snd test_ecc) in
      if ucast delta_col OR delta_line OR delta_line_prime = 0 then Some (0, data, read_ecc)
      else if delta_line = NOT delta_line_prime \<and> (delta_col XOR drop_bit 1 delta_col) AND 0x15 = 0x15 then
        let bit :: u32 = (if delta_col AND 0x20 \<noteq> 0 then 0x04 else 0) OR (if delta_col AND 0x08 \<noteq> 0 then 0x02 else 0) OR
              (if delta_col AND 0x02 \<noteq> 0 then 0x01 else 0) in
        if n_bytes \<le> unat delta_line then Some (-1, data, read_ecc)
        else do {
          x \<leftarrow> rd data (unat delta_line);
          data \<leftarrow> wr data (unat delta_line) (x XOR push_bit (unat bit) 1);
          Some (1, data, read_ecc) }
      else do {
        w0 \<leftarrow> hweight32 delta_line;
        w1 \<leftarrow> hweight32 delta_line_prime;
        w2 \<leftarrow> hweight8 delta_col;
        Some (if w0 + w1 + w2 = 1 then (1, data, test_ecc) else (-1, data, read_ecc)) })"

section \<open>Packing\<close>

text \<open>Object types are the numbers of \<open>enum yaffs_obj_type\<close>.\<close>

abbreviation OBJECT_TYPE_FILE :: u32 where "OBJECT_TYPE_FILE \<equiv> 1"
abbreviation OBJECT_TYPE_HARDLINK :: u32 where "OBJECT_TYPE_HARDLINK \<equiv> 4"

record ext_tags =
  chunk_used :: u32
  obj_id :: u32
  chunk_id :: u32
  n_bytes :: u32
  ecc_result :: yaffs_ecc_result
  block_bad :: u32
  is_deleted :: u32
  serial_number :: u32
  seq_number :: u32
  extra_available :: u32
  extra_parent_id :: u32
  extra_is_shrink :: u32
  extra_shadows :: u32
  extra_obj_type :: u32
  extra_file_size :: "64 word"
  extra_equiv_id :: u32

definition zero_tags :: ext_tags where
  "zero_tags = \<lparr>chunk_used = 0, obj_id = 0, chunk_id = 0, n_bytes = 0, ecc_result = ECC_UNKNOWN, block_bad = 0, is_deleted = 0,
     serial_number = 0, seq_number = 0, extra_available = 0, extra_parent_id = 0, extra_is_shrink = 0, extra_shadows = 0,
     extra_obj_type = 0, extra_file_size = 0, extra_equiv_id = 0\<rparr>"

record packed_tags2_tags_only =
  p_seq_number :: u32
  p_obj_id :: u32
  p_chunk_id :: u32
  p_n_bytes :: u32

abbreviation EXTRA_HEADER_INFO_FLAG :: u32 where "EXTRA_HEADER_INFO_FLAG \<equiv> 0x80000000"
abbreviation EXTRA_SHRINK_FLAG :: u32 where "EXTRA_SHRINK_FLAG \<equiv> 0x40000000"
abbreviation EXTRA_SHADOWS_FLAG :: u32 where "EXTRA_SHADOWS_FLAG \<equiv> 0x20000000"
abbreviation ALL_EXTRA_FLAGS :: u32 where "ALL_EXTRA_FLAGS \<equiv> 0xF0000000"
abbreviation EXTRA_OBJECT_TYPE_MASK :: u32 where "EXTRA_OBJECT_TYPE_MASK \<equiv> 0xF0000000"

definition yaffs_check_tags_extra_packable :: "ext_tags \<Rightarrow> bool" where
  "yaffs_check_tags_extra_packable t \<longleftrightarrow>
     \<not> (chunk_id t \<noteq> 0 \<or> extra_available t = 0) \<and>
     \<not> (extra_obj_type t = OBJECT_TYPE_FILE \<and> drop_bit 31 (extra_file_size t) \<noteq> 0)"

definition yaffs_pack_tags2_tags_only :: "ext_tags \<Rightarrow> packed_tags2_tags_only" where
  "yaffs_pack_tags2_tags_only t =
     (if yaffs_check_tags_extra_packable t then
        \<lparr>p_seq_number = seq_number t,
         p_obj_id = obj_id t AND NOT EXTRA_OBJECT_TYPE_MASK OR push_bit 28 (extra_obj_type t),
         p_chunk_id = EXTRA_HEADER_INFO_FLAG OR extra_parent_id t OR (if extra_is_shrink t \<noteq> 0 then EXTRA_SHRINK_FLAG else 0) OR
           (if extra_shadows t \<noteq> 0 then EXTRA_SHADOWS_FLAG else 0),
         p_n_bytes = (if extra_obj_type t = OBJECT_TYPE_HARDLINK then extra_equiv_id t
           else if extra_obj_type t = OBJECT_TYPE_FILE then ucast (extra_file_size t) else 0)\<rparr>
      else \<lparr>p_seq_number = seq_number t, p_obj_id = obj_id t, p_chunk_id = chunk_id t, p_n_bytes = n_bytes t\<rparr>)"

definition yaffs_unpack_tags2_tags_only :: "packed_tags2_tags_only \<Rightarrow> ext_tags" where
  "yaffs_unpack_tags2_tags_only ptt =
     (if p_seq_number ptt = 0xFFFFFFFF then zero_tags
      else
        let t = zero_tags\<lparr>block_bad := 0, chunk_used := 1, obj_id := p_obj_id ptt, chunk_id := p_chunk_id ptt, n_bytes := p_n_bytes ptt,
              is_deleted := 0, serial_number := 0, seq_number := p_seq_number ptt\<rparr> in
        if p_chunk_id ptt AND EXTRA_HEADER_INFO_FLAG \<noteq> 0 then
          let t = t\<lparr>chunk_id := 0, n_bytes := 0, extra_available := 1,
                extra_parent_id := p_chunk_id ptt AND NOT ALL_EXTRA_FLAGS,
                extra_is_shrink := (if p_chunk_id ptt AND EXTRA_SHRINK_FLAG \<noteq> 0 then 1 else 0),
                extra_shadows := (if p_chunk_id ptt AND EXTRA_SHADOWS_FLAG \<noteq> 0 then 1 else 0),
                extra_obj_type := drop_bit 28 (p_obj_id ptt),
                obj_id := obj_id t AND NOT EXTRA_OBJECT_TYPE_MASK\<rparr> in
          if extra_obj_type t = OBJECT_TYPE_HARDLINK then t\<lparr>extra_equiv_id := p_n_bytes ptt\<rparr>
          else t\<lparr>extra_file_size := ucast (p_n_bytes ptt)\<rparr>
        else t)"

text \<open>The structs in memory: 16 bytes of tags, then the parity with three bytes of padding.\<close>

definition tag_bytes :: "packed_tags2_tags_only \<Rightarrow> u8 list" where
  "tag_bytes ptt = bytes32 (p_seq_number ptt) @ bytes32 (p_obj_id ptt) @ bytes32 (p_chunk_id ptt) @ bytes32 (p_n_bytes ptt)"

definition tags_of_bytes :: "u8 list \<Rightarrow> packed_tags2_tags_only" where
  "tags_of_bytes bs = \<lparr>p_seq_number = get32 bs 0, p_obj_id = get32 bs 4, p_chunk_id = get32 bs 8, p_n_bytes = get32 bs 12\<rparr>"

definition ecc_other_bytes :: "u8 list \<Rightarrow> ecc_other \<Rightarrow> u8 list" where
  "ecc_other_bytes pad e = fst e # pad @ bytes32 (fst (snd e)) @ bytes32 (snd (snd e))"

definition ecc_other_of_bytes :: "u8 list \<Rightarrow> ecc_other" where
  "ecc_other_of_bytes bs = (bs ! 0, get32 bs 4, get32 bs 8)"

definition yaffs_pack_tags2 :: "ext_tags \<Rightarrow> (packed_tags2_tags_only \<times> ecc_other) option" where
  "yaffs_pack_tags2 t = (let ptt = yaffs_pack_tags2_tags_only t in
     map_option (Pair ptt) (yaffs_ecc_calc_other (tag_bytes ptt) 16))"

definition yaffs_unpack_tags2 :: "packed_tags2_tags_only \<times> ecc_other \<Rightarrow> bool \<Rightarrow> ext_tags option" where
  "yaffs_unpack_tags2 pt tags_ecc =
     (if p_seq_number (fst pt) \<noteq> 0xFFFFFFFF \<and> tags_ecc then do {
        ecc \<leftarrow> yaffs_ecc_calc_other (tag_bytes (fst pt)) 16;
        (result, bs, e) \<leftarrow> yaffs_ecc_correct_other (tag_bytes (fst pt)) 16 (snd pt) ecc;
        Some ((yaffs_unpack_tags2_tags_only (tags_of_bytes bs))\<lparr>ecc_result :=
          if result = 0 then ECC_NO_ERROR else if result = 1 then ECC_FIXED else if result = -1 then ECC_UNFIXED else ECC_UNKNOWN\<rparr>) }
      else Some ((yaffs_unpack_tags2_tags_only (fst pt))\<lparr>ecc_result := ECC_NO_ERROR\<rparr>))"

section \<open>Chunks with tags\<close>

record yaffs_dev =
  total_bytes_per_chunk :: nat
  data_bytes_per_chunk :: nat
  chunks_per_block :: u32
  inband_tags :: bool
  no_tags_ecc :: bool
  n_ecc_fixed :: u32
  n_ecc_unfixed :: u32

datatype yaffs_block_state =
  BLOCK_UNKNOWN | BLOCK_SCANNING | BLOCK_NEEDS_SCAN | BLOCK_EMPTY | BLOCK_ALLOCATING | BLOCK_FULL | BLOCK_DIRTY |
  BLOCK_CHECKPOINT | BLOCK_COLLECTING | BLOCK_DEAD

text \<open>\<open>pad\<close> is what the three bytes of padding of the local struct happen to hold.\<close>

definition yaffs_tags_marshall_write ::
    "'c nand \<Rightarrow> nand_chip \<Rightarrow> yaffs_dev \<Rightarrow> u8 list \<Rightarrow> u32 \<Rightarrow> u8 list option \<Rightarrow> ext_tags option \<Rightarrow> 'c \<Rightarrow> (bool \<times> 'c) option" where
  "yaffs_tags_marshall_write N chip dev pad nand_chunk data tags c =
     (case data of None \<Rightarrow> yaffs_nand_drv_WriteChunk N chip nand_chunk None (total_bytes_per_chunk dev) None 0 c
      | Some d \<Rightarrow> do {
          t \<leftarrow> tags;
          (if inband_tags dev then do {
             d \<leftarrow> wr_seq d (data_bytes_per_chunk dev) (tag_bytes (yaffs_pack_tags2_tags_only t));
             yaffs_nand_drv_WriteChunk N chip nand_chunk (Some d) (total_bytes_per_chunk dev) None 0 c }
           else if no_tags_ecc dev then
             yaffs_nand_drv_WriteChunk N chip nand_chunk (Some d) (total_bytes_per_chunk dev)
               (Some (tag_bytes (yaffs_pack_tags2_tags_only t))) 16 c
           else do {
             pt \<leftarrow> yaffs_pack_tags2 t;
             yaffs_nand_drv_WriteChunk N chip nand_chunk (Some d) (total_bytes_per_chunk dev)
               (Some (tag_bytes (fst pt) @ ecc_other_bytes pad (snd pt))) 28 c }) })"

text \<open>Taking over what the driver reported into the tags and the counters of the device.\<close>

definition note_result :: "yaffs_ecc_result \<Rightarrow> ext_tags option \<Rightarrow> yaffs_dev \<Rightarrow> ext_tags option \<times> yaffs_dev" where
  "note_result res tags dev =
     (case tags of None \<Rightarrow> (None, dev)
      | Some t \<Rightarrow>
          if res = ECC_UNFIXED then (Some (t\<lparr>ecc_result := ECC_UNFIXED\<rparr>), dev\<lparr>n_ecc_unfixed := n_ecc_unfixed dev + 1\<rparr>)
          else if res = ECC_FIXED then
            (Some (if ecc_result t = ECC_UNKNOWN \<or> ecc_result t = ECC_NO_ERROR then t\<lparr>ecc_result := ECC_FIXED\<rparr> else t),
             dev\<lparr>n_ecc_fixed := n_ecc_fixed dev + 1\<rparr>)
          else (Some t, dev))"

definition yaffs_tags_marshall_read ::
    "'c nand \<Rightarrow> nand_chip \<Rightarrow> yaffs_dev \<Rightarrow> u32 \<Rightarrow> bool \<Rightarrow> bool \<Rightarrow> 'c
      \<Rightarrow> (bool \<times> u8 list option \<times> ext_tags option \<times> yaffs_dev \<times> 'c) option" where
  "yaffs_tags_marshall_read N chip dev nand_chunk hasData wantTags c =
     (let packed_tags_size = (if no_tags_ecc dev then 16 else 28) in
      if \<not> inband_tags dev \<and> \<not> hasData \<and> \<not> wantTags then None
      else do {
        (ret, data, oob, res, c) \<leftarrow> (if inband_tags dev \<or> (hasData \<and> \<not> wantTags)
          then yaffs_nand_drv_ReadChunk N chip nand_chunk (hasData \<or> inband_tags dev) None c
          else yaffs_nand_drv_ReadChunk N chip nand_chunk hasData (Some packed_tags_size) c);
        tags \<leftarrow> (if \<not> wantTags then Some None
          else if inband_tags dev then do {
            d \<leftarrow> data;
            (if data_bytes_per_chunk dev + 16 \<le> length d
             then Some (Some (yaffs_unpack_tags2_tags_only (tags_of_bytes (drop (data_bytes_per_chunk dev) d)))) else None) }
          else do {
            bs \<leftarrow> oob;
            t \<leftarrow> yaffs_unpack_tags2 (tags_of_bytes bs, if no_tags_ecc dev then (0, 0, 0) else ecc_other_of_bytes (drop 16 bs)) (\<not> no_tags_ecc dev);
            Some (Some t) });
        let (tags, dev) = note_result res tags dev;
        Some (res \<noteq> ECC_UNFIXED, if hasData then data else None, tags, dev, c) })"

definition yaffs_tags_marshall_query_block ::
    "'c nand \<Rightarrow> nand_chip \<Rightarrow> yaffs_dev \<Rightarrow> u32 \<Rightarrow> 'c \<Rightarrow> (bool \<times> yaffs_block_state \<times> u32 \<times> yaffs_dev \<times> 'c) option" where
  "yaffs_tags_marshall_query_block N chip dev block_no c = do {
     (retval, c) \<leftarrow> yaffs_nand_drv_CheckBad N block_no c;
     if \<not> retval then Some (True, BLOCK_DEAD, 0, dev, c)
     else do {
       (ret, data, tags, dev, c) \<leftarrow> yaffs_tags_marshall_read N chip dev (block_no * chunks_per_block dev) False True c;
       t \<leftarrow> tags;
       Some (False, if chunk_used t \<noteq> 0 then BLOCK_NEEDS_SCAN else BLOCK_EMPTY, if chunk_used t \<noteq> 0 then seq_number t else 0, dev, c) } }"

definition yaffs_tags_marshall_mark_bad :: "'c nand \<Rightarrow> nand_chip \<Rightarrow> u32 \<Rightarrow> 'c \<Rightarrow> (int \<times> 'c) option" where
  "yaffs_tags_marshall_mark_bad N chip block_no c = yaffs_nand_drv_MarkBad N chip block_no c"

text \<open>The device \<open>yaffs_k9f4g08u0b_install_drv\<close> configures.\<close>

definition k9f4g08u0b_dev :: yaffs_dev where
  "k9f4g08u0b_dev = \<lparr>total_bytes_per_chunk = 2048, data_bytes_per_chunk = 2048, chunks_per_block = 64,
     inband_tags = False, no_tags_ecc = False, n_ecc_fixed = 0, n_ecc_unfixed = 0\<rparr>"

section \<open>The parity of the tags\<close>

definition xor3o :: "ecc_other \<Rightarrow> ecc_other \<Rightarrow> ecc_other" where
  "xor3o = (\<lambda>(a, b, c) (a', b', c'). (a XOR a', b XOR b', c XOR c'))"

definition contr_other :: "nat \<Rightarrow> u8 \<Rightarrow> ecc_other" where
  "contr_other i x = (lin x, if bit (lin x) 0 then word_of_nat i else 0, if bit (lin x) 0 then NOT (word_of_nat i) else 0)"

interpretation other: parity_sum xor3o contr_other
  by unfold_locales (auto simp: xor3o_def contr_other_def lin_xor bit_xor_iff split_beta ac_simps)

lemma other_step_contr: "i < length data \<Longrightarrow> other_step data i st = Some (xor3o st (contr_other i (data ! i)))"
  using column_parity_entry [of "data ! i"]
  by (cases st) (simp add: other_step_def and_bit_0 contr_other_def xor3o_def rd_in del: rd_eq_Some)

lemma other_run:
  "\<forall>i \<in> set is. i < length data \<Longrightarrow> run (other_step data) is st = Some (fold (\<lambda>i. xor3o (contr_other i (data ! i))) is st)"
  by (induction "is" arbitrary: st) (simp_all add: other_step_contr other.add_commute)

definition other_sum :: "u8 list \<Rightarrow> ecc_other" where
  "other_sum data = fold (\<lambda>i. xor3o (contr_other i (data ! i))) [0..<16] (0, 0, 0)"

definition other_pack :: "ecc_other \<Rightarrow> ecc_other" where
  "other_pack = (\<lambda>(col, lp, lpp). (drop_bit 2 col AND 0x3F, lp, lpp))"

lemma calc_other: "length data = 16 \<Longrightarrow> yaffs_ecc_calc_other data 16 = Some (other_pack (other_sum data))"
  by (simp add: yaffs_ecc_calc_other_def other_run other_sum_def other_pack_def split_beta del: upt_rec_numeral)

lemma other_pack_xor: "other_pack (xor3o a b) = xor3o (other_pack a) (other_pack b)"
  by (cases a; cases b) (simp add: other_pack_def xor3o_def bit.conj_xor_distrib2 drop_bit_xor del: drop_bit_eq_div)

lemma other_flip:
  assumes "length data = 16" "k < 16"
  shows "xor3o (other_pack (other_sum data)) (other_pack (other_sum (data[k := data ! k XOR y]))) = other_pack (contr_other k y)"
proof -
  have "other_sum (data[k := data ! k XOR y]) = xor3o (contr_other k y) (other_sum data)"
    using assms other.sum_upd [of k data "[0..<16]" y "(0, 0, 0)"] by (simp add: other_sum_def del: upt_rec_numeral)
  moreover have "xor3o a (xor3o b a) = b" for a b
    by (cases a; cases b) (simp add: xor3o_def ac_simps)
  ultimately show ?thesis by (simp add: other_pack_xor)
qed

lemma octet_low:
  "drop_bit 2 (octet b7 b6 b5 b4 b3 b2 b1 b0) AND 0x3F = octet False False b7 b6 b5 b4 b3 b2"
  by (cases b7; cases b6; cases b5; cases b4; cases b3; cases b2; cases b1; cases b0; simp add: octet_def pick_def)

lemma octet_pairs_low:
  "(octet False False b5 b4 b3 b2 b1 b0 XOR drop_bit 1 (octet False False b5 b4 b3 b2 b1 b0)) AND 0x15 = 0x15 \<longleftrightarrow>
     b5 \<noteq> b4 \<and> b3 \<noteq> b2 \<and> b1 \<noteq> b0"
  by (cases b5; cases b4; cases b3; cases b2; cases b1; cases b0; simp add: octet_def pick_def)

lemma other_pack_flip:
  assumes "j < 8"
  shows "other_pack (contr_other k (push_bit j 1)) =
    (octet False False (bit j 2) (\<not> bit j 2) (bit j 1) (\<not> bit j 1) (bit j 0) (\<not> bit j 0), word_of_nat k, NOT (word_of_nat k))"
  by (simp only: contr_other_def lin_flip [OF assms] octet_bits if_True other_pack_def prod.case octet_low)

lemma correct_other_delta:
  assumes "xor3o e t = (d, l, l')"
  shows "fst e XOR fst t = d" "fst (snd e) XOR fst (snd t) = l" "snd (snd e) XOR snd (snd t) = l'"
  using assms by (simp_all add: xor3o_def split_beta)

lemma correct_other_bit:
  assumes "length data = 16" "k < 16" "j < 8"
  shows "yaffs_ecc_correct_other (data[k := data ! k XOR push_bit j 1]) 16 (other_pack (other_sum data))
      (other_pack (other_sum (data[k := data ! k XOR push_bit j 1]))) = Some (1, data, other_pack (other_sum data))"
proof -
  note d = other_flip [OF assms(1,2), of "push_bit j 1", unfolded other_pack_flip [OF assms(3)]]
  have k: "unat (word_of_nat k :: u32) = k" using assms(2) by (simp add: unat_of_nat)
  have z: "\<not> (ucast x OR (word_of_nat k :: u32) OR NOT (word_of_nat k) = 0)" for x :: u8
    unfolding or.assoc bit.disj_cancel_right by simp
  have i: "\<not> 16 \<le> k" using assms(2) by simp
  show ?thesis
    unfolding yaffs_ecc_correct_other_def Let_def correct_other_delta [OF d] if_not_P [OF z] octet_pairs_low bit_masks octet_bits
      bit_index [OF assms(3)] k if_not_P [OF i]
    using assms by (simp add: rd_in wr_in xor.assoc del: rd_eq_Some)
qed

lemma hweight32_single: "n < 32 \<Longrightarrow> hweight32 (push_bit n 1) = Some 1"
proof -
  have "list_all (\<lambda>n. hweight32 (push_bit n 1) = Some 1) [0..<32]" by code_simp
  then show "n < 32 \<Longrightarrow> hweight32 (push_bit n 1) = Some 1" by (simp add: list_all_iff del: upt_rec_numeral)
qed

lemma hweight8_single: "n < 8 \<Longrightarrow> hweight8 (push_bit n 1) = Some 1"
proof -
  have "list_all (\<lambda>n. hweight8 (push_bit n 1) = Some 1) [0..<8]" by code_simp
  then show "n < 8 \<Longrightarrow> hweight8 (push_bit n 1) = Some 1" by (simp add: list_all_iff del: upt_rec_numeral)
qed

lemma hweight_zero: "hweight32 0 = Some 0" "hweight8 0 = Some 0"
  by code_simp+

text \<open>One flipped bit in the stored parity of the tags, of the column part or of one of the line parts.\<close>

lemma correct_other_parity:
  assumes "(\<exists>n < 8. xor3o e t = (push_bit n 1, 0, 0)) \<or> (\<exists>n < 32. xor3o e t = (0, push_bit n 1, 0)) \<or> (\<exists>n < 32. xor3o e t = (0, 0, push_bit n 1))"
  shows "yaffs_ecc_correct_other data 16 e t = Some (1, data, t)"
proof -
  have p8: "push_bit n (1 :: u8) \<noteq> 0" "ucast (push_bit n (1 :: u8)) \<noteq> (0 :: u32)" if "n < 8" for n
  proof -
    have "list_all (\<lambda>n. push_bit n (1 :: u8) \<noteq> 0 \<and> ucast (push_bit n (1 :: u8)) \<noteq> (0 :: u32)) [0..<8]" by code_simp
    then show "push_bit n (1 :: u8) \<noteq> 0" "ucast (push_bit n (1 :: u8)) \<noteq> (0 :: u32)"
      using that by (simp_all add: list_all_iff del: upt_rec_numeral)
  qed
  have p32: "push_bit n (1 :: u32) \<noteq> 0" "push_bit n (1 :: u32) \<noteq> -1" "NOT (push_bit n (1 :: u32)) \<noteq> 0" if "n < 32" for n
  proof -
    have "list_all (\<lambda>n. push_bit n (1 :: u32) \<noteq> 0 \<and> push_bit n (1 :: u32) \<noteq> -1 \<and> NOT (push_bit n (1 :: u32)) \<noteq> 0) [0..<32]" by code_simp
    then show "push_bit n (1 :: u32) \<noteq> 0" "push_bit n (1 :: u32) \<noteq> -1" "NOT (push_bit n (1 :: u32)) \<noteq> 0"
      using that by (simp_all add: list_all_iff del: upt_rec_numeral)
  qed
  from assms consider n where "n < 8" "xor3o e t = (push_bit n 1, 0, 0)" | n where "n < 32" "xor3o e t = (0, push_bit n 1, 0)"
    | n where "n < 32" "xor3o e t = (0, 0, push_bit n 1)" by blast
  then show ?thesis
  proof cases
    case 1
    show ?thesis unfolding yaffs_ecc_correct_other_def Let_def correct_other_delta [OF 1(2)]
      using p8 [OF 1(1)] hweight8_single [OF 1(1)] by (simp add: hweight_zero)
  next
    case 2
    show ?thesis unfolding yaffs_ecc_correct_other_def Let_def correct_other_delta [OF 2(2)]
      using p32 [OF 2(1)] hweight32_single [OF 2(1)] by (simp add: hweight_zero)
  next
    case 3
    show ?thesis unfolding yaffs_ecc_correct_other_def Let_def correct_other_delta [OF 3(2)]
      using p32 [OF 3(1)] hweight32_single [OF 3(1)] by (simp add: hweight_zero)
  qed
qed

section \<open>The structs as bytes\<close>

lemma nth_bytes32_Suc: "bytes32 w ! Suc 0 = byte_of 1 w" "bytes32 w ! Suc (Suc 0) = byte_of 2 w" "bytes32 w ! Suc (Suc (Suc 0)) = byte_of 3 w"
  by (simp_all add: bytes32_def)

lemma get32_shift: "i = length xs + j \<Longrightarrow> get32 (xs @ ys) i = get32 ys j"
  by (simp add: get32_def nth_append)

lemma get32_bytes32: "get32 (bytes32 w @ ys) 0 = w"
  using word32_byte_of [of w] by (simp add: get32_def bytes32_def numeral_eq_Suc del: word32_byte_of)

lemma bytes32_word32: "bytes32 (word32 b3 b2 b1 b0) = [b0, b1, b2, b3]"
proof -
  have "byte_of 0 (word32 b3 b2 b1 b0) = b0" "byte_of 1 (word32 b3 b2 b1 b0) = b1" "byte_of 2 (word32 b3 b2 b1 b0) = b2" "byte_of 3 (word32 b3 b2 b1 b0) = b3"
    by (rule bit_word_eqI, simp add: bit_word32 byte_of_def bit_simps)+
  then show ?thesis by (simp add: bytes32_def)
qed

lemma bytes32_get32: "i + 4 \<le> length xs \<Longrightarrow> bytes32 (get32 xs i) = take 4 (drop i xs)"
  by (rule nth_equalityI) (simp_all add: get32_def bytes32_word32 less_Suc_eq numeral_eq_Suc, auto)

lemma tag_bytes_length [simp]: "length (tag_bytes p) = 16"
  by (simp add: tag_bytes_def)

lemma tags_of_tag_bytes [simp]: "tags_of_bytes (tag_bytes p @ ys) = p"
proof -
  have "get32 (tag_bytes p @ ys) 0 = p_seq_number p"
    unfolding tag_bytes_def append_assoc by (rule get32_bytes32)
  moreover have "get32 (tag_bytes p @ ys) 4 = p_obj_id p"
    unfolding tag_bytes_def append_assoc by (subst get32_shift [where j = 0]) (simp_all add: get32_bytes32)
  moreover have "get32 (tag_bytes p @ ys) 8 = p_chunk_id p"
    unfolding tag_bytes_def append_assoc
    by (subst get32_shift [where j = 4], simp, subst get32_shift [where j = 0]) (simp_all add: get32_bytes32)
  moreover have "get32 (tag_bytes p @ ys) 12 = p_n_bytes p"
    unfolding tag_bytes_def append_assoc
    by (subst get32_shift [where j = 8], simp, subst get32_shift [where j = 4], simp, subst get32_shift [where j = 0]) (simp_all add: get32_bytes32)
  ultimately show ?thesis by (simp add: tags_of_bytes_def)
qed

lemma tag_bytes_of: "16 \<le> length bs \<Longrightarrow> tag_bytes (tags_of_bytes bs) = take 16 bs"
proof -
  assume "16 \<le> length bs"
  then have "tag_bytes (tags_of_bytes bs) = take 4 bs @ take 4 (drop 4 bs) @ take 4 (drop 8 bs) @ take 4 (drop 12 bs)"
    by (simp add: tag_bytes_def tags_of_bytes_def bytes32_get32)
  also have "\<dots> = take (4 + (4 + (4 + 4))) bs"
    unfolding take_add drop_drop by simp
  finally show ?thesis by simp
qed

lemma ecc_other_bytes_length: "length pad = 3 \<Longrightarrow> length (ecc_other_bytes pad e) = 12"
  by (simp add: ecc_other_bytes_def)

lemma ecc_other_of_ecc_other_bytes: "length pad = 3 \<Longrightarrow> ecc_other_of_bytes (ecc_other_bytes pad e) = e"
proof -
  assume pad: "length pad = 3"
  have "get32 (ecc_other_bytes pad e) 4 = fst (snd e)"
    unfolding ecc_other_bytes_def append_Cons [symmetric] using pad
    by (subst get32_shift [where j = 0]) (simp_all add: get32_bytes32)
  moreover have "get32 (ecc_other_bytes pad e) 8 = snd (snd e)"
    unfolding ecc_other_bytes_def append_Cons [symmetric] using pad get32_bytes32 [of "snd (snd e)" "[]"]
    by (subst get32_shift [where j = 4], simp, subst get32_shift [where j = 0]) simp_all
  ultimately show ?thesis by (simp add: ecc_other_of_bytes_def ecc_other_bytes_def)
qed

text \<open>A flipped bit of one of the four bytes of a word.\<close>

lemma get32_flip:
  assumes "i + 4 \<le> length bs" "k < 4" "j < 8"
  shows "get32 (flip_bit (i + k) j bs) i = get32 bs i XOR push_bit (8 * k + j) 1"
proof -
  have k: "k = 0 \<or> k = 1 \<or> k = 2 \<or> k = 3" using assms(2) by auto
  have "word32 (b3 XOR (if k = 3 then push_bit j 1 else 0)) (b2 XOR (if k = 2 then push_bit j 1 else 0))
      (b1 XOR (if k = 1 then push_bit j 1 else 0)) (b0 XOR (if k = 0 then push_bit j 1 else 0)) =
      word32 b3 b2 b1 b0 XOR push_bit (8 * k + j) 1" for b3 b2 b1 b0
    by (rule bit_word_eqI) (use k assms(3) in \<open>auto simp: bit_word32 bit_simps\<close>)
  then show ?thesis
    using k assms(1) by (auto simp: get32_def flip_bit_def nth_list_update)
qed

lemma get32_flip_other: "k < i \<or> i + 4 \<le> k \<Longrightarrow> get32 (flip_bit k j bs) i = get32 bs i"
  by (auto simp: get32_def flip_bit_def nth_list_update)

section \<open>Tags that can be stored\<close>

text \<open>
  What the packed form can express: a chunk of a file with its number of bytes, or an object header
  with its parent, type and the length or the linked object. What is only filled in when reading
  has the values reading gives it. The sequence numbers are those below the first that one flipped
  bit turns into the mark of an unused chunk.
\<close>

definition storable :: "ext_tags \<Rightarrow> bool" where
  "storable t \<longleftrightarrow> seq_number t < 0x7FFFFFFF \<and> chunk_used t = 1 \<and> block_bad t = 0 \<and> is_deleted t = 0 \<and> serial_number t = 0 \<and>
     (if extra_available t = 0 then
        \<not> bit (chunk_id t) 31 \<and> extra_parent_id t = 0 \<and> extra_is_shrink t = 0 \<and> extra_shadows t = 0 \<and> extra_obj_type t = 0 \<and>
        extra_file_size t = 0 \<and> extra_equiv_id t = 0
      else
        extra_available t = 1 \<and> chunk_id t = 0 \<and> n_bytes t = 0 \<and> extra_parent_id t < 0x10000000 \<and> obj_id t < 0x10000000 \<and>
        extra_is_shrink t \<in> {0, 1} \<and> extra_shadows t \<in> {0, 1} \<and> extra_obj_type t < 16 \<and>
        (if extra_obj_type t = OBJECT_TYPE_FILE then extra_file_size t < 0x80000000 else extra_file_size t = 0) \<and>
        (extra_obj_type t = OBJECT_TYPE_HARDLINK \<or> extra_equiv_id t = 0))"

lemma small_bits: "(x :: u32) < 2 ^ n \<Longrightarrow> n \<le> m \<Longrightarrow> \<not> bit x m"
  by (metis bit_take_bit_iff less_mask_eq linorder_not_less take_bit_eq_mask and.commute)

lemma flags: "EXTRA_HEADER_INFO_FLAG = push_bit 31 1" "EXTRA_SHRINK_FLAG = push_bit 30 1" "EXTRA_SHADOWS_FLAG = push_bit 29 1"
    "ALL_EXTRA_FLAGS = push_bit 28 (mask 4)"
  by (simp_all add: mask_eq_exp_minus_1)

lemma flag_test: "(x :: u32) AND push_bit n 1 \<noteq> 0 \<longleftrightarrow> bit x n"
  by (simp only: bit_iff_and_push_bit_not_eq_0)

lemma flag_bit: "bit (if b then push_bit m 1 else 0 :: u32) n \<longleftrightarrow> b \<and> n = m \<and> n < 32"
  by (auto simp: bit_simps dest: bit_imp_le_length)

text \<open>The flags and the parent in the chunk number, the type in the object number.\<close>

lemma header_chunk:
  fixes p :: u32 and a b :: bool
  assumes "p < 0x10000000"
  defines "c \<equiv> EXTRA_HEADER_INFO_FLAG OR p OR (if a then EXTRA_SHRINK_FLAG else 0) OR (if b then EXTRA_SHADOWS_FLAG else 0)"
  shows "c AND EXTRA_HEADER_INFO_FLAG \<noteq> 0" "c AND EXTRA_SHRINK_FLAG \<noteq> 0 \<longleftrightarrow> a" "c AND EXTRA_SHADOWS_FLAG \<noteq> 0 \<longleftrightarrow> b"
    "c AND NOT ALL_EXTRA_FLAGS = p"
proof -
  have p: "\<not> bit p n" if "28 \<le> n" for n
    by (rule small_bits [OF _ that]) (use assms(1) in simp)
  have c: "bit c n \<longleftrightarrow> n = 31 \<or> bit p n \<or> a \<and> n = 30 \<or> b \<and> n = 29" for n
    unfolding c_def flags bit_or_iff flag_bit using flag_bit [of True 31 n] by auto
  show "c AND EXTRA_HEADER_INFO_FLAG \<noteq> 0" unfolding flags flag_test c by simp
  show "c AND EXTRA_SHRINK_FLAG \<noteq> 0 \<longleftrightarrow> a" unfolding flags flag_test c by (simp add: p)
  show "c AND EXTRA_SHADOWS_FLAG \<noteq> 0 \<longleftrightarrow> b" unfolding flags flag_test c by (simp add: p)
  show "c AND NOT ALL_EXTRA_FLAGS = p"
  proof (rule bit_word_eqI)
    fix n
    assume "n < LENGTH(32)"
    then show "bit (c AND NOT ALL_EXTRA_FLAGS) n \<longleftrightarrow> bit p n"
      unfolding flags bit_and_iff c using p [of n] by (auto simp: bit_not_iff bit_push_bit_iff bit_mask_iff)
  qed
qed

lemma header_object:
  fixes q ty :: u32
  assumes "q < 0x10000000" "ty < 16"
  shows "drop_bit 28 (q AND NOT ALL_EXTRA_FLAGS OR push_bit 28 ty) = ty" "(q AND NOT ALL_EXTRA_FLAGS OR push_bit 28 ty) AND NOT ALL_EXTRA_FLAGS = q"
proof -
  have q: "\<not> bit q n" if "28 \<le> n" for n
    by (rule small_bits [OF _ that]) (use assms(1) in simp)
  have ty: "\<not> bit ty n" if "4 \<le> n" for n
    by (rule small_bits [OF _ that]) (use assms(2) in simp)
  have b: "bit (q AND NOT ALL_EXTRA_FLAGS OR push_bit 28 ty) n \<longleftrightarrow> bit q n \<or> 28 \<le> n \<and> n < 32 \<and> bit ty (n - 28)" if "n < 32" for n
    unfolding flags bit_or_iff bit_and_iff using q [of n] that by (auto simp: bit_not_iff bit_push_bit_iff bit_mask_iff)
  show "drop_bit 28 (q AND NOT ALL_EXTRA_FLAGS OR push_bit 28 ty) = ty"
  proof (rule bit_word_eqI)
    fix n
    assume "n < LENGTH(32)"
    show "bit (drop_bit 28 (q AND NOT ALL_EXTRA_FLAGS OR push_bit 28 ty)) n \<longleftrightarrow> bit ty n"
    proof (cases "n < 4")
      case True
      then have n: "28 + n < 32" by simp
      show ?thesis unfolding bit_drop_bit_eq comp_def b [OF n] using q [of "28 + n"] n by simp
    next
      case False
      then have "\<not> bit (q AND NOT ALL_EXTRA_FLAGS OR push_bit 28 ty) (28 + n)" using bit_imp_le_length by force
      then show ?thesis using ty False by (simp only: bit_drop_bit_eq comp_def)
    qed
  qed
  show "(q AND NOT ALL_EXTRA_FLAGS OR push_bit 28 ty) AND NOT ALL_EXTRA_FLAGS = q"
  proof (rule bit_word_eqI)
    fix n
    assume n: "n < LENGTH(32)"
    have "bit (NOT ALL_EXTRA_FLAGS) n \<longleftrightarrow> \<not> 28 \<le> n"
      using n unfolding flags by (auto simp: bit_not_iff bit_push_bit_iff bit_mask_iff)
    then show "bit ((q AND NOT ALL_EXTRA_FLAGS OR push_bit 28 ty) AND NOT ALL_EXTRA_FLAGS) n \<longleftrightarrow> bit q n"
      using n q [of n] b [of n] unfolding bit_and_iff [of "q AND NOT ALL_EXTRA_FLAGS OR push_bit 28 ty" "NOT ALL_EXTRA_FLAGS" n] by force
  qed
qed

lemma chunk_id_plain: "\<not> bit (c :: u32) 31 \<Longrightarrow> c AND EXTRA_HEADER_INFO_FLAG = 0"
  unfolding flags using flag_test [of c 31] by blast

lemma size_shift: "drop_bit 31 (x :: 64 word) \<noteq> 0 \<longleftrightarrow> \<not> x < 0x80000000"
proof -
  have "unat (drop_bit 31 x) = unat x div 2147483648"
    by (simp add: drop_bit_eq_div unat_div)
  then show ?thesis by (simp add: word_less_nat_alt unat_eq_0 [symmetric] div_eq_0_iff del: unat_eq_0 drop_bit_eq_div)
qed

lemma size_narrow: "(x :: 64 word) < 0x80000000 \<Longrightarrow> (ucast (ucast x :: u32) :: 64 word) = x"
  by (simp add: word_less_nat_alt word_unat_eq_iff unsigned_ucast_eq unsigned_take_bit_eq take_bit_nat_eq_self)

lemma unpack_pack:
  assumes "storable t"
  shows "yaffs_unpack_tags2_tags_only (yaffs_pack_tags2_tags_only t) = t\<lparr>ecc_result := ECC_UNKNOWN\<rparr>"
proof (cases "extra_available t = 0")
  case True
  then have "yaffs_check_tags_extra_packable t = False" by (simp add: yaffs_check_tags_extra_packable_def)
  moreover have "seq_number t \<noteq> 0xFFFFFFFF" using assms by (auto simp: storable_def)
  ultimately show ?thesis
    using assms True chunk_id_plain [of "chunk_id t"]
    by (cases t) (simp add: storable_def yaffs_pack_tags2_tags_only_def yaffs_unpack_tags2_tags_only_def zero_tags_def)
next
  case False
  have s: "extra_available t = 1" "chunk_id t = 0" "n_bytes t = 0" "extra_parent_id t < 0x10000000" "obj_id t < 0x10000000"
      "extra_is_shrink t = 0 \<or> extra_is_shrink t = 1" "extra_shadows t = 0 \<or> extra_shadows t = 1" "extra_obj_type t < 16"
      "extra_obj_type t = OBJECT_TYPE_FILE \<Longrightarrow> extra_file_size t < 0x80000000" "extra_obj_type t \<noteq> OBJECT_TYPE_FILE \<Longrightarrow> extra_file_size t = 0"
      "extra_obj_type t \<noteq> OBJECT_TYPE_HARDLINK \<Longrightarrow> extra_equiv_id t = 0"
      "chunk_used t = 1" "block_bad t = 0" "is_deleted t = 0" "serial_number t = 0"
    using assms False by (auto simp: storable_def split: if_splits)
  have n: "seq_number t \<noteq> 0xFFFFFFFF" using assms by (auto simp: storable_def)
  have p: "yaffs_check_tags_extra_packable t"
    using s size_shift [of "extra_file_size t"] by (auto simp: yaffs_check_tags_extra_packable_def)
  note c = header_chunk [OF s(4), of "extra_is_shrink t \<noteq> 0" "extra_shadows t \<noteq> 0"] and o = header_object [OF s(5,8)]
  show ?thesis
    unfolding yaffs_pack_tags2_tags_only_def if_P [OF p] yaffs_unpack_tags2_tags_only_def packed_tags2_tags_only.simps if_not_P [OF n] Let_def
      if_P [OF c(1)] c(2,3,4) o zero_tags_def ext_tags.simps
    using s size_narrow [of "extra_file_size t"] by (cases t) auto
qed

section \<open>Reading stored tags\<close>

definition stored_tags :: "u8 list \<Rightarrow> ext_tags \<Rightarrow> u8 list" where
  "stored_tags pad t = (let bs = tag_bytes (yaffs_pack_tags2_tags_only t) in bs @ ecc_other_bytes pad (other_pack (other_sum bs)))"

text \<open>A flipped bit in the stored tags and what reading them reports; the padding does not count.\<close>

definition hit_tags :: "(nat \<times> nat) option \<Rightarrow> u8 list \<Rightarrow> u8 list" where
  "hit_tags err bs = (case err of None \<Rightarrow> bs | Some (k, j) \<Rightarrow> flip_bit k j bs)"

definition tags_result :: "(nat \<times> nat) option \<Rightarrow> yaffs_ecc_result" where
  "tags_result err = (case err of None \<Rightarrow> ECC_NO_ERROR | Some (k, j) \<Rightarrow> if k \<in> {17, 18, 19} then ECC_NO_ERROR else ECC_FIXED)"

definition possible_tags :: "(nat \<times> nat) option \<Rightarrow> bool" where
  "possible_tags err \<longleftrightarrow> (case err of None \<Rightarrow> True | Some (k, j) \<Rightarrow> k < 28 \<and> j < 8)"

lemma pack_stored: "yaffs_pack_tags2 t = Some (yaffs_pack_tags2_tags_only t, other_pack (other_sum (tag_bytes (yaffs_pack_tags2_tags_only t))))"
  by (simp add: yaffs_pack_tags2_def calc_other Let_def)

lemma stored_tags_length: "length pad = 3 \<Longrightarrow> length (hit_tags err (stored_tags pad t)) = 28"
  by (auto simp: stored_tags_def hit_tags_def flip_bit_def ecc_other_bytes_length Let_def split: option.splits)

lemma flip_append1: "k < length xs \<Longrightarrow> flip_bit k j (xs @ ys) = flip_bit k j xs @ ys"
  by (simp add: flip_bit_def list_update_append1 nth_append)

lemma flip_append2: "length xs \<le> k \<Longrightarrow> flip_bit k j (xs @ ys) = xs @ flip_bit (k - length xs) j ys"
  by (simp add: flip_bit_def list_update_append nth_append)

text \<open>No flipped bit turns a sequence number into the mark of an unused chunk.\<close>

lemma seq_flip:
  assumes "(w :: u32) < 0x7FFFFFFF" "n < 32"
  shows "w XOR push_bit n 1 \<noteq> 0xFFFFFFFF"
proof
  assume "w XOR push_bit n 1 = 0xFFFFFFFF"
  from arg_cong [OF this, of "\<lambda>x. x XOR push_bit n 1"] have "w = 0xFFFFFFFF XOR push_bit n 1" by (simp only: xor.assoc xor_self_eq xor.right_neutral)
  moreover have "list_all (\<lambda>n. 0x7FFFFFFF \<le> (0xFFFFFFFF XOR push_bit n 1 :: u32)) [0..<32]" by code_simp
  then have "0x7FFFFFFF \<le> (0xFFFFFFFF XOR push_bit n 1 :: u32)" using assms(2) by (simp only: list_all_iff set_upt) simp
  ultimately show False using assms(1) by simp
qed

lemma correct_other_same: "yaffs_ecc_correct_other data n e e = Some (0, data, e)"
  by (simp add: yaffs_ecc_correct_other_def)

lemma pack_seq: "p_seq_number (yaffs_pack_tags2_tags_only t) = seq_number t"
  by (simp add: yaffs_pack_tags2_tags_only_def)

lemma unpack_corrected:
  assumes "storable t" "p_seq_number p' \<noteq> 0xFFFFFFFF"
    and "yaffs_ecc_correct_other (tag_bytes p') 16 e (other_pack (other_sum (tag_bytes p'))) = Some (r, tag_bytes (yaffs_pack_tags2_tags_only t), e')"
    and "r = 0 \<or> r = 1"
  shows "yaffs_unpack_tags2 (p', e) True = Some (t\<lparr>ecc_result := if r = 0 then ECC_NO_ERROR else ECC_FIXED\<rparr>)"
  using assms(2-4) tags_of_tag_bytes [of _ "[]"] unpack_pack [OF assms(1)]
  by (auto simp: yaffs_unpack_tags2_def calc_other)

lemma unpack_stored:
  assumes "storable t" "length pad = 3" "possible_tags err"
  defines "bs \<equiv> hit_tags err (stored_tags pad t)"
  shows "yaffs_unpack_tags2 (tags_of_bytes bs, ecc_other_of_bytes (drop 16 bs)) True = Some (t\<lparr>ecc_result := tags_result err\<rparr>)"
proof -
  obtain p where p: "p = yaffs_pack_tags2_tags_only t" by blast
  obtain e where e: "e = other_pack (other_sum (tag_bytes p))" by blast
  have st: "stored_tags pad t = tag_bytes p @ ecc_other_bytes pad e" by (simp add: stored_tags_def Let_def p e)
  have seq: "p_seq_number p < 0x7FFFFFFF" using assms(1) by (simp add: p pack_seq storable_def)
  then have seq': "p_seq_number p \<noteq> 0xFFFFFFFF" by auto
  consider "err = None" | k j where "err = Some (k, j)" "k < 16" "j < 8" | k j where "err = Some (k, j)" "16 \<le> k" "k < 28" "j < 8"
    using assms(3) by (cases err) (auto simp: possible_tags_def not_less [symmetric])
  then show ?thesis
  proof cases
    case 1
    then have "tags_of_bytes bs = p" "ecc_other_of_bytes (drop 16 bs) = e"
      by (simp_all add: bs_def hit_tags_def st ecc_other_of_ecc_other_bytes assms(2))
    then show ?thesis
      using unpack_corrected [OF assms(1) seq', of e 0 e] correct_other_same [of "tag_bytes p" 16 e] 1 by (simp add: p [symmetric] e [symmetric] tags_result_def)
  next
    case 2
    then have bs: "bs = flip_bit k j (tag_bytes p) @ ecc_other_bytes pad e"
      by (simp add: bs_def hit_tags_def st flip_append1)
    have t: "tag_bytes (tags_of_bytes bs) = flip_bit k j (tag_bytes p)"
      using tag_bytes_of [of bs] by (simp add: bs flip_bit_def)
    have "p_seq_number (tags_of_bytes bs) \<noteq> 0xFFFFFFFF"
    proof (cases "k < 4")
      case True
      have "p_seq_number (tags_of_bytes bs) = get32 (flip_bit (0 + k) j (tag_bytes p @ ecc_other_bytes pad e)) 0"
        using 2 by (simp add: bs tags_of_bytes_def flip_append1)
      also have "\<dots> = p_seq_number p XOR push_bit (8 * k + j) 1"
        using arg_cong [OF tags_of_tag_bytes [of p "ecc_other_bytes pad e"], of p_seq_number]
        by (subst get32_flip) (simp_all add: True 2 tags_of_bytes_def)
      finally show ?thesis using seq_flip [OF seq, of "8 * k + j"] True 2 by simp
    next
      case False
      have "p_seq_number (tags_of_bytes bs) = get32 (flip_bit k j (tag_bytes p @ ecc_other_bytes pad e)) 0"
        using 2 by (simp add: bs tags_of_bytes_def flip_append1)
      also have "\<dots> = p_seq_number p"
        using arg_cong [OF tags_of_tag_bytes [of p "ecc_other_bytes pad e"], of p_seq_number] False
        by (simp add: get32_flip_other tags_of_bytes_def)
      finally show ?thesis using seq' by simp
    qed
    moreover have "ecc_other_of_bytes (drop 16 bs) = e"
      by (simp add: bs flip_bit_def ecc_other_of_ecc_other_bytes assms(2))
    moreover note correct_other_bit [OF tag_bytes_length [of p] 2(2,3), folded e flip_bit_def]
    ultimately show ?thesis
      using unpack_corrected [OF assms(1), of "tags_of_bytes bs" e 1 e] 2 unfolding t by (simp add: p [symmetric] tags_result_def)
  next
    case 3
    then have bs: "bs = tag_bytes p @ flip_bit (k - 16) j (ecc_other_bytes pad e)"
      by (simp add: bs_def hit_tags_def st flip_append2)
    obtain e' where e': "e' = ecc_other_of_bytes (flip_bit (k - 16) j (ecc_other_bytes pad e))" by blast
    have tp: "tags_of_bytes bs = p" "ecc_other_of_bytes (drop 16 bs) = e'" by (simp_all add: bs e')
    have parts: "ecc_other_bytes pad e ! 0 = fst e" "get32 (ecc_other_bytes pad e) 4 = fst (snd e)" "get32 (ecc_other_bytes pad e) 8 = snd (snd e)"
      using ecc_other_of_ecc_other_bytes [OF assms(2), of e] by (cases e; simp add: ecc_other_of_bytes_def)+
    have len: "length (ecc_other_bytes pad e) = 12" by (rule ecc_other_bytes_length [OF assms(2)])
    let ?B = "ecc_other_bytes pad e"
    have other: "ecc_other_of_bytes (flip_bit m j ?B) = (flip_bit m j ?B ! 0, get32 (flip_bit m j ?B) 4, get32 (flip_bit m j ?B) 8)" for m
      by (simp add: ecc_other_of_bytes_def)
    have "(k = 16 \<or> k = 17 \<or> k = 18 \<or> k = 19) \<or> (20 \<le> k \<and> k < 24) \<or> 24 \<le> k" using 3(2) by linarith
    then consider "k = 16" | "k = 17 \<or> k = 18 \<or> k = 19" | "20 \<le> k" "k < 24" | "24 \<le> k" by blast
    then show ?thesis
    proof cases
      case 1
      have "e' = (fst e XOR push_bit j 1, fst (snd e), snd (snd e))"
        unfolding e' other 1 using parts len by (simp add: get32_flip_other) (simp add: flip_bit_def)
      then have "xor3o e' e = (push_bit j 1, 0, 0)" by (simp add: xor3o_def split_beta ac_simps)
      then have "yaffs_ecc_correct_other (tag_bytes p) 16 e' e = Some (1, tag_bytes p, e)"
        using 3(4) by (intro correct_other_parity) blast
      then show ?thesis
        using unpack_corrected [OF assms(1) seq', of e' 1 e] 1 3(1) by (simp add: tp p [symmetric] e [symmetric] tags_result_def)
    next
      case 2
      then have "flip_bit (k - 16) j ?B ! 0 = ?B ! 0" by (auto simp: flip_bit_def)
      moreover have "get32 (flip_bit (k - 16) j ?B) 4 = get32 ?B 4" "get32 (flip_bit (k - 16) j ?B) 8 = get32 ?B 8"
        using 2 by (auto intro!: get32_flip_other)
      ultimately have "e' = e" unfolding e' other parts by simp
      then show ?thesis
        using unpack_corrected [OF assms(1) seq', of e 0 e] correct_other_same [of "tag_bytes p" 16 e] 2 3(1)
        by (auto simp: tp p [symmetric] e [symmetric] tags_result_def)
    next
      case 3
      then have k: "k - 16 = 4 + (k - 20)" "k - 20 < 4" by simp_all
      have "get32 (flip_bit (4 + (k - 20)) j ?B) 4 = fst (snd e) XOR push_bit (8 * (k - 20) + j) 1"
        using get32_flip [of 4 ?B "k - 20" j] len k(2) \<open>j < 8\<close> parts by simp
      moreover have "get32 (flip_bit (4 + (k - 20)) j ?B) 8 = snd (snd e)" "flip_bit (4 + (k - 20)) j ?B ! 0 = fst e"
        using k(2) parts by (simp_all add: get32_flip_other) (simp add: flip_bit_def parts)
      ultimately have "e' = (fst e, fst (snd e) XOR push_bit (8 * (k - 20) + j) 1, snd (snd e))"
        unfolding e' k(1) other by simp
      then have "xor3o e' e = (0, push_bit (8 * (k - 20) + j) 1, 0)" by (simp add: xor3o_def split_beta ac_simps)
      moreover have "8 * (k - 20) + j < 32" using k(2) \<open>j < 8\<close> by simp
      ultimately have "yaffs_ecc_correct_other (tag_bytes p) 16 e' e = Some (1, tag_bytes p, e)"
        by (intro correct_other_parity) blast
      then show ?thesis
        using unpack_corrected [OF assms(1) seq', of e' 1 e] 3 \<open>err = Some (k, j)\<close> by (simp add: tp p [symmetric] e [symmetric] tags_result_def)
    next
      case 4
      then have k: "k - 16 = 8 + (k - 24)" "k - 24 < 4" using \<open>k < 28\<close> by simp_all
      have "get32 (flip_bit (8 + (k - 24)) j ?B) 8 = snd (snd e) XOR push_bit (8 * (k - 24) + j) 1"
        using get32_flip [of 8 ?B "k - 24" j] len k(2) \<open>j < 8\<close> parts by simp
      moreover have "get32 (flip_bit (8 + (k - 24)) j ?B) 4 = fst (snd e)" "flip_bit (8 + (k - 24)) j ?B ! 0 = fst e"
        using k(2) parts by (simp_all add: get32_flip_other) (simp add: flip_bit_def parts)
      ultimately have "e' = (fst e, fst (snd e), snd (snd e) XOR push_bit (8 * (k - 24) + j) 1)"
        unfolding e' k(1) other by simp
      then have "xor3o e' e = (0, 0, push_bit (8 * (k - 24) + j) 1)" by (simp add: xor3o_def split_beta ac_simps)
      moreover have "8 * (k - 24) + j < 32" using k(2) \<open>j < 8\<close> by simp
      ultimately have "yaffs_ecc_correct_other (tag_bytes p) 16 e' e = Some (1, tag_bytes p, e)"
        by (intro correct_other_parity) blast
      then show ?thesis
        using unpack_corrected [OF assms(1) seq', of e' 1 e] 4 \<open>err = Some (k, j)\<close> by (simp add: tp p [symmetric] e [symmetric] tags_result_def)
    qed
  qed
qed

section \<open>Chunks with their tags\<close>

definition plain_dev :: "yaffs_dev \<Rightarrow> bool" where
  "plain_dev dev \<longleftrightarrow> total_bytes_per_chunk dev = 2048 \<and> \<not> inband_tags dev \<and> \<not> no_tags_ecc dev"

text \<open>What the tags report about a page whose data and tags were read with these results.\<close>

definition joint_result :: "yaffs_ecc_result \<Rightarrow> yaffs_ecc_result \<Rightarrow> yaffs_ecc_result" where
  "joint_result data_res tags_res =
     (if data_res = ECC_UNFIXED then ECC_UNFIXED else if data_res = ECC_FIXED \<or> tags_res = ECC_FIXED then ECC_FIXED else ECC_NO_ERROR)"

definition count_result :: "yaffs_ecc_result \<Rightarrow> yaffs_dev \<Rightarrow> yaffs_dev" where
  "count_result res dev =
     (if res = ECC_UNFIXED then dev\<lparr>n_ecc_unfixed := n_ecc_unfixed dev + 1\<rparr>
      else if res = ECC_FIXED then dev\<lparr>n_ecc_fixed := n_ecc_fixed dev + 1\<rparr> else dev)"

lemma note_result_tags:
  "note_result (chunk_result err n) (Some (t\<lparr>ecc_result := tags_result te\<rparr>)) dev =
     (Some (t\<lparr>ecc_result := joint_result (chunk_result err n) (tags_result te)\<rparr>), count_result (chunk_result err n) dev)"
  by (auto simp: note_result_def joint_result_def count_result_def tags_result_def chunk_result_def split: option.splits)

lemma marshall_write:
  assumes "nand_contract N v" "unat p < 262144" "length data = 2048" "length pad = 3" "pages (v c) (unat p) = blank" "plain_dev dev"
  shows "\<exists>c1. yaffs_tags_marshall_write N k9f4g08u0b dev pad p (Some data) (Some t) c = Some (True, c1) \<and>
    pages (v c1) = (pages (v c))(unat p := page_image (\<lambda>_. Clean) data (stored_tags pad t))"
proof -
  have st: "tag_bytes (yaffs_pack_tags2_tags_only t) @ ecc_other_bytes pad (other_pack (other_sum (tag_bytes (yaffs_pack_tags2_tags_only t)))) = stored_tags pad t"
    by (simp add: stored_tags_def Let_def)
  have len: "length (stored_tags pad t) = 28"
    using stored_tags_length [OF assms(4), of None] by (simp add: hit_tags_def)
  show ?thesis
    using write_chunk [OF assms(1-3), of 28 "stored_tags pad t" c] assms(5,6) len
    by (simp add: yaffs_tags_marshall_write_def plain_dev_def pack_stored st)
qed

lemma marshall_read:
  assumes "nand_contract N v" "unat p < 262144" "length data = 2048" "length pad = 3" "plain_dev dev" "storable t"
    and "\<forall>k < 8. possible (err k)" "possible_tags te" "pages (v c) (unat p) = page_image err data (hit_tags te (stored_tags pad t))"
  shows "\<exists>c1. yaffs_tags_marshall_read N k9f4g08u0b dev p True True c =
      Some (chunk_result err 8 \<noteq> ECC_UNFIXED, Some (data_area (\<lambda>k. delivered (err k) (sector data k))),
        Some (t\<lparr>ecc_result := joint_result (chunk_result err 8) (tags_result te)\<rparr>), count_result (chunk_result err 8) dev, c1) \<and>
    pages (v c1) = pages (v c)"
proof -
  have len: "length (hit_tags te (stored_tags pad t)) = 28" by (rule stored_tags_length [OF assms(4)])
  then obtain c1 where "yaffs_nand_drv_ReadChunk N k9f4g08u0b p True (Some 28) c =
      Some (True, Some (data_area (\<lambda>k. delivered (err k) (sector data k))), Some (hit_tags te (stored_tags pad t)), chunk_result err 8, c1)"
    "pages (v c1) = pages (v c)"
    using read_chunk [OF assms(1-3) _ assms(7,9)] by auto
  then show ?thesis
    using assms(5) unpack_stored [OF assms(6,4,8)]
    by (simp add: yaffs_tags_marshall_read_def plain_dev_def note_result_tags)
qed

section \<open>Properties\<close>

text \<open>C13: A chunk written with its tags by \<open>yaffs_tags_marshall_write\<close> is read back by \<open>yaffs_tags_marshall_read\<close>:
  with at most one flipped bit in each sector and in the tags, both data and tags are those that
  were written and the result says whether something was corrected; with two flipped bits in a
  sector the read fails, the tags say that the data could not be corrected, and the tags themselves are
  still right. The device counts the two cases.\<close>

theorem tagged_chunk_roundtrip:
  assumes "nand_contract N v" "unat p < 262144" "length data = 2048" "length pad = 3" "pages (v c) (unat p) = blank" "plain_dev dev" "storable t"
  shows "\<exists>c1. yaffs_tags_marshall_write N k9f4g08u0b dev pad p (Some data) (Some t) c = Some (True, c1) \<and>
    pages (v c1) = (pages (v c))(unat p := page_image (\<lambda>_. Clean) data (stored_tags pad t)) \<and>
    (\<forall>err te c2. (\<forall>k < 8. possible (err k)) \<longrightarrow> possible_tags te \<longrightarrow>
        pages (v c2) (unat p) = page_image err data (hit_tags te (stored_tags pad t)) \<longrightarrow>
      (\<exists>c3. yaffs_tags_marshall_read N k9f4g08u0b dev p True True c2 =
          Some (chunk_result err 8 \<noteq> ECC_UNFIXED, Some (data_area (\<lambda>k. delivered (err k) (sector data k))),
            Some (t\<lparr>ecc_result := joint_result (chunk_result err 8) (tags_result te)\<rparr>), count_result (chunk_result err 8) dev, c3) \<and>
        pages (v c3) = pages (v c2)) \<and>
      ((\<forall>k < 8. \<not> uncorrectable (err k)) \<longrightarrow>
        chunk_result err 8 \<noteq> ECC_UNFIXED \<and> data_area (\<lambda>k. delivered (err k) (sector data k)) = data))"
  using marshall_write [OF assms(1-6), of t] marshall_read [OF assms(1-4,6,7)] delivered_clean [OF assms(3)]
  by (auto simp: chunk_result_def)

lemma tagged_chunk_roundtrip_witness:
  "\<exists>c1 c3. yaffs_tags_marshall_write sheet_chip k9f4g08u0b k9f4g08u0b_dev [1, 2, 3] 70 (Some (replicate 2048 0x5A))
       (Some (zero_tags\<lparr>chunk_used := 1, obj_id := 257, chunk_id := 3, n_bytes := 2048, seq_number := 4096\<rparr>)) new_chip = Some (True, c1) \<and>
     yaffs_tags_marshall_read sheet_chip k9f4g08u0b k9f4g08u0b_dev 70 True True c1 =
       Some (True, Some (replicate 2048 0x5A),
         Some (zero_tags\<lparr>chunk_used := 1, obj_id := 257, chunk_id := 3, n_bytes := 2048, seq_number := 4096, ecc_result := ECC_NO_ERROR\<rparr>),
         k9f4g08u0b_dev, c3)"
proof -
  obtain data where d: "data = replicate 2048 (0x5A :: u8)" by blast
  obtain t where t: "t = zero_tags\<lparr>chunk_used := 1, obj_id := 257, chunk_id := 3, n_bytes := 2048, seq_number := 4096\<rparr>" by blast
  obtain pad where pad: "pad = [1, 2, 3 :: u8]" by blast
  have len: "length data = 2048" "length pad = 3" by (simp_all add: d pad)
  have h: "unat (70 :: u32) < 262144" "pages (id new_chip) (unat (70 :: u32)) = blank" "plain_dev k9f4g08u0b_dev"
    by (simp_all add: new_chip_def plain_dev_def k9f4g08u0b_dev_def)
  have st: "storable t" by (simp add: t storable_def zero_tags_def)
  have res: "chunk_result (\<lambda>_. Clean) 8 = ECC_NO_ERROR" "joint_result ECC_NO_ERROR (tags_result None) = ECC_NO_ERROR"
      "count_result ECC_NO_ERROR k9f4g08u0b_dev = k9f4g08u0b_dev" "hit_tags None x = x" "possible_tags None" for x
    by (simp_all add: chunk_result_def joint_result_def tags_result_def count_result_def hit_tags_def possible_tags_def)
  note rt = tagged_chunk_roundtrip [OF sheet_chip_contract h(1) len h(2,3) st]
  show ?thesis
    using rt
  proof (elim exE conjE)
    fix c1
    assume c1: "yaffs_tags_marshall_write sheet_chip k9f4g08u0b k9f4g08u0b_dev pad 70 (Some data) (Some t) new_chip = Some (True, c1)"
      and p: "pages (id c1) = (pages (id new_chip))(unat (70 :: u32) := page_image (\<lambda>_. Clean) data (stored_tags pad t))"
      and r: "\<forall>err te c2. (\<forall>k < 8. possible (err k)) \<longrightarrow> possible_tags te \<longrightarrow>
        pages (id c2) (unat (70 :: u32)) = page_image err data (hit_tags te (stored_tags pad t)) \<longrightarrow>
      (\<exists>c3. yaffs_tags_marshall_read sheet_chip k9f4g08u0b k9f4g08u0b_dev 70 True True c2 =
          Some (chunk_result err 8 \<noteq> ECC_UNFIXED, Some (data_area (\<lambda>k. delivered (err k) (sector data k))),
            Some (t\<lparr>ecc_result := joint_result (chunk_result err 8) (tags_result te)\<rparr>), count_result (chunk_result err 8) k9f4g08u0b_dev, c3) \<and>
        pages (id c3) = pages (id c2)) \<and>
      ((\<forall>k < 8. \<not> uncorrectable (err k)) \<longrightarrow>
        chunk_result err 8 \<noteq> ECC_UNFIXED \<and> data_area (\<lambda>k. delivered (err k) (sector data k)) = data)"
    have "pages (id c1) (unat (70 :: u32)) = page_image (\<lambda>_. Clean) data (hit_tags None (stored_tags pad t))"
      unfolding p res by simp
    note rc = r [rule_format, of "\<lambda>_. Clean", OF _ res(5) this, unfolded res]
    then have a: "data_area (\<lambda>k. delivered Clean (sector data k)) = data" by simp
    from rc have "\<exists>c3. yaffs_tags_marshall_read sheet_chip k9f4g08u0b k9f4g08u0b_dev 70 True True c1 =
        Some (True, Some data, Some (t\<lparr>ecc_result := ECC_NO_ERROR\<rparr>), k9f4g08u0b_dev, c3)"
      unfolding a by auto
    with c1 show ?thesis unfolding d t pad by auto
  qed
qed

end
