(* ===== verification/Spec2Isabelle.thy ===== *)
theory Spec2Isabelle
  imports Acquisition Com_Rs485 Eeprom_Store Display Ir_Key Mb_Poll Os_Mem Os_System Os_Flag Config_Default Clock Calibrate Nand_Tags
begin

text \<open>
  Firmware of a gas-monitoring substation (NXP LPC1788, uC/OS-II): a verification library.

  \<^bold>\<open>The program.\<close> The substation keeps a list of measuring points (\<open>Task/EquipmentList.c\<close>), each
  with the functions of one of four sensor classes (\<open>Task/Sensor_Operation.c\<close>). An acquisition
  board sends frames over UART 1; a task takes them from the interrupt handler's buffer and
  distributes the values to the points (\<open>BoardSupport/com_uart.c\<close>, \<open>Task/task_UartRcv.c\<close>); sensors on RS485 are asked
  by the same driver. The paint handler of the display (\<open>User/user_menu.c\<close>) computes from the points the byte
  that switches the outputs. An infrared remote control (\<open>User/user_key.c\<close>) and dialogs
  (\<open>User/user_Set*.c\<close>, \<open>user_Correct.c\<close>) change settings that are kept in a serial EEPROM
  (\<open>User/user_SaveOption.c\<close>), the points in a file (\<open>User/user_file.c\<close>). A Modbus RTU master
  (\<open>FreeModbus/modbus\<close>) talks to further devices. Everything runs on uC/OS-II (\<open>uCOS-II/Source\<close>).

  \<^bold>\<open>Conventions.\<close> A C struct is a record, an enumeration a datatype, an integer a word of its width
  (\<open>INT32S\<close> as its 32 bits). A definition whose type is an option is \<open>None\<close> exactly where the code
  has undefined behaviour: an access outside an array, a NULL or dead pointer, a union read as the
  wrong member; error returns of the code are values. Global variables are threaded through
  explicitly; device registers, texts of input fields and file contents are inputs. Pointers to
  nodes that are allocated are natural numbers in a heap, a map to records. Code that is not in the
  repository's sources (the serial bus and the chip behind it, the file system as documented) is a
  parameter whose contract is a named hypothesis, instantiated in the witnesses. A loop over data
  is a recursive function; one over linked nodes is \<open>partial_function (option)\<close>, and the
  properties state that it returns. No fuel is used.

  \<^bold>\<open>The theories.\<close>
  \<^item> \<open>Prelude\<close>: widths, array accesses, strings, runs of a step function, words and bytes.
    \<open>C_Text\<close>: decimal printing and scanning; \<open>C_Float\<close>: printing and scanning of single precision
    numbers; \<open>C_Memory\<close>: a struct as its bytes.
  \<^item> \<open>Sensor_Data\<close>, \<open>Sensor_Operation\<close>: the types of \<open>Task/Sensor.h\<close> and the functions of the four
    classes; what configuring, reading a channel and the output masks do.
  \<^item> \<open>Equipment_List\<close>: the list on the heap, insertion, initialisation and deletion, as an
    abstract list of points.
  \<^item> \<open>Com_Uart1\<close>, \<open>Com_Rs485\<close>: the interrupt handlers as steps over a driver state; receiving what
    was sent, framing, overruns.
  \<^item> \<open>Acquisition\<close>: one round of the UART task and the update of the list; which frames are
    distributed.
  \<^item> \<open>Show_Info\<close>, \<open>Display\<close>: the texts of a point and the paint handler with its output byte.
  \<^item> \<open>Ir_Key\<close>: the decoder of pulses, its timer and the key task.
  \<^item> \<open>Eeprom_Store\<close>: settings and calibration in the EEPROM. \<open>Dialogs\<close>: network addresses and bit
    rates; \<open>Clock\<close>: the date check and the clock driver; \<open>Calibrate\<close>: measuring a port.
  \<^item> \<open>Config_File\<close>, \<open>Config_Roundtrip\<close>, \<open>Config_Boot\<close>, \<open>Config_Default\<close>: saving and reading the
    points, building the list at start-up, the default file.
  \<^item> \<open>Nand_Ecc\<close>, \<open>Nand_Flash\<close>, \<open>Nand_Chunk\<close>, \<open>Nand_Tags\<close>: the flash memory under the file system
    (\<open>BoardSupport/nandflash_k9f4g08u0b.c\<close>, \<open>YAFFS2/yaffs_ecc.c\<close>, \<open>yaffs_nand_drv.c\<close>, \<open>yaffs_packedtags2.c\<close>,
    \<open>yaffs_tagsmarshall.c\<close>): parity and correction as sums over exclusive or, the driver on a chip with the
    contract of its data sheet, pages under flipped bits, chunks with tags.
  \<^item> \<open>Mb_Crc\<close>: the table-driven checksum as polynomial division; \<open>Mb_Master\<close>: the RTU state machine;
    \<open>Mb_Func\<close>: handlers of replies; \<open>Mb_Poll\<close>: requests, the poll task and whole exchanges.
  \<^item> \<open>Os_Core\<close>: ready list, scheduler, interrupt nesting, wait lists and tick of \<open>os_core.c\<close>;
    \<open>Os_Ipc\<close>: queues and semaphores, \<open>Os_Services\<close>: their deletion, abortion, options and queries,
    \<open>Os_Mbox\<close>: mailboxes; \<open>Os_Time\<close>: delays; \<open>Os_Mem\<close>: memory partitions as stacks;
    \<open>Os_Flag\<close>: event flag groups and their doubly linked wait lists; \<open>Os_System\<close>: the kernel as a
    transition system of calls of tasks and interrupt handlers, its invariant and exact delays.

  \<^bold>\<open>How the parts are put together.\<close> \<open>Acquisition\<close> composes the driver, the list and the sensor
  functions; \<open>Config_Boot\<close> the file, the scanner and the list; \<open>Dialogs\<close> the scanner and the EEPROM
  store; \<open>Ir_Key\<close> and \<open>Os_System\<close> use the kernel's services. \<open>Mb_Poll\<close> keeps the event group of the
  Modbus port as its set of flags; \<open>Os_Flag\<close> models the service it stands for. A request that waits for the master is
  a call evaluated again with the clock ticks it has waited, until it gets the resource or its time limit is over. Interfaces are
  locales, each interpreted on the model's own definitions: bounded queues and deques (the ring of
  \<open>OS_Q\<close> and the mailbox), sets of priorities (the kernel's bit tables), sensor classes (the four of them),
  interrupt handlers without undefined behaviour (UART 1 and the keys), parities (of sectors and of
  tags) and simulations (memory partitions as stacks, message queues as bounded lists). The serial bus and the file system are parameters with their contracts as hypotheses.

  \<^bold>\<open>What the properties show.\<close> Functional behaviour and round trips of every link from a sensor to
  the screen and the outputs, the kernel's invariant and refinements, termination of the start-up on files without switches,
  and, where the code does not do what it means to, exactly what it does instead: overruns of
  receive buffers, a clock driver that loops forever, dialogs that clear bit rates, a
  configuration file that cannot be read back, a flash driver that erases other blocks than it is told, a flag group whose deletion breaks the free list.

  \<^bold>\<open>Bounds.\<close> All loops of the model end by themselves. Numbers of points, frames, pulses and calls
  are arbitrary; sizes of arrays are those of the code.

  \<^bold>\<open>Not modelled.\<close> Drawing and cursor movement in the dialogs and the test-bench screens (calls of
  the GUI library), set-up of pins and clocks, board drivers that only access registers, the
  floating-point part of the calibration, the kernel's mutexes, timers and task
  management (unused but for the creation of the tasks), the parts of FreeModbus that are not
  configured (slave, ASCII, TCP), and the vendored libraries (the rest of YAFFS2, lwIP, GoAhead, the GUI library, the drivers of
  the chip). Interrupts are atomic steps between the statements of tasks, as the critical
  sections of the kernel make them.
\<close>

end
